(* ===== verification/Prelude.thy ===== *)
theory Prelude
  imports Main "HOL-Library.Word"
begin

section \<open>Shared lemmas and lemma collections\<close>

text \<open>
  What every theory of the development uses: the collections of rewrite rules
  (\<^theory_text>\<open>sint_sem\<close>, the integer meaning of the operations of \<open>SInt\<close>;
  \<^theory_text>\<open>sint_wf\<close>, the operations that keep its invariant), facts that move 64-bit
  words to integers modulo a power of two, and the case analysis that turns a sum, a
  difference or a negation modulo \<open>M\<close> of two numbers below \<open>M\<close> into linear arithmetic.
\<close>

unbundle bit_operations_syntax

named_theorems sint_sem "integer meaning of the operations of SInt"
named_theorems sint_wf "the operations of SInt keep the unused bits clear"

type_synonym u64 = "64 word"
type_synonym u32 = "32 word"

subsection \<open>Words and integers modulo a power of two\<close>

lemma mod_pow64:
  fixes x :: int
  assumes "n \<le> 64"
  shows "x mod 18446744073709551616 mod 2 ^ n = x mod 2 ^ n"
proof -
  from assms have "(2::int) ^ n dvd 2 ^ 64" by (rule le_imp_power_dvd)
  then show ?thesis by (simp add: mod_mod_cancel)
qed

lemma uint_plus_mod:
  "n \<le> 64 \<Longrightarrow> uint (a + b :: u64) mod 2 ^ n = (uint a + uint b) mod 2 ^ n"
  by (simp add: uint_word_ariths mod_pow64)

lemma uint_minus_mod:
  "n \<le> 64 \<Longrightarrow> uint (a - b :: u64) mod 2 ^ n = (uint a - uint b) mod 2 ^ n"
  by (simp add: uint_word_ariths mod_pow64)

lemma uint_times_mod:
  "n \<le> 64 \<Longrightarrow> uint (a * b :: u64) mod 2 ^ n = (uint a * uint b) mod 2 ^ n"
  by (simp add: uint_word_ariths mod_pow64)

lemma uint_drop_bit64: "uint (drop_bit n (v :: u64)) = uint v div 2 ^ n"
proof -
  have "uint (drop_bit n v) = drop_bit n (uint v)"
    by (rule bit_eqI) (auto simp: bit_simps bit_uint_iff bit_word_iff_drop_bit_and dest: bit_imp_le_length)
  then show ?thesis by (simp only: drop_bit_eq_div)
qed

lemma uint_push_bit64: "uint (push_bit n (v :: u64)) = (uint v * 2 ^ n) mod 2 ^ 64"
proof -
  have "uint (push_bit n v) = take_bit 64 (push_bit n (uint v))"
    by (rule bit_eqI) (auto simp: bit_simps bit_uint_iff)
  then show ?thesis by (simp only: take_bit_eq_mod push_bit_eq_mult)
qed

lemma uint_and_mask: "uint (v AND mask n :: u64) = uint v mod 2 ^ n"
  by (simp flip: take_bit_eq_mask take_bit_eq_mod) (simp add: unsigned_take_bit_eq)

lemma drop_bit_minus_1_mask: "n \<le> 64 \<Longrightarrow> drop_bit (64 - n) (- 1 :: u64) = mask n"
  by (intro bit_word_eqI) (auto simp: bit_simps)

lemma uint_minus_1: "uint (- 1 :: u64) = 2 ^ 64 - 1"
  by (simp only: unsigned_minus_1_eq_mask mask_eq_exp_minus_1) simp

lemma uint_mask64: "n \<le> 64 \<Longrightarrow> uint (mask n :: u64) = 2 ^ n - 1"
proof -
  assume n: "n \<le> 64"
  have "uint (mask n :: u64) = uint (- 1 :: u64) mod 2 ^ n"
    using uint_and_mask [of "- 1" n] by (simp only: and.left_neutral)
  also have "\<dots> = take_bit n (mask 64)"
    by (simp only: unsigned_minus_1_eq_mask take_bit_eq_mod) simp
  also have "\<dots> = mask n" using n by (simp add: min_def)
  finally show ?thesis by (simp only: mask_eq_exp_minus_1)
qed

subsection \<open>Linear arithmetic modulo \<open>M\<close>\<close>

lemma mod_add_if:
  fixes a b M :: int
  assumes "0 \<le> a" "a < M" "0 \<le> b" "b < M"
  shows "(a + b) mod M = (if a + b < M then a + b else a + b - M)"
proof (cases "a + b < M")
  case True
  with assms show ?thesis by simp
next
  case False
  have "(a + b) mod M = (a + b - M) mod M" by (simp only: minus_mod_self2)
  also have "\<dots> = a + b - M" using assms False by (intro mod_pos_pos_trivial) auto
  finally show ?thesis using False by simp
qed

lemma mod_sub_if:
  fixes a b M :: int
  assumes "0 \<le> a" "a < M" "0 \<le> b" "b < M"
  shows "(a - b) mod M = (if b \<le> a then a - b else a - b + M)"
proof (cases "b \<le> a")
  case True
  with assms show ?thesis by simp
next
  case False
  have "(a - b) mod M = (a - b + M) mod M" by (simp only: mod_add_self2)
  also have "\<dots> = a - b + M" using assms False by (intro mod_pos_pos_trivial) auto
  finally show ?thesis using False by simp
qed

lemma mod_minus_if:
  fixes a M :: int
  assumes "0 \<le> a" "a < M"
  shows "(- a) mod M = (if a = 0 then 0 else M - a)"
  using mod_sub_if [of 0 M a] assms by auto

subsection \<open>Division\<close>

lemma zdiv_le_self:
  fixes a d :: int
  assumes "0 \<le> a" "1 \<le> d"
  shows "a div d \<le> a"
  using zdiv_mono2 [of a 1 d] assms by simp

lemma zdiv_range:
  fixes a d H :: int
  assumes "1 \<le> d" "- H \<le> a" "a < H"
  shows "- H \<le> a div d" "a div d < H"
proof -
  show "a div d < H"
  proof (cases "0 \<le> a")
    case True
    then show ?thesis using zdiv_le_self [of a d] assms by linarith
  next
    case False
    then have "a div d < 0" using assms by (simp add: pos_imp_zdiv_neg_iff)
    with False assms show ?thesis by linarith
  qed
  show "- H \<le> a div d"
  proof (cases "0 \<le> a")
    case True
    then have "0 \<le> a div d" using assms by (simp add: pos_imp_zdiv_nonneg_iff)
    with True assms show ?thesis by linarith
  next
    case False
    have "a div 1 \<le> a div d" using zdiv_mono2_neg [of a 1 d] False assms by simp
    with assms show ?thesis by simp
  qed
qed

end
