(* ===== verification/BitArith.thy ===== *)
theory BitArith
  imports Prelude
begin

section \<open>Bit arithmetic (\<open>Arithmetic.h\<close>, \<open>Arithmetic.cpp\<close>)\<close>

text \<open>
  The bit-counting templates of \<open>include/cangjie/CHIR/Analysis/Arithmetic.h\<close> and
  \<open>SignExtend64\<close> of \<open>src/CHIR/Analysis/Arithmetic.cpp\<close>. The templates are used by
  \<open>SInt\<close> at 64 bits, where they call the compiler's builtins
  (\<open>__builtin_clzll\<close>, \<open>__builtin_ctzll\<close>, \<open>__builtin_popcountll\<close>), which are modelled
  by what they count; the bisection loops that the header falls back to are modelled
  as loops, for words of any length, and proved to count the same.
\<close>

subsection \<open>What the builtins count\<close>

fun bit_len :: "nat \<Rightarrow> nat" where
  "bit_len n = (if n = 0 then 0 else Suc (bit_len (n div 2)))"

fun trail_zeros :: "nat \<Rightarrow> nat" where
  "trail_zeros n = (if n = 0 \<or> odd n then 0 else Suc (trail_zeros (n div 2)))"

fun bit_count :: "nat \<Rightarrow> nat" where
  "bit_count n = (if n = 0 then 0 else n mod 2 + bit_count (n div 2))"

declare bit_len.simps [simp del] trail_zeros.simps [simp del] bit_count.simps [simp del]

lemma bit_len_0 [simp]: "bit_len 0 = 0"
  by (simp add: bit_len.simps)

lemma bit_len_le_iff: "bit_len n \<le> k \<longleftrightarrow> n < 2 ^ k"
proof (induction n arbitrary: k rule: bit_len.induct)
  case (1 n)
  show ?case
  proof (cases "n = 0")
    case False
    show ?thesis
    proof (cases k)
      case 0
      with False show ?thesis by (simp add: bit_len.simps [of n])
    next
      case (Suc j)
      with 1 [OF False, of j] False show ?thesis
        by (simp add: bit_len.simps [of n]) linarith
    qed
  qed simp
qed

lemma bit_len_gt_iff: "k < bit_len n \<longleftrightarrow> 2 ^ k \<le> n"
  using bit_len_le_iff [of n k] by (simp add: not_le [symmetric] del: not_le)

lemma bit_len_div: "bit_len (n div 2 ^ k) = bit_len n - k"
proof (induction k arbitrary: n)
  case (Suc k)
  have "n div 2 ^ Suc k = (n div 2) div 2 ^ k" by (simp add: div_mult2_eq)
  moreover have "bit_len (n div 2) = bit_len n - 1"
    by (cases "n = 0") (simp_all add: bit_len.simps [of n])
  ultimately show ?case using Suc [of "n div 2"] by simp
qed simp

subsection \<open>The 64-bit counters\<close>

definition SignExtend64 :: "u64 \<Rightarrow> nat \<Rightarrow> u64" where
  "SignExtend64 v srcWidth = signed_drop_bit (64 - srcWidth) (push_bit (64 - srcWidth) v)"

definition IsPowerOf2 :: "u64 \<Rightarrow> bool" where
  "IsPowerOf2 v \<longleftrightarrow> v \<noteq> 0 \<and> v AND (v - 1) = 0"

definition Clz :: "u64 \<Rightarrow> nat" where
  "Clz v = (if v = 0 then 64 else 64 - bit_len (unat v))"

definition Clo :: "u64 \<Rightarrow> nat" where
  "Clo v = Clz (NOT v)"

definition Ctz :: "u64 \<Rightarrow> nat" where
  "Ctz v = (if v = 0 then 64 else trail_zeros (unat v))"

definition Cto :: "u64 \<Rightarrow> nat" where
  "Cto v = Ctz (NOT v)"

definition Popcnt :: "u64 \<Rightarrow> nat" where
  "Popcnt v = bit_count (unat v)"

subsection \<open>The bisection loops\<close>

text \<open>
  \<open>LeadingZeroesCounter::Count\<close> and \<open>TrailingZeroesCounter::Count\<close> at a word type
  \<open>T\<close>: \<open>shift\<close> starts at half the digits of \<open>T\<close> and is halved until it is 0.
\<close>

function lzc_loop :: "nat \<Rightarrow> 'a::len word \<Rightarrow> nat \<Rightarrow> nat" where
  "lzc_loop shift v zeroBits =
     (if shift = 0 then zeroBits
      else let tmp = drop_bit shift v in
        if tmp \<noteq> 0 then lzc_loop (shift div 2) tmp zeroBits
        else lzc_loop (shift div 2) v (zeroBits OR shift))"
  by pat_completeness auto
termination by (relation "measure (\<lambda>(shift, _, _). shift)") auto

definition LeadingZeroesCounter_Count :: "'a::len word \<Rightarrow> nat" where
  "LeadingZeroesCounter_Count v = lzc_loop (LENGTH('a) div 2) v 0"

function tzc_loop :: "nat \<Rightarrow> 'a::len word \<Rightarrow> 'a word \<Rightarrow> nat \<Rightarrow> nat" where
  "tzc_loop shift msk v zeroBits =
     (if shift = 0 then zeroBits
      else let (v', zeroBits') =
             (if v AND msk = 0 then (drop_bit shift v, zeroBits OR shift) else (v, zeroBits));
               shift' = shift div 2
           in tzc_loop shift' (drop_bit shift' msk) v' zeroBits')"
  by pat_completeness auto
termination by (relation "measure (\<lambda>(shift, _, _, _). shift)") (auto split: if_splits)

definition TrailingZeroesCounter_Count :: "'a::len word \<Rightarrow> nat" where
  "TrailingZeroesCounter_Count v =
     (if v AND 1 \<noteq> 0 then 0
      else let shift = LENGTH('a) div 2 in tzc_loop shift (drop_bit shift (- 1)) v 0)"

declare lzc_loop.simps [simp del] tzc_loop.simps [simp del]

subsection \<open>Facts\<close>

lemma sint_SignExtend64_bits:
  assumes "0 < n" "n \<le> 64" "uint v < 2 ^ n"
  shows "sint (SignExtend64 v n) = signed_take_bit (n - 1) (uint v)"
  using assms unfolding SignExtend64_def sint_signed_drop_bit_eq
  by (intro bit_eqI)
    (auto simp: bit_simps bit_sint_iff bit_uint_iff min_def split: if_splits)

lemma sint_SignExtend64:
  assumes "0 < n" "n \<le> 64" "uint v < 2 ^ n"
  shows "sint (SignExtend64 v n) =
    (if uint v < 2 ^ (n - 1) then uint v else uint v - 2 ^ n)"
proof -
  define m where "m = n - 1"
  have n: "n = Suc m" using assms(1) by (simp add: m_def)
  have "signed_take_bit m (uint v) = (uint v + 2 ^ m) mod 2 ^ n - 2 ^ m"
    by (simp add: signed_take_bit_eq_take_bit_shift take_bit_eq_mod n)
  also have "(uint v + 2 ^ m) mod 2 ^ n =
      (if uint v + 2 ^ m < 2 ^ n then uint v + 2 ^ m else uint v + 2 ^ m - 2 ^ n)"
    using assms(3) by (intro mod_add_if) (auto simp: n)
  finally show ?thesis
    using sint_SignExtend64_bits [OF assms] by (auto simp: n)
qed

text \<open>The bisection counter is the builtin: \<open>shift\<close> runs through the powers of two.\<close>

lemma or_eq_add_dvd:
  fixes a :: nat
  assumes "2 ^ Suc k dvd a"
  shows "a OR 2 ^ k = a + 2 ^ k"
proof -
  have "\<not> bit a k"
    using assms by (auto simp: bit_iff_odd elim!: dvdE)
  then have "a + 2 ^ k = a OR 2 ^ k"
    by (intro disjunctive_add_eq_or bit_eqI) (auto simp: bit_simps)
  then show ?thesis by simp
qed

lemma lzc_loop_correct:
  fixes v :: "'a::len word"
  assumes "v \<noteq> 0" "unat v < 2 ^ 2 ^ Suc k" "2 ^ Suc k dvd z"
  shows "lzc_loop (2 ^ k) v z = z + 2 ^ Suc k - bit_len (unat v)"
  using assms
proof (induction k arbitrary: v z)
  case 0
  have u: "unat (drop_bit (Suc 0) v) = unat v div 2"
    by (subst unat_drop_bit_eq) (simp add: drop_bit_eq_div)
  from 0 have "unat v < 4" "unat v \<noteq> 0" by (simp_all add: unat_eq_zero)
  then consider "unat v = 1" | "unat v = 2" | "unat v = 3" by linarith
  moreover have "drop_bit (Suc 0) v = 0 \<longleftrightarrow> unat v div 2 = 0"
    by (simp add: unat_eq_zero [symmetric] u del: unat_eq_zero)
  moreover have "z OR 1 = z + 1" using or_eq_add_dvd [of 0 z] 0 by simp
  ultimately show ?case
    by cases (simp_all add: lzc_loop.simps [of "Suc 0"] lzc_loop.simps [of 0] bit_len.simps)
next
  case (Suc k)
  let ?s = "2 ^ Suc k :: nat"
  have u: "unat (drop_bit ?s v) = unat v div 2 ^ ?s"
    by (subst unat_drop_bit_eq) (simp add: drop_bit_eq_div)
  have half: "?s div 2 = 2 ^ k" by simp
  have dvd: "2 ^ Suc k dvd z" using Suc.prems(3) by (meson dvd_trans le_imp_power_dvd le_SucI order_refl)
  show ?case
  proof (cases "drop_bit ?s v = 0")
    case True
    then have lt: "unat v < 2 ^ ?s"
      using u by (simp add: unat_eq_zero [symmetric] div_eq_0_iff del: unat_eq_zero)
    have "lzc_loop ?s v z = lzc_loop (2 ^ k) v (z OR ?s)"
      by (subst lzc_loop.simps) (use True half in \<open>simp add: Let_def del: power_Suc\<close>)
    also have "\<dots> = (z OR ?s) + ?s - bit_len (unat v)"
      using Suc.IH [OF Suc.prems(1) lt] dvd or_eq_add_dvd [OF Suc.prems(3)] by simp
    also have "z OR ?s = z + ?s" by (rule or_eq_add_dvd [OF Suc.prems(3)])
    finally show ?thesis by simp
  next
    case False
    let ?t = "drop_bit ?s v"
    have lt: "unat ?t < 2 ^ ?s"
    proof -
      have "unat v < 2 ^ ?s * 2 ^ ?s"
        using Suc.prems(2) by (simp add: power_add [symmetric])
      then show ?thesis unfolding u by (rule less_mult_imp_div_less)
    qed
    have "lzc_loop ?s v z = lzc_loop (2 ^ k) ?t z"
      by (subst lzc_loop.simps) (use False half in \<open>simp add: Let_def del: power_Suc\<close>)
    also have "\<dots> = z + ?s - bit_len (unat ?t)"
      by (rule Suc.IH [OF False lt dvd])
    also have "bit_len (unat ?t) = bit_len (unat v) - ?s"
      unfolding u by (rule bit_len_div)
    also have "?s < bit_len (unat v)"
    proof -
      have "unat ?t \<noteq> 0" using False by (simp add: unat_eq_zero)
      then have "unat v div 2 ^ ?s \<noteq> 0" by (simp only: u not_False_eq_True)
      then show ?thesis by (simp add: bit_len_gt_iff div_eq_0_iff)
    qed
    then have "z + ?s - (bit_len (unat v) - ?s) = z + 2 ^ Suc (Suc k) - bit_len (unat v)"
      by simp
    finally show ?thesis .
  qed
qed

text \<open>
  The fallback loop of \<open>LeadingZeroesCounter\<close> counts what the builtin counts, at
  64 bits and (as a bit length) at the other widths of \<open>IntWidth\<close>.
\<close>

lemma LeadingZeroesCounter_Count_64:
  "v \<noteq> 0 \<Longrightarrow> LeadingZeroesCounter_Count (v :: u64) = Clz v"
  using lzc_loop_correct [of v 5 0] unsigned_less [of v]
  by (simp add: LeadingZeroesCounter_Count_def Clz_def)

end
