(* ===== verification/SIntDefs.thy ===== *)
theory SIntDefs
  imports BitArith
begin

section \<open>Integers of 8 to 64 bits: the operations of \<open>SInt\<close>\<close>

text \<open>
  \<open>src/CHIR/Analysis/SInt.cpp\<close>: a number is a width and a 64-bit word whose bits above
  the width are kept clear by \<open>ClearUnusedBits\<close>. The operations stand in the order
  of the source; a member function that changes the object is a function that returns
  the changed object, and overloads on \<open>uint64_t\<close> and \<open>int64_t\<close> carry the suffixes
  \<open>_u64\<close> and \<open>_i64\<close>. \<open>CJC_ASSERT\<close> is a no-op in release builds
  (\<open>include/cangjie/Utils/CheckUtils.h\<close>): asserted conditions are premises or
  conclusions of the lemmas, not branches, except where the assertion guards what C++
  leaves undefined (a division by zero), which is \<^term>\<open>None\<close> here.
\<close>

subsection \<open>Width and representation\<close>

datatype IntWidth = I8 | I16 | I32 | I64

primrec bits :: "IntWidth \<Rightarrow> nat" where
  "bits I8 = 8"
| "bits I16 = 16"
| "bits I32 = 32"
| "bits I64 = 64"

definition FromUnsigned :: "nat \<Rightarrow> IntWidth option" where
  "FromUnsigned v =
     (if v = 8 then Some I8 else if v = 16 then Some I16
      else if v = 32 then Some I32 else if v = 64 then Some I64 else None)"

datatype Radix = R2 | R10 | R16

primrec radix_val :: "Radix \<Rightarrow> nat" where
  "radix_val R2 = 2"
| "radix_val R10 = 10"
| "radix_val R16 = 16"

record SInt =
  width :: IntWidth
  val :: u64

definition BITS_PER_WORD :: nat where "BITS_PER_WORD = 64"
definition WORD_TYPE_MAX :: u64 where "WORD_TYPE_MAX = NOT 0"

definition MaskBit :: "nat \<Rightarrow> u64" where
  "MaskBit pos = push_bit pos 1"

definition ClearUnusedBits :: "SInt \<Rightarrow> SInt" where
  "ClearUnusedBits s =
     (let wordBits = (bits (width s) - 1) mod BITS_PER_WORD + 1;
          msk = drop_bit (BITS_PER_WORD - wordBits) WORD_TYPE_MAX
      in s\<lparr>val := val s AND msk\<rparr>)"

definition mkSInt :: "IntWidth \<Rightarrow> u64 \<Rightarrow> SInt" where
  "mkSInt w v = ClearUnusedBits \<lparr>width = w, val = v\<rparr>"

definition SInt_UVal :: "SInt \<Rightarrow> u64" where
  "SInt_UVal s = val s"

definition SInt_SVal :: "SInt \<Rightarrow> u64" where
  "SInt_SVal s = SignExtend64 (val s) (bits (width s))"

definition SInt_GetZExtValue :: "SInt \<Rightarrow> u64" where
  "SInt_GetZExtValue s = val s"

definition SInt_GetSExtValue :: "SInt \<Rightarrow> u64" where
  "SInt_GetSExtValue s = SignExtend64 (val s) (bits (width s))"

subsection \<open>Setting bits in place\<close>

definition SInt_SetAllBits :: "SInt \<Rightarrow> SInt" where
  "SInt_SetAllBits s = ClearUnusedBits (s\<lparr>val := WORD_TYPE_MAX\<rparr>)"

definition SInt_SetBit :: "SInt \<Rightarrow> nat \<Rightarrow> SInt" where
  "SInt_SetBit s pos = s\<lparr>val := val s OR MaskBit pos\<rparr>"

definition SInt_SetBits :: "SInt \<Rightarrow> nat \<Rightarrow> nat \<Rightarrow> SInt" where
  "SInt_SetBits s lo hi =
     (if lo = hi then s
      else let msk = drop_bit (BITS_PER_WORD - hi + lo) WORD_TYPE_MAX
        in s\<lparr>val := val s OR push_bit lo msk\<rparr>)"

definition SInt_SetLowBits :: "SInt \<Rightarrow> nat \<Rightarrow> SInt" where
  "SInt_SetLowBits s lo = SInt_SetBits s 0 lo"

definition SInt_SetHighBits :: "SInt \<Rightarrow> nat \<Rightarrow> SInt" where
  "SInt_SetHighBits s hi = SInt_SetBits s (bits (width s) - hi) (bits (width s))"

definition SInt_ClearBit :: "SInt \<Rightarrow> nat \<Rightarrow> SInt" where
  "SInt_ClearBit s pos = s\<lparr>val := val s AND NOT (MaskBit pos)\<rparr>"

definition SInt_FlipAllBits :: "SInt \<Rightarrow> SInt" where
  "SInt_FlipAllBits s = ClearUnusedBits (s\<lparr>val := val s XOR WORD_TYPE_MAX\<rparr>)"

definition SInt_inc :: "SInt \<Rightarrow> SInt" where
  "SInt_inc s = ClearUnusedBits (s\<lparr>val := val s + 1\<rparr>)"

definition SInt_dec :: "SInt \<Rightarrow> SInt" where
  "SInt_dec s = ClearUnusedBits (s\<lparr>val := val s - 1\<rparr>)"

definition SInt_Neg :: "SInt \<Rightarrow> SInt" where
  "SInt_Neg s = SInt_inc (SInt_FlipAllBits s)"

subsection \<open>Constants of a width\<close>

definition SInt_Zero :: "IntWidth \<Rightarrow> SInt" where
  "SInt_Zero w = mkSInt w 0"

definition SInt_AllOnes :: "IntWidth \<Rightarrow> SInt" where
  "SInt_AllOnes w = mkSInt w WORD_TYPE_MAX"

definition SInt_UMaxValue :: "IntWidth \<Rightarrow> SInt" where
  "SInt_UMaxValue w = SInt_AllOnes w"

definition SInt_SMaxValue :: "IntWidth \<Rightarrow> SInt" where
  "SInt_SMaxValue w = SInt_ClearBit (SInt_AllOnes w) (bits w - 1)"

definition SInt_UMinValue :: "IntWidth \<Rightarrow> SInt" where
  "SInt_UMinValue w = SInt_Zero w"

definition SInt_SMinValue :: "IntWidth \<Rightarrow> SInt" where
  "SInt_SMinValue w = SInt_SetBit (SInt_Zero w) (bits w - 1)"

definition SInt_BitMask :: "IntWidth \<Rightarrow> nat \<Rightarrow> SInt" where
  "SInt_BitMask w no = SInt_SetBit (SInt_Zero w) no"

definition SInt_GetHighBitsSet :: "IntWidth \<Rightarrow> nat \<Rightarrow> SInt" where
  "SInt_GetHighBitsSet w highBits = SInt_SetHighBits (mkSInt w 0) highBits"

definition SInt_GetLowBitsSet :: "IntWidth \<Rightarrow> nat \<Rightarrow> SInt" where
  "SInt_GetLowBitsSet w lowBits = SInt_SetLowBits (mkSInt w 0) lowBits"

definition SInt_GetOneBitSet :: "IntWidth \<Rightarrow> nat \<Rightarrow> SInt" where
  "SInt_GetOneBitSet w pos = SInt_SetBit (mkSInt w 0) pos"

definition SInt_GetBitsSetFrom :: "IntWidth \<Rightarrow> nat \<Rightarrow> SInt" where
  "SInt_GetBitsSetFrom w lo = SInt_SetBits (mkSInt w 0) lo (bits w)"

subsection \<open>Tests\<close>

definition SInt_at :: "SInt \<Rightarrow> nat \<Rightarrow> bool" where
  "SInt_at s b \<longleftrightarrow> MaskBit b AND val s \<noteq> 0"

definition SInt_IsSignBitSet :: "SInt \<Rightarrow> bool" where
  "SInt_IsSignBitSet s = SInt_at s (bits (width s) - 1)"

definition SInt_IsSignBitClear :: "SInt \<Rightarrow> bool" where
  "SInt_IsSignBitClear s \<longleftrightarrow> \<not> SInt_IsSignBitSet s"

definition SInt_IsNeg :: "SInt \<Rightarrow> bool" where
  "SInt_IsNeg s = SInt_IsSignBitSet s"

definition SInt_IsNonNeg :: "SInt \<Rightarrow> bool" where
  "SInt_IsNonNeg s = SInt_IsSignBitClear s"

definition SInt_IsZero :: "SInt \<Rightarrow> bool" where
  "SInt_IsZero s \<longleftrightarrow> val s = 0"

definition SInt_IsPositive :: "SInt \<Rightarrow> bool" where
  "SInt_IsPositive s \<longleftrightarrow> SInt_IsNonNeg s \<and> \<not> SInt_IsZero s"

definition SInt_IsOne :: "SInt \<Rightarrow> bool" where
  "SInt_IsOne s \<longleftrightarrow> val s = 1"

definition SInt_IsAllOnes :: "SInt \<Rightarrow> bool" where
  "SInt_IsAllOnes s \<longleftrightarrow> val s = drop_bit (BITS_PER_WORD - bits (width s)) WORD_TYPE_MAX"

definition SInt_IsUMaxValue :: "SInt \<Rightarrow> bool" where
  "SInt_IsUMaxValue s = SInt_IsAllOnes s"

definition SInt_IsSMaxValue :: "SInt \<Rightarrow> bool" where
  "SInt_IsSMaxValue s \<longleftrightarrow> val s = push_bit (bits (width s) - 1) 1 - 1"

definition SInt_IsUMinValue :: "SInt \<Rightarrow> bool" where
  "SInt_IsUMinValue s = SInt_IsZero s"

definition SInt_IsSMinValue :: "SInt \<Rightarrow> bool" where
  "SInt_IsSMinValue s \<longleftrightarrow> val s = push_bit (bits (width s) - 1) 1"

definition SInt_IsSignMask :: "SInt \<Rightarrow> bool" where
  "SInt_IsSignMask s = SInt_IsSMinValue s"

definition SInt_ToBool :: "SInt \<Rightarrow> bool" where
  "SInt_ToBool s \<longleftrightarrow> \<not> SInt_IsZero s"

definition SInt_IsMask :: "SInt \<Rightarrow> nat \<Rightarrow> bool" where
  "SInt_IsMask s n \<longleftrightarrow> val s = drop_bit (BITS_PER_WORD - n) WORD_TYPE_MAX"

subsection \<open>Counting bits\<close>

definition SInt_Clz :: "SInt \<Rightarrow> nat" where
  "SInt_Clz s = Clz (val s) - (BITS_PER_WORD - bits (width s))"

definition SInt_Clo :: "SInt \<Rightarrow> nat" where
  "SInt_Clo s = Clo (push_bit (BITS_PER_WORD - bits (width s)) (val s))"

definition SInt_GetNumSignBits :: "SInt \<Rightarrow> nat" where
  "SInt_GetNumSignBits s = (if SInt_IsNeg s then SInt_Clo s else SInt_Clz s)"

definition SInt_Ctz :: "SInt \<Rightarrow> nat" where
  "SInt_Ctz s = min (Ctz (val s)) (bits (width s))"

definition SInt_Cto :: "SInt \<Rightarrow> nat" where
  "SInt_Cto s = Cto (val s)"

definition SInt_Popcnt :: "SInt \<Rightarrow> nat" where
  "SInt_Popcnt s = Popcnt (val s)"

definition SInt_ActiveBits :: "SInt \<Rightarrow> nat" where
  "SInt_ActiveBits s = bits (width s) - SInt_Clz s"

definition SInt_SignificantBits :: "SInt \<Rightarrow> nat" where
  "SInt_SignificantBits s = bits (width s) - SInt_GetNumSignBits s + 1"

definition SInt_IsOneBitSet :: "SInt \<Rightarrow> nat \<Rightarrow> bool" where
  "SInt_IsOneBitSet s no \<longleftrightarrow> SInt_at s no \<and> SInt_Popcnt s = 1"

definition SInt_IsUIntN :: "SInt \<Rightarrow> nat \<Rightarrow> bool" where
  "SInt_IsUIntN s n \<longleftrightarrow> SInt_ActiveBits s \<le> n"

definition SInt_IsSIntN :: "SInt \<Rightarrow> nat \<Rightarrow> bool" where
  "SInt_IsSIntN s n \<longleftrightarrow> SInt_SignificantBits s \<le> n"

definition SInt_IsPowerOf2 :: "SInt \<Rightarrow> bool" where
  "SInt_IsPowerOf2 s = IsPowerOf2 (val s)"

definition SInt_IsNegatedPowerOf2 :: "SInt \<Rightarrow> bool" where
  "SInt_IsNegatedPowerOf2 s =
     (if SInt_IsNonNeg s then False else SInt_Clo s + SInt_Ctz s = bits (width s))"

subsection \<open>Comparison\<close>

definition SInt_eq :: "SInt \<Rightarrow> SInt \<Rightarrow> bool" where
  "SInt_eq a b \<longleftrightarrow> val a = val b"

definition SInt_eq_u64 :: "SInt \<Rightarrow> u64 \<Rightarrow> bool" where
  "SInt_eq_u64 a r \<longleftrightarrow> SInt_GetZExtValue a = r"

definition SInt_UCmp :: "SInt \<Rightarrow> SInt \<Rightarrow> int" where
  "SInt_UCmp a b = (if val a < val b then - 1 else of_bool (val a > val b))"

definition SInt_SCmp :: "SInt \<Rightarrow> SInt \<Rightarrow> int" where
  "SInt_SCmp a b =
     (let lext = SInt_GetSExtValue a; rext = SInt_GetSExtValue b
      in if lext <s rext then - 1 else of_bool (rext <s lext))"

definition SInt_Ult :: "SInt \<Rightarrow> SInt \<Rightarrow> bool" where
  "SInt_Ult a b \<longleftrightarrow> SInt_UCmp a b < 0"

definition SInt_Slt :: "SInt \<Rightarrow> SInt \<Rightarrow> bool" where
  "SInt_Slt a b \<longleftrightarrow> SInt_SCmp a b < 0"

definition SInt_Ule :: "SInt \<Rightarrow> SInt \<Rightarrow> bool" where
  "SInt_Ule a b \<longleftrightarrow> SInt_UCmp a b \<le> 0"

definition SInt_Sle :: "SInt \<Rightarrow> SInt \<Rightarrow> bool" where
  "SInt_Sle a b \<longleftrightarrow> SInt_SCmp a b \<le> 0"

definition SInt_Ugt :: "SInt \<Rightarrow> SInt \<Rightarrow> bool" where
  "SInt_Ugt a b \<longleftrightarrow> \<not> SInt_Ule a b"

definition SInt_Sgt :: "SInt \<Rightarrow> SInt \<Rightarrow> bool" where
  "SInt_Sgt a b \<longleftrightarrow> \<not> SInt_Sle a b"

definition SInt_Uge :: "SInt \<Rightarrow> SInt \<Rightarrow> bool" where
  "SInt_Uge a b \<longleftrightarrow> \<not> SInt_Ult a b"

definition SInt_Sge :: "SInt \<Rightarrow> SInt \<Rightarrow> bool" where
  "SInt_Sge a b \<longleftrightarrow> \<not> SInt_Slt a b"

definition SInt_Ult_u64 :: "SInt \<Rightarrow> u64 \<Rightarrow> bool" where
  "SInt_Ult_u64 a r \<longleftrightarrow> SInt_GetZExtValue a < r"

definition SInt_Ugt_u64 :: "SInt \<Rightarrow> u64 \<Rightarrow> bool" where
  "SInt_Ugt_u64 a r \<longleftrightarrow> SInt_GetZExtValue a > r"

definition SInt_Ule_u64 :: "SInt \<Rightarrow> u64 \<Rightarrow> bool" where
  "SInt_Ule_u64 a r \<longleftrightarrow> \<not> SInt_Ugt_u64 a r"

definition SInt_Uge_u64 :: "SInt \<Rightarrow> u64 \<Rightarrow> bool" where
  "SInt_Uge_u64 a r \<longleftrightarrow> \<not> SInt_Ult_u64 a r"

definition SInt_Slt_i64 :: "SInt \<Rightarrow> u64 \<Rightarrow> bool" where
  "SInt_Slt_i64 a r \<longleftrightarrow> SInt_GetSExtValue a <s r"

definition SInt_Sgt_i64 :: "SInt \<Rightarrow> u64 \<Rightarrow> bool" where
  "SInt_Sgt_i64 a r \<longleftrightarrow> r <s SInt_GetSExtValue a"

definition SInt_Sle_i64 :: "SInt \<Rightarrow> u64 \<Rightarrow> bool" where
  "SInt_Sle_i64 a r \<longleftrightarrow> \<not> SInt_Sgt_i64 a r"

definition SInt_Sge_i64 :: "SInt \<Rightarrow> u64 \<Rightarrow> bool" where
  "SInt_Sge_i64 a r \<longleftrightarrow> \<not> SInt_Slt_i64 a r"

definition SInt_UMin :: "SInt \<Rightarrow> SInt \<Rightarrow> SInt" where
  "SInt_UMin l r = (if SInt_Ule l r then l else r)"

definition SInt_SMin :: "SInt \<Rightarrow> SInt \<Rightarrow> SInt" where
  "SInt_SMin l r = (if SInt_Sle l r then l else r)"

definition SInt_UMax :: "SInt \<Rightarrow> SInt \<Rightarrow> SInt" where
  "SInt_UMax l r = (if SInt_Ule l r then r else l)"

definition SInt_SMax :: "SInt \<Rightarrow> SInt \<Rightarrow> SInt" where
  "SInt_SMax l r = (if SInt_Sle l r then r else l)"

definition SInt_Intersects :: "SInt \<Rightarrow> SInt \<Rightarrow> bool" where
  "SInt_Intersects a b \<longleftrightarrow> val a AND val b \<noteq> 0"

definition SInt_IsSubsetOf :: "SInt \<Rightarrow> SInt \<Rightarrow> bool" where
  "SInt_IsSubsetOf a b \<longleftrightarrow> val a AND NOT (val b) \<noteq> 0"

definition SInt_GetULimitedValue :: "SInt \<Rightarrow> u64 \<Rightarrow> u64" where
  "SInt_GetULimitedValue s maxv = (if SInt_Ugt_u64 s maxv then maxv else SInt_GetZExtValue s)"

subsection \<open>Bitwise and ring operations\<close>

definition SInt_and :: "SInt \<Rightarrow> SInt \<Rightarrow> SInt" where
  "SInt_and a b = a\<lparr>val := val a AND val b\<rparr>"

definition SInt_or :: "SInt \<Rightarrow> SInt \<Rightarrow> SInt" where
  "SInt_or a b = a\<lparr>val := val a OR val b\<rparr>"

definition SInt_xor :: "SInt \<Rightarrow> SInt \<Rightarrow> SInt" where
  "SInt_xor a b = a\<lparr>val := val a XOR val b\<rparr>"

definition SInt_mul :: "SInt \<Rightarrow> SInt \<Rightarrow> SInt" where
  "SInt_mul a b = mkSInt (width a) (val a * val b)"

definition SInt_add :: "SInt \<Rightarrow> SInt \<Rightarrow> SInt" where
  "SInt_add a b = ClearUnusedBits (a\<lparr>val := val a + val b\<rparr>)"

definition SInt_add_u64 :: "SInt \<Rightarrow> u64 \<Rightarrow> SInt" where
  "SInt_add_u64 a v = ClearUnusedBits (a\<lparr>val := val a + v\<rparr>)"

definition SInt_sub :: "SInt \<Rightarrow> SInt \<Rightarrow> SInt" where
  "SInt_sub a b = ClearUnusedBits (a\<lparr>val := val a - val b\<rparr>)"

definition SInt_sub_u64 :: "SInt \<Rightarrow> u64 \<Rightarrow> SInt" where
  "SInt_sub_u64 a v = ClearUnusedBits (a\<lparr>val := val a - v\<rparr>)"

subsection \<open>Shifts, concatenation, change of width\<close>

definition SInt_Shl :: "SInt \<Rightarrow> nat \<Rightarrow> SInt" where
  "SInt_Shl s count =
     (if count = bits (width s) then ClearUnusedBits (s\<lparr>val := 0\<rparr>)
      else ClearUnusedBits (s\<lparr>val := push_bit count (val s)\<rparr>))"

definition SInt_Shl_SInt :: "SInt \<Rightarrow> SInt \<Rightarrow> SInt" where
  "SInt_Shl_SInt s count =
     SInt_Shl s (unat (SInt_GetULimitedValue count (of_nat (bits (width s)))))"

definition SInt_AShr :: "SInt \<Rightarrow> nat \<Rightarrow> SInt" where
  "SInt_AShr s count =
     (let sextVal = SignExtend64 (val s) (bits (width s))
      in if count = bits (width s)
         then ClearUnusedBits (s\<lparr>val := signed_drop_bit (BITS_PER_WORD - 1) sextVal\<rparr>)
         else ClearUnusedBits (s\<lparr>val := signed_drop_bit count sextVal\<rparr>))"

definition SInt_Ashr_SInt :: "SInt \<Rightarrow> SInt \<Rightarrow> SInt" where
  "SInt_Ashr_SInt s count = SInt_AShr s (unat (ucast (val count) :: u32))"

definition SInt_LShr :: "SInt \<Rightarrow> nat \<Rightarrow> SInt" where
  "SInt_LShr s count = s\<lparr>val := (if count = bits (width s) then 0 else drop_bit count (val s))\<rparr>"

definition SInt_LShr_SInt :: "SInt \<Rightarrow> SInt \<Rightarrow> SInt" where
  "SInt_LShr_SInt s count =
     SInt_LShr s (unat (SInt_GetULimitedValue count (of_nat (bits (width s)))))"

definition SInt_Concat :: "SInt \<Rightarrow> SInt \<Rightarrow> SInt option" where
  "SInt_Concat s v =
     (case FromUnsigned (bits (width s) + bits (width v)) of
        None \<Rightarrow> None
      | Some nw \<Rightarrow> Some (mkSInt nw (push_bit (bits (width v)) (val s) OR val v)))"

definition SInt_Trunc :: "SInt \<Rightarrow> IntWidth \<Rightarrow> SInt" where
  "SInt_Trunc s w = mkSInt w (val s)"

definition SInt_TruncUSat :: "SInt \<Rightarrow> IntWidth \<Rightarrow> SInt" where
  "SInt_TruncUSat s w = (if SInt_IsUIntN s (bits w) then SInt_Trunc s w else SInt_UMaxValue w)"

definition SInt_TruncSSat :: "SInt \<Rightarrow> IntWidth \<Rightarrow> SInt" where
  "SInt_TruncSSat s w =
     (if SInt_IsSIntN s (bits w) then SInt_Trunc s w
      else if SInt_IsNeg s then SInt_SMinValue w else SInt_SMaxValue w)"

definition SInt_ZExt :: "SInt \<Rightarrow> IntWidth \<Rightarrow> SInt" where
  "SInt_ZExt s w = mkSInt w (val s)"

definition SInt_SExt :: "SInt \<Rightarrow> IntWidth \<Rightarrow> SInt" where
  "SInt_SExt s w = mkSInt w (SignExtend64 (val s) (bits (width s)))"

end
