(* ===== verification/SIntSem.thy ===== *)
theory SIntSem
  imports SIntDefs
begin

section \<open>What the operations of \<open>SInt\<close> compute\<close>

text \<open>
  \<open>uval\<close> and \<open>sval\<close> read a number as an unsigned and as a two's complement integer.
  For a number whose unused bits are clear (\<open>sint_ok\<close>, the class invariant that
  \<open>ClearUnusedBits\<close> restores) every operation is characterised by the integers it
  is given: the rules are collected in \<^theory_text>\<open>sint_sem\<close>, and
  \<^theory_text>\<open>sint_wf\<close> says that the operations keep the invariant and the width.
\<close>

definition modulus :: "IntWidth \<Rightarrow> int" where "modulus w = 2 ^ bits w"
definition half :: "IntWidth \<Rightarrow> int" where "half w = 2 ^ (bits w - 1)"

definition uval :: "SInt \<Rightarrow> int" where "uval s = uint (val s)"
definition sval :: "SInt \<Rightarrow> int" where "sval s = sint (SInt_SVal s)"

definition sint_ok :: "SInt \<Rightarrow> bool" where
  "sint_ok s \<longleftrightarrow> uint (val s) < 2 ^ bits (width s)"

lemma bits_pos [simp]: "0 < bits w" by (cases w) simp_all
lemma bits_ge: "8 \<le> bits w" by (cases w) simp_all
lemma bits_le [simp]: "bits w \<le> 64" by (cases w) simp_all
lemma bits_mod [simp]: "Suc ((bits w - Suc 0) mod 64) = bits w" by (cases w) simp_all
lemma Suc_bits_1 [simp]: "Suc (bits w - Suc 0) = bits w" by (cases w) simp_all

lemma half_ge: "128 \<le> half w" by (cases w) (simp_all add: half_def)
lemma modulus_half: "modulus w = 2 * half w" by (cases w) (simp_all add: half_def modulus_def)
lemma modulus_le: "modulus w \<le> 2 ^ 64" by (cases w) (simp_all add: modulus_def)
lemma modulus_pos [simp]: "0 < modulus w" by (simp add: modulus_def)
lemma modulus_ge: "256 \<le> modulus w" using half_ge [of w] by (simp add: modulus_half)

lemma uval_nonneg [simp]: "0 \<le> uval s" by (simp add: uval_def)
lemma uval_not_neg [simp]: "\<not> uval s < 0" by (simp add: not_less)
lemma uval_less: "sint_ok s \<Longrightarrow> uval s < modulus (width s)"
  by (simp add: uval_def sint_ok_def modulus_def)

lemma SInt_eq_iff:
  "(a :: SInt) = b \<longleftrightarrow> width a = width b \<and> uval a = uval b"
  by (cases a; cases b) (auto simp: uval_def word_uint_eq_iff)

subsection \<open>Clearing the unused bits\<close>

lemma ClearUnusedBits_val:
  "uint (val (ClearUnusedBits s)) = uint (val s) mod modulus (width s)"
  by (simp add: ClearUnusedBits_def Let_def BITS_PER_WORD_def WORD_TYPE_MAX_def
      drop_bit_minus_1_mask uint_and_mask modulus_def)

lemma ClearUnusedBits_width [simp]: "width (ClearUnusedBits s) = width s"
  by (simp add: ClearUnusedBits_def Let_def)

lemma ClearUnusedBits_ok [sint_wf, simp]: "sint_ok (ClearUnusedBits s)"
  by (simp add: sint_ok_def ClearUnusedBits_val modulus_def)

lemma ClearUnusedBits_uval: "uval (ClearUnusedBits s) = uint (val s) mod modulus (width s)"
  by (simp add: uval_def ClearUnusedBits_val)

lemma ClearUnusedBits_id: "sint_ok s \<Longrightarrow> ClearUnusedBits s = s"
  by (simp add: SInt_eq_iff ClearUnusedBits_uval)
    (simp add: sint_ok_def modulus_def uval_def)

lemma mkSInt_ok [sint_wf, simp]: "sint_ok (mkSInt w v)" by (simp add: mkSInt_def)
lemma mkSInt_width [simp]: "width (mkSInt w v) = w" by (simp add: mkSInt_def)
lemma mkSInt_uval [sint_sem]: "uval (mkSInt w v) = uint v mod modulus w"
  by (simp add: mkSInt_def ClearUnusedBits_uval)

subsection \<open>The signed reading\<close>

lemma sval_eq [sint_sem]:
  "sint_ok s \<Longrightarrow>
   sval s = (if uval s < half (width s) then uval s else uval s - modulus (width s))"
  by (simp add: sval_def SInt_SVal_def sint_SignExtend64 sint_ok_def uval_def half_def modulus_def)

lemma sval_range:
  "sint_ok s \<Longrightarrow> - half (width s) \<le> sval s \<and> sval s < half (width s)"
  using uval_less [of s] half_ge [of "width s"] uval_nonneg [of s]
  by (auto simp: sval_eq modulus_half simp del: uval_nonneg)

lemma sval_mod: "sint_ok s \<Longrightarrow> sval s mod modulus (width s) = uval s"
  using uval_less [of s] by (simp add: sval_eq minus_mod_self2)

lemma sval_inj:
  "sint_ok a \<Longrightarrow> sint_ok b \<Longrightarrow> width a = width b \<Longrightarrow> sval a = sval b \<longleftrightarrow> uval a = uval b"
  using sval_mod [of a] sval_mod [of b] by (auto simp: sval_eq)

subsection \<open>Comparison\<close>

lemma SInt_eq_sem [sint_sem]: "SInt_eq a b \<longleftrightarrow> uval a = uval b"
  by (simp add: SInt_eq_def uval_def word_uint_eq_iff)

lemma SInt_eq_u64_sem [sint_sem]: "SInt_eq_u64 a r \<longleftrightarrow> uval a = uint r"
  by (simp add: SInt_eq_u64_def SInt_GetZExtValue_def uval_def word_uint_eq_iff)

lemma SInt_Ult_sem [sint_sem]: "SInt_Ult a b \<longleftrightarrow> uval a < uval b"
  by (simp add: SInt_Ult_def SInt_UCmp_def uval_def word_less_def)

lemma SInt_Ule_sem [sint_sem]: "SInt_Ule a b \<longleftrightarrow> uval a \<le> uval b"
  by (auto simp: SInt_Ule_def SInt_UCmp_def uval_def word_less_def)

lemma SInt_Ugt_sem [sint_sem]: "SInt_Ugt a b \<longleftrightarrow> uval b < uval a"
  by (simp add: SInt_Ugt_def SInt_Ule_sem not_le)

lemma SInt_Uge_sem [sint_sem]: "SInt_Uge a b \<longleftrightarrow> uval b \<le> uval a"
  by (simp add: SInt_Uge_def SInt_Ult_sem not_less)

lemma SInt_Slt_sem [sint_sem]: "SInt_Slt a b \<longleftrightarrow> sval a < sval b"
  by (simp add: SInt_Slt_def SInt_SCmp_def Let_def sval_def SInt_SVal_def SInt_GetSExtValue_def
      word_sless_alt)

lemma SInt_Sle_sem [sint_sem]: "SInt_Sle a b \<longleftrightarrow> sval a \<le> sval b"
  by (auto simp: SInt_Sle_def SInt_SCmp_def Let_def sval_def SInt_SVal_def SInt_GetSExtValue_def
      word_sless_alt)

lemma SInt_Sgt_sem [sint_sem]: "SInt_Sgt a b \<longleftrightarrow> sval b < sval a"
  by (simp add: SInt_Sgt_def SInt_Sle_sem not_le)

lemma SInt_Sge_sem [sint_sem]: "SInt_Sge a b \<longleftrightarrow> sval b \<le> sval a"
  by (simp add: SInt_Sge_def SInt_Slt_sem not_less)

lemma SInt_u64_sem [sint_sem]:
  "SInt_Ult_u64 a r \<longleftrightarrow> uval a < uint r" "SInt_Ugt_u64 a r \<longleftrightarrow> uint r < uval a"
  "SInt_Ule_u64 a r \<longleftrightarrow> uval a \<le> uint r" "SInt_Uge_u64 a r \<longleftrightarrow> uint r \<le> uval a"
  by (auto simp: SInt_Ult_u64_def SInt_Ugt_u64_def SInt_Ule_u64_def SInt_Uge_u64_def
      SInt_GetZExtValue_def uval_def word_less_def not_less not_le)

lemma SInt_i64_sem [sint_sem]:
  "SInt_Slt_i64 a r \<longleftrightarrow> sval a < sint r" "SInt_Sgt_i64 a r \<longleftrightarrow> sint r < sval a"
  "SInt_Sle_i64 a r \<longleftrightarrow> sval a \<le> sint r" "SInt_Sge_i64 a r \<longleftrightarrow> sint r \<le> sval a"
  by (auto simp: SInt_Slt_i64_def SInt_Sgt_i64_def SInt_Sle_i64_def SInt_Sge_i64_def
      SInt_GetSExtValue_def SInt_SVal_def sval_def word_sless_alt not_less not_le)

lemma SInt_minmax_ok [sint_wf]:
  "sint_ok a \<Longrightarrow> sint_ok b \<Longrightarrow> sint_ok (SInt_UMin a b)"
  "sint_ok a \<Longrightarrow> sint_ok b \<Longrightarrow> sint_ok (SInt_UMax a b)"
  "sint_ok a \<Longrightarrow> sint_ok b \<Longrightarrow> sint_ok (SInt_SMin a b)"
  "sint_ok a \<Longrightarrow> sint_ok b \<Longrightarrow> sint_ok (SInt_SMax a b)"
  by (simp_all add: SInt_UMin_def SInt_UMax_def SInt_SMin_def SInt_SMax_def)

lemma SInt_minmax_width [simp]:
  "width a = width b \<Longrightarrow> width (SInt_UMin a b) = width b"
  "width a = width b \<Longrightarrow> width (SInt_UMax a b) = width b"
  "width a = width b \<Longrightarrow> width (SInt_SMin a b) = width b"
  "width a = width b \<Longrightarrow> width (SInt_SMax a b) = width b"
  by (simp_all add: SInt_UMin_def SInt_UMax_def SInt_SMin_def SInt_SMax_def)

lemma SInt_minmax_sem [sint_sem]:
  "uval (SInt_UMin a b) = min (uval a) (uval b)"
  "uval (SInt_UMax a b) = max (uval a) (uval b)"
  "sval (SInt_SMin a b) = min (sval a) (sval b)"
  "sval (SInt_SMax a b) = max (sval a) (sval b)"
  by (simp_all add: SInt_UMin_def SInt_UMax_def SInt_SMin_def SInt_SMax_def
      SInt_Ule_sem SInt_Sle_sem min_def max_def)

subsection \<open>Constants and tests\<close>

lemma WORD_TYPE_MAX_mod: "uint WORD_TYPE_MAX mod modulus w = modulus w - 1"
  by (cases w) (simp_all add: WORD_TYPE_MAX_def modulus_def uint_minus_1)

lemma SInt_const_ok [sint_wf, simp]:
  "sint_ok (SInt_Zero w)" "sint_ok (SInt_AllOnes w)" "sint_ok (SInt_UMaxValue w)"
  "sint_ok (SInt_UMinValue w)"
  by (simp_all add: SInt_Zero_def SInt_AllOnes_def SInt_UMaxValue_def SInt_UMinValue_def)

lemma SInt_const_width [simp]:
  "width (SInt_Zero w) = w" "width (SInt_AllOnes w) = w" "width (SInt_UMaxValue w) = w"
  "width (SInt_UMinValue w) = w" "width (SInt_SMaxValue w) = w" "width (SInt_SMinValue w) = w"
  by (simp_all add: SInt_Zero_def SInt_AllOnes_def SInt_UMaxValue_def SInt_UMinValue_def
      SInt_SMaxValue_def SInt_SMinValue_def SInt_ClearBit_def SInt_SetBit_def)

lemma SInt_const_sem [sint_sem]:
  "uval (SInt_Zero w) = 0" "uval (SInt_AllOnes w) = modulus w - 1"
  "uval (SInt_UMaxValue w) = modulus w - 1" "uval (SInt_UMinValue w) = 0"
  by (simp_all add: SInt_Zero_def SInt_AllOnes_def SInt_UMaxValue_def SInt_UMinValue_def
      mkSInt_uval WORD_TYPE_MAX_mod)

lemma mkSInt_AllOnes_val: "val (SInt_AllOnes w) = mask (bits w)"
  by (simp add: word_uint_eq_iff uval_def [symmetric] SInt_const_sem uint_mask64 modulus_def)

lemma SInt_signed_const_sem [sint_sem]:
  "uval (SInt_SMaxValue w) = half w - 1" "uval (SInt_SMinValue w) = half w"
proof -
  show "uval (SInt_SMaxValue w) = half w - 1"
    by (cases w) (simp_all add: SInt_SMaxValue_def SInt_ClearBit_def uval_def mkSInt_AllOnes_val
        MaskBit_def half_def mask_eq_exp_minus_1)
  have "val (SInt_Zero w) = 0" by (simp add: word_uint_eq_iff uval_def [symmetric] SInt_const_sem)
  then show "uval (SInt_SMinValue w) = half w"
    by (cases w) (simp_all add: SInt_SMinValue_def SInt_SetBit_def uval_def MaskBit_def half_def)
qed

lemma SInt_signed_const_ok [sint_wf, simp]:
  "sint_ok (SInt_SMaxValue w)" "sint_ok (SInt_SMinValue w)"
  using half_ge [of w]
  by (simp_all add: sint_ok_def SInt_signed_const_sem modulus_def [symmetric] modulus_half
      flip: uval_def)

lemma SInt_tests_sem [sint_sem]:
  "SInt_IsZero s \<longleftrightarrow> uval s = 0" "SInt_IsOne s \<longleftrightarrow> uval s = 1"
  "SInt_IsUMinValue s \<longleftrightarrow> uval s = 0"
  "SInt_IsAllOnes s \<longleftrightarrow> uval s = modulus (width s) - 1"
  "SInt_IsUMaxValue s \<longleftrightarrow> uval s = modulus (width s) - 1"
  "SInt_IsSMaxValue s \<longleftrightarrow> uval s = half (width s) - 1"
  "SInt_IsSMinValue s \<longleftrightarrow> uval s = half (width s)"
proof -
  show "SInt_IsZero s \<longleftrightarrow> uval s = 0" "SInt_IsOne s \<longleftrightarrow> uval s = 1" "SInt_IsUMinValue s \<longleftrightarrow> uval s = 0"
    by (simp_all add: SInt_IsUMinValue_def SInt_IsZero_def SInt_IsOne_def uval_def word_uint_eq_iff)
  show *: "SInt_IsAllOnes s \<longleftrightarrow> uval s = modulus (width s) - 1"
    by (simp add: SInt_IsAllOnes_def BITS_PER_WORD_def WORD_TYPE_MAX_def drop_bit_minus_1_mask
        word_uint_eq_iff uint_mask64 uval_def modulus_def)
  show "SInt_IsUMaxValue s \<longleftrightarrow> uval s = modulus (width s) - 1"
    by (simp add: SInt_IsUMaxValue_def *)
  show "SInt_IsSMaxValue s \<longleftrightarrow> uval s = half (width s) - 1" "SInt_IsSMinValue s \<longleftrightarrow> uval s = half (width s)"
    by (cases "width s";
        simp add: SInt_IsSMaxValue_def SInt_IsSMinValue_def uval_def word_uint_eq_iff half_def)+
qed

lemma SInt_at_sem: "SInt_at s b \<longleftrightarrow> bit (uval s) b \<and> b < 64"
proof -
  have "MaskBit b AND val s \<noteq> 0 \<longleftrightarrow> bit (val s) b"
    by (simp only: MaskBit_def bit_iff_and_push_bit_not_eq_0 and.commute)
  then show ?thesis
    by (auto simp: SInt_at_def uval_def bit_uint_iff dest: bit_imp_le_length)
qed

lemma bit_top_iff:
  fixes x :: int
  assumes "0 \<le> x" "x < 2 ^ Suc n"
  shows "bit x n \<longleftrightarrow> 2 ^ n \<le> x"
proof (cases "2 ^ n \<le> x")
  case True
  have "x div 2 ^ n = 1"
    using assms True by (intro int_div_pos_eq [of x "2 ^ n" 1 "x - 2 ^ n"]) auto
  with True show ?thesis by (simp add: bit_iff_odd)
next
  case False
  with assms show ?thesis by (simp add: bit_iff_odd)
qed

lemma SInt_IsNeg_sem [sint_sem]:
  assumes "sint_ok s"
  shows "SInt_IsNeg s \<longleftrightarrow> half (width s) \<le> uval s" "SInt_IsSignBitSet s \<longleftrightarrow> half (width s) \<le> uval s"
    "SInt_IsNonNeg s \<longleftrightarrow> uval s < half (width s)" "SInt_IsSignBitClear s \<longleftrightarrow> uval s < half (width s)"
    "SInt_IsPositive s \<longleftrightarrow> 0 < uval s \<and> uval s < half (width s)"
proof -
  have b: "bits (width s) - 1 < 64" using bits_le [of "width s"] bits_pos [of "width s"] by linarith
  have "SInt_IsSignBitSet s \<longleftrightarrow> bit (uval s) (bits (width s) - 1)"
    using b by (simp add: SInt_IsSignBitSet_def SInt_at_sem)
  also have "\<dots> \<longleftrightarrow> half (width s) \<le> uval s"
    unfolding half_def using assms
    by (intro bit_top_iff) (simp_all add: sint_ok_def uval_def del: power_Suc)
  finally have *: "SInt_IsSignBitSet s \<longleftrightarrow> half (width s) \<le> uval s" .
  then show "SInt_IsNeg s \<longleftrightarrow> half (width s) \<le> uval s" "SInt_IsSignBitSet s \<longleftrightarrow> half (width s) \<le> uval s"
    "SInt_IsNonNeg s \<longleftrightarrow> uval s < half (width s)" "SInt_IsSignBitClear s \<longleftrightarrow> uval s < half (width s)"
    "SInt_IsPositive s \<longleftrightarrow> 0 < uval s \<and> uval s < half (width s)"
    using uval_nonneg [of s]
    by (auto simp: le_less SInt_IsNeg_def SInt_IsNonNeg_def SInt_IsSignBitClear_def SInt_IsPositive_def
        SInt_tests_sem)
qed

subsection \<open>Arithmetic\<close>

lemma SInt_arith_width [simp]:
  "width (SInt_add a b) = width a" "width (SInt_sub a b) = width a" "width (SInt_mul a b) = width a"
  "width (SInt_add_u64 a v) = width a" "width (SInt_sub_u64 a v) = width a"
  "width (SInt_inc a) = width a" "width (SInt_dec a) = width a" "width (SInt_Neg a) = width a"
  "width (SInt_SetAllBits a) = width a" "width (SInt_FlipAllBits a) = width a"
  "width (SInt_Trunc a w) = w" "width (SInt_ZExt a w) = w" "width (SInt_SExt a w) = w"
  by (simp_all add: SInt_add_def SInt_sub_def SInt_mul_def SInt_add_u64_def SInt_sub_u64_def
      SInt_inc_def SInt_dec_def SInt_Neg_def SInt_SetAllBits_def SInt_FlipAllBits_def
      SInt_Trunc_def SInt_ZExt_def SInt_SExt_def)

lemma SInt_arith_ok [sint_wf, simp]:
  "sint_ok (SInt_add a b)" "sint_ok (SInt_sub a b)" "sint_ok (SInt_mul a b)"
  "sint_ok (SInt_add_u64 a v)" "sint_ok (SInt_sub_u64 a v)"
  "sint_ok (SInt_inc a)" "sint_ok (SInt_dec a)" "sint_ok (SInt_Neg a)"
  "sint_ok (SInt_SetAllBits a)" "sint_ok (SInt_FlipAllBits a)"
  "sint_ok (SInt_Trunc a w)" "sint_ok (SInt_ZExt a w)" "sint_ok (SInt_SExt a w)"
  by (simp_all add: SInt_add_def SInt_sub_def SInt_mul_def SInt_add_u64_def SInt_sub_u64_def
      SInt_inc_def SInt_dec_def SInt_Neg_def SInt_SetAllBits_def SInt_FlipAllBits_def
      SInt_Trunc_def SInt_ZExt_def SInt_SExt_def)

lemma SInt_ring_sem [sint_sem]:
  "uval (SInt_add a b) = (uval a + uval b) mod modulus (width a)"
  "uval (SInt_sub a b) = (uval a - uval b) mod modulus (width a)"
  "uval (SInt_mul a b) = (uval a * uval b) mod modulus (width a)"
  "uval (SInt_add_u64 a v) = (uval a + uint v) mod modulus (width a)"
  "uval (SInt_sub_u64 a v) = (uval a - uint v) mod modulus (width a)"
  "uval (SInt_inc a) = (uval a + 1) mod modulus (width a)"
  "uval (SInt_dec a) = (uval a - 1) mod modulus (width a)"
  by (simp_all only: SInt_add_def SInt_sub_def SInt_mul_def SInt_add_u64_def SInt_sub_u64_def
      SInt_inc_def SInt_dec_def ClearUnusedBits_uval mkSInt_uval)
    (simp_all add: uval_def modulus_def uint_plus_mod uint_minus_mod uint_times_mod)

lemma SInt_SetAllBits_sem [sint_sem]: "uval (SInt_SetAllBits a) = modulus (width a) - 1"
  by (simp add: SInt_SetAllBits_def ClearUnusedBits_uval WORD_TYPE_MAX_mod)

lemma minus_1_mod_modulus: "(- 1) mod modulus w = modulus w - 1"
  using modulus_ge [of w] by (simp add: mod_minus_if)

lemma SInt_Neg_sem [sint_sem]: "uval (SInt_Neg a) = (- uval a) mod modulus (width a)"
proof -
  have "val a XOR WORD_TYPE_MAX = - 1 - val a"
    by (simp add: WORD_TYPE_MAX_def not_eq_complement)
  then have "uval (SInt_FlipAllBits a) = uint (- 1 - val a) mod modulus (width a)"
    by (simp add: SInt_FlipAllBits_def ClearUnusedBits_uval)
  also have "\<dots> = (uint (- 1 :: u64) - uval a) mod modulus (width a)"
    by (simp only: uint_minus_mod [OF bits_le] modulus_def uval_def)
  also have "\<dots> = (uint WORD_TYPE_MAX mod modulus (width a) - uval a) mod modulus (width a)"
    by (simp only: WORD_TYPE_MAX_def bit.compl_zero mod_diff_left_eq)
  also have "\<dots> = (- 1 - uval a) mod modulus (width a)"
    by (simp only: WORD_TYPE_MAX_mod mod_diff_left_eq [of "- 1", symmetric] minus_1_mod_modulus)
  finally show ?thesis
    by (simp add: SInt_Neg_def SInt_ring_sem mod_add_left_eq)
qed

lemma uint_mod_modulus: "uint v mod modulus w = sint v mod modulus w" for v :: u64
  by (simp add: uint_sint modulus_def take_bit_eq_mod mod_pow64)

lemma SInt_width_change_sem [sint_sem]:
  "uval (SInt_Trunc a w) = uval a mod modulus w"
  "uval (SInt_ZExt a w) = uval a mod modulus w"
  "uval (SInt_SExt a w) = sval a mod modulus w"
proof -
  show "uval (SInt_Trunc a w) = uval a mod modulus w" "uval (SInt_ZExt a w) = uval a mod modulus w"
    by (simp_all only: SInt_Trunc_def SInt_ZExt_def mkSInt_uval) (simp_all add: uval_def)
  let ?v = "SignExtend64 (val a) (bits (width a))"
  have "uint ?v mod modulus w = sint ?v mod modulus w"
    by (rule uint_mod_modulus)
  then show "uval (SInt_SExt a w) = sval a mod modulus w"
    by (simp add: SInt_SExt_def mkSInt_uval sval_def SInt_SVal_def)
qed

lemma width_change_id:
  "bits (width a) \<le> bits w \<Longrightarrow> sint_ok a \<Longrightarrow> uval a mod modulus w = uval a"
  using uval_less [of a] power_increasing [of "bits (width a)" "bits w" "2::int"]
  by (intro mod_pos_pos_trivial) (auto simp: modulus_def intro: less_le_trans)

subsection \<open>Counting bits, shifts\<close>

lemma unat_val: "int (unat (val s)) = uval s"
  by (simp add: uval_def)

lemma nat_uval_less: "sint_ok s \<Longrightarrow> nat (uval s) < 2 ^ bits (width s)"
  unfolding sint_ok_def uval_def by (subst nat_less_iff) simp_all

lemma SInt_Clz_sem:
  assumes "sint_ok s"
  shows "SInt_Clz s = bits (width s) - bit_len (nat (uval s))"
proof -
  have le: "bit_len (nat (uval s)) \<le> bits (width s)"
    using nat_uval_less [OF assms] by (simp add: bit_len_le_iff)
  have u: "unat (val s) = nat (uval s)" by (simp add: uval_def)
  have "Clz (val s) = 64 - bit_len (nat (uval s))"
    by (simp only: Clz_def u split: if_split) (simp add: uval_def)
  then show ?thesis
    using le bits_le [of "width s"] unfolding SInt_Clz_def BITS_PER_WORD_def by linarith
qed

lemma SInt_ActiveBits_sem:
  "sint_ok s \<Longrightarrow> SInt_ActiveBits s = bit_len (nat (uval s))"
proof -
  assume ok: "sint_ok s"
  then have "bit_len (nat (uval s)) \<le> bits (width s)"
    using nat_uval_less by (simp add: bit_len_le_iff)
  with ok show ?thesis by (simp add: SInt_ActiveBits_def SInt_Clz_sem)
qed

lemma SInt_ActiveBits_le_iff:
  "sint_ok s \<Longrightarrow> SInt_ActiveBits s \<le> n \<longleftrightarrow> uval s < 2 ^ n"
  by (simp add: SInt_ActiveBits_sem bit_len_le_iff nat_less_iff)

lemma SInt_IsUIntN_sem: "sint_ok s \<Longrightarrow> SInt_IsUIntN s n \<longleftrightarrow> uval s < 2 ^ n"
  by (simp add: SInt_IsUIntN_def SInt_ActiveBits_le_iff)

lemma SInt_Shl_sem:
  assumes "sint_ok s" "k \<le> bits (width s)"
  shows "uval (SInt_Shl s k) = (uval s * 2 ^ k) mod modulus (width s)"
proof (cases "k = bits (width s)")
  case True
  then show ?thesis by (simp add: SInt_Shl_def ClearUnusedBits_uval modulus_def)
next
  case False
  then have "uval (SInt_Shl s k) = uint (push_bit k (val s)) mod modulus (width s)"
    by (simp add: SInt_Shl_def ClearUnusedBits_uval)
  also have "\<dots> = (uval s * 2 ^ k) mod 2 ^ 64 mod modulus (width s)"
    by (simp only: uint_push_bit64 uval_def)
  finally have "uval (SInt_Shl s k) = (uval s * 2 ^ k) mod 2 ^ 64 mod modulus (width s)" .
  then show ?thesis by (simp add: modulus_def mod_pow64)
qed

lemma SInt_shift_ok [sint_wf, simp]: "sint_ok (SInt_Shl s k)" "sint_ok (SInt_AShr s k)"
  by (simp_all add: SInt_Shl_def SInt_AShr_def Let_def)

lemma SInt_shift_width [simp]:
  "width (SInt_Shl s k) = width s" "width (SInt_AShr s k) = width s" "width (SInt_LShr s k) = width s"
  by (simp_all add: SInt_Shl_def SInt_AShr_def SInt_LShr_def Let_def)

lemma SInt_LShr_sem:
  assumes "sint_ok s" "k \<le> bits (width s)"
  shows "uval (SInt_LShr s k) = uval s div 2 ^ k"
  using assms
  by (auto simp: SInt_LShr_def uval_def sint_ok_def uint_drop_bit64 div_pos_pos_trivial
      simp del: drop_bit_eq_div)

lemma SInt_LShr_ok [sint_wf]:
  assumes "sint_ok s" "k \<le> bits (width s)"
  shows "sint_ok (SInt_LShr s k)"
proof -
  have "uval s div 2 ^ k \<le> uval s" by (intro zdiv_le_self) simp_all
  then show ?thesis
    using SInt_LShr_sem [OF assms] uval_less [OF assms(1)]
    by (simp add: sint_ok_def uval_def modulus_def)
qed

lemma sval_unique:
  assumes "sint_ok s" "- half (width s) \<le> x" "x < half (width s)"
    "uval s = x mod modulus (width s)"
  shows "sval s = x"
proof (cases "0 \<le> x")
  case True
  with assms modulus_half [of "width s"] show ?thesis by (simp add: sval_eq)
next
  case False
  have "x mod modulus (width s) = (x + modulus (width s)) mod modulus (width s)" by simp
  also have "\<dots> = x + modulus (width s)"
    using False assms modulus_half [of "width s"] by (intro mod_pos_pos_trivial) auto
  finally show ?thesis
    using False assms modulus_half [of "width s"] by (simp add: sval_eq)
qed

lemma SInt_AShr_sem:
  assumes "sint_ok s" "k \<le> bits (width s)"
  shows "sval (SInt_AShr s k) = sval s div 2 ^ k"
proof -
  have r: "- half (width s) \<le> sval s" "sval s < half (width s)"
    using sval_range [OF assms(1)] by auto
  define j where "j = (if k = bits (width s) then 63 else k)"
  have "uval (SInt_AShr s k) = (sval s div 2 ^ j) mod modulus (width s)"
    by (simp add: SInt_AShr_def Let_def j_def ClearUnusedBits_uval BITS_PER_WORD_def
        uint_mod_modulus sint_signed_drop_bit_eq drop_bit_eq_div sval_def SInt_SVal_def)
  then have "sval (SInt_AShr s k) = sval s div 2 ^ j"
    using zdiv_range [OF _ r, of "2 ^ j"] by (intro sval_unique) simp_all
  also have "sval s div 2 ^ j = sval s div 2 ^ k"
  proof (cases "k = bits (width s)")
    case True
    have h: "half (width s) \<le> 2 ^ 63" "half (width s) \<le> 2 ^ k"
      using True by (cases "width s"; simp add: half_def)+
    show ?thesis
    proof (cases "0 \<le> sval s")
      case True
      then show ?thesis using r h \<open>k = _\<close> by (simp add: j_def div_pos_pos_trivial)
    next
      case False
      then have "sval s div 2 ^ 63 = - 1" "sval s div 2 ^ k = - 1"
        using r h
          int_div_pos_eq [of "sval s" "2 ^ 63" "- 1" "sval s + 2 ^ 63"]
          int_div_pos_eq [of "sval s" "2 ^ k" "- 1" "sval s + 2 ^ k"]
        by simp_all
      then show ?thesis using \<open>k = _\<close> by (simp add: j_def)
    qed
  qed (simp add: j_def)
  finally show ?thesis .
qed

end
