(* ===== verification/SIntArith.thy ===== *)
theory SIntArith
  imports SIntSem "HOL-Library.Signed_Division" "HOL-Library.Monad_Syntax"
begin

section \<open>Division, overflow detection and saturation of \<open>SInt\<close>\<close>

text \<open>
  The second half of \<open>src/CHIR/Analysis/SInt.cpp\<close>: division and remainder (which
  abort, \<^term>\<open>None\<close>, on a zero divisor), the operations with an overflow flag and the
  saturating operations built from them, and the parser of numbers. The flag is the
  second component of the result. The lemmas state each of them against the
  mathematical operation: the flag is set exactly when the exact result does not fit,
  and a saturating operation clamps it.
\<close>

subsection \<open>Division and remainder\<close>

definition SInt_UDiv_u64 :: "SInt \<Rightarrow> u64 \<Rightarrow> SInt option" where
  "SInt_UDiv_u64 a r = (if r = 0 then None else Some (mkSInt (width a) (val a div r)))"

definition SInt_UDiv :: "SInt \<Rightarrow> SInt \<Rightarrow> SInt option" where
  "SInt_UDiv a b = SInt_UDiv_u64 a (val b)"

definition SInt_SDiv :: "SInt \<Rightarrow> SInt \<Rightarrow> SInt option" where
  "SInt_SDiv a b =
     (if SInt_IsNeg a then
        (if SInt_IsNeg b then SInt_UDiv (SInt_Neg a) (SInt_Neg b)
         else map_option SInt_Neg (SInt_UDiv (SInt_Neg a) b))
      else if SInt_IsNeg b then map_option SInt_Neg (SInt_UDiv a (SInt_Neg b))
      else SInt_UDiv a b)"

definition SInt_SDiv_i64 :: "SInt \<Rightarrow> u64 \<Rightarrow> SInt option" where
  "SInt_SDiv_i64 a r =
     (if r = 0 then None
      else if SInt_IsNeg a then
        (if r <s 0 then SInt_UDiv_u64 (SInt_Neg a) (- r)
         else map_option SInt_Neg (SInt_UDiv_u64 (SInt_Neg a) r))
      else if r <s 0 then map_option SInt_Neg (SInt_UDiv_u64 a (- r))
      else SInt_UDiv_u64 a r)"

definition SInt_URem_u64 :: "SInt \<Rightarrow> u64 \<Rightarrow> SInt option" where
  "SInt_URem_u64 a r = (if r = 0 then None else Some (mkSInt (width a) (val a mod r)))"

definition SInt_URem :: "SInt \<Rightarrow> SInt \<Rightarrow> SInt option" where
  "SInt_URem a b = SInt_URem_u64 a (val b)"

definition SInt_SRem :: "SInt \<Rightarrow> SInt \<Rightarrow> SInt option" where
  "SInt_SRem a b =
     (if SInt_IsNeg a then
        (if SInt_IsNeg b then map_option SInt_Neg (SInt_URem (SInt_Neg a) (SInt_Neg b))
         else map_option SInt_Neg (SInt_URem (SInt_Neg a) b))
      else if SInt_IsNeg b then SInt_URem a (SInt_Neg b)
      else SInt_URem a b)"

definition SInt_SRem_i64 :: "SInt \<Rightarrow> u64 \<Rightarrow> SInt option" where
  "SInt_SRem_i64 a r =
     (if r = 0 then None
      else if SInt_IsNeg a then
        (if r <s 0 then map_option SInt_Neg (SInt_URem_u64 (SInt_Neg a) (- r))
         else map_option SInt_Neg (SInt_URem_u64 (SInt_Neg a) r))
      else if r <s 0 then SInt_URem_u64 a (- r)
      else SInt_URem_u64 a r)"

subsection \<open>Operations with an overflow flag\<close>

definition SInt_SAddOvf :: "SInt \<Rightarrow> SInt \<Rightarrow> SInt \<times> bool" where
  "SInt_SAddOvf a b =
     (let res = SInt_add a b
      in (res, SInt_IsNonNeg a = SInt_IsNonNeg b \<and> SInt_IsNonNeg res \<noteq> SInt_IsNonNeg a))"

definition SInt_UAddOvf :: "SInt \<Rightarrow> SInt \<Rightarrow> SInt \<times> bool" where
  "SInt_UAddOvf a b = (let res = SInt_add a b in (res, SInt_Ult res b))"

definition SInt_SSubOvf :: "SInt \<Rightarrow> SInt \<Rightarrow> SInt \<times> bool" where
  "SInt_SSubOvf a b =
     (let res = SInt_sub a b
      in (res, SInt_IsNonNeg a \<noteq> SInt_IsNonNeg b \<and> SInt_IsNonNeg res \<noteq> SInt_IsNonNeg a))"

definition SInt_USubOvf :: "SInt \<Rightarrow> SInt \<Rightarrow> SInt \<times> bool" where
  "SInt_USubOvf a b = (let res = SInt_sub a b in (res, SInt_Ugt res a))"

definition SInt_SMulOvf :: "SInt \<Rightarrow> SInt \<Rightarrow> (SInt \<times> bool) option" where
  "SInt_SMulOvf a b =
     (let res = SInt_mul a b
      in if \<not> SInt_eq_u64 b 0 then
           do {
             q \<leftarrow> SInt_SDiv res b;
             Some (res, \<not> SInt_eq q a \<or> SInt_IsSMinValue a \<and> SInt_IsAllOnes b)
           }
         else Some (res, False))"

definition SInt_UMulOvf :: "SInt \<Rightarrow> SInt \<Rightarrow> SInt \<times> bool" where
  "SInt_UMulOvf a b =
     (if SInt_Clz a + SInt_Clz b + 2 \<le> bits (width a) then (SInt_mul a b, True)
      else
        let res = SInt_mul (SInt_LShr a 1) b;
            overflow = SInt_IsNeg res;
            res1 = SInt_Shl res 1
        in if SInt_at a 0 then
             let res2 = SInt_add res1 b
             in (res2, if SInt_Ult res2 b then True else overflow)
           else (res1, overflow))"

definition SInt_SShlOvf :: "SInt \<Rightarrow> SInt \<Rightarrow> SInt \<times> bool" where
  "SInt_SShlOvf a count =
     (if SInt_Uge_u64 count (of_nat (bits (width a))) then (mkSInt (width a) 0, True)
      else
        let overflow =
          (if SInt_IsNonNeg a then SInt_Uge_u64 count (of_nat (SInt_Clz a))
           else SInt_Uge_u64 count (of_nat (SInt_Clo a)))
        in (SInt_Shl_SInt a count, overflow))"

definition SInt_UShlOvf :: "SInt \<Rightarrow> SInt \<Rightarrow> SInt \<times> bool" where
  "SInt_UShlOvf a count =
     (if SInt_Uge_u64 count (of_nat (bits (width a))) then (mkSInt (width a) 0, True)
      else (SInt_Shl_SInt a count, SInt_Ugt_u64 count (of_nat (SInt_Clz a))))"

subsection \<open>Saturating operations\<close>

definition SInt_SAddSat :: "SInt \<Rightarrow> SInt \<Rightarrow> SInt" where
  "SInt_SAddSat a b =
     (let (res, overflow) = SInt_SAddOvf a b
      in if \<not> overflow then res
         else if SInt_IsNeg a then SInt_SMinValue (width a) else SInt_SMaxValue (width a))"

definition SInt_UAddSat :: "SInt \<Rightarrow> SInt \<Rightarrow> SInt" where
  "SInt_UAddSat a b =
     (let (res, overflow) = SInt_UAddOvf a b
      in if \<not> overflow then res else SInt_UMaxValue (width a))"

definition SInt_SSubSat :: "SInt \<Rightarrow> SInt \<Rightarrow> SInt" where
  "SInt_SSubSat a b =
     (let (res, overflow) = SInt_SSubOvf a b
      in if \<not> overflow then res
         else if SInt_IsNeg a then SInt_SMinValue (width a) else SInt_SMaxValue (width a))"

definition SInt_USubSat :: "SInt \<Rightarrow> SInt \<Rightarrow> SInt" where
  "SInt_USubSat a b =
     (let (res, overflow) = SInt_USubOvf a b
      in if overflow then SInt_UMinValue (width a) else res)"

definition SInt_SMulSat :: "SInt \<Rightarrow> SInt \<Rightarrow> SInt option" where
  "SInt_SMulSat a b =
     do {
       (res, overflow) \<leftarrow> SInt_SMulOvf a b;
       Some (if \<not> overflow then res
             else if SInt_IsNeg a \<noteq> SInt_IsNeg b then SInt_SMinValue (width a)
             else SInt_SMaxValue (width a))
     }"

definition SInt_UMulSat :: "SInt \<Rightarrow> SInt \<Rightarrow> SInt" where
  "SInt_UMulSat a b =
     (let (res, overflow) = SInt_UMulOvf a b
      in if overflow then SInt_UMaxValue (width a) else res)"

definition SInt_SDivSat :: "SInt \<Rightarrow> SInt \<Rightarrow> SInt option" where
  "SInt_SDivSat a b =
     (if SInt_SVal b = - 1 \<and> SInt_IsSMinValue a then Some (SInt_SMaxValue (width a))
      else SInt_SDiv a b)"

definition SInt_SShlSat :: "SInt \<Rightarrow> SInt \<Rightarrow> SInt" where
  "SInt_SShlSat a b =
     (let (res, overflow) = SInt_SShlOvf a b
      in if \<not> overflow then res
         else if SInt_IsNeg a then SInt_SMinValue (width a) else SInt_SMaxValue (width a))"

definition SInt_UShlSat :: "SInt \<Rightarrow> SInt \<Rightarrow> SInt" where
  "SInt_UShlSat a b =
     (let (res, overflow) = SInt_UShlOvf a b
      in if overflow then SInt_UMaxValue (width a) else res)"

subsection \<open>Two numbers of one width\<close>

definition same :: "SInt \<Rightarrow> SInt \<Rightarrow> bool" where
  "same a b \<longleftrightarrow> sint_ok a \<and> sint_ok b \<and> width a = width b"

lemma sameD [dest]: "same a b \<Longrightarrow> sint_ok a" "same a b \<Longrightarrow> sint_ok b" "same a b \<Longrightarrow> width b = width a"
  by (simp_all add: same_def)

lemma uval_bounds: "sint_ok a \<Longrightarrow> 0 \<le> uval a \<and> uval a < 2 * half (width a)"
  using uval_less [of a] by (simp add: modulus_half)

subsection \<open>Division and remainder, as integers\<close>


lemma SInt_UDiv_u64_sem:
  assumes "sint_ok a" "r \<noteq> 0"
  shows "\<exists>q. SInt_UDiv_u64 a r = Some q \<and> sint_ok q \<and> width q = width a \<and> uval q = uval a div uint r"
proof -
  have r: "1 \<le> uint r" using assms(2) by (simp add: word_uint_eq_iff) (metis uint_nonnegative less_le int_one_le_iff_zero_less)
  have "uval a div uint r \<le> uval a" using r by (intro zdiv_le_self) simp_all
  moreover have "0 \<le> uval a div uint r" using r by (simp add: pos_imp_zdiv_nonneg_iff)
  ultimately have "uval a div uint r mod modulus (width a) = uval a div uint r"
    using uval_less [OF assms(1)] by (intro mod_pos_pos_trivial) auto
  with assms show ?thesis
    by (simp add: SInt_UDiv_u64_def mkSInt_uval uint_div) (simp add: uval_def)
qed

lemma SInt_URem_u64_sem:
  assumes "sint_ok a" "r \<noteq> 0"
  shows "\<exists>q. SInt_URem_u64 a r = Some q \<and> sint_ok q \<and> width q = width a \<and> uval q = uval a mod uint r"
proof -
  have r: "1 \<le> uint r" using assms(2) by (simp add: word_uint_eq_iff) (metis uint_nonnegative less_le int_one_le_iff_zero_less)
  have "uval a mod uint r \<le> uval a" using r by (intro zmod_le_nonneg_dividend) simp_all
  moreover have "0 \<le> uval a mod uint r" using r by (intro pos_mod_sign) simp
  ultimately have "uval a mod uint r mod modulus (width a) = uval a mod uint r"
    using uval_less [OF assms(1)] by (intro mod_pos_pos_trivial) auto
  with assms show ?thesis
    by (simp add: SInt_URem_u64_def mkSInt_uval uint_mod) (simp add: uval_def)
qed

lemma uval_0_iff: "val b = 0 \<longleftrightarrow> uval b = 0"
  by (simp add: uval_def word_uint_eq_iff)

lemma SInt_UDiv_sem:
  assumes "sint_ok a" "uval b \<noteq> 0"
  shows "\<exists>q. SInt_UDiv a b = Some q \<and> sint_ok q \<and> width q = width a \<and> uval q = uval a div uval b"
  using SInt_UDiv_u64_sem [OF assms(1), of "val b"] assms(2)
  by (simp add: SInt_UDiv_def uval_0_iff) (simp add: uval_def)

lemma SInt_URem_sem:
  assumes "sint_ok a" "uval b \<noteq> 0"
  shows "\<exists>q. SInt_URem a b = Some q \<and> sint_ok q \<and> width q = width a \<and> uval q = uval a mod uval b"
  using SInt_URem_u64_sem [OF assms(1), of "val b"] assms(2)
  by (simp add: SInt_URem_def uval_0_iff) (simp add: uval_def)

lemma uval_Neg_abs:
  assumes "sint_ok a" "half (width a) \<le> uval a"
  shows "uval (SInt_Neg a) = - sval a"
  using assms uval_bounds [OF assms(1)] half_ge [of "width a"]
  by (simp add: SInt_Neg_sem sval_eq mod_minus_if modulus_half)

lemma SInt_SDiv_sem:
  assumes "same a b" "uval b \<noteq> 0"
  shows "\<exists>q. SInt_SDiv a b = Some q \<and> sint_ok q \<and> width q = width a
    \<and> uval q = (sval a sdiv sval b) mod modulus (width a)"
proof -
  note ok = sameD [OF assms(1)]
  have na: "uval (SInt_Neg a) = - sval a" if "half (width a) \<le> uval a" using that ok by (intro uval_Neg_abs)
  have nb: "uval (SInt_Neg b) = - sval b" if "half (width a) \<le> uval b" using that ok by (intro uval_Neg_abs) auto
  have pa: "uval a = sval a" if "\<not> half (width a) \<le> uval a" using that ok by (simp add: sval_eq)
  have pb: "uval b = sval b" if "\<not> half (width a) \<le> uval b" using that ok by (simp add: sval_eq)
  have sa: "half (width a) \<le> uval a \<longleftrightarrow> sval a < 0" using uval_bounds [OF ok(1)] ok by (auto simp: sval_eq modulus_half)
  have sb: "half (width a) \<le> uval b \<longleftrightarrow> sval b < 0" using uval_bounds [OF ok(2)] ok by (auto simp: sval_eq modulus_half)
  have b0: "sval b \<noteq> 0" using assms(2) uval_bounds [OF ok(2)] ok by (auto simp: sval_eq modulus_half)
  consider (nn) "sval a < 0" "sval b < 0" | (np) "sval a < 0" "0 < sval b"
    | (pn) "0 \<le> sval a" "sval b < 0" | (pp) "0 \<le> sval a" "0 < sval b" using b0 by linarith
  then show ?thesis
  proof cases
    case nn
    then have "SInt_SDiv a b = SInt_UDiv (SInt_Neg a) (SInt_Neg b)"
      using ok sa sb by (simp add: SInt_SDiv_def SInt_IsNeg_sem)
    moreover obtain q where "SInt_UDiv (SInt_Neg a) (SInt_Neg b) = Some q" "sint_ok q" "width q = width a"
      "uval q = uval (SInt_Neg a) div uval (SInt_Neg b)"
      using SInt_UDiv_sem [of "SInt_Neg a" "SInt_Neg b"] nb nn sb by auto
    moreover have "uval q mod modulus (width a) = uval q"
      using \<open>sint_ok q\<close> \<open>width q = width a\<close> uval_less [of q] by simp
    ultimately show ?thesis using na nb nn sa sb
      by (auto simp: signed_divide_int_def)
  next
    case np
    then have "SInt_SDiv a b = map_option SInt_Neg (SInt_UDiv (SInt_Neg a) b)"
      using ok sa sb by (simp add: SInt_SDiv_def SInt_IsNeg_sem)
    moreover obtain q where "SInt_UDiv (SInt_Neg a) b = Some q" "sint_ok q" "width q = width a"
      "uval q = uval (SInt_Neg a) div uval b"
      using SInt_UDiv_sem [of "SInt_Neg a" "b"] assms(2) by auto
    ultimately show ?thesis using na pb np sa sb 
      by (auto simp: signed_divide_int_def SInt_Neg_sem)
  next
    case pn
    then have "SInt_SDiv a b = map_option SInt_Neg (SInt_UDiv a (SInt_Neg b))"
      using ok sa sb by (simp add: SInt_SDiv_def SInt_IsNeg_sem)
    moreover obtain q where "SInt_UDiv a (SInt_Neg b) = Some q" "sint_ok q" "width q = width a"
      "uval q = uval a div uval (SInt_Neg b)"
      using SInt_UDiv_sem [of a "SInt_Neg b"] nb pn sb ok by auto
    ultimately show ?thesis using nb pa pn sa sb 
      by (cases "sval a = 0") (auto simp: signed_divide_int_def SInt_Neg_sem)
  next
    case pp
    then have "SInt_SDiv a b = SInt_UDiv a b"
      using ok sa sb by (simp add: SInt_SDiv_def SInt_IsNeg_sem)
    moreover obtain q where "SInt_UDiv a b = Some q" "sint_ok q" "width q = width a"
      "uval q = uval a div uval b"
      using SInt_UDiv_sem [of a b] assms(2) ok by auto
    moreover have "uval q mod modulus (width a) = uval q"
      using \<open>sint_ok q\<close> \<open>width q = width a\<close> uval_less [of q] by simp
    ultimately show ?thesis using pa pb pp sa sb
      by (cases "sval a = 0") (auto simp: signed_divide_int_def)
  qed
qed

lemma SInt_SRem_sem:
  assumes "same a b" "uval b \<noteq> 0"
  shows "\<exists>q. SInt_SRem a b = Some q \<and> sint_ok q \<and> width q = width a
    \<and> uval q = (sval a smod sval b) mod modulus (width a)"
proof -
  note ok = sameD [OF assms(1)]
  have na: "uval (SInt_Neg a) = - sval a" if "half (width a) \<le> uval a" using that ok by (intro uval_Neg_abs)
  have nb: "uval (SInt_Neg b) = - sval b" if "half (width a) \<le> uval b" using that ok by (intro uval_Neg_abs) auto
  have pa: "uval a = sval a" if "\<not> half (width a) \<le> uval a" using that ok by (simp add: sval_eq)
  have pb: "uval b = sval b" if "\<not> half (width a) \<le> uval b" using that ok by (simp add: sval_eq)
  have sa: "half (width a) \<le> uval a \<longleftrightarrow> sval a < 0" using uval_bounds [OF ok(1)] ok by (auto simp: sval_eq modulus_half)
  have sb: "half (width a) \<le> uval b \<longleftrightarrow> sval b < 0" using uval_bounds [OF ok(2)] ok by (auto simp: sval_eq modulus_half)
  have b0: "sval b \<noteq> 0" using assms(2) uval_bounds [OF ok(2)] ok by (auto simp: sval_eq modulus_half)
  define a' where "a' = (if sval a < 0 then SInt_Neg a else a)"
  define b' where "b' = (if sval b < 0 then SInt_Neg b else b)"
  have ab: "sint_ok a'" "width a' = width a" "uval a' = \<bar>sval a\<bar>" "uval b' = \<bar>sval b\<bar>"
    using ok na pa sa nb pb sb by (auto simp: a'_def b'_def not_less [symmetric])
  obtain q where q: "SInt_URem a' b' = Some q" "sint_ok q" "width q = width a" "uval q = \<bar>sval a\<bar> mod \<bar>sval b\<bar>"
    using SInt_URem_sem [of a' b'] ab b0 by auto
  have "SInt_SRem a b = Some (if sval a < 0 then SInt_Neg q else q)"
    using q(1) sa sb ok by (simp add: SInt_SRem_def SInt_IsNeg_sem a'_def b'_def split: if_splits)
  moreover have "uval (if sval a < 0 then SInt_Neg q else q) = (sval a smod sval b) mod modulus (width a)"
    using q uval_less [of q] b0 unfolding signed_modulo_int_def
    by (cases "sval a = 0") (auto simp: SInt_Neg_sem)
  ultimately show ?thesis using q by auto
qed

subsection \<open>Addition and subtraction: overflow flags and saturation\<close>


definition srange :: "IntWidth \<Rightarrow> int \<Rightarrow> bool" where
  "srange w x \<longleftrightarrow> - half w \<le> x \<and> x < half w"

definition urange :: "IntWidth \<Rightarrow> int \<Rightarrow> bool" where
  "urange w x \<longleftrightarrow> 0 \<le> x \<and> x < modulus w"

definition sclamp :: "IntWidth \<Rightarrow> int \<Rightarrow> int" where
  "sclamp w x = (if x < - half w then - half w else if x < half w then x else half w - 1)"

definition uclamp :: "IntWidth \<Rightarrow> int \<Rightarrow> int" where
  "uclamp w x = (if x < 0 then 0 else if x < modulus w then x else modulus w - 1)"

lemma sval_lt_0: "sint_ok a \<Longrightarrow> sval a < 0 \<longleftrightarrow> half (width a) \<le> uval a"
  using uval_bounds [of a] by (auto simp: sval_eq modulus_half)

lemma SInt_sign_tests:
  assumes "sint_ok a"
  shows "SInt_IsNeg a \<longleftrightarrow> sval a < 0" "SInt_IsNonNeg a \<longleftrightarrow> 0 \<le> sval a"
  using sval_lt_0 [OF assms] assms by (auto simp: SInt_IsNeg_sem)

lemma sval_mkmod:
  assumes "sint_ok r" "uval r = x mod modulus (width r)" "srange (width r) x"
  shows "sval r = x"
  using assms by (intro sval_unique) (auto simp: srange_def)

lemma sval_shift_mod:
  assumes "sint_ok r" "uval r = x mod modulus (width r)"
  shows "\<exists>k. sval r = x + k * modulus (width r)"
proof -
  have "sval r mod modulus (width r) = x mod modulus (width r)"
    using assms sval_mod [of r] by simp
  then show ?thesis by (metis mod_eqE diff_add_cancel add.commute mult.commute)
qed

lemma sval_arith_mod:
  assumes "same a b"
  shows "uval (SInt_add a b) = (sval a + sval b) mod modulus (width a)"
    "uval (SInt_sub a b) = (sval a - sval b) mod modulus (width a)"
    "uval (SInt_mul a b) = (sval a * sval b) mod modulus (width a)"
proof -
  have "uval a = sval a mod modulus (width a)" "uval b = sval b mod modulus (width a)"
    using sval_mod [of a] sval_mod [of b] sameD [OF assms] by simp_all
  then show "uval (SInt_add a b) = (sval a + sval b) mod modulus (width a)"
    "uval (SInt_sub a b) = (sval a - sval b) mod modulus (width a)"
    "uval (SInt_mul a b) = (sval a * sval b) mod modulus (width a)"
    by (simp_all add: SInt_ring_sem mod_simps)
qed

lemma sval_wrap:
  assumes "sint_ok r" "uval r = x mod modulus (width r)"
    "- modulus (width r) \<le> x" "x < modulus (width r)"
  shows "sval r = (if x < - half (width r) then x + modulus (width r)
    else if x < half (width r) then x else x - modulus (width r))"
proof -
  let ?w = "width r"
  have "uval r = (x + modulus ?w) mod modulus ?w" "uval r = (x - modulus ?w) mod modulus ?w"
    using assms(2) by simp_all
  with assms show ?thesis
    using modulus_half [of ?w] half_ge [of ?w]
    by (auto intro!: sval_unique)
qed

lemma SInt_SAddOvf_sem:
  assumes "same a b"
  shows "fst (SInt_SAddOvf a b) = SInt_add a b"
    "snd (SInt_SAddOvf a b) \<longleftrightarrow> \<not> srange (width a) (sval a + sval b)"
    "srange (width a) (sval a + sval b) \<Longrightarrow> sval (SInt_add a b) = sval a + sval b"
proof -
  note ok = sameD [OF assms]
  have r: "srange (width a) (sval a)" "srange (width a) (sval b)"
    using sval_range [of a] sval_range [of b] ok by (simp_all add: srange_def)
  have s: "sval (SInt_add a b) = (if sval a + sval b < - half (width a) then sval a + sval b + modulus (width a)
    else if sval a + sval b < half (width a) then sval a + sval b else sval a + sval b - modulus (width a))"
    using r sval_arith_mod [OF assms] sval_wrap [of "SInt_add a b" "sval a + sval b"] modulus_half [of "width a"]
    by (simp add: srange_def)
  show "fst (SInt_SAddOvf a b) = SInt_add a b" by (simp add: SInt_SAddOvf_def Let_def)
  show "snd (SInt_SAddOvf a b) \<longleftrightarrow> \<not> srange (width a) (sval a + sval b)"
    using r s ok modulus_half [of "width a"]
    by (auto simp: SInt_SAddOvf_def Let_def SInt_sign_tests srange_def)
  show "srange (width a) (sval a + sval b) \<Longrightarrow> sval (SInt_add a b) = sval a + sval b"
    using s by (simp add: srange_def)
qed

lemma SInt_SSubOvf_sem:
  assumes "same a b"
  shows "fst (SInt_SSubOvf a b) = SInt_sub a b"
    "snd (SInt_SSubOvf a b) \<longleftrightarrow> \<not> srange (width a) (sval a - sval b)"
    "srange (width a) (sval a - sval b) \<Longrightarrow> sval (SInt_sub a b) = sval a - sval b"
proof -
  note ok = sameD [OF assms]
  have r: "srange (width a) (sval a)" "srange (width a) (sval b)"
    using sval_range [of a] sval_range [of b] ok by (simp_all add: srange_def)
  have s: "sval (SInt_sub a b) = (if sval a - sval b < - half (width a) then sval a - sval b + modulus (width a)
    else if sval a - sval b < half (width a) then sval a - sval b else sval a - sval b - modulus (width a))"
    using r sval_arith_mod [OF assms] sval_wrap [of "SInt_sub a b" "sval a - sval b"] modulus_half [of "width a"]
    by (simp add: srange_def)
  show "fst (SInt_SSubOvf a b) = SInt_sub a b" by (simp add: SInt_SSubOvf_def Let_def)
  show "snd (SInt_SSubOvf a b) \<longleftrightarrow> \<not> srange (width a) (sval a - sval b)"
    using r s ok modulus_half [of "width a"]
    by (auto simp: SInt_SSubOvf_def Let_def SInt_sign_tests srange_def)
  show "srange (width a) (sval a - sval b) \<Longrightarrow> sval (SInt_sub a b) = sval a - sval b"
    using s by (simp add: srange_def)
qed

lemma SInt_UAddOvf_sem:
  assumes "same a b"
  shows "fst (SInt_UAddOvf a b) = SInt_add a b"
    "snd (SInt_UAddOvf a b) \<longleftrightarrow> \<not> urange (width a) (uval a + uval b)"
  using sameD [OF assms] uval_less [of a] uval_less [of b]
  by (auto simp: SInt_UAddOvf_def Let_def sint_sem mod_add_if urange_def)

lemma SInt_USubOvf_sem:
  assumes "same a b"
  shows "fst (SInt_USubOvf a b) = SInt_sub a b"
    "snd (SInt_USubOvf a b) \<longleftrightarrow> \<not> urange (width a) (uval a - uval b)"
  using sameD [OF assms] uval_less [of a] uval_less [of b]
  by (auto simp: SInt_USubOvf_def Let_def sint_sem mod_sub_if urange_def diff_less_eq intro: less_le_trans)

lemma uval_add_not_neg [simp]: "\<not> uval a + uval b < 0"
  by (simp add: not_less)

lemma sval_const [simp]:
  "sval (SInt_SMinValue w) = - half w" "sval (SInt_SMaxValue w) = half w - 1"
  using half_ge [of w] by (simp_all add: sval_eq SInt_signed_const_sem modulus_half)

lemma SInt_addsub_sat_sem:
  assumes "same a b"
  shows "sval (SInt_SAddSat a b) = sclamp (width a) (sval a + sval b)"
    "sval (SInt_SSubSat a b) = sclamp (width a) (sval a - sval b)"
    "uval (SInt_UAddSat a b) = uclamp (width a) (uval a + uval b)"
    "uval (SInt_USubSat a b) = uclamp (width a) (uval a - uval b)"
proof -
  note ok = sameD [OF assms]
  have r: "srange (width a) (sval a)" "srange (width a) (sval b)" "uval a < modulus (width a)" "uval b < modulus (width a)"
    using sval_range [of a] sval_range [of b] uval_less [of a] uval_less [of b] ok by (simp_all add: srange_def)
  show "sval (SInt_SAddSat a b) = sclamp (width a) (sval a + sval b)"
    using SInt_SAddOvf_sem [OF assms] r ok
    by (auto simp: SInt_SAddSat_def case_prod_unfold Let_def SInt_sign_tests sclamp_def srange_def)
  show "sval (SInt_SSubSat a b) = sclamp (width a) (sval a - sval b)"
    using SInt_SSubOvf_sem [OF assms] r ok
    by (auto simp: SInt_SSubSat_def case_prod_unfold Let_def SInt_sign_tests sclamp_def srange_def)
  show "uval (SInt_UAddSat a b) = uclamp (width a) (uval a + uval b)"
    using SInt_UAddOvf_sem [OF assms] r ok
    by (auto simp: SInt_UAddSat_def case_prod_unfold Let_def uclamp_def urange_def sint_sem mod_add_if)
  have "uval a - uval b < modulus (width a)" using r uval_nonneg [of b] by linarith
  then show "uval (SInt_USubSat a b) = uclamp (width a) (uval a - uval b)"
    using SInt_USubOvf_sem [OF assms] r ok
    by (auto simp: SInt_USubSat_def case_prod_unfold Let_def uclamp_def urange_def sint_sem mod_sub_if)
qed

lemma SInt_addsub_sat_wf [sint_wf, simp]:
  "sint_ok (SInt_SAddSat a b)" "sint_ok (SInt_SSubSat a b)" "sint_ok (SInt_UAddSat a b)" "sint_ok (SInt_USubSat a b)"
  "width (SInt_SAddSat a b) = width a" "width (SInt_SSubSat a b) = width a"
  "width (SInt_UAddSat a b) = width a" "width (SInt_USubSat a b) = width a"
  by (simp_all add: SInt_SAddSat_def SInt_SSubSat_def SInt_UAddSat_def SInt_USubSat_def case_prod_unfold
    SInt_SAddOvf_def SInt_SSubOvf_def SInt_UAddOvf_def SInt_USubOvf_def Let_def)

subsection \<open>Signed multiplication\<close>


lemma sval_0_iff: "sint_ok a \<Longrightarrow> sval a = 0 \<longleftrightarrow> uval a = 0"
  using uval_bounds [of a] by (auto simp: sval_eq modulus_half)

lemma sdiv_props:
  fixes r b :: int
  assumes "b \<noteq> 0"
  shows "r = b * (r sdiv b) + r smod b" "\<bar>r smod b\<bar> < \<bar>b\<bar>" "\<bar>r sdiv b\<bar> * \<bar>b\<bar> \<le> \<bar>r\<bar>"
    "\<bar>r sdiv b\<bar> \<le> \<bar>r\<bar>"
proof -
  show "r = b * (r sdiv b) + r smod b"
    using mult_sdiv_smod_eq [of b r] by simp
  show "\<bar>r smod b\<bar> < \<bar>b\<bar>"
    using assms by (auto simp: signed_modulo_int_def abs_mult sgn_if)
  have "\<bar>r sdiv b\<bar> = \<bar>r\<bar> div \<bar>b\<bar>"
    using assms by (auto simp: signed_divide_int_def abs_mult sgn_if pos_imp_zdiv_nonneg_iff)
  moreover have "\<bar>r\<bar> div \<bar>b\<bar> * \<bar>b\<bar> \<le> \<bar>r\<bar>"
    by (metis abs_ge_zero add.commute add_le_same_cancel1 div_mult_mod_eq not_le pos_mod_sign assms zero_less_abs_iff le_add_same_cancel1)
  moreover have "\<bar>r\<bar> div \<bar>b\<bar> \<le> \<bar>r\<bar>" using assms by (intro zdiv_le_self) auto
  ultimately show "\<bar>r sdiv b\<bar> * \<bar>b\<bar> \<le> \<bar>r\<bar>" "\<bar>r sdiv b\<bar> \<le> \<bar>r\<bar>" by simp_all
qed

lemma sdiv_exact: "b \<noteq> 0 \<Longrightarrow> (a * b) sdiv b = (a :: int)"
  by (auto simp: signed_divide_int_def sgn_if abs_mult zero_less_mult_iff)

lemma sval_const_tests:
  assumes "sint_ok a"
  shows "SInt_IsSMinValue a \<longleftrightarrow> sval a = - half (width a)" "SInt_IsAllOnes a \<longleftrightarrow> sval a = - 1"
    "SInt_IsSMaxValue a \<longleftrightarrow> sval a = half (width a) - 1"
  using uval_bounds [OF assms] assms half_ge [of "width a"]
  by (auto simp: SInt_tests_sem sval_eq modulus_half not_less) (use uval_nonneg [of a] in linarith)+

lemma SInt_SMulOvf_sem:
  assumes "same a b"
  shows "SInt_SMulOvf a b = Some (SInt_mul a b, \<not> srange (width a) (sval a * sval b))"
    "srange (width a) (sval a * sval b) \<Longrightarrow> sval (SInt_mul a b) = sval a * sval b"
proof -
  note ok = sameD [OF assms]
  let ?w = "width a" let ?r = "SInt_mul a b"
  have um: "uval ?r = (sval a * sval b) mod modulus ?w" using sval_arith_mod [OF assms] by simp
  show exact: "sval (SInt_mul a b) = sval a * sval b" if "srange (width a) (sval a * sval b)"
    using that um by (intro sval_mkmod) simp_all
  show "SInt_SMulOvf a b = Some (SInt_mul a b, \<not> srange (width a) (sval a * sval b))"
  proof (cases "uval b = 0")
    case True
    then show ?thesis using ok sval_0_iff [of b] half_ge [of ?w]
      by (simp add: SInt_SMulOvf_def Let_def SInt_eq_u64_sem srange_def)
  next
    case False
    then have b0: "sval b \<noteq> 0" using sval_0_iff ok by simp
    have same: "same ?r b" using ok by (simp add: same_def)
    obtain q where q: "SInt_SDiv ?r b = Some q" "sint_ok q" "width q = ?w"
      "uval q = (sval ?r sdiv sval b) mod modulus ?w"
      using SInt_SDiv_sem [OF same False] by auto
    have flag: "SInt_SMulOvf a b = Some (?r, uval q \<noteq> uval a \<or> sval a = - half ?w \<and> sval b = - 1)"
      using q False ok
      by (simp add: SInt_SMulOvf_def Let_def SInt_eq_u64_sem SInt_eq_sem sval_const_tests)
    have "(uval q \<noteq> uval a \<or> sval a = - half ?w \<and> sval b = - 1) \<longleftrightarrow> \<not> srange ?w (sval a * sval b)"
    proof
      assume f: "uval q \<noteq> uval a \<or> sval a = - half ?w \<and> sval b = - 1"
      show "\<not> srange ?w (sval a * sval b)"
      proof
        assume s: "srange ?w (sval a * sval b)"
        then have "uval q = uval a"
          using q exact sdiv_exact [OF b0] sval_mod [of a] ok by simp
        with f s show False by (auto simp: srange_def)
      qed
    next
      assume ns: "\<not> srange ?w (sval a * sval b)"
      show "uval q \<noteq> uval a \<or> sval a = - half ?w \<and> sval b = - 1"
      proof (rule ccontr)
        assume "\<not> ?thesis"
        then have qa: "uval q = uval a" and nm: "\<not> (sval a = - half ?w \<and> sval b = - 1)" by auto
        let ?d = "sval ?r sdiv sval b" let ?m = "sval ?r smod sval b"
        have r: "srange ?w (sval ?r)" "srange ?w (sval b)"
          using sval_range [of ?r] sval_range [of b] ok by (simp_all add: srange_def)
        have dm: "sval ?r = sval b * ?d + ?m" "\<bar>?m\<bar> < \<bar>sval b\<bar>" "\<bar>?d\<bar> * \<bar>sval b\<bar> \<le> \<bar>sval ?r\<bar>" "\<bar>?d\<bar> \<le> \<bar>sval ?r\<bar>"
          using sdiv_props [OF b0, of "sval ?r"] by auto
        have da: "?d mod modulus ?w = sval a mod modulus ?w" using q qa sval_mod [of a] ok by simp
        have "?d = sval a"
        proof (cases "?d = half ?w")
          case True
          have "uval a = half ?w"
            using da True half_ge [of ?w] ok sval_mod [of a] by (simp add: modulus_half)
          then have "sval a = - half ?w"
            using modulus_half [of ?w] ok by (simp add: sval_eq)
          moreover have "sval ?r = - half ?w" using dm r True by (auto simp: srange_def)
          have "half ?w * \<bar>sval b\<bar> \<le> half ?w * 1"
            using dm(3) True half_ge [of ?w] \<open>sval ?r = - half ?w\<close> by simp
          then have "\<bar>sval b\<bar> = 1"
            using half_ge [of ?w] b0 by (subst (asm) mult_le_cancel_left_pos) linarith+
          with dm(1,2) True half_ge [of ?w] \<open>sval ?r = - half ?w\<close> have "sval b = - 1"
            by (auto simp: abs_if split: if_splits)
          ultimately show ?thesis using nm by simp
        next
          case False
          then have "srange ?w ?d" using dm r by (auto simp: srange_def)
          moreover have "uval a = ?d mod modulus ?w" using da sval_mod [of a] ok by simp
          ultimately show ?thesis using sval_mkmod [of a ?d] ok by simp
        qed
        moreover have "(sval ?r - sval a * sval b) mod modulus ?w = 0"
          using um sval_mod [of ?r] by (simp add: mod_eq_dvd_iff)
        moreover have "?m = sval ?r - sval b * ?d" using dm(1) by linarith
        ultimately have "?m mod modulus ?w = 0" by (simp only: mult.commute)
        then have "modulus ?w dvd ?m" by (simp add: dvd_eq_mod_eq_0)
        moreover have "\<bar>?m\<bar> < modulus ?w" using dm(2) r modulus_half [of ?w] by (auto simp: srange_def)
        ultimately have "?m = 0"
          using dvd_imp_le_int [of ?m "modulus ?w"] modulus_pos [of ?w] by linarith
        then have "sval ?r = sval a * sval b" using dm(1) \<open>?d = sval a\<close> by (simp add: mult.commute)
        with r ns show False by simp
      qed
    qed
    with flag show ?thesis by simp
  qed
qed

lemma SInt_SMulSat_sem:
  assumes "same a b"
  shows "\<exists>r. SInt_SMulSat a b = Some r \<and> sint_ok r \<and> width r = width a \<and> sval r = sclamp (width a) (sval a * sval b)"
proof -
  note ok = sameD [OF assms]
  have h: "128 \<le> half (width a)" by (rule half_ge)
  have "sval a * sval b < - half (width a) \<Longrightarrow> (sval a < 0) \<noteq> (sval b < 0)"
    "half (width a) \<le> sval a * sval b \<Longrightarrow> (sval a < 0) = (sval b < 0)"
    using h mult_nonneg_nonneg [of "sval a" "sval b"] mult_nonpos_nonpos [of "sval a" "sval b"]
      mult_nonpos_nonneg [of "sval a" "sval b"] mult_nonneg_nonpos [of "sval a" "sval b"] by linarith+
  then show ?thesis
    using SInt_SMulOvf_sem [OF assms] ok h
    by (auto simp: SInt_SMulSat_def SInt_sign_tests sclamp_def srange_def not_less not_le)
qed

subsection \<open>Unsigned multiplication\<close>


lemma SInt_at_0_sem: "SInt_at a 0 \<longleftrightarrow> odd (uval a)"
  by (simp add: SInt_at_sem bit_0)

lemma SInt_UMulOvf_sem:
  assumes "same a b"
  shows "fst (SInt_UMulOvf a b) = SInt_mul a b"
    "snd (SInt_UMulOvf a b) \<longleftrightarrow> \<not> urange (width a) (uval a * uval b)"
proof -
  note ok = sameD [OF assms]
  let ?w = "width a" let ?n = "bits (width a)"
  let ?La = "bit_len (nat (uval a))" let ?Lb = "bit_len (nat (uval b))"
  have L: "?La \<le> ?n" "?Lb \<le> ?n"
    using nat_uval_less [of a] nat_uval_less [of b] ok by (simp_all add: bit_len_le_iff)
  have clz: "SInt_Clz a = ?n - ?La" "SInt_Clz b = ?n - ?Lb"
    using SInt_Clz_sem [of a] SInt_Clz_sem [of b] ok by simp_all
  have lo: "2 ^ (L - 1) \<le> uval s" if "L = bit_len (nat (uval s))" "0 < L" for L s
  proof -
    have "L - 1 < bit_len (nat (uval s))" using that by simp
    then have "(2::nat) ^ (L - 1) \<le> nat (uval s)" by (simp only: bit_len_gt_iff)
    then show ?thesis by (metis le_nat_iff nat_le_0 of_nat_numeral of_nat_power uval_nonneg)
  qed
  have hi: "uval s < 2 ^ bit_len (nat (uval s))" for s
    using bit_len_le_iff [of "nat (uval s)" "bit_len (nat (uval s))"] by (simp add: nat_less_iff)
  have "fst (SInt_UMulOvf a b) = SInt_mul a b \<and>
    (snd (SInt_UMulOvf a b) \<longleftrightarrow> \<not> urange ?w (uval a * uval b))"
  proof (cases "SInt_Clz a + SInt_Clz b + 2 \<le> ?n")
    case True
    then have big: "?n + 2 \<le> ?La + ?Lb" using clz L by linarith
    then have "0 < ?La" "0 < ?Lb" using L by linarith+
    then have "2 ^ (?La - 1) * 2 ^ (?Lb - 1) \<le> uval a * uval b"
      using lo [of ?La a] lo [of ?Lb b] by (intro mult_mono) auto
    moreover have "(2::int) ^ ?n \<le> 2 ^ ((?La - 1) + (?Lb - 1))"
      using big by (intro power_increasing) auto
    ultimately have "modulus ?w \<le> uval a * uval b" by (simp add: modulus_def power_add)
    then show ?thesis using True by (simp add: SInt_UMulOvf_def urange_def)
  next
    case False
    then have small: "?La + ?Lb \<le> ?n + 1" using clz L by linarith
    define p where "p = (uval a div 2) * uval b"
    have ab: "uval a * uval b = 2 * p + (if odd (uval a) then uval b else 0)"
    proof -
      have "uval a = 2 * (uval a div 2) + (if odd (uval a) then 1 else 0)" by presburger
      then have "uval a * uval b = (2 * (uval a div 2) + (if odd (uval a) then 1 else 0)) * uval b" by (rule arg_cong)
      then show ?thesis by (simp add: p_def algebra_simps)
    qed
    have p: "0 \<le> p" "p < modulus ?w"
    proof -
      show "0 \<le> p" by (simp add: p_def pos_imp_zdiv_nonneg_iff)
      show "p < modulus ?w"
      proof (cases "?La = 0")
        case True
        then have "uval a < 1" using hi [of a] by simp
        then show ?thesis by (simp add: p_def)
      next
        case False
        then have "(2::int) ^ ?La = 2 * 2 ^ (?La - 1)" by (cases ?La) auto
        then have "uval a div 2 < 2 ^ (?La - 1)" using hi [of a] by linarith
        then have "p < 2 ^ (?La - 1) * 2 ^ ?Lb" unfolding p_def
          using hi [of b] by (intro mult_strict_mono) (auto simp: pos_imp_zdiv_nonneg_iff)
        also have "\<dots> = 2 ^ (?La - 1 + ?Lb)" by (simp add: power_add)
        also have "\<dots> \<le> (2::int) ^ ?n" using small False by (intro power_increasing) auto
        finally show ?thesis by (simp add: modulus_def)
      qed
    qed
    define r where "r = SInt_mul (SInt_LShr a 1) b"
    define r1 where "r1 = SInt_Shl r 1"
    have wr: "sint_ok r" "width r = ?w" "sint_ok r1" "width r1 = ?w" by (simp_all add: r_def r1_def)
    have unf: "SInt_UMulOvf a b = (if odd (uval a)
      then (SInt_add r1 b, if SInt_Ult (SInt_add r1 b) b then True else SInt_IsNeg r)
      else (r1, SInt_IsNeg r))"
      unfolding SInt_UMulOvf_def Let_def r_def [symmetric] r1_def [symmetric] SInt_at_0_sem
      using False by simp
    have "uval r = p" using p ok bits_ge [of ?w] by (simp add: SInt_ring_sem SInt_LShr_sem p_def r_def)
    moreover have "uval r1 = (2 * uval r) mod modulus ?w"
      using bits_ge [of ?w] wr unfolding r1_def by (subst SInt_Shl_sem) (simp_all add: mult.commute)
    ultimately have r: "uval r = p" "uval r1 = (2 * p) mod modulus ?w" by simp_all
    have neg: "SInt_IsNeg r \<longleftrightarrow> half ?w \<le> p" using r wr by (simp add: SInt_IsNeg_sem)
    have fst: "fst (SInt_UMulOvf a b) = SInt_mul a b"
      using r wr by (auto simp: unf SInt_eq_iff SInt_ring_sem ab mod_simps)
    have ub: "0 \<le> uval b" "uval b < modulus ?w" using uval_less [of b] ok by simp_all
    have r2: "(2 * p) mod modulus ?w = 2 * p" if "p < half ?w"
      using that p by (simp add: modulus_half)
    have "snd (SInt_UMulOvf a b) \<longleftrightarrow>
      half ?w \<le> p \<or> odd (uval a) \<and> (2 * p mod modulus ?w + uval b) mod modulus ?w < uval b"
      using r wr by (auto simp: unf neg SInt_ring_sem SInt_Ult_sem)
    also have "\<dots> \<longleftrightarrow> \<not> urange ?w (uval a * uval b)"
    proof (cases "half ?w \<le> p")
      case True
      moreover have "0 \<le> (if odd (uval a) then uval b else 0)" by simp
      ultimately have "\<not> uval a * uval b < modulus ?w" using ab modulus_half [of ?w] by linarith
      with True show ?thesis by (simp add: urange_def)
    next
      case False
      then have "(2 * p + uval b) mod modulus ?w = (if 2 * p + uval b < modulus ?w then 2 * p + uval b
          else 2 * p + uval b - modulus ?w)"
        using ub p modulus_half [of ?w] by (intro mod_add_if) auto
      then show ?thesis using False r2 ub ab p modulus_half [of ?w]
        by (auto simp: urange_def)
    qed
    finally show ?thesis using fst by simp
  qed
  then show "fst (SInt_UMulOvf a b) = SInt_mul a b"
    "snd (SInt_UMulOvf a b) \<longleftrightarrow> \<not> urange (width a) (uval a * uval b)" by auto
qed

lemma SInt_UMulSat_sem:
  assumes "same a b"
  shows "uval (SInt_UMulSat a b) = uclamp (width a) (uval a * uval b)"
  using SInt_UMulOvf_sem [OF assms] mult_nonneg_nonneg [of "uval a" "uval b"]
  by (auto simp: SInt_UMulSat_def case_prod_unfold uclamp_def urange_def sint_sem simp del: mult_nonneg_nonneg)

lemma SInt_UMulOvf_wf [sint_wf]:
  "same a b \<Longrightarrow> sint_ok (fst (SInt_UMulOvf a b)) \<and> width (fst (SInt_UMulOvf a b)) = width a"
  by (simp add: SInt_UMulOvf_sem)

lemma SInt_UMulSat_wf [sint_wf]:
  "same a b \<Longrightarrow> sint_ok (SInt_UMulSat a b) \<and> width (SInt_UMulSat a b) = width a"
  by (simp add: SInt_UMulSat_def case_prod_unfold SInt_UMulOvf_sem)

lemma SInt_SVal_minus_1: "sint_ok b \<Longrightarrow> SInt_SVal b = - 1 \<longleftrightarrow> sval b = - 1"
  by (auto simp: sval_def intro: signed_word_eqI)

end
