(* ===== verification/SIntParse.thy ===== *)
theory SIntParse
  imports SIntArith
begin

section \<open>Reading numbers\<close>

text \<open>
  \<open>GetDigit\<close> and \<open>SInt::FromString\<close> of \<open>src/CHIR/Analysis/SInt.cpp\<close>. A character is
  converted to a 32-bit unsigned number and the subtractions wrap; a character that is
  no digit gives \<open>UINT_MAX\<close>, which release builds add to the number like a digit (the
  check is an assertion). Dereferencing the first character of an empty string is
  undefined: \<^term>\<open>None\<close>.
\<close>

definition UINT_MAX :: u32 where "UINT_MAX = - 1"

definition GetDigit :: "char \<Rightarrow> Radix \<Rightarrow> u32" where
  "GetDigit d radix =
     (let decimal = (\<lambda>r :: u32. let ans = of_char d - of_char CHR ''0'' in if ans < r then ans else UINT_MAX)
      in if radix = R16 then
           (let ans = of_char d - of_char CHR ''0'' in
            if ans < 10 then ans
            else let ans = of_char d - of_char CHR ''A'' in
            if ans \<le> 5 then ans + 10
            else let ans = of_char d - of_char CHR ''a'' in
            if ans \<le> 5 then ans + 10
            else decimal 10)
         else decimal (of_nat (radix_val radix)))"

definition radix_shift :: "Radix \<Rightarrow> nat" where
  "radix_shift radix = (if radix = R16 then 4 else if radix = R2 then 1 else 0)"

fun FromString_loop :: "Radix \<Rightarrow> nat \<Rightarrow> u64 \<Rightarrow> string \<Rightarrow> u64" where
  "FromString_loop radix slen v [] = v"
| "FromString_loop radix slen v (p # ps) =
     (let v' = (if slen > 1
                then if radix_shift radix \<noteq> 0 then push_bit (radix_shift radix) v
                     else v * of_nat (radix_val radix)
                else v)
      in FromString_loop radix slen (v' + ucast (GetDigit p radix)) ps)"

definition SInt_FromString :: "IntWidth \<Rightarrow> string \<Rightarrow> Radix \<Rightarrow> SInt option" where
  "SInt_FromString w str radix =
     (case str of [] \<Rightarrow> None
      | p # ps \<Rightarrow>
          let isNeg = (p = CHR ''-'');
              ds = (if p = CHR ''-'' \<or> p = CHR ''+'' then ps else str);
              s = \<lparr>width = w, val = FromString_loop radix (length ds) 0 ds\<rparr>
          in Some (if isNeg then SInt_Neg s else s))"

subsection \<open>The number a string denotes\<close>

definition digit_of :: "Radix \<Rightarrow> char \<Rightarrow> nat" where
  "digit_of radix d = unat (GetDigit d radix)"

definition is_digit :: "Radix \<Rightarrow> char \<Rightarrow> bool" where
  "is_digit radix d \<longleftrightarrow> digit_of radix d < radix_val radix"

definition digits_val :: "Radix \<Rightarrow> string \<Rightarrow> nat" where
  "digits_val radix ds = foldl (\<lambda>n d. n * radix_val radix + digit_of radix d) 0 ds"

lemma GetDigit_ucast: "(ucast (GetDigit d radix) :: u64) = of_nat (digit_of radix d)"
  by (simp add: digit_of_def word_unat_eq_iff)

lemma FromString_loop_long:
  "1 < slen \<Longrightarrow> FromString_loop radix slen (of_nat n) ds =
     of_nat (foldl (\<lambda>n d. n * radix_val radix + digit_of radix d) n ds)"
proof (induction ds arbitrary: n)
  case (Cons d ds)
  then have "FromString_loop radix slen (of_nat n) (d # ds) =
      FromString_loop radix slen (of_nat (n * radix_val radix + digit_of radix d)) ds"
    by (cases radix) (simp_all add: radix_shift_def push_bit_eq_mult GetDigit_ucast mult.commute)
  also have "\<dots> = of_nat (foldl (\<lambda>n d. n * radix_val radix + digit_of radix d) n (d # ds))"
    using Cons.IH [OF Cons.prems] by (simp del: of_nat_add of_nat_mult)
  finally show ?case .
qed simp

lemma FromString_loop_val:
  "FromString_loop radix (length ds) 0 ds = of_nat (digits_val radix ds)"
proof (cases "1 < length ds")
  case True
  from FromString_loop_long [OF this, of radix 0 ds] show ?thesis by (simp add: digits_val_def)
next
  case False
  then consider "ds = []" | d where "ds = [d]" by (cases ds) auto
  then show ?thesis by cases (simp_all add: digits_val_def GetDigit_ucast)
qed

lemma uint_of_nat_less: "n < 2 ^ bits w \<Longrightarrow> uint (of_nat n :: u64) = int n"
  using le_imp_power_dvd [of "bits w" 64 "2::nat"] power_increasing [of "bits w" 64 "2::nat"]
  by (simp add: unsigned_of_nat take_bit_nat_eq_self_iff)

lemma FromString_unsigned:
  assumes "digits_val radix ds < 2 ^ bits w" "s = \<lparr>width = w, val = FromString_loop radix (length ds) 0 ds\<rparr>"
  shows "sint_ok s" "width s = w" "uval s = int (digits_val radix ds)"
  using uint_of_nat_less [OF assms(1)] assms
  by (simp_all add: FromString_loop_val uval_def sint_ok_def)

text \<open>What a caller reads: a plain or signed string of digits whose value fits.\<close>

lemma SInt_FromString_correct:
  assumes "ds \<noteq> []" "list_all (is_digit radix) ds" "digits_val radix ds < 2 ^ bits w"
  shows "\<exists>s. SInt_FromString w (CHR ''+'' # ds) radix = Some s \<and> sint_ok s \<and> width s = w \<and>
      uval s = int (digits_val radix ds)"
    and "\<exists>s. SInt_FromString w ds radix = Some s \<and> sint_ok s \<and> width s = w \<and>
      uval s = int (digits_val radix ds)"
    and "\<exists>s. SInt_FromString w (CHR ''-'' # ds) radix = Some s \<and> sint_ok s \<and> width s = w \<and>
      uval s = (- int (digits_val radix ds)) mod modulus w"
proof -
  note un = FromString_unsigned [OF assms(3) refl]
  show "\<exists>s. SInt_FromString w (CHR ''+'' # ds) radix = Some s \<and> sint_ok s \<and> width s = w \<and>
      uval s = int (digits_val radix ds)"
    using un by (simp add: SInt_FromString_def Let_def)
  show "\<exists>s. SInt_FromString w (CHR ''-'' # ds) radix = Some s \<and> sint_ok s \<and> width s = w \<and>
      uval s = (- int (digits_val radix ds)) mod modulus w"
    using un by (simp add: SInt_FromString_def Let_def SInt_Neg_sem)
  obtain p ps where p: "ds = p # ps" using assms(1) by (cases ds) auto
  then have "p \<noteq> CHR ''-'' \<and> p \<noteq> CHR ''+''"
    using assms(2) by (cases radix) (auto simp: is_digit_def digit_of_def GetDigit_def Let_def UINT_MAX_def
        unsigned_minus_1_eq_mask mask_eq_exp_minus_1)
  then show "\<exists>s. SInt_FromString w ds radix = Some s \<and> sint_ok s \<and> width s = w \<and>
      uval s = int (digits_val radix ds)"
    using un p by (simp add: SInt_FromString_def Let_def)
qed

end
