(* ===== verification/RangeDefs.thy ===== *)
theory RangeDefs
  imports SIntParse
begin

section \<open>Sets of integers as wrapping intervals: \<open>ConstantRange\<close>\<close>

text \<open>
  \<open>src/CHIR/Analysis/ConstantRange.cpp\<close>: a range is a pair of bounds \<open>[lower, upper)\<close>
  of one width that may wrap around; equal bounds are the empty set (both 0) or the full
  set (both the greatest number), and no other pair of equal bounds is legal. This theory
  holds the construction of ranges, the tests, the least and greatest elements and the
  set operations, in the order of the source. The conditions that the constructor
  asserts are the invariant of the next theory.
\<close>

datatype PreferredRangeType = Smallest | Unsigned | Signed

definition PreferFromBool :: "bool \<Rightarrow> PreferredRangeType" where
  "PreferFromBool useUnsigned = (if useUnsigned then Unsigned else Signed)"

datatype RelationalOperation = LT | LE | EQ | GT | GE | NE

record ConstantRange =
  lower :: SInt
  upper :: SInt

subsection \<open>Construction\<close>

definition CR_of_bool :: "IntWidth \<Rightarrow> bool \<Rightarrow> ConstantRange" where
  "CR_of_bool w full =
     (let l = (if full then SInt_UMaxValue w else SInt_UMinValue w) in \<lparr>lower = l, upper = l\<rparr>)"

definition CR_single :: "SInt \<Rightarrow> ConstantRange" where
  "CR_single v = \<lparr>lower = v, upper = SInt_add_u64 v 1\<rparr>"

definition mkCR :: "SInt \<Rightarrow> SInt \<Rightarrow> ConstantRange" where
  "mkCR l u = \<lparr>lower = l, upper = u\<rparr>"

definition CR_Empty :: "IntWidth \<Rightarrow> ConstantRange" where
  "CR_Empty w = CR_of_bool w False"

definition CR_Full :: "IntWidth \<Rightarrow> ConstantRange" where
  "CR_Full w = CR_of_bool w True"

definition CR_From :: "RelationalOperation \<Rightarrow> SInt \<Rightarrow> bool \<Rightarrow> ConstantRange" where
  "CR_From rel v isSigned =
     (let w = width v;
          isMin = (isSigned \<and> SInt_IsSMinValue v) \<or> (\<not> isSigned \<and> SInt_IsUMinValue v);
          isMax = (isSigned \<and> SInt_IsSMaxValue v) \<or> (\<not> isSigned \<and> SInt_IsUMaxValue v)
      in if (rel = LT \<and> isMin) \<or> (rel = GT \<and> isMax) then CR_Empty w
         else if (rel = LE \<and> isMax) \<or> (rel = GE \<and> isMin) then CR_Full w
         else
           let maxVal = (if isSigned then SInt_SMaxValue w else SInt_UMaxValue w);
               minVal = (if isSigned then SInt_SMinValue w else SInt_UMinValue w)
           in case rel of
                EQ \<Rightarrow> CR_single v
              | NE \<Rightarrow> mkCR (SInt_add_u64 v 1) v
              | GE \<Rightarrow> mkCR v (SInt_add_u64 maxVal 1)
              | GT \<Rightarrow> mkCR (SInt_add_u64 v 1) (SInt_add_u64 maxVal 1)
              | LE \<Rightarrow> mkCR minVal (SInt_add_u64 v 1)
              | LT \<Rightarrow> mkCR minVal v)"

definition CR_NonEmpty :: "SInt \<Rightarrow> SInt \<Rightarrow> ConstantRange" where
  "CR_NonEmpty l r = (if SInt_eq l r then CR_Full (width l) else mkCR l r)"

subsection \<open>Tests\<close>

definition CR_Width :: "ConstantRange \<Rightarrow> IntWidth" where
  "CR_Width r = width (lower r)"

definition CR_IsFullSet :: "ConstantRange \<Rightarrow> bool" where
  "CR_IsFullSet r \<longleftrightarrow> SInt_eq (lower r) (upper r) \<and> SInt_IsUMaxValue (lower r)"

definition CR_IsEmptySet :: "ConstantRange \<Rightarrow> bool" where
  "CR_IsEmptySet r \<longleftrightarrow> SInt_eq (lower r) (upper r) \<and> SInt_IsUMinValue (lower r)"

definition CR_IsNotEmptySet :: "ConstantRange \<Rightarrow> bool" where
  "CR_IsNotEmptySet r \<longleftrightarrow> \<not> CR_IsEmptySet r"

definition CR_IsNonTrivial :: "ConstantRange \<Rightarrow> bool" where
  "CR_IsNonTrivial r \<longleftrightarrow> \<not> CR_IsFullSet r"

definition CR_IsWrappedSet :: "ConstantRange \<Rightarrow> bool" where
  "CR_IsWrappedSet r \<longleftrightarrow> SInt_Ugt (lower r) (upper r) \<and> \<not> SInt_IsZero (upper r)"

definition CR_IsUpperWrapped :: "ConstantRange \<Rightarrow> bool" where
  "CR_IsUpperWrapped r \<longleftrightarrow> SInt_Ugt (lower r) (upper r)"

definition CR_IsSignWrappedSet :: "ConstantRange \<Rightarrow> bool" where
  "CR_IsSignWrappedSet r \<longleftrightarrow> SInt_Sgt (lower r) (upper r) \<and> \<not> SInt_IsSMinValue (upper r)"

definition CR_IsUpperSignWrapped :: "ConstantRange \<Rightarrow> bool" where
  "CR_IsUpperSignWrapped r \<longleftrightarrow> SInt_Sgt (lower r) (upper r)"

definition CR_Contains :: "ConstantRange \<Rightarrow> SInt \<Rightarrow> bool" where
  "CR_Contains r v =
     (if SInt_eq (lower r) (upper r) then CR_IsFullSet r
      else if \<not> CR_IsUpperWrapped r then SInt_Ule (lower r) v \<and> SInt_Ult v (upper r)
      else SInt_Ule (lower r) v \<or> SInt_Ult v (upper r))"

definition CR_GetSingleElement :: "ConstantRange \<Rightarrow> SInt" where
  "CR_GetSingleElement r = lower r"

definition CR_IsSingleElement :: "ConstantRange \<Rightarrow> bool" where
  "CR_IsSingleElement r \<longleftrightarrow> SInt_eq (upper r) (SInt_add_u64 (lower r) 1)"

definition CR_IsSizeStrictlySmallerThan :: "ConstantRange \<Rightarrow> ConstantRange \<Rightarrow> bool" where
  "CR_IsSizeStrictlySmallerThan r rhs =
     (if CR_IsFullSet r then False
      else if CR_IsFullSet rhs then True
      else SInt_Ult (SInt_sub (upper r) (lower r)) (SInt_sub (upper rhs) (lower rhs)))"

definition CR_UMaxValue :: "ConstantRange \<Rightarrow> SInt" where
  "CR_UMaxValue r =
     (if CR_IsFullSet r \<or> CR_IsUpperWrapped r then SInt_UMaxValue (CR_Width r)
      else SInt_sub_u64 (upper r) 1)"

definition CR_UMinValue :: "ConstantRange \<Rightarrow> SInt" where
  "CR_UMinValue r =
     (if CR_IsFullSet r \<or> CR_IsWrappedSet r then SInt_UMinValue (CR_Width r) else lower r)"

definition CR_SMaxValue :: "ConstantRange \<Rightarrow> SInt" where
  "CR_SMaxValue r =
     (if CR_IsFullSet r \<or> CR_IsUpperSignWrapped r then SInt_SMaxValue (CR_Width r)
      else SInt_sub_u64 (upper r) 1)"

definition CR_SMinValue :: "ConstantRange \<Rightarrow> SInt" where
  "CR_SMinValue r =
     (if CR_IsFullSet r \<or> CR_IsSignWrappedSet r then SInt_SMinValue (CR_Width r) else lower r)"

definition CR_MaxValue :: "ConstantRange \<Rightarrow> bool \<Rightarrow> SInt" where
  "CR_MaxValue r isUnsigned = (if isUnsigned then CR_UMaxValue r else CR_SMaxValue r)"

definition CR_MinValue :: "ConstantRange \<Rightarrow> bool \<Rightarrow> SInt" where
  "CR_MinValue r isUnsigned = (if isUnsigned then CR_UMinValue r else CR_SMinValue r)"

definition CR_eq :: "ConstantRange \<Rightarrow> ConstantRange \<Rightarrow> bool" where
  "CR_eq r rhs \<longleftrightarrow> SInt_eq (lower r) (lower rhs) \<and> SInt_eq (upper r) (upper rhs)"

definition CR_Subtract :: "ConstantRange \<Rightarrow> SInt \<Rightarrow> ConstantRange" where
  "CR_Subtract r v =
     (if SInt_eq (lower r) (upper r) then r
      else mkCR (SInt_sub (lower r) v) (SInt_sub (upper r) v))"

definition CR_Inverse :: "ConstantRange \<Rightarrow> ConstantRange" where
  "CR_Inverse r =
     (if CR_IsFullSet r then CR_Empty (CR_Width r)
      else if CR_IsEmptySet r then CR_Full (CR_Width r)
      else mkCR (upper r) (lower r))"

definition CR_Negate :: "ConstantRange \<Rightarrow> ConstantRange" where
  "CR_Negate r =
     (if CR_IsEmptySet r \<or> CR_IsFullSet r then r
      else
        let lo = SInt_Neg (SInt_sub_u64 (upper r) 1);
            up = (if SInt_IsSMinValue (lower r) then lower r
                  else SInt_add_u64 (SInt_Neg (lower r)) 1)
        in mkCR lo up)"

definition CR_SplitWrapping :: "ConstantRange \<Rightarrow> bool \<Rightarrow> ConstantRange \<times> ConstantRange" where
  "CR_SplitWrapping r asUnsigned =
     (CR_From LT (upper r) (\<not> asUnsigned), CR_From GE (lower r) (\<not> asUnsigned))"

subsection \<open>Intersection\<close>

definition GetPreferredRange ::
    "ConstantRange \<Rightarrow> ConstantRange \<Rightarrow> PreferredRangeType \<Rightarrow> ConstantRange" where
  "GetPreferredRange a b type =
     (let smaller = (if CR_IsSizeStrictlySmallerThan a b then a else b)
      in if type = Unsigned then
           (if \<not> CR_IsWrappedSet a \<and> CR_IsWrappedSet b then a
            else if CR_IsWrappedSet a \<and> \<not> CR_IsWrappedSet b then b
            else smaller)
         else if type = Signed then
           (if \<not> CR_IsSignWrappedSet a \<and> CR_IsSignWrappedSet b then a
            else if CR_IsSignWrappedSet a \<and> \<not> CR_IsSignWrappedSet b then b
            else smaller)
         else smaller)"

definition CR_IntersectBothWrapped ::
    "ConstantRange \<Rightarrow> ConstantRange \<Rightarrow> PreferredRangeType \<Rightarrow> ConstantRange" where
  "CR_IntersectBothWrapped r rhs type =
     (if SInt_Ult (upper rhs) (upper r) then
        (if SInt_Ult (lower rhs) (upper r) then GetPreferredRange r rhs type
         else if SInt_Ult (lower rhs) (lower r) then mkCR (lower r) (upper rhs)
         else rhs)
      else if SInt_Ule (upper rhs) (lower r) then
        (if SInt_Ult (lower rhs) (lower r) then r
         else mkCR (lower rhs) (upper r))
      else GetPreferredRange r rhs type)"

definition CR_IntersectWrappedWithUnwrapped ::
    "ConstantRange \<Rightarrow> ConstantRange \<Rightarrow> PreferredRangeType \<Rightarrow> ConstantRange" where
  "CR_IntersectWrappedWithUnwrapped r rhs type =
     (if SInt_Ult (lower rhs) (upper r) then
        (if SInt_Ult (upper rhs) (upper r) then rhs
         else if SInt_Ule (upper rhs) (lower r) then mkCR (lower rhs) (upper r)
         else GetPreferredRange r rhs type)
      else if SInt_Ult (lower rhs) (lower r) then
        (if SInt_Ule (upper rhs) (lower r) then CR_Empty (CR_Width r)
         else mkCR (lower r) (upper rhs))
      else rhs)"

definition CR_IntersectBothUnwrapped :: "ConstantRange \<Rightarrow> ConstantRange \<Rightarrow> ConstantRange" where
  "CR_IntersectBothUnwrapped r rhs =
     (if SInt_Ult (lower r) (lower rhs) then
        (if SInt_Ule (upper r) (lower rhs) then CR_Empty (CR_Width r)
         else if SInt_Ult (upper r) (upper rhs) then mkCR (lower rhs) (upper r)
         else rhs)
      else
        (if SInt_Ule (upper rhs) (lower r) then CR_Empty (CR_Width r)
         else if SInt_Ult (upper rhs) (upper r) then mkCR (lower r) (upper rhs)
         else r))"

text \<open>
  The call with swapped operands in the case of an unwrapped left operand recurses once:
  the measure is 1 there and 0 after the swap.
\<close>

function CR_IntersectWith ::
    "ConstantRange \<Rightarrow> ConstantRange \<Rightarrow> PreferredRangeType \<Rightarrow> ConstantRange" where
  "CR_IntersectWith r rhs type =
     (if CR_IsEmptySet r \<or> CR_IsFullSet rhs then r
      else if CR_IsEmptySet rhs \<or> CR_IsFullSet r then rhs
      else
        let thisWrapped = CR_IsUpperWrapped r; rhsWrapped = CR_IsUpperWrapped rhs
        in if \<not> thisWrapped \<and> rhsWrapped then CR_IntersectWith rhs r type
           else if \<not> thisWrapped \<and> \<not> rhsWrapped then CR_IntersectBothUnwrapped r rhs
           else if thisWrapped \<and> \<not> rhsWrapped then CR_IntersectWrappedWithUnwrapped r rhs type
           else CR_IntersectBothWrapped r rhs type)"
  by pat_completeness auto
termination
  by (relation "measure (\<lambda>(r, rhs, _). of_bool (\<not> CR_IsUpperWrapped r \<and> CR_IsUpperWrapped rhs))") auto

definition CR_Difference :: "ConstantRange \<Rightarrow> ConstantRange \<Rightarrow> ConstantRange" where
  "CR_Difference r rhs = CR_IntersectWith r (CR_Inverse rhs) Smallest"

subsection \<open>Union\<close>

definition CR_UnionBothWrapped :: "ConstantRange \<Rightarrow> ConstantRange \<Rightarrow> ConstantRange" where
  "CR_UnionBothWrapped r rhs =
     (if SInt_Ule (lower rhs) (upper r) \<or> SInt_Ule (lower r) (upper rhs) then CR_Full (CR_Width r)
      else
        let newLower = (if SInt_Ult (lower rhs) (lower r) then lower rhs else lower r);
            newUpper = (if SInt_Ugt (upper rhs) (upper r) then upper rhs else upper r)
        in mkCR newLower newUpper)"

definition CR_UnionWrappedWithUnwrapped ::
    "ConstantRange \<Rightarrow> ConstantRange \<Rightarrow> PreferredRangeType \<Rightarrow> ConstantRange" where
  "CR_UnionWrappedWithUnwrapped r rhs type =
     (if SInt_Ule (lower rhs) (upper r) then
        (if SInt_Ult (upper rhs) (upper r) then r
         else if SInt_Ult (upper rhs) (lower r) then mkCR (lower r) (upper rhs)
         else CR_Full (CR_Width r))
      else if SInt_Ult (lower rhs) (lower r) then
        (if SInt_Ult (upper rhs) (lower r)
         then GetPreferredRange (mkCR (lower r) (upper rhs)) (mkCR (lower rhs) (upper r)) type
         else mkCR (lower rhs) (upper r))
      else r)"

definition CR_UnionBothUnwrapped ::
    "ConstantRange \<Rightarrow> ConstantRange \<Rightarrow> PreferredRangeType \<Rightarrow> ConstantRange" where
  "CR_UnionBothUnwrapped r rhs type =
     (if SInt_Ult (upper rhs) (lower r) \<or> SInt_Ult (upper r) (lower rhs)
      then GetPreferredRange (mkCR (lower r) (upper rhs)) (mkCR (lower rhs) (upper r)) type
      else
        let newLower = (if SInt_Ult (lower rhs) (lower r) then lower rhs else lower r);
            newUpper = (if SInt_Ugt (SInt_sub_u64 (upper rhs) 1) (SInt_sub_u64 (upper r) 1)
                        then upper rhs else upper r)
        in if SInt_IsZero newLower \<and> SInt_IsZero newUpper then CR_Full (CR_Width r)
           else mkCR newLower newUpper)"

function CR_UnionWith ::
    "ConstantRange \<Rightarrow> ConstantRange \<Rightarrow> PreferredRangeType \<Rightarrow> ConstantRange" where
  "CR_UnionWith r rhs type =
     (if CR_IsFullSet r \<or> CR_IsEmptySet rhs then r
      else if CR_IsFullSet rhs \<or> CR_IsEmptySet r then rhs
      else
        let thisWrapped = CR_IsUpperWrapped r; rhsWrapped = CR_IsUpperWrapped rhs
        in if thisWrapped then
             (if rhsWrapped then CR_UnionBothWrapped r rhs
              else CR_UnionWrappedWithUnwrapped r rhs type)
           else
             (if rhsWrapped then CR_UnionWith rhs r type
              else CR_UnionBothUnwrapped r rhs type))"
  by pat_completeness auto
termination
  by (relation "measure (\<lambda>(r, rhs, _). of_bool (\<not> CR_IsUpperWrapped r \<and> CR_IsUpperWrapped rhs))") auto

declare CR_IntersectWith.simps [simp del] CR_UnionWith.simps [simp del]

end
