(* ===== verification/Ranges.thy ===== *)
theory Ranges
  imports RangeDefs
begin

section \<open>What a range stands for\<close>

text \<open>
  The invariant of \<open>ConstantRange\<close> (\<open>cr_ok\<close>: what its constructor asserts), the set of
  numbers a range stands for (\<open>elems\<close>, the numbers that \<open>Contains\<close> accepts), and the tests,
  bounds and least and greatest elements as integers. \<^theory_text>\<open>range_sem\<close> collects the
  integer meaning of the tests, \<^theory_text>\<open>range_wf\<close> the operations that keep the
  invariant.
\<close>


declare uval_nonneg [simp del] uval_not_neg [simp del] uval_add_not_neg [simp del]

named_theorems range_sem "integer meaning of the tests and operations of ConstantRange"
named_theorems range_wf "the operations of ConstantRange keep its invariant"

definition cr_ok :: "ConstantRange \<Rightarrow> bool" where
  "cr_ok r \<longleftrightarrow> same (lower r) (upper r) \<and>
     (SInt_eq (lower r) (upper r) \<longrightarrow> SInt_IsUMaxValue (lower r) \<or> SInt_IsUMinValue (lower r))"

abbreviation lo :: "ConstantRange \<Rightarrow> int" where "lo r \<equiv> uval (lower r)"
abbreviation up :: "ConstantRange \<Rightarrow> int" where "up r \<equiv> uval (upper r)"
abbreviation slo :: "ConstantRange \<Rightarrow> int" where "slo r \<equiv> sval (lower r)"
abbreviation sup :: "ConstantRange \<Rightarrow> int" where "sup r \<equiv> sval (upper r)"
abbreviation cmod :: "ConstantRange \<Rightarrow> int" where "cmod r \<equiv> modulus (width (lower r))"

text \<open>A residue \<open>x\<close> lies on the arc from \<open>l\<close> up to \<open>u\<close>.\<close>

definition arc :: "int \<Rightarrow> int \<Rightarrow> int \<Rightarrow> bool" where
  "arc l u x \<longleftrightarrow> (if l = u then l \<noteq> 0 else if l < u then l \<le> x \<and> x < u else l \<le> x \<or> x < u)"

text \<open>The numbers a range stands for.\<close>

definition elems :: "ConstantRange \<Rightarrow> SInt set" where
  "elems r = {v. same (lower r) v \<and> CR_Contains r v}"

lemma cr_okD:
  assumes "cr_ok r"
  shows "sint_ok (lower r)" "sint_ok (upper r)" "width (upper r) = width (lower r)"
    "0 \<le> lo r" "0 \<le> up r" "lo r < cmod r" "up r < cmod r" "lo r = up r \<Longrightarrow> lo r = 0 \<or> lo r = cmod r - 1"
  using assms uval_less [of "lower r"] uval_less [of "upper r"]
  by (auto simp: cr_ok_def same_def SInt_eq_sem SInt_tests_sem uval_nonneg)

lemma cr_okI [intro]:
  assumes "sint_ok (lower r)" "sint_ok (upper r)" "width (upper r) = width (lower r)"
    "lo r = up r \<Longrightarrow> lo r = 0 \<or> lo r = cmod r - 1"
  shows "cr_ok r"
  using assms by (auto simp: cr_ok_def same_def SInt_eq_sem SInt_tests_sem)

lemma mkCR_sel [simp]: "lower (mkCR l u) = l" "upper (mkCR l u) = u"
  by (simp_all add: mkCR_def)

lemma CR_const_sel [simp]:
  "lower (CR_Full w) = SInt_UMaxValue w" "upper (CR_Full w) = SInt_UMaxValue w"
  "lower (CR_Empty w) = SInt_UMinValue w" "upper (CR_Empty w) = SInt_UMinValue w"
  "lower (CR_single v) = v" "upper (CR_single v) = SInt_add_u64 v 1"
  by (simp_all add: CR_Full_def CR_Empty_def CR_of_bool_def CR_single_def Let_def)

lemma CR_const_ok [range_wf, simp]: "cr_ok (CR_Full w)" "cr_ok (CR_Empty w)"
  by (auto simp: sint_sem)

lemma CR_Width_simps [simp]:
  "CR_Width (mkCR l u) = width l" "CR_Width (CR_Full w) = w" "CR_Width (CR_Empty w) = w"
  "CR_Width (CR_single v) = width v"
  by (simp_all add: CR_Width_def)

lemma CR_single_ok [range_wf]: "sint_ok v \<Longrightarrow> cr_ok (CR_single v)"
  using uval_less [of v] uval_nonneg [of v] modulus_ge [of "width v"]
  by (intro cr_okI) (auto simp: sint_sem mod_add_if split: if_splits)

lemma CR_tests_sem [range_sem]:
  assumes "cr_ok r"
  shows "CR_IsFullSet r \<longleftrightarrow> lo r = up r \<and> lo r \<noteq> 0" "CR_IsEmptySet r \<longleftrightarrow> lo r = up r \<and> lo r = 0"
    "CR_IsWrappedSet r \<longleftrightarrow> up r < lo r \<and> up r \<noteq> 0" "CR_IsUpperWrapped r \<longleftrightarrow> up r < lo r"
    "CR_IsSignWrappedSet r \<longleftrightarrow> sup r < slo r \<and> sup r \<noteq> - half (width (lower r))"
    "CR_IsUpperSignWrapped r \<longleftrightarrow> sup r < slo r"
    "CR_IsSingleElement r \<longleftrightarrow> up r = (lo r + 1) mod cmod r"
  using cr_okD [OF assms] modulus_ge [of "width (lower r)"] sval_const_tests [of "upper r"]
  by (auto simp: CR_IsFullSet_def CR_IsEmptySet_def CR_IsWrappedSet_def CR_IsUpperWrapped_def
      CR_IsSignWrappedSet_def CR_IsUpperSignWrapped_def CR_IsSingleElement_def
      SInt_eq_sem SInt_tests_sem(1-5) SInt_Ugt_sem SInt_Sgt_sem SInt_ring_sem)

lemma CR_Contains_sem [range_sem]:
  "cr_ok r \<Longrightarrow> CR_Contains r v \<longleftrightarrow> arc (lo r) (up r) (uval v)"
  using cr_okD [of r]
  by (auto simp: CR_Contains_def arc_def CR_tests_sem SInt_eq_sem SInt_Ule_sem SInt_Ult_sem)

lemma elems_iff:
  "cr_ok r \<Longrightarrow> v \<in> elems r \<longleftrightarrow> sint_ok v \<and> width v = width (lower r) \<and> arc (lo r) (up r) (uval v)"
  using cr_okD [of r] by (auto simp: elems_def same_def CR_Contains_sem)

text \<open>The same set read through the signed order.\<close>

lemma arc_signed_int:
  fixes l u x H :: int
  defines "s \<equiv> \<lambda>y. if y < H then y else y - 2 * H"
  assumes "0 \<le> l" "l < 2 * H" "0 \<le> u" "u < 2 * H" "0 \<le> x" "x < 2 * H"
  shows "arc l u x \<longleftrightarrow>
    (if s l = s u then l \<noteq> 0 else if s l < s u then s l \<le> s x \<and> s x < s u else s l \<le> s x \<or> s x < s u)"
  using assms(2-) unfolding arc_def s_def
  by (cases "l < H"; cases "u < H"; cases "x < H") auto

lemma arc_signed:
  assumes "cr_ok r" "sint_ok v" "width v = width (lower r)"
  shows "arc (lo r) (up r) (uval v) \<longleftrightarrow>
    (if slo r = sup r then lo r \<noteq> 0
     else if slo r < sup r then slo r \<le> sval v \<and> sval v < sup r
     else slo r \<le> sval v \<or> sval v < sup r)"
  using cr_okD(1-3) [OF assms(1)] assms(2,3) uval_bounds [of "lower r"] uval_bounds [of "upper r"] uval_bounds [of v]
  by (simp add: arc_signed_int [of _ "half (width (lower r))"] sval_eq modulus_half)

lemma elems_signed:
  assumes "cr_ok r"
  shows "v \<in> elems r \<longleftrightarrow> sint_ok v \<and> width v = width (lower r) \<and>
    (if slo r = sup r then lo r \<noteq> 0
     else if slo r < sup r then slo r \<le> sval v \<and> sval v < sup r
     else slo r \<le> sval v \<or> sval v < sup r)"
  unfolding elems_iff [OF assms] by (intro conj_cong refl arc_signed [OF assms])

subsection \<open>Least and greatest elements\<close>

lemma CR_minmax_width [simp]:
  assumes "cr_ok r"
  shows "width (CR_UMinValue r) = width (lower r)" "width (CR_UMaxValue r) = width (lower r)"
    "width (CR_SMinValue r) = width (lower r)" "width (CR_SMaxValue r) = width (lower r)"
  using cr_okD [OF assms]
  by (simp_all add: CR_UMinValue_def CR_UMaxValue_def CR_SMinValue_def CR_SMaxValue_def CR_Width_def)

lemma CR_minmax_ok [simp]:
  assumes "cr_ok r"
  shows "sint_ok (CR_UMinValue r)" "sint_ok (CR_UMaxValue r)" "sint_ok (CR_SMinValue r)" "sint_ok (CR_SMaxValue r)"
  using cr_okD [OF assms]
  by (simp_all add: CR_UMinValue_def CR_UMaxValue_def CR_SMinValue_def CR_SMaxValue_def CR_Width_def)

lemma CR_UMinValue_le:
  assumes "cr_ok r" "v \<in> elems r"
  shows "uval (CR_UMinValue r) \<le> uval v"
  using assms uval_nonneg [of v] cr_okD [OF assms(1)] modulus_ge [of "width (lower r)"]
  by (auto simp: elems_iff arc_def CR_UMinValue_def CR_tests_sem CR_Width_def SInt_const_sem split: if_splits)

lemma CR_UMaxValue_ge:
  assumes "cr_ok r" "v \<in> elems r"
  shows "uval v \<le> uval (CR_UMaxValue r)"
  using assms cr_okD [OF assms(1)] modulus_ge [of "width (lower r)"] uval_less [of v]
  by (auto simp: elems_iff arc_def CR_UMaxValue_def CR_tests_sem CR_Width_def SInt_const_sem
      SInt_ring_sem mod_sub_if split: if_splits)

lemma CR_UMinMax_mem:
  assumes "cr_ok r" "\<not> CR_IsEmptySet r"
  shows "CR_UMinValue r \<in> elems r" "CR_UMaxValue r \<in> elems r"
  using assms cr_okD [OF assms(1)] modulus_ge [of "width (lower r)"]
  by (auto simp: elems_iff arc_def CR_UMinValue_def CR_UMaxValue_def CR_tests_sem CR_Width_def SInt_const_sem
      SInt_ring_sem mod_sub_if split: if_splits)

lemma CR_SMinValue_le:
  assumes "cr_ok r" "v \<in> elems r"
  shows "sval (CR_SMinValue r) \<le> sval v"
  using assms sval_range [of v] cr_okD(1-3) [OF assms(1)] sval_inj [of "lower r" "upper r"]
  by (auto simp: elems_signed CR_SMinValue_def CR_tests_sem CR_Width_def split: if_splits)

lemma sval_pred:
  assumes "sint_ok u" "sval u \<noteq> - half (width u)"
  shows "sval (SInt_sub_u64 u 1) = sval u - 1"
proof (rule sval_mkmod)
  show "uval (SInt_sub_u64 u 1) = (sval u - 1) mod modulus (width (SInt_sub_u64 u 1))"
    using sval_mod [OF assms(1)] by (simp add: SInt_ring_sem mod_diff_left_eq [symmetric, of "sval u"])
  show "srange (width (SInt_sub_u64 u 1)) (sval u - 1)"
    using sval_range [OF assms(1)] assms(2) by (simp add: srange_def)
qed simp

lemma sval_succ:
  assumes "sint_ok u" "sval u \<noteq> half (width u) - 1"
  shows "sval (SInt_add_u64 u 1) = sval u + 1"
proof (rule sval_mkmod)
  show "uval (SInt_add_u64 u 1) = (sval u + 1) mod modulus (width (SInt_add_u64 u 1))"
    using sval_mod [OF assms(1)] by (simp add: SInt_ring_sem mod_add_left_eq [symmetric, of "sval u"])
  show "srange (width (SInt_add_u64 u 1)) (sval u + 1)"
    using sval_range [OF assms(1)] assms(2) by (simp add: srange_def)
qed simp

lemma CR_SMaxValue_ge:
  assumes "cr_ok r" "v \<in> elems r"
  shows "sval v \<le> sval (CR_SMaxValue r)"
  using assms sval_range [of v] sval_range [of "lower r"] cr_okD(1-3) [OF assms(1)] sval_inj [of "lower r" "upper r"] sval_pred [of "upper r"]
  by (cases "sup r = - half (width (lower r))")
    (auto simp: elems_signed CR_SMaxValue_def CR_tests_sem CR_Width_def split: if_splits)

lemma CR_SMinMax_mem:
  assumes "cr_ok r" "\<not> CR_IsEmptySet r"
  shows "CR_SMinValue r \<in> elems r" "CR_SMaxValue r \<in> elems r"
proof -
  note d = cr_okD [OF assms(1)]
  have r: "srange (width (lower r)) (slo r)" "srange (width (lower r)) (sup r)"
    using sval_range [of "lower r"] sval_range [of "upper r"] d by (simp_all add: srange_def)
  show "CR_SMinValue r \<in> elems r"
    using assms r d(1-3) sval_inj [of "lower r" "upper r"]
    by (auto simp: elems_signed CR_SMinValue_def CR_tests_sem CR_Width_def srange_def)
  show "CR_SMaxValue r \<in> elems r"
    using assms r d(1-3) sval_inj [of "lower r" "upper r"] sval_pred [of "upper r"] half_ge [of "width (lower r)"]
    by (auto simp: elems_signed CR_SMaxValue_def CR_tests_sem CR_Width_def srange_def)
qed

end
