(* ===== verification/RangeSets.thy ===== *)
theory RangeSets
  imports Ranges
begin

section \<open>The set operations of \<open>ConstantRange\<close>\<close>

text \<open>
  Intersection, union, the ranges of a comparison (\<open>From\<close>), complement, difference,
  splitting, translation and negation, against the sets the ranges stand for. An
  intersection or union need not be a range; the contracts \<open>inter_spec\<close> and
  \<open>union_spec\<close> say what a result may then be.
\<close>

subsection \<open>Intersection\<close>

text \<open>An operand of the same width.\<close>

definition cr_same :: "ConstantRange \<Rightarrow> ConstantRange \<Rightarrow> bool" where
  "cr_same r s \<longleftrightarrow> cr_ok r \<and> cr_ok s \<and> width (lower s) = width (lower r)"

lemma cr_sameD: "cr_same r s \<Longrightarrow> cr_ok r" "cr_same r s \<Longrightarrow> cr_ok s"
  "cr_same r s \<Longrightarrow> width (lower s) = width (lower r)"
  by (simp_all add: cr_same_def)

lemma cr_same_sym: "cr_same r s \<Longrightarrow> cr_same s r" by (simp add: cr_same_def)

lemma GetPreferredRange_cases: "P a \<Longrightarrow> P b \<Longrightarrow> P (GetPreferredRange a b t)"
  by (simp add: GetPreferredRange_def Let_def)

lemma elems_arc_subset:
  assumes "cr_ok r" "cr_ok s" "width (lower s) = width (lower r)"
    and "\<And>x. 0 \<le> x \<Longrightarrow> x < cmod r \<Longrightarrow> arc (lo r) (up r) x \<Longrightarrow> arc (lo s) (up s) x"
  shows "elems r \<subseteq> elems s"
proof
  fix v assume "v \<in> elems r"
  then show "v \<in> elems s"
    using assms uval_less [of v] uval_nonneg [of v] by (auto simp: elems_iff)
qed

lemma mkCR_ok [range_wf]:
  "same l u \<Longrightarrow> uval l \<noteq> uval u \<Longrightarrow> cr_ok (mkCR l u)"
  by (auto simp: same_def)

text \<open>
  No range stands for a set that is left and entered twice on the way around.
\<close>

definition representable :: "IntWidth \<Rightarrow> SInt set \<Rightarrow> bool" where
  "representable w A \<longleftrightarrow> (\<exists>c. cr_ok c \<and> width (lower c) = w \<and> elems c = A)"

lemma arc_alternates:
  assumes "a < b" "b < c" "c < d" "arc l u b \<noteq> arc l u a" "arc l u c = arc l u a" "arc l u d = arc l u b"
  shows False
  using assms by (auto simp: arc_def split: if_splits)

lemma not_representable:
  assumes "uval a < uval b" "uval b < uval c" "uval c < uval d"
    "sint_ok a" "sint_ok b" "sint_ok c" "sint_ok d"
    "width a = w" "width b = w" "width c = w" "width d = w"
    "(b \<in> A) \<noteq> (a \<in> A)" "(c \<in> A) = (a \<in> A)" "(d \<in> A) = (b \<in> A)"
  shows "\<not> representable w A"
proof
  assume "representable w A"
  then obtain r where r: "cr_ok r" "width (lower r) = w" "elems r = A"
    by (auto simp: representable_def)
  have "v \<in> A \<longleftrightarrow> arc (lo r) (up r) (uval v)" if "sint_ok v" "width v = w" for v
    using that r by (auto simp: elems_iff)
  then show False
    using arc_alternates [OF assms(1-3), of "lo r" "up r"] assms by auto
qed

text \<open>
  The contract of an intersection \<open>t\<close>: it keeps the invariant, covers what both operands
  have, stays within one of them, and is exact when the exact answer is a range.
\<close>

definition inter_spec :: "ConstantRange \<Rightarrow> ConstantRange \<Rightarrow> ConstantRange \<Rightarrow> bool" where
  "inter_spec r s t \<longleftrightarrow> cr_ok t \<and> width (lower t) = width (lower r) \<and>
     elems r \<inter> elems s \<subseteq> elems t \<and> (elems t \<subseteq> elems r \<or> elems t \<subseteq> elems s) \<and>
     (representable (width (lower r)) (elems r \<inter> elems s) \<longrightarrow> elems t = elems r \<inter> elems s)"

lemma inter_specI:
  assumes "cr_same r s" "cr_ok t" "width (lower t) = width (lower r)"
    "\<And>x. 0 \<le> x \<Longrightarrow> x < cmod r \<Longrightarrow> arc (lo t) (up t) x \<longleftrightarrow> arc (lo r) (up r) x \<and> arc (lo s) (up s) x"
  shows "inter_spec r s t"
proof -
  note d = cr_sameD [OF assms(1)]
  have "elems t = elems r \<inter> elems s"
  proof (rule set_eqI)
    fix v show "v \<in> elems t \<longleftrightarrow> v \<in> elems r \<inter> elems s"
      using assms(2-4) d uval_less [of v] uval_nonneg [of v] by (auto simp: elems_iff)
  qed
  with assms(2,3) show ?thesis by (simp add: inter_spec_def)
qed

lemma inter_spec_exact: "cr_same r s \<Longrightarrow> elems r \<subseteq> elems s \<Longrightarrow> inter_spec r s r"
  "cr_same r s \<Longrightarrow> elems s \<subseteq> elems r \<Longrightarrow> inter_spec r s s"
  by (auto simp: inter_spec_def cr_same_def)

lemma inter_spec_preferred:
  assumes "cr_same r s" "\<not> representable (width (lower r)) (elems r \<inter> elems s)"
  shows "inter_spec r s (GetPreferredRange r s t)"
  using assms by (intro GetPreferredRange_cases [where P = "inter_spec r s"])
    (auto simp: inter_spec_def cr_same_def)

lemma inter_spec_sym: "inter_spec s r t \<Longrightarrow> cr_same r s \<Longrightarrow> inter_spec r s t"
  by (auto simp: inter_spec_def cr_same_def Int_commute)

lemma CR_const_width: "width (lower (CR_Full w)) = w" "width (lower (CR_Empty w)) = w"
  by simp_all

lemma CR_IntersectBothWrapped_spec:
  assumes "cr_same r s" "up r < lo r" "up s < lo s"
  shows "inter_spec r s (CR_IntersectBothWrapped r s t)"
proof -
  note d = cr_sameD [OF assms(1)]
  note b = cr_okD(1-7) [OF d(1)] cr_okD(1-7) [OF d(2)]
  have 1: "inter_spec r s (mkCR (lower r) (upper s))" if "up s < up r" "\<not> lo s < up r" "lo s < lo r"
    using that assms b d(3) by (intro inter_specI mkCR_ok) (auto simp: arc_def same_def)
  have 2: "inter_spec r s (mkCR (lower s) (upper r))" if "\<not> up s < up r" "up s \<le> lo r" "\<not> lo s < lo r"
    using that assms b d(3) by (intro inter_specI mkCR_ok) (auto simp: arc_def same_def)
  have 3: "inter_spec r s s" if "up s < up r" "\<not> lo s < lo r"
    using that assms b d(3) by (intro inter_specI d) (auto simp: arc_def same_def)
  have 4: "inter_spec r s r" if "\<not> up s < up r" "lo s < lo r" "up s \<le> lo r"
    using that assms b d(3) by (intro inter_specI d) (auto simp: arc_def same_def)
  have 5: "inter_spec r s (GetPreferredRange r s t)" if "up s < up r" "lo s < up r"
    using that assms b d
    by (intro inter_spec_preferred not_representable [of "upper s" "lower s" "upper r" "SInt_UMaxValue (width (lower r))"])
      (auto simp: elems_iff arc_def SInt_const_sem)
  have 6: "inter_spec r s (GetPreferredRange r s t)" if "\<not> up s \<le> lo r"
    using that assms b d
    by (intro inter_spec_preferred not_representable [of "upper r" "lower r" "upper s" "SInt_UMaxValue (width (lower r))"])
      (auto simp: elems_iff arc_def SInt_const_sem)
  show ?thesis
    unfolding CR_IntersectBothWrapped_def SInt_Ult_sem SInt_Ule_sem
    using 1 2 3 4 5 6 by (simp split: if_split)
qed

lemma CR_IntersectWrappedWithUnwrapped_spec:
  assumes "cr_same r s" "up r < lo r" "lo s < up s"
  shows "inter_spec r s (CR_IntersectWrappedWithUnwrapped r s t)"
proof -
  note d = cr_sameD [OF assms(1)]
  note b = cr_okD(1-7) [OF d(1)] cr_okD(1-7) [OF d(2)]
  have 1: "inter_spec r s (mkCR (lower s) (upper r))" if "lo s < up r" "\<not> up s < up r" "up s \<le> lo r"
    using that assms b d(3) by (intro inter_specI mkCR_ok) (auto simp: arc_def same_def)
  have 2: "inter_spec r s (CR_Empty (CR_Width r))" if "\<not> lo s < up r" "lo s < lo r" "up s \<le> lo r"
    using that assms b d(3) by (intro inter_specI) (auto simp: arc_def CR_Width_def SInt_const_sem)
  have 3: "inter_spec r s (mkCR (lower r) (upper s))" if "\<not> lo s < up r" "lo s < lo r" "\<not> up s \<le> lo r"
    using that assms b d(3) by (intro inter_specI mkCR_ok) (auto simp: arc_def same_def)
  have 4: "inter_spec r s s" if "up s < up r \<or> \<not> lo s < lo r"
    using that assms b d(3) by (intro inter_specI d) (auto simp: arc_def same_def)
  have 5: "inter_spec r s (GetPreferredRange r s t)" if "lo s < up r" "\<not> up s \<le> lo r"
  proof (intro inter_spec_preferred assms(1)
      not_representable [of "lower s" "upper r" "lower r" "upper s"])
  qed (use that assms b d in \<open>auto simp: elems_iff arc_def\<close>)
  show ?thesis
    unfolding CR_IntersectWrappedWithUnwrapped_def SInt_Ult_sem SInt_Ule_sem
    using 1 2 3 4 5 assms by (simp split: if_split)
qed

lemma CR_IntersectBothUnwrapped_spec:
  assumes "cr_same r s" "lo r < up r" "lo s < up s"
  shows "inter_spec r s (CR_IntersectBothUnwrapped r s)"
proof -
  note d = cr_sameD [OF assms(1)]
  note b = cr_okD(1-7) [OF d(1)] cr_okD(1-7) [OF d(2)]
  have 1: "inter_spec r s (CR_Empty (CR_Width r))" if "up r \<le> lo s \<or> up s \<le> lo r"
    using that assms b d(3) by (intro inter_specI) (auto simp: arc_def CR_Width_def SInt_const_sem)
  have 2: "inter_spec r s (mkCR (lower s) (upper r))" if "lo r < lo s" "\<not> up r \<le> lo s" "up r < up s"
    using that assms b d(3) by (intro inter_specI mkCR_ok) (auto simp: arc_def same_def)
  have 3: "inter_spec r s (mkCR (lower r) (upper s))" if "\<not> lo r < lo s" "\<not> up s \<le> lo r" "up s < up r"
    using that assms b d(3) by (intro inter_specI mkCR_ok) (auto simp: arc_def same_def)
  have 4: "inter_spec r s s" if "lo r < lo s" "\<not> up r < up s"
    using that assms b d(3) by (intro inter_specI d) (auto simp: arc_def same_def)
  have 5: "inter_spec r s r" if "\<not> lo r < lo s" "\<not> up s < up r"
    using that assms b d(3) by (intro inter_specI d) (auto simp: arc_def same_def)
  show ?thesis
    unfolding CR_IntersectBothUnwrapped_def SInt_Ult_sem SInt_Ule_sem
    using 1 2 3 4 5 by (simp split: if_split)
qed

lemma trivial_subset:
  assumes "cr_same r s" "CR_IsEmptySet r \<or> CR_IsFullSet s"
  shows "elems r \<subseteq> elems s"
  using assms cr_sameD [OF assms(1)] by (auto simp: elems_iff CR_tests_sem arc_def)

lemma CR_IntersectWith_spec:
  "cr_same r s \<Longrightarrow> inter_spec r s (CR_IntersectWith r s t)"
proof (induction r s t rule: CR_IntersectWith.induct)
  case (1 r s t)
  note d = cr_sameD [OF 1(2)]
  note b = CR_tests_sem [OF d(1)] CR_tests_sem [OF d(2)]
  show ?case
  proof (cases "CR_IsEmptySet r \<or> CR_IsFullSet s \<or> CR_IsEmptySet s \<or> CR_IsFullSet r")
    case True
    have "inter_spec r s r" if "CR_IsEmptySet r \<or> CR_IsFullSet s"
      using that by (intro inter_spec_exact trivial_subset 1(2))
    moreover have "inter_spec r s s" if "CR_IsEmptySet s \<or> CR_IsFullSet r"
      using inter_spec_exact(2) [OF 1(2) trivial_subset [OF cr_same_sym [OF 1(2)] that]] .
    moreover have "CR_IntersectWith r s t = (if CR_IsEmptySet r \<or> CR_IsFullSet s then r else s)"
    proof (cases "CR_IsEmptySet r \<or> CR_IsFullSet s")
      case False
      with True have "CR_IsEmptySet s \<or> CR_IsFullSet r" by blast
      with False show ?thesis by (subst CR_IntersectWith.simps) (simp only: if_True if_False)
    qed (subst CR_IntersectWith.simps, simp only: if_True)
    ultimately show ?thesis using True by (cases "CR_IsEmptySet r \<or> CR_IsFullSet s") auto
  next
    case False
    then have ne: "lo r \<noteq> up r" "lo s \<noteq> up s" using b by auto
    from False have eq: "CR_IntersectWith r s t =
        (if \<not> up r < lo r \<and> up s < lo s then CR_IntersectWith s r t
         else if \<not> up r < lo r \<and> \<not> up s < lo s then CR_IntersectBothUnwrapped r s
         else if up r < lo r \<and> \<not> up s < lo s then CR_IntersectWrappedWithUnwrapped r s t
         else CR_IntersectBothWrapped r s t)"
      by (subst CR_IntersectWith.simps) (simp add: Let_def b(4,11))
    have IH: "inter_spec r s (CR_IntersectWith s r t)" if "\<not> up r < lo r" "up s < lo s"
      using that False 1 b(4,11) by (intro inter_spec_sym [OF _ 1(2)]) (auto intro: cr_same_sym)
    show ?thesis
      unfolding eq using ne IH 1(2)
      by (auto intro: CR_IntersectBothUnwrapped_spec CR_IntersectWrappedWithUnwrapped_spec
          CR_IntersectBothWrapped_spec)
  qed
qed

subsection \<open>Union\<close>

text \<open>
  The contract of a union \<open>t\<close>: it keeps the invariant, covers both operands, and is exact
  when the exact answer is a range.
\<close>

definition union_spec :: "ConstantRange \<Rightarrow> ConstantRange \<Rightarrow> ConstantRange \<Rightarrow> bool" where
  "union_spec r s t \<longleftrightarrow> cr_ok t \<and> width (lower t) = width (lower r) \<and> elems r \<union> elems s \<subseteq> elems t \<and>
     (representable (width (lower r)) (elems r \<union> elems s) \<longrightarrow> elems t = elems r \<union> elems s)"

lemma union_specI:
  assumes "cr_same r s" "cr_ok t" "width (lower t) = width (lower r)"
    "\<And>x. 0 \<le> x \<Longrightarrow> x < cmod r \<Longrightarrow> arc (lo t) (up t) x \<longleftrightarrow> arc (lo r) (up r) x \<or> arc (lo s) (up s) x"
  shows "union_spec r s t"
proof -
  note d = cr_sameD [OF assms(1)]
  have "elems t = elems r \<union> elems s"
  proof (rule set_eqI)
    fix v show "v \<in> elems t \<longleftrightarrow> v \<in> elems r \<union> elems s"
      using assms(2-4) d uval_less [of v] uval_nonneg [of v] by (auto simp: elems_iff)
  qed
  with assms(2,3) show ?thesis by (simp add: union_spec_def)
qed

lemma union_spec_exact: "cr_same r s \<Longrightarrow> elems s \<subseteq> elems r \<Longrightarrow> union_spec r s r"
  by (auto simp: union_spec_def cr_same_def)

lemma union_spec_sym: "union_spec s r t \<Longrightarrow> cr_same r s \<Longrightarrow> union_spec r s t"
  by (auto simp: union_spec_def cr_same_def Un_commute)

lemma elems_Full: "elems (CR_Full w) = {v. sint_ok v \<and> width v = w}"
  using modulus_ge [of w] by (auto simp: elems_iff arc_def SInt_const_sem)

lemma elems_Empty: "elems (CR_Empty w) = {}"
  by (auto simp: elems_iff arc_def SInt_const_sem)

text \<open>Two ranges with a gap on both sides: either hull covers them, and no range is exact.\<close>

lemma union_spec_hulls:
  assumes "cr_same r s" "lo s < up s" "up s < lo r" "up r < lo s \<or> lo r < up r"
  shows "union_spec r s (GetPreferredRange (mkCR (lower r) (upper s)) (mkCR (lower s) (upper r)) t)"
    "union_spec r s (GetPreferredRange (mkCR (lower s) (upper r)) (mkCR (lower r) (upper s)) t)"
proof -
  note d = cr_sameD [OF assms(1)]
  note b = cr_okD(1-7) [OF d(1)] cr_okD(1-7) [OF d(2)]
  define A where "A = elems r \<union> elems s"
  have "\<not> representable (width (lower r)) A"
  proof (cases "up r < lo s")
    case True
    then show ?thesis unfolding A_def
      using assms b d by (intro not_representable [of "upper r" "lower s" "upper s" "lower r"])
        (auto simp: elems_iff arc_def)
  next
    case False
    then show ?thesis unfolding A_def
      using assms b d by (intro not_representable [of "lower s" "upper s" "lower r" "upper r"])
        (auto simp: elems_iff arc_def)
  qed
  moreover have "cr_ok (mkCR (lower r) (upper s))" "cr_ok (mkCR (lower s) (upper r))"
    using assms b d(3) by (auto intro!: mkCR_ok simp: same_def)
  moreover have "A \<subseteq> elems (mkCR (lower r) (upper s))" "A \<subseteq> elems (mkCR (lower s) (upper r))"
    using assms b d calculation(2,3) uval_less uval_nonneg by (auto simp: A_def elems_iff arc_def split: if_splits)
  ultimately have "union_spec r s (mkCR (lower r) (upper s))" "union_spec r s (mkCR (lower s) (upper r))"
    using d(3) by (simp_all add: union_spec_def A_def)
  then show "union_spec r s (GetPreferredRange (mkCR (lower r) (upper s)) (mkCR (lower s) (upper r)) t)"
    "union_spec r s (GetPreferredRange (mkCR (lower s) (upper r)) (mkCR (lower r) (upper s)) t)"
    by (auto intro: GetPreferredRange_cases [where P = "union_spec r s"])
qed

lemma CR_UnionBothWrapped_spec:
  assumes "cr_same r s" "up r < lo r" "up s < lo s"
  shows "union_spec r s (CR_UnionBothWrapped r s)"
proof -
  note d = cr_sameD [OF assms(1)]
  note b = cr_okD(1-7) [OF d(1)] cr_okD(1-7) [OF d(2)]
  show ?thesis
  proof (cases "lo s \<le> up r \<or> lo r \<le> up s")
    case True
    then have "union_spec r s (CR_Full (CR_Width r))"
      using assms b d(3) by (intro union_specI) (auto simp: arc_def CR_Width_def SInt_const_sem)
    with True show ?thesis
      by (simp add: CR_UnionBothWrapped_def SInt_Ule_sem)
  next
    case False
    then have "union_spec r s (mkCR (if lo s < lo r then lower s else lower r) (if up r < up s then upper s else upper r))"
      using assms b d(3) by (intro union_specI mkCR_ok) (auto simp: arc_def same_def)
    with False show ?thesis
      by (simp add: CR_UnionBothWrapped_def SInt_Ule_sem SInt_Ult_sem SInt_Ugt_sem Let_def)
  qed
qed

lemma CR_UnionWrappedWithUnwrapped_spec:
  assumes "cr_same r s" "up r < lo r" "lo s < up s"
  shows "union_spec r s (CR_UnionWrappedWithUnwrapped r s t)"
proof -
  note d = cr_sameD [OF assms(1)]
  note b = cr_okD(1-7) [OF d(1)] cr_okD(1-7) [OF d(2)]
  have 0: "union_spec r s r" if "lo s \<le> up r \<and> up s < up r \<or> \<not> lo s < lo r"
    using that assms b d by (intro union_specI) (auto simp: arc_def)
  have 1: "union_spec r s (mkCR (lower r) (upper s))" if "lo s \<le> up r" "up s < lo r" "\<not> up s < up r"
    using that assms b d(3) by (intro union_specI mkCR_ok) (auto simp: arc_def same_def)
  have 2: "union_spec r s (mkCR (lower s) (upper r))" if "\<not> lo s \<le> up r" "lo s < lo r" "\<not> up s < lo r"
    using that assms b d(3) by (intro union_specI mkCR_ok) (auto simp: arc_def same_def)
  have 3: "union_spec r s (GetPreferredRange (mkCR (lower r) (upper s)) (mkCR (lower s) (upper r)) t)"
    if "\<not> lo s \<le> up r" "up s < lo r"
    using that assms(3) by (intro union_spec_hulls assms(1)) auto
  have 4: "union_spec r s (CR_Full (CR_Width r))" if "lo s \<le> up r" "\<not> up s < lo r"
    using that assms b d(3) by (intro union_specI) (auto simp: arc_def CR_Width_def SInt_const_sem)
  show ?thesis
    unfolding CR_UnionWrappedWithUnwrapped_def SInt_Ult_sem SInt_Ule_sem
    using 0 1 2 3 4 by (simp split: if_split)
qed

lemma CR_UnionBothUnwrapped_spec:
  assumes "cr_same r s" "lo r < up r" "lo s < up s"
  shows "union_spec r s (CR_UnionBothUnwrapped r s t)"
proof -
  note d = cr_sameD [OF assms(1)]
  note b = cr_okD(1-7) [OF d(1)] cr_okD(1-7) [OF d(2)]
  show ?thesis
  proof (cases "up s < lo r \<or> up r < lo s")
    case True
    have "union_spec r s (GetPreferredRange (mkCR (lower r) (upper s)) (mkCR (lower s) (upper r)) t)"
    proof (cases "up s < lo r")
      case True
      with assms show ?thesis by (intro union_spec_hulls) auto
    next
      case False
      with True assms show ?thesis
        by (intro union_spec_sym [OF union_spec_hulls(2) assms(1)] cr_same_sym [OF assms(1)]) auto
    qed
    with True show ?thesis
      by (simp add: CR_UnionBothUnwrapped_def SInt_Ult_sem)
  next
    case False
    define l where "l = (if lo s < lo r then lower s else lower r)"
    define u where "u = (if up r < up s then upper s else upper r)"
    have p: "uval (SInt_sub_u64 (upper r) 1) = up r - 1" "uval (SInt_sub_u64 (upper s) 1) = up s - 1"
      using b assms d(3) by (simp_all add: SInt_ring_sem mod_sub_if)
    have "CR_UnionBothUnwrapped r s t = (if uval l = 0 \<and> uval u = 0 then CR_Full (CR_Width r) else mkCR l u)"
      using False p
      by (simp add: CR_UnionBothUnwrapped_def SInt_Ult_sem SInt_Ugt_sem SInt_tests_sem Let_def l_def u_def)
    moreover have "uval l \<noteq> uval u" "uval u \<noteq> 0" using assms b by (auto simp: l_def u_def)
    moreover have "union_spec r s (mkCR l u)"
      using False assms b d(3) by (intro union_specI mkCR_ok) (auto simp: arc_def same_def l_def u_def)
    ultimately show ?thesis by simp
  qed
qed

lemma CR_UnionWith_spec:
  "cr_same r s \<Longrightarrow> union_spec r s (CR_UnionWith r s t)"
proof (induction r s t rule: CR_UnionWith.induct)
  case (1 r s t)
  note d = cr_sameD [OF 1(2)]
  note b = CR_tests_sem [OF d(1)] CR_tests_sem [OF d(2)]
  have left: "union_spec r s r" if "CR_IsFullSet r \<or> CR_IsEmptySet s"
    using union_spec_exact [OF 1(2) trivial_subset [OF cr_same_sym [OF 1(2)]]] that by blast
  have right: "union_spec r s s" if "CR_IsFullSet s \<or> CR_IsEmptySet r"
    using union_spec_sym [OF union_spec_exact [OF cr_same_sym [OF 1(2)] trivial_subset [OF 1(2)]] 1(2)] that by blast
  show ?case
  proof (cases "CR_IsEmptySet r \<or> CR_IsFullSet s \<or> CR_IsEmptySet s \<or> CR_IsFullSet r")
    case True
    then have "CR_UnionWith r s t = (if CR_IsFullSet r \<or> CR_IsEmptySet s then r else s)"
    proof (cases "CR_IsFullSet r \<or> CR_IsEmptySet s")
      case False
      with True have "CR_IsFullSet s \<or> CR_IsEmptySet r" by blast
      with False show ?thesis by (subst CR_UnionWith.simps) (simp only: if_True if_False)
    qed (subst CR_UnionWith.simps, simp only: if_True)
    then show ?thesis using True left right by (cases "CR_IsFullSet r \<or> CR_IsEmptySet s") auto
  next
    case False
    then have ne: "lo r \<noteq> up r" "lo s \<noteq> up s" using b by auto
    from False have eq: "CR_UnionWith r s t =
        (if up r < lo r then (if up s < lo s then CR_UnionBothWrapped r s else CR_UnionWrappedWithUnwrapped r s t)
         else (if up s < lo s then CR_UnionWith s r t else CR_UnionBothUnwrapped r s t))"
      by (subst CR_UnionWith.simps) (simp add: Let_def b(4,11))
    have IH: "union_spec r s (CR_UnionWith s r t)" if "\<not> up r < lo r" "up s < lo s"
      using that False 1 b(4,11) by (intro union_spec_sym [OF _ 1(2)]) (auto intro: cr_same_sym)
    show ?thesis
      unfolding eq using ne IH 1(2)
      by (auto intro: CR_UnionBothUnwrapped_spec CR_UnionWrappedWithUnwrapped_spec
          CR_UnionBothWrapped_spec)
  qed
qed

subsection \<open>Comparisons, complement, difference, splitting, translation, negation\<close>

definition rel_sem :: "RelationalOperation \<Rightarrow> int \<Rightarrow> int \<Rightarrow> bool" where
  "rel_sem rel x y =
     (case rel of LT \<Rightarrow> x < y | LE \<Rightarrow> x \<le> y | EQ \<Rightarrow> x = y | GT \<Rightarrow> y < x | GE \<Rightarrow> y \<le> x | NE \<Rightarrow> x \<noteq> y)"

definition ival :: "bool \<Rightarrow> SInt \<Rightarrow> int" where
  "ival isSigned v = (if isSigned then sval v else uval v)"

definition iconst :: "bool \<Rightarrow> IntWidth \<Rightarrow> int \<times> int" where
  "iconst isSigned w = (if isSigned then (- half w, half w - 1) else (0, modulus w - 1))"

text \<open>A range with unwrapped bounds in either reading is an interval.\<close>

lemma same_add_1 [simp]: "sint_ok v \<Longrightarrow> same (SInt_add_u64 v 1) v" "sint_ok v \<Longrightarrow> same v (SInt_add_u64 v 1)"
  by (simp_all add: same_def)

lemma uval_succ: "sint_ok v \<Longrightarrow> uval (SInt_add_u64 v 1) = (if uval v = modulus (width v) - 1 then 0 else uval v + 1)"
  using uval_less [of v] uval_nonneg [of v] modulus_ge [of "width v"] by (simp add: SInt_ring_sem mod_add_if)

lemma sval_succ_if: "sint_ok v \<Longrightarrow>
    sval (SInt_add_u64 v 1) = (if sval v = half (width v) - 1 then - half (width v) else sval v + 1)"
  using sval_succ [of v] uval_succ [of v] modulus_half [of "width v"] half_ge [of "width v"] uval_bounds [of v]
  by (auto simp: sval_eq split: if_splits)

lemma CR_From_ok [range_wf]:
  assumes "sint_ok v"
  shows "cr_ok (CR_From rel v s)" "width (lower (CR_From rel v s)) = width v"
proof -
  have b: "0 \<le> uval v" "uval v < 2 * half (width v)" using uval_bounds [OF assms] by auto
  show "cr_ok (CR_From rel v s)"
    using assms b half_ge [of "width v"]
    by (cases rel; cases s)
      (auto simp: CR_From_def Let_def SInt_tests_sem uval_succ SInt_const_sem SInt_signed_const_sem
        modulus_half same_def intro!: mkCR_ok CR_single_ok split: if_splits)
  show "width (lower (CR_From rel v s)) = width v"
    by (cases rel) (auto simp: CR_From_def Let_def)
qed

lemma CR_From_exact_unsigned:
  assumes "sint_ok v"
  shows "elems (CR_From rel v False) = {x. same v x \<and> rel_sem rel (uval x) (uval v)}"
proof (rule set_eqI)
  fix x
  have b: "0 \<le> uval v" "uval v < modulus (width v)" using uval_less [OF assms] uval_nonneg by auto
  have "(x \<in> elems (CR_From rel v False)) \<longleftrightarrow> same v x \<and> arc (lo (CR_From rel v False)) (up (CR_From rel v False)) (uval x)"
    using elems_iff [OF CR_From_ok(1) [OF assms]] CR_From_ok(2) [OF assms] assms by (auto simp: same_def)
  also have "\<dots> \<longleftrightarrow> same v x \<and> rel_sem rel (uval x) (uval v)"
  proof (rule conj_cong [OF refl])
    assume "same v x"
    then have x: "0 \<le> uval x" "uval x < modulus (width v)" using uval_less [of x] uval_nonneg [of x] by (simp_all add: same_def)
    show "arc (lo (CR_From rel v False)) (up (CR_From rel v False)) (uval x) \<longleftrightarrow> rel_sem rel (uval x) (uval v)"
      using b x modulus_ge [of "width v"]
      by (cases rel) (auto simp: CR_From_def Let_def SInt_tests_sem uval_succ [OF assms] uval_succ SInt_const_sem rel_sem_def arc_def)
  qed
  finally show "x \<in> elems (CR_From rel v False) \<longleftrightarrow> x \<in> {x. same v x \<and> rel_sem rel (uval x) (uval v)}" by simp
qed

lemma CR_From_exact_signed:
  assumes "sint_ok v"
  shows "elems (CR_From rel v True) = {x. same v x \<and> rel_sem rel (sval x) (sval v)}"
proof (rule set_eqI)
  fix x
  let ?r = "CR_From rel v True"
  have b: "- half (width v) \<le> sval v" "sval v < half (width v)" using sval_range [OF assms] by auto
  have "(x \<in> elems ?r) \<longleftrightarrow> same v x \<and> (if slo ?r = sup ?r then lo ?r \<noteq> 0
     else if slo ?r < sup ?r then slo ?r \<le> sval x \<and> sval x < sup ?r
     else slo ?r \<le> sval x \<or> sval x < sup ?r)"
    unfolding elems_signed [OF CR_From_ok(1) [OF assms]] CR_From_ok(2) [OF assms] using assms by (auto simp: same_def)
  also have "\<dots> \<longleftrightarrow> same v x \<and> rel_sem rel (sval x) (sval v)"
  proof (rule conj_cong [OF refl])
    assume "same v x"
    then have x: "- half (width v) \<le> sval x" "sval x < half (width v)" using sval_range [of x] by (simp_all add: same_def)
    show "(if slo ?r = sup ?r then lo ?r \<noteq> 0
     else if slo ?r < sup ?r then slo ?r \<le> sval x \<and> sval x < sup ?r
     else slo ?r \<le> sval x \<or> sval x < sup ?r) \<longleftrightarrow> rel_sem rel (sval x) (sval v)"
      using b x half_ge [of "width v"] modulus_ge [of "width v"]
      by (cases rel) (auto simp: CR_From_def Let_def sval_const_tests [OF assms] sval_succ_if [OF assms] sval_succ_if SInt_const_sem rel_sem_def arc_def)
  qed
  finally show "x \<in> elems ?r \<longleftrightarrow> x \<in> {x. same v x \<and> rel_sem rel (sval x) (sval v)}" by simp
qed

lemma CR_From_exact:
  "sint_ok v \<Longrightarrow> elems (CR_From rel v s) = {x. same v x \<and> rel_sem rel (ival s x) (ival s v)}"
  by (cases s) (simp_all add: CR_From_exact_signed CR_From_exact_unsigned ival_def)

lemma CR_Inverse_ok [range_wf]:
  assumes "cr_ok r"
  shows "cr_ok (CR_Inverse r)" "width (lower (CR_Inverse r)) = width (lower r)"
  using cr_okD [OF assms] by (auto simp: CR_Inverse_def CR_tests_sem [OF assms] CR_Width_def same_def intro!: mkCR_ok)

lemma CR_Inverse_exact:
  assumes "cr_ok r"
  shows "elems (CR_Inverse r) = {v. same (lower r) v} - elems r"
proof (rule set_eqI)
  fix v
  show "v \<in> elems (CR_Inverse r) \<longleftrightarrow> v \<in> {v. same (lower r) v} - elems r"
    unfolding Diff_iff elems_iff [OF CR_Inverse_ok(1) [OF assms]] elems_iff [OF assms] CR_Inverse_ok(2) [OF assms]
    using cr_okD [OF assms] modulus_ge [of "width (lower r)"]
    by (auto simp: CR_Inverse_def CR_tests_sem [OF assms] CR_Width_def same_def arc_def SInt_const_sem)
qed

lemma CR_Difference_spec:
  assumes "cr_same r s"
  shows "inter_spec r (CR_Inverse s) (CR_Difference r s)"
  using CR_IntersectWith_spec [of r "CR_Inverse s" Smallest] CR_Inverse_ok [of s] assms
  by (simp add: CR_Difference_def cr_same_def)

lemma CR_SplitWrapping_spec:
  assumes "cr_ok r" "if asUnsigned then CR_IsWrappedSet r else CR_IsSignWrappedSet r"
  shows "elems (fst (CR_SplitWrapping r asUnsigned)) \<union> elems (snd (CR_SplitWrapping r asUnsigned)) = elems r"
    "elems (fst (CR_SplitWrapping r asUnsigned)) \<inter> elems (snd (CR_SplitWrapping r asUnsigned)) = {}"
proof -
  note d = cr_okD [OF assms(1)]
  show "elems (fst (CR_SplitWrapping r asUnsigned)) \<union> elems (snd (CR_SplitWrapping r asUnsigned)) = elems r"
  proof (cases asUnsigned)
    case True
    then show ?thesis using assms d
      by (auto simp: CR_SplitWrapping_def CR_From_exact elems_iff CR_tests_sem rel_sem_def ival_def arc_def same_def split: if_splits)
  next
    case False
    then show ?thesis using assms d
      by (auto simp: CR_SplitWrapping_def CR_From_exact elems_signed CR_tests_sem rel_sem_def ival_def same_def split: if_splits)
  qed
  show "elems (fst (CR_SplitWrapping r asUnsigned)) \<inter> elems (snd (CR_SplitWrapping r asUnsigned)) = {}"
    using assms d
    by (auto simp: CR_SplitWrapping_def CR_From_exact CR_tests_sem rel_sem_def ival_def split: if_splits)
qed

lemma CR_Subtract_spec:
  assumes "cr_ok r" "same (lower r) v" "same (lower r) x"
  shows "cr_ok (CR_Subtract r v)" "SInt_sub x v \<in> elems (CR_Subtract r v) \<longleftrightarrow> x \<in> elems r"
proof -
  note d = cr_okD [OF assms(1)]
  have b: "sint_ok v" "width v = width (lower r)" "0 \<le> uval v" "uval v < cmod r"
    "sint_ok x" "width x = width (lower r)" "0 \<le> uval x" "uval x < cmod r"
    using assms uval_less [of v] uval_nonneg [of v] uval_less [of x] uval_nonneg [of x]
    by (simp_all add: same_def)
  show ok: "cr_ok (CR_Subtract r v)"
    using d b assms(1) by (auto simp: CR_Subtract_def SInt_eq_sem SInt_ring_sem mod_sub_if same_def intro!: mkCR_ok split: if_splits)
  show "SInt_sub x v \<in> elems (CR_Subtract r v) \<longleftrightarrow> x \<in> elems r"
    unfolding elems_iff [OF ok] elems_iff [OF assms(1)]
    using d b by (auto simp: CR_Subtract_def SInt_eq_sem SInt_ring_sem mod_sub_if arc_def)
qed

lemma CR_Negate_ok:
  assumes "cr_ok r" "lo r = half (width (lower r)) \<longrightarrow> up r \<noteq> half (width (lower r)) + 1"
  shows "cr_ok (CR_Negate r)" "width (lower (CR_Negate r)) = width (lower r)"
proof -
  note d = cr_okD [OF assms(1)]
  have h: "cmod r = 2 * half (width (lower r))" "128 \<le> half (width (lower r))"
    using modulus_half half_ge by auto
  show "cr_ok (CR_Negate r)"
    using d assms h
    by (auto simp: CR_Negate_def CR_tests_sem [OF assms(1)] Let_def same_def SInt_tests_sem SInt_Neg_sem SInt_ring_sem
        mod_sub_if mod_minus_if mod_add_if intro!: mkCR_ok split: if_splits)
  show "width (lower (CR_Negate r)) = width (lower r)"
    using d by (simp add: CR_Negate_def Let_def)
qed

lemma CR_Negate_sound:
  assumes "cr_ok r" "x \<in> elems r" "lo r = half (width (lower r)) \<longrightarrow> uval x \<noteq> half (width (lower r))"
  shows "SInt_Neg x \<in> elems (CR_Negate r)"
proof -
  note d = cr_okD [OF assms(1)]
  have b: "sint_ok x" "width x = width (lower r)" "0 \<le> uval x" "uval x < cmod r" "arc (lo r) (up r) (uval x)"
    using assms(1,2) uval_less [of x] uval_nonneg [of x] by (auto simp: elems_iff)
  have h: "cmod r = 2 * half (width (lower r))" "128 \<le> half (width (lower r))"
    using modulus_half half_ge by auto
  have ok: "cr_ok (CR_Negate r)" "width (lower (CR_Negate r)) = width (lower r)"
    using d b h assms by (intro CR_Negate_ok; auto simp: arc_def)+
  have "arc (lo (CR_Negate r)) (up (CR_Negate r)) (uval (SInt_Neg x))"
    using d b h assms
    by (auto simp: CR_Negate_def CR_tests_sem [OF assms(1)] Let_def SInt_tests_sem SInt_Neg_sem SInt_ring_sem
        mod_sub_if mod_minus_if mod_add_if arc_def split: if_splits)
  with ok b show ?thesis by (simp add: elems_iff)
qed

end
