(* ===== verification/RangeArithDefs.thy ===== *)
theory RangeArithDefs
  imports RangeSets
begin

section \<open>The arithmetic of \<open>ConstantRange\<close>\<close>

text \<open>
  The second half of \<open>src/CHIR/Analysis/ConstantRange.cpp\<close>: change of width, addition,
  subtraction, multiplication, division, remainder, their saturating variants and the
  absolute value. An operation that divides returns \<^term>\<open>None\<close> where the C++ would
  divide by zero; the theories that follow prove that this never happens.
\<close>

subsection \<open>Change of width\<close>

definition CR_ZeroExtend :: "ConstantRange \<Rightarrow> IntWidth \<Rightarrow> ConstantRange" where
  "CR_ZeroExtend r w =
     (if CR_IsEmptySet r then CR_Empty w
      else if CR_IsFullSet r \<or> CR_IsWrappedSet r
        then mkCR (mkSInt w 0) (SInt_GetOneBitSet w (bits (CR_Width r)))
      else if SInt_IsUMinValue (upper r)
        then mkCR (SInt_ZExt (lower r) w) (SInt_GetOneBitSet w (bits (CR_Width r)))
      else mkCR (SInt_ZExt (lower r) w) (SInt_ZExt (upper r) w))"

definition CR_SignExtend :: "ConstantRange \<Rightarrow> IntWidth \<Rightarrow> ConstantRange" where
  "CR_SignExtend r w =
     (if CR_IsEmptySet r then CR_Empty w
      else if CR_IsFullSet r \<or> CR_IsSignWrappedSet r then
        (let lowerWidth = bits (CR_Width r);
             l = SInt_GetHighBitsSet w (bits w - lowerWidth + 1);
             u = SInt_add_u64 (SInt_GetLowBitsSet w (lowerWidth - 1)) 1
         in mkCR l u)
      else if SInt_IsSMinValue (upper r)
        then mkCR (SInt_SExt (lower r) w) (SInt_ZExt (upper r) w)
      else mkCR (SInt_SExt (lower r) w) (SInt_SExt (upper r) w))"

definition CR_Truncate_normal ::
    "IntWidth \<Rightarrow> IntWidth \<Rightarrow> SInt \<Rightarrow> SInt \<Rightarrow> ConstantRange \<Rightarrow> ConstantRange" where
  "CR_Truncate_normal w dstWidth lowerDiv upperDiv wrappedPart =
     (let adjust = SInt_and lowerDiv (SInt_GetBitsSetFrom w (bits dstWidth));
          cut = SInt_ActiveBits lowerDiv > bits dstWidth;
          lowerDiv1 = (if cut then SInt_sub lowerDiv adjust else lowerDiv);
          upperDiv1 = (if cut then SInt_sub upperDiv adjust else upperDiv);
          upperDivWidth = SInt_ActiveBits upperDiv1
      in if upperDivWidth \<le> bits dstWidth then
           CR_UnionWith (mkCR (SInt_Trunc lowerDiv1 dstWidth) (SInt_Trunc upperDiv1 dstWidth))
             wrappedPart Smallest
         else if upperDivWidth = bits dstWidth + 1 then
           (let upperDiv2 = SInt_ClearBit upperDiv1 (bits dstWidth)
            in if SInt_Ult upperDiv2 lowerDiv1 then
                 CR_UnionWith (mkCR (SInt_Trunc lowerDiv1 dstWidth) (SInt_Trunc upperDiv2 dstWidth))
                   wrappedPart Smallest
               else CR_Full dstWidth)
         else CR_Full dstWidth)"

definition CR_Truncate :: "ConstantRange \<Rightarrow> IntWidth \<Rightarrow> ConstantRange" where
  "CR_Truncate r dstWidth =
     (if CR_IsEmptySet r then CR_Empty dstWidth
      else if CR_IsFullSet r then CR_Full dstWidth
      else if CR_IsUpperWrapped r then
        (let dstMaxVal = SInt_UMaxValue dstWidth
         in if SInt_Uge (upper r) (SInt_ZExt dstMaxVal (CR_Width r)) then CR_Full dstWidth
            else
              let wrappedPart = mkCR dstMaxVal (SInt_Trunc (upper r) dstWidth)
              in if SInt_IsUMaxValue (lower r) then wrappedPart
                 else CR_Truncate_normal (CR_Width r) dstWidth (lower r)
                        (SInt_SetAllBits (upper r)) wrappedPart)
      else CR_Truncate_normal (CR_Width r) dstWidth (lower r) (upper r)
             (CR_of_bool dstWidth False))"

subsection \<open>Addition, subtraction, multiplication\<close>

definition CR_Add :: "ConstantRange \<Rightarrow> ConstantRange \<Rightarrow> ConstantRange" where
  "CR_Add r rhs =
     (if CR_IsEmptySet r \<or> CR_IsEmptySet rhs then CR_Empty (CR_Width r)
      else if CR_IsFullSet r \<or> CR_IsFullSet rhs then CR_Full (CR_Width r)
      else
        let newLower = SInt_add (lower r) (lower rhs);
            newUpper = SInt_sub_u64 (SInt_add (upper r) (upper rhs)) 1
        in if SInt_eq newLower newUpper then CR_Full (CR_Width r)
           else
             let res = mkCR newLower newUpper
             in if CR_IsSizeStrictlySmallerThan res r \<or> CR_IsSizeStrictlySmallerThan res rhs
                then CR_Full (CR_Width r) else res)"

definition CR_Sub :: "ConstantRange \<Rightarrow> ConstantRange \<Rightarrow> ConstantRange" where
  "CR_Sub r rhs =
     (if CR_IsEmptySet r \<or> CR_IsEmptySet rhs then CR_Empty (CR_Width r)
      else if CR_IsFullSet r \<or> CR_IsFullSet rhs then CR_Full (CR_Width r)
      else
        let newLower = SInt_add_u64 (SInt_sub (lower r) (upper rhs)) 1;
            newUpper = SInt_sub (upper r) (lower rhs)
        in if SInt_eq newLower newUpper then CR_Full (CR_Width r)
           else
             let res = mkCR newLower newUpper
             in if CR_IsSizeStrictlySmallerThan res r \<or> CR_IsSizeStrictlySmallerThan res rhs
                then CR_Full (CR_Width r) else res)"

definition CR_UMul :: "ConstantRange \<Rightarrow> ConstantRange \<Rightarrow> ConstantRange" where
  "CR_UMul r rhs =
     (if CR_IsEmptySet r \<or> CR_IsEmptySet rhs then CR_Empty (CR_Width r)
      else
        let (l, ovf1) = SInt_UMulOvf (CR_UMinValue r) (CR_UMinValue rhs);
            (u, ovf2) = SInt_UMulOvf (CR_UMaxValue r) (CR_UMaxValue rhs)
        in if ovf1 \<or> ovf2 then CR_Full (CR_Width r)
           else CR_NonEmpty l (SInt_add_u64 u 1))"

text \<open>
  \<open>std::min\<close> and \<open>std::max\<close> of an initialiser list with the comparison \<open>Slt\<close>: the
  first of the least, and the first of the greatest elements.
\<close>

definition min_slt :: "SInt \<Rightarrow> SInt list \<Rightarrow> SInt" where
  "min_slt x xs = foldl (\<lambda>m y. if SInt_Slt y m then y else m) x xs"

definition max_slt :: "SInt \<Rightarrow> SInt list \<Rightarrow> SInt" where
  "max_slt x xs = foldl (\<lambda>m y. if SInt_Slt m y then y else m) x xs"

definition CR_SMul :: "ConstantRange \<Rightarrow> ConstantRange \<Rightarrow> ConstantRange option" where
  "CR_SMul r rhs =
     (if CR_IsEmptySet r \<or> CR_IsEmptySet rhs then Some (CR_Empty (CR_Width r))
      else do {
        let lhsMin = CR_SMinValue r; let lhsMax = CR_SMaxValue r;
        let rhsMin = CR_SMinValue rhs; let rhsMax = CR_SMaxValue rhs;
        (p1, ovf1) \<leftarrow> SInt_SMulOvf lhsMin rhsMin;
        (p2, ovf2) \<leftarrow> SInt_SMulOvf lhsMin rhsMax;
        (p3, ovf3) \<leftarrow> SInt_SMulOvf lhsMax rhsMin;
        (p4, ovf4) \<leftarrow> SInt_SMulOvf lhsMax rhsMax;
        Some (if ovf1 \<or> ovf2 \<or> ovf3 \<or> ovf4 then CR_Full (CR_Width r)
              else CR_NonEmpty (min_slt p1 [p2, p3, p4])
                     (SInt_add_u64 (max_slt p1 [p2, p3, p4]) 1))
      })"

subsection \<open>Division and remainder\<close>

definition CR_UDiv :: "ConstantRange \<Rightarrow> ConstantRange \<Rightarrow> ConstantRange option" where
  "CR_UDiv r rhs =
     (if CR_IsEmptySet r \<or> CR_IsEmptySet rhs \<or> SInt_IsZero (CR_UMaxValue rhs)
      then Some (CR_Empty (CR_Width r))
      else do {
        newLower \<leftarrow> SInt_UDiv (CR_UMinValue r) (CR_UMaxValue rhs);
        let rhsUMin = (if SInt_IsZero (CR_UMinValue rhs) then
                         (if SInt_eq_u64 (upper rhs) 1 then lower rhs
                          else mkSInt (width (CR_UMinValue rhs)) 1)
                       else CR_UMinValue rhs);
        newUpper \<leftarrow> SInt_UDiv (CR_UMaxValue r) rhsUMin;
        Some (CR_NonEmpty newLower (SInt_add_u64 newUpper 1))
      })"

definition CR_SDivImpl_negneg ::
    "ConstantRange \<Rightarrow> ConstantRange \<Rightarrow> (SInt \<Rightarrow> SInt \<Rightarrow> SInt option) \<Rightarrow>
     ConstantRange \<Rightarrow> ConstantRange \<Rightarrow> ConstantRange option" where
  "CR_SDivImpl_negneg r rhs dv negL negR =
     (let signedMin = SInt_SMinValue (CR_Width r)
      in do {
        l \<leftarrow> dv (SInt_sub_u64 (upper negL) 1) (lower negR);
        u \<leftarrow> dv (lower negL) (SInt_sub_u64 (upper negR) 1);
        let up0 = SInt_add_u64 u 1;
        up2 \<leftarrow> (if SInt_IsSMinValue (lower negL) \<and> SInt_IsZero (upper negR) then do {
            up1 \<leftarrow> (if \<not> SInt_IsAllOnes (lower negR) then do {
                let adjNegRUpper = (if SInt_IsAllOnes (lower rhs) then upper rhs
                                    else SInt_sub_u64 (upper negR) 1);
                q \<leftarrow> dv (lower negL) (SInt_sub_u64 adjNegRUpper 1);
                Some (SInt_add_u64 q 1)
              } else Some up0);
            (if \<not> SInt_eq (upper negL) (SInt_add_u64 signedMin 1) then do {
                let adjNegLLower = (if SInt_eq (upper r) (SInt_add_u64 signedMin 1) then lower r
                                    else SInt_add_u64 (lower negL) 1);
                q \<leftarrow> dv adjNegLLower (SInt_sub_u64 (upper negR) 1);
                Some (SInt_add_u64 q 1)
              } else Some up1)
          } else Some up0);
        Some (mkCR l up2)
      })"

definition CR_SDivImpl ::
    "ConstantRange \<Rightarrow> ConstantRange \<Rightarrow> (SInt \<Rightarrow> SInt \<Rightarrow> SInt option) \<Rightarrow> ConstantRange option" where
  "CR_SDivImpl r rhs dv =
     (let zero = SInt_Zero (CR_Width r);
          signedMin = SInt_SMinValue (CR_Width r);
          posFilter = mkCR (mkSInt (CR_Width r) 1) signedMin;
          negFilter = mkCR signedMin zero;
          posL = CR_IntersectWith r posFilter Smallest;
          negL = CR_IntersectWith r negFilter Smallest;
          posR = CR_IntersectWith rhs posFilter Smallest;
          negR = CR_IntersectWith rhs negFilter Smallest
      in do {
        posDivPosRes \<leftarrow>
          (if \<not> CR_IsEmptySet posL \<and> \<not> CR_IsEmptySet posR then do {
             l \<leftarrow> dv (lower posL) (SInt_sub_u64 (upper posR) 1);
             u \<leftarrow> dv (SInt_sub_u64 (upper posL) 1) (lower posR);
             Some (mkCR l (SInt_add_u64 u 1))
           } else Some (CR_Empty (CR_Width r)));
        negDivNegRes \<leftarrow>
          (if \<not> CR_IsEmptySet negL \<and> \<not> CR_IsEmptySet negR
           then CR_SDivImpl_negneg r rhs dv negL negR
           else Some (CR_Empty (CR_Width r)));
        let posRes = CR_UnionWith posDivPosRes negDivNegRes Smallest;
        posDivNegRes \<leftarrow>
          (if \<not> CR_IsEmptySet posL \<and> \<not> CR_IsEmptySet negR then do {
             l \<leftarrow> dv (SInt_sub_u64 (upper posL) 1) (SInt_sub_u64 (upper negR) 1);
             u \<leftarrow> dv (lower posL) (lower negR);
             Some (mkCR l (SInt_add_u64 u 1))
           } else Some (CR_Empty (CR_Width r)));
        negDivPosRes \<leftarrow>
          (if \<not> CR_IsEmptySet negL \<and> \<not> CR_IsEmptySet posR then do {
             l \<leftarrow> dv (lower negL) (lower posR);
             u \<leftarrow> dv (SInt_sub_u64 (upper negL) 1) (SInt_sub_u64 (upper posR) 1);
             Some (mkCR l (SInt_add_u64 u 1))
           } else Some (CR_Empty (CR_Width r)));
        let negRes = CR_UnionWith posDivNegRes negDivPosRes Smallest;
        let res = CR_UnionWith negRes posRes Signed;
        Some (if CR_Contains r zero \<and> (\<not> CR_IsEmptySet posR \<or> \<not> CR_IsEmptySet negR)
              then CR_UnionWith res (CR_single zero) Smallest else res)
      })"

definition CR_SDivSat :: "ConstantRange \<Rightarrow> ConstantRange \<Rightarrow> ConstantRange option" where
  "CR_SDivSat r rhs = CR_SDivImpl r rhs SInt_SDivSat"

definition CR_SDiv :: "ConstantRange \<Rightarrow> ConstantRange \<Rightarrow> ConstantRange option" where
  "CR_SDiv r rhs = CR_SDivImpl r rhs SInt_SDiv"

definition CR_URem :: "ConstantRange \<Rightarrow> ConstantRange \<Rightarrow> ConstantRange option" where
  "CR_URem r rhs =
     (let rest =
        (if SInt_Ult (CR_UMaxValue r) (CR_UMinValue rhs) then r
         else
           let l = SInt_Zero (CR_Width r);
               u = SInt_add_u64 (SInt_UMin (CR_UMaxValue r) (SInt_sub_u64 (CR_UMaxValue rhs) 1)) 1
           in CR_NonEmpty l u)
      in if CR_IsEmptySet r \<or> CR_IsEmptySet rhs \<or> SInt_IsZero (CR_UMaxValue rhs)
           then Some (CR_Empty (CR_Width r))
         else if CR_IsSingleElement rhs then
           (let rhsInt = CR_GetSingleElement rhs
            in if SInt_IsZero rhsInt then Some (CR_Empty (CR_Width r))
               else if CR_IsSingleElement r
                 then map_option CR_single (SInt_URem (CR_GetSingleElement r) rhsInt)
               else Some rest)
         else Some rest)"

definition CR_Abs :: "ConstantRange \<Rightarrow> bool \<Rightarrow> ConstantRange" where
  "CR_Abs r intMinIsPoison =
     (if CR_IsEmptySet r then CR_Empty (CR_Width r)
      else if CR_IsSignWrappedSet r then
        (let l = (if SInt_IsPositive (upper r) \<or> \<not> SInt_IsPositive (lower r)
                  then SInt_Zero (CR_Width r)
                  else SInt_UMin (lower r) (SInt_add_u64 (SInt_Neg (upper r)) 1))
         in if intMinIsPoison then mkCR l (SInt_SMinValue (CR_Width r))
            else mkCR l (SInt_add_u64 (SInt_SMinValue (CR_Width r)) 1))
      else
        let sMin = CR_SMinValue r; sMax = CR_SMaxValue r
        in if intMinIsPoison \<and> SInt_IsSMinValue sMin \<and> SInt_IsSMinValue sMax
             then CR_Empty (CR_Width r)
           else
             let sMin' = (if intMinIsPoison \<and> SInt_IsSMinValue sMin then SInt_inc sMin else sMin)
             in if SInt_IsNonNeg sMin' then r
                else if SInt_IsNeg sMax
                  then mkCR (SInt_Neg sMax) (SInt_add_u64 (SInt_Neg sMin') 1)
                else mkCR (SInt_Zero (CR_Width r))
                       (SInt_add_u64 (SInt_UMax (SInt_Neg sMin') sMax) 1))"

definition CR_SRem :: "ConstantRange \<Rightarrow> ConstantRange \<Rightarrow> ConstantRange option" where
  "CR_SRem r rhs =
     (let absRhs = CR_Abs rhs False;
          maxAbsRhs = CR_UMaxValue absRhs;
          minAbsRhs = (if SInt_IsZero (CR_UMinValue absRhs) then SInt_inc (CR_UMinValue absRhs)
                       else CR_UMinValue absRhs);
          minLhs = CR_SMinValue r;
          maxLhs = CR_SMaxValue r;
          rest =
            (if SInt_IsZero maxAbsRhs then CR_Empty (CR_Width r)
             else if SInt_IsNonNeg minLhs then
               (if SInt_Ult maxLhs minAbsRhs then r
                else mkCR (SInt_Zero (CR_Width r))
                       (SInt_add_u64 (SInt_UMin maxLhs (SInt_sub_u64 maxAbsRhs 1)) 1))
             else if SInt_IsNeg maxLhs then
               (if SInt_Ugt minLhs (SInt_Neg minAbsRhs) then r
                else mkCR (SInt_UMax minLhs (SInt_add_u64 (SInt_Neg maxAbsRhs) 1))
                       (mkSInt (CR_Width r) 1))
             else mkCR (SInt_UMax minLhs (SInt_add_u64 (SInt_Neg maxAbsRhs) 1))
                    (SInt_add_u64 (SInt_UMin maxLhs (SInt_sub_u64 maxAbsRhs 1)) 1))
      in if CR_IsEmptySet r \<or> CR_IsEmptySet rhs then Some (CR_Empty (CR_Width r))
         else if CR_IsSingleElement rhs then
           (let rhsInt = CR_GetSingleElement rhs
            in if SInt_IsZero rhsInt then Some (CR_Empty (CR_Width r))
               else if CR_IsSingleElement r
                 then map_option CR_single (SInt_SRem (CR_GetSingleElement r) rhsInt)
               else Some rest)
         else Some rest)"

subsection \<open>Saturating arithmetic\<close>

definition CR_UAddSat :: "ConstantRange \<Rightarrow> ConstantRange \<Rightarrow> ConstantRange" where
  "CR_UAddSat r rhs =
     (if CR_IsEmptySet r \<or> CR_IsEmptySet rhs then CR_Empty (CR_Width r)
      else CR_NonEmpty (SInt_UAddSat (CR_UMinValue r) (CR_UMinValue rhs))
             (SInt_add_u64 (SInt_UAddSat (CR_UMaxValue r) (CR_UMaxValue rhs)) 1))"

definition CR_SAddSat :: "ConstantRange \<Rightarrow> ConstantRange \<Rightarrow> ConstantRange" where
  "CR_SAddSat r rhs =
     (if CR_IsEmptySet r \<or> CR_IsEmptySet rhs then CR_Empty (CR_Width r)
      else CR_NonEmpty (SInt_SAddSat (CR_SMinValue r) (CR_SMinValue rhs))
             (SInt_add_u64 (SInt_SAddSat (CR_SMaxValue r) (CR_SMaxValue rhs)) 1))"

definition CR_USubSat :: "ConstantRange \<Rightarrow> ConstantRange \<Rightarrow> ConstantRange" where
  "CR_USubSat r rhs =
     (if CR_IsEmptySet r \<or> CR_IsEmptySet rhs then CR_Empty (CR_Width r)
      else CR_NonEmpty (SInt_USubSat (CR_UMinValue r) (CR_UMaxValue rhs))
             (SInt_add_u64 (SInt_USubSat (CR_UMaxValue r) (CR_UMinValue rhs)) 1))"

definition CR_SSubSat :: "ConstantRange \<Rightarrow> ConstantRange \<Rightarrow> ConstantRange" where
  "CR_SSubSat r rhs =
     (if CR_IsEmptySet r \<or> CR_IsEmptySet rhs then CR_Empty (CR_Width r)
      else CR_NonEmpty (SInt_SSubSat (CR_SMinValue r) (CR_SMaxValue rhs))
             (SInt_add_u64 (SInt_SSubSat (CR_SMaxValue r) (CR_SMinValue rhs)) 1))"

definition CR_UMulSat :: "ConstantRange \<Rightarrow> ConstantRange \<Rightarrow> ConstantRange" where
  "CR_UMulSat r rhs =
     (if CR_IsEmptySet r \<or> CR_IsEmptySet rhs then CR_Empty (CR_Width r)
      else CR_NonEmpty (SInt_UMulSat (CR_UMinValue r) (CR_UMinValue rhs))
             (SInt_add_u64 (SInt_UMulSat (CR_UMaxValue r) (CR_UMaxValue rhs)) 1))"

definition CR_SMulSat :: "ConstantRange \<Rightarrow> ConstantRange \<Rightarrow> ConstantRange option" where
  "CR_SMulSat r rhs =
     (if CR_IsEmptySet r \<or> CR_IsEmptySet rhs then Some (CR_Empty (CR_Width r))
      else do {
        let mn = CR_SMinValue r; let mx = CR_SMaxValue r;
        let rhsMin = CR_SMinValue rhs; let rhsMax = CR_SMaxValue rhs;
        p1 \<leftarrow> SInt_SMulSat mn rhsMin;
        p2 \<leftarrow> SInt_SMulSat mn rhsMax;
        p3 \<leftarrow> SInt_SMulSat mx rhsMin;
        p4 \<leftarrow> SInt_SMulSat mx rhsMax;
        Some (CR_NonEmpty (min_slt p1 [p2, p3, p4]) (SInt_add_u64 (max_slt p1 [p2, p3, p4]) 1))
      })"

end
