(* ===== verification/RangeArith.thy ===== *)
theory RangeArith
  imports RangeArithDefs
begin

unbundle bit_operations_syntax

section \<open>Soundness of the arithmetic of ranges\<close>

text \<open>
  The arithmetic of \<open>ConstantRange\<close> covers the arithmetic of \<open>SInt\<close>: an operation on
  elements of the operands is an element of the result. Addition and subtraction are
  handled through the size of a range (\<open>csize\<close>) and offsets from its lower bound; the
  saturating operations and the multiplications through the least and greatest elements;
  truncation through intervals moved by a multiple of the new modulus.
\<close>


subsection \<open>Bounds of a result\<close>

lemma CR_NonEmpty_ok [range_wf]:
  assumes "same l u"
  shows "cr_ok (CR_NonEmpty l u)" "width (lower (CR_NonEmpty l u)) = width l"
  using assms by (auto simp: CR_NonEmpty_def SInt_eq_sem intro!: mkCR_ok)

lemma CR_NonEmpty_succ_ok [range_wf]:
  assumes "same l u"
  shows "cr_ok (CR_NonEmpty l (SInt_add_u64 u 1))" "width (lower (CR_NonEmpty l (SInt_add_u64 u 1))) = width l"
  using assms CR_NonEmpty_ok [of l "SInt_add_u64 u 1"] by (simp_all add: same_def)

lemma mem_Full: "sint_ok v \<Longrightarrow> width v = w \<Longrightarrow> v \<in> elems (CR_Full w)"
  by (simp add: elems_Full)

lemma mem_NonEmpty_unsigned:
  assumes "same l u" "same l v" "uval l \<le> uval v" "uval v \<le> uval u"
  shows "v \<in> elems (CR_NonEmpty l (SInt_add_u64 u 1))"
proof -
  have ok: "sint_ok l" "sint_ok u" "sint_ok v" "width u = width l" "width v = width l"
    using assms(1,2) by (simp_all add: same_def)
  have b: "0 \<le> uval l" "uval u < modulus (width l)"
    using uval_nonneg [of l] uval_less [of u] ok by auto
  show ?thesis
    using assms(3,4) ok b modulus_ge [of "width l"] CR_NonEmpty_succ_ok [OF assms(1)]
    by (auto simp: elems_iff CR_NonEmpty_def SInt_eq_sem uval_succ SInt_const_sem arc_def)
qed

lemma mem_NonEmpty_signed:
  assumes "same l u" "same l v" "sval l \<le> sval v" "sval v \<le> sval u"
  shows "v \<in> elems (CR_NonEmpty l (SInt_add_u64 u 1))"
proof -
  have ok: "sint_ok l" "sint_ok u" "sint_ok v" "width u = width l" "width v = width l"
    using assms(1,2) by (simp_all add: same_def)
  have b: "- half (width l) \<le> sval l" "sval u < half (width l)"
    using sval_range [of l] sval_range [of u] ok by auto
  show ?thesis
  proof (cases "uval l = uval (SInt_add_u64 u 1)")
    case True
    then show ?thesis using ok by (simp add: CR_NonEmpty_def SInt_eq_sem mem_Full)
  next
    case False
    then have n: "CR_NonEmpty l (SInt_add_u64 u 1) = mkCR l (SInt_add_u64 u 1)" "sval l \<noteq> sval (SInt_add_u64 u 1)"
      using sval_inj [of l "SInt_add_u64 u 1"] ok by (simp_all add: CR_NonEmpty_def SInt_eq_sem)
    have "cr_ok (mkCR l (SInt_add_u64 u 1))" using CR_NonEmpty_succ_ok [OF assms(1)] n by simp
    from elems_signed [OF this, of v] show ?thesis
      unfolding n(1) using n(2) assms(3,4) ok b by (auto simp: sval_succ_if)
  qed
qed

subsection \<open>Operations that are monotone in their bounds\<close>

lemma CR_minmax_same:
  assumes "cr_same r s" "x \<in> elems r" "y \<in> elems s"
  shows "same (CR_UMinValue r) (CR_UMinValue s)" "same (CR_UMaxValue r) (CR_UMaxValue s)"
    "same (CR_UMinValue r) (CR_UMaxValue s)" "same (CR_UMaxValue r) (CR_UMinValue s)"
    "same (CR_SMinValue r) (CR_SMinValue s)" "same (CR_SMaxValue r) (CR_SMaxValue s)"
    "same (CR_SMinValue r) (CR_SMaxValue s)" "same (CR_SMaxValue r) (CR_SMinValue s)"
    "same x y" "width x = width (lower r)" "sint_ok x" "sint_ok y"
  using assms by (simp_all add: same_def cr_same_def elems_iff)

lemma CR_nonempty:
  assumes "cr_ok r" "x \<in> elems r"
  shows "\<not> CR_IsEmptySet r"
  using assms by (auto simp: CR_tests_sem elems_iff arc_def)

lemma uclamp_mono: "x \<le> y \<Longrightarrow> uclamp w x \<le> uclamp w y"
  using modulus_ge [of w] by (auto simp: uclamp_def)

lemma sclamp_mono: "x \<le> y \<Longrightarrow> sclamp w x \<le> sclamp w y"
  using half_ge [of w] by (auto simp: sclamp_def)

lemma CR_UAddSat_sound:
  assumes "cr_same r s" "x \<in> elems r" "y \<in> elems s"
  shows "SInt_UAddSat x y \<in> elems (CR_UAddSat r s)"
proof -
  note d = cr_sameD [OF assms(1)] note m = CR_minmax_same [OF assms]
  have "SInt_UAddSat x y \<in> elems (CR_NonEmpty (SInt_UAddSat (CR_UMinValue r) (CR_UMinValue s))
      (SInt_add_u64 (SInt_UAddSat (CR_UMaxValue r) (CR_UMaxValue s)) 1))"
    using m d CR_UMinValue_le [OF d(1) assms(2)] CR_UMinValue_le [OF d(2) assms(3)]
      CR_UMaxValue_ge [OF d(1) assms(2)] CR_UMaxValue_ge [OF d(2) assms(3)]
    by (intro mem_NonEmpty_unsigned) (auto simp: SInt_addsub_sat_sem same_def intro!: uclamp_mono)
  then show ?thesis
    using CR_nonempty [OF d(1) assms(2)] CR_nonempty [OF d(2) assms(3)] by (simp add: CR_UAddSat_def)
qed

lemma CR_USubSat_sound:
  assumes "cr_same r s" "x \<in> elems r" "y \<in> elems s"
  shows "SInt_USubSat x y \<in> elems (CR_USubSat r s)"
proof -
  note d = cr_sameD [OF assms(1)] note m = CR_minmax_same [OF assms]
  have "SInt_USubSat x y \<in> elems (CR_NonEmpty (SInt_USubSat (CR_UMinValue r) (CR_UMaxValue s))
      (SInt_add_u64 (SInt_USubSat (CR_UMaxValue r) (CR_UMinValue s)) 1))"
    using m d CR_UMinValue_le [OF d(1) assms(2)] CR_UMinValue_le [OF d(2) assms(3)]
      CR_UMaxValue_ge [OF d(1) assms(2)] CR_UMaxValue_ge [OF d(2) assms(3)]
    by (intro mem_NonEmpty_unsigned) (auto simp: SInt_addsub_sat_sem same_def intro!: uclamp_mono)
  then show ?thesis
    using CR_nonempty [OF d(1) assms(2)] CR_nonempty [OF d(2) assms(3)] by (simp add: CR_USubSat_def)
qed

lemma CR_SAddSat_sound:
  assumes "cr_same r s" "x \<in> elems r" "y \<in> elems s"
  shows "SInt_SAddSat x y \<in> elems (CR_SAddSat r s)"
proof -
  note d = cr_sameD [OF assms(1)] note m = CR_minmax_same [OF assms]
  have "SInt_SAddSat x y \<in> elems (CR_NonEmpty (SInt_SAddSat (CR_SMinValue r) (CR_SMinValue s))
      (SInt_add_u64 (SInt_SAddSat (CR_SMaxValue r) (CR_SMaxValue s)) 1))"
    using m d CR_SMinValue_le [OF d(1) assms(2)] CR_SMinValue_le [OF d(2) assms(3)]
      CR_SMaxValue_ge [OF d(1) assms(2)] CR_SMaxValue_ge [OF d(2) assms(3)]
    by (intro mem_NonEmpty_signed) (auto simp: SInt_addsub_sat_sem same_def intro!: sclamp_mono)
  then show ?thesis
    using CR_nonempty [OF d(1) assms(2)] CR_nonempty [OF d(2) assms(3)] by (simp add: CR_SAddSat_def)
qed

lemma CR_SSubSat_sound:
  assumes "cr_same r s" "x \<in> elems r" "y \<in> elems s"
  shows "SInt_SSubSat x y \<in> elems (CR_SSubSat r s)"
proof -
  note d = cr_sameD [OF assms(1)] note m = CR_minmax_same [OF assms]
  have "SInt_SSubSat x y \<in> elems (CR_NonEmpty (SInt_SSubSat (CR_SMinValue r) (CR_SMaxValue s))
      (SInt_add_u64 (SInt_SSubSat (CR_SMaxValue r) (CR_SMinValue s)) 1))"
    using m d CR_SMinValue_le [OF d(1) assms(2)] CR_SMinValue_le [OF d(2) assms(3)]
      CR_SMaxValue_ge [OF d(1) assms(2)] CR_SMaxValue_ge [OF d(2) assms(3)]
    by (intro mem_NonEmpty_signed) (auto simp: SInt_addsub_sat_sem same_def intro!: sclamp_mono)
  then show ?thesis
    using CR_nonempty [OF d(1) assms(2)] CR_nonempty [OF d(2) assms(3)] by (simp add: CR_SSubSat_def)
qed

lemma umul_mono:
  fixes a b c e :: int
  assumes "0 \<le> a" "a \<le> c" "0 \<le> b" "b \<le> e"
  shows "a * b \<le> c * e"
  using assms by (intro mult_mono) auto

lemma CR_UMulSat_sound:
  assumes "cr_same r s" "x \<in> elems r" "y \<in> elems s"
  shows "SInt_UMulSat x y \<in> elems (CR_UMulSat r s)"
proof -
  note d = cr_sameD [OF assms(1)] note m = CR_minmax_same [OF assms]
  have "SInt_UMulSat x y \<in> elems (CR_NonEmpty (SInt_UMulSat (CR_UMinValue r) (CR_UMinValue s))
      (SInt_add_u64 (SInt_UMulSat (CR_UMaxValue r) (CR_UMaxValue s)) 1))"
    using m d CR_UMinValue_le [OF d(1) assms(2)] CR_UMinValue_le [OF d(2) assms(3)]
      CR_UMaxValue_ge [OF d(1) assms(2)] CR_UMaxValue_ge [OF d(2) assms(3)] uval_nonneg
      SInt_UMulSat_wf [OF m(1)] SInt_UMulSat_wf [OF m(2)] SInt_UMulSat_wf [OF m(9)]
    by (intro mem_NonEmpty_unsigned) (auto simp: SInt_UMulSat_sem same_def intro!: uclamp_mono umul_mono)
  then show ?thesis
    using CR_nonempty [OF d(1) assms(2)] CR_nonempty [OF d(2) assms(3)] by (simp add: CR_UMulSat_def)
qed

lemma CR_UMul_sound:
  assumes "cr_same r s" "x \<in> elems r" "y \<in> elems s"
  shows "SInt_mul x y \<in> elems (CR_UMul r s)"
proof -
  note d = cr_sameD [OF assms(1)] note m = CR_minmax_same [OF assms]
  let ?l1 = "CR_UMinValue r" and ?l2 = "CR_UMinValue s" and ?u1 = "CR_UMaxValue r" and ?u2 = "CR_UMaxValue s"
  have w: "width (SInt_mul x y) = CR_Width r" using m by (simp add: CR_Width_def)
  have le: "uval ?l1 * uval ?l2 \<le> uval x * uval y" "uval x * uval y \<le> uval ?u1 * uval ?u2"
    using CR_UMinValue_le [OF d(1) assms(2)] CR_UMinValue_le [OF d(2) assms(3)]
      CR_UMaxValue_ge [OF d(1) assms(2)] CR_UMaxValue_ge [OF d(2) assms(3)] uval_nonneg
    by (auto intro!: umul_mono)
  have "SInt_mul x y \<in> elems (CR_NonEmpty (SInt_mul ?l1 ?l2) (SInt_add_u64 (SInt_mul ?u1 ?u2) 1))"
    if "urange (width (lower r)) (uval ?u1 * uval ?u2)"
  proof (intro mem_NonEmpty_unsigned)
    have "0 \<le> uval ?l1 * uval ?l2" using uval_nonneg by simp
    with that le show "uval (SInt_mul ?l1 ?l2) \<le> uval (SInt_mul x y)"
      "uval (SInt_mul x y) \<le> uval (SInt_mul ?u1 ?u2)"
      using m d by (simp_all add: SInt_ring_sem urange_def)
  qed (use m d in \<open>simp_all add: same_def\<close>)
  then show ?thesis
    using CR_nonempty [OF d(1) assms(2)] CR_nonempty [OF d(2) assms(3)] w d
      SInt_UMulOvf_sem [OF m(1)] SInt_UMulOvf_sem [OF m(2)]
    by (simp add: CR_UMul_def case_prod_unfold Let_def mem_Full)
qed

text \<open>The extrema of a product of two intervals are at the corners.\<close>

lemma mult_between:
  fixes x y a b c e :: int
  assumes "a \<le> x" "x \<le> b" "c \<le> y" "y \<le> e"
  shows "min (min (a * c) (a * e)) (min (b * c) (b * e)) \<le> x * y"
    "x * y \<le> max (max (a * c) (a * e)) (max (b * c) (b * e))"
proof -
  have y: "min (x * c) (x * e) \<le> x * y" "x * y \<le> max (x * c) (x * e)"
    using assms(3,4) by (cases "0 \<le> x"; auto simp: min_def max_def mult_le_cancel_left)+
  have c: "min (a * c) (b * c) \<le> x * c" "x * c \<le> max (a * c) (b * c)"
    using assms(1,2) by (cases "0 \<le> c"; auto simp: min_def max_def mult_le_cancel_right)+
  have e: "min (a * e) (b * e) \<le> x * e" "x * e \<le> max (a * e) (b * e)"
    using assms(1,2) by (cases "0 \<le> e"; auto simp: min_def max_def mult_le_cancel_right)+
  show "min (min (a * c) (a * e)) (min (b * c) (b * e)) \<le> x * y" using y c e by linarith
  show "x * y \<le> max (max (a * c) (a * e)) (max (b * c) (b * e))" using y c e by linarith
qed

lemma min_slt_sem:
  "min_slt a [b, c, e] \<in> {a, b, c, e}"
  "sval (min_slt a [b, c, e]) = min (min (sval a) (sval b)) (min (sval c) (sval e))"
  by (auto simp: min_slt_def SInt_Slt_sem)

lemma max_slt_sem:
  "max_slt a [b, c, e] \<in> {a, b, c, e}"
  "sval (max_slt a [b, c, e]) = max (max (sval a) (sval b)) (max (sval c) (sval e))"
  by (auto simp: max_slt_def SInt_Slt_sem)

lemma min_max_slt_wf:
  assumes "sint_ok a" "same a b" "same a c" "same a e"
  shows "sint_ok (min_slt a [b, c, e])" "sint_ok (max_slt a [b, c, e])"
    "width (min_slt a [b, c, e]) = width a" "width (max_slt a [b, c, e]) = width a"
  using min_slt_sem(1) [of a b c e] max_slt_sem(1) [of a b c e] assms by (auto simp: same_def)

lemma CR_SMul_total:
  assumes "cr_same r s"
  shows "\<exists>t. CR_SMul r s = Some t \<and> cr_ok t \<and> width (lower t) = width (lower r)"
proof -
  note d = cr_sameD [OF assms]
  have m: "same (CR_SMinValue r) (CR_SMinValue s)" "same (CR_SMaxValue r) (CR_SMaxValue s)"
    "same (CR_SMinValue r) (CR_SMaxValue s)" "same (CR_SMaxValue r) (CR_SMinValue s)"
    using d by (simp_all add: same_def)
  have "same (SInt_mul (CR_SMinValue r) (CR_SMinValue s)) (SInt_mul (CR_SMinValue r) (CR_SMaxValue s))"
    "same (SInt_mul (CR_SMinValue r) (CR_SMinValue s)) (SInt_mul (CR_SMaxValue r) (CR_SMinValue s))"
    "same (SInt_mul (CR_SMinValue r) (CR_SMinValue s)) (SInt_mul (CR_SMaxValue r) (CR_SMaxValue s))"
    using d by (simp_all add: same_def)
  note mm = min_max_slt_wf [OF _ this]
  show ?thesis
    using d mm by (simp add: CR_SMul_def SInt_SMulOvf_sem(1) [OF m(1)] SInt_SMulOvf_sem(1) [OF m(2)]
      SInt_SMulOvf_sem(1) [OF m(3)] SInt_SMulOvf_sem(1) [OF m(4)] Let_def CR_Width_def range_wf same_def)
qed

lemma CR_SMul_sound:
  assumes "cr_same r s" "x \<in> elems r" "y \<in> elems s"
  shows "SInt_mul x y \<in> elems (the (CR_SMul r s))"
proof -
  note d = cr_sameD [OF assms(1)] note m = CR_minmax_same [OF assms]
  let ?a = "CR_SMinValue r" and ?c = "CR_SMinValue s" and ?b = "CR_SMaxValue r" and ?e = "CR_SMaxValue s"
  let ?w = "width (lower r)"
  have le: "sval ?a \<le> sval x" "sval x \<le> sval ?b" "sval ?c \<le> sval y" "sval y \<le> sval ?e"
    using CR_SMinValue_le [OF d(1) assms(2)] CR_SMinValue_le [OF d(2) assms(3)]
      CR_SMaxValue_ge [OF d(1) assms(2)] CR_SMaxValue_ge [OF d(2) assms(3)] by auto
  note bt = mult_between [OF le]
  let ?p = "SInt_mul ?a ?c" and ?q = "[SInt_mul ?a ?e, SInt_mul ?b ?c, SInt_mul ?b ?e]"
  have "SInt_mul x y \<in> elems (CR_NonEmpty (min_slt ?p ?q) (SInt_add_u64 (max_slt ?p ?q) 1))"
    if ov: "srange ?w (sval ?a * sval ?c)" "srange ?w (sval ?a * sval ?e)"
      "srange ?w (sval ?b * sval ?c)" "srange ?w (sval ?b * sval ?e)"
  proof (intro mem_NonEmpty_signed)
    have ex: "sval (SInt_mul ?a ?c) = sval ?a * sval ?c" "sval (SInt_mul ?a ?e) = sval ?a * sval ?e"
      "sval (SInt_mul ?b ?c) = sval ?b * sval ?c" "sval (SInt_mul ?b ?e) = sval ?b * sval ?e"
      using ov SInt_SMulOvf_sem(2) [OF m(5)] SInt_SMulOvf_sem(2) [OF m(7)]
        SInt_SMulOvf_sem(2) [OF m(8)] SInt_SMulOvf_sem(2) [OF m(6)] d by simp_all
    have "srange ?w (sval x * sval y)"
      using bt ov by (auto simp: srange_def min_def max_def split: if_splits)
    then have xy: "sval (SInt_mul x y) = sval x * sval y"
      using SInt_SMulOvf_sem(2) [OF m(9)] m by simp
    show "sval (min_slt ?p ?q) \<le> sval (SInt_mul x y)" "sval (SInt_mul x y) \<le> sval (max_slt ?p ?q)"
      unfolding min_slt_sem(2) max_slt_sem(2) ex xy using bt by auto
  qed (use m d in \<open>auto simp: same_def intro!: min_max_slt_wf\<close>, simp_all add: min_max_slt_wf same_def)
  then show ?thesis
    using CR_nonempty [OF d(1) assms(2)] CR_nonempty [OF d(2) assms(3)] m d
      SInt_SMulOvf_sem(1) [OF m(5)] SInt_SMulOvf_sem(1) [OF m(7)]
        SInt_SMulOvf_sem(1) [OF m(8)] SInt_SMulOvf_sem(1) [OF m(6)]
    by (simp add: CR_SMul_def Let_def mem_Full CR_Width_def)
qed

lemma CR_SMulSat_sound:
  assumes "cr_same r s" "x \<in> elems r" "y \<in> elems s"
  shows "\<exists>t z. CR_SMulSat r s = Some t \<and> cr_ok t \<and> SInt_SMulSat x y = Some z \<and> z \<in> elems t"
proof -
  note d = cr_sameD [OF assms(1)] note m = CR_minmax_same [OF assms]
  let ?a = "CR_SMinValue r" and ?c = "CR_SMinValue s" and ?b = "CR_SMaxValue r" and ?e = "CR_SMaxValue s"
  let ?w = "width (lower r)"
  obtain p1 where 1: "SInt_SMulSat ?a ?c = Some p1" "sint_ok p1" "width p1 = ?w" "sval p1 = sclamp ?w (sval ?a * sval ?c)"
    using SInt_SMulSat_sem [OF m(5)] d by auto
  obtain p2 where 2: "SInt_SMulSat ?a ?e = Some p2" "sint_ok p2" "width p2 = ?w" "sval p2 = sclamp ?w (sval ?a * sval ?e)"
    using SInt_SMulSat_sem [OF m(7)] d by auto
  obtain p3 where 3: "SInt_SMulSat ?b ?c = Some p3" "sint_ok p3" "width p3 = ?w" "sval p3 = sclamp ?w (sval ?b * sval ?c)"
    using SInt_SMulSat_sem [OF m(8)] d by auto
  obtain p4 where 4: "SInt_SMulSat ?b ?e = Some p4" "sint_ok p4" "width p4 = ?w" "sval p4 = sclamp ?w (sval ?b * sval ?e)"
    using SInt_SMulSat_sem [OF m(6)] d by auto
  obtain z where z: "SInt_SMulSat x y = Some z" "sint_ok z" "width z = ?w" "sval z = sclamp ?w (sval x * sval y)"
    using SInt_SMulSat_sem [OF m(9)] m by auto
  have le: "sval ?a \<le> sval x" "sval x \<le> sval ?b" "sval ?c \<le> sval y" "sval y \<le> sval ?e"
    using CR_SMinValue_le [OF d(1) assms(2)] CR_SMinValue_le [OF d(2) assms(3)]
      CR_SMaxValue_ge [OF d(1) assms(2)] CR_SMaxValue_ge [OF d(2) assms(3)] by auto
  note bt = sclamp_mono [OF mult_between(1) [OF le], of ?w] sclamp_mono [OF mult_between(2) [OF le], of ?w]
  let ?t = "CR_NonEmpty (min_slt p1 [p2, p3, p4]) (SInt_add_u64 (max_slt p1 [p2, p3, p4]) 1)"
  have sames: "same p1 p2" "same p1 p3" "same p1 p4" using 1 2 3 4 by (simp_all add: same_def)
  note wf = min_max_slt_wf [OF 1(2) sames]
  have mono: "mono (sclamp ?w)" by (rule monoI) (rule sclamp_mono)
  have "z \<in> elems ?t"
  proof (intro mem_NonEmpty_signed)
    show "sval (min_slt p1 [p2, p3, p4]) \<le> sval z" "sval z \<le> sval (max_slt p1 [p2, p3, p4])"
      unfolding min_slt_sem(2) max_slt_sem(2) 1 2 3 4 z using bt
      by (simp_all add: min_of_mono [OF mono] max_of_mono [OF mono])
  qed (use wf z 1 in \<open>auto simp: same_def\<close>)
  moreover have "cr_ok ?t" using wf 1 by (intro range_wf) (simp add: same_def)
  moreover have "CR_SMulSat r s = Some ?t"
    using CR_nonempty [OF d(1) assms(2)] CR_nonempty [OF d(2) assms(3)] 1 2 3 4
    by (simp add: CR_SMulSat_def Let_def)
  ultimately show ?thesis using z by blast
qed

subsection \<open>Addition and subtraction\<close>

text \<open>The size of a range, and a number as an offset from the lower bound.\<close>

definition csize :: "ConstantRange \<Rightarrow> int" where
  "csize r = (if lo r = up r then (if lo r = 0 then 0 else cmod r) else (up r - lo r) mod cmod r)"

lemma csize_bounds:
  assumes "cr_ok r"
  shows "0 \<le> csize r" "csize r \<le> cmod r" "csize r = 0 \<longleftrightarrow> CR_IsEmptySet r" "csize r = cmod r \<longleftrightarrow> CR_IsFullSet r"
  using cr_okD [OF assms] modulus_ge [of "width (lower r)"]
  by (auto simp: csize_def CR_tests_sem [OF assms] mod_sub_if)

lemma CR_IsSizeStrictlySmallerThan_sem:
  assumes "cr_same r s"
  shows "CR_IsSizeStrictlySmallerThan r s \<longleftrightarrow> csize r < csize s"
proof -
  note d = cr_sameD [OF assms]
  show ?thesis
    using cr_okD [OF d(1)] cr_okD [OF d(2)] d(3) modulus_ge [of "width (lower r)"]
    by (auto simp: CR_IsSizeStrictlySmallerThan_def CR_tests_sem [OF d(1)] CR_tests_sem [OF d(2)] csize_def
        SInt_Ult_sem SInt_ring_sem mod_sub_if)
qed

lemma arc_offset:
  fixes l u x M :: int
  assumes "0 \<le> l" "l < M" "0 \<le> u" "u < M" "0 \<le> x" "x < M"
  shows "arc l u x \<longleftrightarrow> (x - l) mod M < (if l = u then (if l = 0 then 0 else M) else (u - l) mod M)"
  using assms by (auto simp: arc_def mod_sub_if)

lemma elems_offset:
  assumes "cr_ok r"
  shows "v \<in> elems r \<longleftrightarrow> sint_ok v \<and> width v = width (lower r) \<and> (uval v - lo r) mod cmod r < csize r"
  using cr_okD [OF assms] uval_less [of v] uval_nonneg [of v]
  by (auto simp: elems_iff [OF assms] csize_def arc_offset [of _ "cmod r"])

lemma mod_offset_add:
  fixes M :: int
  assumes "x mod M < p" "y mod M < q" "0 < M"
  shows "(x + y) mod M < p + q - 1"
proof -
  have "(x + y) mod M = (x mod M + y mod M) mod M" by (simp add: mod_simps)
  also have "\<dots> \<le> x mod M + y mod M" using assms(3) by (intro zmod_le_nonneg_dividend) simp
  finally show ?thesis using assms by linarith
qed

lemma mod_absorb:
  fixes a b c M :: int
  shows "(a mod M + b + c) mod M = (a + b + c) mod M"
  by (simp add: add.assoc mod_add_left_eq)

lemma mod_if3:
  fixes a M :: int
  assumes "0 \<le> a" "a < 3 * M"
  shows "a mod M = (if a < M then a else if a < 2 * M then a - M else a - 2 * M)"
  using assms int_mod_pos_eq [of a M 1 "a - M"] int_mod_pos_eq [of a M 2 "a - 2 * M"] by auto

text \<open>
  The common shape of \<open>Add\<close> and \<open>Sub\<close>: the bounds \<open>l\<close> and \<open>u\<close> of a result whose size
  is \<open>p + q - 1\<close> modulo \<open>M\<close>, replaced by the full set where that wraps.
\<close>

definition sum_range :: "ConstantRange \<Rightarrow> ConstantRange \<Rightarrow> SInt \<Rightarrow> SInt \<Rightarrow> ConstantRange" where
  "sum_range r rhs l u =
     (if SInt_eq l u then CR_Full (CR_Width r)
      else if CR_IsSizeStrictlySmallerThan (mkCR l u) r \<or> CR_IsSizeStrictlySmallerThan (mkCR l u) rhs
        then CR_Full (CR_Width r) else mkCR l u)"

lemma sum_range_spec:
  assumes "cr_same r s" "\<not> CR_IsEmptySet r" "\<not> CR_IsFullSet r" "\<not> CR_IsEmptySet s" "\<not> CR_IsFullSet s"
    and "same l u" "width l = width (lower r)"
    and u: "uval u = (uval l + csize r + csize s - 1) mod cmod r"
  shows "cr_ok (sum_range r s l u)" "width (lower (sum_range r s l u)) = width (lower r)"
    "csize (sum_range r s l u) = min (cmod r) (csize r + csize s - 1)"
    "csize r + csize s - 1 < cmod r \<Longrightarrow> lo (sum_range r s l u) = uval l"
proof -
  note d = cr_sameD [OF assms(1)] note sz = csize_bounds [OF d(1)] csize_bounds [OF d(2)]
  define M where "M = cmod r"
  define p where "p = csize r" define q where "q = csize s"
  have M: "cmod s = M" "256 \<le> M" "modulus (width l) = M" using d(3) modulus_ge assms(7) by (simp_all add: M_def)
  have pq: "0 < p" "p < M" "0 < q" "q < M"
    using sz assms(2-5) M by (auto simp: p_def q_def M_def)
  have b: "0 \<le> uval l" "uval l < M" "0 \<le> uval u" "uval u < M"
    using assms(6) uval_nonneg uval_less [of l] uval_less [of u] M by (auto simp: same_def)
  have u': "uval u = (if uval l + (p + q - 1) < M then uval l + (p + q - 1)
      else if uval l + (p + q - 1) < 2 * M then uval l + (p + q - 1) - M else uval l + (p + q - 1) - 2 * M)"
  proof -
    have "uval u = (uval l + (p + q - 1)) mod M" using u by (simp add: p_def q_def M_def algebra_simps)
    then show ?thesis using b pq by (simp add: mod_if3)
  qed
  have eq: "uval l = uval u \<longleftrightarrow> p + q - 1 = M" using u' b pq by (auto split: if_splits)
  have ok: "cr_ok (mkCR l u)" if "p + q - 1 \<noteq> M" using eq that assms(6) by (intro mkCR_ok) auto
  have cs: "csize (mkCR l u) = (if p + q - 1 < M then p + q - 1 else p + q - 1 - M)" if "p + q - 1 \<noteq> M"
    using that eq u' b pq by (auto simp: csize_def M mod_sub_if split: if_splits)
  have sm: "CR_IsSizeStrictlySmallerThan (mkCR l u) r \<or> CR_IsSizeStrictlySmallerThan (mkCR l u) s \<longleftrightarrow> M < p + q - 1"
    if "p + q - 1 \<noteq> M"
  proof -
    have "cr_same (mkCR l u) r" "cr_same (mkCR l u) s"
      using ok [OF that] d assms(7) by (simp_all add: cr_same_def)
    then show ?thesis
      using cs [OF that] pq that by (simp add: CR_IsSizeStrictlySmallerThan_sem p_def [symmetric] q_def [symmetric])
  qed
  have r: "sum_range r s l u = (if p + q - 1 < M then mkCR l u else CR_Full (CR_Width r))"
    using eq sm by (auto simp: sum_range_def SInt_eq_sem)
  have full: "csize (CR_Full (CR_Width r)) = M" using M by (simp add: csize_def SInt_const_sem CR_Width_def M_def)
  show "cr_ok (sum_range r s l u)" "width (lower (sum_range r s l u)) = width (lower r)"
    using r ok assms(7) by (auto simp: CR_Width_def)
  show "csize (sum_range r s l u) = min (cmod r) (csize r + csize s - 1)"
    using r full cs by (simp add: p_def [symmetric] q_def [symmetric] M_def [symmetric])
  show "lo (sum_range r s l u) = uval l" if "csize r + csize s - 1 < cmod r"
    using r that by (simp add: p_def q_def M_def)
qed

lemma sum_range_mem:
  assumes "cr_same r s" "\<not> CR_IsEmptySet r" "\<not> CR_IsFullSet r" "\<not> CR_IsEmptySet s" "\<not> CR_IsFullSet s"
    and "same l u" "width l = width (lower r)"
    and "uval u = (uval l + csize r + csize s - 1) mod cmod r"
    and "same l v" "uval v = (uval l + x + y) mod cmod r" "x mod cmod r < csize r" "y mod cmod r < csize s"
  shows "v \<in> elems (sum_range r s l u)"
proof -
  note sp = sum_range_spec [OF assms(1-8)]
  have v: "sint_ok v" "width v = width (lower r)" using assms(7,9) by (simp_all add: same_def)
  show ?thesis
  proof (cases "csize r + csize s - 1 < cmod r")
    case True
    have "(uval v - uval l) mod cmod r = (uval l + x + y - uval l) mod cmod r"
      unfolding assms(10) by (simp only: mod_diff_left_eq)
    also have "\<dots> = (x + y) mod cmod r" by (simp add: algebra_simps)
    also have "\<dots> < csize r + csize s - 1" using assms(11,12) by (rule mod_offset_add) simp
    finally show ?thesis using sp True v by (simp add: elems_offset min_def)
  next
    case False
    then show ?thesis using sp v by (simp add: elems_offset min_def)
  qed
qed

lemma csize_up:
  assumes "cr_ok r" "\<not> CR_IsEmptySet r" "\<not> CR_IsFullSet r"
  shows "csize r mod cmod r = (up r - lo r) mod cmod r"
  using assms by (simp add: csize_def CR_tests_sem split: if_splits)

lemma elems_width: "cr_ok r \<Longrightarrow> x \<in> elems r \<Longrightarrow> width x = width (lower r)"
  by (simp add: elems_iff)

lemma csize_Full: "csize (CR_Full w) = modulus w"
  using modulus_ge [of w] by (simp add: csize_def SInt_const_sem)

lemma csize_full_min:
  assumes "cr_same r s" "\<not> CR_IsEmptySet r" "\<not> CR_IsEmptySet s" "CR_IsFullSet r \<or> CR_IsFullSet s"
  shows "cmod r = min (cmod r) (csize r + csize s - 1)"
proof -
  note d = cr_sameD [OF assms(1)] note b = csize_bounds [OF d(1)] csize_bounds [OF d(2)]
  have "1 \<le> csize r" "1 \<le> csize s" using b(1,3,5,7) assms(2,3) by linarith+
  with assms(4) b(4,8) d(3) show ?thesis by auto
qed

lemma CR_Add_ok_sound:
  assumes "cr_same r s"
  shows "cr_ok (CR_Add r s)" "width (lower (CR_Add r s)) = width (lower r)"
    "x \<in> elems r \<Longrightarrow> y \<in> elems s \<Longrightarrow> SInt_add x y \<in> elems (CR_Add r s)"
    "\<not> CR_IsEmptySet r \<Longrightarrow> \<not> CR_IsEmptySet s \<Longrightarrow> csize (CR_Add r s) = min (cmod r) (csize r + csize s - 1)"
    "\<not> CR_IsEmptySet r \<Longrightarrow> \<not> CR_IsEmptySet s \<Longrightarrow> csize r + csize s - 1 < cmod r \<Longrightarrow>
      lo (CR_Add r s) = (lo r + lo s) mod cmod r"
proof -
  note d = cr_sameD [OF assms]
  let ?l = "SInt_add (lower r) (lower s)" and ?u = "SInt_sub_u64 (SInt_add (upper r) (upper s)) 1"
  have eq: "CR_Add r s = (if CR_IsEmptySet r \<or> CR_IsEmptySet s then CR_Empty (CR_Width r)
      else if CR_IsFullSet r \<or> CR_IsFullSet s then CR_Full (CR_Width r) else sum_range r s ?l ?u)"
    by (simp add: CR_Add_def sum_range_def Let_def)
  note ok = cr_okD [OF d(1)] cr_okD [OF d(2)]
  have lu: "same ?l ?u" "width ?l = width (lower r)" using ok by (simp_all add: same_def)
    consider "CR_IsEmptySet r \<or> CR_IsEmptySet s" | "\<not> CR_IsEmptySet r" "\<not> CR_IsEmptySet s" "CR_IsFullSet r \<or> CR_IsFullSet s"
      | (n) "\<not> CR_IsEmptySet r" "\<not> CR_IsFullSet r" "\<not> CR_IsEmptySet s" "\<not> CR_IsFullSet s" by blast
    then have "cr_ok (CR_Add r s) \<and> width (lower (CR_Add r s)) = width (lower r) \<and>
      (x \<in> elems r \<longrightarrow> y \<in> elems s \<longrightarrow> SInt_add x y \<in> elems (CR_Add r s)) \<and>
    (\<not> CR_IsEmptySet r \<longrightarrow> \<not> CR_IsEmptySet s \<longrightarrow> csize (CR_Add r s) = min (cmod r) (csize r + csize s - 1)) \<and>
    (\<not> CR_IsEmptySet r \<longrightarrow> \<not> CR_IsEmptySet s \<longrightarrow> csize r + csize s - 1 < cmod r \<longrightarrow>
      lo (CR_Add r s) = (lo r + lo s) mod cmod r)"
    proof cases
      case n
      have "uval ?u = (lo r + (up r - lo r) mod cmod r + (lo s + (up s - lo s) mod cmod r) - 1) mod cmod r"
      proof -
        have "uval ?u = (lo r + (up r - lo r) + (lo s + (up s - lo s)) - 1) mod cmod r"
          using ok by (simp add: SInt_ring_sem mod_simps)
        also have "\<dots> = (lo r + (up r - lo r) mod cmod r + (lo s + (up s - lo s) mod cmod r) - 1) mod cmod r"
          by (intro mod_diff_cong mod_add_cong refl) simp_all
        finally show ?thesis .
      qed
      also have "\<dots> = (lo r + csize r mod cmod r + (lo s + csize s mod cmod r) - 1) mod cmod r"
        using csize_up [OF d(1) n(1,2)] csize_up [OF d(2) n(3,4)] d(3) by simp
      also have "\<dots> = (uval ?l + csize r + csize s - 1) mod cmod r"
      proof -
        have "\<dots> = (lo r + csize r + (lo s + csize s) - 1) mod cmod r"
          by (intro mod_diff_cong mod_add_cong refl) simp_all
        also have "\<dots> = (lo r + lo s + (csize r + csize s - 1)) mod cmod r" by (simp add: algebra_simps)
        also have "\<dots> = ((lo r + lo s) mod cmod r + (csize r + csize s - 1)) mod cmod r"
          by (simp only: mod_add_left_eq)
        also have "\<dots> = (uval ?l + csize r + csize s - 1) mod cmod r"
          by (simp add: SInt_ring_sem algebra_simps)
        finally show ?thesis .
      qed
      finally have u: "uval ?u = (uval ?l + csize r + csize s - 1) mod cmod r" .
      have "SInt_add x y \<in> elems (sum_range r s ?l ?u)" if "x \<in> elems r" "y \<in> elems s"
      proof (rule sum_range_mem [OF assms n lu u])
        show "same ?l (SInt_add x y)" using lu that d by (simp add: same_def elems_iff)
        show "uval (SInt_add x y) = (uval ?l + (uval x - lo r) + (uval y - lo s)) mod cmod r"
          using that d by (simp add: elems_iff SInt_ring_sem mod_absorb)
      qed (use that d in \<open>simp_all add: elems_offset\<close>)
      with n sum_range_spec [OF assms n lu u] show ?thesis by (simp add: eq SInt_ring_sem)
  next
    case 1
    then show ?thesis using CR_nonempty d by (auto simp: eq CR_Width_def)
  next
    case 2
    then have m: "cmod r = min (cmod r) (csize r + csize s - 1)" by (rule csize_full_min [OF assms])
    then have "\<not> csize r + csize s - 1 < cmod r" by linarith
    with 2 m show ?thesis using elems_width [OF d(1), of x]
      by (simp add: eq CR_Width_def mem_Full csize_Full)
  qed
  then show "cr_ok (CR_Add r s)" "width (lower (CR_Add r s)) = width (lower r)"
    "x \<in> elems r \<Longrightarrow> y \<in> elems s \<Longrightarrow> SInt_add x y \<in> elems (CR_Add r s)"
    "\<not> CR_IsEmptySet r \<Longrightarrow> \<not> CR_IsEmptySet s \<Longrightarrow> csize (CR_Add r s) = min (cmod r) (csize r + csize s - 1)"
    "\<not> CR_IsEmptySet r \<Longrightarrow> \<not> CR_IsEmptySet s \<Longrightarrow> csize r + csize s - 1 < cmod r \<Longrightarrow>
      lo (CR_Add r s) = (lo r + lo s) mod cmod r"
    by auto
qed

text \<open>\<open>Add\<close> is exact: every element of the result is a sum.\<close>

lemma elems_at:
  assumes "cr_ok r" "0 \<le> i" "i < csize r"
  shows "SInt_add_u64 (lower r) (word_of_int i) \<in> elems r"
    "uval (SInt_add_u64 (lower r) (word_of_int i)) = (lo r + i) mod cmod r"
proof -
  note d = cr_okD [OF assms(1)]
  have "i < 2 ^ 64" using assms csize_bounds(2) [OF assms(1)] modulus_le [of "width (lower r)"] by linarith
  then have "uint (word_of_int i :: u64) = i"
    using assms(2) by (simp add: uint_word_of_int)
  then show u: "uval (SInt_add_u64 (lower r) (word_of_int i)) = (lo r + i) mod cmod r"
    by (simp add: SInt_ring_sem)
  have "(uval (SInt_add_u64 (lower r) (word_of_int i)) - lo r) mod cmod r = i mod cmod r"
    unfolding u by (simp add: mod_diff_left_eq)
  also have "\<dots> = i" using assms csize_bounds [OF assms(1)] by (intro mod_pos_pos_trivial) auto
  finally show "SInt_add_u64 (lower r) (word_of_int i) \<in> elems r"
    using assms(1,3) by (simp add: elems_offset)
qed

lemma CR_Add_exact_mem:
  assumes "cr_same r s" "z \<in> elems (CR_Add r s)"
  shows "\<exists>x y. x \<in> elems r \<and> y \<in> elems s \<and> z = SInt_add x y"
proof -
  note d = cr_sameD [OF assms(1)] note a = CR_Add_ok_sound [OF assms(1)]
  have ne: "\<not> CR_IsEmptySet r" "\<not> CR_IsEmptySet s"
    using assms(2) by (auto simp: CR_Add_def elems_Empty)
  define p where "p = csize r" define q where "q = csize s"
  have "csize r \<noteq> 0" "csize s \<noteq> 0" using csize_bounds(3) [OF d(1)] csize_bounds(3) [OF d(2)] ne by auto
  then have pq: "1 \<le> p" "1 \<le> q"
    using csize_bounds(1) [OF d(1)] csize_bounds(1) [OF d(2)] by (simp_all add: p_def q_def)
  define k where "k = (uval z - (lo r + lo s)) mod cmod r"
  have z: "sint_ok z" "width z = width (lower r)" using assms(2) a by (simp_all add: elems_iff)
  have k: "0 \<le> k" "k < p + q - 1"
  proof -
    show "0 \<le> k" by (simp add: k_def)
    show "k < p + q - 1"
    proof (cases "p + q - 1 < cmod r")
      case True
      then have "(uval z - lo (CR_Add r s)) mod cmod r < p + q - 1"
        using assms(2) a ne by (simp add: elems_offset p_def q_def)
      then show ?thesis using a(5) [OF ne] True by (simp add: k_def p_def q_def mod_diff_right_eq)
    next
      case False
      have "k < cmod r" by (simp add: k_def)
      with False show ?thesis by linarith
    qed
  qed
  define i where "i = min k (p - 1)"
  have ij: "0 \<le> i" "i < p" "0 \<le> k - i" "k - i < q" using k pq by (auto simp: i_def)
  let ?x = "SInt_add_u64 (lower r) (word_of_int i)" and ?y = "SInt_add_u64 (lower s) (word_of_int (k - i))"
  have xy: "?x \<in> elems r" "?y \<in> elems s" "uval ?x = (lo r + i) mod cmod r" "uval ?y = (lo s + (k - i)) mod cmod r"
    using elems_at [OF d(1), of i] elems_at [OF d(2), of "k - i"] ij d(3) by (simp_all add: p_def q_def)
  have "uval (SInt_add ?x ?y) = ((lo r + i) + (lo s + (k - i))) mod cmod r"
    using xy by (simp add: SInt_ring_sem(1) mod_simps)
  also have "\<dots> = ((lo r + lo s) + k) mod cmod r" by (simp add: algebra_simps)
  also have "\<dots> = ((lo r + lo s) + (uval z - (lo r + lo s))) mod cmod r" unfolding k_def by (simp only: mod_add_right_eq)
  also have "\<dots> = uval z mod cmod r" by simp
  also have "\<dots> = uval z" using z uval_less [of z] uval_nonneg [of z] by simp
  finally have "z = SInt_add ?x ?y" using z by (simp add: SInt_eq_iff)
  with xy show ?thesis by blast
qed

lemma elems_offset_top:
  assumes "cr_ok r" "\<not> CR_IsEmptySet r" "\<not> CR_IsFullSet r" "y \<in> elems r"
  shows "(up r - 1 - uval y) mod cmod r < csize r"
proof -
  define k where "k = (uval y - lo r) mod cmod r"
  have k: "0 \<le> k" "k < csize r" using assms(1,4) by (simp_all add: k_def elems_offset)
  have "(up r - 1 - uval y) mod cmod r = ((up r - lo r) - 1 - (uval y - lo r)) mod cmod r" by (simp add: algebra_simps)
  also have "\<dots> = (csize r - 1 - k) mod cmod r"
    unfolding k_def by (intro mod_diff_cong refl) (simp_all add: csize_up [OF assms(1-3)])
  also have "\<dots> = csize r - 1 - k" using k csize_bounds [OF assms(1)] by (intro mod_pos_pos_trivial) auto
  finally show ?thesis using k by linarith
qed

lemma CR_Sub_ok_sound:
  assumes "cr_same r s"
  shows "cr_ok (CR_Sub r s)" "width (lower (CR_Sub r s)) = width (lower r)"
    "x \<in> elems r \<Longrightarrow> y \<in> elems s \<Longrightarrow> SInt_sub x y \<in> elems (CR_Sub r s)"
    "\<not> CR_IsEmptySet r \<Longrightarrow> \<not> CR_IsEmptySet s \<Longrightarrow> csize (CR_Sub r s) = min (cmod r) (csize r + csize s - 1)"
proof -
  note d = cr_sameD [OF assms]
  let ?l = "SInt_add_u64 (SInt_sub (lower r) (upper s)) 1" and ?u = "SInt_sub (upper r) (lower s)"
  have eq: "CR_Sub r s = (if CR_IsEmptySet r \<or> CR_IsEmptySet s then CR_Empty (CR_Width r)
      else if CR_IsFullSet r \<or> CR_IsFullSet s then CR_Full (CR_Width r) else sum_range r s ?l ?u)"
    by (simp add: CR_Sub_def sum_range_def Let_def)
  note ok = cr_okD [OF d(1)] cr_okD [OF d(2)]
  have lu: "same ?l ?u" "width ?l = width (lower r)" using ok by (simp_all add: same_def)
  have l: "uval ?l = (lo r - up s + 1) mod cmod r" by (simp add: SInt_ring_sem mod_simps)
  consider "CR_IsEmptySet r \<or> CR_IsEmptySet s" | "\<not> CR_IsEmptySet r" "\<not> CR_IsEmptySet s" "CR_IsFullSet r \<or> CR_IsFullSet s"
    | (n) "\<not> CR_IsEmptySet r" "\<not> CR_IsFullSet r" "\<not> CR_IsEmptySet s" "\<not> CR_IsFullSet s" by blast
  then have "cr_ok (CR_Sub r s) \<and> width (lower (CR_Sub r s)) = width (lower r) \<and>
    (x \<in> elems r \<longrightarrow> y \<in> elems s \<longrightarrow> SInt_sub x y \<in> elems (CR_Sub r s)) \<and>
    (\<not> CR_IsEmptySet r \<longrightarrow> \<not> CR_IsEmptySet s \<longrightarrow> csize (CR_Sub r s) = min (cmod r) (csize r + csize s - 1))"
  proof cases
    case n
    have "uval ?u = ((lo r - up s + 1) + ((up r - lo r) + (up s - lo s) - 1)) mod cmod r"
      using ok by (simp add: SInt_ring_sem)
    also have "\<dots> = (uval ?l + (csize r + csize s - 1)) mod cmod r"
      unfolding l using csize_up [OF d(1) n(1,2)] csize_up [OF d(2) n(3,4)] d(3)
      by (intro mod_diff_cong mod_add_cong refl) simp_all
    finally have u: "uval ?u = (uval ?l + csize r + csize s - 1) mod cmod r" by (simp add: algebra_simps)
    have "SInt_sub x y \<in> elems (sum_range r s ?l ?u)" if "x \<in> elems r" "y \<in> elems s"
    proof (rule sum_range_mem [OF assms n lu u])
      show "same ?l (SInt_sub x y)" using lu that d by (simp add: same_def elems_iff)
      show "uval (SInt_sub x y) = (uval ?l + (uval x - lo r) + (up s - 1 - uval y)) mod cmod r"
        unfolding l mod_absorb using that d by (simp add: elems_iff SInt_ring_sem)
      show "(up s - 1 - uval y) mod cmod r < csize s"
        using elems_offset_top [OF d(2) n(3,4)] that d by simp
    qed (use that d in \<open>simp_all add: elems_offset\<close>)
    with n sum_range_spec(1-3) [OF assms n lu u] show ?thesis by (simp add: eq)
  next
    case 1
    then show ?thesis using CR_nonempty d by (auto simp: eq CR_Width_def)
  next
    case 2
    then have m: "cmod r = min (cmod r) (csize r + csize s - 1)" by (rule csize_full_min [OF assms])
    then have "\<not> csize r + csize s - 1 < cmod r" by linarith
    with 2 m show ?thesis using elems_width [OF d(1), of x]
      by (simp add: eq CR_Width_def mem_Full csize_Full)
  qed
  then show "cr_ok (CR_Sub r s)" "width (lower (CR_Sub r s)) = width (lower r)"
    "x \<in> elems r \<Longrightarrow> y \<in> elems s \<Longrightarrow> SInt_sub x y \<in> elems (CR_Sub r s)"
    "\<not> CR_IsEmptySet r \<Longrightarrow> \<not> CR_IsEmptySet s \<Longrightarrow> csize (CR_Sub r s) = min (cmod r) (csize r + csize s - 1)"
    by auto
qed

subsection \<open>Extension\<close>

lemma SInt_GetOneBitSet_sem:
  assumes "k < bits w"
  shows "sint_ok (SInt_GetOneBitSet w k)" "width (SInt_GetOneBitSet w k) = w" "uval (SInt_GetOneBitSet w k) = 2 ^ k"
proof -
  have k: "k < 64" using assms bits_le [of w] by linarith
  have "val (mkSInt w 0) = 0" using mkSInt_uval [of w 0] by (simp add: uval_def word_uint_eq_iff)
  then have "val (SInt_GetOneBitSet w k) = push_bit k 1"
    by (simp add: SInt_GetOneBitSet_def SInt_SetBit_def MaskBit_def)
  moreover have "uint (push_bit k 1 :: u64) = 2 ^ k"
  proof -
    have "(2::int) ^ k < 2 ^ 64" using k by (rule power_strict_increasing) simp
    then show ?thesis by (subst uint_push_bit64) simp
  qed
  ultimately show u: "uval (SInt_GetOneBitSet w k) = 2 ^ k" by (simp only: uval_def)
  show w: "width (SInt_GetOneBitSet w k) = w" by (simp add: SInt_GetOneBitSet_def SInt_SetBit_def)
  show "sint_ok (SInt_GetOneBitSet w k)"
    using u w assms by (simp add: sint_ok_def uval_def)
qed

lemma uval_ZExt: "sint_ok v \<Longrightarrow> bits (width v) \<le> bits w \<Longrightarrow> uval (SInt_ZExt v w) = uval v"
  by (simp add: SInt_width_change_sem width_change_id)

lemma half_mono: "bits w' \<le> bits w \<Longrightarrow> half w' \<le> half w"
  by (simp add: half_def power_increasing)

lemma modulus_mono: "bits w' < bits w \<Longrightarrow> modulus w' \<le> half w"
proof -
  assume "bits w' < bits w"
  then have "bits w' \<le> bits w - 1" by simp
  then show ?thesis unfolding modulus_def half_def by (rule power_increasing) simp
qed

lemma sval_SExt: "sint_ok v \<Longrightarrow> bits (width v) \<le> bits w \<Longrightarrow> sval (SInt_SExt v w) = sval v"
  using half_mono [of "width v" w] sval_range [of v]
  by (intro sval_mkmod) (auto simp: SInt_width_change_sem srange_def)

lemma CR_ZeroExtend_ok_sound:
  assumes "cr_ok r" "bits (width (lower r)) < bits w"
  shows "cr_ok (CR_ZeroExtend r w)" "width (lower (CR_ZeroExtend r w)) = w"
    "x \<in> elems r \<Longrightarrow> SInt_ZExt x w \<in> elems (CR_ZeroExtend r w)"
proof -
  note d = cr_okD [OF assms(1)] note t = CR_tests_sem [OF assms(1)]
  have ob: "sint_ok (SInt_GetOneBitSet w (bits (CR_Width r)))" "width (SInt_GetOneBitSet w (bits (CR_Width r))) = w"
     "uval (SInt_GetOneBitSet w (bits (CR_Width r))) = cmod r"
    using SInt_GetOneBitSet_sem [of "bits (CR_Width r)" w] assms(2) by (simp_all add: CR_Width_def modulus_def)
  have z: "uval (SInt_ZExt (lower r) w) = lo r" "uval (SInt_ZExt (upper r) w) = up r"
    using uval_ZExt assms(2) d by simp_all
  have c: "0 < cmod r" by simp
  show ok: "cr_ok (CR_ZeroExtend r w)" and w: "width (lower (CR_ZeroExtend r w)) = w"
    using d z ob c mkSInt_uval [of w 0]
    by (auto simp: CR_ZeroExtend_def t SInt_tests_sem same_def intro!: mkCR_ok)
  assume x: "x \<in> elems r"
  then have xb: "0 \<le> uval x" "uval x < cmod r" "uval (SInt_ZExt x w) = uval x" "arc (lo r) (up r) (uval x)"
    using assms uval_nonneg [of x] uval_less [of x] uval_ZExt [of x w] by (auto simp: elems_iff)
  have "arc (lo (CR_ZeroExtend r w)) (up (CR_ZeroExtend r w)) (uval (SInt_ZExt x w))"
    using d z ob c xb mkSInt_uval [of w 0]
    by (auto simp: CR_ZeroExtend_def t SInt_tests_sem arc_def)
  with ok w show "SInt_ZExt x w \<in> elems (CR_ZeroExtend r w)" by (simp add: elems_iff)
qed

lemma SInt_SetBits_zero:
  assumes "l < h" "h \<le> bits w"
  shows "uval (SInt_SetBits (mkSInt w 0) l h) = 2 ^ h - 2 ^ l"
proof -
  have v0: "val (mkSInt w 0) = 0" using mkSInt_uval [of w 0] by (simp add: uval_def word_uint_eq_iff)
  have h: "h \<le> 64" "64 - h + l = 64 - (h - l)" "h - l \<le> 64" using assms bits_le [of w] by linarith+
  have "val (SInt_SetBits (mkSInt w 0) l h) = push_bit l (mask (h - l))"
    using assms(1) h drop_bit_minus_1_mask [of "h - l"]
    by (simp add: SInt_SetBits_def Let_def BITS_PER_WORD_def WORD_TYPE_MAX_def v0)
  then have "uval (SInt_SetBits (mkSInt w 0) l h) = ((2 ^ (h - l) - 1) * 2 ^ l) mod 2 ^ 64"
    unfolding uval_def using h(3) by (simp only: uint_push_bit64 uint_mask64)
  also have "(2 ^ (h - l) - 1) * 2 ^ l = (2::int) ^ h - 2 ^ l"
    using assms(1) by (simp add: algebra_simps flip: power_add)
  also have "\<dots> mod 2 ^ 64 = 2 ^ h - 2 ^ l"
    using power_increasing [of l h "2::int"] power_increasing [of h 64 "2::int"] assms(1) h(1)
      zero_less_power [of "2::int" l]
    by (intro mod_pos_pos_trivial) linarith+
  finally show ?thesis .
qed

lemma SignExtend_bounds:
  assumes "bits v < bits w"
  shows "sint_ok (SInt_GetHighBitsSet w (bits w - bits v + 1))" "width (SInt_GetHighBitsSet w (bits w - bits v + 1)) = w"
    "sval (SInt_GetHighBitsSet w (bits w - bits v + 1)) = - half v"
    "sint_ok (SInt_GetLowBitsSet w (bits v - 1))" "width (SInt_GetLowBitsSet w (bits v - 1)) = w"
    "sval (SInt_GetLowBitsSet w (bits v - 1)) = half v - 1"
proof -
  let ?h = "SInt_GetHighBitsSet w (bits w - bits v + 1)" and ?l = "SInt_GetLowBitsSet w (bits v - 1)"
  show w: "width ?h = w" "width ?l = w"
    by (simp_all add: SInt_GetHighBitsSet_def SInt_SetHighBits_def SInt_GetLowBitsSet_def SInt_SetLowBits_def SInt_SetBits_def Let_def)
  have "bits w - (bits w - bits v + 1) = bits v - 1" "bits v - 1 < bits w" "0 < bits v - 1" "bits v - 1 \<le> bits w"
    using assms bits_ge [of v] by linarith+
  then have u: "uval ?h = modulus w - half v" "uval ?l = half v - 1"
    using SInt_SetBits_zero [of "bits v - 1" "bits w" w] SInt_SetBits_zero [of 0 "bits v - 1" w]
    by (simp_all add: SInt_GetHighBitsSet_def SInt_SetHighBits_def SInt_GetLowBitsSet_def SInt_SetLowBits_def
        modulus_def half_def)
  have m: "modulus v \<le> half w" using assms by (rule modulus_mono)
  show ok: "sint_ok ?h" "sint_ok ?l"
    using u w m modulus_half [of v] modulus_half [of w] half_ge [of v]
    by (auto simp: sint_ok_def modulus_def [symmetric] simp flip: uval_def)
  show "sval ?h = - half v" "sval ?l = half v - 1"
    using u w ok m modulus_half [of v] modulus_half [of w] half_ge [of v] by (simp_all add: sval_eq)
qed


lemma CR_SignExtend_ok_sound:
  assumes "cr_ok r" "bits (width (lower r)) < bits w"
  shows "cr_ok (CR_SignExtend r w)" "width (lower (CR_SignExtend r w)) = w"
    "x \<in> elems r \<Longrightarrow> SInt_SExt x w \<in> elems (CR_SignExtend r w)"
proof -
  let ?v = "width (lower r)"
  note d = cr_okD [OF assms(1)] note t = CR_tests_sem [OF assms(1)]
  note b = SignExtend_bounds [OF assms(2)]
  have h: "half ?v < half w" "128 \<le> half ?v" "half ?v < modulus ?v"
    using modulus_mono [OF assms(2)] modulus_half [of ?v] half_ge [of ?v] by linarith+
  let ?u = "SInt_add_u64 (SInt_GetLowBitsSet w (bits ?v - 1)) 1"
  have u: "sval ?u = half ?v" using b h by (simp add: sval_succ)
  have r: "- half ?v \<le> slo r" "slo r < half ?v" "- half ?v \<le> sup r" "sup r < half ?v"
    using sval_range [of "lower r"] sval_range [of "upper r"] d by auto
  have se: "sval (SInt_SExt (lower r) w) = slo r" "sval (SInt_SExt (upper r) w) = sup r"
    using sval_SExt assms(2) d by simp_all
  have ze: "sval (SInt_ZExt (upper r) w) = half ?v" if "sup r = - half ?v"
    using that d uval_ZExt [of "upper r" w] assms(2) h modulus_half [of ?v]
    by (auto simp: sval_eq split: if_splits)
  have lu: "lo r = up r \<longleftrightarrow> slo r = sup r" using sval_inj [of "lower r" "upper r"] d by simp
  define l' where "l' = (if CR_IsFullSet r \<or> CR_IsSignWrappedSet r then SInt_GetHighBitsSet w (bits w - bits ?v + 1)
      else SInt_SExt (lower r) w)"
  define u' where "u' = (if CR_IsFullSet r \<or> CR_IsSignWrappedSet r then ?u
      else if sup r = - half ?v then SInt_ZExt (upper r) w else SInt_SExt (upper r) w)"
  have eq: "CR_SignExtend r w = (if CR_IsEmptySet r then CR_Empty w else mkCR l' u')"
    using d sval_const_tests [of "upper r"] by (simp add: CR_SignExtend_def l'_def u'_def CR_Width_def Let_def)
  have wf: "same l' u'" "width l' = w" using b by (simp_all add: l'_def u'_def same_def)
  have sv: "sval l' = (if CR_IsFullSet r \<or> CR_IsSignWrappedSet r then - half ?v else slo r)"
    "sval u' = (if CR_IsFullSet r \<or> CR_IsSignWrappedSet r \<or> sup r = - half ?v then half ?v else sup r)"
    using b u se ze by (simp_all add: l'_def u'_def)
  have lt: "sval l' < sval u'" if "\<not> CR_IsEmptySet r"
    using that sv r h lu d by (auto simp: t)
  have ok': "cr_ok (mkCR l' u')" if "\<not> CR_IsEmptySet r"
    using lt [OF that] sval_inj [of l' u'] wf by (intro mkCR_ok) (auto simp: same_def)
  show ok: "cr_ok (CR_SignExtend r w)" and w: "width (lower (CR_SignExtend r w)) = w"
    using ok' wf by (simp_all add: eq)
  assume x: "x \<in> elems r"
  have xb: "sint_ok x" "width x = ?v" "- half ?v \<le> sval x" "sval x < half ?v" "sval (SInt_SExt x w) = sval x"
    using x assms sval_range [of x] sval_SExt [of x w] by (auto simp: elems_iff)
  have ne: "\<not> CR_IsEmptySet r" using CR_nonempty [OF assms(1) x] .
  have "sval l' \<le> sval x" "sval x < sval u'"
    using x ne r xb lu unfolding sv elems_signed [OF assms(1)] by (auto simp: t split: if_splits)
  with lt [OF ne] show "SInt_SExt x w \<in> elems (CR_SignExtend r w)"
    using ne wf elems_signed [OF ok' [OF ne], of "SInt_SExt x w"] xb by (simp add: eq)
qed

subsection \<open>Truncation\<close>

lemma SInt_high_part:
  assumes "sint_ok v" "k < bits (width v)"
  shows "uval (SInt_and v (SInt_GetBitsSetFrom (width v) k)) = uval v - uval v mod 2 ^ k"
proof -
  let ?w = "bits (width v)"
  have v0: "val (mkSInt (width v) 0) = 0" using mkSInt_uval [of "width v" 0] by (simp add: uval_def word_uint_eq_iff)
  have h: "?w \<le> 64" "64 - ?w + k = 64 - (?w - k)" "?w - k \<le> 64" using assms(2) bits_le [of "width v"] by linarith+
  have m: "val (SInt_GetBitsSetFrom (width v) k) = push_bit k (mask (?w - k))"
    using assms(2) h drop_bit_minus_1_mask [of "?w - k"]
    by (simp add: SInt_GetBitsSetFrom_def SInt_SetBits_def Let_def BITS_PER_WORD_def WORD_TYPE_MAX_def v0)
  have top: "\<not> bit (val v) n" if "?w \<le> n" for n
  proof
    assume b: "bit (val v) n"
    then have "n < 64" by (auto dest: bit_imp_le_length)
    have "bit (uint (val v)) n" using b \<open>n < 64\<close> by (simp add: bit_uint_iff)
    moreover have "uint (val v) < 2 ^ n"
      using assms(1) power_increasing [OF that, of "2::int"] unfolding sint_ok_def by linarith
    ultimately show False by (simp add: bit_iff_odd)
  qed
  have "val v AND push_bit k (mask (?w - k)) = push_bit k (drop_bit k (val v))"
  proof (rule bit_word_eqI)
    fix n assume "n < LENGTH(64)"
    then show "bit (val v AND push_bit k (mask (?w - k))) n \<longleftrightarrow> bit (push_bit k (drop_bit k (val v))) n"
      using top [of n] assms(2) by (cases "?w \<le> n") (auto simp: bit_simps)
  qed
  moreover have "val (SInt_and v (SInt_GetBitsSetFrom (width v) k)) = val v AND val (SInt_GetBitsSetFrom (width v) k)"
    by (simp add: SInt_and_def)
  ultimately have "uval (SInt_and v (SInt_GetBitsSetFrom (width v) k)) = (uint (drop_bit k (val v)) * 2 ^ k) mod 2 ^ 64"
    by (simp only: uval_def m uint_push_bit64)
  also have "uint (drop_bit k (val v)) = uval v div 2 ^ k" by (simp only: uint_drop_bit64 uval_def)
  also have "uval v div 2 ^ k * 2 ^ k = uval v - uval v mod 2 ^ k" by (simp add: minus_mod_eq_div_mult)
  also have "\<dots> mod 2 ^ 64 = \<dots>"
  proof (intro mod_pos_pos_trivial)
    have "uval v mod 2 ^ k \<le> uval v" using uval_nonneg by (intro zmod_le_nonneg_dividend)
    then show "0 \<le> uval v - uval v mod 2 ^ k" by simp
    have "0 \<le> uval v mod 2 ^ k" by simp
    then show "uval v - uval v mod 2 ^ k < 2 ^ 64"
      using uval_less [OF assms(1)] modulus_le [of "width v"] by linarith
  qed
  finally show ?thesis .
qed

lemma SInt_ClearBit_top:
  assumes "2 ^ k \<le> uval v" "uval v < 2 * 2 ^ k" "k < 64"
  shows "uval (SInt_ClearBit v k) = uval v - 2 ^ k"
proof -
  have top: "\<not> bit (val v) n" if "k < n" for n
  proof
    assume b: "bit (val v) n"
    then have "n < 64" by (auto dest: bit_imp_le_length)
    have "bit (uint (val v)) n" using b \<open>n < 64\<close> by (simp add: bit_uint_iff)
    moreover have "(2::int) * 2 ^ k \<le> 2 ^ n"
      using power_increasing [of "Suc k" n "2::int"] that by simp
    then have "uint (val v) < 2 ^ n" using assms(2) by (simp add: uval_def)
    ultimately show False by (simp add: bit_iff_odd)
  qed
  have "val v AND NOT (push_bit k 1) = val v AND mask k"
  proof (rule bit_word_eqI)
    fix n assume "n < LENGTH(64)"
    then show "bit (val v AND NOT (push_bit k 1)) n \<longleftrightarrow> bit (val v AND mask k) n"
      using top [of n] assms(3) by (cases "k < n"; cases "n = k") (auto simp: bit_simps)
  qed
  then have "uval (SInt_ClearBit v k) = uval v mod 2 ^ k"
    by (simp add: SInt_ClearBit_def MaskBit_def uval_def uint_and_mask)
  also have "\<dots> = uval v - 2 ^ k"
    using assms by (intro int_mod_pos_eq [of _ _ 1]) auto
  finally show ?thesis .
qed

lemma uval_Trunc: "uval (SInt_Trunc v w) = uval v mod modulus w"
  by (simp add: SInt_width_change_sem)

lemma mod_modulus_dvd:
  assumes "bits n \<le> bits w"
  shows "x mod modulus w mod modulus n = x mod modulus n"
proof -
  have "modulus n dvd modulus w" unfolding modulus_def using assms by (rule le_imp_power_dvd)
  then show ?thesis by (rule mod_mod_cancel)
qed

text \<open>
  The part without wrap-around: the bounds \<open>l < u\<close> are moved down by a multiple of the new
  modulus, and the numbers between them are found modulo it.
\<close>

lemma shifted_interval:
  fixes l u x N :: int
  assumes "0 \<le> l" "l \<le> x" "x < u" "0 < N"
  defines "l1 \<equiv> l mod N" and "u1 \<equiv> u - (l - l mod N)" and "x1 \<equiv> x - (l - l mod N)"
  shows "l1 \<le> x1" "x1 < u1" "x mod N = x1 mod N" "0 \<le> l1" "l1 < N"
proof -
  show "l1 \<le> x1" "x1 < u1" "0 \<le> l1" "l1 < N" using assms by auto
  have "x = x1 + N * (l div N)" by (simp add: x1_def minus_mod_eq_mult_div)
  then have "x mod N = (x1 + N * (l div N)) mod N" by (rule arg_cong)
  then show "x mod N = x1 mod N" by simp
qed

lemma CR_Truncate_normal_spec:
  assumes "same l u" "uval l < uval u" "width l = w" "bits n < bits w" "cr_ok p" "width (lower p) = n"
  defines "t \<equiv> CR_Truncate_normal w n l u p"
  shows "cr_ok t" "width (lower t) = n" "elems p \<subseteq> elems t"
    "sint_ok x \<Longrightarrow> uval l \<le> uval x \<Longrightarrow> uval x < uval u \<Longrightarrow> SInt_Trunc x n \<in> elems t"
proof -
  let ?N = "modulus n"
  have ok: "sint_ok l" "sint_ok u" "width u = w" using assms(1,3) by (simp_all add: same_def)
  have N: "256 \<le> ?N" "2 ^ bits n = ?N" "2 * ?N \<le> modulus w"
    using modulus_ge modulus_mono [OF assms(4)] modulus_half [of w] by (simp_all add: modulus_def)
  have b: "0 \<le> uval l" "uval u < modulus w" using uval_nonneg uval_less [OF ok(2)] ok by auto
  define adj where "adj = SInt_and l (SInt_GetBitsSetFrom w (bits n))"
  define l1 where "l1 = (if bits n < SInt_ActiveBits l then SInt_sub l adj else l)"
  define u1 where "u1 = (if bits n < SInt_ActiveBits l then SInt_sub u adj else u)"
  have adj: "uval adj = uval l - uval l mod ?N"
    using SInt_high_part [OF ok(1)] assms(3,4) N by (simp add: adj_def)
  have cut: "bits n < SInt_ActiveBits l \<longleftrightarrow> ?N \<le> uval l"
    using SInt_ActiveBits_le_iff [OF ok(1), of "bits n"] N by (simp add: not_le [symmetric])
  have m: "0 \<le> uval l mod ?N" "uval l mod ?N < ?N" "uval l mod ?N \<le> uval l"
    using N b by (auto intro: zmod_le_nonneg_dividend)
  have small: "uval l mod ?N = uval l" if "uval l < ?N" using that b by (intro mod_pos_pos_trivial)
  have l1: "uval l1 = uval l mod ?N" "sint_ok l1" "width l1 = w"
    using cut adj ok assms(2,3) b m small by (auto simp: l1_def SInt_ring_sem)
  have u1_wf: "sint_ok u1" "width u1 = w" using ok by (auto simp: u1_def)
  have "uval u1 = uval u - (uval l - uval l mod ?N)"
  proof (cases "bits n < SInt_ActiveBits l")
    case True
    have "uval u1 = (uval u - (uval l - uval l mod ?N)) mod modulus w"
      using True ok adj by (simp add: u1_def SInt_ring_sem)
    also have "\<dots> = uval u - (uval l - uval l mod ?N)"
      using m b assms(2) by (intro mod_pos_pos_trivial) linarith+
    finally show ?thesis .
  qed (use cut small in \<open>auto simp: u1_def\<close>)
  note u1 = this u1_wf
  define u2 where "u2 = SInt_ClearBit u1 (bits n)"
  have act: "SInt_ActiveBits u1 \<le> bits n \<longleftrightarrow> uval u1 < ?N"
    "SInt_ActiveBits u1 \<le> bits n + 1 \<longleftrightarrow> uval u1 < 2 * ?N"
    using SInt_ActiveBits_le_iff [OF u1(2)] N by simp_all
  have u2: "uval u2 = uval u1 - ?N" if "?N \<le> uval u1" "uval u1 < 2 * ?N"
    using SInt_ClearBit_top [of "bits n" u1] that N assms(4) bits_le [of w] by (simp add: u2_def)
  have t: "t = (if uval u1 < ?N then CR_UnionWith (mkCR (SInt_Trunc l1 n) (SInt_Trunc u1 n)) p Smallest
      else if uval u1 < 2 * ?N then
        (if uval u2 < uval l1 then CR_UnionWith (mkCR (SInt_Trunc l1 n) (SInt_Trunc u2 n)) p Smallest else CR_Full n)
      else CR_Full n)"
  proof -
    have "t = (if SInt_ActiveBits u1 \<le> bits n then CR_UnionWith (mkCR (SInt_Trunc l1 n) (SInt_Trunc u1 n)) p Smallest
      else if SInt_ActiveBits u1 = bits n + 1 then
        (if SInt_Ult u2 l1 then CR_UnionWith (mkCR (SInt_Trunc l1 n) (SInt_Trunc u2 n)) p Smallest else CR_Full n)
      else CR_Full n)"
      unfolding t_def CR_Truncate_normal_def Let_def adj_def [symmetric] l1_def [symmetric] u1_def [symmetric] u2_def [symmetric] ..
    moreover have "SInt_ActiveBits u1 = bits n + 1 \<longleftrightarrow> ?N \<le> uval u1 \<and> uval u1 < 2 * ?N"
      using act by linarith
    ultimately show ?thesis using act by (simp add: SInt_Ult_sem)
  qed
  have tl: "uval (SInt_Trunc l1 n) = uval l1" using l1 m by (simp add: uval_Trunc)
  have mk: "cr_ok (mkCR (SInt_Trunc l1 n) v) \<and> union_spec (mkCR (SInt_Trunc l1 n) v) p (CR_UnionWith (mkCR (SInt_Trunc l1 n) v) p Smallest)"
    if "sint_ok v" "width v = n" "uval v \<noteq> uval l1" for v
  proof -
    have "cr_ok (mkCR (SInt_Trunc l1 n) v)" using that tl by (intro mkCR_ok) (auto simp: same_def)
    then show ?thesis using assms(5,6) by (auto intro!: CR_UnionWith_spec simp: cr_same_def)
  qed
  have lt: "uval l1 < uval u1" using l1 u1 assms(2) by simp
  have tu1: "uval (SInt_Trunc u1 n) = uval u1" if "uval u1 < ?N" using that uval_nonneg [of u1] by (simp add: uval_Trunc)
  have tu2: "uval (SInt_Trunc u2 n) = uval u2" if "?N \<le> uval u1" "uval u1 < 2 * ?N" using u2 that N by (simp add: uval_Trunc del: minus_mod_self2)
  have 1: "union_spec (mkCR (SInt_Trunc l1 n) (SInt_Trunc u1 n)) p t" if "uval u1 < ?N"
    using mk [of "SInt_Trunc u1 n"] that tu1 lt t by auto
  have 2: "union_spec (mkCR (SInt_Trunc l1 n) (SInt_Trunc u2 n)) p t" if "?N \<le> uval u1" "uval u1 < 2 * ?N" "uval u2 < uval l1"
    using mk [of "SInt_Trunc u2 n"] that tu2 t by auto
  consider (a) "uval u1 < ?N" | (b) "?N \<le> uval u1" "uval u1 < 2 * ?N" "uval u2 < uval l1" | (c) "t = CR_Full n"
  proof (cases "uval u1 < ?N")
    case False
    then have N1: "?N \<le> uval u1" by simp
    show ?thesis
    proof (cases "uval u1 < 2 * ?N \<and> uval u2 < uval l1")
      case True
      with N1 that(2) show ?thesis by blast
    next
      case F: False
      have "t = CR_Full n"
        unfolding t using False F by (cases "uval u1 < 2 * ?N") simp_all
      then show ?thesis by (rule that(3))
    qed
  qed (rule that(1))
  note cases = this
  have "cr_ok t \<and> width (lower t) = n \<and> elems p \<subseteq> elems t"
  proof (cases rule: cases)
    case a
    from 1 [OF a] show ?thesis by (simp add: union_spec_def)
  next
    case b
    from 2 [OF b] show ?thesis by (simp add: union_spec_def)
  next
    case c
    then show ?thesis using assms(5,6) by (auto simp: elems_Full elems_iff)
  qed
  then show "cr_ok t" "width (lower t) = n" "elems p \<subseteq> elems t" by auto
  assume x: "sint_ok x" "uval l \<le> uval x" "uval x < uval u"
  define x1 where "x1 = uval x - (uval l - uval l mod ?N)"
  have "0 < ?N" using N by linarith
  note sh = shifted_interval [OF b(1) x(2,3) this]
  have xx: "uval l1 \<le> x1" "x1 < uval u1" "uval (SInt_Trunc x n) = x1 mod ?N"
    using sh(1-3) l1 u1 by (simp_all add: uval_Trunc x1_def)
  show "SInt_Trunc x n \<in> elems t"
  proof (cases rule: cases)
    case a
    have "x1 mod ?N = x1" using xx(1,2) a l1(1) m(1) by (intro mod_pos_pos_trivial) linarith+
    then have "SInt_Trunc x n \<in> elems (mkCR (SInt_Trunc l1 n) (SInt_Trunc u1 n))"
      using xx a tl tu1 lt mk [of "SInt_Trunc u1 n"] by (simp add: elems_iff arc_def)
    with 1 [OF a] show ?thesis by (auto simp: union_spec_def)
  next
    case b
    have "0 \<le> x1" "x1 < 2 * ?N" using xx(1,2) b l1(1) m(1) by linarith+
    then have "x1 mod ?N = (if x1 < ?N then x1 else x1 - ?N)" by (simp add: mod_if3)
    then have "SInt_Trunc x n \<in> elems (mkCR (SInt_Trunc l1 n) (SInt_Trunc u2 n))"
      using xx b tl tu2 u2 mk [of "SInt_Trunc u2 n"] by (auto simp: elems_iff arc_def)
    with 2 [OF b] show ?thesis by (auto simp: union_spec_def)
  next
    case c
    then show ?thesis by (simp add: mem_Full)
  qed
qed

lemma CR_Truncate_ok_sound:
  assumes "cr_ok r" "bits n < bits (width (lower r))"
  shows "cr_ok (CR_Truncate r n)" "width (lower (CR_Truncate r n)) = n"
    "x \<in> elems r \<Longrightarrow> SInt_Trunc x n \<in> elems (CR_Truncate r n)"
proof -
  let ?w = "width (lower r)" and ?N = "modulus n"
  note d = cr_okD [OF assms(1)] note t = CR_tests_sem [OF assms(1)]
  have N: "256 \<le> ?N" "2 * ?N \<le> modulus ?w"
    using modulus_ge modulus_mono [OF assms(2)] modulus_half [of ?w] by simp_all
  let ?max = "SInt_UMaxValue n" and ?p = "mkCR (SInt_UMaxValue n) (SInt_Trunc (upper r) n)"
  have zmax: "uval (SInt_ZExt ?max ?w) = ?N - 1"
    using N by (simp add: SInt_width_change_sem SInt_const_sem)
  have tu: "uval (SInt_Trunc (upper r) n) = up r" if "up r < ?N - 1" using that d by (simp add: uval_Trunc)
  have p: "cr_ok ?p" if "up r < ?N - 1"
    using that tu by (intro mkCR_ok) (auto simp: same_def SInt_const_sem)
  have all: "same (lower r) (SInt_SetAllBits (upper r))" "uval (SInt_SetAllBits (upper r)) = cmod r - 1"
    using d by (simp_all add: same_def SInt_SetAllBits_sem)
  have eq: "CR_Truncate r n = (if CR_IsEmptySet r then CR_Empty n else if CR_IsFullSet r then CR_Full n
      else if up r < lo r then
        (if ?N - 1 \<le> up r then CR_Full n
         else if lo r = cmod r - 1 then ?p
         else CR_Truncate_normal ?w n (lower r) (SInt_SetAllBits (upper r)) ?p)
      else CR_Truncate_normal ?w n (lower r) (upper r) (CR_Empty n))"
    using zmax by (simp add: CR_Truncate_def t Let_def SInt_Uge_sem SInt_tests_sem CR_Width_def CR_Empty_def)
  note nw = CR_Truncate_normal_spec [of "lower r" "SInt_SetAllBits (upper r)" ?w n ?p, OF all(1) _ refl assms(2)]
  note nu = CR_Truncate_normal_spec [of "lower r" "upper r" ?w n "CR_Empty n", OF _ _ refl assms(2)]
  have su: "same (lower r) (upper r)" using d by (simp add: same_def)
  have ok: "cr_ok (CR_Truncate r n) \<and> width (lower (CR_Truncate r n)) = n"
    unfolding eq using nw(1,2) nu(1,2) p d all(2) su by (auto simp: t)
  then show "cr_ok (CR_Truncate r n)" "width (lower (CR_Truncate r n)) = n" by auto
  assume x: "x \<in> elems r"
  have xb: "sint_ok x" "width x = ?w" "0 \<le> uval x" "uval x < cmod r" "arc (lo r) (up r) (uval x)"
    using x assms(1) uval_nonneg [of x] uval_less [of x] by (auto simp: elems_iff)
  have ne: "\<not> CR_IsEmptySet r" using CR_nonempty [OF assms(1) x] .
  have inp: "SInt_Trunc x n \<in> elems ?p" if "up r < ?N - 1" "uval x < up r \<or> uval x = cmod r - 1"
  proof -
    have "?N dvd cmod r" unfolding modulus_def using assms(2) by (intro le_imp_power_dvd) simp
    then have "(cmod r - 1) mod ?N = (0 - 1) mod ?N" by (intro mod_diff_cong) auto
    then have "(cmod r - 1) mod ?N = ?N - 1" using N by (simp add: minus_1_mod_modulus)
    with that p [OF that(1)] tu [OF that(1)] xb show ?thesis
      by (auto simp: elems_iff uval_Trunc SInt_const_sem arc_def)
  qed
  show "SInt_Trunc x n \<in> elems (CR_Truncate r n)"
  proof (cases "CR_IsFullSet r \<or> up r < lo r \<and> ?N - 1 \<le> up r")
    case True
    with ne have "CR_Truncate r n = CR_Full n" by (auto simp: eq)
    then show ?thesis by (simp add: mem_Full)
  next
    case F: False
    show ?thesis
    proof (cases "up r < lo r")
      case True
      then have lt: "up r < ?N - 1" using F by auto
      show ?thesis
      proof (cases "lo r = cmod r - 1")
        case L: True
        with True F ne have "CR_Truncate r n = ?p" by (auto simp: eq)
        moreover have "uval x < up r \<or> uval x = cmod r - 1" using xb True L by (auto simp: arc_def split: if_splits)
        ultimately show ?thesis using inp [OF lt] by simp
      next
        case L: False
        with True F ne have e: "CR_Truncate r n = CR_Truncate_normal ?w n (lower r) (SInt_SetAllBits (upper r)) ?p"
          by (auto simp: eq)
        have "lo r < uval (SInt_SetAllBits (upper r))" using L d all by simp
        then have nw': "elems ?p \<subseteq> elems (CR_Truncate_normal ?w n (lower r) (SInt_SetAllBits (upper r)) ?p)"
          "lo r \<le> uval x \<Longrightarrow> uval x < cmod r - 1 \<Longrightarrow>
           SInt_Trunc x n \<in> elems (CR_Truncate_normal ?w n (lower r) (SInt_SetAllBits (upper r)) ?p)"
          using nw(3) [OF _ p [OF lt]] nw(4) [OF _ p [OF lt] _ xb(1)] all(2) by simp_all
        have "uval x < up r \<or> uval x = cmod r - 1 \<or> lo r \<le> uval x \<and> uval x < cmod r - 1"
          using xb True by (auto simp: arc_def split: if_splits)
        with inp [OF lt] nw' show ?thesis unfolding e by blast
      qed
    next
      case False
      have "lo r < up r" "lo r \<le> uval x" "uval x < up r"
        using False F ne xb by (auto simp: arc_def t split: if_splits)
      with False F ne nu(4) [OF su _ _ _ xb(1)] show ?thesis by (simp add: eq)
    qed
  qed
qed

end
