(* ===== verification/RangeDiv.thy ===== *)
theory RangeDiv
  imports RangeArith
begin

section \<open>Soundness of division, remainder and absolute value of ranges\<close>

text \<open>
  The operations of \<open>ConstantRange\<close> that divide never divide by zero, and their result
  covers the quotient or remainder of every element by every divisor other than zero.
\<close>

subsection \<open>Unsigned division and remainder\<close>

lemma div_mono_bounds:
  fixes a b x y :: int
  assumes "0 \<le> a" "a \<le> x" "0 < y" "y \<le> b"
  shows "a div b \<le> x div y"
proof -
  have "a div b \<le> a div y" using assms by (intro zdiv_mono2) auto
  also have "\<dots> \<le> x div y" using assms by (intro zdiv_mono1) auto
  finally show ?thesis .
qed

lemma UMax_zero_iff:
  assumes "cr_ok s" "\<not> CR_IsEmptySet s"
  shows "SInt_IsZero (CR_UMaxValue s) \<longleftrightarrow> lo s = 0 \<and> up s = 1"
  using cr_okD [OF assms(1)] assms modulus_ge [of "width (lower s)"]
  by (auto simp: SInt_tests_sem CR_UMaxValue_def CR_tests_sem SInt_const_sem SInt_ring_sem mod_sub_if CR_Width_def)

text \<open>The least divisor other than zero.\<close>

definition least_divisor :: "ConstantRange \<Rightarrow> SInt" where
  "least_divisor rhs = (if SInt_IsZero (CR_UMinValue rhs) then
                         (if SInt_eq_u64 (upper rhs) 1 then lower rhs
                          else mkSInt (width (CR_UMinValue rhs)) 1)
                       else CR_UMinValue rhs)"

lemma least_divisor:
  assumes "cr_ok s" "\<not> CR_IsEmptySet s" "\<not> SInt_IsZero (CR_UMaxValue s)"
  shows "sint_ok (least_divisor s)" "width (least_divisor s) = width (lower s)" "0 < uval (least_divisor s)"
    "y \<in> elems s \<Longrightarrow> uval y \<noteq> 0 \<Longrightarrow> uval (least_divisor s) \<le> uval y"
    "uval (least_divisor s) \<le> uval (CR_UMaxValue s)"
proof -
  note d = cr_okD [OF assms(1)] note t = CR_tests_sem [OF assms(1)]
  have one: "uval (mkSInt w 1) = 1" for w using modulus_ge [of w] by (simp add: mkSInt_uval)
  show "sint_ok (least_divisor s)" "width (least_divisor s) = width (lower s)"
    using d assms(1) by (simp_all add: least_divisor_def)
  have nz: "0 < uval (CR_UMaxValue s)" using assms(3) uval_nonneg [of "CR_UMaxValue s"] by (auto simp: SInt_tests_sem)
  have l: "lo s \<noteq> 0" if "up s = 1"
    using that assms d UMax_zero_iff [OF assms(1,2)] by auto
  show "0 < uval (least_divisor s)"
    using l d one uval_nonneg [of "CR_UMinValue s"]
    by (auto simp: least_divisor_def SInt_tests_sem SInt_eq_u64_sem)
  show "uval (least_divisor s) \<le> uval y" if "y \<in> elems s" "uval y \<noteq> 0" for y
    using that l d one uval_nonneg [of y] CR_UMinValue_le [OF assms(1) that(1)] assms(1)
    by (auto simp: least_divisor_def SInt_tests_sem SInt_eq_u64_sem elems_iff arc_def split: if_splits)
  then show "uval (least_divisor s) \<le> uval (CR_UMaxValue s)"
    using CR_UMinMax_mem(2) [OF assms(1,2)] nz by auto
qed

lemma CR_UDiv_ok_sound:
  assumes "cr_same r s"
  obtains t where "CR_UDiv r s = Some t" "cr_ok t" "width (lower t) = width (lower r)"
    "\<And>x y. x \<in> elems r \<Longrightarrow> y \<in> elems s \<Longrightarrow> uval y \<noteq> 0 \<Longrightarrow> the (SInt_UDiv x y) \<in> elems t"
proof -
  note d = cr_sameD [OF assms]
  show ?thesis
  proof (cases "CR_IsEmptySet r \<or> CR_IsEmptySet s \<or> SInt_IsZero (CR_UMaxValue s)")
    case True
    have "uval y = 0" if "y \<in> elems s" "SInt_IsZero (CR_UMaxValue s)" for y
      using CR_UMaxValue_ge [OF d(2) that(1)] that(2) uval_nonneg [of y] by (simp add: SInt_tests_sem)
    with True show ?thesis
      using d CR_nonempty by (intro that [of "CR_Empty (CR_Width r)"]) (auto simp: CR_UDiv_def CR_Width_def)
  next
    case False
    then have ne: "\<not> CR_IsEmptySet r" "\<not> CR_IsEmptySet s" "\<not> SInt_IsZero (CR_UMaxValue s)" by auto
    note ld = least_divisor [OF d(2) ne(2,3)]
    have nz: "0 < uval (CR_UMaxValue s)" using ld by linarith
    obtain l where l: "SInt_UDiv (CR_UMinValue r) (CR_UMaxValue s) = Some l" "sint_ok l" "width l = width (lower r)"
      "uval l = uval (CR_UMinValue r) div uval (CR_UMaxValue s)"
      using SInt_UDiv_sem [of "CR_UMinValue r" "CR_UMaxValue s"] nz d by auto
    obtain u where u: "SInt_UDiv (CR_UMaxValue r) (least_divisor s) = Some u" "sint_ok u" "width u = width (lower r)"
      "uval u = uval (CR_UMaxValue r) div uval (least_divisor s)"
      using SInt_UDiv_sem [of "CR_UMaxValue r" "least_divisor s"] ld d by auto
    have lu: "same l u" using l u by (simp add: same_def)
    have eq: "CR_UDiv r s = Some (CR_NonEmpty l (SInt_add_u64 u 1))"
      using ne l(1) u(1) by (simp add: CR_UDiv_def Let_def least_divisor_def [symmetric])
    show ?thesis
    proof (rule that [OF eq])
      show "cr_ok (CR_NonEmpty l (SInt_add_u64 u 1))" "width (lower (CR_NonEmpty l (SInt_add_u64 u 1))) = width (lower r)"
        using CR_NonEmpty_succ_ok [OF lu] l by simp_all
      fix x y assume xy: "x \<in> elems r" "y \<in> elems s" "uval y \<noteq> 0"
      have x: "sint_ok x" "width x = width (lower r)" using xy d by (simp_all add: elems_iff)
      obtain q where q: "SInt_UDiv x y = Some q" "sint_ok q" "width q = width (lower r)" "uval q = uval x div uval y"
        using SInt_UDiv_sem [OF x(1) xy(3)] x by auto
      have "q \<in> elems (CR_NonEmpty l (SInt_add_u64 u 1))"
      proof (rule mem_NonEmpty_unsigned [OF lu])
        show "same l q" using l q by (simp add: same_def)
        have "0 < uval y" using xy(3) uval_nonneg [of y] by linarith
        then show "uval l \<le> uval q" "uval q \<le> uval u"
          unfolding l u q
          using CR_UMinValue_le [OF d(1) xy(1)] CR_UMaxValue_ge [OF d(1) xy(1)] CR_UMaxValue_ge [OF d(2) xy(2)]
            ld(3) ld(4) [OF xy(2,3)] uval_nonneg
          by (auto intro!: div_mono_bounds)
      qed
      then show "the (SInt_UDiv x y) \<in> elems (CR_NonEmpty l (SInt_add_u64 u 1))" by (simp add: q)
    qed
  qed
qed

lemma CR_single_mem: "sint_ok v \<Longrightarrow> v \<in> elems (CR_single v)"
  using CR_single_ok [of v] uval_nonneg [of v] uval_less [of v] modulus_ge [of "width v"]
  by (auto simp: elems_iff uval_succ arc_def)

lemma arc_single:
  fixes l x M :: int
  assumes "0 \<le> l" "l < M" "0 \<le> x" "x < M" "1 < M" "arc l (if l = M - 1 then 0 else l + 1) x"
  shows "x = l"
  using assms by (auto simp: arc_def split: if_splits)

lemma single_elem:
  assumes "cr_ok r" "CR_IsSingleElement r" "x \<in> elems r"
  shows "x = lower r"
proof -
  note d = cr_okD [OF assms(1)]
  have u: "up r = (if lo r = cmod r - 1 then 0 else lo r + 1)"
    using assms(2) uval_succ [OF d(1)] by (simp add: CR_tests_sem [OF assms(1)] SInt_ring_sem)
  have x: "sint_ok x" "width x = width (lower r)" "arc (lo r) (up r) (uval x)"
    using assms(1,3) by (auto simp: elems_iff)
  have "uval x = lo r"
  proof (rule arc_single)
    show "arc (lo r) (if lo r = cmod r - 1 then 0 else lo r + 1) (uval x)" using x(3) unfolding u .
  qed (use d x modulus_ge [of "width (lower r)"] uval_less [of x] uval_nonneg [of x] in auto)
  then show ?thesis using assms by (simp add: SInt_eq_iff elems_iff)
qed

lemma CR_URem_ok_sound:
  assumes "cr_same r s"
  obtains t where "CR_URem r s = Some t" "cr_ok t" "width (lower t) = width (lower r)"
    "\<And>x y. x \<in> elems r \<Longrightarrow> y \<in> elems s \<Longrightarrow> uval y \<noteq> 0 \<Longrightarrow> the (SInt_URem x y) \<in> elems t"
proof -
  note d = cr_sameD [OF assms]
  let ?hull = "CR_NonEmpty (SInt_Zero (CR_Width r)) (SInt_add_u64 (SInt_UMin (CR_UMaxValue r) (SInt_sub_u64 (CR_UMaxValue s) 1)) 1)"
  define rest where "rest = (if SInt_Ult (CR_UMaxValue r) (CR_UMinValue s) then r else ?hull)"
  have lu: "same (SInt_Zero (CR_Width r)) (SInt_UMin (CR_UMaxValue r) (SInt_sub_u64 (CR_UMaxValue s) 1))"
    using d by (simp add: same_def CR_Width_def SInt_minmax_ok)
  have rest_ok: "cr_ok rest" "width (lower rest) = width (lower r)"
    using d CR_NonEmpty_succ_ok [OF lu] by (simp_all add: rest_def CR_Width_def)
  have rem: "\<exists>q. SInt_URem x y = Some q \<and> sint_ok q \<and> width q = width (lower r) \<and> uval q = uval x mod uval y"
    if "x \<in> elems r" "uval y \<noteq> 0" for x y
    using SInt_URem_sem [of x y] that d by (simp add: elems_iff)
  have rest_sound: "the (SInt_URem x y) \<in> elems rest" if xy: "x \<in> elems r" "y \<in> elems s" "uval y \<noteq> 0" for x y
  proof -
    obtain q where q: "SInt_URem x y = Some q" "sint_ok q" "width q = width (lower r)" "uval q = uval x mod uval y"
      using rem [OF xy(1,3)] by auto
    note bx = CR_UMaxValue_ge [OF d(1) xy(1)]
    note by' = CR_UMinValue_le [OF d(2) xy(2)] CR_UMaxValue_ge [OF d(2) xy(2)]
    have y: "0 < uval y" using xy(3) uval_nonneg [of y] by linarith
    show ?thesis
    proof (cases "SInt_Ult (CR_UMaxValue r) (CR_UMinValue s)")
      case True
      then have "uval x < uval y" using bx by' by (simp add: SInt_Ult_sem)
      then have "uval q = uval x" using q uval_nonneg [of x] by simp
      then have "q = x" using q xy(1) d by (simp add: SInt_eq_iff elems_iff)
      with True q xy(1) show ?thesis by (simp add: rest_def)
    next
      case False
      have "uval (SInt_sub_u64 (CR_UMaxValue s) 1) = uval (CR_UMaxValue s) - 1"
        using y by' d uval_less [of "CR_UMaxValue s"] by (simp add: SInt_ring_sem mod_pos_pos_trivial)
      moreover have "uval x mod uval y \<le> uval x" "uval x mod uval y < uval y" "0 \<le> uval x mod uval y"
        using y uval_nonneg [of x] by (auto intro: zmod_le_nonneg_dividend)
      ultimately have "q \<in> elems ?hull"
        using bx by' q by (intro mem_NonEmpty_unsigned [OF lu])
          (auto simp: same_def CR_Width_def SInt_const_sem SInt_minmax_sem)
      with False q show ?thesis by (simp add: rest_def)
    qed
  qed
  have eq: "CR_URem r s = (if CR_IsEmptySet r \<or> CR_IsEmptySet s \<or> SInt_IsZero (CR_UMaxValue s) then Some (CR_Empty (CR_Width r))
      else if CR_IsSingleElement s then
        (if SInt_IsZero (lower s) then Some (CR_Empty (CR_Width r))
         else if CR_IsSingleElement r then map_option CR_single (SInt_URem (lower r) (lower s)) else Some rest)
      else Some rest)"
    by (simp add: CR_URem_def rest_def CR_GetSingleElement_def Let_def)
  have empty: "uval y = 0" if "y \<in> elems s" "SInt_IsZero (CR_UMaxValue s)" for y
    using CR_UMaxValue_ge [OF d(2) that(1)] that(2) uval_nonneg [of y] by (simp add: SInt_tests_sem)
  consider (e) "CR_IsEmptySet r \<or> CR_IsEmptySet s \<or> SInt_IsZero (CR_UMaxValue s) \<or> CR_IsSingleElement s \<and> SInt_IsZero (lower s)"
    | (s) "\<not> CR_IsEmptySet r" "\<not> CR_IsEmptySet s" "\<not> SInt_IsZero (CR_UMaxValue s)" "CR_IsSingleElement s"
      "\<not> SInt_IsZero (lower s)" "CR_IsSingleElement r"
    | (n) "CR_URem r s = Some rest"
    using eq by metis
  then show ?thesis
  proof cases
    case e
    then have "CR_URem r s = Some (CR_Empty (CR_Width r))" by (auto simp: eq)
    then show ?thesis
    proof (rule that)
      fix x y assume xy: "x \<in> elems r" "y \<in> elems s" "uval y \<noteq> 0"
      then have False using e CR_nonempty d empty single_elem [OF d(2) _ xy(2)] by (auto simp: SInt_tests_sem)
      then show "the (SInt_URem x y) \<in> elems (CR_Empty (CR_Width r))" ..
    qed (simp_all add: CR_Width_def)
  next
    case s
    have lr: "lower r \<in> elems r"
      using s d cr_okD [OF d(1)] modulus_ge [of "width (lower r)"] by (auto simp: elems_iff arc_def CR_tests_sem mod_add_if)
    from s(5) have "uval (lower s) \<noteq> 0" by (simp add: SInt_tests_sem)
    from rem [OF lr this] obtain q where q: "SInt_URem (lower r) (lower s) = Some q" "sint_ok q" "width q = width (lower r)" by auto
    show ?thesis
    proof (rule that)
      show "CR_URem r s = Some (CR_single q)" using s q by (simp add: eq)
      fix x y assume "x \<in> elems r" "y \<in> elems s"
      then have "x = lower r" "y = lower s" using single_elem d s by auto
      then show "the (SInt_URem x y) \<in> elems (CR_single q)" using q CR_single_mem by simp
    qed (use q CR_single_ok in simp_all)
  next
    case n
    from that [OF n rest_ok rest_sound] show ?thesis .
  qed
qed

subsection \<open>Absolute value\<close>

text \<open>The absolute value of a number; that of the least number does not change it.\<close>

definition sint_abs :: "SInt \<Rightarrow> SInt" where
  "sint_abs v = (if SInt_IsNeg v then SInt_Neg v else v)"

lemma sint_abs_sem:
  assumes "sint_ok v"
  shows "sint_ok (sint_abs v)" "width (sint_abs v) = width v" "uval (sint_abs v) = \<bar>sval v\<bar>"
  using assms uval_Neg_abs [OF assms] sval_lt_0 [OF assms]
  by (auto simp: sint_abs_def SInt_sign_tests) (simp add: sval_eq)

lemma uval_of_sval:
  assumes "sint_ok v"
  shows "0 \<le> sval v \<Longrightarrow> uval v = sval v" "sval v < 0 \<Longrightarrow> uval v = sval v + modulus (width v)"
  using assms sval_lt_0 [OF assms] by (auto simp: sval_eq split: if_splits)

lemma SInt_IsPositive_sem: "sint_ok v \<Longrightarrow> SInt_IsPositive v \<longleftrightarrow> 0 < sval v"
  using uval_bounds [of v] by (auto simp: SInt_IsNeg_sem sval_eq modulus_half)

lemma uval_Neg_pos:
  assumes "sint_ok v"
  shows "sval v < 0 \<Longrightarrow> uval (SInt_Neg v) = - sval v" "sval v \<le> 0 \<Longrightarrow> uval (SInt_Neg v) = - sval v"
proof -
  show n: "sval v < 0 \<Longrightarrow> uval (SInt_Neg v) = - sval v"
    using uval_Neg_abs [OF assms] sval_lt_0 [OF assms] by simp
  have "sval v = 0 \<Longrightarrow> uval (SInt_Neg v) = 0"
    using uval_of_sval(1) [OF assms] by (simp add: SInt_Neg_sem)
  with n show "sval v \<le> 0 \<Longrightarrow> uval (SInt_Neg v) = - sval v" by (cases "sval v = 0") auto
qed

text \<open>The shape of a result: unwrapped, within \<open>[0, half]\<close>, covering the absolute values.\<close>

definition abs_spec :: "ConstantRange \<Rightarrow> bool \<Rightarrow> ConstantRange \<Rightarrow> bool" where
  "abs_spec r p t \<longleftrightarrow> cr_ok t \<and> width (lower t) = width (lower r) \<and>
     (\<forall>x \<in> elems r. (p \<longrightarrow> sval x \<noteq> - half (width (lower r))) \<longrightarrow> sint_abs x \<in> elems t) \<and>
     (\<forall>y \<in> elems t. uval y \<le> half (width (lower r)))"

lemma abs_specI:
  assumes "cr_ok r" "same l u" "width l = width (lower r)" "uval l < uval u" "uval u \<le> half (width (lower r)) + 1"
    "\<And>x. x \<in> elems r \<Longrightarrow> p \<longrightarrow> sval x \<noteq> - half (width (lower r)) \<Longrightarrow> uval l \<le> \<bar>sval x\<bar> \<and> \<bar>sval x\<bar> < uval u"
  shows "abs_spec r p (mkCR l u)"
proof -
  have ok: "cr_ok (mkCR l u)" using assms(2,4) by (intro mkCR_ok) auto
  moreover have "sint_abs x \<in> elems (mkCR l u)" if "x \<in> elems r" "p \<longrightarrow> sval x \<noteq> - half (width (lower r))" for x
    using assms(6) [OF that] that assms(1,3,4) sint_abs_sem [of x] ok by (simp add: elems_iff arc_def)
  moreover have "uval y \<le> half (width (lower r))" if "y \<in> elems (mkCR l u)" for y
    using that ok assms(4,5) by (auto simp: elems_iff arc_def split: if_splits)
  ultimately show ?thesis using assms(3) by (simp add: abs_spec_def)
qed

lemma CR_Abs_spec:
  assumes "cr_ok r"
  shows "abs_spec r p (CR_Abs r p)"
proof -
  let ?w = "width (lower r)" and ?h = "half (width (lower r))"
  note d = cr_okD [OF assms] note t = CR_tests_sem [OF assms]
  have h: "128 \<le> ?h" "cmod r = 2 * ?h" using half_ge modulus_half by auto
  have b: "- ?h \<le> slo r" "slo r < ?h" "- ?h \<le> sup r" "sup r < ?h"
    using sval_range [of "lower r"] sval_range [of "upper r"] d by auto
  have xb: "- ?h \<le> sval x" "sval x < ?h" if "x \<in> elems r" for x
    using that assms sval_range [of x] by (auto simp: elems_iff)
  have smin: "sint_ok (SInt_SMinValue ?w)" "uval (SInt_SMinValue ?w) = ?h" "uval (SInt_add_u64 (SInt_SMinValue ?w) 1) = ?h + 1"
    using h by (simp_all add: SInt_signed_const_sem uval_succ)
  consider (e) "CR_IsEmptySet r" | (w) "\<not> CR_IsEmptySet r" "CR_IsSignWrappedSet r"
    | (n) "\<not> CR_IsEmptySet r" "\<not> CR_IsSignWrappedSet r" by blast
  then show ?thesis
  proof cases
    case e
    then show ?thesis using CR_nonempty [OF assms]
      by (auto simp: CR_Abs_def abs_spec_def CR_Width_def elems_Empty)
  next
    case w
    then have wr: "sup r < slo r" "sup r \<noteq> - ?h" by (auto simp: t)
    define l where "l = (if 0 < sup r \<or> \<not> 0 < slo r then SInt_Zero ?w
                  else SInt_UMin (lower r) (SInt_add_u64 (SInt_Neg (upper r)) 1))"
    define u where "u = (if p then SInt_SMinValue ?w else SInt_add_u64 (SInt_SMinValue ?w) 1)"
    have eq: "CR_Abs r p = mkCR l u"
      using w d by (simp add: CR_Abs_def l_def u_def SInt_IsPositive_sem CR_Width_def Let_def)
    have lw: "sint_ok l" "width l = ?w" "sint_ok u" "width u = ?w"
      using d by (auto simp: l_def u_def SInt_minmax_ok)
    have lu: "uval l = (if 0 < sup r \<or> \<not> 0 < slo r then 0 else min (slo r) (- sup r + 1))"
    proof (cases "0 < sup r \<or> \<not> 0 < slo r")
      case False
      then have "uval (SInt_Neg (upper r)) = - sup r" using d uval_Neg_pos(2) [of "upper r"] by simp
      moreover have "- sup r \<noteq> cmod r - 1" using b h by simp
      ultimately have "uval (SInt_add_u64 (SInt_Neg (upper r)) 1) = - sup r + 1"
        using d by (simp add: uval_succ)
      with False show ?thesis using d uval_of_sval(1) [of "lower r"] by (simp add: l_def SInt_minmax_sem)
    qed (auto simp: l_def SInt_const_sem)
    have uu: "uval u = (if p then ?h else ?h + 1)" using smin by (simp add: u_def)
    show ?thesis unfolding eq
    proof (rule abs_specI [OF assms _ lw(2)])
      show "same l u" using lw by (simp add: same_def)
      show "uval l < uval u" "uval u \<le> ?h + 1" using lu uu b h by auto
      fix x assume x: "x \<in> elems r" "p \<longrightarrow> sval x \<noteq> - ?h"
      have "slo r \<le> sval x \<or> sval x < sup r" using x(1) assms wr by (auto simp: elems_signed split: if_splits)
      then show "uval l \<le> \<bar>sval x\<bar> \<and> \<bar>sval x\<bar> < uval u"
        using x(2) xb [OF x(1)] wr lu uu b by (auto simp: min_def abs_if)
    qed
  next
    case n
    define mn where "mn = sval (CR_SMinValue r)" define mx where "mx = sval (CR_SMaxValue r)"
    have ok: "sint_ok (CR_SMinValue r)" "width (CR_SMinValue r) = ?w" "sint_ok (CR_SMaxValue r)" "width (CR_SMaxValue r) = ?w"
      using assms by simp_all
    have mb: "- ?h \<le> mn" "mn < ?h" "- ?h \<le> mx" "mx < ?h"
      using sval_range [OF ok(1)] sval_range [OF ok(3)] ok by (simp_all add: mn_def mx_def)
    have x: "mn \<le> sval x" "sval x \<le> mx" if "x \<in> elems r" for x
      using CR_SMinValue_le [OF assms that] CR_SMaxValue_ge [OF assms that] by (simp_all add: mn_def mx_def)
    have mem: "mn \<le> mx" using x(2) CR_SMinMax_mem(1) [OF assms n(1)] by (simp add: mn_def)
    define m' where "m' = (if p \<and> SInt_IsSMinValue (CR_SMinValue r) then SInt_inc (CR_SMinValue r) else CR_SMinValue r)"
    have inc: "SInt_inc v = SInt_add_u64 v 1" for v by (simp add: SInt_eq_iff SInt_ring_sem)
    have m'w: "sint_ok m'" "width m' = ?w" using ok by (auto simp: m'_def)
    have m': "sval m' = (if p \<and> mn = - ?h then mn + 1 else mn)"
      using ok h sval_succ [OF ok(1)] by (auto simp: m'_def mn_def sval_const_tests inc)
    have x': "sval m' \<le> sval x" if "x \<in> elems r" "p \<longrightarrow> sval x \<noteq> - ?h" for x
      using x(1) [OF that(1)] that(2) m' by auto
    have eq: "CR_Abs r p = (if p \<and> mn = - ?h \<and> mx = - ?h then CR_Empty ?w
        else if 0 \<le> sval m' then r
        else if mx < 0 then mkCR (SInt_Neg (CR_SMaxValue r)) (SInt_add_u64 (SInt_Neg m') 1)
        else mkCR (SInt_Zero ?w) (SInt_add_u64 (SInt_UMax (SInt_Neg m') (CR_SMaxValue r)) 1))"
    proof -
      have "CR_Abs r p = (if p \<and> SInt_IsSMinValue (CR_SMinValue r) \<and> SInt_IsSMinValue (CR_SMaxValue r)
        then CR_Empty (CR_Width r)
        else if SInt_IsNonNeg m' then r
        else if SInt_IsNeg (CR_SMaxValue r) then mkCR (SInt_Neg (CR_SMaxValue r)) (SInt_add_u64 (SInt_Neg m') 1)
        else mkCR (SInt_Zero (CR_Width r)) (SInt_add_u64 (SInt_UMax (SInt_Neg m') (CR_SMaxValue r)) 1))"
        unfolding CR_Abs_def Let_def m'_def [symmetric] using n by (simp only: if_False)
      then show ?thesis
        by (simp only: sval_const_tests [OF ok(1)] sval_const_tests [OF ok(3)] SInt_sign_tests [OF m'w(1)]
            SInt_sign_tests [OF ok(3)] CR_Width_def mn_def [symmetric] mx_def [symmetric] ok(2,4))
    qed
    consider (a) "p" "mn = - ?h" "mx = - ?h" | (b) "\<not> (p \<and> mn = - ?h \<and> mx = - ?h)" "0 \<le> sval m'"
      | (c) "\<not> (p \<and> mn = - ?h \<and> mx = - ?h)" "sval m' < 0" "mx < 0"
      | (e) "\<not> (p \<and> mn = - ?h \<and> mx = - ?h)" "sval m' < 0" "0 \<le> mx" by linarith
    then show ?thesis
    proof cases
      case a
      then have "sval x = - ?h" if "x \<in> elems r" for x using x [OF that] by simp
      moreover from a have "CR_Abs r p = CR_Empty ?w" unfolding eq by simp
      ultimately show ?thesis using a(1) by (simp add: abs_spec_def elems_Empty)
    next
      case b
      then have "0 \<le> mn" using m' h by (auto split: if_splits)
      then have "sint_abs y = y \<and> uval y < ?h" if "y \<in> elems r" for y
        using x(1) [OF that] that assms xb [OF that] uval_of_sval(1) [of y]
        by (auto simp: sint_abs_def SInt_sign_tests elems_iff)
      then have "abs_spec r p r" using assms by (auto simp: abs_spec_def less_imp_le)
      moreover from b have "CR_Abs r p = r" unfolding eq by auto
      ultimately show ?thesis by simp
    next
      case c
      have l: "uval (SInt_Neg (CR_SMaxValue r)) = - mx" using uval_Neg_pos(1) [OF ok(3)] c by (simp add: mx_def)
      have "uval (SInt_Neg m') = - sval m'" using uval_Neg_pos(1) [OF m'w(1)] c by simp
      then have u: "uval (SInt_add_u64 (SInt_Neg m') 1) = - sval m' + 1"
        using m'w mb m' h by (simp add: uval_succ split: if_splits)
      have mm: "sval m' \<le> mx" using c mem m' mb by (auto split: if_splits)
      have "abs_spec r p (mkCR (SInt_Neg (CR_SMaxValue r)) (SInt_add_u64 (SInt_Neg m') 1))"
      proof (rule abs_specI [OF assms])
        fix y assume y: "y \<in> elems r" "p \<longrightarrow> sval y \<noteq> - ?h"
        show "uval (SInt_Neg (CR_SMaxValue r)) \<le> \<bar>sval y\<bar> \<and> \<bar>sval y\<bar> < uval (SInt_add_u64 (SInt_Neg m') 1)"
          unfolding l u using x [OF y(1)] x' [OF y] c by simp
      qed (use l u mm m' mb ok m'w in \<open>auto simp: same_def split: if_splits\<close>)
      moreover from c have "CR_Abs r p = mkCR (SInt_Neg (CR_SMaxValue r)) (SInt_add_u64 (SInt_Neg m') 1)"
        unfolding eq by auto
      ultimately show ?thesis by simp
    next
      case e
      have nm: "uval (SInt_Neg m') = - sval m'" using uval_Neg_pos(1) [OF m'w(1)] e by simp
      have ux: "uval (CR_SMaxValue r) = mx" using uval_of_sval(1) [OF ok(3)] e by (simp add: mx_def)
      let ?u = "SInt_UMax (SInt_Neg m') (CR_SMaxValue r)"
      have uw: "sint_ok ?u" "width ?u = ?w" using ok m'w by (simp_all add: SInt_minmax_ok)
      have "uval ?u = max (- sval m') mx" by (simp add: SInt_minmax_sem nm ux)
      then have u: "uval (SInt_add_u64 ?u 1) = max (- sval m') mx + 1"
        using uw mb m' h by (auto simp: uval_succ max_def split: if_splits)
      have "abs_spec r p (mkCR (SInt_Zero ?w) (SInt_add_u64 ?u 1))"
      proof (rule abs_specI [OF assms])
        fix y assume y: "y \<in> elems r" "p \<longrightarrow> sval y \<noteq> - ?h"
        show "uval (SInt_Zero ?w) \<le> \<bar>sval y\<bar> \<and> \<bar>sval y\<bar> < uval (SInt_add_u64 ?u 1)"
          unfolding u using x [OF y(1)] x' [OF y] e by (auto simp: SInt_const_sem abs_if)
      qed (use u m' mb uw e in \<open>auto simp: same_def SInt_const_sem split: if_splits\<close>)
      moreover from e have "CR_Abs r p = mkCR (SInt_Zero ?w) (SInt_add_u64 ?u 1)"
        unfolding eq by auto
      ultimately show ?thesis by simp
    qed
  qed
qed

subsection \<open>Signed remainder\<close>

lemma smod_bounds:
  fixes x y :: int
  assumes "y \<noteq> 0"
  shows "0 \<le> x \<Longrightarrow> 0 \<le> x smod y \<and> x smod y \<le> x \<and> x smod y < \<bar>y\<bar>"
    "x \<le> 0 \<Longrightarrow> x \<le> x smod y \<and> x smod y \<le> 0 \<and> - \<bar>y\<bar> < x smod y"
    "\<bar>x\<bar> < \<bar>y\<bar> \<Longrightarrow> x smod y = x"
proof -
  have m: "0 \<le> \<bar>x\<bar> mod \<bar>y\<bar>" "\<bar>x\<bar> mod \<bar>y\<bar> < \<bar>y\<bar>" "\<bar>x\<bar> mod \<bar>y\<bar> \<le> \<bar>x\<bar>"
    using assms by (auto intro: zmod_le_nonneg_dividend)
  show "0 \<le> x \<Longrightarrow> 0 \<le> x smod y \<and> x smod y \<le> x \<and> x smod y < \<bar>y\<bar>"
    "x \<le> 0 \<Longrightarrow> x \<le> x smod y \<and> x smod y \<le> 0 \<and> - \<bar>y\<bar> < x smod y"
    using m assms by (cases "x = 0"; auto simp: signed_modulo_int_def sgn_if)+
  show "\<bar>x\<bar> < \<bar>y\<bar> \<Longrightarrow> x smod y = x" by (auto simp: signed_modulo_int_def sgn_if)
qed

lemma SInt_SRem_sval:
  assumes "same x y" "uval y \<noteq> 0"
  shows "\<exists>q. SInt_SRem x y = Some q \<and> sint_ok q \<and> width q = width x \<and> sval q = sval x smod sval y"
proof -
  note ok = sameD [OF assms(1)]
  obtain q where q: "SInt_SRem x y = Some q" "sint_ok q" "width q = width x" "uval q = (sval x smod sval y) mod modulus (width x)"
    using SInt_SRem_sem [OF assms] by blast
  have "sval y \<noteq> 0" using sval_0_iff [OF ok(2)] assms(2) by simp
  then have "srange (width q) (sval x smod sval y)"
    using smod_bounds [of "sval y" "sval x"] sval_range [OF ok(1)] q(3)
    by (cases "0 \<le> sval x") (auto simp: srange_def)
  then have "sval q = sval x smod sval y" using q by (intro sval_mkmod) simp_all
  with q show ?thesis by blast
qed

lemma mkCR_signed_mem:
  assumes "same l u" "sval l < sval u" "same l v" "sval l \<le> sval v" "sval v < sval u"
  shows "v \<in> elems (mkCR l u)"
proof -
  have "cr_ok (mkCR l u)" using assms(1,2) sval_inj [of l u] by (intro mkCR_ok) (auto simp: same_def)
  then show ?thesis using assms by (auto simp: elems_signed same_def)
qed

lemma sval_nonneg_eq: "sint_ok v \<Longrightarrow> uval v < half (width v) \<Longrightarrow> sval v = uval v"
  by (simp add: sval_eq)

text \<open>The part of \<open>SRem\<close> after its special cases.\<close>

definition srem_rest :: "ConstantRange \<Rightarrow> SInt \<Rightarrow> SInt \<Rightarrow> ConstantRange" where
  "srem_rest r minAbsRhs maxAbsRhs =
     (let minLhs = CR_SMinValue r; maxLhs = CR_SMaxValue r in
      if SInt_IsZero maxAbsRhs then CR_Empty (CR_Width r)
             else if SInt_IsNonNeg minLhs then
               (if SInt_Ult maxLhs minAbsRhs then r
                else mkCR (SInt_Zero (CR_Width r))
                       (SInt_add_u64 (SInt_UMin maxLhs (SInt_sub_u64 maxAbsRhs 1)) 1))
             else if SInt_IsNeg maxLhs then
               (if SInt_Ugt minLhs (SInt_Neg minAbsRhs) then r
                else mkCR (SInt_UMax minLhs (SInt_add_u64 (SInt_Neg maxAbsRhs) 1))
                       (mkSInt (CR_Width r) 1))
             else mkCR (SInt_UMax minLhs (SInt_add_u64 (SInt_Neg maxAbsRhs) 1))
                    (SInt_add_u64 (SInt_UMin maxLhs (SInt_sub_u64 maxAbsRhs 1)) 1))"

lemma srem_rest_sound:
  assumes r: "cr_ok r" "\<not> CR_IsEmptySet r" and w: "w = width (lower r)"
    and mn: "sint_ok mn" "width mn = w" "0 < uval mn" "uval mn \<le> half w"
    and mx: "sint_ok mx" "width mx = w" "uval mx \<le> half w" "uval mx = 0 \<or> uval mn \<le> uval mx"
  shows "cr_ok (srem_rest r mn mx)" "width (lower (srem_rest r mn mx)) = w"
    "x \<in> elems r \<Longrightarrow> sint_ok q \<Longrightarrow> width q = w \<Longrightarrow> sval q = sval x smod y \<Longrightarrow> y \<noteq> 0 \<Longrightarrow>
      uval mn \<le> \<bar>y\<bar> \<Longrightarrow> \<bar>y\<bar> \<le> uval mx \<Longrightarrow> q \<in> elems (srem_rest r mn mx)"
proof -
  have h: "128 \<le> half w" "modulus w = 2 * half w" using half_ge modulus_half by auto
  let ?a = "CR_SMinValue r" and ?b = "CR_SMaxValue r"
  have ab: "sint_ok ?a" "width ?a = w" "sint_ok ?b" "width ?b = w" using r w by simp_all
  have rg: "- half w \<le> sval ?a" "sval ?a < half w" "- half w \<le> sval ?b" "sval ?b < half w"
    using sval_range [OF ab(1)] sval_range [OF ab(3)] ab by auto
  have le: "sval ?a \<le> sval ?b" using CR_SMaxValue_ge [OF r(1) CR_SMinMax_mem(1) [OF r]] .
  let ?u = "SInt_add_u64 (SInt_UMin ?b (SInt_sub_u64 mx 1)) 1"
  let ?l = "SInt_UMax ?a (SInt_add_u64 (SInt_Neg mx) 1)"
  have uw: "sint_ok ?u" "width ?u = w" "sint_ok ?l" "width ?l = w"
    using ab mx by (simp_all add: SInt_minmax_ok)
  have u: "uval ?u = min (sval ?b) (uval mx - 1) + 1" if "0 < uval mx" "0 \<le> sval ?b"
  proof -
    have "uval (SInt_sub_u64 mx 1) = uval mx - 1"
      using that mx uval_less [OF mx(1)] by (simp add: SInt_ring_sem mod_pos_pos_trivial)
    moreover have "uval ?b = sval ?b" using uval_of_sval(1) [OF ab(3)] that by simp
    ultimately have m: "uval (SInt_UMin ?b (SInt_sub_u64 mx 1)) = min (sval ?b) (uval mx - 1)"
      by (simp add: SInt_minmax_sem)
    have "sint_ok (SInt_UMin ?b (SInt_sub_u64 mx 1))" "width (SInt_UMin ?b (SInt_sub_u64 mx 1)) = w"
      using ab mx by (simp_all add: SInt_minmax_ok)
    then show ?thesis using m rg that h by (simp add: uval_succ min_def split: if_splits)
  qed
  have l: "sval ?l = (if uval mx = 1 then sval ?a else max (sval ?a) (- (uval mx - 1)))" if "0 < uval mx" "sval ?a < 0"
  proof -
    have "uval (SInt_Neg mx) = modulus w - uval mx" using that mx uval_less [OF mx(1)] by (simp add: SInt_Neg_sem mod_minus_if)
    then have n: "uval (SInt_add_u64 (SInt_Neg mx) 1) = (if uval mx = 1 then 0 else modulus w - uval mx + 1)"
      using mx that by (auto simp: uval_succ)
    have a: "uval ?a = sval ?a + modulus w" using uval_of_sval(2) [OF ab(1)] that ab by simp
    have "uval ?l = (if uval mx = 1 then sval ?a + modulus w else max (sval ?a) (- (uval mx - 1)) + modulus w)"
      using n a rg h by (auto simp: SInt_minmax_sem)
    moreover have "half w \<le> uval ?l" using calculation rg h mx that by (auto split: if_splits)
    ultimately show ?thesis using uw by (auto simp: sval_eq)
  qed
  have one: "sint_ok (mkSInt w 1)" "sval (mkSInt w 1) = 1" using h by (simp_all add: sval_eq mkSInt_uval)
  have zero: "sval (SInt_Zero w) = 0" using h by (simp add: sval_eq SInt_const_sem)
  have eq: "srem_rest r mn mx = (if uval mx = 0 then CR_Empty w
      else if 0 \<le> sval ?a then (if sval ?b < uval mn then r else mkCR (SInt_Zero w) ?u)
      else if sval ?b < 0 then (if - uval mn < sval ?a then r else mkCR ?l (mkSInt w 1))
      else mkCR ?l ?u)"
  proof -
    have "uval ?b < uval mn \<longleftrightarrow> sval ?b < uval mn" if "0 \<le> sval ?a" using that le uval_of_sval(1) [OF ab(3)] by simp
    moreover have "uval (SInt_Neg mn) < uval ?a \<longleftrightarrow> - uval mn < sval ?a" if "\<not> 0 \<le> sval ?a"
      using that mn ab uval_less [OF mn(1)] uval_of_sval(2) [OF ab(1)] by (simp add: SInt_Neg_sem mod_minus_if)
    ultimately show ?thesis
      using ab by (simp add: srem_rest_def Let_def SInt_tests_sem(1) SInt_sign_tests SInt_Ult_sem SInt_Ugt_sem CR_Width_def w)
  qed
  have usv: "sval ?u = min (sval ?b) (uval mx - 1) + 1 \<or> half w = uval ?u \<and> min (sval ?b) (uval mx - 1) + 1 = half w"
    if "0 < uval mx" "0 \<le> sval ?b"
    using u [OF that] uw rg mx by (auto simp: sval_eq min_def split: if_splits)
  have ok1: "cr_ok (mkCR (SInt_Zero w) ?u)" if "0 < uval mx" "0 \<le> sval ?b"
    using u [OF that] that uw by (intro mkCR_ok) (auto simp: same_def SInt_const_sem)
  have ok2: "cr_ok (mkCR ?l (mkSInt w 1))" if "0 < uval mx" "sval ?a < 0"
    using l [OF that] that uw one mx rg uval_of_sval(2) [OF uw(3)] h
    by (intro mkCR_ok) (auto simp: same_def mkSInt_uval split: if_splits)
  have neg: "sval ?l < 0" if "0 < uval mx" "sval ?a < 0" using l [OF that] that by (auto split: if_splits)
  have ne3: "uval ?l \<noteq> uval ?u" if "0 < uval mx" "sval ?a < 0" "0 \<le> sval ?b"
  proof -
    have "uval ?l = sval ?l + modulus w" using uval_of_sval(2) [OF uw(3)] neg that uw by simp
    then show ?thesis using l [OF that(1,2)] u [OF that(1,3)] h rg mx by (auto split: if_splits)
  qed
  have ok3: "cr_ok (mkCR ?l ?u)" if "0 < uval mx" "sval ?a < 0" "0 \<le> sval ?b"
    using ne3 [OF that] uw by (intro mkCR_ok) (simp_all add: same_def)
  have mx0: "0 < uval mx" if "uval mx \<noteq> 0" using that uval_nonneg [of mx] by simp
  show "cr_ok (srem_rest r mn mx)" "width (lower (srem_rest r mn mx)) = w"
    using r(1) w uw ok1 ok2 ok3 mx0 le by (auto simp: eq)
  assume x: "x \<in> elems r" and q: "sint_ok q" "width q = w" "sval q = sval x smod y" and y: "y \<noteq> 0" "uval mn \<le> \<bar>y\<bar>" "\<bar>y\<bar> \<le> uval mx"
  have xb: "sval ?a \<le> sval x" "sval x \<le> sval ?b"
    using CR_SMinValue_le [OF r(1) x] CR_SMaxValue_ge [OF r(1) x] by auto
  have xr: "sint_ok x" "width x = w" using x r w by (simp_all add: elems_iff)
  have mxp: "0 < uval mx" using y by linarith
  note sb = smod_bounds [OF y(1), of "sval x"]
  have idq: "q = x" if "\<bar>sval x\<bar> < \<bar>y\<bar>"
    using sb(3) [OF that] q xr sval_inj [of q x] by (simp add: SInt_eq_iff)
  show "q \<in> elems (srem_rest r mn mx)"
  proof (cases "0 \<le> sval ?a")
    case True
    then have x0: "0 \<le> sval x" using xb by simp
    show ?thesis
    proof (cases "sval ?b < uval mn")
      case T2: True
      then have "q = x" using idq x0 xb y by simp
      with True T2 x mxp show ?thesis by (simp add: eq)
    next
      case False
      have "uval q = sval q" using sb(1) [OF x0] q uval_of_sval(1) [of q] by simp
      then have "q \<in> elems (mkCR (SInt_Zero w) ?u)"
        using ok1 [OF mxp] True le sb(1) [OF x0] q u [OF mxp] xb y by (simp add: elems_iff arc_def SInt_const_sem)
      with True False mxp show ?thesis by (simp add: eq)
    qed
  next
    case F: False
    then have a0: "sval ?a < 0" by simp
    show ?thesis
    proof (cases "sval ?b < 0")
      case True
      then have x0: "sval x \<le> 0" using xb by simp
      show ?thesis
      proof (cases "- uval mn < sval ?a")
        case T2: True
        then have "q = x" using idq x0 xb y by simp
        with True F T2 x mxp show ?thesis by (simp add: eq)
      next
        case F2: False
        have "q \<in> elems (mkCR ?l (mkSInt w 1))"
          using one uw q l [OF mxp a0] neg [OF mxp a0] sb(2) [OF x0] xb y by (intro mkCR_signed_mem) (auto simp: same_def)
        with True F F2 mxp show ?thesis by (simp add: eq)
      qed
    next
      case F2: False
      then have b0: "0 \<le> sval ?b" by simp
      have lq: "sval ?l \<le> sval q"
        using l [OF mxp a0] sb xb y q a0 by (cases "0 \<le> sval x") (auto split: if_splits)
      have qu: "sval q \<le> min (sval ?b) (uval mx - 1)"
        using sb xb y q b0 by (cases "0 \<le> sval x") auto
      have "q \<in> elems (mkCR ?l ?u)"
      proof (cases "sval ?u = min (sval ?b) (uval mx - 1) + 1")
        case True
        then show ?thesis using uw q lq qu neg [OF mxp a0] b0 mxp
          by (intro mkCR_signed_mem) (auto simp: same_def)
      next
        case False
        then have "uval ?u = half w" using usv [OF mxp b0] by auto
        then have "sval ?u = - half w" using uw h by (simp add: sval_eq)
        moreover have "sval ?l \<noteq> sval ?u" using ne3 [OF mxp a0 b0] sval_inj [OF uw(3,1)] uw by simp
        moreover have "- half w \<le> sval ?l" using sval_range [OF uw(3)] uw by simp
        ultimately show ?thesis using lq q uw by (simp add: elems_signed [OF ok3 [OF mxp a0 b0]])
      qed
      with F F2 mxp show ?thesis by (simp add: eq)
    qed
  qed
qed


lemma CR_SRem_ok_sound:
  assumes "cr_same r s"
  obtains t where "CR_SRem r s = Some t" "cr_ok t" "width (lower t) = width (lower r)"
    "\<And>x y. x \<in> elems r \<Longrightarrow> y \<in> elems s \<Longrightarrow> uval y \<noteq> 0 \<Longrightarrow> the (SInt_SRem x y) \<in> elems t"
proof -
  note d = cr_sameD [OF assms]
  let ?w = "width (lower r)"
  define ab where "ab = CR_Abs s False"
  have ab: "cr_ok ab" "width (lower ab) = ?w" "\<And>y. y \<in> elems s \<Longrightarrow> sint_abs y \<in> elems ab"
    "\<And>y. y \<in> elems ab \<Longrightarrow> uval y \<le> half ?w"
    using CR_Abs_spec [OF d(2), of False] d(3) by (auto simp: abs_spec_def ab_def)
  define mx where "mx = CR_UMaxValue ab"
  define mn where "mn = (if SInt_IsZero (CR_UMinValue ab) then SInt_inc (CR_UMinValue ab) else CR_UMinValue ab)"
  have eq: "CR_SRem r s = (if CR_IsEmptySet r \<or> CR_IsEmptySet s then Some (CR_Empty (CR_Width r))
      else if CR_IsSingleElement s then
        (if SInt_IsZero (lower s) then Some (CR_Empty (CR_Width r))
         else if CR_IsSingleElement r then map_option CR_single (SInt_SRem (lower r) (lower s))
         else Some (srem_rest r mn mx))
      else Some (srem_rest r mn mx))"
    unfolding CR_SRem_def Let_def CR_GetSingleElement_def srem_rest_def mx_def mn_def ab_def by (rule refl)
  consider (e) "CR_IsEmptySet r \<or> CR_IsEmptySet s \<or> CR_IsSingleElement s \<and> SInt_IsZero (lower s)"
    | (s) "\<not> CR_IsEmptySet r" "\<not> CR_IsEmptySet s" "CR_IsSingleElement s"
      "\<not> SInt_IsZero (lower s)" "CR_IsSingleElement r"
    | (n) "\<not> CR_IsEmptySet r" "\<not> CR_IsEmptySet s" "CR_SRem r s = Some (srem_rest r mn mx)"
    using eq by metis
  then show ?thesis
  proof cases
    case e
    then have "CR_SRem r s = Some (CR_Empty (CR_Width r))" by (auto simp: eq)
    then show ?thesis
    proof (rule that)
      fix x y assume xy: "x \<in> elems r" "y \<in> elems s" "uval y \<noteq> 0"
      then have False using e CR_nonempty d single_elem [OF d(2) _ xy(2)] by (auto simp: SInt_tests_sem)
      then show "the (SInt_SRem x y) \<in> elems (CR_Empty (CR_Width r))" ..
    qed (simp_all add: CR_Width_def)
  next
    case s
    from s(4) have "uval (lower s) \<noteq> 0" by (simp add: SInt_tests_sem)
    then obtain q where q: "SInt_SRem (lower r) (lower s) = Some q" "sint_ok q" "width q = ?w"
      using SInt_SRem_sval [of "lower r" "lower s"] d cr_okD(1) [OF d(1)] cr_okD(1) [OF d(2)] by (auto simp: same_def)
    show ?thesis
    proof (rule that)
      show "CR_SRem r s = Some (CR_single q)" using s q by (simp add: eq)
      fix x y assume "x \<in> elems r" "y \<in> elems s"
      then have "x = lower r" "y = lower s" using single_elem d s by auto
      then show "the (SInt_SRem x y) \<in> elems (CR_single q)" using q CR_single_mem by simp
    qed (use q CR_single_ok in simp_all)
  next
    case n
    have ane: "\<not> CR_IsEmptySet ab"
      using ab(3) [OF CR_UMinMax_mem(1) [OF d(2) n(2)]] CR_nonempty [OF ab(1)] by blast
    have mx: "sint_ok mx" "width mx = ?w" "uval mx \<le> half ?w"
      using ab(1,2) ab(4) [OF CR_UMinMax_mem(2) [OF ab(1) ane]] by (simp_all add: mx_def)
    have mn0: "uval mn = (if uval (CR_UMinValue ab) = 0 then 1 else uval (CR_UMinValue ab))"
      using modulus_ge [of ?w] ab by (simp add: mn_def SInt_tests_sem SInt_ring_sem)
    have mn: "sint_ok mn" "width mn = ?w" "0 < uval mn" "uval mn \<le> half ?w" "uval mx = 0 \<or> uval mn \<le> uval mx"
      using mn0 ab(1,2) uval_nonneg [of "CR_UMinValue ab"] half_ge [of ?w] uval_nonneg [of mx]
        ab(4) [OF CR_UMinMax_mem(1) [OF ab(1) ane]] CR_UMaxValue_ge [OF ab(1) CR_UMinMax_mem(1) [OF ab(1) ane]]
      by (auto simp: mn_def mx_def)
    note rs = srem_rest_sound [OF d(1) n(1) refl mn(1-4) mx mn(5)]
    show ?thesis
    proof (rule that [OF n(3) rs(1,2)])
      fix x y assume xy: "x \<in> elems r" "y \<in> elems s" "uval y \<noteq> 0"
      have ok: "same x y" "width x = ?w" "sint_ok y" using xy d by (simp_all add: elems_iff same_def)
      obtain q where q: "SInt_SRem x y = Some q" "sint_ok q" "width q = ?w" "sval q = sval x smod sval y"
        using SInt_SRem_sval [OF ok(1) xy(3)] ok(2) by auto
      have a: "uval (sint_abs y) = \<bar>sval y\<bar>" using sint_abs_sem [OF ok(3)] by simp
      have y0: "sval y \<noteq> 0" using sval_0_iff [OF ok(3)] xy(3) by simp
      have "uval mn \<le> \<bar>sval y\<bar>" "\<bar>sval y\<bar> \<le> uval mx"
        using CR_UMinValue_le [OF ab(1) ab(3) [OF xy(2)]] CR_UMaxValue_ge [OF ab(1) ab(3) [OF xy(2)]] a mn0 y0
        by (auto simp: mx_def)
      then show "the (SInt_SRem x y) \<in> elems (srem_rest r mn mx)"
        using rs(3) [OF xy(1) q(2-4) y0] q(1) by simp
    qed
  qed
qed

end
