(* ===== verification/RangeSDiv.thy ===== *)
theory RangeSDiv
  imports RangeDiv
begin

section \<open>Soundness of signed division of ranges\<close>

text \<open>
  \<open>SDivImpl\<close> splits both operands by sign and divides quadrant by quadrant. Its parameter
  \<open>div\<close> is the locale \<open>signed_div\<close>, interpreted with \<open>SInt::SDiv\<close> and \<open>SInt::SDivSat\<close>.
\<close>

subsection \<open>Intersection with one of the halves\<close>

text \<open>
  The operands of a signed division are split by sign. An intersection that is no range
  has operands that cover everything, so the smaller one, the filter, is returned.
\<close>

definition inter_small :: "ConstantRange \<Rightarrow> ConstantRange \<Rightarrow> ConstantRange \<Rightarrow> bool" where
  "inter_small r s t \<longleftrightarrow> elems t = elems r \<inter> elems s \<or>
     (t = r \<or> t = s) \<and> csize t = min (csize r) (csize s) \<and> cmod r < csize r + csize s"

lemma inter_small_sym: "inter_small s r t \<Longrightarrow> cr_same r s \<Longrightarrow> inter_small r s t"
  by (auto simp: inter_small_def cr_same_def)

lemma inter_small_preferred:
  assumes "cr_same r s" "cmod r < csize r + csize s"
  shows "inter_small r s (GetPreferredRange r s Smallest)"
  using assms(2) CR_IsSizeStrictlySmallerThan_sem [OF assms(1)]
  by (auto simp: inter_small_def GetPreferredRange_def Let_def)

lemma inter_smallI:
  assumes "cr_same r s" "cr_ok t" "width (lower t) = width (lower r)"
    "\<And>x. 0 \<le> x \<Longrightarrow> x < cmod r \<Longrightarrow> arc (lo t) (up t) x \<longleftrightarrow> arc (lo r) (up r) x \<and> arc (lo s) (up s) x"
  shows "inter_small r s t"
proof -
  note d = cr_sameD [OF assms(1)]
  have "elems t = elems r \<inter> elems s"
  proof (rule set_eqI)
    fix v show "v \<in> elems t \<longleftrightarrow> v \<in> elems r \<inter> elems s"
      using assms(2-4) d uval_less [of v] uval_nonneg [of v] by (auto simp: elems_iff)
  qed
  then show ?thesis by (simp add: inter_small_def)
qed

lemma inter_small_wrapped:
  assumes "cr_same r s" "up r < lo r" "up s < lo s"
  shows "inter_small r s (CR_IntersectBothWrapped r s Smallest)"
proof -
  note d = cr_sameD [OF assms(1)]
  note b = cr_okD(1-7) [OF d(1)] cr_okD(1-7) [OF d(2)]
  have sz: "csize r = up r - lo r + cmod r" "csize s = up s - lo s + cmod r"
    using assms(2,3) b d(3) by (simp_all add: csize_def mod_sub_if)
  have 1: "inter_small r s (mkCR (lower r) (upper s))" if "up s < up r" "\<not> lo s < up r" "lo s < lo r"
    using that assms b d(3) by (intro inter_smallI mkCR_ok) (auto simp: arc_def same_def)
  have 2: "inter_small r s (mkCR (lower s) (upper r))" if "\<not> up s < up r" "up s \<le> lo r" "\<not> lo s < lo r"
    using that assms b d(3) by (intro inter_smallI mkCR_ok) (auto simp: arc_def same_def)
  have 3: "inter_small r s s" if "up s < up r" "\<not> lo s < lo r"
    using that assms b d(3) by (intro inter_smallI d) (auto simp: arc_def same_def)
  have 4: "inter_small r s r" if "\<not> up s < up r" "lo s < lo r" "up s \<le> lo r"
    using that assms b d(3) by (intro inter_smallI d) (auto simp: arc_def same_def)
  have 5: "inter_small r s (GetPreferredRange r s Smallest)" if "up s < up r \<and> lo s < up r \<or> \<not> up s \<le> lo r"
    using that assms b d(3) sz by (intro inter_small_preferred) auto
  show ?thesis
    unfolding CR_IntersectBothWrapped_def SInt_Ult_sem SInt_Ule_sem
    using 1 2 3 4 5 by (simp split: if_split)
qed

lemma inter_small_mixed:
  assumes "cr_same r s" "up r < lo r" "lo s < up s"
  shows "inter_small r s (CR_IntersectWrappedWithUnwrapped r s Smallest)"
proof -
  note d = cr_sameD [OF assms(1)]
  note b = cr_okD(1-7) [OF d(1)] cr_okD(1-7) [OF d(2)]
  have sz: "csize r = up r - lo r + cmod r" "csize s = up s - lo s"
    using assms(2,3) b d(3) by (simp_all add: csize_def mod_sub_if)
  have 1: "inter_small r s (mkCR (lower s) (upper r))" if "lo s < up r" "\<not> up s < up r" "up s \<le> lo r"
    using that assms b d(3) by (intro inter_smallI mkCR_ok) (auto simp: arc_def same_def)
  have 2: "inter_small r s (CR_Empty (CR_Width r))" if "\<not> lo s < up r" "lo s < lo r" "up s \<le> lo r"
    using that assms b d(3) by (intro inter_smallI) (auto simp: arc_def CR_Width_def SInt_const_sem)
  have 3: "inter_small r s (mkCR (lower r) (upper s))" if "\<not> lo s < up r" "lo s < lo r" "\<not> up s \<le> lo r"
    using that assms b d(3) by (intro inter_smallI mkCR_ok) (auto simp: arc_def same_def)
  have 4: "inter_small r s s" if "up s < up r \<or> \<not> lo s < lo r"
    using that assms b d(3) by (intro inter_smallI d) (auto simp: arc_def same_def)
  have 5: "inter_small r s (GetPreferredRange r s Smallest)" if "lo s < up r" "\<not> up s \<le> lo r"
    using that assms b d(3) sz by (intro inter_small_preferred) auto
  show ?thesis
    unfolding CR_IntersectWrappedWithUnwrapped_def SInt_Ult_sem SInt_Ule_sem
    using 1 2 3 4 5 assms by (simp split: if_split)
qed

lemma inter_small_unwrapped:
  assumes "cr_same r s" "lo r < up r" "lo s < up s"
  shows "inter_small r s (CR_IntersectBothUnwrapped r s)"
proof -
  note d = cr_sameD [OF assms(1)]
  note b = cr_okD(1-7) [OF d(1)] cr_okD(1-7) [OF d(2)]
  have 1: "inter_small r s (CR_Empty (CR_Width r))" if "up r \<le> lo s \<or> up s \<le> lo r"
    using that assms b d(3) by (intro inter_smallI) (auto simp: arc_def CR_Width_def SInt_const_sem)
  have 2: "inter_small r s (mkCR (lower s) (upper r))" if "lo r < lo s" "\<not> up r \<le> lo s" "up r < up s"
    using that assms b d(3) by (intro inter_smallI mkCR_ok) (auto simp: arc_def same_def)
  have 3: "inter_small r s (mkCR (lower r) (upper s))" if "\<not> lo r < lo s" "\<not> up s \<le> lo r" "up s < up r"
    using that assms b d(3) by (intro inter_smallI mkCR_ok) (auto simp: arc_def same_def)
  have 4: "inter_small r s s" if "lo r < lo s" "\<not> up r < up s"
    using that assms b d(3) by (intro inter_smallI d) (auto simp: arc_def same_def)
  have 5: "inter_small r s r" if "\<not> lo r < lo s" "\<not> up s < up r"
    using that assms b d(3) by (intro inter_smallI d) (auto simp: arc_def same_def)
  show ?thesis
    unfolding CR_IntersectBothUnwrapped_def SInt_Ult_sem SInt_Ule_sem
    using 1 2 3 4 5 by (simp split: if_split)
qed

lemma CR_IntersectWith_trivial:
  assumes "CR_IsEmptySet r \<or> CR_IsFullSet s \<or> CR_IsEmptySet s \<or> CR_IsFullSet r"
  shows "CR_IntersectWith r s t = (if CR_IsEmptySet r \<or> CR_IsFullSet s then r else s)"
proof (cases "CR_IsEmptySet r \<or> CR_IsFullSet s")
  case False
  with assms have "CR_IsEmptySet s \<or> CR_IsFullSet r" by blast
  with False show ?thesis by (subst CR_IntersectWith.simps) (simp only: if_True if_False)
qed (subst CR_IntersectWith.simps, simp only: if_True)

lemma CR_IntersectWith_small:
  "cr_same r s \<Longrightarrow> t = Smallest \<Longrightarrow> inter_small r s (CR_IntersectWith r s t)"
proof (induction r s t rule: CR_IntersectWith.induct)
  case (1 r s t)
  note d = cr_sameD [OF 1(2)]
  note b = CR_tests_sem [OF d(1)] CR_tests_sem [OF d(2)]
  show ?case
  proof (cases "CR_IsEmptySet r \<or> CR_IsFullSet s \<or> CR_IsEmptySet s \<or> CR_IsFullSet r")
    case True
    have "elems r \<subseteq> elems s" if "CR_IsEmptySet r \<or> CR_IsFullSet s"
      using trivial_subset [OF 1(2) that] .
    moreover have "elems s \<subseteq> elems r" if "CR_IsEmptySet s \<or> CR_IsFullSet r"
      using trivial_subset [OF cr_same_sym [OF 1(2)] that] .
    ultimately have "elems (CR_IntersectWith r s t) = elems r \<inter> elems s"
      unfolding CR_IntersectWith_trivial [OF True]
      using True by (cases "CR_IsEmptySet r \<or> CR_IsFullSet s") auto
    then show ?thesis by (simp add: inter_small_def)
  next
    case False
    then have ne: "lo r \<noteq> up r" "lo s \<noteq> up s" using b by auto
    from False have eq: "CR_IntersectWith r s t =
        (if \<not> up r < lo r \<and> up s < lo s then CR_IntersectWith s r t
         else if \<not> up r < lo r \<and> \<not> up s < lo s then CR_IntersectBothUnwrapped r s
         else if up r < lo r \<and> \<not> up s < lo s then CR_IntersectWrappedWithUnwrapped r s t
         else CR_IntersectBothWrapped r s t)"
      by (subst CR_IntersectWith.simps) (simp add: Let_def b(4,11))
    have IH: "inter_small r s (CR_IntersectWith s r t)" if "\<not> up r < lo r" "up s < lo s"
      using that False 1 b(4,11) by (intro inter_small_sym [OF _ 1(2)]) (auto intro: cr_same_sym)
    show ?thesis
      unfolding eq using ne IH 1(2,3)
      by (auto intro: inter_small_unwrapped inter_small_mixed inter_small_wrapped)
  qed
qed

lemma CR_IntersectWith_filter:
  assumes "cr_same r s" "2 * csize s \<le> cmod r"
  defines "t \<equiv> CR_IntersectWith r s Smallest"
  shows "cr_ok t" "width (lower t) = width (lower r)" "elems r \<inter> elems s \<subseteq> elems t" "elems t \<subseteq> elems s"
    "elems t = elems r \<inter> elems s \<or> t = s"
proof -
  have sp: "inter_spec r s t" using CR_IntersectWith_spec [OF assms(1)] by (simp add: t_def)
  then show "cr_ok t" "width (lower t) = width (lower r)" "elems r \<inter> elems s \<subseteq> elems t"
    by (auto simp: inter_spec_def)
  have "inter_small r s t" using CR_IntersectWith_small [OF assms(1) refl] by (simp add: t_def)
  then show "elems t = elems r \<inter> elems s \<or> t = s" using assms(2) by (auto simp: inter_small_def)
  then show "elems t \<subseteq> elems s" by auto
qed

subsection \<open>Signed division\<close>

text \<open>Truncating division of integers is monotone in each quadrant.\<close>

lemma sdiv_quadrant:
  fixes x y :: int
  shows "0 \<le> x \<Longrightarrow> 0 < y \<Longrightarrow> x sdiv y = x div y"
    "x \<le> 0 \<Longrightarrow> y < 0 \<Longrightarrow> x sdiv y = (- x) div (- y)"
    "0 \<le> x \<Longrightarrow> y < 0 \<Longrightarrow> x sdiv y = - (x div (- y))"
    "x \<le> 0 \<Longrightarrow> 0 < y \<Longrightarrow> x sdiv y = - ((- x) div y)"
  by (cases "x = 0"; auto simp: signed_divide_int_def sgn_if)+

lemma sdiv_mono_bounds:
  fixes a b x y c e :: int
  shows "0 < a \<Longrightarrow> a \<le> x \<Longrightarrow> x \<le> b \<Longrightarrow> 0 < c \<Longrightarrow> c \<le> y \<Longrightarrow> y \<le> e \<Longrightarrow>
      a sdiv e \<le> x sdiv y \<and> x sdiv y \<le> b sdiv c \<and> 0 \<le> a sdiv e \<and> b sdiv c \<le> b"
    "b < 0 \<Longrightarrow> a \<le> x \<Longrightarrow> x \<le> b \<Longrightarrow> e < 0 \<Longrightarrow> c \<le> y \<Longrightarrow> y \<le> e \<Longrightarrow>
      b sdiv c \<le> x sdiv y \<and> x sdiv y \<le> a sdiv e \<and> 0 \<le> b sdiv c \<and> a sdiv e \<le> - a"
    "0 < a \<Longrightarrow> a \<le> x \<Longrightarrow> x \<le> b \<Longrightarrow> e < 0 \<Longrightarrow> c \<le> y \<Longrightarrow> y \<le> e \<Longrightarrow>
      b sdiv e \<le> x sdiv y \<and> x sdiv y \<le> a sdiv c \<and> - b \<le> b sdiv e \<and> a sdiv c \<le> 0"
    "b < 0 \<Longrightarrow> a \<le> x \<Longrightarrow> x \<le> b \<Longrightarrow> 0 < c \<Longrightarrow> c \<le> y \<Longrightarrow> y \<le> e \<Longrightarrow>
      a sdiv c \<le> x sdiv y \<and> x sdiv y \<le> b sdiv e \<and> a \<le> a sdiv c \<and> b sdiv e \<le> 0"
  using div_mono_bounds [of a x y e] div_mono_bounds [of x b c y] div_mono_bounds [of "- b" "- x" "- y" "- c"]
    div_mono_bounds [of "- x" "- a" "- e" "- y"] div_mono_bounds [of a x "- y" "- c"] div_mono_bounds [of x b "- e" "- y"]
    div_mono_bounds [of "- b" "- x" y e] div_mono_bounds [of "- x" "- a" c y]
    zdiv_le_self [of b c] zdiv_le_self [of "- a" "- e"] zdiv_le_self [of b "- e"] zdiv_le_self [of "- a" c]
    pos_imp_zdiv_nonneg_iff [of "- c" "- b"]
  by (auto simp: sdiv_quadrant pos_imp_zdiv_nonneg_iff)

definition pos_range :: "IntWidth \<Rightarrow> ConstantRange" where
  "pos_range w = mkCR (mkSInt w 1) (SInt_SMinValue w)"

definition neg_range :: "IntWidth \<Rightarrow> ConstantRange" where
  "neg_range w = mkCR (SInt_SMinValue w) (SInt_Zero w)"

lemma filters:
  "cr_ok (pos_range w)" "cr_ok (neg_range w)" "width (lower (pos_range w)) = w" "width (lower (neg_range w)) = w"
  "2 * csize (pos_range w) \<le> modulus w" "2 * csize (neg_range w) \<le> modulus w"
  "elems (pos_range w) = {v. sint_ok v \<and> width v = w \<and> 0 < sval v}"
  "elems (neg_range w) = {v. sint_ok v \<and> width v = w \<and> sval v < 0}"
proof -
  have h: "128 \<le> half w" "modulus w = 2 * half w" using half_ge modulus_half by auto
  have one: "uval (mkSInt w 1) = 1" using h by (simp add: mkSInt_uval)
  show p: "cr_ok (pos_range w)" and n: "cr_ok (neg_range w)"
    using h one by (auto simp: pos_range_def neg_range_def same_def SInt_const_sem SInt_signed_const_sem intro!: mkCR_ok)
  show w: "width (lower (pos_range w)) = w" "width (lower (neg_range w)) = w"
    by (simp_all add: pos_range_def neg_range_def)
  show "2 * csize (pos_range w) \<le> modulus w" "2 * csize (neg_range w) \<le> modulus w"
    using h one by (simp_all add: csize_def pos_range_def neg_range_def SInt_const_sem SInt_signed_const_sem mod_sub_if mod_minus_if)
  have sp: "0 < sval v \<longleftrightarrow> 0 < uval v \<and> uval v < half w" "sval v < 0 \<longleftrightarrow> half w \<le> uval v"
    if "sint_ok v" "width v = w" for v
    using that uval_bounds [of v] by (auto simp: sval_eq h)
  show "elems (pos_range w) = {v. sint_ok v \<and> width v = w \<and> 0 < sval v}"
  proof (rule set_eqI)
    fix v show "v \<in> elems (pos_range w) \<longleftrightarrow> v \<in> {v. sint_ok v \<and> width v = w \<and> 0 < sval v}"
      unfolding elems_iff [OF p] w(1) mem_Collect_eq using h one sp(1) [of v]
      by (auto simp: pos_range_def arc_def SInt_signed_const_sem split: if_splits)
  qed
  show "elems (neg_range w) = {v. sint_ok v \<and> width v = w \<and> sval v < 0}"
  proof (rule set_eqI)
    fix v show "v \<in> elems (neg_range w) \<longleftrightarrow> v \<in> {v. sint_ok v \<and> width v = w \<and> sval v < 0}"
      unfolding elems_iff [OF n] w(2) mem_Collect_eq using h sp(2) [of v] uval_nonneg [of v]
      by (auto simp: neg_range_def arc_def SInt_const_sem SInt_signed_const_sem split: if_splits)
  qed
qed

text \<open>A non-empty range of numbers of one sign runs from its lower bound to its last element.\<close>

lemma one_sign:
  assumes "cr_ok t" "\<not> CR_IsEmptySet t" "elems t \<subseteq> elems (pos_range w) \<or> elems t \<subseteq> elems (neg_range w)"
    "width (lower t) = w"
  defines "h \<equiv> SInt_sub_u64 (upper t) 1"
  shows "lower t \<in> elems t" "h \<in> elems t" "sint_ok h" "width h = w"
    "x \<in> elems t \<Longrightarrow> slo t \<le> sval x \<and> sval x \<le> sval h"
proof -
  note d = cr_okD [OF assms(1)]
  have hu: "uval h = (if up t = 0 then cmod t - 1 else up t - 1)"
    using d modulus_ge [of "width (lower t)"] by (simp add: h_def SInt_ring_sem mod_sub_if)
  show hw: "sint_ok h" "width h = w" using d assms(4) by (simp_all add: h_def)
  have zero: "SInt_Zero w \<notin> elems t" using assms(3) filters(7,8) [of w] sval_0_iff [of "SInt_Zero w"]
    by (auto simp: SInt_const_sem)
  then have nf: "lo t \<noteq> up t" using assms(1,2,4) by (auto simp: elems_iff CR_tests_sem arc_def)
  have uz: "up t = 0 \<or> lo t < up t"
    using zero nf assms(1,4) d by (auto simp: elems_iff arc_def SInt_const_sem split: if_splits)
  show l: "lower t \<in> elems t" using nf uz d assms(1) by (auto simp: elems_iff arc_def)
  show hm: "h \<in> elems t" using nf uz d hu hw assms(1,4) by (auto simp: elems_iff arc_def)
  assume x: "x \<in> elems t"
  have ux: "lo t \<le> uval x" "uval x \<le> uval h"
    using x uz nf hu d uval_less [of x] assms(1) uval_nonneg [of x] by (auto simp: elems_iff arc_def split: if_splits)
  have ok: "sint_ok x" "width x = w" using x assms(1,4) by (simp_all add: elems_iff)
  from assms(3) show "slo t \<le> sval x \<and> sval x \<le> sval h"
  proof
    assume "elems t \<subseteq> elems (pos_range w)"
    then have "0 < slo t" "0 < sval x" "0 < sval h" using l hm x filters(7) by auto
    then show ?thesis using ux uval_of_sval(1) [OF d(1)] uval_of_sval(1) [OF ok(1)] uval_of_sval(1) [OF hw(1)] by simp
  next
    assume "elems t \<subseteq> elems (neg_range w)"
    then have "slo t < 0" "sval x < 0" "sval h < 0" using l hm x filters(8) by auto
    then show ?thesis
      using ux ok hw assms(4) uval_of_sval(2) [OF d(1)] uval_of_sval(2) [OF ok(1)] uval_of_sval(2) [OF hw(1)] by simp
  qed
qed

text \<open>A range given by its least and greatest element.\<close>

lemma succ_range:
  assumes "same l u" "sval l \<le> sval u" "- half (width l) < sval l \<or> sval u < half (width l) - 1"
  shows "cr_ok (mkCR l (SInt_add_u64 u 1))"
    "same l v \<Longrightarrow> sval l \<le> sval v \<Longrightarrow> sval v \<le> sval u \<Longrightarrow> v \<in> elems (mkCR l (SInt_add_u64 u 1))"
proof -
  have ok: "sint_ok l" "sint_ok u" "width u = width l" using assms(1) by (simp_all add: same_def)
  have "sval (SInt_add_u64 u 1) = (if sval u = half (width l) - 1 then - half (width l) else sval u + 1)"
    using sval_succ_if [OF ok(2)] ok(3) by simp
  then have ne: "sval l \<noteq> sval (SInt_add_u64 u 1)" using assms(2,3) sval_range [OF ok(1)] by (auto split: if_splits)
  then have ne2: "\<not> SInt_eq l (SInt_add_u64 u 1)"
    using sval_inj [of l "SInt_add_u64 u 1"] ok by (auto simp: SInt_eq_sem)
  then have n: "CR_NonEmpty l (SInt_add_u64 u 1) = mkCR l (SInt_add_u64 u 1)" by (simp add: CR_NonEmpty_def)
  show "cr_ok (mkCR l (SInt_add_u64 u 1))" using CR_NonEmpty_succ_ok [OF assms(1)] n by simp
  show "v \<in> elems (mkCR l (SInt_add_u64 u 1))" if "same l v" "sval l \<le> sval v" "sval v \<le> sval u"
    using mem_NonEmpty_signed [OF assms(1) that] n by simp
qed

text \<open>
  The interface between \<open>SDivImpl\<close> and its parameter \<open>div\<close>: a division of numbers of
  one width that fails on a zero divisor only and truncates, except on the one pair whose
  quotient does not fit.
\<close>

locale signed_div =
  fixes dv :: "SInt \<Rightarrow> SInt \<Rightarrow> SInt option"
  assumes dv_total: "same a b \<Longrightarrow> uval b \<noteq> 0 \<Longrightarrow> \<exists>q. dv a b = Some q \<and> same a q"
    and dv_exact: "same a b \<Longrightarrow> uval b \<noteq> 0 \<Longrightarrow> sval a \<noteq> - half (width a) \<or> sval b \<noteq> - 1 \<Longrightarrow>
      sval (the (dv a b)) = sval a sdiv sval b"
begin

lemma dv_obtain:
  assumes "sint_ok a" "width a = w" "sint_ok b" "width b = w" "sval b \<noteq> 0"
  obtains q where "dv a b = Some q" "sint_ok q" "width q = w"
    "sval a \<noteq> - half w \<or> sval b \<noteq> - 1 \<Longrightarrow> sval q = sval a sdiv sval b"
proof -
  have s: "same a b" using assms by (simp add: same_def)
  have "uval b \<noteq> 0" using sval_0_iff assms by auto
  from dv_total [OF s this] dv_exact [OF s this] that show thesis using assms by (auto simp: same_def)
qed

text \<open>One quadrant: the corners \<open>a, b\<close> and \<open>c, e\<close> bound all quotients.\<close>

lemma quadrant:
  assumes "sint_ok a" "width a = w" "sint_ok b" "width b = w" "sval b \<noteq> 0"
    and "sint_ok c" "width c = w" "sint_ok e" "width e = w" "sval e \<noteq> 0"
    and "sval a \<noteq> - half w \<or> sval b \<noteq> - 1" "sval c \<noteq> - half w \<or> sval e \<noteq> - 1"
    and "sval a sdiv sval b \<le> sval c sdiv sval e" "- half w < sval a sdiv sval b \<or> sval c sdiv sval e < half w - 1"
  obtains l u where "dv a b = Some l" "dv c e = Some u" "cr_ok (mkCR l (SInt_add_u64 u 1))" "width l = w"
    "\<And>q. sint_ok q \<Longrightarrow> width q = w \<Longrightarrow> sval a sdiv sval b \<le> sval q \<Longrightarrow> sval q \<le> sval c sdiv sval e \<Longrightarrow>
      q \<in> elems (mkCR l (SInt_add_u64 u 1))"
proof -
  obtain l where l: "dv a b = Some l" "sint_ok l" "width l = w" "sval l = sval a sdiv sval b"
    using dv_obtain [OF assms(1-5)] assms(11) by metis
  obtain u where u: "dv c e = Some u" "sint_ok u" "width u = w" "sval u = sval c sdiv sval e"
    using dv_obtain [OF assms(6-10)] assms(12) by metis
  have s: "same l u" using l u by (simp add: same_def)
  note sr = succ_range [OF s]
  show thesis
    by (rule that [OF l(1) u(1)]) (use sr l u assms(13,14) in \<open>auto simp: same_def\<close>)
qed


text \<open>
  The quadrant of two negative operands, whose upper bound has the special case of the
  quotient that does not fit. Its result is right when the range of the dividend does not
  end with the least number.
\<close>

lemma negneg:
  assumes r: "cr_ok r" "width (lower r) = w" and s: "cr_ok s" "width (lower s) = w"
    and nl: "negL = CR_IntersectWith r (neg_range w) Smallest" "\<not> CR_IsEmptySet negL"
    and nr: "negR = CR_IntersectWith s (neg_range w) Smallest" "\<not> CR_IsEmptySet negR"
    and last: "up r \<noteq> half w + 1"
  obtains t where "CR_SDivImpl_negneg r s dv negL negR = Some t" "cr_ok t" "width (lower t) = w"
    "\<And>x y. x \<in> elems negL \<Longrightarrow> y \<in> elems negR \<Longrightarrow> sval x \<noteq> - half w \<or> sval y \<noteq> - 1 \<or> sval (the (dv x y)) = half w - 1 \<Longrightarrow>
      the (dv x y) \<in> elems t"
proof -
  have h: "128 \<le> half w" "modulus w = 2 * half w" using half_ge modulus_half by auto
  have sm: "cr_same r (neg_range w)" "cr_same s (neg_range w)" using r s filters by (simp_all add: cr_same_def)
  note fl = CR_IntersectWith_filter [OF sm(1)] note fr = CR_IntersectWith_filter [OF sm(2)]
  have L: "cr_ok negL" "width (lower negL) = w" "elems r \<inter> elems (neg_range w) \<subseteq> elems negL" "elems negL \<subseteq> elems (neg_range w)"
    "elems negL = elems r \<inter> elems (neg_range w) \<or> negL = neg_range w"
    using fl filters(6) r by (simp_all add: nl)
  have R: "cr_ok negR" "width (lower negR) = w" "elems s \<inter> elems (neg_range w) \<subseteq> elems negR" "elems negR \<subseteq> elems (neg_range w)"
    "elems negR = elems s \<inter> elems (neg_range w) \<or> negR = neg_range w"
    using fr filters(6) s by (simp_all add: nr)
  define hl where "hl = SInt_sub_u64 (upper negL) 1" define hr where "hr = SInt_sub_u64 (upper negR) 1"
  note ol = one_sign [OF L(1) nl(2) disjI2 [OF L(4)] L(2), folded hl_def]
  note or = one_sign [OF R(1) nr(2) disjI2 [OF R(4)] R(2), folded hr_def]
  have neg: "sval v < 0" if "v \<in> elems negL \<or> v \<in> elems negR" for v using that L(4) R(4) filters(8) by auto
  have ln: "slo negL < 0" "sval hl < 0" "slo negR < 0" "sval hr < 0" using neg ol(1,2) or(1,2) by auto
  have lle: "slo negL \<le> sval hl" "slo negR \<le> sval hr" using ol(5) [OF ol(2)] or(5) [OF or(2)] by auto
  have okb: "sint_ok (lower negL)" "width (lower negL) = w" "sint_ok (lower negR)" "width (lower negR) = w"
    using L(1,2) R(1,2) cr_okD by auto
  have rg: "- half w \<le> slo negL" "- half w \<le> slo negR" "- half w \<le> sval hl" "- half w \<le> sval hr"
    using sval_range [OF okb(1)] sval_range [OF okb(3)] sval_range [OF ol(3)] sval_range [OF or(3)] okb ol(4) or(4) by auto
  text \<open>The least number is not the only negative dividend.\<close>
  have two: "sval hl \<noteq> - half w"
  proof
    assume a: "sval hl = - half w"
    then have only: "sval x = - half w" if "x \<in> elems negL" for x
      using ol(5) [OF that] lle rg by simp
    let ?m = "SInt_SMinValue w" and ?m1 = "SInt_add_u64 (SInt_SMinValue w) 1"
    have m: "uval ?m = half w" "uval ?m1 = half w + 1" "sint_ok ?m1" "width ?m1 = w" "sval ?m1 = - half w + 1"
      using h by (simp_all add: SInt_signed_const_sem uval_succ sval_succ_if)
    have "?m1 \<in> elems (neg_range w)" using m h filters(8) by auto
    moreover have "?m1 \<notin> elems negL" using only m by auto
    ultimately have nf: "negL \<noteq> neg_range w" "?m1 \<notin> elems r" using L(3) by auto
    have "lower negL = ?m"
      using only [OF ol(1)] okb sval_inj [of "lower negL" ?m] by (simp add: SInt_eq_iff)
    then have "?m \<in> elems r" using L(5) nf(1) ol(1) by auto
    then have "up r = half w + 1"
      using nf(2) m h r cr_okD [OF r(1)] by (auto simp: elems_iff arc_def split: if_splits)
    with last show False by simp
  qed
  obtain l where l: "dv hl (lower negR) = Some l" "sint_ok l" "width l = w" "sval l = sval hl sdiv slo negR"
    using dv_obtain [OF ol(3,4) okb(3,4)] ln two by (metis less_irrefl)
  obtain u where u: "dv (lower negL) hr = Some u" "sint_ok u" "width u = w"
    "slo negL \<noteq> - half w \<or> sval hr \<noteq> - 1 \<Longrightarrow> sval u = slo negL sdiv sval hr"
    using dv_obtain [OF okb(1,2) or(3,4)] ln by (metis less_irrefl)
  have uhr: "up negR = 0 \<longleftrightarrow> sval hr = - 1"
  proof -
    have "uval hr = (up negR - 1) mod modulus w" using R(1,2) cr_okD(3) [OF R(1)] by (simp add: hr_def SInt_ring_sem)
    then have "uval hr = (if up negR = 0 then modulus w - 1 else up negR - 1)"
      using cr_okD [OF R(1)] R(2) h by (simp add: mod_sub_if)
    moreover have "uval hr = sval hr + modulus w" using uval_of_sval(2) [OF or(3)] ln or(4) by simp
    ultimately show ?thesis using cr_okD [OF R(1)] R(2) h by (auto split: if_splits)
  qed
  have smin: "SInt_IsSMinValue (lower negL) \<longleftrightarrow> slo negL = - half w" using sval_const_tests okb by simp
  show thesis
  proof (cases "slo negL = - half w \<and> sval hr = - 1")
    case False
    have eq: "CR_SDivImpl_negneg r s dv negL negR = Some (mkCR l (SInt_add_u64 u 1))"
    proof -
      have c: "\<not> (SInt_IsSMinValue (lower negL) \<and> SInt_IsZero (upper negR))"
        using False smin uhr by (simp add: SInt_tests_sem(1))
      show ?thesis by (simp add: CR_SDivImpl_negneg_def Let_def c l(1) u(1) flip: hl_def hr_def)
    qed
    have us: "sval u = slo negL sdiv sval hr" using u(4) False by simp
    have lu: "same l u" using l u by (simp add: same_def)
    have bnd: "sval l \<le> sval q \<and> sval q \<le> sval u \<and> 0 \<le> sval l"
      if "sval x \<le> sval hl" "slo negL \<le> sval x" "sval y \<le> sval hr" "slo negR \<le> sval y" "sval q = sval x sdiv sval y" for x y q
      using sdiv_mono_bounds(2) [of "sval hl" "slo negL" "sval x" "sval hr" "slo negR" "sval y"] that ln l(4) us by auto
    have lule: "sval l \<le> sval u" "0 \<le> sval l"
      using bnd [of "lower negL" "lower negR"] sdiv_mono_bounds(2) [of "sval hl" "slo negL" "slo negL" "sval hr" "slo negR" "slo negR"]
        lle ln l(4) us by linarith+
    note sr = succ_range [OF lu lule(1)]
    show thesis
    proof (rule that [OF eq])
      show "cr_ok (mkCR l (SInt_add_u64 u 1))" "width (lower (mkCR l (SInt_add_u64 u 1))) = w" using sr lule l h by auto
      fix x y assume xy: "x \<in> elems negL" "y \<in> elems negR"
      have ok: "sint_ok x" "width x = w" "sint_ok y" "width y = w" using xy L R by (simp_all add: elems_iff)
      have "sval y \<noteq> 0" using neg xy by fastforce
      moreover have "sval x \<noteq> - half w \<or> sval y \<noteq> - 1"
        using False ol(5) [OF xy(1)] or(5) [OF xy(2)] rg ln by auto
      ultimately obtain q where q: "dv x y = Some q" "sint_ok q" "width q = w" "sval q = sval x sdiv sval y"
        using dv_obtain [OF ok] by metis
      show "the (dv x y) \<in> elems (mkCR l (SInt_add_u64 u 1))"
        using sr(2) [of q] bnd [of x y q] ol(5) [OF xy(1)] or(5) [OF xy(2)] q l lule h by (simp add: same_def)
    qed
  next
    case True
    let ?m1 = "SInt_add_u64 (SInt_SMinValue w) 1"
    have m1: "uval ?m1 = half w + 1" "sint_ok ?m1" "width ?m1 = w" "sval ?m1 = - half w + 1"
      using h by (simp_all add: SInt_signed_const_sem uval_succ sval_succ_if)
    have lm: "lower negL = SInt_SMinValue w"
      using True okb sval_inj [of "lower negL" "SInt_SMinValue w"] by (simp add: SInt_eq_iff)
    have nlu: "up negL \<noteq> half w + 1"
    proof
      assume a: "up negL = half w + 1"
      then have "uval hl = half w" using L(1,2) cr_okD [OF L(1)] h by (simp add: hl_def SInt_ring_sem)
      then have "sval hl = - half w" using ol(3,4) h by (simp add: sval_eq)
      with two show False by simp
    qed
    obtain u2 where u2: "dv ?m1 hr = Some u2" "sint_ok u2" "width u2 = w" "sval u2 = half w - 1"
    proof -
      have "sval ?m1 sdiv sval hr = half w - 1" using True m1 h by (simp add: sdiv_quadrant(2))
      then show thesis using dv_obtain [OF m1(2,3) or(3,4)] ln(4) m1 that by (metis add_cancel_left_right less_irrefl one_neq_zero)
    qed
    define adj where "adj = (if SInt_IsAllOnes (lower s) then upper s else hr)"
    have adj: "\<exists>q. dv (lower negL) (SInt_sub_u64 adj 1) = Some q" if na: "\<not> SInt_IsAllOnes (lower negR)"
    proof -
      have ok: "sint_ok adj" "width adj = w" using s cr_okD [OF s(1)] or by (auto simp: adj_def)
      have "uval adj \<noteq> 1"
      proof (cases "SInt_IsAllOnes (lower s)")
        case False
        have "uval hr = modulus w - 1" using True uval_of_sval(2) [OF or(3)] or(4) by simp
        with False show ?thesis using h by (simp add: adj_def)
      next
        case T: True
        show ?thesis
        proof
          assume "uval adj = 1"
          then have us: "up s = 1" using T by (simp add: adj_def)
          have ls: "lo s = modulus w - 1" using T s by (simp add: SInt_tests_sem)
          have "sval y = - 1" if "y \<in> elems s" "y \<in> elems (neg_range w)" for y
            using that us ls s h uval_of_sval(2) [of y] filters(8) [of w] uval_less [of y] sval_range [of y]
            by (auto simp: elems_iff arc_def)
          moreover have "negR \<noteq> neg_range w"
          proof
            assume "negR = neg_range w"
            have "csize s = 2" using us ls s h by (simp add: csize_def mod_sub_if)
            moreover have "inter_small s (neg_range w) negR"
              using CR_IntersectWith_small [OF sm(2) refl] by (simp add: nr)
            moreover have "SInt_SMinValue w \<in> elems negR" unfolding \<open>negR = neg_range w\<close> using h filters(8) by simp
            moreover have "SInt_SMinValue w \<notin> elems s" using us ls s h by (simp add: elems_iff arc_def SInt_signed_const_sem)
            ultimately show False using filters(6) [of w] s h by (auto simp: inter_small_def)
          qed
          ultimately have "slo negR = - 1" using R(5) or(1) by auto
          with na okb sval_const_tests(2) [OF okb(3)] show False by simp
        qed
      qed
      then have "uval (SInt_sub_u64 adj 1) \<noteq> 0"
        using ok uval_nonneg [of adj] uval_less [of adj] h by (auto simp: SInt_ring_sem mod_sub_if split: if_splits)
      then show ?thesis
        using dv_total [of "lower negL" "SInt_sub_u64 adj 1"] ok okb by (auto simp: same_def)
    qed
    have "width (lower negL) = w" "CR_Width r = w" using okb r by (simp_all add: CR_Width_def)
    then have eq: "CR_SDivImpl_negneg r s dv negL negR = Some (mkCR l (SInt_add_u64 u2 1))"
    proof -
      have c: "\<not> SInt_eq (upper negL) ?m1" "\<not> SInt_eq (upper r) ?m1" using nlu last m1 by (simp_all add: SInt_eq_sem)
      have a1: "SInt_add_u64 (lower negL) 1 = ?m1" using lm by simp
      show ?thesis
      proof (cases "SInt_IsAllOnes (lower negR)")
        case T: True
        then show ?thesis using True smin uhr l(1) u(1) u2(1) c a1 \<open>CR_Width r = w\<close>
          by (simp add: CR_SDivImpl_negneg_def Let_def SInt_tests_sem(1) hl_def [symmetric] hr_def [symmetric])
      next
        case F: False
        obtain q where "dv (lower negL) (SInt_sub_u64 adj 1) = Some q" using adj [OF F] by blast
        then show ?thesis using F True smin uhr l(1) u(1) u2(1) c a1 \<open>CR_Width r = w\<close>
          by (cases "SInt_IsAllOnes (lower s)")
            (simp_all add: CR_SDivImpl_negneg_def Let_def SInt_tests_sem(1) adj_def flip: hl_def hr_def)
      qed
    qed
    have lb: "0 \<le> sval l" "sval l \<le> sval u2"
      using sdiv_mono_bounds(2) [of "sval hl" "sval hl" "sval hl" "slo negR" "slo negR" "slo negR"] ln l(4) u2(4) two rg by linarith+
    have lu: "same l u2" using l u2 by (simp add: same_def)
    note sr = succ_range [OF lu lb(2)]
    show thesis
    proof (rule that [OF eq])
      show "cr_ok (mkCR l (SInt_add_u64 u2 1))" "width (lower (mkCR l (SInt_add_u64 u2 1))) = w" using sr lb l h by auto
      fix x y assume xy: "x \<in> elems negL" "y \<in> elems negR"
        "sval x \<noteq> - half w \<or> sval y \<noteq> - 1 \<or> sval (the (dv x y)) = half w - 1"
      have ok: "sint_ok x" "width x = w" "sint_ok y" "width y = w" using xy L R by (simp_all add: elems_iff)
      have y0: "sval y \<noteq> 0" using neg xy by fastforce
      obtain q where q: "dv x y = Some q" "sint_ok q" "width q = w"
        "sval x \<noteq> - half w \<or> sval y \<noteq> - 1 \<Longrightarrow> sval q = sval x sdiv sval y"
        using dv_obtain [OF ok y0] by metis
      have "sval l \<le> sval q \<and> sval q \<le> half w - 1"
      proof (cases "sval x \<noteq> - half w \<or> sval y \<noteq> - 1")
        case T: True
        have "sval l \<le> sval x sdiv sval y"
          using sdiv_mono_bounds(2) [of "sval hl" "slo negL" "sval x" "sval hr" "slo negR" "sval y"]
            ol(5) [OF xy(1)] or(5) [OF xy(2)] ln l(4) by auto
        then show ?thesis using T q sval_range [OF q(2)] by simp
      next
        case False
        then show ?thesis using xy(3) q(1) lb u2(4) by simp
      qed
      then show "the (dv x y) \<in> elems (mkCR l (SInt_add_u64 u2 1))"
        using sr(2) [of q] q l u2 lb h by (simp add: same_def)
    qed
  qed
qed


text \<open>The other three quadrants, of operands \<open>p\<close> and \<open>n\<close> whose signs exclude the special pair.\<close>

definition covers :: "ConstantRange \<Rightarrow> ConstantRange \<Rightarrow> ConstantRange \<Rightarrow> bool" where
  "covers p n t \<longleftrightarrow> cr_ok t \<and> width (lower t) = width (lower p) \<and>
     (\<forall>x \<in> elems p. \<forall>y \<in> elems n. sval x \<noteq> - half (width (lower p)) \<or> sval y \<noteq> - 1 \<or>
        sval (the (dv x y)) = half (width (lower p)) - 1 \<longrightarrow> the (dv x y) \<in> elems t)"

lemma covers_mem:
  assumes "covers p n t" "width (lower p) = w" "x \<in> elems p" "y \<in> elems n"
    "sval x \<noteq> - half w \<or> sval y \<noteq> - 1 \<or> sval (the (dv x y)) = half w - 1"
  shows "the (dv x y) \<in> elems t"
  using assms unfolding covers_def by blast

lemma covers_part:
  assumes wf: "cr_ok p" "cr_ok n" "width (lower p) = w" "width (lower n) = w"
    and mem: "a \<in> elems p" "b \<in> elems n" "c \<in> elems p" "e \<in> elems n"
    and q: "\<And>x y. x \<in> elems p \<Longrightarrow> y \<in> elems n \<Longrightarrow> sval y \<noteq> 0 \<and> (sval x \<noteq> - half w \<or> sval y \<noteq> - 1) \<and>
      sval a sdiv sval b \<le> sval x sdiv sval y \<and> sval x sdiv sval y \<le> sval c sdiv sval e"
    and bnd: "- half w < sval a sdiv sval b \<or> sval c sdiv sval e < half w - 1"
  shows "\<exists>t. (do { l \<leftarrow> dv a b; u \<leftarrow> dv c e; Some (mkCR l (SInt_add_u64 u 1)) }) = Some t \<and> covers p n t"
proof -
  have ab: "sint_ok a" "width a = w" "sint_ok b" "width b = w" "sval b \<noteq> 0" "sint_ok c" "width c = w" "sint_ok e" "width e = w" "sval e \<noteq> 0"
    using mem wf q by (simp_all add: elems_iff)
  have nov: "sval a \<noteq> - half w \<or> sval b \<noteq> - 1" "sval c \<noteq> - half w \<or> sval e \<noteq> - 1"
    using q mem by blast+
  have le: "sval a sdiv sval b \<le> sval c sdiv sval e" using q [OF mem(1,2)] by blast
  from quadrant [OF ab nov le bnd] obtain l u where lu: "dv a b = Some l" "dv c e = Some u"
    "cr_ok (mkCR l (SInt_add_u64 u 1))" "width l = w"
    "\<And>q. sint_ok q \<Longrightarrow> width q = w \<Longrightarrow> sval a sdiv sval b \<le> sval q \<Longrightarrow> sval q \<le> sval c sdiv sval e \<Longrightarrow>
      q \<in> elems (mkCR l (SInt_add_u64 u 1))" by blast
  have "the (dv x y) \<in> elems (mkCR l (SInt_add_u64 u 1))" if xy: "x \<in> elems p" "y \<in> elems n" for x y
  proof -
    have ok: "sint_ok x" "width x = w" "sint_ok y" "width y = w" using xy wf by (simp_all add: elems_iff)
    obtain r where r: "dv x y = Some r" "sint_ok r" "width r = w" "sval r = sval x sdiv sval y"
      using dv_obtain [OF ok] q [OF xy] by blast
    with lu(5) [OF r(2,3)] q [OF xy] show ?thesis by simp
  qed
  with lu(3,4) wf(3) have "covers p n (mkCR l (SInt_add_u64 u 1))" by (simp add: covers_def)
  with lu(1,2) show ?thesis by auto
qed

lemma SDivImpl_ok_sound:
  assumes "cr_same r s" "up r \<noteq> half (width (lower r)) + 1"
  obtains t where "CR_SDivImpl r s dv = Some t" "cr_ok t" "width (lower t) = width (lower r)"
    "\<And>x y. x \<in> elems r \<Longrightarrow> y \<in> elems s \<Longrightarrow> uval y \<noteq> 0 \<Longrightarrow>
      sval x \<noteq> - half (width (lower r)) \<or> sval y \<noteq> - 1 \<or> sval (the (dv x y)) = half (width (lower r)) - 1 \<Longrightarrow>
      the (dv x y) \<in> elems t"
proof -
  note d = cr_sameD [OF assms(1)]
  define w where "w = width (lower r)"
  have h: "128 \<le> half w" using half_ge by auto
  have sm: "cr_same r (pos_range w)" "cr_same r (neg_range w)" "cr_same s (pos_range w)" "cr_same s (neg_range w)"
    using d filters by (simp_all add: cr_same_def w_def)
  define posL where "posL = CR_IntersectWith r (pos_range w) Smallest"
  define negL where "negL = CR_IntersectWith r (neg_range w) Smallest"
  define posR where "posR = CR_IntersectWith s (pos_range w) Smallest"
  define negR where "negR = CR_IntersectWith s (neg_range w) Smallest"
  have sz: "2 * csize (pos_range w) \<le> cmod r" "2 * csize (neg_range w) \<le> cmod r"
    "2 * csize (pos_range w) \<le> cmod s" "2 * csize (neg_range w) \<le> cmod s"
    using filters(5,6) [of w] d(3) by (simp_all add: w_def)
  note pL = CR_IntersectWith_filter [OF sm(1) sz(1), folded posL_def w_def]
  note nL = CR_IntersectWith_filter [OF sm(2) sz(2), folded negL_def w_def]
  note pR = CR_IntersectWith_filter [OF sm(3) sz(3), folded posR_def, unfolded d(3), folded w_def]
  note nR = CR_IntersectWith_filter [OF sm(4) sz(4), folded negR_def, unfolded d(3), folded w_def]
  note oPL = one_sign [OF pL(1) _ disjI1 [OF pL(4)] pL(2)]
  note oNL = one_sign [OF nL(1) _ disjI2 [OF nL(4)] nL(2)]
  note oPR = one_sign [OF pR(1) _ disjI1 [OF pR(4)] pR(2)]
  note oNR = one_sign [OF nR(1) _ disjI2 [OF nR(4)] nR(2)]
  have pos: "0 < sval v" if "v \<in> elems posL \<or> v \<in> elems posR" for v using that pL(4) pR(4) filters(7) by auto
  have neg: "sval v < 0" if "v \<in> elems negL \<or> v \<in> elems negR" for v using that nL(4) nR(4) filters(8) by auto
  have rng: "- half w \<le> sval v \<and> sval v < half w" if "v \<in> elems posL \<or> v \<in> elems negL" for v
    using that pL(1,2) nL(1,2) sval_range [of v] by (auto simp: elems_iff)
  have triv: "covers p n (CR_Empty (CR_Width r))" if "cr_ok p" "cr_ok n" "width (lower p) = w" "CR_IsEmptySet p \<or> CR_IsEmptySet n" for p n
    using that CR_nonempty by (auto simp: covers_def w_def CR_Width_def)
  let ?hPL = "SInt_sub_u64 (upper posL) 1" and ?hNL = "SInt_sub_u64 (upper negL) 1"
  let ?hPR = "SInt_sub_u64 (upper posR) 1" and ?hNR = "SInt_sub_u64 (upper negR) 1"
  have "\<exists>t. (if \<not> CR_IsEmptySet posL \<and> \<not> CR_IsEmptySet posR then do {
             l \<leftarrow> dv (lower posL) ?hPR; u \<leftarrow> dv ?hPL (lower posR); Some (mkCR l (SInt_add_u64 u 1))
           } else Some (CR_Empty (CR_Width r))) = Some t \<and> covers posL posR t"
  proof (cases "\<not> CR_IsEmptySet posL \<and> \<not> CR_IsEmptySet posR")
    case True
    then have ne: "\<not> CR_IsEmptySet posL" "\<not> CR_IsEmptySet posR" by auto
    note L = oPL [OF ne(1)] note R = oPR [OF ne(2)]
    have sg: "0 < slo posL" "0 < slo posR" using pos L(1) R(1) by auto
    have q: "slo posL sdiv sval ?hPR \<le> sval x sdiv sval y \<and> sval x sdiv sval y \<le> sval ?hPL sdiv slo posR \<and>
      0 \<le> slo posL sdiv sval ?hPR" if "x \<in> elems posL" "y \<in> elems posR" for x y
      using sdiv_mono_bounds(1) [OF sg(1) _ _ sg(2)] L(5) [OF that(1)] R(5) [OF that(2)] by blast
    have "\<exists>t. (do { l \<leftarrow> dv (lower posL) ?hPR; u \<leftarrow> dv ?hPL (lower posR); Some (mkCR l (SInt_add_u64 u 1)) }) = Some t
        \<and> covers posL posR t"
    proof (rule covers_part [OF pL(1) pR(1) pL(2) pR(2) L(1) R(2) L(2) R(1)])
      show "- half w < slo posL sdiv sval ?hPR \<or> sval ?hPL sdiv slo posR < half w - 1"
        using q [OF L(1) R(1)] h by linarith
      fix x y assume xy: "x \<in> elems posL" "y \<in> elems posR"
      show "sval y \<noteq> 0 \<and> (sval x \<noteq> - half w \<or> sval y \<noteq> - 1) \<and> slo posL sdiv sval ?hPR \<le> sval x sdiv sval y \<and>
        sval x sdiv sval y \<le> sval ?hPL sdiv slo posR"
        using q [OF xy] pos [of x] pos [of y] xy h by auto
    qed
    with True show ?thesis by simp
  qed (use triv pL pR in auto)
  then obtain t1 where t1: "(if \<not> CR_IsEmptySet posL \<and> \<not> CR_IsEmptySet posR then do {
             l \<leftarrow> dv (lower posL) ?hPR; u \<leftarrow> dv ?hPL (lower posR); Some (mkCR l (SInt_add_u64 u 1))
           } else Some (CR_Empty (CR_Width r))) = Some t1" "covers posL posR t1" by blast
  have "\<exists>t. (if \<not> CR_IsEmptySet posL \<and> \<not> CR_IsEmptySet negR then do {
             l \<leftarrow> dv ?hPL ?hNR; u \<leftarrow> dv (lower posL) (lower negR); Some (mkCR l (SInt_add_u64 u 1))
           } else Some (CR_Empty (CR_Width r))) = Some t \<and> covers posL negR t"
  proof (cases "\<not> CR_IsEmptySet posL \<and> \<not> CR_IsEmptySet negR")
    case True
    then have ne: "\<not> CR_IsEmptySet posL" "\<not> CR_IsEmptySet negR" by auto
    note L = oPL [OF ne(1)] note R = oNR [OF ne(2)]
    have sg: "0 < slo posL" "sval ?hNR < 0" using pos L(1) neg R(2) by auto
    have q: "sval ?hPL sdiv sval ?hNR \<le> sval x sdiv sval y \<and> sval x sdiv sval y \<le> slo posL sdiv slo negR \<and>
      slo posL sdiv slo negR \<le> 0" if "x \<in> elems posL" "y \<in> elems negR" for x y
      using sdiv_mono_bounds(3) [OF sg(1) _ _ sg(2)] L(5) [OF that(1)] R(5) [OF that(2)] by blast
    have "\<exists>t. (do { l \<leftarrow> dv ?hPL ?hNR; u \<leftarrow> dv (lower posL) (lower negR); Some (mkCR l (SInt_add_u64 u 1)) }) = Some t
        \<and> covers posL negR t"
    proof (rule covers_part [OF pL(1) nR(1) pL(2) nR(2) L(2) R(2) L(1) R(1)])
      show "- half w < sval ?hPL sdiv sval ?hNR \<or> slo posL sdiv slo negR < half w - 1"
        using q [OF L(1) R(1)] h by linarith
      fix x y assume xy: "x \<in> elems posL" "y \<in> elems negR"
      show "sval y \<noteq> 0 \<and> (sval x \<noteq> - half w \<or> sval y \<noteq> - 1) \<and> sval ?hPL sdiv sval ?hNR \<le> sval x sdiv sval y \<and>
        sval x sdiv sval y \<le> slo posL sdiv slo negR"
        using q [OF xy] pos [of x] neg [of y] xy h by auto
    qed
    with True show ?thesis by simp
  qed (use triv pL nR in auto)
  then obtain t2 where t2: "(if \<not> CR_IsEmptySet posL \<and> \<not> CR_IsEmptySet negR then do {
             l \<leftarrow> dv ?hPL ?hNR; u \<leftarrow> dv (lower posL) (lower negR); Some (mkCR l (SInt_add_u64 u 1))
           } else Some (CR_Empty (CR_Width r))) = Some t2" "covers posL negR t2" by blast
  have "\<exists>t. (if \<not> CR_IsEmptySet negL \<and> \<not> CR_IsEmptySet posR then do {
             l \<leftarrow> dv (lower negL) (lower posR); u \<leftarrow> dv ?hNL ?hPR; Some (mkCR l (SInt_add_u64 u 1))
           } else Some (CR_Empty (CR_Width r))) = Some t \<and> covers negL posR t"
  proof (cases "\<not> CR_IsEmptySet negL \<and> \<not> CR_IsEmptySet posR")
    case True
    then have ne: "\<not> CR_IsEmptySet negL" "\<not> CR_IsEmptySet posR" by auto
    note L = oNL [OF ne(1)] note R = oPR [OF ne(2)]
    have sg: "sval ?hNL < 0" "0 < slo posR" using pos L(2) neg R(1) by auto
    have q: "slo negL sdiv slo posR \<le> sval x sdiv sval y \<and> sval x sdiv sval y \<le> sval ?hNL sdiv sval ?hPR \<and>
      sval ?hNL sdiv sval ?hPR \<le> 0" if "x \<in> elems negL" "y \<in> elems posR" for x y
      using sdiv_mono_bounds(4) [OF sg(1) _ _ sg(2)] L(5) [OF that(1)] R(5) [OF that(2)] by blast
    have "\<exists>t. (do { l \<leftarrow> dv (lower negL) (lower posR); u \<leftarrow> dv ?hNL ?hPR; Some (mkCR l (SInt_add_u64 u 1)) }) = Some t
        \<and> covers negL posR t"
    proof (rule covers_part [OF nL(1) pR(1) nL(2) pR(2) L(1) R(1) L(2) R(2)])
      show "- half w < slo negL sdiv slo posR \<or> sval ?hNL sdiv sval ?hPR < half w - 1"
        using q [OF L(1) R(1)] h by linarith
      fix x y assume xy: "x \<in> elems negL" "y \<in> elems posR"
      show "sval y \<noteq> 0 \<and> (sval x \<noteq> - half w \<or> sval y \<noteq> - 1) \<and> slo negL sdiv slo posR \<le> sval x sdiv sval y \<and>
        sval x sdiv sval y \<le> sval ?hNL sdiv sval ?hPR"
        using q [OF xy] neg [of x] pos [of y] xy h by auto
    qed
    with True show ?thesis by simp
  qed (use triv nL pR in auto)
  then obtain t3 where t3: "(if \<not> CR_IsEmptySet negL \<and> \<not> CR_IsEmptySet posR then do {
             l \<leftarrow> dv (lower negL) (lower posR); u \<leftarrow> dv ?hNL ?hPR; Some (mkCR l (SInt_add_u64 u 1))
           } else Some (CR_Empty (CR_Width r))) = Some t3" "covers negL posR t3" by blast
  have "\<exists>t. (if \<not> CR_IsEmptySet negL \<and> \<not> CR_IsEmptySet negR then CR_SDivImpl_negneg r s dv negL negR
           else Some (CR_Empty (CR_Width r))) = Some t \<and> covers negL negR t"
  proof (cases "\<not> CR_IsEmptySet negL \<and> \<not> CR_IsEmptySet negR")
    case True
    then have ne: "\<not> CR_IsEmptySet negL" "\<not> CR_IsEmptySet negR" by auto
    have "width (lower s) = w" using d(3) by (simp add: w_def)
    from negneg [OF d(1) w_def [symmetric] d(2) this negL_def ne(1) negR_def ne(2) assms(2) [folded w_def]]
    obtain t where "CR_SDivImpl_negneg r s dv negL negR = Some t" "cr_ok t" "width (lower t) = w"
      "\<And>x y. x \<in> elems negL \<Longrightarrow> y \<in> elems negR \<Longrightarrow> sval x \<noteq> - half w \<or> sval y \<noteq> - 1 \<or> sval (the (dv x y)) = half w - 1 \<Longrightarrow>
        the (dv x y) \<in> elems t" by blast
    with True nL(2) show ?thesis by (simp add: covers_def)
  qed (use triv nL nR in auto)
  then obtain t4 where t4: "(if \<not> CR_IsEmptySet negL \<and> \<not> CR_IsEmptySet negR then CR_SDivImpl_negneg r s dv negL negR
           else Some (CR_Empty (CR_Width r))) = Some t4" "covers negL negR t4" by blast
  define res where "res = CR_UnionWith (CR_UnionWith t2 t3 Smallest) (CR_UnionWith t1 t4 Smallest) Signed"
  define res' where "res' = (if CR_Contains r (SInt_Zero w) \<and> (\<not> CR_IsEmptySet posR \<or> \<not> CR_IsEmptySet negR)
      then CR_UnionWith res (CR_single (SInt_Zero w)) Smallest else res)"
  have eq: "CR_SDivImpl r s dv = Some res'"
    unfolding CR_SDivImpl_def Let_def CR_Width_def w_def [symmetric]
      pos_range_def [symmetric] neg_range_def [symmetric] posL_def [symmetric] negL_def [symmetric]
      posR_def [symmetric] negR_def [symmetric]
    by (simp only: t1(1) [unfolded CR_Width_def, folded w_def] t2(1) [unfolded CR_Width_def, folded w_def]
        t3(1) [unfolded CR_Width_def, folded w_def] t4(1) [unfolded CR_Width_def, folded w_def]
        Option.bind.bind_lunit res'_def res_def)
  have tw: "cr_ok t1" "cr_ok t2" "cr_ok t3" "cr_ok t4" "width (lower t1) = w" "width (lower t2) = w"
    "width (lower t3) = w" "width (lower t4) = w"
    using t1(2) t2(2) t3(2) t4(2) pL(2) nL(2) by (simp_all add: covers_def)
  have u1: "union_spec t2 t3 (CR_UnionWith t2 t3 Smallest)" "union_spec t1 t4 (CR_UnionWith t1 t4 Smallest)"
    using tw by (auto intro!: CR_UnionWith_spec simp: cr_same_def)
  then have u2: "union_spec (CR_UnionWith t2 t3 Smallest) (CR_UnionWith t1 t4 Smallest) res"
    unfolding res_def using tw by (intro CR_UnionWith_spec) (simp add: cr_same_def union_spec_def)
  have res: "cr_ok res" "width (lower res) = w" "elems t1 \<subseteq> elems res" "elems t2 \<subseteq> elems res" "elems t3 \<subseteq> elems res" "elems t4 \<subseteq> elems res"
    using u1 u2 tw by (auto simp: union_spec_def)
  have z: "sint_ok (SInt_Zero w)" "width (SInt_Zero w) = w" by simp_all
  have "union_spec res (CR_single (SInt_Zero w)) (CR_UnionWith res (CR_single (SInt_Zero w)) Smallest)"
    using res CR_single_ok [OF z(1)] by (intro CR_UnionWith_spec) (simp add: cr_same_def)
  then have res': "cr_ok res'" "width (lower res') = w" "elems res \<subseteq> elems res'"
    "CR_Contains r (SInt_Zero w) \<Longrightarrow> \<not> CR_IsEmptySet posR \<or> \<not> CR_IsEmptySet negR \<Longrightarrow> SInt_Zero w \<in> elems res'"
    using res CR_single_mem [OF z(1)] by (auto simp: res'_def union_spec_def)
  show thesis
  proof (rule that [OF eq res'(1)])
    show "width (lower res') = width (lower r)" using res'(2) by (simp add: w_def)
    fix x y assume xy: "x \<in> elems r" "y \<in> elems s" "uval y \<noteq> 0"
      "sval x \<noteq> - half (width (lower r)) \<or> sval y \<noteq> - 1 \<or> sval (the (dv x y)) = half (width (lower r)) - 1"
    have ok: "sint_ok x" "width x = w" "sint_ok y" "width y = w" using xy d by (simp_all add: elems_iff w_def)
    have y0: "sval y \<noteq> 0" using xy(3) sval_0_iff [OF ok(3)] by simp
    have my: "0 < sval y \<Longrightarrow> y \<in> elems posR" "sval y < 0 \<Longrightarrow> y \<in> elems negR"
      using xy(2) pR(3) nR(3) ok filters(7,8) by auto
    have mx: "0 < sval x \<Longrightarrow> x \<in> elems posL" "sval x < 0 \<Longrightarrow> x \<in> elems negL"
      using xy(1) pL(3) nL(3) ok filters(7,8) by auto
    note cov = t1(2) t2(2) t3(2) t4(2)
    show "the (dv x y) \<in> elems res'"
    proof (cases "sval x = 0")
      case True
      obtain q where q: "dv x y = Some q" "sint_ok q" "width q = w" "sval q = sval x sdiv sval y"
        using dv_obtain [OF ok y0] True h by auto
      then have "q = SInt_Zero w" using True sval_0_iff [OF q(2)] by (simp add: SInt_eq_iff SInt_const_sem)
      moreover have "x = SInt_Zero w" using True ok sval_0_iff [OF ok(1)] by (simp add: SInt_eq_iff SInt_const_sem)
      then have "CR_Contains r (SInt_Zero w)" using xy(1) by (simp add: elems_def)
      moreover have "\<not> CR_IsEmptySet posR \<or> \<not> CR_IsEmptySet negR"
        using my y0 CR_nonempty pR(1) nR(1) by (metis linorder_neqE_linordered_idom)
      ultimately show ?thesis using res'(4) q(1) by simp
    next
      case False
      have "the (dv x y) \<in> elems res"
      proof -
        note c = xy(4) [folded w_def]
        consider "0 < sval x" "0 < sval y" | "0 < sval x" "sval y < 0" | "sval x < 0" "0 < sval y" | "sval x < 0" "sval y < 0"
          using False y0 by linarith
        then show ?thesis
        proof cases
          case 1
          then show ?thesis using covers_mem [OF cov(1) pL(2) mx(1) my(1) c] res(3) by blast
        next
          case 2
          then show ?thesis using covers_mem [OF cov(2) pL(2) mx(1) my(2) c] res(4) by blast
        next
          case 3
          then show ?thesis using covers_mem [OF cov(3) nL(2) mx(2) my(1) c] res(5) by blast
        next
          case 4
          then show ?thesis using covers_mem [OF cov(4) nL(2) mx(2) my(2) c] res(6) by blast
        qed
      qed
      then show ?thesis using res'(3) by blast
    qed
  qed
qed

end


text \<open>Both divisions of \<open>SInt\<close> are instances.\<close>

lemma sdiv_fits:
  assumes "same a b" "uval b \<noteq> 0" "sval a \<noteq> - half (width a) \<or> sval b \<noteq> - 1"
  shows "srange (width a) (sval a sdiv sval b)"
proof -
  note ok = sameD [OF assms(1)]
  have b0: "sval b \<noteq> 0" using sval_0_iff [OF ok(2)] assms(2) by simp
  have r: "- half (width a) \<le> sval a" "sval a < half (width a)" using sval_range [OF ok(1)] by auto
  note p = sdiv_props [OF b0, of "sval a"]
  show ?thesis
  proof (cases "sval a = - half (width a)")
    case False
    then show ?thesis using p(4) r by (auto simp: srange_def)
  next
    case True
    then have b1: "sval b \<noteq> - 1" using assms(3) by simp
    have h: "128 \<le> half (width a)" by (rule half_ge)
    show ?thesis
    proof (cases "0 < sval b")
      case T: True
      then have "sval a sdiv sval b \<le> 0" 
        using sdiv_mono_bounds(4) [of "sval a" "sval a" "sval a" "sval b" "sval b" "sval b"] True T h by linarith
      then show ?thesis using p(4) True h by (auto simp: srange_def)
    next
      case F: False
      then have "2 \<le> \<bar>sval b\<bar>" using b0 b1 by linarith
      then have "\<bar>sval a sdiv sval b\<bar> * 2 \<le> \<bar>sval a sdiv sval b\<bar> * \<bar>sval b\<bar>" by (intro mult_left_mono) auto
      then have "\<bar>sval a sdiv sval b\<bar> * 2 \<le> half (width a)" using p(3) True h by linarith
      then show ?thesis using h unfolding srange_def by linarith
    qed
  qed
qed

lemma SInt_SDiv_exact:
  assumes "same a b" "uval b \<noteq> 0" "sval a \<noteq> - half (width a) \<or> sval b \<noteq> - 1"
  shows "sval (the (SInt_SDiv a b)) = sval a sdiv sval b"
  using SInt_SDiv_sem [OF assms(1,2)] sdiv_fits [OF assms] sval_mkmod by fastforce

lemma SInt_SDivSat_eq:
  assumes "same a b" "sval a \<noteq> - half (width a) \<or> sval b \<noteq> - 1"
  shows "SInt_SDivSat a b = SInt_SDiv a b"
  using assms SInt_SVal_minus_1 [of b] sval_const_tests(1) [of a] by (auto simp: SInt_SDivSat_def same_def)

lemma SInt_SDivSat_special:
  assumes "same a b" "sval a = - half (width a)" "sval b = - 1"
  shows "SInt_SDivSat a b = Some (SInt_SMaxValue (width a))"
  using assms SInt_SVal_minus_1 [of b] sval_const_tests(1) [of a] by (auto simp: SInt_SDivSat_def same_def)

interpretation sdiv: signed_div SInt_SDiv
proof unfold_locales
  show "\<exists>q. SInt_SDiv a b = Some q \<and> same a q" if "same a b" "uval b \<noteq> 0" for a b
    using SInt_SDiv_sem [OF that] that(1) by (auto simp: same_def)
qed (rule SInt_SDiv_exact)

interpretation sdivsat: signed_div SInt_SDivSat
proof unfold_locales
  fix a b assume ab: "same a b" "uval b \<noteq> 0"
  show "\<exists>q. SInt_SDivSat a b = Some q \<and> same a q"
  proof (cases "sval a \<noteq> - half (width a) \<or> sval b \<noteq> - 1")
    case True
    then show ?thesis using SInt_SDivSat_eq [OF ab(1)] sdiv.dv_total [OF ab] by simp
  next
    case False
    then show ?thesis using SInt_SDivSat_special [OF ab(1)] ab(1) by (auto simp: same_def)
  qed
  show "sval (the (SInt_SDivSat a b)) = sval a sdiv sval b" if "sval a \<noteq> - half (width a) \<or> sval b \<noteq> - 1"
    using SInt_SDivSat_eq [OF ab(1) that] SInt_SDiv_exact [OF ab that] by simp
qed

end
