(* ===== verification/RangeTheorems.thy ===== *)
theory RangeTheorems
  imports RangeSDiv
begin

section \<open>The properties of \<open>SInt\<close> and \<open>ConstantRange\<close>\<close>

text \<open>
  What a client of the two classes may rely on, each with an instance at a concrete
  input. \<open>elems r\<close> is the set of numbers that \<open>r.Contains\<close> accepts.
\<close>

subsection \<open>\<open>SInt\<close>\<close>

text \<open>The overflow flags of addition and subtraction are set exactly when the exact sum or
  difference does not fit the width, and the result is exact otherwise.\<close>

theorem SInt_AddSubOvf_exact:
  assumes "same a b"
  shows "(snd (SInt_SAddOvf a b) \<longleftrightarrow> \<not> srange (width a) (sval a + sval b)) \<and>
    (snd (SInt_UAddOvf a b) \<longleftrightarrow> \<not> urange (width a) (uval a + uval b)) \<and>
    (snd (SInt_SSubOvf a b) \<longleftrightarrow> \<not> srange (width a) (sval a - sval b)) \<and>
    (snd (SInt_USubOvf a b) \<longleftrightarrow> \<not> urange (width a) (uval a - uval b)) \<and>
    (\<not> snd (SInt_SAddOvf a b) \<longrightarrow> sval (fst (SInt_SAddOvf a b)) = sval a + sval b) \<and>
    (\<not> snd (SInt_SSubOvf a b) \<longrightarrow> sval (fst (SInt_SSubOvf a b)) = sval a - sval b)"
  using SInt_SAddOvf_sem [OF assms] SInt_UAddOvf_sem [OF assms] SInt_SSubOvf_sem [OF assms]
    SInt_USubOvf_sem [OF assms] by simp

lemma SInt_AddSubOvf_exact_witness:
  "snd (SInt_SAddOvf (mkSInt I8 100) (mkSInt I8 28)) \<and> \<not> srange I8 128"
proof -
  have "same (mkSInt I8 100) (mkSInt I8 28)" by code_simp
  note * = SInt_AddSubOvf_exact [OF this]
  have "sval (mkSInt I8 100) + sval (mkSInt I8 28) = 128" by code_simp
  moreover have "\<not> srange I8 128" by code_simp
  ultimately show ?thesis using * by (simp only: mkSInt_width) simp
qed

text \<open>Signed multiplication never divides by zero in its overflow test, whose flag is set
  exactly when the product does not fit; otherwise the result is the product.\<close>

theorem SInt_SMulOvf_exact:
  assumes "same a b"
  shows "\<exists>r ov. SInt_SMulOvf a b = Some (r, ov) \<and> (ov \<longleftrightarrow> \<not> srange (width a) (sval a * sval b)) \<and>
    (\<not> ov \<longrightarrow> sval r = sval a * sval b)"
  using SInt_SMulOvf_sem [OF assms] by simp

lemma SInt_SMulOvf_exact_witness:
  "\<exists>r ov. SInt_SMulOvf (mkSInt I8 128) (mkSInt I8 255) = Some (r, ov) \<and>
     (ov \<longleftrightarrow> \<not> srange I8 (sval (mkSInt I8 128) * sval (mkSInt I8 255)))"
proof -
  have "same (mkSInt I8 128) (mkSInt I8 255)" by code_simp
  from SInt_SMulOvf_exact [OF this] show ?thesis by auto
qed

text \<open>The unsigned overflow test, which looks at leading zeroes and multiplies half of the
  left operand first, is set exactly when the product does not fit, and the result is the
  product modulo the width.\<close>

theorem SInt_UMulOvf_exact:
  assumes "same a b"
  shows "(snd (SInt_UMulOvf a b) \<longleftrightarrow> \<not> urange (width a) (uval a * uval b)) \<and>
    uval (fst (SInt_UMulOvf a b)) = (uval a * uval b) mod modulus (width a)"
  using SInt_UMulOvf_sem [OF assms] by (simp add: SInt_ring_sem)

lemma SInt_UMulOvf_exact_witness:
  "snd (SInt_UMulOvf (mkSInt I8 16) (mkSInt I8 16)) \<longleftrightarrow> \<not> urange I8 (uval (mkSInt I8 16) * uval (mkSInt I8 16))"
proof -
  have "same (mkSInt I8 16) (mkSInt I8 16)" by code_simp
  from SInt_UMulOvf_exact [OF this] show ?thesis by auto
qed

text \<open>The saturating operations clamp the exact result to the range of the width.\<close>

theorem SInt_Sat_clamps:
  assumes "same a b"
  shows "sval (SInt_SAddSat a b) = sclamp (width a) (sval a + sval b) \<and>
    sval (SInt_SSubSat a b) = sclamp (width a) (sval a - sval b) \<and>
    uval (SInt_UAddSat a b) = uclamp (width a) (uval a + uval b) \<and>
    uval (SInt_USubSat a b) = uclamp (width a) (uval a - uval b) \<and>
    uval (SInt_UMulSat a b) = uclamp (width a) (uval a * uval b) \<and>
    (\<exists>r. SInt_SMulSat a b = Some r \<and> sval r = sclamp (width a) (sval a * sval b))"
  using SInt_addsub_sat_sem [OF assms] SInt_UMulSat_sem [OF assms] SInt_SMulSat_sem [OF assms] by blast

lemma SInt_Sat_clamps_witness:
  "sval (SInt_SAddSat (mkSInt I8 100) (mkSInt I8 100)) = 127"
proof -
  have "same (mkSInt I8 100) (mkSInt I8 100)" by code_simp
  moreover have "sclamp I8 (sval (mkSInt I8 100) + sval (mkSInt I8 100)) = 127" by code_simp
  ultimately show ?thesis using SInt_Sat_clamps [of "mkSInt I8 100" "mkSInt I8 100"] by simp
qed

text \<open>Signed division and remainder truncate towards zero, modulo the width, and are defined
  for every divisor other than zero.\<close>

theorem SInt_SDiv_SRem_truncate:
  assumes "same a b" "uval b \<noteq> 0"
  shows "(\<exists>q. SInt_SDiv a b = Some q \<and> uval q = (sval a sdiv sval b) mod modulus (width a)) \<and>
    (\<exists>m. SInt_SRem a b = Some m \<and> sval m = sval a smod sval b)"
  using SInt_SDiv_sem [OF assms] SInt_SRem_sval [OF assms] by blast

lemma SInt_SDiv_SRem_truncate_witness:
  "\<exists>m. SInt_SRem (mkSInt I8 249) (mkSInt I8 2) = Some m \<and> sval m = - 1"
proof -
  have "same (mkSInt I8 249) (mkSInt I8 2)" "uval (mkSInt I8 2) \<noteq> 0" by code_simp+
  moreover have "sval (mkSInt I8 249) smod sval (mkSInt I8 2) = - 1" by code_simp
  ultimately show ?thesis using SInt_SDiv_SRem_truncate [of "mkSInt I8 249" "mkSInt I8 2"] by simp
qed



text \<open>The bisection loop that \<open>Arithmetic.h\<close> falls back to counts the same leading zeroes as
  the compiler's builtin.\<close>

theorem LeadingZeroesCounter_is_builtin:
  "v \<noteq> 0 \<Longrightarrow> LeadingZeroesCounter_Count (v :: u64) = Clz v"
  by (rule LeadingZeroesCounter_Count_64)

lemma LeadingZeroesCounter_is_builtin_witness:
  "LeadingZeroesCounter_Count (5 :: u64) = 61"
proof -
  have "LeadingZeroesCounter_Count (5 :: u64) = Clz 5" by (rule LeadingZeroesCounter_is_builtin) simp
  also have "Clz 5 = 61" by code_simp
  finally show ?thesis .
qed

subsection \<open>\<open>ConstantRange\<close>: sets\<close>

text \<open>C34: an intersection keeps the invariant, has every common element, stays within one of the
  operands, and is exact whenever the common elements form a range.\<close>

theorem CR_IntersectWith_correct:
  assumes "cr_same r s"
  shows "cr_ok (CR_IntersectWith r s t) \<and> elems r \<inter> elems s \<subseteq> elems (CR_IntersectWith r s t) \<and>
    (elems (CR_IntersectWith r s t) \<subseteq> elems r \<or> elems (CR_IntersectWith r s t) \<subseteq> elems s) \<and>
    (representable (CR_Width r) (elems r \<inter> elems s) \<longrightarrow> elems (CR_IntersectWith r s t) = elems r \<inter> elems s)"
  using CR_IntersectWith_spec [OF assms] by (simp add: inter_spec_def CR_Width_def)

lemma CR_IntersectWith_correct_witness:
  "elems (mkCR (mkSInt I8 200) (mkSInt I8 10)) \<inter> elems (mkCR (mkSInt I8 5) (mkSInt I8 100))
    \<subseteq> elems (mkCR (mkSInt I8 5) (mkSInt I8 10))"
proof -
  have "cr_same (mkCR (mkSInt I8 200) (mkSInt I8 10)) (mkCR (mkSInt I8 5) (mkSInt I8 100))" by code_simp
  moreover have "CR_IntersectWith (mkCR (mkSInt I8 200) (mkSInt I8 10)) (mkCR (mkSInt I8 5) (mkSInt I8 100)) Smallest
      = mkCR (mkSInt I8 5) (mkSInt I8 10)" by code_simp
  ultimately show ?thesis
    using CR_IntersectWith_correct [of "mkCR (mkSInt I8 200) (mkSInt I8 10)" "mkCR (mkSInt I8 5) (mkSInt I8 100)" Smallest]
    by simp
qed



text \<open>The range of a comparison holds exactly the numbers that satisfy it, read as signed or
  unsigned as asked.\<close>

theorem CR_From_correct:
  assumes "sint_ok v"
  shows "cr_ok (CR_From rel v s) \<and> elems (CR_From rel v s) = {x. same v x \<and> rel_sem rel (ival s x) (ival s v)}"
  using CR_From_ok(1) [OF assms] CR_From_exact [OF assms] by blast

lemma CR_From_correct_witness:
  "elems (mkCR (mkSInt I8 128) (mkSInt I8 3)) = {x. same (mkSInt I8 3) x \<and> sval x < sval (mkSInt I8 3)}"
proof -
  have "sint_ok (mkSInt I8 3)" "CR_From LT (mkSInt I8 3) True = mkCR (mkSInt I8 128) (mkSInt I8 3)" by code_simp+
  then show ?thesis using CR_From_correct [of "mkSInt I8 3" LT True] by (simp add: rel_sem_def ival_def)
qed

text \<open>The inverse is the complement, and a difference has every element of the left operand
  that is not in the right one, and no other where those form a range.\<close>

theorem CR_Inverse_Difference_correct:
  assumes "cr_same r s"
  shows "cr_ok (CR_Inverse s) \<and> elems (CR_Inverse s) = {v. same (lower s) v} - elems s \<and>
    cr_ok (CR_Difference r s) \<and> elems r - elems s \<subseteq> elems (CR_Difference r s) \<and>
    (representable (CR_Width r) (elems r - elems s) \<longrightarrow> elems (CR_Difference r s) = elems r - elems s)"
proof -
  note d = cr_sameD [OF assms]
  have inv: "cr_ok (CR_Inverse s)" "elems (CR_Inverse s) = {v. same (lower s) v} - elems s"
    using CR_Inverse_ok(1) [OF d(2)] CR_Inverse_exact [OF d(2)] by auto
  moreover have "elems r \<inter> ({v. same (lower s) v} - elems s) = elems r - elems s"
    using d cr_okD(1) [OF d(2)] by (auto simp: elems_iff same_def)
  ultimately show ?thesis
    using CR_Difference_spec [OF assms] by (simp add: inter_spec_def CR_Width_def)
qed

lemma CR_Inverse_Difference_correct_witness:
  "elems (mkCR (mkSInt I8 5) (mkSInt I8 100)) - elems (mkCR (mkSInt I8 50) (mkSInt I8 10))
    \<subseteq> elems (mkCR (mkSInt I8 10) (mkSInt I8 50))"
proof -
  have "cr_same (mkCR (mkSInt I8 5) (mkSInt I8 100)) (mkCR (mkSInt I8 50) (mkSInt I8 10))" by code_simp
  moreover have "CR_Difference (mkCR (mkSInt I8 5) (mkSInt I8 100)) (mkCR (mkSInt I8 50) (mkSInt I8 10))
    = mkCR (mkSInt I8 10) (mkSInt I8 50)" by code_simp
  ultimately show ?thesis
    using CR_Inverse_Difference_correct [of "mkCR (mkSInt I8 5) (mkSInt I8 100)" "mkCR (mkSInt I8 50) (mkSInt I8 10)"]
    by simp
qed

text \<open>Splitting a wrapping range, in either reading, gives two disjoint parts that make it up.\<close>

theorem CR_SplitWrapping_partition:
  assumes "cr_ok r" "if asUnsigned then CR_IsWrappedSet r else CR_IsSignWrappedSet r"
  shows "elems (fst (CR_SplitWrapping r asUnsigned)) \<union> elems (snd (CR_SplitWrapping r asUnsigned)) = elems r \<and>
    elems (fst (CR_SplitWrapping r asUnsigned)) \<inter> elems (snd (CR_SplitWrapping r asUnsigned)) = {}"
  using CR_SplitWrapping_spec [OF assms] by blast

lemma CR_SplitWrapping_partition_witness:
  "elems (mkCR (mkSInt I8 0) (mkSInt I8 10)) \<union> elems (mkCR (mkSInt I8 200) (mkSInt I8 0))
    = elems (mkCR (mkSInt I8 200) (mkSInt I8 10))"
proof -
  let ?r = "mkCR (mkSInt I8 200) (mkSInt I8 10)"
  have "cr_ok ?r" "if True then CR_IsWrappedSet ?r else CR_IsSignWrappedSet ?r" by code_simp+
  moreover have "fst (CR_SplitWrapping ?r True) = mkCR (mkSInt I8 0) (mkSInt I8 10)"
    "snd (CR_SplitWrapping ?r True) = mkCR (mkSInt I8 200) (mkSInt I8 0)" by code_simp+
  ultimately show ?thesis using CR_SplitWrapping_partition [of ?r True] by simp
qed

subsection \<open>\<open>ConstantRange\<close>: arithmetic\<close>

text \<open>C33: addition is exact: the result has the sums of elements modulo the width, and nothing else.\<close>

theorem CR_Add_exact:
  assumes "cr_same r s"
  shows "cr_ok (CR_Add r s) \<and> elems (CR_Add r s) = {SInt_add x y | x y. x \<in> elems r \<and> y \<in> elems s}"
  using CR_Add_ok_sound(1,3) [OF assms] CR_Add_exact_mem [OF assms] by blast

lemma CR_Add_exact_witness:
  "elems (mkCR (mkSInt I8 254) (mkSInt I8 4)) =
     {SInt_add x y | x y. x \<in> elems (mkCR (mkSInt I8 250) (mkSInt I8 253)) \<and> y \<in> elems (mkCR (mkSInt I8 4) (mkSInt I8 8))}"
proof -
  have "cr_same (mkCR (mkSInt I8 250) (mkSInt I8 253)) (mkCR (mkSInt I8 4) (mkSInt I8 8))" by code_simp
  moreover have "CR_Add (mkCR (mkSInt I8 250) (mkSInt I8 253)) (mkCR (mkSInt I8 4) (mkSInt I8 8))
    = mkCR (mkSInt I8 254) (mkSInt I8 4)" by code_simp
  ultimately show ?thesis
    using CR_Add_exact [of "mkCR (mkSInt I8 250) (mkSInt I8 253)" "mkCR (mkSInt I8 4) (mkSInt I8 8)"] by simp
qed

text \<open>Subtraction covers the differences modulo the width, and its result has as many elements as
  the operands' sizes less one, or the whole width.\<close>

theorem CR_Sub_sound:
  assumes "cr_same r s"
  shows "cr_ok (CR_Sub r s) \<and> (\<forall>x \<in> elems r. \<forall>y \<in> elems s. SInt_sub x y \<in> elems (CR_Sub r s)) \<and>
    (\<not> CR_IsEmptySet r \<longrightarrow> \<not> CR_IsEmptySet s \<longrightarrow>
      csize (CR_Sub r s) = min (modulus (CR_Width r)) (csize r + csize s - 1))"
  using CR_Sub_ok_sound [OF assms] by (simp add: CR_Width_def)

lemma CR_Sub_sound_witness:
  "{SInt_sub x y |x y. x \<in> elems (mkCR (mkSInt I8 10) (mkSInt I8 20)) \<and> y \<in> elems (mkCR (mkSInt I8 2) (mkSInt I8 15))}
     \<subseteq> elems (mkCR (mkSInt I8 252) (mkSInt I8 18))"
proof -
  have "cr_same (mkCR (mkSInt I8 10) (mkSInt I8 20)) (mkCR (mkSInt I8 2) (mkSInt I8 15))" by code_simp
  moreover have "CR_Sub (mkCR (mkSInt I8 10) (mkSInt I8 20)) (mkCR (mkSInt I8 2) (mkSInt I8 15)) = mkCR (mkSInt I8 252) (mkSInt I8 18)"
    by code_simp
  ultimately show ?thesis
    using CR_Sub_sound [of "mkCR (mkSInt I8 10) (mkSInt I8 20)" "mkCR (mkSInt I8 2) (mkSInt I8 15)"] by auto
qed

text \<open>Both multiplications cover the products modulo the width, and the signed one never fails.\<close>

theorem CR_Mul_sound:
  assumes "cr_same r s" "x \<in> elems r" "y \<in> elems s"
  shows "SInt_mul x y \<in> elems (CR_UMul r s) \<and> (\<exists>t. CR_SMul r s = Some t \<and> cr_ok t \<and> SInt_mul x y \<in> elems t)"
  using CR_UMul_sound [OF assms] CR_SMul_total [OF assms(1)] CR_SMul_sound [OF assms] by auto

lemma CR_Mul_sound_witness:
  "SInt_mul (mkSInt I8 254) (mkSInt I8 5) \<in> elems (mkCR (mkSInt I8 241) (mkSInt I8 11))"
proof -
  let ?r = "mkCR (mkSInt I8 253) (mkSInt I8 3)" and ?s = "mkCR (mkSInt I8 4) (mkSInt I8 6)"
  have "cr_same ?r ?s" "same (lower ?r) (mkSInt I8 254)" "CR_Contains ?r (mkSInt I8 254)"
    "same (lower ?s) (mkSInt I8 5)" "CR_Contains ?s (mkSInt I8 5)" by code_simp+
  moreover have "CR_SMul ?r ?s = Some (mkCR (mkSInt I8 241) (mkSInt I8 11))" by code_simp
  ultimately show ?thesis using CR_Mul_sound [of ?r ?s "mkSInt I8 254" "mkSInt I8 5"] by (auto simp: elems_def)
qed

text \<open>Unsigned division and remainder never divide by zero, and cover the quotients and
  remainders by every divisor other than zero.\<close>

theorem CR_UDiv_URem_sound:
  assumes "cr_same r s"
  shows "(\<exists>t. CR_UDiv r s = Some t \<and> cr_ok t \<and>
      (\<forall>x \<in> elems r. \<forall>y \<in> elems s. uval y \<noteq> 0 \<longrightarrow> the (SInt_UDiv x y) \<in> elems t)) \<and>
    (\<exists>t. CR_URem r s = Some t \<and> cr_ok t \<and>
      (\<forall>x \<in> elems r. \<forall>y \<in> elems s. uval y \<noteq> 0 \<longrightarrow> the (SInt_URem x y) \<in> elems t))"
  using CR_UDiv_ok_sound [OF assms] CR_URem_ok_sound [OF assms] by metis

lemma CR_UDiv_URem_sound_witness:
  "{the (SInt_UDiv x y) |x y. x \<in> elems (mkCR (mkSInt I8 100) (mkSInt I8 200)) \<and>
      y \<in> elems (mkCR (mkSInt I8 6) (mkSInt I8 1)) \<and> uval y \<noteq> 0} \<subseteq> elems (mkCR (mkSInt I8 0) (mkSInt I8 34))"
proof -
  let ?r = "mkCR (mkSInt I8 100) (mkSInt I8 200)" and ?s = "mkCR (mkSInt I8 6) (mkSInt I8 1)"
  have "cr_same ?r ?s" by code_simp
  moreover have "CR_UDiv ?r ?s = Some (mkCR (mkSInt I8 0) (mkSInt I8 34))" by code_simp
  ultimately show ?thesis using CR_UDiv_URem_sound [of ?r ?s] by auto
qed

text \<open>Signed remainder never divides by zero, and covers the remainders by every divisor other
  than zero.\<close>

theorem CR_SRem_sound:
  assumes "cr_same r s"
  shows "\<exists>t. CR_SRem r s = Some t \<and> cr_ok t \<and>
    (\<forall>x \<in> elems r. \<forall>y \<in> elems s. uval y \<noteq> 0 \<longrightarrow> the (SInt_SRem x y) \<in> elems t)"
  using CR_SRem_ok_sound [OF assms] by metis

lemma CR_SRem_sound_witness:
  "{the (SInt_SRem x y) |x y. x \<in> elems (mkCR (mkSInt I8 250) (mkSInt I8 100)) \<and>
      y \<in> elems (mkCR (mkSInt I8 254) (mkSInt I8 8)) \<and> uval y \<noteq> 0} \<subseteq> elems (mkCR (mkSInt I8 250) (mkSInt I8 7))"
proof -
  let ?r = "mkCR (mkSInt I8 250) (mkSInt I8 100)" and ?s = "mkCR (mkSInt I8 254) (mkSInt I8 8)"
  have "cr_same ?r ?s" by code_simp
  moreover have "CR_SRem ?r ?s = Some (mkCR (mkSInt I8 250) (mkSInt I8 7))" by code_simp
  ultimately show ?thesis using CR_SRem_sound [of ?r ?s] by auto
qed

text \<open>Signed division, plain and saturating, never divides by zero and covers the quotients by
  every divisor other than zero, when the upper bound of the dividend is not one more than the
  least number. The plain division leaves out the one quotient that does not fit; the
  saturating one covers what it saturates to.\<close>

theorem CR_SDiv_sound:
  assumes "cr_same r s" "uval (upper r) \<noteq> half (CR_Width r) + 1"
  shows "(\<exists>t. CR_SDiv r s = Some t \<and> cr_ok t \<and>
      (\<forall>x \<in> elems r. \<forall>y \<in> elems s. uval y \<noteq> 0 \<and> (sval x \<noteq> - half (CR_Width r) \<or> sval y \<noteq> - 1) \<longrightarrow>
         the (SInt_SDiv x y) \<in> elems t)) \<and>
    (\<exists>t. CR_SDivSat r s = Some t \<and> cr_ok t \<and>
      (\<forall>x \<in> elems r. \<forall>y \<in> elems s. uval y \<noteq> 0 \<longrightarrow> the (SInt_SDivSat x y) \<in> elems t))"
proof -
  have u: "up r \<noteq> half (width (lower r)) + 1" using assms(2) by (simp add: CR_Width_def)
  have sat: "sval x \<noteq> - half (width (lower r)) \<or> sval y \<noteq> - 1 \<or>
      sval (the (SInt_SDivSat x y)) = half (width (lower r)) - 1" if "x \<in> elems r" "y \<in> elems s" for x y
    using that assms(1) SInt_SDivSat_special [of x y] by (auto simp: elems_iff cr_same_def same_def)
  show ?thesis
    using sdiv.SDivImpl_ok_sound [OF assms(1) u] sdivsat.SDivImpl_ok_sound [OF assms(1) u] sat
    unfolding CR_SDiv_def CR_SDivSat_def CR_Width_def by metis
qed

lemma CR_SDiv_sound_witness:
  "\<exists>t. CR_SDiv (mkCR (mkSInt I8 128) (mkSInt I8 5)) (mkCR (mkSInt I8 254) (mkSInt I8 3)) = Some t \<and> cr_ok t"
proof -
  let ?r = "mkCR (mkSInt I8 128) (mkSInt I8 5)" and ?s = "mkCR (mkSInt I8 254) (mkSInt I8 3)"
  have "cr_same ?r ?s" "uval (upper ?r) \<noteq> half (CR_Width ?r) + 1" by code_simp+
  from CR_SDiv_sound [OF this] show ?thesis by blast
qed

text \<open>C37: without that condition signed division is not sound: dividing
  \<open>{-1, 0, ..., 127, -128}\<close> by the 8-bit numbers other than 0 and 1 leaves out 64, the
  quotient of -128 by -2.\<close>

theorem CR_SDiv_unsound:
  "\<exists>t. CR_SDiv (mkCR (mkSInt I8 255) (mkSInt I8 129)) (mkCR (mkSInt I8 2) (mkSInt I8 0)) = Some t \<and>
     mkSInt I8 128 \<in> elems (mkCR (mkSInt I8 255) (mkSInt I8 129)) \<and>
     mkSInt I8 254 \<in> elems (mkCR (mkSInt I8 2) (mkSInt I8 0)) \<and>
     SInt_SDiv (mkSInt I8 128) (mkSInt I8 254) = Some (mkSInt I8 64) \<and> mkSInt I8 64 \<notin> elems t"
proof -
  have "CR_SDiv (mkCR (mkSInt I8 255) (mkSInt I8 129)) (mkCR (mkSInt I8 2) (mkSInt I8 0))
      = Some (mkCR (mkSInt I8 129) (mkSInt I8 64))" by code_simp
  moreover have "same (mkSInt I8 255) (mkSInt I8 128)" "same (mkSInt I8 2) (mkSInt I8 254)"
    "CR_Contains (mkCR (mkSInt I8 255) (mkSInt I8 129)) (mkSInt I8 128)"
    "CR_Contains (mkCR (mkSInt I8 2) (mkSInt I8 0)) (mkSInt I8 254)"
    "SInt_SDiv (mkSInt I8 128) (mkSInt I8 254) = Some (mkSInt I8 64)"
    "\<not> CR_Contains (mkCR (mkSInt I8 129) (mkSInt I8 64)) (mkSInt I8 64)" by code_simp+
  ultimately show ?thesis by (simp add: elems_def)
qed

text \<open>The saturating operations on ranges cover the saturated results of their elements.\<close>

theorem CR_Sat_sound:
  assumes "cr_same r s" "x \<in> elems r" "y \<in> elems s"
  shows "SInt_UAddSat x y \<in> elems (CR_UAddSat r s) \<and> SInt_SAddSat x y \<in> elems (CR_SAddSat r s) \<and>
    SInt_USubSat x y \<in> elems (CR_USubSat r s) \<and> SInt_SSubSat x y \<in> elems (CR_SSubSat r s) \<and>
    SInt_UMulSat x y \<in> elems (CR_UMulSat r s) \<and>
    (\<exists>t z. CR_SMulSat r s = Some t \<and> cr_ok t \<and> SInt_SMulSat x y = Some z \<and> z \<in> elems t)"
  using CR_UAddSat_sound [OF assms] CR_SAddSat_sound [OF assms] CR_USubSat_sound [OF assms]
    CR_SSubSat_sound [OF assms] CR_UMulSat_sound [OF assms] CR_SMulSat_sound [OF assms] by blast

lemma CR_Sat_sound_witness:
  "SInt_SAddSat (mkSInt I8 120) (mkSInt I8 100) \<in> elems (mkCR (mkSInt I8 110) (mkSInt I8 128))"
proof -
  let ?r = "mkCR (mkSInt I8 100) (mkSInt I8 125)" and ?s = "mkCR (mkSInt I8 10) (mkSInt I8 101)"
  have "cr_same ?r ?s" "same (lower ?r) (mkSInt I8 120)" "CR_Contains ?r (mkSInt I8 120)"
    "same (lower ?s) (mkSInt I8 100)" "CR_Contains ?s (mkSInt I8 100)" by code_simp+
  moreover have "CR_SAddSat ?r ?s = mkCR (mkSInt I8 110) (mkSInt I8 128)" by code_simp
  ultimately show ?thesis using CR_Sat_sound [of ?r ?s "mkSInt I8 120" "mkSInt I8 100"] by (auto simp: elems_def)
qed

text \<open>Truncation keeps the invariant and covers the truncated elements.\<close>

theorem CR_Truncate_sound:
  assumes "cr_ok r" "bits n < bits (CR_Width r)"
  shows "cr_ok (CR_Truncate r n) \<and> CR_Width (CR_Truncate r n) = n \<and>
    (\<forall>x \<in> elems r. SInt_Trunc x n \<in> elems (CR_Truncate r n))"
  using CR_Truncate_ok_sound [of r n] assms by (simp add: CR_Width_def)

lemma CR_Truncate_sound_witness:
  "(\<lambda>x. SInt_Trunc x I8) ` elems (mkCR (mkSInt I16 60000) (mkSInt I16 100))
     \<subseteq> elems (CR_Truncate (mkCR (mkSInt I16 60000) (mkSInt I16 100)) I8)"
proof -
  have "cr_ok (mkCR (mkSInt I16 60000) (mkSInt I16 100))"
    "bits I8 < bits (CR_Width (mkCR (mkSInt I16 60000) (mkSInt I16 100)))" by code_simp+
  from CR_Truncate_sound [OF this] show ?thesis by blast
qed

text \<open>Both extensions keep the invariant and cover the extended elements.\<close>

theorem CR_Extend_sound:
  assumes "cr_ok r" "bits (CR_Width r) < bits n"
  shows "cr_ok (CR_ZeroExtend r n) \<and> cr_ok (CR_SignExtend r n) \<and>
    (\<forall>x \<in> elems r. SInt_ZExt x n \<in> elems (CR_ZeroExtend r n) \<and> SInt_SExt x n \<in> elems (CR_SignExtend r n))"
  using CR_ZeroExtend_ok_sound [of r n] CR_SignExtend_ok_sound [of r n] assms by (simp add: CR_Width_def)

lemma CR_Extend_sound_witness:
  "(\<lambda>x. SInt_SExt x I16) ` elems (mkCR (mkSInt I8 253) (mkSInt I8 128))
     \<subseteq> elems (mkCR (mkSInt I16 65533) (mkSInt I16 128))"
proof -
  have "cr_ok (mkCR (mkSInt I8 253) (mkSInt I8 128))"
    "bits (CR_Width (mkCR (mkSInt I8 253) (mkSInt I8 128))) < bits I16"
    "CR_SignExtend (mkCR (mkSInt I8 253) (mkSInt I8 128)) I16 = mkCR (mkSInt I16 65533) (mkSInt I16 128)" by code_simp+
  then show ?thesis using CR_Extend_sound [of "mkCR (mkSInt I8 253) (mkSInt I8 128)" I16] by auto
qed

text \<open>The absolute value keeps the invariant, covers the absolute values (but for the least
  number where that is declared poison) and has none above the greatest one.\<close>

theorem CR_Abs_sound:
  assumes "cr_ok r"
  shows "cr_ok (CR_Abs r p) \<and>
    (\<forall>x \<in> elems r. (p \<longrightarrow> sval x \<noteq> - half (CR_Width r)) \<longrightarrow> sint_abs x \<in> elems (CR_Abs r p)) \<and>
    (\<forall>y \<in> elems (CR_Abs r p). uval y \<le> half (CR_Width r))"
  using CR_Abs_spec [OF assms, of p] by (simp add: abs_spec_def CR_Width_def)

lemma CR_Abs_sound_witness:
  "sint_abs ` elems (mkCR (mkSInt I8 250) (mkSInt I8 4)) \<subseteq> elems (mkCR (mkSInt I8 0) (mkSInt I8 7))"
proof -
  have "cr_ok (mkCR (mkSInt I8 250) (mkSInt I8 4))"
    "CR_Abs (mkCR (mkSInt I8 250) (mkSInt I8 4)) False = mkCR (mkSInt I8 0) (mkSInt I8 7)" by code_simp+
  then show ?thesis using CR_Abs_sound [of "mkCR (mkSInt I8 250) (mkSInt I8 4)" False] by auto
qed

text \<open>Negation covers the negated elements, except the least number where the range starts with it.\<close>

theorem CR_Negate_covers:
  assumes "cr_ok r" "x \<in> elems r" "sval (lower r) \<noteq> - half (CR_Width r) \<or> sval x \<noteq> - half (CR_Width r)"
  shows "SInt_Neg x \<in> elems (CR_Negate r)"
proof (rule CR_Negate_sound [OF assms(1,2)])
  have "sint_ok x" "width x = width (lower r)" using assms(1,2) by (simp_all add: elems_iff)
  then show "lo r = half (width (lower r)) \<longrightarrow> uval x \<noteq> half (width (lower r))"
    using assms(3) cr_okD(1) [OF assms(1)] modulus_half [of "width (lower r)"] by (auto simp: sval_eq CR_Width_def)
qed

lemma CR_Negate_covers_witness:
  "SInt_Neg (mkSInt I8 3) \<in> elems (mkCR (mkSInt I8 252) (mkSInt I8 255))"
proof -
  have "cr_ok (mkCR (mkSInt I8 2) (mkSInt I8 5))" "same (mkSInt I8 2) (mkSInt I8 3)"
    "CR_Contains (mkCR (mkSInt I8 2) (mkSInt I8 5)) (mkSInt I8 3)"
    "sval (lower (mkCR (mkSInt I8 2) (mkSInt I8 5))) \<noteq> - half (CR_Width (mkCR (mkSInt I8 2) (mkSInt I8 5)))"
    "CR_Negate (mkCR (mkSInt I8 2) (mkSInt I8 5)) = mkCR (mkSInt I8 252) (mkSInt I8 255)" by code_simp+
  then show ?thesis
    using CR_Negate_covers [of "mkCR (mkSInt I8 2) (mkSInt I8 5)" "mkSInt I8 3"] by (auto simp: elems_def)
qed

text \<open>The exception is real: negating a range that starts with the least number leaves out the
  least number, and the one-element range of it becomes a pair that the constructor forbids.\<close>

theorem CR_Negate_misses_least:
  "mkSInt I8 128 \<in> elems (mkCR (mkSInt I8 128) (mkSInt I8 1)) \<and>
   SInt_Neg (mkSInt I8 128) \<notin> elems (CR_Negate (mkCR (mkSInt I8 128) (mkSInt I8 1))) \<and>
   cr_ok (CR_single (mkSInt I8 128)) \<and> \<not> cr_ok (CR_Negate (CR_single (mkSInt I8 128)))"
proof -
  have "same (mkSInt I8 128) (mkSInt I8 128)" "CR_Contains (mkCR (mkSInt I8 128) (mkSInt I8 1)) (mkSInt I8 128)"
    "\<not> CR_Contains (CR_Negate (mkCR (mkSInt I8 128) (mkSInt I8 1))) (SInt_Neg (mkSInt I8 128))"
    "cr_ok (CR_single (mkSInt I8 128))" "\<not> cr_ok (CR_Negate (CR_single (mkSInt I8 128)))" by code_simp+
  then show ?thesis by (simp add: elems_def)
qed

end
