(* ===== verification/SIntOps.thy ===== *)
theory SIntOps
  imports SIntArith
begin

section \<open>The overloaded operators of \<open>SInt\<close>\<close>

text \<open>
  The overloads that \<open>SInt.h\<close> declares beside the members of \<^theory_text>\<open>SIntDefs\<close>: an operand
  that is a bare 64-bit word, an operand that is an expiring value (\<open>_rv\<close>, the overload
  that reuses the storage of the right operand), postfix increment and decrement (which
  return the old value beside the new one) and the assignments. A compound assignment is
  the function from the old to the new value of its left operand.
\<close>

subsection \<open>Definitions\<close>

definition SInt_of_u32 :: "u32 \<Rightarrow> SInt option" where
  "SInt_of_u32 v = map_option (\<lambda>w. mkSInt w (ucast v)) (FromUnsigned (4 * 8))"

definition SInt_of_u64 :: "u64 \<Rightarrow> SInt option" where
  "SInt_of_u64 v = map_option (\<lambda>w. mkSInt w v) (FromUnsigned (8 * 8))"

definition SInt_post_inc :: "SInt \<Rightarrow> SInt \<times> SInt" where
  "SInt_post_inc s = (let ans = s in (ans, SInt_inc s))"

definition SInt_post_dec :: "SInt \<Rightarrow> SInt \<times> SInt" where
  "SInt_post_dec s = (let ans = s in (ans, SInt_dec s))"

definition SInt_not :: "SInt \<Rightarrow> bool" where
  "SInt_not s = SInt_IsZero s"

definition SInt_assign :: "SInt \<Rightarrow> SInt \<Rightarrow> SInt" where
  "SInt_assign s other = s\<lparr>val := val other, width := width other\<rparr>"

definition SInt_assign_u64 :: "SInt \<Rightarrow> u64 \<Rightarrow> SInt" where
  "SInt_assign_u64 s v = ClearUnusedBits (s\<lparr>val := v\<rparr>)"

definition SInt_and_u64 :: "SInt \<Rightarrow> u64 \<Rightarrow> SInt" where
  "SInt_and_u64 s v = s\<lparr>val := val s AND v\<rparr>"

definition SInt_or_u64 :: "SInt \<Rightarrow> u64 \<Rightarrow> SInt" where
  "SInt_or_u64 s v = s\<lparr>val := val s OR v\<rparr>"

definition SInt_xor_u64 :: "SInt \<Rightarrow> u64 \<Rightarrow> SInt" where
  "SInt_xor_u64 s v = s\<lparr>val := val s XOR v\<rparr>"

definition SInt_mul_assign :: "SInt \<Rightarrow> SInt \<Rightarrow> SInt" where
  "SInt_mul_assign s other = SInt_assign s (SInt_mul s other)"

definition SInt_mul_u64 :: "SInt \<Rightarrow> u64 \<Rightarrow> SInt" where
  "SInt_mul_u64 s v = ClearUnusedBits (s\<lparr>val := val s * v\<rparr>)"

definition SInt_neq :: "SInt \<Rightarrow> SInt \<Rightarrow> bool" where
  "SInt_neq a b \<longleftrightarrow> \<not> SInt_eq a b"

definition SInt_neq_u64 :: "SInt \<Rightarrow> u64 \<Rightarrow> bool" where
  "SInt_neq_u64 a v \<longleftrightarrow> SInt_GetZExtValue a \<noteq> v"

definition op_eq_u64 :: "u64 \<Rightarrow> SInt \<Rightarrow> bool" where
  "op_eq_u64 v1 v2 = SInt_eq_u64 v2 v1"

definition op_neq_u64 :: "u64 \<Rightarrow> SInt \<Rightarrow> bool" where
  "op_neq_u64 v1 v2 = SInt_neq_u64 v2 v1"

definition op_neg :: "SInt \<Rightarrow> SInt" where "op_neg v = SInt_Neg v"

definition op_add :: "SInt \<Rightarrow> SInt \<Rightarrow> SInt" where "op_add a b = SInt_add a b"
definition op_add_rv :: "SInt \<Rightarrow> SInt \<Rightarrow> SInt" where "op_add_rv a b = SInt_add b a"
definition op_add_u64 :: "SInt \<Rightarrow> u64 \<Rightarrow> SInt" where "op_add_u64 a rhs = SInt_add_u64 a rhs"
definition op_u64_add :: "u64 \<Rightarrow> SInt \<Rightarrow> SInt" where "op_u64_add lhs b = SInt_add_u64 b lhs"

definition op_and :: "SInt \<Rightarrow> SInt \<Rightarrow> SInt" where "op_and a b = SInt_and a b"
definition op_and_rv :: "SInt \<Rightarrow> SInt \<Rightarrow> SInt" where "op_and_rv a b = SInt_and b a"
definition op_and_u64 :: "SInt \<Rightarrow> u64 \<Rightarrow> SInt" where "op_and_u64 a rhs = SInt_and_u64 a rhs"
definition op_u64_and :: "u64 \<Rightarrow> SInt \<Rightarrow> SInt" where "op_u64_and lhs b = SInt_and_u64 b lhs"

definition op_or :: "SInt \<Rightarrow> SInt \<Rightarrow> SInt" where "op_or a b = SInt_or a b"
definition op_or_rv :: "SInt \<Rightarrow> SInt \<Rightarrow> SInt" where "op_or_rv a b = SInt_or b a"
definition op_or_u64 :: "SInt \<Rightarrow> u64 \<Rightarrow> SInt" where "op_or_u64 a rhs = SInt_or_u64 a rhs"
definition op_u64_or :: "u64 \<Rightarrow> SInt \<Rightarrow> SInt" where "op_u64_or lhs b = SInt_or_u64 b lhs"

definition op_xor :: "SInt \<Rightarrow> SInt \<Rightarrow> SInt" where "op_xor a b = SInt_xor a b"
definition op_xor_rv :: "SInt \<Rightarrow> SInt \<Rightarrow> SInt" where "op_xor_rv a b = SInt_xor b a"
definition op_xor_u64 :: "SInt \<Rightarrow> u64 \<Rightarrow> SInt" where "op_xor_u64 a rhs = SInt_xor_u64 a rhs"
definition op_u64_xor :: "u64 \<Rightarrow> SInt \<Rightarrow> SInt" where "op_u64_xor lhs b = SInt_xor_u64 b lhs"

definition op_sub :: "SInt \<Rightarrow> SInt \<Rightarrow> SInt" where "op_sub a b = SInt_sub a b"
definition op_sub_rv :: "SInt \<Rightarrow> SInt \<Rightarrow> SInt" where "op_sub_rv a b = SInt_add (SInt_Neg b) a"
definition op_sub_u64 :: "SInt \<Rightarrow> u64 \<Rightarrow> SInt" where "op_sub_u64 a rhs = SInt_sub_u64 a rhs"
definition op_u64_sub :: "u64 \<Rightarrow> SInt \<Rightarrow> SInt" where "op_u64_sub lhs b = SInt_add_u64 (SInt_Neg b) lhs"

definition op_mul_u64 :: "SInt \<Rightarrow> u64 \<Rightarrow> SInt" where "op_mul_u64 a rhs = SInt_mul_u64 a rhs"
definition op_u64_mul :: "u64 \<Rightarrow> SInt \<Rightarrow> SInt" where "op_u64_mul lhs b = SInt_mul_u64 b lhs"

lemmas free_op_defs = op_neg_def op_add_def op_add_rv_def op_add_u64_def op_u64_add_def
  op_sub_def op_sub_rv_def op_sub_u64_def op_u64_sub_def op_mul_u64_def op_u64_mul_def
  op_and_def op_and_rv_def op_and_u64_def op_u64_and_def op_or_def op_or_rv_def op_or_u64_def
  op_u64_or_def op_xor_def op_xor_rv_def op_xor_u64_def op_u64_xor_def

subsection \<open>What they compute\<close>

lemma SInt_mul_u64_sem: "uval (SInt_mul_u64 s v) = (uval s * uint v) mod modulus (width s)"
  by (simp add: SInt_mul_u64_def ClearUnusedBits_uval) (simp add: uval_def modulus_def uint_times_mod)

lemma op_sub_rv_eq:
  assumes "same a b"
  shows "op_sub_rv a b = op_sub a b"
  using assms by (simp add: SInt_eq_iff op_sub_rv_def op_sub_def same_def SInt_ring_sem SInt_Neg_sem mod_add_left_eq)

lemma bitop_u64_bounds:
  assumes "sint_ok a"
  shows "sint_ok (SInt_and_u64 a v)"
    and "uint v < modulus (width a) \<Longrightarrow> sint_ok (SInt_or_u64 a v) \<and> sint_ok (SInt_xor_u64 a v)"
proof -
  have a: "uint (val a) < 2 ^ bits (width a)" using assms by (simp add: sint_ok_def)
  show "sint_ok (SInt_and_u64 a v)"
    using a by (simp add: sint_ok_def SInt_and_u64_def uint_and AND_upper1')
  show "sint_ok (SInt_or_u64 a v) \<and> sint_ok (SInt_xor_u64 a v)" if "uint v < modulus (width a)"
    using a that OR_upper [of "uint (val a)" "bits (width a)" "uint v"] XOR_upper [of "uint (val a)" "bits (width a)" "uint v"]
    by (simp add: sint_ok_def SInt_or_u64_def SInt_xor_u64_def uint_or uint_xor modulus_def)
qed

subsection \<open>Properties\<close>

text \<open>The overloaded arithmetic operators keep the width and the class invariant and compute
  modulo the width; the overload of subtraction for an expiring right operand, which negates
  that operand in place and adds, agrees with plain subtraction.\<close>

theorem SInt_operators_ring:
  assumes "same a b"
  shows "uval (op_add_rv a b) = (uval a + uval b) mod modulus (width a) \<and>
    op_add_rv a b = op_add a b \<and> op_sub_rv a b = op_sub a b \<and>
    uval (op_sub_rv a b) = (uval a - uval b) mod modulus (width a) \<and>
    uval (op_u64_sub v b) = (uint v - uval b) mod modulus (width b) \<and>
    uval (op_u64_add v b) = (uint v + uval b) mod modulus (width b) \<and>
    uval (op_u64_mul v b) = (uint v * uval b) mod modulus (width b) \<and>
    uval (op_neg a) = (- uval a) mod modulus (width a) \<and>
    (\<forall>r \<in> {op_add_rv a b, op_sub_rv a b, op_u64_sub v b, op_u64_add v b, op_u64_mul v b, op_neg a}.
       sint_ok r \<and> width r = width a)"
proof (intro conjI)
  note d = sameD [OF assms]
  show "uval (op_add_rv a b) = (uval a + uval b) mod modulus (width a)"
    using d by (simp add: op_add_rv_def SInt_ring_sem add.commute)
  show "op_add_rv a b = op_add a b"
    using d by (simp add: SInt_eq_iff op_add_rv_def op_add_def SInt_ring_sem add.commute)
  show "op_sub_rv a b = op_sub a b" by (rule op_sub_rv_eq [OF assms])
  then show "uval (op_sub_rv a b) = (uval a - uval b) mod modulus (width a)"
    by (simp add: op_sub_def SInt_ring_sem)
  show "uval (op_u64_sub v b) = (uint v - uval b) mod modulus (width b)"
    by (simp add: op_u64_sub_def SInt_ring_sem SInt_Neg_sem mod_add_left_eq)
  show "uval (op_u64_add v b) = (uint v + uval b) mod modulus (width b)"
    by (simp add: op_u64_add_def SInt_ring_sem add.commute)
  show "uval (op_u64_mul v b) = (uint v * uval b) mod modulus (width b)"
    by (simp add: op_u64_mul_def SInt_mul_u64_sem mult.commute)
  show "uval (op_neg a) = (- uval a) mod modulus (width a)"
    by (simp add: op_neg_def SInt_Neg_sem)
  show "\<forall>r \<in> {op_add_rv a b, op_sub_rv a b, op_u64_sub v b, op_u64_add v b, op_u64_mul v b, op_neg a}.
       sint_ok r \<and> width r = width a"
    using d by (simp add: free_op_defs SInt_mul_u64_def)
qed

lemma SInt_operators_ring_witness:
  "op_sub_rv (mkSInt I8 3) (mkSInt I8 200) = mkSInt I8 59"
proof -
  have s: "same (mkSInt I8 3) (mkSInt I8 200)" "op_sub (mkSInt I8 3) (mkSInt I8 200) = mkSInt I8 59" by code_simp+
  have "op_sub_rv (mkSInt I8 3) (mkSInt I8 200) = op_sub (mkSInt I8 3) (mkSInt I8 200)"
    using SInt_operators_ring [OF s(1), of 0] by (elim conjE)
  then show ?thesis by (simp only: s(2))
qed

text \<open>C40: unlike addition and subtraction, \<open>|=\<close> and \<open>^=\<close> with a bare word keep the class invariant
  only if the word fits the width: nothing clears the bits above it.\<close>

theorem SInt_bitops_u64_invariant:
  assumes "sint_ok a"
  shows "sint_ok (SInt_and_u64 a v) \<and> sint_ok (SInt_add_u64 a v) \<and>
    (sint_ok (SInt_or_u64 a v) \<longleftrightarrow> uint v < modulus (width a)) \<and>
    (sint_ok (SInt_xor_u64 a v) \<longleftrightarrow> uint v < modulus (width a))"
proof -
  have lt: "uint x < modulus (width a) \<longleftrightarrow> drop_bit (bits (width a)) x = 0" for x :: u64
  proof -
    have "drop_bit (bits (width a)) x = 0 \<longleftrightarrow> uint x div 2 ^ bits (width a) = 0"
      by (simp add: word_uint_eq_iff uint_drop_bit64)
    also have "\<dots> \<longleftrightarrow> uint x < 2 ^ bits (width a)"
      by (auto simp: zdiv_eq_0_iff)
    finally show ?thesis by (simp add: modulus_def)
  qed
  have a: "drop_bit (bits (width a)) (val a) = 0"
    using assms lt [of "val a"] by (simp add: sint_ok_def modulus_def)
  have ok: "sint_ok (s\<lparr>val := x\<rparr>) \<longleftrightarrow> drop_bit (bits (width s)) x = 0" if "width s = width a" for s x
    using lt [of x] that by (simp add: sint_ok_def modulus_def)
  show ?thesis
    using a bitop_u64_bounds(1) [OF assms, of v]
    by (simp add: ok SInt_or_u64_def SInt_xor_u64_def lt drop_bit_or drop_bit_xor)
qed

lemma SInt_bitops_u64_invariant_witness:
  "sint_ok (mkSInt I8 1) \<and> \<not> sint_ok (SInt_or_u64 (mkSInt I8 1) 256)"
proof -
  have s: "sint_ok (mkSInt I8 1)" by code_simp
  moreover have "\<not> uint (256 :: u64) < modulus (width (mkSInt I8 1))" by code_simp
  ultimately show ?thesis
    using SInt_bitops_u64_invariant [OF s, of 256] by blast
qed

end
