(* ===== verification/OverflowDefs.thy ===== *)
theory OverflowDefs
  imports SIntSem
begin

section \<open>The overflow checker\<close>

text \<open>
  \<open>OverflowChecker\<close> (\<open>CHIR/Checker/OverflowChecking\<close>) evaluates integer
  operations at compile time under one of the overflow strategies. Its templates are
  instantiated at the fixed-width integer types; such a type is a width with a signedness,
  a value of it an integer in its range, and a cast to it wraps. The out-parameter
  \<open>res\<close> is the second component of a result; where the code may leave it alone it is
  an argument too. A division by zero, which the code only asserts away, and an operator
  or a type that aborts, give \<open>None\<close>.
\<close>

datatype OverflowStrategy = NA | CHECKED | WRAPPING | THROWING | SATURATING

datatype ExprKind = ADD | SUB | MUL | DIV | MOD | NEG | OTHER_EXPR

datatype IntTypeKind =
    TYPE_INT8 | TYPE_INT16 | TYPE_INT32 | TYPE_INT64 | TYPE_INT_NATIVE
  | TYPE_UINT8 | TYPE_UINT16 | TYPE_UINT32 | TYPE_UINT64 | TYPE_UINT_NATIVE | TYPE_OTHER

record CInt =
  ci_width :: IntWidth
  ci_signed :: bool

abbreviation "int_t w \<equiv> \<lparr>ci_width = w, ci_signed = True\<rparr>"
abbreviation "uint_t w \<equiv> \<lparr>ci_width = w, ci_signed = False\<rparr>"

subsection \<open>The integer types\<close>

definition limits_min :: "CInt \<Rightarrow> int" where
  "limits_min t = (if ci_signed t then - half (ci_width t) else 0)"

definition limits_max :: "CInt \<Rightarrow> int" where
  "limits_max t = (if ci_signed t then half (ci_width t) - 1 else modulus (ci_width t) - 1)"

definition in_type :: "CInt \<Rightarrow> int \<Rightarrow> bool" where
  "in_type t x \<longleftrightarrow> limits_min t \<le> x \<and> x \<le> limits_max t"

definition cast :: "CInt \<Rightarrow> int \<Rightarrow> int" where
  "cast t x = (x - limits_min t) mod modulus (ci_width t) + limits_min t"

definition builtin_overflow :: "CInt \<Rightarrow> int \<Rightarrow> bool \<times> int" where
  "builtin_overflow t exact = (cast t exact \<noteq> exact, cast t exact)"

subsection \<open>The operations\<close>

definition IsOverflowAfterAdd :: "CInt \<Rightarrow> int \<Rightarrow> int \<Rightarrow> OverflowStrategy \<Rightarrow> bool \<times> int" where
  "IsOverflowAfterAdd t x y strategy =
     (let (isOverflow, res) = builtin_overflow t (x + y)
      in (isOverflow,
          if isOverflow \<and> strategy = SATURATING
          then (if res > x then limits_min t else limits_max t) else res))"

definition IsOverflowAfterSub :: "CInt \<Rightarrow> int \<Rightarrow> int \<Rightarrow> OverflowStrategy \<Rightarrow> bool \<times> int" where
  "IsOverflowAfterSub t x y strategy =
     (let (isOverflow, res) = builtin_overflow t (x - y)
      in (isOverflow,
          if isOverflow \<and> strategy = SATURATING
          then (if res > x then limits_min t else limits_max t) else res))"

definition IsOverflowAfterMul :: "CInt \<Rightarrow> int \<Rightarrow> int \<Rightarrow> OverflowStrategy \<Rightarrow> bool \<times> int" where
  "IsOverflowAfterMul t x y strategy =
     (let (isOverflow, res) = builtin_overflow t (x * y)
      in (isOverflow,
          if isOverflow \<and> strategy = SATURATING then
            (if x < 0 \<and> y < 0 then limits_max t
             else if 0 \<le> x \<and> 0 \<le> y then limits_max t
             else limits_min t)
          else res))"

definition IsOverflowAfterDiv ::
    "CInt \<Rightarrow> int \<Rightarrow> int \<Rightarrow> OverflowStrategy \<Rightarrow> int \<Rightarrow> (bool \<times> int) option" where
  "IsOverflowAfterDiv t x y strategy res =
     (let isOverflow = (ci_signed t \<and> x = limits_min t \<and> y = - 1)
      in if isOverflow \<and> strategy = WRAPPING then Some (isOverflow, limits_min t)
         else if isOverflow \<and> strategy = SATURATING then Some (isOverflow, limits_max t)
         else if isOverflow then Some (isOverflow, res)
         else if y = 0 then None
         else Some (isOverflow, sgn x * sgn y * (\<bar>x\<bar> div \<bar>y\<bar>)))"

definition IsOverflowAfterMod :: "CInt \<Rightarrow> int \<Rightarrow> int \<Rightarrow> (bool \<times> int) option" where
  "IsOverflowAfterMod t x y =
     (if ci_signed t \<and> x = limits_min t \<and> y = - 1 then Some (False, 0)
      else if y = 0 then None
      else Some (False, sgn x * (\<bar>x\<bar> mod \<bar>y\<bar>)))"

definition IsOverflow ::
    "CInt \<Rightarrow> int \<Rightarrow> int \<Rightarrow> ExprKind \<Rightarrow> OverflowStrategy \<Rightarrow> (bool \<times> int) option" where
  "IsOverflow t x y kind strategy =
     (case kind of
        ADD \<Rightarrow> Some (IsOverflowAfterAdd t x y strategy)
      | NEG \<Rightarrow> Some (IsOverflowAfterSub t 0 y strategy)
      | SUB \<Rightarrow> Some (IsOverflowAfterSub t x y strategy)
      | MUL \<Rightarrow> Some (IsOverflowAfterMul t x y strategy)
      | DIV \<Rightarrow> IsOverflowAfterDiv t x y strategy 0
      | MOD \<Rightarrow> IsOverflowAfterMod t x y
      | OTHER_EXPR \<Rightarrow> None)"

text \<open>\<open>ssize_t\<close> and \<open>size_t\<close> are the 64-bit types of the hosts the compiler runs on.\<close>

definition int_type_of :: "IntTypeKind \<Rightarrow> CInt option" where
  "int_type_of k =
     (case k of TYPE_INT8 \<Rightarrow> Some (int_t I8) | TYPE_INT16 \<Rightarrow> Some (int_t I16)
      | TYPE_INT32 \<Rightarrow> Some (int_t I32) | TYPE_INT64 \<Rightarrow> Some (int_t I64)
      | TYPE_INT_NATIVE \<Rightarrow> Some (int_t I64) | _ \<Rightarrow> None)"

definition uint_type_of :: "IntTypeKind \<Rightarrow> CInt option" where
  "uint_type_of k =
     (case k of TYPE_UINT8 \<Rightarrow> Some (uint_t I8) | TYPE_UINT16 \<Rightarrow> Some (uint_t I16)
      | TYPE_UINT32 \<Rightarrow> Some (uint_t I32) | TYPE_UINT64 \<Rightarrow> Some (uint_t I64)
      | TYPE_UINT_NATIVE \<Rightarrow> Some (uint_t I64) | _ \<Rightarrow> None)"

definition IsIntOverflow ::
    "IntTypeKind \<Rightarrow> ExprKind \<Rightarrow> int \<Rightarrow> int \<Rightarrow> OverflowStrategy \<Rightarrow> (bool \<times> int) option" where
  "IsIntOverflow typeKind exprKind x y strategy =
     (case int_type_of typeKind of
        None \<Rightarrow> None
      | Some t \<Rightarrow> IsOverflow t (cast t x) (cast t y) exprKind strategy)"

definition IsUIntOverflow ::
    "IntTypeKind \<Rightarrow> ExprKind \<Rightarrow> int \<Rightarrow> int \<Rightarrow> OverflowStrategy \<Rightarrow> (bool \<times> int) option" where
  "IsUIntOverflow typeKind exprKind x y strategy =
     (case uint_type_of typeKind of
        None \<Rightarrow> None
      | Some t \<Rightarrow> IsOverflow t (cast t x) (cast t y) exprKind strategy)"

subsection \<open>Casts\<close>

text \<open>
  In the last case both limits are compared in the larger of the two types (the target if
  they have the same size).
\<close>

definition IsTypecastOverflowForInt :: "CInt \<Rightarrow> CInt \<Rightarrow> int \<Rightarrow> OverflowStrategy \<Rightarrow> bool \<times> int" where
  "IsTypecastOverflowForInt t k x strategy =
     (let isOverflow =
        (if ci_signed t \<and> \<not> ci_signed k \<and> x < 0 then True
         else if \<not> ci_signed t \<and> ci_signed k then x > cast t (limits_max k)
         else
           let larger = (if bits (ci_width t) \<le> bits (ci_width k) then k else t);
               tmax = cast larger (limits_max t);
               kmax = cast larger (limits_max k)
           in if tmax > kmax then x > cast t (limits_max k) \<or> x < cast t (limits_min k)
              else cast k x > limits_max k \<or> cast k x < limits_min k)
      in (isOverflow,
          if isOverflow \<and> strategy = SATURATING then (if x < 0 then limits_min k else limits_max k)
          else cast k x))"

subsection \<open>Exponentiation\<close>

abbreviation "int64 \<equiv> int_t I64"

text \<open>
  The loop multiplies the bits of the exponent from the lowest; each step updates the
  accumulator, then squares the base, and an overflow of either is remembered.
\<close>

function Binpow_loop :: "int \<Rightarrow> nat \<Rightarrow> int \<Rightarrow> bool \<Rightarrow> int \<times> int \<times> bool" where
  "Binpow_loop a b res isOverflow =
     (if 1 < b then
        let (o1, res1) = (if b mod 2 = 1 then builtin_overflow int64 (res * a) else (False, res));
            (o2, a1) = builtin_overflow int64 (a * a)
        in Binpow_loop a1 (b div 2) res1 (isOverflow \<or> o1 \<or> o2)
      else (a, res, isOverflow))"
  by pat_completeness auto
termination by (relation "measure (\<lambda>(_, b, _, _). b)") auto

definition Binpow :: "int \<Rightarrow> nat \<Rightarrow> bool \<times> int" where
  "Binpow a b =
     (if b = 0 then (False, 1)
      else
        let (a1, res, isOverflow) = Binpow_loop a b 1 False;
            (o1, res1) = builtin_overflow int64 (res * a1)
        in (isOverflow \<or> o1, res1))"

definition IsExpOverflow :: "int \<Rightarrow> nat \<Rightarrow> OverflowStrategy \<Rightarrow> bool \<times> int" where
  "IsExpOverflow x y strategy =
     (let (isOverflow, res) = Binpow x y
      in (isOverflow,
          if isOverflow \<and> strategy = SATURATING then
            (if x < 0 \<and> y mod 2 = 0 then limits_max int64
             else if x < 0 \<and> y mod 2 = 1 then limits_min int64
             else limits_max int64)
          else res))"

declare Binpow_loop.simps [simp del]

end
