(* ===== verification/Overflow.thy ===== *)
theory Overflow
  imports OverflowDefs
begin

section \<open>What the overflow checker computes\<close>

text \<open>
  The specification of an operation at a type is its exact integer result: it overflows
  if that is outside the type, and the strategy says whether the type's nearest limit
  (\<open>clamp\<close>) or the wrapped result (\<open>cast\<close>) is delivered.
\<close>

definition clamp :: "CInt \<Rightarrow> int \<Rightarrow> int" where
  "clamp t x = max (limits_min t) (min x (limits_max t))"

definition deliver :: "CInt \<Rightarrow> OverflowStrategy \<Rightarrow> int \<Rightarrow> bool \<times> int" where
  "deliver t s exact = (\<not> in_type t exact, if s = SATURATING then clamp t exact else cast t exact)"

subsection \<open>Types\<close>

lemma limits: "limits_max t = limits_min t + modulus (ci_width t) - 1" "limits_min t \<le> 0" "0 < limits_max t"
  using half_ge [of "ci_width t"] by (auto simp: limits_max_def limits_min_def modulus_half)

lemma cast_in_type [simp]: "in_type t (cast t x)"
  using limits(1) [of t] pos_mod_bound [OF modulus_pos, of "x - limits_min t" "ci_width t"]
    pos_mod_sign [OF modulus_pos, of "x - limits_min t" "ci_width t"]
  by (simp add: in_type_def cast_def)

lemma cast_id [simp]: "in_type t x \<Longrightarrow> cast t x = x"
  using limits(1) [of t] by (simp add: in_type_def cast_def)

lemma cast_id_iff: "cast t x = x \<longleftrightarrow> in_type t x"
  using cast_in_type [of t x] cast_id [of t x] by metis

lemma builtin_overflow_eq: "builtin_overflow t x = (\<not> in_type t x, cast t x)"
  by (simp add: builtin_overflow_def cast_id_iff)

lemma cast_mod: "cast t x mod modulus (ci_width t) = x mod modulus (ci_width t)"
  unfolding cast_def by (simp add: mod_add_left_eq)

lemma cast_shift: "cast t (x + modulus (ci_width t)) = cast t x" "cast t (x - modulus (ci_width t)) = cast t x"
proof -
  let ?m = "modulus (ci_width t)" and ?d = "x - limits_min t"
  have "x + ?m - limits_min t = ?d + ?m" "x - ?m - limits_min t = ?d - ?m" by simp_all
  then show "cast t (x + ?m) = cast t x" "cast t (x - ?m) = cast t x"
    by (simp_all only: cast_def mod_add_self2 minus_mod_self2)
qed

lemma cast_cong: "x mod modulus (ci_width t) = y mod modulus (ci_width t) \<Longrightarrow> cast t x = cast t y"
  unfolding cast_def by (metis mod_diff_left_eq)

lemma clamp_id: "in_type t x \<Longrightarrow> clamp t x = x"
  by (simp add: in_type_def clamp_def)

lemma clamp_out:
  assumes "\<not> in_type t x"
  shows "clamp t x = (if x < 0 then limits_min t else limits_max t)"
  using assms limits(2,3) [of t] by (auto simp: in_type_def clamp_def)

subsection \<open>Addition, subtraction, multiplication\<close>

lemma sat_by_comparison:
  assumes x: "in_type t x" and y: "in_type t y" and z: "z = x + y \<or> z = x - y" "\<not> in_type t z"
  shows "(if cast t z > x then limits_min t else limits_max t) = clamp t z"
proof -
  let ?m = "modulus (ci_width t)"
  have y': "\<bar>y\<bar> < ?m" using y limits [of t] by (auto simp: in_type_def)
  consider "z < limits_min t" | "limits_max t < z" using z(2) by (auto simp: in_type_def)
  then show ?thesis
  proof cases
    case 1
    then have "in_type t (z + ?m)" using x y z limits [of t] by (auto simp: in_type_def)
    then have "cast t z = z + ?m" using cast_id cast_shift(1) by metis
    then show ?thesis using 1 z(1) y' limits(2) [of t] clamp_out [OF z(2)] by auto
  next
    case 2
    then have "in_type t (z - ?m)" using x y z limits [of t] by (auto simp: in_type_def)
    then have "cast t z = z - ?m" using cast_id cast_shift(2) by metis
    then show ?thesis using 2 z(1) y' limits(3) [of t] clamp_out [OF z(2)] by auto
  qed
qed

lemma IsOverflowAfterAdd_eq:
  "in_type t x \<Longrightarrow> in_type t y \<Longrightarrow> IsOverflowAfterAdd t x y s = deliver t s (x + y)"
  using sat_by_comparison [of t x y "x + y"]
  by (auto simp: IsOverflowAfterAdd_def deliver_def builtin_overflow_eq clamp_id)

lemma IsOverflowAfterSub_eq:
  "in_type t x \<Longrightarrow> in_type t y \<Longrightarrow> IsOverflowAfterSub t x y s = deliver t s (x - y)"
  using sat_by_comparison [of t x y "x - y"]
  by (auto simp: IsOverflowAfterSub_def deliver_def builtin_overflow_eq clamp_id)

lemma sat_by_signs:
  assumes "\<not> in_type t (x * y)"
  shows "(if x < 0 \<and> y < 0 then limits_max t else if 0 \<le> x \<and> 0 \<le> y then limits_max t else limits_min t) = clamp t (x * y)"
proof -
  have "x * y \<noteq> 0" using assms limits(2,3) [of t] by (auto simp: in_type_def)
  then have "x * y < 0 \<longleftrightarrow> \<not> (x < 0 \<and> y < 0) \<and> \<not> (0 \<le> x \<and> 0 \<le> y)"
    by (auto simp: mult_less_0_iff not_less)
  then show ?thesis using clamp_out [OF assms] by auto
qed

lemma IsOverflowAfterMul_eq: "IsOverflowAfterMul t x y s = deliver t s (x * y)"
  using sat_by_signs [of t x y]
  by (auto simp: IsOverflowAfterMul_def deliver_def builtin_overflow_eq clamp_id)

subsection \<open>Division and remainder\<close>

definition tdiv :: "int \<Rightarrow> int \<Rightarrow> int" where "tdiv x y = sgn x * sgn y * (\<bar>x\<bar> div \<bar>y\<bar>)"
definition trem :: "int \<Rightarrow> int \<Rightarrow> int" where "trem x y = x - tdiv x y * y"

lemma trem_eq: "sgn x * (\<bar>x\<bar> mod \<bar>y\<bar>) = trem x y"
proof -
  have "sgn x * (\<bar>x\<bar> mod \<bar>y\<bar>) = sgn x * \<bar>x\<bar> - sgn x * (\<bar>x\<bar> div \<bar>y\<bar>) * \<bar>y\<bar>"
    by (simp only: minus_div_mult_eq_mod [symmetric] right_diff_distrib mult.assoc)
  also have "\<dots> = x - sgn x * (\<bar>x\<bar> div \<bar>y\<bar>) * (sgn y * y)"
    by (simp only: sgn_mult_abs abs_sgn [of y] mult.commute [of y])
  finally show ?thesis by (simp only: trem_def tdiv_def ac_simps)
qed

lemma tdiv_abs: "\<bar>tdiv x y\<bar> \<le> \<bar>x\<bar>"
proof (cases "y = 0")
  case False
  then have "\<bar>x\<bar> div \<bar>y\<bar> \<le> \<bar>x\<bar>" by (intro zdiv_le_self) auto
  then show ?thesis by (simp add: tdiv_def abs_mult pos_imp_zdiv_nonneg_iff)
qed (simp add: tdiv_def)

lemma tdiv_in_type:
  assumes "in_type t x" "in_type t y" "y \<noteq> 0"
  shows "in_type t (tdiv x y) \<longleftrightarrow> \<not> (ci_signed t \<and> x = limits_min t \<and> y = - 1)"
proof (cases "ci_signed t")
  case False
  then have "0 \<le> x" "0 \<le> y" using assms by (auto simp: in_type_def limits_min_def)
  then have "0 \<le> tdiv x y" using assms(3) by (auto simp: tdiv_def sgn_if pos_imp_zdiv_nonneg_iff)
  with False tdiv_abs [of x y] \<open>0 \<le> x\<close> assms(1) show ?thesis by (auto simp: in_type_def limits_min_def)
next
  case True
  then have l: "limits_min t = - half (ci_width t)" "limits_max t = half (ci_width t) - 1"
    by (simp_all add: limits_min_def limits_max_def)
  show ?thesis
  proof (cases "x = limits_min t")
    case False
    then show ?thesis using tdiv_abs [of x y] assms(1) l by (auto simp: in_type_def)
  next
    case x: True
    have h: "0 < half (ci_width t)" using half_ge [of "ci_width t"] by simp
    have "tdiv x y = (if y < 0 then half (ci_width t) div \<bar>y\<bar> else - (half (ci_width t) div \<bar>y\<bar>))"
      using h assms(3) by (simp add: tdiv_def x l(1))
    moreover have "half (ci_width t) div \<bar>y\<bar> < half (ci_width t)" if "y \<noteq> - 1" "y < 0"
      using that h by (intro int_div_less_self) auto
    moreover have "0 \<le> half (ci_width t) div \<bar>y\<bar>" "half (ci_width t) div \<bar>y\<bar> \<le> half (ci_width t)"
      using h assms(3) by (auto simp: pos_imp_zdiv_nonneg_iff intro!: zdiv_le_self)
    ultimately show ?thesis using True x l h by (auto simp: in_type_def)
  qed
qed

lemma IsOverflowAfterDiv_eq:
  assumes "in_type t x" "in_type t y" "y \<noteq> 0" "s = WRAPPING \<or> s = SATURATING \<or> in_type t (tdiv x y)"
  shows "IsOverflowAfterDiv t x y s res = Some (deliver t s (tdiv x y))"
proof (cases "ci_signed t \<and> x = limits_min t \<and> y = - 1")
  case True
  then have n: "\<not> in_type t (tdiv x y)" using tdiv_in_type [OF assms(1-3)] by simp
  have h: "0 < half (ci_width t)" using half_ge [of "ci_width t"] by simp
  have q: "tdiv x y = limits_min t + modulus (ci_width t)" using True h by (simp add: tdiv_def limits_min_def modulus_half)
  have "cast t (tdiv x y) = limits_min t"
    using limits [of t] unfolding q cast_shift(1) by (intro cast_id) (simp add: in_type_def)
  moreover have "clamp t (tdiv x y) = limits_max t"
    using limits [of t] by (simp add: clamp_def q)
  ultimately show ?thesis using True assms(4) n by (auto simp: IsOverflowAfterDiv_def deliver_def)
next
  case False
  then have "in_type t (tdiv x y)" using tdiv_in_type [OF assms(1-3)] by simp
  with False assms(3) show ?thesis
    by (auto simp: IsOverflowAfterDiv_def deliver_def clamp_id tdiv_def)
qed

lemma IsOverflowAfterMod_eq:
  assumes "y \<noteq> 0"
  shows "IsOverflowAfterMod t x y = Some (False, trem x y)"
  using assms half_ge [of "ci_width t"]
  by (auto simp: IsOverflowAfterMod_def trem_eq [symmetric] limits_min_def)

subsection \<open>Casts\<close>

lemma cast_limits_False: "\<not> limits_max k < cast k x" "\<not> cast k x < limits_min k"
  using cast_in_type [of k x] by (auto simp: in_type_def)

lemma typecast_overflow_iff:
  assumes "in_type t x"
  shows "fst (IsTypecastOverflowForInt t k x s) \<longleftrightarrow> \<not> in_type k x"
proof -
  obtain tw ts where t: "t = \<lparr>ci_width = tw, ci_signed = ts\<rparr>" by (cases t)
  obtain kw ks where k: "k = \<lparr>ci_width = kw, ci_signed = ks\<rparr>" by (cases k)
  note defs = IsTypecastOverflowForInt_def Let_def cast_limits_False in_type_def limits_max_def limits_min_def half_def modulus_def
  from assms show ?thesis
    unfolding t k
    by (cases tw; cases kw; cases ts; cases ks;
        simp add: defs cast_def [of _ "numeral _"] cast_def [of _ "- numeral _"] cast_def [of _ 0])
      auto
qed

lemma IsTypecastOverflowForInt_eq:
  assumes "in_type t x"
  shows "IsTypecastOverflowForInt t k x s = deliver k s x"
proof -
  have "IsTypecastOverflowForInt t k x s = (let ovf = fst (IsTypecastOverflowForInt t k x s) in
     (ovf, if ovf \<and> s = SATURATING then (if x < 0 then limits_min k else limits_max k) else cast k x))"
    by (simp add: IsTypecastOverflowForInt_def Let_def)
  then show ?thesis
    using typecast_overflow_iff [OF assms] by (auto simp: deliver_def clamp_id clamp_out Let_def)
qed

subsection \<open>Exponentiation\<close>

lemma int64_limits: "in_type int64 z \<longleftrightarrow> - (2 ^ 63) \<le> z \<and> z < 2 ^ 63"
  by (auto simp: in_type_def limits_min_def limits_max_def half_def)

lemma not_int64I: "2 ^ 63 < \<bar>z\<bar> \<Longrightarrow> \<not> in_type int64 z"
  by (auto simp: int64_limits)

lemma not_int64D: "\<not> in_type int64 z \<Longrightarrow> 2 ^ 63 \<le> \<bar>z\<bar>"
  by (auto simp: int64_limits)

lemma square_not_int64:
  assumes "\<not> in_type int64 (a * a)"
  shows "2 ^ 63 < a * (a :: int)"
proof -
  have ge: "2 ^ 63 \<le> \<bar>a\<bar> * \<bar>a\<bar>" using not_int64D [OF assms] by simp
  have "3037000500 \<le> \<bar>a\<bar>"
  proof (rule ccontr)
    assume "\<not> 3037000500 \<le> \<bar>a\<bar>"
    then have "\<bar>a\<bar> * \<bar>a\<bar> \<le> 3037000499 * 3037000499" by (intro mult_mono) auto
    with ge show False by simp
  qed
  then have "3037000500 * 3037000500 \<le> \<bar>a\<bar> * \<bar>a\<bar>" by (intro mult_mono) auto
  then show ?thesis by simp
qed

lemma abs_mult_ge: "a \<noteq> 0 \<Longrightarrow> \<bar>b\<bar> \<le> \<bar>a * b\<bar>" for a b :: int
  using mult_right_mono [of 1 "\<bar>a\<bar>" "\<bar>b\<bar>"] by (simp add: abs_mult)

lemma power_split: "1 < b \<Longrightarrow> a ^ b = a ^ (b - 2) * (a * a)" for a :: int
proof -
  assume "1 < b"
  then have "b = (b - 2) + 2" by simp
  then show ?thesis by (metis power_add power2_eq_square)
qed

lemma even_odd_power:
  fixes a r :: int
  shows "b mod 2 = 1 \<Longrightarrow> (r * a) * (a * a) ^ (b div 2) = r * a ^ b"
    and "b mod 2 \<noteq> 1 \<Longrightarrow> r * (a * a) ^ (b div 2) = r * a ^ b"
proof -
  have p: "(a * a) ^ (b div 2) = a ^ (2 * (b div 2))" by (simp add: power_mult power2_eq_square)
  show "(r * a) * (a * a) ^ (b div 2) = r * a ^ b" if "b mod 2 = 1"
  proof -
    have "b = Suc (2 * (b div 2))" using that by presburger
    then show ?thesis unfolding p by (metis power_Suc mult.assoc)
  qed
  show "r * (a * a) ^ (b div 2) = r * a ^ b" if "b mod 2 \<noteq> 1"
  proof -
    have "b = 2 * (b div 2)" using that by presburger
    then show ?thesis unfolding p by simp
  qed
qed

text \<open>Whatever overflows, the accumulator is right modulo the width and the flag stays set.\<close>

lemma cast_mult_mod:
  "(cast t x * y) mod modulus (ci_width t) = (x * y) mod modulus (ci_width t)"
  "(y * cast t x) mod modulus (ci_width t) = (y * x) mod modulus (ci_width t)"
  by (metis cast_mod mod_mult_left_eq) (metis cast_mod mod_mult_right_eq)

lemma cast_power_mod: "(y * cast t x ^ n) mod modulus (ci_width t) = (y * x ^ n) mod modulus (ci_width t)"
  by (metis cast_mod mod_mult_right_eq power_mod)

lemma Binpow_loop_wraps:
  assumes "1 \<le> b"
  shows "case Binpow_loop a b res ovf of (a', res', ovf') \<Rightarrow>
    (res' * a') mod 2 ^ 64 = (res * a ^ b) mod 2 ^ 64 \<and> (ovf \<longrightarrow> ovf')"
  using assms
proof (induction b arbitrary: a res ovf rule: less_induct)
  case (less b a res ovf)
  have m: "modulus (ci_width int64) = 2 ^ 64" by (simp add: modulus_def)
  show ?case
  proof (cases "1 < b")
    case True
    let ?o1 = "b mod 2 = 1 \<and> \<not> in_type int64 (res * a)" and ?r = "if b mod 2 = 1 then cast int64 (res * a) else res"
    let ?o2 = "\<not> in_type int64 (a * a)" and ?a = "cast int64 (a * a)"
    have step: "Binpow_loop a b res ovf = Binpow_loop ?a (b div 2) ?r (ovf \<or> ?o1 \<or> ?o2)"
      using True by (subst Binpow_loop.simps) (auto simp: builtin_overflow_eq)
    obtain a' res' ovf' where L: "Binpow_loop ?a (b div 2) ?r (ovf \<or> ?o1 \<or> ?o2) = (a', res', ovf')"
      by (metis prod_cases3)
    have "b div 2 < b" "1 \<le> b div 2" using True by auto
    then have IH: "(res' * a') mod 2 ^ 64 = (?r * ?a ^ (b div 2)) mod 2 ^ 64" "ovf \<or> ?o1 \<or> ?o2 \<longrightarrow> ovf'"
      using less.IH [of "b div 2" ?r ?a "ovf \<or> ?o1 \<or> ?o2"] unfolding L prod.case by blast+
    have "(?r * ?a ^ (b div 2)) mod 2 ^ 64 = (res * a ^ b) mod 2 ^ 64"
    proof (cases "b mod 2 = 1")
      case True
      then show ?thesis
        using cast_power_mod [of ?r int64 "a * a" "b div 2"] cast_mult_mod(1) [of int64 "res * a" "(a * a) ^ (b div 2)"]
        by (simp only: m if_True even_odd_power(1) [OF True] simp_thms)
    next
      case False
      then show ?thesis
        using cast_power_mod [of ?r int64 "a * a" "b div 2"] by (simp only: m if_False even_odd_power(2) [OF False] simp_thms)
    qed
    then show ?thesis unfolding step L prod.case using IH by (metis (no_types, lifting))
  next
    case False
    with less.prems have "b = 1" by simp
    then show ?thesis by (subst Binpow_loop.simps) simp
  qed
qed


text \<open>
  The flag is exact: a base whose square, or an accumulator whose product, leaves the type
  makes the whole power leave it, since no square is \<open>2 ^ 63\<close> and a base of absolute
  value at most 1 never overflows.
\<close>

lemma Binpow_loop_exact:
  assumes "1 \<le> b" "in_type int64 a" "in_type int64 res" "\<bar>a\<bar> \<le> 1 \<longrightarrow> \<bar>res\<bar> \<le> 1" "a \<noteq> 0 \<longrightarrow> res \<noteq> 0"
  shows "case Binpow_loop a b res False of (a', res', ovf') \<Rightarrow>
    if ovf' then \<not> in_type int64 (res * a ^ b)
    else in_type int64 a' \<and> in_type int64 res' \<and> res' * a' = res * a ^ b"
  using assms
proof (induction b arbitrary: a res rule: less_induct)
  case (less b a res)
  show ?case
  proof (cases "1 < b")
    case False
    with less.prems show ?thesis by (subst Binpow_loop.simps) auto
  next
    case True
    let ?o1 = "b mod 2 = 1 \<and> \<not> in_type int64 (res * a)" and ?r = "if b mod 2 = 1 then cast int64 (res * a) else res"
    let ?o2 = "\<not> in_type int64 (a * a)" and ?a = "cast int64 (a * a)"
    have step: "Binpow_loop a b res False = Binpow_loop ?a (b div 2) ?r (?o1 \<or> ?o2)"
      using True by (subst Binpow_loop.simps) (auto simp: builtin_overflow_eq)
    show ?thesis
    proof (cases "?o1 \<or> ?o2")
      case ovf: True
      have "2 ^ 63 < \<bar>res * a ^ b\<bar>"
      proof (cases ?o2)
        case o2: True
        then have a: "2 ^ 63 < a * a" "a \<noteq> 0" using square_not_int64 [of a] by (auto simp: int64_limits)
        have "\<bar>a * a\<bar> \<le> \<bar>(res * a ^ (b - 2)) * (a * a)\<bar>"
          using a(2) less.prems(5) by (intro abs_mult_ge) simp
        also have "(res * a ^ (b - 2)) * (a * a) = res * a ^ b"
          unfolding power_split [OF True, of a] by (simp only: ac_simps)
        finally show ?thesis using a(1) by simp
      next
        case no_o2: False
        with ovf have o1: "b mod 2 = 1" "\<not> in_type int64 (res * a)" by auto
        have r1: "2 ^ 63 \<le> \<bar>res * a\<bar>" using not_int64D [OF o1(2)] .
        have a2: "2 \<le> \<bar>a\<bar>"
        proof (rule ccontr)
          assume "\<not> 2 \<le> \<bar>a\<bar>"
          then have "\<bar>a\<bar> \<le> 1" "\<bar>res\<bar> \<le> 1" using less.prems(4) by auto
          then have "\<bar>res\<bar> * \<bar>a\<bar> \<le> 1 * 1" by (intro mult_mono) auto
          with r1 show False by (simp add: abs_mult)
        qed
        have "2 * 2 ^ 63 \<le> \<bar>a\<bar> * \<bar>res * a\<bar>" using a2 r1 by (intro mult_mono) auto
        also have "\<dots> = \<bar>a * (res * a)\<bar>" by (simp add: abs_mult)
        also have "\<dots> \<le> \<bar>a ^ (b - 2) * (a * (res * a))\<bar>" using a2 by (intro abs_mult_ge) auto
        also have "a ^ (b - 2) * (a * (res * a)) = res * a ^ b"
          unfolding power_split [OF True, of a] by (simp only: ac_simps)
        finally show ?thesis by simp
      qed
      then have "\<not> in_type int64 (res * a ^ b)" by (rule not_int64I)
      moreover have "case Binpow_loop ?a (b div 2) ?r True of (a', res', ovf') \<Rightarrow> ovf'"
        using Binpow_loop_wraps [where b = "b div 2" and a = ?a and res = ?r and ovf = True] True by (auto split: prod.splits)
      ultimately show ?thesis using step ovf by (auto split: prod.splits)
    next
      case ok: False
      then have c: "?a = a * a" "?r = (if b mod 2 = 1 then res * a else res)" by auto
      have "case Binpow_loop ?a (b div 2) ?r False of (a', res', ovf') \<Rightarrow>
        if ovf' then \<not> in_type int64 (?r * ?a ^ (b div 2))
        else in_type int64 a' \<and> in_type int64 res' \<and> res' * a' = ?r * ?a ^ (b div 2)"
      proof (rule less.IH)
        show "b div 2 < b" "1 \<le> b div 2" using True by auto
        show "in_type int64 ?a" "in_type int64 ?r" using less.prems(3) by auto
        show "?a \<noteq> 0 \<longrightarrow> ?r \<noteq> 0" using less.prems(5) unfolding c by auto
        show "\<bar>?a\<bar> \<le> 1 \<longrightarrow> \<bar>?r\<bar> \<le> 1"
        proof
          assume "\<bar>?a\<bar> \<le> 1"
          then have "\<bar>a\<bar> * \<bar>a\<bar> \<le> 1" unfolding c by simp
          then have a1: "\<bar>a\<bar> \<le> 1" by (metis abs_ge_zero abs_mult_self_eq abs_square_le_1 power2_eq_square)
          then have "\<bar>res\<bar> \<le> 1" using less.prems(4) by simp
          moreover from this a1 have "\<bar>res\<bar> * \<bar>a\<bar> \<le> 1 * 1" by (intro mult_mono) auto
          ultimately show "\<bar>?r\<bar> \<le> 1" unfolding c by (simp add: abs_mult)
        qed
      qed
      moreover have "?r * ?a ^ (b div 2) = res * a ^ b"
        unfolding c using even_odd_power [of b res a] by auto
      moreover have "Binpow_loop a b res False = Binpow_loop ?a (b div 2) ?r False"
        unfolding step using ok by (simp only: simp_thms)
      ultimately show ?thesis by (simp only:)
    qed
  qed
qed

lemma Binpow_eq:
  assumes "in_type int64 x"
  shows "Binpow x y = (\<not> in_type int64 (x ^ y), cast int64 (x ^ y))"
proof (cases "y = 0")
  case True
  have "in_type int64 1" by (simp add: int64_limits)
  with True show ?thesis by (simp add: Binpow_def)
next
  case False
  obtain a r ov where l: "Binpow_loop x y 1 False = (a, r, ov)" by (cases "Binpow_loop x y 1 False")
  have w: "(r * a) mod 2 ^ 64 = x ^ y mod 2 ^ 64"
    using Binpow_loop_wraps [where b = y and a = x and res = 1 and ovf = False] False by (simp add: l)
  have e: "if ov then \<not> in_type int64 (x ^ y) else r * a = x ^ y"
    using Binpow_loop_exact [where b = y and a = x and res = 1] False assms by (auto simp: l int64_limits split: if_splits)
  have "cast int64 (r * a) = cast int64 (x ^ y)"
    using w by (intro cast_cong) (simp add: modulus_def)
  with e False show ?thesis by (auto simp: Binpow_def l builtin_overflow_eq split: if_splits)
qed

lemma power_sign: "x < 0 \<Longrightarrow> x ^ y < 0 \<longleftrightarrow> y mod 2 = 1" for x :: int
  by (auto simp: power_less_zero_eq odd_iff_mod_2_eq_one)

lemma IsExpOverflow_eq:
  assumes "in_type int64 x"
  shows "IsExpOverflow x y s = deliver int64 s (x ^ y)"
proof (cases "in_type int64 (x ^ y) \<or> s \<noteq> SATURATING")
  case True
  then show ?thesis using Binpow_eq [OF assms] by (auto simp: IsExpOverflow_def deliver_def clamp_id)
next
  case False
  then have "clamp int64 (x ^ y) = (if x ^ y < 0 then limits_min int64 else limits_max int64)"
    using clamp_out by blast
  moreover have "\<not> x ^ y < 0" if "\<not> x < 0" using that by (simp add: not_less)
  ultimately show ?thesis
    using False Binpow_eq [OF assms, of y] power_sign [of x y]
    by (auto simp: IsExpOverflow_def deliver_def)
qed

subsection \<open>Properties\<close>

lemma trem_in_type:
  assumes "in_type t x" "in_type t y" "y \<noteq> 0"
  shows "in_type t (trem x y)"
proof -
  have b: "0 \<le> \<bar>x\<bar> mod \<bar>y\<bar>" "\<bar>x\<bar> mod \<bar>y\<bar> \<le> \<bar>x\<bar>" using assms(3) by (auto intro: zmod_le_nonneg_dividend)
  have "trem x y = (if x < 0 then - (\<bar>x\<bar> mod \<bar>y\<bar>) else \<bar>x\<bar> mod \<bar>y\<bar>)"
    unfolding trem_eq [symmetric] by (simp add: sgn_if)
  with b assms(1) limits(2,3) [of t] show ?thesis by (auto simp: in_type_def)
qed

text \<open>The exact result of an operation; \<open>Neg\<close> looks at its second operand only.\<close>

definition exact :: "ExprKind \<Rightarrow> int \<Rightarrow> int \<Rightarrow> int" where
  "exact kind x y =
     (case kind of ADD \<Rightarrow> x + y | SUB \<Rightarrow> x - y | MUL \<Rightarrow> x * y | DIV \<Rightarrow> tdiv x y | MOD \<Rightarrow> trem x y
      | NEG \<Rightarrow> - y | OTHER_EXPR \<Rightarrow> 0)"

lemma IsOverflow_eq:
  assumes "in_type t x" "in_type t y" "kind \<noteq> OTHER_EXPR" "kind = DIV \<or> kind = MOD \<longrightarrow> y \<noteq> 0"
  shows "IsOverflow t x y kind s = Some
    (if kind = DIV \<and> \<not> in_type t (tdiv x y) \<and> s \<noteq> WRAPPING \<and> s \<noteq> SATURATING then (True, 0)
     else deliver t s (exact kind x y))"
proof (cases kind)
  case ADD
  then show ?thesis using IsOverflowAfterAdd_eq [OF assms(1,2)] by (simp add: IsOverflow_def exact_def)
next
  case SUB
  then show ?thesis using IsOverflowAfterSub_eq [OF assms(1,2)] by (simp add: IsOverflow_def exact_def)
next
  case NEG
  have "in_type t 0" using limits(2,3) [of t] by (simp add: in_type_def)
  with NEG show ?thesis using IsOverflowAfterSub_eq [OF _ assms(2), of 0] by (simp add: IsOverflow_def exact_def)
next
  case MUL
  then show ?thesis using IsOverflowAfterMul_eq by (simp add: IsOverflow_def exact_def)
next
  case MOD
  then have y: "y \<noteq> 0" using assms(4) by simp
  with MOD show ?thesis
    using trem_in_type [OF assms(1,2) y] IsOverflowAfterMod_eq [OF y]
    by (simp add: IsOverflow_def exact_def deliver_def clamp_id)
next
  case DIV
  then have y: "y \<noteq> 0" using assms(4) by simp
  show ?thesis
  proof (cases "s = WRAPPING \<or> s = SATURATING \<or> in_type t (tdiv x y)")
    case True
    then show ?thesis using DIV IsOverflowAfterDiv_eq [OF assms(1,2) y True] by (auto simp: IsOverflow_def exact_def)
  next
    case False
    then show ?thesis using DIV tdiv_in_type [OF assms(1,2) y]
      by (simp add: IsOverflow_def IsOverflowAfterDiv_def Let_def)
  qed
qed (use assms(3) in simp)

text \<open>C38: constant evaluation of an operator reports an overflow exactly when the exact result
  does not fit the type, and delivers the nearest limit when saturating and the wrapped
  result otherwise; an overflowing division is 0 under the remaining strategies.\<close>

theorem IsOverflow_correct:
  assumes "in_type t x" "in_type t y" "kind \<noteq> OTHER_EXPR" "kind = DIV \<or> kind = MOD \<longrightarrow> y \<noteq> 0"
  shows "IsOverflow t x y kind s = Some
    (if kind = DIV \<and> \<not> in_type t (tdiv x y) \<and> s \<noteq> WRAPPING \<and> s \<noteq> SATURATING then (True, 0)
     else deliver t s (exact kind x y))"
  using assms by (rule IsOverflow_eq)

lemma IsOverflow_correct_witness:
  "IsOverflow (int_t I8) (- 128) (- 1) DIV SATURATING = Some (True, 127) \<and>
   IsIntOverflow TYPE_INT8 MUL 100 3 WRAPPING = Some (True, 44)"
proof -
  have t: "in_type (int_t I8) (- 128)" "in_type (int_t I8) (- 1)" by code_simp+
  have "deliver (int_t I8) SATURATING (exact DIV (- 128) (- 1)) = (True, 127)" by code_simp
  then have "IsOverflow (int_t I8) (- 128) (- 1) DIV SATURATING = Some (True, 127)"
    using IsOverflow_correct [OF t, of DIV SATURATING] by simp
  moreover have "IsIntOverflow TYPE_INT8 MUL 100 3 WRAPPING = Some (True, 44)" by code_simp
  ultimately show ?thesis by simp
qed

text \<open>A cast between any two of the integer types reports an overflow exactly when the number
  does not fit the target, and saturates or wraps it; the comparisons of limits in the larger
  of the two types never go wrong.\<close>

theorem IsTypecastOverflowForInt_correct:
  assumes "in_type t x"
  shows "IsTypecastOverflowForInt t k x s =
    (\<not> in_type k x, if s = SATURATING then clamp k x else cast k x)"
  using IsTypecastOverflowForInt_eq [OF assms] by (simp add: deliver_def)

lemma IsTypecastOverflowForInt_correct_witness:
  "IsTypecastOverflowForInt (int_t I16) (uint_t I8) (- 3) SATURATING = (True, 0)"
proof -
  have "in_type (int_t I16) (- 3)" "clamp (uint_t I8) (- 3) = 0" "\<not> in_type (uint_t I8) (- 3)" by code_simp+
  then show ?thesis using IsTypecastOverflowForInt_correct [of "int_t I16" "- 3" "uint_t I8" SATURATING] by simp
qed

text \<open>Exponentiation by repeated squaring reports an overflow exactly when the power does not
  fit 64 bits, although it watches intermediate squares and products, and wraps or
  saturates it.\<close>

theorem IsExpOverflow_correct:
  assumes "in_type int64 x"
  shows "IsExpOverflow x y s = (\<not> in_type int64 (x ^ y), if s = SATURATING then clamp int64 (x ^ y) else cast int64 (x ^ y))"
  using IsExpOverflow_eq [OF assms] by (simp add: deliver_def)

lemma IsExpOverflow_correct_witness:
  "IsExpOverflow (- 2) 63 THROWING = (False, - (2 ^ 63)) \<and> IsExpOverflow (- 2) 65 SATURATING = (True, - (2 ^ 63))"
proof -
  have t: "in_type int64 (- 2)" "in_type int64 ((- 2) ^ 63)" "\<not> in_type int64 ((- 2) ^ 65)" by (simp_all add: int64_limits)
  have "clamp int64 ((- 2) ^ 65) = - (2 ^ 63)" by (simp add: clamp_def limits_min_def limits_max_def half_def)
  then show ?thesis using IsExpOverflow_correct [OF t(1), of 63 THROWING] IsExpOverflow_correct [OF t(1), of 65 SATURATING] t(2,3)
    by simp
qed

end
