(* ===== verification/NumConvDefs.thy ===== *)
theory NumConvDefs
  imports RangeArithDefs OverflowDefs
begin

section \<open>Conversion of ranges between integer types\<close>

text \<open>
  \<open>NumericConversion\<close> of \<open>SIntDomain.cpp\<close>: the range of a number after a cast
  to a width and signedness, under an overflow strategy. Widths are compared as the C++
  enumeration is, by their number of bits.
\<close>

instantiation IntWidth :: linorder
begin

definition less_eq_IntWidth :: "IntWidth \<Rightarrow> IntWidth \<Rightarrow> bool" where
  "less_eq_IntWidth v w \<longleftrightarrow> bits v \<le> bits w"

definition less_IntWidth :: "IntWidth \<Rightarrow> IntWidth \<Rightarrow> bool" where
  "less_IntWidth v w \<longleftrightarrow> bits v < bits w"

instance
proof
  fix v w :: IntWidth
  show "v \<le> w \<Longrightarrow> w \<le> v \<Longrightarrow> v = w"
    by (cases v; cases w) (simp_all add: less_eq_IntWidth_def)
qed (auto simp: less_eq_IntWidth_def less_IntWidth_def)

end

subsection \<open>The same signedness\<close>

definition NCSameSignessInner :: "ConstantRange \<Rightarrow> IntWidth \<Rightarrow> bool \<Rightarrow> OverflowStrategy \<Rightarrow> ConstantRange" where
  "NCSameSignessInner src dstSize isUnsigned ov =
     (let srcSize = CR_Width src
      in if CR_IsFullSet src then CR_Full dstSize
         else if CR_IsEmptySet src then CR_Empty dstSize
         else
           let higherPart = CR_IntersectWith
                 (if isUnsigned then CR_From GE (SInt_ZExt (SInt_UMinValue dstSize) srcSize) False
                  else CR_From GE (SInt_SExt (SInt_SMinValue dstSize) srcSize) True)
                 src (PreferFromBool isUnsigned);
               unchangedPart = CR_IntersectWith
                 (if isUnsigned then CR_From LE (SInt_ZExt (SInt_UMaxValue dstSize) srcSize) False
                  else CR_From LE (SInt_SExt (SInt_SMaxValue dstSize) srcSize) True)
                 higherPart (PreferFromBool isUnsigned);
               res = CR_Truncate unchangedPart dstSize
           in if CR_eq src unchangedPart \<or> ov = THROWING then res
              else if ov = WRAPPING then CR_Full dstSize
              else
                let res1 = (if CR_IsNotEmptySet (CR_Difference src higherPart)
                            then CR_UnionWith res
                              (CR_single (if isUnsigned then SInt_UMinValue dstSize else SInt_SMinValue dstSize))
                              (PreferFromBool isUnsigned)
                            else res);
                    res2 = (if CR_IsNotEmptySet (CR_Difference higherPart unchangedPart)
                            then CR_UnionWith res1
                              (CR_single (if isUnsigned then SInt_UMaxValue dstSize else SInt_SMaxValue dstSize))
                              (PreferFromBool isUnsigned)
                            else res1)
                in res2)"

definition NumericConversionWithSameSigness ::
    "ConstantRange \<Rightarrow> IntWidth \<Rightarrow> bool \<Rightarrow> OverflowStrategy \<Rightarrow> ConstantRange" where
  "NumericConversionWithSameSigness src dstSize isUnsigned ov =
     (let srcSize = CR_Width src
      in if srcSize = dstSize then src
         else if srcSize < dstSize then
           (if isUnsigned then CR_ZeroExtend src dstSize else CR_SignExtend src dstSize)
         else if (if isUnsigned then CR_IsWrappedSet src else CR_IsSignWrappedSet src) then
           (let (l, r) = CR_SplitWrapping src isUnsigned;
                l1 = NCSameSignessInner l dstSize isUnsigned ov;
                r1 = NCSameSignessInner r dstSize isUnsigned ov
            in CR_UnionWith l1 r1 (PreferFromBool isUnsigned))
         else NCSameSignessInner src dstSize isUnsigned ov)"

definition TruncWithUpperWrapped :: "ConstantRange \<Rightarrow> bool \<Rightarrow> IntWidth \<Rightarrow> ConstantRange" where
  "TruncWithUpperWrapped src dstUnsigned dstSize =
     (if SInt_eq (upper src)
           (SInt_add_u64 (if dstUnsigned then SInt_ZExt (SInt_UMaxValue dstSize) (CR_Width src)
                          else SInt_ZExt (SInt_SMaxValue dstSize) (CR_Width src)) 1)
      then
        let l = SInt_Trunc (lower src) dstSize;
            u = SInt_add_u64 (SInt_Trunc (SInt_sub_u64 (upper src) 1) dstSize) 1
        in if SInt_eq l u then CR_Full dstSize else mkCR l u
      else CR_Truncate src dstSize)"

subsection \<open>From unsigned to signed\<close>

definition NCU2SInner :: "ConstantRange \<Rightarrow> IntWidth \<Rightarrow> OverflowStrategy \<Rightarrow> ConstantRange" where
  "NCU2SInner src dstSize ov =
     (let srcSize = CR_Width src;
          dstMax = (if dstSize < srcSize then SInt_SExt (SInt_SMaxValue dstSize) srcSize
                    else SInt_SMaxValue dstSize)
      in if CR_IsEmptySet src then CR_Empty dstSize
         else
           let unchangedRange = CR_IntersectWith (CR_From LE dstMax False) src Unsigned
           in if CR_eq unchangedRange src \<or> ov = THROWING then
                (if dstSize < srcSize then TruncWithUpperWrapped unchangedRange False dstSize
                 else unchangedRange)
              else if ov = SATURATING then
                (let ans = CR_UnionWith unchangedRange (CR_single dstMax) Signed
                 in if dstSize < srcSize then TruncWithUpperWrapped ans False dstSize else ans)
              else if srcSize = dstSize then src
              else CR_Full dstSize)"

definition NumericConversionU2S :: "ConstantRange \<Rightarrow> IntWidth \<Rightarrow> OverflowStrategy \<Rightarrow> ConstantRange" where
  "NumericConversionU2S src dstSize ov =
     (let srcSize = CR_Width src
      in if srcSize < dstSize then CR_ZeroExtend src dstSize
         else if \<not> CR_IsWrappedSet src then NCU2SInner src dstSize ov
         else
           let (l, r) = CR_SplitWrapping src True
           in CR_UnionWith (NCU2SInner l dstSize ov) (NCU2SInner r dstSize ov) Signed)"

definition NumericConversionU2SSameWidth :: "ConstantRange \<Rightarrow> ConstantRange" where
  "NumericConversionU2SSameWidth src = NumericConversionU2S src (CR_Width src) THROWING"

subsection \<open>From signed to unsigned\<close>

definition NCS2UInnerTrunc :: "ConstantRange \<Rightarrow> IntWidth \<Rightarrow> OverflowStrategy \<Rightarrow> ConstantRange" where
  "NCS2UInnerTrunc src dstSize ov =
     (if CR_IsEmptySet src then CR_Empty dstSize
      else
        let srcSize = CR_Width src;
            nonNegRange = CR_IntersectWith src (CR_From GE (SInt_Zero srcSize) True) Signed;
            negRange = CR_Difference src nonNegRange;
            unchangedRange = CR_IntersectWith nonNegRange
              (CR_From LE (SInt_ZExt (SInt_UMaxValue dstSize) srcSize) True) Smallest
        in if CR_eq unchangedRange src \<or> ov = THROWING then TruncWithUpperWrapped unchangedRange True dstSize
           else if ov = SATURATING then
             (let res = unchangedRange;
                  res1 = (if CR_IsNotEmptySet negRange
                          then CR_UnionWith res (CR_single (SInt_Zero srcSize)) Unsigned else res);
                  res2 = (if \<not> CR_eq unchangedRange nonNegRange
                          then CR_UnionWith res1 (CR_single (SInt_ZExt (SInt_UMaxValue dstSize) srcSize)) Unsigned
                          else res1)
              in TruncWithUpperWrapped res2 True dstSize)
           else CR_Full dstSize)"

definition NCS2UInnerExtend :: "ConstantRange \<Rightarrow> IntWidth \<Rightarrow> OverflowStrategy \<Rightarrow> ConstantRange" where
  "NCS2UInnerExtend src dstSize ov =
     (if CR_IsEmptySet src then CR_Empty dstSize
      else
        let srcSize = CR_Width src;
            nonNegRange = CR_IntersectWith src (CR_From GE (SInt_Zero srcSize) True) Signed;
            negRange = CR_Difference src nonNegRange
        in if CR_eq nonNegRange src \<or> ov = THROWING then
             (if srcSize = dstSize then nonNegRange else CR_ZeroExtend nonNegRange dstSize)
           else if ov = SATURATING then
             (let nonNegRange1 = (if CR_IsNotEmptySet negRange
                    then CR_UnionWith nonNegRange (CR_single (SInt_UMinValue srcSize)) Smallest
                    else nonNegRange)
              in if srcSize = dstSize then nonNegRange1 else CR_ZeroExtend nonNegRange1 dstSize)
           else
             let negOverflowRange = mkCR (SInt_SExt (CR_SMinValue negRange) dstSize)
                   (SInt_add_u64 (SInt_SExt (CR_SMaxValue negRange) dstSize) 1)
             in CR_UnionWith negOverflowRange
                  (if srcSize = dstSize then nonNegRange else CR_ZeroExtend nonNegRange dstSize) Unsigned)"

definition NumericConversionS2U :: "ConstantRange \<Rightarrow> IntWidth \<Rightarrow> OverflowStrategy \<Rightarrow> ConstantRange" where
  "NumericConversionS2U src dstSize ov =
     (let srcSize = CR_Width src
      in if dstSize < srcSize then
           (if CR_IsSignWrappedSet src then
              (let (l, r) = CR_SplitWrapping src False
               in CR_UnionWith (NCS2UInnerTrunc l dstSize ov) (NCS2UInnerTrunc r dstSize ov) Unsigned)
            else NCS2UInnerTrunc src dstSize ov)
         else NCS2UInnerExtend src dstSize ov)"

subsection \<open>The conversion\<close>

definition NumericConversion ::
    "ConstantRange \<Rightarrow> IntWidth \<Rightarrow> bool \<Rightarrow> bool \<Rightarrow> OverflowStrategy \<Rightarrow> ConstantRange" where
  "NumericConversion src dstSize srcUnsigned dstUnsigned ov =
     (if srcUnsigned = dstUnsigned then NumericConversionWithSameSigness src dstSize srcUnsigned ov
      else if srcUnsigned then NumericConversionU2S src dstSize ov
      else NumericConversionS2U src dstSize ov)"

end
