(* ===== verification/Intervals.thy ===== *)
theory Intervals
  imports RangeSDiv NumConvDefs
begin

section \<open>Ranges that are intervals in a reading\<close>

text \<open>
  A range whose bounds do not wrap, read as signed or as unsigned numbers, stands for an
  interval of integers. Intersections and unions that are intervals are exact, and a range
  is determined by its elements: with these two facts the conditions that the conversion
  code tests on ranges become conditions on numbers.
\<close>

definition interval :: "bool \<Rightarrow> IntWidth \<Rightarrow> int \<Rightarrow> int \<Rightarrow> SInt set" where
  "interval s w a b = {x. sint_ok x \<and> width x = w \<and> a \<le> ival s x \<and> ival s x \<le> b}"

definition is_ivl :: "bool \<Rightarrow> ConstantRange \<Rightarrow> bool" where
  "is_ivl s r \<longleftrightarrow> cr_ok r \<and> (\<exists>a b. elems r = interval s (width (lower r)) a b)"

definition number :: "IntWidth \<Rightarrow> int \<Rightarrow> SInt" where
  "number w n = mkSInt w (word_of_int n)"

definition imin :: "bool \<Rightarrow> IntWidth \<Rightarrow> int" where "imin s w = (if s then - half w else 0)"
definition imax :: "bool \<Rightarrow> IntWidth \<Rightarrow> int" where "imax s w = (if s then half w - 1 else modulus w - 1)"

lemma number_ok [simp]: "sint_ok (number w n)" "width (number w n) = w"
  by (simp_all add: number_def mkSInt_ok mkSInt_width)

lemma number_uval [simp]: "uval (number w n) = n mod modulus w"
  by (simp add: number_def mkSInt_uval uint_word_of_int modulus_def mod_pow64)

lemma imin_imax: "imin s w \<le> 0" "0 < imax s w" "imax s w = imin s w + modulus w - 1"
  using half_ge [of w] by (auto simp: imin_def imax_def modulus_half)

lemma ival_range: "sint_ok x \<Longrightarrow> imin s (width x) \<le> ival s x \<and> ival s x \<le> imax s (width x)"
  using sval_range [of x] uval_less [of x] uval_nonneg [of x] by (auto simp: ival_def imin_def imax_def)

lemma ival_number: "imin s w \<le> n \<Longrightarrow> n \<le> imax s w \<Longrightarrow> ival s (number w n) = n"
  using half_ge [of w] by (auto simp: ival_def imin_def imax_def intro!: sval_unique)

lemma ival_mod: "sint_ok x \<Longrightarrow> ival s x mod modulus (width x) = uval x"
  using sval_mod [of x] uval_less [of x] uval_nonneg [of x] by (simp add: ival_def)

lemma ival_inj: "sint_ok x \<Longrightarrow> sint_ok y \<Longrightarrow> width x = width y \<Longrightarrow> ival s x = ival s y \<longleftrightarrow> x = y"
  by (metis SInt_eq_iff ival_mod)

lemma number_ival: "sint_ok x \<Longrightarrow> number (width x) (ival s x) = x"
  using ival_mod [of x s] by (simp add: SInt_eq_iff)

lemma interval_inter: "interval s w a b \<inter> interval s w c d = interval s w (max a c) (min b d)"
  by (auto simp: interval_def)

lemma interval_elems_iff:
  assumes "cr_ok r"
  shows "x \<in> elems r \<longleftrightarrow> sint_ok x \<and> width x = width (lower r) \<and>
    (if ival s (lower r) = ival s (upper r) then lo r \<noteq> 0
     else if ival s (lower r) < ival s (upper r) then ival s (lower r) \<le> ival s x \<and> ival s x < ival s (upper r)
     else ival s (lower r) \<le> ival s x \<or> ival s x < ival s (upper r))"
proof (cases s)
  case True
  then show ?thesis using elems_signed [OF assms, of x] by (simp add: ival_def)
next
  case False
  then show ?thesis using elems_iff [OF assms, of x] by (simp add: ival_def arc_def)
qed

lemma is_ivl_unwrapped:
  assumes "cr_ok r" "\<not> (if s then CR_IsSignWrappedSet r else CR_IsWrappedSet r)"
  shows "is_ivl s r"
proof -
  note d = cr_okD [OF assms(1)]
  let ?w = "width (lower r)" and ?l = "ival s (lower r)" and ?u = "ival s (upper r)"
  have u: "?l \<le> ?u \<or> ?u = imin s ?w"
    using assms(2) CR_tests_sem(3,5) [OF assms(1)] by (cases s) (auto simp: ival_def imin_def)
  have rng: "imin s ?w \<le> ival s x \<and> ival s x \<le> imax s ?w" if "sint_ok x" "width x = ?w" for x
    using ival_range [of x s] that by simp
  let ?a = "if ?l = ?u then (if lo r \<noteq> 0 then imin s ?w else 1) else ?l"
  let ?b = "if ?l = ?u then (if lo r \<noteq> 0 then imax s ?w else 0) else if ?l < ?u then ?u - 1 else imax s ?w"
  have "elems r = interval s ?w ?a ?b"
  proof (rule set_eqI)
    fix x
    show "x \<in> elems r \<longleftrightarrow> x \<in> interval s ?w ?a ?b"
    proof (cases "sint_ok x \<and> width x = ?w")
      case True
      then have "imin s ?w \<le> ival s x \<and> ival s x \<le> imax s ?w" using rng by blast
      then show ?thesis unfolding interval_elems_iff [OF assms(1), of x s] using True u by (auto simp: interval_def)
    next
      case False
      then show ?thesis unfolding interval_elems_iff [OF assms(1), of x s] by (auto simp: interval_def)
    qed
  qed
  then show ?thesis using assms(1) by (auto simp: is_ivl_def)
qed

lemma interval_representable: "representable w (interval s w a b)"
proof -
  let ?A = "max a (imin s w)" and ?B = "min b (imax s w)"
  have eq: "interval s w a b = interval s w ?A ?B"
    using ival_range [of _ s] by (auto simp: interval_def)
  consider "?B < ?A" | "?A = imin s w" "?B = imax s w" | "?A \<le> ?B" "imin s w < ?A \<or> ?B < imax s w" by linarith
  then show ?thesis
  proof cases
    case 1
    then have "elems (CR_Empty w) = interval s w ?A ?B" by (auto simp: elems_Empty interval_def)
    then show ?thesis unfolding representable_def eq by (intro exI [of _ "CR_Empty w"]) (simp add: SInt_const_width)
  next
    case 2
    then have "elems (CR_Full w) = interval s w ?A ?B"
      using ival_range [of _ s] by (auto simp: elems_Full interval_def)
    then show ?thesis unfolding representable_def eq by (intro exI [of _ "CR_Full w"]) (simp add: SInt_const_width)
  next
    case 3
    let ?l = "number w ?A" and ?u = "number w (?B + 1)"
    have l: "ival s ?l = ?A" using 3(1) by (intro ival_number) auto
    have u: "ival s ?u = (if ?B = imax s w then imin s w else ?B + 1)"
    proof (cases "?B = imax s w")
      case True
      have "number w (imax s w + 1) = number w (imin s w)"
        unfolding SInt_eq_iff using imin_imax(3) [of s w] by simp
      then show ?thesis using True imin_imax [of s w] by (simp add: ival_number)
    next
      case False
      then show ?thesis using 3(1) by (subst ival_number) auto
    qed
    have ne: "uval ?l \<noteq> uval ?u"
    proof
      assume "uval ?l = uval ?u"
      then have "?l = ?u" by (simp add: SInt_eq_iff)
      then have "ival s ?l = ival s ?u" by simp
      with l u 3 show False by (auto split: if_splits)
    qed
    then have ok: "cr_ok (mkCR ?l ?u)" by (intro mkCR_ok) (simp add: same_def)
    have "elems (mkCR ?l ?u) = interval s w ?A ?B"
    proof (rule set_eqI)
      fix x
      have "sint_ok x \<and> width x = w \<Longrightarrow> imin s w \<le> ival s x \<and> ival s x \<le> imax s w"
        using ival_range [of x s] by auto
      then show "x \<in> elems (mkCR ?l ?u) \<longleftrightarrow> x \<in> interval s w ?A ?B"
        unfolding interval_elems_iff [OF ok, of x s] mkCR_sel number_ok l u
        using 3 by (auto simp: interval_def)
    qed
    then show ?thesis using ok unfolding representable_def eq by (intro exI [of _ "mkCR ?l ?u"]) simp
  qed
qed


subsection \<open>Exact intersections and unions\<close>

lemma inter_interval:
  assumes "cr_same r q" "elems r \<inter> elems q = interval s (width (lower r)) a b"
  shows "elems (CR_IntersectWith r q t) = interval s (width (lower r)) a b"
  using CR_IntersectWith_spec [OF assms(1), of t] assms(2) interval_representable [of "width (lower r)" s a b]
  by (simp add: inter_spec_def)

lemma union_interval:
  assumes "cr_same r q" "elems r \<union> elems q = interval s (width (lower r)) a b"
  shows "elems (CR_UnionWith r q t) = interval s (width (lower r)) a b"
  using CR_UnionWith_spec [OF assms(1), of t] assms(2) interval_representable [of "width (lower r)" s a b]
  by (simp add: union_spec_def)

lemma inter_wf:
  assumes "cr_same r q"
  shows "cr_ok (CR_IntersectWith r q t)" "width (lower (CR_IntersectWith r q t)) = width (lower r)"
    "elems r \<inter> elems q \<subseteq> elems (CR_IntersectWith r q t)"
  using CR_IntersectWith_spec [OF assms, of t] by (simp_all add: inter_spec_def)

lemma union_wf:
  assumes "cr_same r q"
  shows "cr_ok (CR_UnionWith r q t)" "width (lower (CR_UnionWith r q t)) = width (lower r)"
    "elems r \<subseteq> elems (CR_UnionWith r q t)" "elems q \<subseteq> elems (CR_UnionWith r q t)"
  using CR_UnionWith_spec [OF assms, of t] by (simp_all add: union_spec_def)

lemma is_ivlD: "is_ivl s r \<Longrightarrow> cr_ok r"
  by (simp add: is_ivl_def)

text \<open>The half lines of a comparison.\<close>

definition half_line :: "RelationalOperation \<Rightarrow> bool" where
  "half_line rel \<longleftrightarrow> rel \<in> {LT, LE, GT, GE}"

lemma rel_interval:
  assumes "half_line rel"
  shows "\<exists>a b. {x. sint_ok x \<and> width x = w \<and> rel_sem rel (ival s x) c} = interval s w a b"
proof -
  note rng = ival_range [of _ s]
  consider "rel = LT" | "rel = LE" | "rel = GT" | "rel = GE" using assms by (auto simp: half_line_def)
  then show ?thesis
  proof cases
    case 1
    then show ?thesis using rng
      by (intro exI [of _ "imin s w"] exI [of _ "c - 1"]) (auto simp: interval_def rel_sem_def)
  next
    case 2
    then show ?thesis using rng
      by (intro exI [of _ "imin s w"] exI [of _ c]) (auto simp: interval_def rel_sem_def)
  next
    case 3
    then show ?thesis using rng
      by (intro exI [of _ "c + 1"] exI [of _ "imax s w"]) (auto simp: interval_def rel_sem_def)
  next
    case 4
    then show ?thesis using rng
      by (intro exI [of _ c] exI [of _ "imax s w"]) (auto simp: interval_def rel_sem_def)
  qed
qed

lemma From_elems: "sint_ok v \<Longrightarrow> elems (CR_From rel v s) = {x. sint_ok x \<and> width x = width v \<and> rel_sem rel (ival s x) (ival s v)}"
  by (auto simp: CR_From_exact same_def)

lemma From_is_ivl: "sint_ok v \<Longrightarrow> half_line rel \<Longrightarrow> is_ivl s (CR_From rel v s)"
  using rel_interval [of rel "width v" s "ival s v"] CR_From_ok [of v rel s]
  by (simp add: is_ivl_def From_elems)

lemma restrict_interval:
  assumes "half_line rel" "is_ivl s r"
  shows "\<exists>a b. {x \<in> elems r. rel_sem rel (ival s x) c} = interval s (width (lower r)) a b"
proof -
  obtain a b where r: "elems r = interval s (width (lower r)) a b" using assms(2) by (auto simp: is_ivl_def)
  obtain a' b' where c: "{x. sint_ok x \<and> width x = width (lower r) \<and> rel_sem rel (ival s x) c} = interval s (width (lower r)) a' b'"
    using rel_interval [OF assms(1)] by blast
  have "{x \<in> elems r. rel_sem rel (ival s x) c} = elems r \<inter> {x. sint_ok x \<and> width x = width (lower r) \<and> rel_sem rel (ival s x) c}"
    unfolding r by (auto simp: interval_def)
  then show ?thesis unfolding r c interval_inter by blast
qed

lemma inter_From:
  assumes "is_ivl s r" "half_line rel" "sint_ok v" "width v = width (lower r)"
  shows "is_ivl s (CR_IntersectWith r (CR_From rel v s) t)"
    "is_ivl s (CR_IntersectWith (CR_From rel v s) r t)"
    "elems (CR_IntersectWith r (CR_From rel v s) t) = {x \<in> elems r. rel_sem rel (ival s x) (ival s v)}"
    "elems (CR_IntersectWith (CR_From rel v s) r t) = {x \<in> elems r. rel_sem rel (ival s x) (ival s v)}"
    "width (lower (CR_IntersectWith r (CR_From rel v s) t)) = width (lower r)"
    "width (lower (CR_IntersectWith (CR_From rel v s) r t)) = width (lower r)"
proof -
  have same: "cr_same r (CR_From rel v s)" "cr_same (CR_From rel v s) r"
    using assms CR_From_ok [of v rel s] is_ivlD [OF assms(1)] by (simp_all add: cr_same_def)
  obtain a b where ab: "{x \<in> elems r. rel_sem rel (ival s x) (ival s v)} = interval s (width (lower r)) a b"
    using restrict_interval [OF assms(2,1)] by blast
  have i: "elems r \<inter> elems (CR_From rel v s) = {x \<in> elems r. rel_sem rel (ival s x) (ival s v)}"
    "elems (CR_From rel v s) \<inter> elems r = {x \<in> elems r. rel_sem rel (ival s x) (ival s v)}"
    using assms(3,4) is_ivlD [OF assms(1)] by (auto simp: From_elems elems_iff)
  have w: "width (lower (CR_From rel v s)) = width (lower r)" using assms(3,4) CR_From_ok by simp
  show e: "elems (CR_IntersectWith r (CR_From rel v s) t) = {x \<in> elems r. rel_sem rel (ival s x) (ival s v)}"
    using inter_interval [OF same(1) i(1) [unfolded ab]] ab by simp
  show e': "elems (CR_IntersectWith (CR_From rel v s) r t) = {x \<in> elems r. rel_sem rel (ival s x) (ival s v)}"
    using inter_interval [OF same(2) i(2) [unfolded ab w [symmetric]]] ab w by simp
  show "width (lower (CR_IntersectWith r (CR_From rel v s) t)) = width (lower r)"
    "width (lower (CR_IntersectWith (CR_From rel v s) r t)) = width (lower r)"
    using inter_wf(2) [OF same(1)] inter_wf(2) [OF same(2)] w by simp_all
  then show "is_ivl s (CR_IntersectWith r (CR_From rel v s) t)" "is_ivl s (CR_IntersectWith (CR_From rel v s) r t)"
    using e e' ab inter_wf(1) [OF same(1)] inter_wf(1) [OF same(2)] by (auto simp: is_ivl_def)
qed

subsection \<open>A range is determined by its elements\<close>

lemma arc_ends:
  fixes l u x M :: int
  defines "p \<equiv> if x = 0 then M - 1 else x - 1"
  assumes "0 \<le> l" "l < M" "0 \<le> u" "u < M" "0 \<le> x" "x < M" "l \<noteq> u"
  shows "arc l u x \<and> \<not> arc l u p \<longleftrightarrow> x = l" "\<not> arc l u x \<and> arc l u p \<longleftrightarrow> x = u"
  using assms(2-) unfolding arc_def p_def by (cases "l < u"; auto)+

lemma arc_bounds_unique:
  fixes l u l' u' M :: int
  assumes "0 \<le> l" "l < M" "0 \<le> u" "u < M" "0 \<le> l'" "l' < M" "0 \<le> u'" "u' < M"
    "l = u \<Longrightarrow> l = 0 \<or> l = M - 1" "l' = u' \<Longrightarrow> l' = 0 \<or> l' = M - 1"
    "\<And>x. 0 \<le> x \<Longrightarrow> x < M \<Longrightarrow> arc l u x \<longleftrightarrow> arc l' u' x"
  shows "l = l' \<and> u = u'"
proof -
  let ?p = "\<lambda>x. if x = 0 then M - 1 else x - 1"
  have p: "0 \<le> ?p x" "?p x < M" if "0 \<le> x" "x < M" for x using that assms(1,2) by auto
  have e: "arc l u x \<longleftrightarrow> arc l' u' x" "arc l u (?p x) \<longleftrightarrow> arc l' u' (?p x)" if "0 \<le> x" "x < M" for x
    using assms(11) that p [OF that] by blast+
  consider "l \<noteq> u" "l' \<noteq> u'" | "l = u" "l' = u'" | "l = u" "l' \<noteq> u'" | "l \<noteq> u" "l' = u'" by blast
  then show ?thesis
  proof cases
    case 1
    then show ?thesis
      using arc_ends [OF assms(1-4) assms(1,2)] arc_ends [OF assms(1-4) assms(3,4)]
        arc_ends [OF assms(5-8) assms(1,2)] arc_ends [OF assms(5-8) assms(3,4)]
        e [OF assms(1,2)] e [OF assms(3,4)] by metis
  next
    case 2
    then show ?thesis using e(1) [OF assms(1,2)] assms(9,10) by (auto simp: arc_def)
  next
    case 3
    then show ?thesis
      using arc_ends(1) [OF assms(5-8) assms(5,6)] e [OF assms(5,6)] by (auto simp: arc_def [of u u])
  next
    case 4
    then show ?thesis
      using arc_ends(1) [OF assms(1-4) assms(1,2)] e [OF assms(1,2)] by (auto simp: arc_def [of u' u'])
  qed
qed

lemma elems_inject:
  assumes "cr_same r q"
  shows "elems r = elems q \<longleftrightarrow> r = q"
proof
  assume e: "elems r = elems q"
  note d = cr_okD [OF cr_sameD(1) [OF assms]] and d' = cr_okD [OF cr_sameD(2) [OF assms]] and w = cr_sameD(3) [OF assms]
  have "lo r = lo q \<and> up r = up q"
  proof (rule arc_bounds_unique [where M = "cmod r"])
    fix x assume x: "0 \<le> x" "x < cmod r"
    have "number (width (lower r)) x \<in> elems r \<longleftrightarrow> number (width (lower r)) x \<in> elems q" using e by simp
    then show "arc (lo r) (up r) x \<longleftrightarrow> arc (lo q) (up q) x"
      using x w cr_sameD(1,2) [OF assms] by (simp add: elems_iff)
  qed (use d d' w in auto)
  then have "lower r = lower q" "upper r = upper q" using d d' w by (auto simp: SInt_eq_iff)
  then show "r = q" by simp
qed simp

lemma CR_eq_iff:
  assumes "cr_same r q"
  shows "CR_eq r q \<longleftrightarrow> r = q"
proof -
  note d = cr_okD [OF cr_sameD(1) [OF assms]] and d' = cr_okD [OF cr_sameD(2) [OF assms]] and w = cr_sameD(3) [OF assms]
  have "CR_eq r q \<longleftrightarrow> lo r = lo q \<and> up r = up q"
    using d d' w by (simp add: CR_eq_def SInt_eq_sem)
  also have "\<dots> \<longleftrightarrow> lower r = lower q \<and> upper r = upper q"
    using d d' w by (auto simp: SInt_eq_iff)
  also have "\<dots> \<longleftrightarrow> r = q" by auto
  finally show ?thesis .
qed

lemma CR_eq_elems: "cr_same r q \<Longrightarrow> CR_eq r q \<longleftrightarrow> elems r = elems q"
  using CR_eq_iff elems_inject by blast

lemma CR_IsEmptySet_elems: "cr_ok r \<Longrightarrow> CR_IsEmptySet r \<longleftrightarrow> elems r = {}"
proof -
  assume ok: "cr_ok r"
  have "elems r = {}" if "CR_IsEmptySet r"
    using that CR_tests_sem(2) [OF ok] elems_iff [OF ok] by (auto simp: arc_def)
  with CR_UMinMax_mem(1) [OF ok] show ?thesis by blast
qed

lemma Inverse_inter:
  assumes "cr_same r q"
  shows "elems r \<inter> elems (CR_Inverse q) = elems r - elems q"
proof -
  have "same (lower q) x" if "x \<in> elems r" for x
    using that cr_okD(1) [OF cr_sameD(2) [OF assms]] cr_sameD(3) [OF assms] elems_iff [OF cr_sameD(1) [OF assms]]
    by (simp add: same_def)
  then show ?thesis using CR_Inverse_exact [OF cr_sameD(2) [OF assms]] by blast
qed

lemma Difference_interval:
  assumes "cr_same r q" "elems r - elems q = interval s (width (lower r)) a b"
  shows "cr_ok (CR_Difference r q)" "width (lower (CR_Difference r q)) = width (lower r)"
    "elems (CR_Difference r q) = elems r - elems q"
proof -
  have i: "elems r \<inter> elems (CR_Inverse q) = elems r - elems q"
    using Inverse_inter [OF assms(1)] .
  show "cr_ok (CR_Difference r q)" "width (lower (CR_Difference r q)) = width (lower r)"
    "elems (CR_Difference r q) = elems r - elems q"
    using CR_Difference_spec [OF assms(1)] interval_representable [of "width (lower r)" s a b] assms(2) i
    by (simp_all add: inter_spec_def)
qed

lemma Difference_nonempty:
  assumes "cr_same r q" "x \<in> elems r" "x \<notin> elems q"
  shows "CR_IsNotEmptySet (CR_Difference r q)"
proof -
  have "x \<in> elems (CR_Inverse q)" using Inverse_inter [OF assms(1)] assms(2,3) by blast
  then have "x \<in> elems (CR_Difference r q)" "cr_ok (CR_Difference r q)"
    using CR_Difference_spec [OF assms(1)] assms(2) by (auto simp: inter_spec_def)
  then show ?thesis using CR_IsEmptySet_elems by (auto simp: CR_IsNotEmptySet_def CR_IsEmptySet_def)
qed

lemma split_is_ivl:
  assumes "cr_ok r"
  shows "is_ivl (\<not> u) (fst (CR_SplitWrapping r u))" "is_ivl (\<not> u) (snd (CR_SplitWrapping r u))"
    "width (lower (fst (CR_SplitWrapping r u))) = width (lower r)" "width (lower (snd (CR_SplitWrapping r u))) = width (lower r)"
  using cr_okD(1-3) [OF assms] From_is_ivl CR_From_ok by (simp_all add: CR_SplitWrapping_def half_line_def)

end
