(* ===== verification/NumConv.thy ===== *)
theory NumConv
  imports Intervals Overflow
begin

section \<open>Conversion of ranges is sound\<close>

text \<open>
  The concrete counterpart of \<open>NumericConversion\<close> is the overflow checker's cast: every
  number of the source range, cast under the same strategy, is in the resulting range,
  unless the cast throws. This links the two components that evaluate casts at compile time.
\<close>

definition ity :: "IntWidth \<Rightarrow> bool \<Rightarrow> CInt" where
  "ity w u = \<lparr>ci_width = w, ci_signed = \<not> u\<rparr>"

definition cast_result :: "bool \<Rightarrow> IntWidth \<Rightarrow> bool \<Rightarrow> OverflowStrategy \<Rightarrow> SInt \<Rightarrow> bool \<times> SInt" where
  "cast_result srcU dst dstU ov x =
     (let (ovf, n) = IsTypecastOverflowForInt (ity (width x) srcU) (ity dst dstU) (ival (\<not> srcU) x) ov
      in (ovf, number dst n))"

definition conv_spec :: "bool \<Rightarrow> IntWidth \<Rightarrow> bool \<Rightarrow> OverflowStrategy \<Rightarrow> ConstantRange \<Rightarrow> ConstantRange \<Rightarrow> bool" where
  "conv_spec srcU dst dstU ov src t \<longleftrightarrow> cr_ok t \<and> width (lower t) = dst \<and>
     (\<forall>x \<in> elems src. (fst (cast_result srcU dst dstU ov x) \<longrightarrow> ov \<noteq> THROWING) \<longrightarrow>
        snd (cast_result srcU dst dstU ov x) \<in> elems t)"

definition fits :: "bool \<Rightarrow> IntWidth \<Rightarrow> int \<Rightarrow> bool" where
  "fits u w n \<longleftrightarrow> imin (\<not> u) w \<le> n \<and> n \<le> imax (\<not> u) w"

abbreviation "sane ov \<equiv> ov = THROWING \<or> ov = WRAPPING \<or> ov = SATURATING"

lemma in_type_ity: "in_type (ity w u) n \<longleftrightarrow> fits u w n"
  by (auto simp: in_type_def ity_def fits_def limits_min_def limits_max_def imin_def imax_def)

lemma limits_ity: "limits_min (ity w u) = imin (\<not> u) w" "limits_max (ity w u) = imax (\<not> u) w"
  by (simp_all add: ity_def limits_min_def limits_max_def imin_def imax_def)

lemma number_cast: "number w (cast (ity w u) n) = number w n"
  using cast_mod [of "ity w u" n] by (simp add: SInt_eq_iff ity_def)

lemma cast_result_eq:
  assumes "sint_ok x"
  shows "cast_result srcU dst dstU ov x =
    (let n = ival (\<not> srcU) x
     in (\<not> fits dstU dst n,
         number dst (if ov = SATURATING \<and> \<not> fits dstU dst n
                     then (if n < 0 then imin (\<not> dstU) dst else imax (\<not> dstU) dst) else n)))"
proof -
  have "in_type (ity (width x) srcU) (ival (\<not> srcU) x)"
    using ival_range [OF assms, of "\<not> srcU"] by (simp add: in_type_ity fits_def)
  then show ?thesis
    using clamp_id [of "ity dst dstU"] clamp_out [of "ity dst dstU"]
    by (simp add: cast_result_def IsTypecastOverflowForInt_eq deliver_def in_type_ity number_cast limits_ity Let_def)
qed

lemma conv_specI:
  assumes "cr_ok t" "width (lower t) = dst" "\<And>x. x \<in> elems src \<Longrightarrow> sint_ok x"
    "\<And>x. x \<in> elems src \<Longrightarrow> fits dstU dst (ival (\<not> srcU) x) \<Longrightarrow> number dst (ival (\<not> srcU) x) \<in> elems t"
    "\<And>x. x \<in> elems src \<Longrightarrow> \<not> fits dstU dst (ival (\<not> srcU) x) \<Longrightarrow> ov \<noteq> THROWING \<Longrightarrow> ov \<noteq> SATURATING \<Longrightarrow>
      number dst (ival (\<not> srcU) x) \<in> elems t"
    "\<And>x. x \<in> elems src \<Longrightarrow> \<not> fits dstU dst (ival (\<not> srcU) x) \<Longrightarrow> ov = SATURATING \<Longrightarrow>
      number dst (if ival (\<not> srcU) x < 0 then imin (\<not> dstU) dst else imax (\<not> dstU) dst) \<in> elems t"
  shows "conv_spec srcU dst dstU ov src t"
  using assms by (auto simp: conv_spec_def cast_result_eq Let_def)

lemma conv_spec_Full: "(\<And>x. x \<in> elems src \<Longrightarrow> sint_ok x) \<Longrightarrow> conv_spec srcU dst dstU ov src (CR_Full dst)"
  by (intro conv_specI) (simp_all add: SInt_const_width elems_Full)

lemma conv_spec_Empty: "elems src = {} \<Longrightarrow> conv_spec srcU dst dstU ov src (CR_Empty dst)"
  by (simp add: conv_spec_def SInt_const_width)

lemma elems_wf: "cr_ok r \<Longrightarrow> x \<in> elems r \<Longrightarrow> sint_ok x" "cr_ok r \<Longrightarrow> x \<in> elems r \<Longrightarrow> width x = width (lower r)"
  by (simp_all add: elems_iff)

lemma conv_spec_union:
  assumes "conv_spec srcU dst dstU ov l t1" "conv_spec srcU dst dstU ov r t2" "elems src = elems l \<union> elems r"
  shows "conv_spec srcU dst dstU ov src (CR_UnionWith t1 t2 p)"
proof -
  have "cr_same t1 t2" using assms(1,2) by (simp add: conv_spec_def cr_same_def)
  from union_wf [OF this, of p] assms show ?thesis by (auto simp: conv_spec_def)
qed

lemma Trunc_number:
  "sint_ok x \<Longrightarrow> bits dst \<le> bits (width x) \<Longrightarrow> SInt_Trunc x dst = number dst (ival s x)"
  using ival_mod [of x s] mod_modulus_dvd [of dst "width x" "ival s x"] by (simp add: SInt_eq_iff uval_Trunc)

lemma ZExt_number: "SInt_ZExt x dst = number dst (uval x)"
  by (simp add: SInt_eq_iff SInt_width_change_sem)

lemma SExt_number: "SInt_SExt x dst = number dst (sval x)"
  by (simp add: SInt_eq_iff SInt_width_change_sem)

lemma number_self: "sint_ok x \<Longrightarrow> width x = w \<Longrightarrow> number w (ival s x) = x"
  using number_ival by blast

subsection \<open>The same signedness\<close>

definition ext :: "bool \<Rightarrow> SInt \<Rightarrow> IntWidth \<Rightarrow> SInt" where
  "ext u v w = (if u then SInt_ZExt v w else SInt_SExt v w)"

lemma ext_limits:
  assumes "bits dst \<le> bits w"
  shows "ival (\<not> u) (ext u (if u then SInt_UMinValue dst else SInt_SMinValue dst) w) = imin (\<not> u) dst"
    "ival (\<not> u) (ext u (if u then SInt_UMaxValue dst else SInt_SMaxValue dst) w) = imax (\<not> u) dst"
    "sint_ok (ext u v w)" "width (ext u v w) = w"
  using assms by (auto simp: ext_def ival_def imin_def imax_def uval_ZExt sval_SExt SInt_const_sem SInt_const_ok
      SInt_const_width SInt_signed_const_ok)

lemma NCSameSignessInner_sound:
  assumes "is_ivl (\<not> u) src" "bits dst < bits (width (lower src))" "sane ov"
  shows "conv_spec u dst u ov src (NCSameSignessInner src dst u ov)"
proof (cases "CR_IsFullSet src \<or> CR_IsEmptySet src")
  case True
  then have "NCSameSignessInner src dst u ov = (if CR_IsFullSet src then CR_Full dst else CR_Empty dst)"
    by (auto simp: NCSameSignessInner_def Let_def)
  then show ?thesis
    using True conv_spec_Full [of src u dst u ov] conv_spec_Empty [of src u dst u ov] elems_wf(1) [OF is_ivlD [OF assms(1)]]
      CR_IsEmptySet_elems [OF is_ivlD [OF assms(1)]] by auto
next
  case False
  define w p where "w = width (lower src)" and "p = PreferFromBool u"
  define mn mx where "mn = (if u then SInt_UMinValue dst else SInt_SMinValue dst)"
    and "mx = (if u then SInt_UMaxValue dst else SInt_SMaxValue dst)"
  define higher where "higher = CR_IntersectWith (CR_From GE (ext u mn w) (\<not> u)) src p"
  define unch where "unch = CR_IntersectWith (CR_From LE (ext u mx w) (\<not> u)) higher p"
  define res where "res = CR_Truncate unch dst"
  define res1 where "res1 = (if CR_IsNotEmptySet (CR_Difference src higher) then CR_UnionWith res (CR_single mn) p else res)"
  define res2 where "res2 = (if CR_IsNotEmptySet (CR_Difference higher unch) then CR_UnionWith res1 (CR_single mx) p else res1)"
  define final where "final = (if CR_eq src unch \<or> ov = THROWING then res else if ov = WRAPPING then CR_Full dst else res2)"
  have "NCSameSignessInner src dst u ov = final"
    using False unfolding NCSameSignessInner_def Let_def final_def res2_def res1_def res_def unch_def higher_def mn_def mx_def w_def p_def
    by (cases u) (simp_all add: CR_Width_def ext_def)
  moreover have "conv_spec u dst u ov src final"
  proof -
    have b: "bits dst \<le> bits w" using assms(2) by (simp add: w_def)
    note ok = is_ivlD [OF assms(1)] note wf = elems_wf [OF ok]
    note lim = ext_limits [OF b, of u, folded mn_def mx_def]
    have hi: "is_ivl (\<not> u) higher" "width (lower higher) = w" "elems higher = {x \<in> elems src. imin (\<not> u) dst \<le> ival (\<not> u) x}"
      using inter_From [OF assms(1) _ lim(3,4) [unfolded w_def], of GE, folded w_def]
      by (simp_all add: half_line_def lim rel_sem_def higher_def)
    have un: "cr_ok unch" "width (lower unch) = w" "elems unch = {x \<in> elems src. fits u dst (ival (\<not> u) x)}"
      using inter_From(2,4,6) [OF hi(1) _ lim(3) [of mx], of LE p, folded unch_def] lim(4) [of mx] hi(2,3)
      by (auto simp: half_line_def lim(2) rel_sem_def fits_def is_ivl_def)
    have res: "cr_ok res" "width (lower res) = dst" "\<And>x. x \<in> elems unch \<Longrightarrow> number dst (ival (\<not> u) x) \<in> elems res"
      using CR_Truncate_ok_sound [OF un(1), of dst] assms(2) un(2,3) wf b Trunc_number [of _ dst "\<not> u"]
      by (auto simp: res_def w_def)
    have mm: "sint_ok mn" "width mn = dst" "number dst (imin (\<not> u) dst) = mn"
      "sint_ok mx" "width mx = dst" "number dst (imax (\<not> u) dst) = mx"
      using half_ge [of dst]
      by (auto simp: SInt_const_ok SInt_const_width SInt_signed_const_ok SInt_eq_iff SInt_const_sem SInt_signed_const_sem
          imin_def imax_def modulus_half mod_minus_if mn_def mx_def)
    have s1: "cr_same res (CR_single mn)" using res(1,2) mm by (simp add: cr_same_def CR_single_ok)
    have res1: "cr_ok res1" "width (lower res1) = dst" "elems res \<subseteq> elems res1"
      using union_wf [OF s1] res by (auto simp: res1_def)
    have s2: "cr_same res1 (CR_single mx)" using res1(1,2) mm by (simp add: cr_same_def CR_single_ok)
    have res2: "cr_ok res2" "width (lower res2) = dst" "elems res1 \<subseteq> elems res2"
      using union_wf [OF s2] res1 by (auto simp: res2_def)
    have same: "cr_same src higher" "cr_same higher unch" "cr_same src unch"
      using ok hi un is_ivlD by (auto simp: cr_same_def w_def)
    have eq: "CR_eq src unch \<Longrightarrow> x \<in> elems src \<Longrightarrow> fits u dst (ival (\<not> u) x)" for x
      using CR_eq_elems [OF same(3)] un(3) by blast
    have low: "mn \<in> elems res2" if "x \<in> elems src" "ival (\<not> u) x < imin (\<not> u) dst" for x
    proof -
      have "x \<notin> elems higher" using that hi(3) by simp
      then have "mn \<in> elems res1"
        using Difference_nonempty [OF same(1) that(1)] union_wf(4) [OF s1] CR_single_mem [OF mm(1)] by (auto simp: res1_def)
      then show ?thesis using res2(3) by blast
    qed
    have high: "mx \<in> elems res2" if "x \<in> elems src" "imax (\<not> u) dst < ival (\<not> u) x" for x
    proof -
      have "x \<in> elems higher" "x \<notin> elems unch" using that hi(3) un(3) imin_imax [of "\<not> u" dst] by (auto simp: fits_def)
      then show ?thesis
        using Difference_nonempty [OF same(2)] union_wf(4) [OF s2] CR_single_mem [OF mm(4)] by (auto simp: res2_def)
    qed
    show ?thesis
    proof (rule conv_specI)
      show "cr_ok final" "width (lower final) = dst"
        using res(1,2) res2(1,2) by (simp_all add: SInt_const_width final_def)
    next
      fix x assume x: "x \<in> elems src"
      show "sint_ok x" using wf x by simp
      show "number dst (ival (\<not> u) x) \<in> elems final" if "fits u dst (ival (\<not> u) x)"
        using that x un(3) res(3) res1(3) res2(3) by (auto simp: elems_Full final_def)
      show "number dst (ival (\<not> u) x) \<in> elems final"
        if "\<not> fits u dst (ival (\<not> u) x)" "ov \<noteq> THROWING" "ov \<noteq> SATURATING"
        using that x assms(3) eq by (auto simp: elems_Full final_def)
      show "number dst (if ival (\<not> u) x < 0 then imin (\<not> u) dst else imax (\<not> u) dst) \<in> elems final"
        if nf: "\<not> fits u dst (ival (\<not> u) x)" and sat: "ov = SATURATING"
      proof -
        have "final = res2" using sat nf eq x by (auto simp: final_def)
        moreover have "ival (\<not> u) x < imin (\<not> u) dst \<or> imax (\<not> u) dst < ival (\<not> u) x" using nf by (auto simp: fits_def)
        ultimately show ?thesis using low [OF x] high [OF x] imin_imax [of "\<not> u" dst] mm(3,6) by auto
      qed
    qed
  qed
  ultimately show ?thesis by simp
qed


lemma NumericConversionWithSameSigness_sound:
  assumes "cr_ok src" "sane ov"
  shows "conv_spec u dst u ov src (NumericConversionWithSameSigness src dst u ov)"
proof -
  let ?w = "width (lower src)"
  note wf = elems_wf [OF assms(1)]
  consider "?w = dst" | "bits ?w < bits dst" | "bits dst < bits ?w" by (cases ?w; cases dst) simp_all
  then show ?thesis
  proof cases
    case 1
    have "fits u dst (ival (\<not> u) x)" if "x \<in> elems src" for x
      using ival_range [of x "\<not> u"] wf that 1 by (simp add: fits_def)
    moreover have "number dst (ival (\<not> u) x) = x" if "x \<in> elems src" for x
      using number_self wf that 1 by blast
    ultimately show ?thesis
      using 1 assms(1) wf by (intro conv_specI) (auto simp: NumericConversionWithSameSigness_def CR_Width_def)
  next
    case 2
    have ext: "number dst (ival (\<not> u) x) = (if u then SInt_ZExt x dst else SInt_SExt x dst)" for x
      by (simp add: ZExt_number SExt_number ival_def)
    have "fits u dst (ival (\<not> u) x)" if "x \<in> elems src" for x
      using ival_range [of x "\<not> u"] wf that 2 half_mono [of ?w dst] modulus_half [of ?w] modulus_half [of dst]
      by (auto simp: fits_def imin_def imax_def split: if_splits)
    moreover have "NumericConversionWithSameSigness src dst u ov = (if u then CR_ZeroExtend src dst else CR_SignExtend src dst)"
      using 2 by (auto simp: NumericConversionWithSameSigness_def CR_Width_def less_IntWidth_def Let_def)
    ultimately show ?thesis
      using CR_ZeroExtend_ok_sound [OF assms(1) 2] CR_SignExtend_ok_sound [OF assms(1) 2] wf
      by (intro conv_specI) (auto simp: ext)
  next
    case 3
    have lt: "\<not> ?w < dst" "?w \<noteq> dst" using 3 by (auto simp: less_IntWidth_def)
    show ?thesis
    proof (cases "if u then CR_IsWrappedSet src else CR_IsSignWrappedSet src")
      case True
      obtain l r where lr: "CR_SplitWrapping src u = (l, r)" by (cases "CR_SplitWrapping src u")
      have ivl: "is_ivl (\<not> u) l" "is_ivl (\<not> u) r" "width (lower l) = ?w" "width (lower r) = ?w"
        using split_is_ivl [OF assms(1), of u] lr by simp_all
      have "elems src = elems l \<union> elems r" using CR_SplitWrapping_spec(1) [OF assms(1) True] lr by simp
      then have "conv_spec u dst u ov src (CR_UnionWith (NCSameSignessInner l dst u ov) (NCSameSignessInner r dst u ov) (PreferFromBool u))"
        using NCSameSignessInner_sound [OF ivl(1) _ assms(2), of dst] NCSameSignessInner_sound [OF ivl(2) _ assms(2), of dst] ivl(3,4) 3
        by (intro conv_spec_union) simp_all
      then show ?thesis using True lt lr by (simp add: NumericConversionWithSameSigness_def CR_Width_def)
    next
      case False
      then have "is_ivl (\<not> u) src" using is_ivl_unwrapped [OF assms(1), of "\<not> u"] by (cases u) simp_all
      from NCSameSignessInner_sound [OF this 3 assms(2)] False lt show ?thesis
        by (simp add: NumericConversionWithSameSigness_def CR_Width_def)
    qed
  qed
qed

subsection \<open>Truncation of a range that ends at the target's maximum\<close>

lemma imax_bounds:
  assumes "bits dst < bits w"
  shows "0 < imax s dst" "imax s dst < modulus dst" "imax s dst + 1 \<le> half w" "modulus dst \<le> half w" "128 \<le> half w"
    "half w + 128 \<le> modulus w"
  using modulus_mono [OF assms] half_ge [of dst] half_ge [of w] by (auto simp: imax_def modulus_half)

lemma TruncWithUpperWrapped_sound:
  assumes "cr_ok src" "bits dst < bits (width (lower src))" "\<And>x. x \<in> elems src \<Longrightarrow> uval x \<le> imax (\<not> u) dst"
  shows "cr_ok (TruncWithUpperWrapped src u dst)" "width (lower (TruncWithUpperWrapped src u dst)) = dst"
    "x \<in> elems src \<Longrightarrow> number dst (uval x) \<in> elems (TruncWithUpperWrapped src u dst)"
proof -
  define w K where "w = width (lower src)" and "K = imax (\<not> u) dst"
  define m where "m = (if u then SInt_ZExt (SInt_UMaxValue dst) w else SInt_ZExt (SInt_SMaxValue dst) w)"
  define l u' where "l = SInt_Trunc (lower src) dst" and "u' = SInt_add_u64 (SInt_Trunc (SInt_sub_u64 (upper src) 1) dst) 1"
  note d = cr_okD [OF assms(1)] and b = imax_bounds(1-3) [OF assms(2), of "\<not> u", folded w_def K_def]
    imax_bounds(4-6) [OF assms(2), folded w_def]
  have bd: "bits dst \<le> bits w" using assms(2) by (simp add: w_def)
  have m: "uval m = K" "sint_ok m" "width m = w"
    using bd by (auto simp: m_def K_def imax_def uval_ZExt SInt_const_ok SInt_const_width SInt_signed_const_ok
        SInt_const_sem SInt_signed_const_sem)
  have m1: "uval (SInt_add_u64 m 1) = K + 1" using m b by (simp add: uval_succ)
  have test: "SInt_eq (upper src) (SInt_add_u64 m 1) \<longleftrightarrow> up src = K + 1"
    using d m m1 by (simp add: SInt_eq_sem w_def)
  have def: "TruncWithUpperWrapped src u dst =
    (if up src = K + 1 then (if SInt_eq l u' then CR_Full dst else mkCR l u') else CR_Truncate src dst)"
    unfolding test [symmetric] by (simp add: TruncWithUpperWrapped_def Let_def CR_Width_def m_def w_def l_def u'_def)
  have "cr_ok (TruncWithUpperWrapped src u dst) \<and> width (lower (TruncWithUpperWrapped src u dst)) = dst \<and>
    (\<forall>x \<in> elems src. number dst (uval x) \<in> elems (TruncWithUpperWrapped src u dst))"
  proof (cases "up src = K + 1")
    case True
    then have ne: "lo src \<noteq> up src" using d(8) b by (auto simp: w_def)
    then have "lower src \<in> elems src" using d by (auto simp: elems_iff [OF assms(1)] arc_def)
    then have lo: "lo src \<le> K" using assms(3) by (simp add: K_def)
    have L: "uval l = lo src" "sint_ok l" "width l = dst" using lo b d(4) by (simp_all add: l_def uval_Trunc)
    have "uval (SInt_sub_u64 (upper src) 1) = K" using True b d by (simp add: SInt_ring_sem w_def)
    then have T: "uval (SInt_Trunc (SInt_sub_u64 (upper src) 1) dst) = K" using b by (simp add: uval_Trunc)
    have U: "uval u' = (if K = modulus dst - 1 then 0 else K + 1)" "sint_ok u'" "width u' = dst"
      using T by (simp_all add: u'_def uval_succ)
    have same: "same l u'" using L U by (simp add: same_def)
    have mem: "lo src \<le> uval x" "uval x \<le> K" if "x \<in> elems src" for x
      using that assms(3) [OF that] ne True lo by (auto simp: elems_iff [OF assms(1)] arc_def K_def)
    show ?thesis
    proof (cases "SInt_eq l u'")
      case eq: True
      then show ?thesis using True by (simp add: def SInt_const_width elems_Full)
    next
      case neq: False
      then have "uval l \<noteq> uval u'" using same by (auto simp: SInt_eq_sem same_def)
      then have ok: "cr_ok (mkCR l u')" using same by (intro mkCR_ok)
      have "number dst (uval x) \<in> elems (mkCR l u')" if "x \<in> elems src" for x
        using mem [OF that] b L U \<open>uval l \<noteq> uval u'\<close> uval_nonneg [of x]
        by (auto simp: elems_iff [OF ok] arc_def split: if_splits)
      then show ?thesis using True neq ok L by (simp add: def)
    qed
  next
    case False
    have "number dst (uval x) = SInt_Trunc x dst" if "x \<in> elems src" for x
      using Trunc_number [of x dst False] elems_wf [OF assms(1) that] bd by (simp add: ival_def w_def)
    then show ?thesis using False CR_Truncate_ok_sound [OF assms(1,2)] by (simp add: def)
  qed
  then show "cr_ok (TruncWithUpperWrapped src u dst)" "width (lower (TruncWithUpperWrapped src u dst)) = dst"
    "x \<in> elems src \<Longrightarrow> number dst (uval x) \<in> elems (TruncWithUpperWrapped src u dst)" by auto
qed


subsection \<open>From unsigned to signed\<close>

lemma single_elems: "sint_ok v \<Longrightarrow> elems (CR_single v) = {v}"
  using single_elem [of "CR_single v"] CR_single_mem [of v] CR_single_ok [of v] cr_okD [of "CR_single v"]
  by (auto simp: CR_IsSingleElement_def SInt_eq_sem)

lemma interval_insert:
  assumes "sint_ok m" "width m = w" "ival s m = k"
  shows "interval s w c k \<union> {m} = interval s w (min c k) k" "interval s w k c \<union> {m} = interval s w k (max k c)"
proof -
  have "x = m" if "sint_ok x" "width x = w" "ival s x = k" for x
    using ival_inj [of x m s] that assms by simp
  then show "interval s w c k \<union> {m} = interval s w (min c k) k" "interval s w k c \<union> {m} = interval s w k (max k c)"
    using assms by (fastforce simp: interval_def)+
qed

lemma union_single:
  assumes "cr_ok r" "sint_ok v" "width v = width (lower r)"
  shows "cr_ok (CR_UnionWith r (CR_single v) t)" "width (lower (CR_UnionWith r (CR_single v) t)) = width (lower r)"
    "elems r \<subseteq> elems (CR_UnionWith r (CR_single v) t)" "v \<in> elems (CR_UnionWith r (CR_single v) t)"
proof -
  have "cr_same r (CR_single v)" using assms by (simp add: cr_same_def CR_single_ok)
  from union_wf [OF this, of t] single_elems [OF assms(2)] show
    "cr_ok (CR_UnionWith r (CR_single v) t)" "width (lower (CR_UnionWith r (CR_single v) t)) = width (lower r)"
    "elems r \<subseteq> elems (CR_UnionWith r (CR_single v) t)" "v \<in> elems (CR_UnionWith r (CR_single v) t)" by auto
qed

definition narrow :: "IntWidth \<Rightarrow> bool \<Rightarrow> IntWidth \<Rightarrow> ConstantRange \<Rightarrow> ConstantRange" where
  "narrow w u dst t = (if dst < w then TruncWithUpperWrapped t u dst else t)"

lemma narrow_sound:
  assumes "cr_ok t" "width (lower t) = w" "bits dst \<le> bits w" "\<And>x. x \<in> elems t \<Longrightarrow> uval x \<le> imax (\<not> u) dst"
  shows "cr_ok (narrow w u dst t)" "width (lower (narrow w u dst t)) = dst"
    "x \<in> elems t \<Longrightarrow> number dst (uval x) \<in> elems (narrow w u dst t)"
proof -
  have "dst = w" if "\<not> dst < w" using that assms(3) by (cases dst; cases w) (simp_all add: less_IntWidth_def)
  moreover have "number (width x) (uval x) = x" if "x \<in> elems t" for x
    using number_ival [of x False] elems_wf(1) [OF assms(1) that] by (simp add: ival_def)
  ultimately show "cr_ok (narrow w u dst t)" "width (lower (narrow w u dst t)) = dst"
    "x \<in> elems t \<Longrightarrow> number dst (uval x) \<in> elems (narrow w u dst t)"
    using TruncWithUpperWrapped_sound [OF assms(1) _ assms(4)] assms(1,2) elems_wf(2) [OF assms(1)]
    by (auto simp: narrow_def less_IntWidth_def)
qed

lemma fits_signed: "0 \<le> n \<Longrightarrow> fits False dst n \<longleftrightarrow> n \<le> imax True dst"
  using half_ge [of dst] by (auto simp: fits_def imin_def)

lemma NCU2SInner_sound:
  assumes "is_ivl False src" "bits dst \<le> bits (width (lower src))" "sane ov"
  shows "conv_spec True dst False ov src (NCU2SInner src dst ov)"
proof (cases "CR_IsEmptySet src")
  case True
  then show ?thesis
    using conv_spec_Empty [of src True dst False ov] CR_IsEmptySet_elems [OF is_ivlD [OF assms(1)]]
    by (simp add: NCU2SInner_def Let_def)
next
  case False
  define w K where "w = width (lower src)" and "K = imax True dst"
  define m where "m = (if dst < w then SInt_SExt (SInt_SMaxValue dst) w else SInt_SMaxValue dst)"
  define unch where "unch = CR_IntersectWith (CR_From LE m False) src Unsigned"
  define ans where "ans = CR_UnionWith unch (CR_single m) Signed"
  define final where "final = (if CR_eq unch src \<or> ov = THROWING then narrow w False dst unch
    else if ov = SATURATING then narrow w False dst ans else if w = dst then src else CR_Full dst)"
  have "NCU2SInner src dst ov = final"
    using False unfolding NCU2SInner_def Let_def final_def ans_def unch_def m_def w_def narrow_def
    by (simp add: CR_Width_def)
  moreover have "conv_spec True dst False ov src final"
  proof -
    note ok = is_ivlD [OF assms(1)] note wf = elems_wf [OF ok]
    have b: "bits dst \<le> bits w" using assms(2) by (simp add: w_def)
    have dw: "dst = w" if "\<not> dst < w" using that b by (cases dst; cases w) (simp_all add: less_IntWidth_def)
    have "sval (SInt_SExt (SInt_SMaxValue dst) w) = K"
      using b half_ge [of dst] by (simp add: sval_SExt K_def imax_def SInt_signed_const_ok)
    moreover have "0 \<le> K" using half_ge [of dst] by (simp add: K_def imax_def)
    ultimately have m: "uval m = K" "sint_ok m" "width m = w"
      using dw uval_of_sval(1) [of "SInt_SExt (SInt_SMaxValue dst) w"]
      by (auto simp: m_def SInt_signed_const_ok SInt_signed_const_sem K_def imax_def)
    have un: "is_ivl False unch" "width (lower unch) = w" "elems unch = {x \<in> elems src. uval x \<le> K}"
      using inter_From(2,4,6) [OF assms(1) _ m(2), of LE Unsigned, folded unch_def] m(1,3)
      by (auto simp: half_line_def rel_sem_def ival_def w_def)
    note unok = is_ivlD [OF un(1)]
    have same: "cr_same unch src" "cr_same unch (CR_single m)" using unok ok un(2) m by (auto simp: cr_same_def w_def CR_single_ok)
    have F: "fits False dst (ival (\<not> True) x) \<longleftrightarrow> uval x \<le> K" for x
      using fits_signed [of "uval x" dst] uval_nonneg [of x] by (simp add: ival_def K_def)
    have nu: "cr_ok (narrow w False dst unch)" "width (lower (narrow w False dst unch)) = dst"
      "\<And>x. x \<in> elems unch \<Longrightarrow> number dst (uval x) \<in> elems (narrow w False dst unch)"
      using narrow_sound [OF unok un(2) b, of False] un(3) by (auto simp: K_def)
    have a: "cr_ok ans" "width (lower ans) = w" "elems unch \<subseteq> elems ans" "m \<in> elems ans"
      using union_single [OF unok m(2), of Signed, folded ans_def] un(2) m(3) by simp_all
    have na: "cr_ok (narrow w False dst ans)" "width (lower (narrow w False dst ans)) = dst"
      "\<And>x. x \<in> elems ans \<Longrightarrow> number dst (uval x) \<in> elems (narrow w False dst ans)" if ne: "\<not> CR_eq unch src"
    proof -
      have "elems unch \<noteq> elems src" using ne CR_eq_elems [OF same(1)] by simp
      then obtain y where y: "y \<in> elems src" "K < uval y" unfolding un(3) by fastforce
      obtain c e where ce: "elems src = interval False w c e" using assms(1) by (auto simp: is_ivl_def w_def)
      then have "K < e" using y by (auto simp: interval_def ival_def)
      then have "elems unch \<union> elems (CR_single m) = interval False w (min c K) K"
        unfolding single_elems [OF m(2)] un(3) ce using m by (auto simp: interval_def ival_def SInt_eq_iff)
      then have "elems ans = interval False w (min c K) K"
        using union_interval [OF same(2), of False] un(2) by (simp add: ans_def)
      then have bound: "uval x \<le> imax (\<not> False) dst" if "x \<in> elems ans" for x
        using that by (simp add: interval_def ival_def K_def)
      show "cr_ok (narrow w False dst ans)" "width (lower (narrow w False dst ans)) = dst"
        "\<And>x. x \<in> elems ans \<Longrightarrow> number dst (uval x) \<in> elems (narrow w False dst ans)"
        using narrow_sound [OF a(1,2) b bound] by simp_all
    qed
    have ival: "ival False x = uval x" for x by (simp add: ival_def)
    show ?thesis
    proof (rule conv_specI)
      show "cr_ok final" "width (lower final) = dst"
        using nu na ok by (auto simp: final_def SInt_const_width w_def)
    next
      fix x assume x: "x \<in> elems src"
      show "sint_ok x" using wf x by simp
      have self: "number dst (uval x) = x" if "w = dst"
        using that number_ival [of x False] wf [OF x] by (auto simp: ival_def w_def)
      show "number dst (ival (\<not> True) x) \<in> elems final" if "fits False dst (ival (\<not> True) x)"
        using that x un(3) nu(3) [of x] na(3) [of x] a(3) self F by (auto simp: final_def ival elems_Full)
      show "number dst (ival (\<not> True) x) \<in> elems final"
        if "\<not> fits False dst (ival (\<not> True) x)" "ov \<noteq> THROWING" "ov \<noteq> SATURATING"
        using that x self F CR_eq_elems [OF same(1)] un(3) by (auto simp: final_def ival elems_Full)
      show "number dst (if ival (\<not> True) x < 0 then imin (\<not> False) dst else imax (\<not> False) dst) \<in> elems final"
        if nf: "\<not> fits False dst (ival (\<not> True) x)" and sat: "ov = SATURATING"
      proof -
        have "\<not> CR_eq unch src" using nf x F CR_eq_elems [OF same(1)] un(3) by auto
        then show ?thesis using sat na(3) [OF _ a(4)] m(1) uval_nonneg [of x]
          by (simp add: final_def ival K_def)
      qed
    qed
  qed
  ultimately show ?thesis by simp
qed

lemma NumericConversionU2S_sound:
  assumes "cr_ok src" "sane ov"
  shows "conv_spec True dst False ov src (NumericConversionU2S src dst ov)"
proof -
  let ?w = "width (lower src)"
  show ?thesis
  proof (cases "?w < dst")
    case True
    then have lt: "bits ?w < bits dst" by (simp add: less_IntWidth_def)
    have "fits False dst (uval x)" if "x \<in> elems src" for x
      using uval_less [of x] elems_wf [OF assms(1) that] modulus_mono [OF lt] uval_nonneg [of x] fits_signed [of "uval x" dst]
      by (simp add: imax_def)
    then show ?thesis
      using True CR_ZeroExtend_ok_sound [OF assms(1) lt] elems_wf(1) [OF assms(1)]
      by (intro conv_specI) (auto simp: NumericConversionU2S_def CR_Width_def ZExt_number ival_def)
  next
    case False
    then have le: "bits dst \<le> bits ?w" by (simp add: less_IntWidth_def)
    show ?thesis
    proof (cases "CR_IsWrappedSet src")
      case True
      obtain l r where lr: "CR_SplitWrapping src True = (l, r)" by (cases "CR_SplitWrapping src True")
      have ivl: "is_ivl False l" "is_ivl False r" "width (lower l) = ?w" "width (lower r) = ?w"
        using split_is_ivl [OF assms(1), of True] lr by simp_all
      have "elems src = elems l \<union> elems r" using CR_SplitWrapping_spec(1) [OF assms(1), of True] True lr by simp
      then have "conv_spec True dst False ov src (CR_UnionWith (NCU2SInner l dst ov) (NCU2SInner r dst ov) Signed)"
        using NCU2SInner_sound [OF ivl(1) _ assms(2), of dst] NCU2SInner_sound [OF ivl(2) _ assms(2), of dst] ivl(3,4) le
        by (intro conv_spec_union) simp_all
      then show ?thesis using True False lr by (simp add: NumericConversionU2S_def CR_Width_def)
    next
      case nw: False
      then have "is_ivl False src" using is_ivl_unwrapped [OF assms(1), of False] by simp
      from NCU2SInner_sound [OF this le assms(2)] False nw show ?thesis
        by (simp add: NumericConversionU2S_def CR_Width_def)
    qed
  qed
qed


subsection \<open>From signed to unsigned\<close>

lemma fits_unsigned: "fits True dst n \<longleftrightarrow> 0 \<le> n \<and> n \<le> imax False dst"
  by (simp add: fits_def imin_def)

lemma sval_uval: "sint_ok x \<Longrightarrow> 0 \<le> sval x \<Longrightarrow> uval x = sval x"
  by (rule uval_of_sval)

lemma zero_wf: "sint_ok (SInt_Zero w)" "width (SInt_Zero w) = w" "ival s (SInt_Zero w) = 0"
  using half_ge [of w] by (auto simp: ival_def SInt_const_ok SInt_const_width SInt_const_sem sval_eq)

lemma NCS2UInnerTrunc_sound:
  assumes "is_ivl True src" "bits dst < bits (width (lower src))" "sane ov"
  shows "conv_spec False dst True ov src (NCS2UInnerTrunc src dst ov)"
proof (cases "CR_IsEmptySet src")
  case True
  then show ?thesis
    using conv_spec_Empty [of src False dst True ov] CR_IsEmptySet_elems [OF is_ivlD [OF assms(1)]]
    by (simp add: NCS2UInnerTrunc_def)
next
  case False
  define w K where "w = width (lower src)" and "K = imax False dst"
  define m where "m = SInt_ZExt (SInt_UMaxValue dst) w"
  define nn where "nn = CR_IntersectWith src (CR_From GE (SInt_Zero w) True) Signed"
  define ng where "ng = CR_Difference src nn"
  define unch where "unch = CR_IntersectWith nn (CR_From LE m True) Smallest"
  define res1 where "res1 = (if CR_IsNotEmptySet ng then CR_UnionWith unch (CR_single (SInt_Zero w)) Unsigned else unch)"
  define res2 where "res2 = (if \<not> CR_eq unch nn then CR_UnionWith res1 (CR_single m) Unsigned else res1)"
  define final where "final = (if CR_eq unch src \<or> ov = THROWING then TruncWithUpperWrapped unch True dst
    else if ov = SATURATING then TruncWithUpperWrapped res2 True dst else CR_Full dst)"
  have "NCS2UInnerTrunc src dst ov = final"
    using False unfolding NCS2UInnerTrunc_def Let_def final_def res2_def res1_def unch_def ng_def nn_def m_def w_def
    by (simp add: CR_Width_def)
  moreover have "conv_spec False dst True ov src final"
  proof -
    note ok = is_ivlD [OF assms(1)] note wf = elems_wf [OF ok]
    have b: "bits dst < bits w" using assms(2) by (simp add: w_def)
    note bnd = imax_bounds(1-3) [OF b, of False, folded K_def] imax_bounds(4-6) [OF b]
    have m: "uval m = K" "sint_ok m" "width m = w"
      using b by (auto simp: m_def K_def imax_def uval_ZExt SInt_const_ok SInt_const_width SInt_const_sem)
    then have ms: "sval m = K" using bnd by (simp add: sval_eq)
    have nn: "is_ivl True nn" "elems nn = {x \<in> elems src. 0 \<le> sval x}" "width (lower nn) = w"
      using inter_From(1,3,5) [OF assms(1) _ zero_wf(1), of GE w Signed, folded nn_def] zero_wf(2) [of w] zero_wf(3) [of True w]
      by (auto simp: half_line_def rel_sem_def ival_def w_def)
    have un: "is_ivl True unch" "elems unch = {x \<in> elems src. 0 \<le> sval x \<and> sval x \<le> K}" "width (lower unch) = w"
      using inter_From(1,3,5) [OF nn(1) _ m(2), of LE Smallest, folded unch_def] m(3) ms nn(2,3)
      by (auto simp: half_line_def rel_sem_def ival_def)
    obtain a e where ae: "elems src = interval True w a e" using assms(1) by (auto simp: is_ivl_def w_def)
    have same: "cr_same src nn" "cr_same unch nn" "cr_same unch src"
      using ok is_ivlD [OF nn(1)] is_ivlD [OF un(1)] nn(3) un(3) by (simp_all add: cr_same_def w_def)
    have "\<exists>a b. elems src - elems nn = interval True (width (lower src)) a b"
    proof -
      have "elems src - elems nn = {x \<in> elems src. rel_sem LT (ival True x) 0}" unfolding nn(2) rel_sem_def ival_def by auto
      then show ?thesis using restrict_interval [OF _ assms(1), of LT 0] by (simp add: half_line_def)
    qed
    then obtain na nb where "elems src - elems nn = interval True (width (lower src)) na nb" by blast
    then have ng: "cr_ok ng" "elems ng = elems src - elems nn"
      using Difference_interval(1,3) [OF same(1)] unfolding ng_def by blast+
    have ng_iff: "CR_IsNotEmptySet ng \<longleftrightarrow> (\<exists>y \<in> elems src. sval y < 0)"
      using CR_IsEmptySet_elems [OF ng(1)] unfolding ng(2) nn(2) CR_IsNotEmptySet_def by (auto simp: not_le)
    have hi_iff: "\<not> CR_eq unch nn \<longleftrightarrow> (\<exists>y \<in> elems src. K < sval y)"
    proof -
      have "CR_eq unch nn \<longleftrightarrow> (\<forall>y \<in> elems src. 0 \<le> sval y \<longrightarrow> sval y \<le> K)"
        using CR_eq_elems [OF same(2)] unfolding un(2) nn(2) by blast
      then show ?thesis using bnd(1) by force
    qed
    note z = zero_wf(1,2) [of w]
    have zs: "sval (SInt_Zero w) = 0" "uval (SInt_Zero w) = 0" using zero_wf(3) [of True w] zero_wf(3) [of False w] by (simp_all add: ival_def)
    have res1: "cr_ok res1" "width (lower res1) = w" "elems unch \<subseteq> elems res1"
      "(\<exists>y \<in> elems src. sval y < 0) \<Longrightarrow> SInt_Zero w \<in> elems res1"
      "elems res1 = interval True w (max a 0) (if a < 0 \<and> e < 0 \<and> CR_IsNotEmptySet ng then 0 else min e K)"
    proof -
      have un_ivl: "elems unch = interval True w (max a 0) (min e K)"
        unfolding un(2) ae by (auto simp: interval_def ival_def)
      have wfu: "cr_ok unch" "width (SInt_Zero w) = width (lower unch)" using is_ivlD [OF un(1)] un(3) z by simp_all
      note us = union_single [OF wfu(1) z(1) wfu(2), of Unsigned]
      show "cr_ok res1" "width (lower res1) = w" "elems unch \<subseteq> elems res1"
        "(\<exists>y \<in> elems src. sval y < 0) \<Longrightarrow> SInt_Zero w \<in> elems res1"
        using us un(3) wfu(1) ng_iff by (auto simp: res1_def)
      show "elems res1 = interval True w (max a 0) (if a < 0 \<and> e < 0 \<and> CR_IsNotEmptySet ng then 0 else min e K)"
      proof (cases "CR_IsNotEmptySet ng")
        case True
        then have "a < 0" using ng_iff ae by (auto simp: interval_def ival_def)
        then have "max a 0 = 0" by simp
        then have "elems unch \<union> elems (CR_single (SInt_Zero w)) = interval True (width (lower unch)) 0 (max 0 (min e K))"
          using interval_insert(2) [OF z zero_wf(3) [of True w]]
          unfolding un_ivl single_elems [OF z(1)] un(3) by simp
        moreover have "cr_same unch (CR_single (SInt_Zero w))" using wfu z by (simp add: cr_same_def CR_single_ok)
        ultimately have "elems res1 = interval True w 0 (max 0 (min e K))"
          using union_interval [of unch "CR_single (SInt_Zero w)" True 0 "max 0 (min e K)" Unsigned] True un(3) by (simp add: res1_def)
        moreover have "max 0 (min e K) = (if a < 0 \<and> e < 0 \<and> CR_IsNotEmptySet ng then 0 else min e K)"
          using True \<open>a < 0\<close> bnd(1) by auto
        moreover have "max a 0 = 0" using \<open>a < 0\<close> by simp
        ultimately show ?thesis by simp
      next
        case False
        then show ?thesis using un_ivl by (simp add: res1_def)
      qed
    qed
    have res2: "cr_ok res2" "width (lower res2) = w" "elems res1 \<subseteq> elems res2"
      "(\<exists>y \<in> elems src. K < sval y) \<Longrightarrow> m \<in> elems res2"
      "\<And>x. x \<in> elems res2 \<Longrightarrow> 0 \<le> sval x \<and> sval x \<le> K"
    proof -
      have wm: "width m = width (lower res1)" using res1(2) m by simp
      note us = union_single [OF res1(1) m(2) wm, of Unsigned]
      show "cr_ok res2" "width (lower res2) = w" "elems res1 \<subseteq> elems res2"
        "(\<exists>y \<in> elems src. K < sval y) \<Longrightarrow> m \<in> elems res2"
        using us res1(1,2) hi_iff by (auto simp: res2_def)
      show "0 \<le> sval x \<and> sval x \<le> K" if x: "x \<in> elems res2" for x
      proof (cases "CR_eq unch nn")
        case True
        then show ?thesis using x res1(5) bnd(1) by (auto simp: res2_def interval_def ival_def split: if_splits)
      next
        case False
        then have e: "K < e" using hi_iff ae by (auto simp: interval_def ival_def)
        then have "elems res1 = interval True w (max a 0) K" using res1(5) bnd(1) by simp
        then have "elems res1 \<union> elems (CR_single m) = interval True (width (lower res1)) (min (max a 0) K) K"
          using interval_insert(1) [OF m(2,3), of True K "max a 0"] ms unfolding single_elems [OF m(2)] res1(2)
          by (simp add: ival_def)
        moreover have "cr_same res1 (CR_single m)" using res1 wm m by (simp add: cr_same_def CR_single_ok)
        ultimately have "elems res2 = interval True w (min (max a 0) K) K"
          using union_interval [of res1 "CR_single m" True "min (max a 0) K" K Unsigned] False res1(2) by (simp add: res2_def)
        then show ?thesis using x bnd(1) by (auto simp: interval_def ival_def)
      qed
    qed
    have tr: "cr_ok (TruncWithUpperWrapped t True dst) \<and> width (lower (TruncWithUpperWrapped t True dst)) = dst \<and>
        (\<forall>x \<in> elems t. number dst (sval x) \<in> elems (TruncWithUpperWrapped t True dst))"
      if t: "cr_ok t" "width (lower t) = w" "\<And>x. x \<in> elems t \<Longrightarrow> 0 \<le> sval x \<and> sval x \<le> K" for t
    proof -
      have u: "uval x = sval x" if "x \<in> elems t" for x using sval_uval elems_wf(1) [OF t(1) that] t(3) [OF that] by blast
      have "uval x \<le> imax (\<not> True) dst" if "x \<in> elems t" for x using u [OF that] t(3) [OF that] by (simp add: K_def)
      from TruncWithUpperWrapped_sound [OF t(1) _ this] t(2) b u show ?thesis by auto
    qed
    have tu: "cr_ok (TruncWithUpperWrapped unch True dst)" "width (lower (TruncWithUpperWrapped unch True dst)) = dst"
      "\<And>x. x \<in> elems unch \<Longrightarrow> number dst (sval x) \<in> elems (TruncWithUpperWrapped unch True dst)"
      using tr [OF is_ivlD [OF un(1)] un(3)] unfolding un(2) by blast+
    have t2: "cr_ok (TruncWithUpperWrapped res2 True dst)" "width (lower (TruncWithUpperWrapped res2 True dst)) = dst"
      "\<And>x. x \<in> elems res2 \<Longrightarrow> number dst (sval x) \<in> elems (TruncWithUpperWrapped res2 True dst)"
      using tr [OF res2(1,2,5)] by blast+
    have eq: "CR_eq unch src \<Longrightarrow> x \<in> elems src \<Longrightarrow> 0 \<le> sval x \<and> sval x \<le> K" for x
      using CR_eq_elems [OF same(3)] un(2) by blast
    have F: "fits True dst (ival True x) \<longleftrightarrow> 0 \<le> sval x \<and> sval x \<le> K" for x
      by (simp add: fits_unsigned ival_def K_def)
    have iv: "ival (\<not> False) x = sval x" "ival True x = sval x" for x by (simp_all add: ival_def)
    show ?thesis
    proof (rule conv_specI)
      show "cr_ok final" "width (lower final) = dst"
        using tu(1,2) t2(1,2) by (auto simp: final_def SInt_const_width)
    next
      fix x assume x: "x \<in> elems src"
      show "sint_ok x" using wf x by simp
      show "number dst (ival (\<not> False) x) \<in> elems final" if "fits True dst (ival (\<not> False) x)"
      proof -
        have "x \<in> elems unch" using that x un(2) F by simp
        then show ?thesis using tu(3) t2(3) res1(3) res2(3) unfolding iv by (auto simp: final_def elems_Full)
      qed
      show "number dst (ival (\<not> False) x) \<in> elems final"
        if "\<not> fits True dst (ival (\<not> False) x)" "ov \<noteq> THROWING" "ov \<noteq> SATURATING"
        using that x eq F by (auto simp: final_def elems_Full)
      show "number dst (if ival (\<not> False) x < 0 then imin (\<not> True) dst else imax (\<not> True) dst) \<in> elems final"
        if nf: "\<not> fits True dst (ival (\<not> False) x)" and sat: "ov = SATURATING"
      proof -
        have "final = TruncWithUpperWrapped res2 True dst" using sat nf eq x F by (auto simp: final_def)
        moreover have "imin (\<not> True) dst = 0" "imax (\<not> True) dst = K" by (simp_all add: imin_def K_def)
        moreover have "number dst 0 \<in> elems (TruncWithUpperWrapped res2 True dst)" if "sval x < 0"
          using t2(3) [of "SInt_Zero w"] res1(4) res2(3) x that zs by auto
        moreover have "number dst K \<in> elems (TruncWithUpperWrapped res2 True dst)" if "\<not> sval x < 0"
          using t2(3) [OF res2(4)] x that nf F ms by (auto simp: not_le not_less)
        ultimately show ?thesis unfolding iv by simp
      qed
    qed
  qed
  ultimately show ?thesis by simp
qed


text \<open>
  A signed range that wraps is intersected with the non-negative numbers inexactly, yet the
  result never has a negative number: either the intersection is an interval, or the
  preference for signed ranges picks the non-negative numbers themselves.
\<close>

lemma csize_mkCR: "csize (mkCR l u) = (if uval l = uval u then (if uval l = 0 then 0 else modulus (width l))
    else (uval u - uval l) mod modulus (width l))"
  by (simp add: csize_def)

lemma From_nonneg: "CR_From GE (SInt_Zero w) True = mkCR (SInt_Zero w) (SInt_SMinValue w)"
proof -
  have "\<not> SInt_IsSMinValue (SInt_Zero w)" using half_ge [of w] zero_wf(1,2) [of w] zero_wf(3) [of True w]
    by (simp add: sval_const_tests ival_def)
  moreover have "SInt_add_u64 (SInt_SMaxValue w) 1 = SInt_SMinValue w"
    using half_ge [of w] by (simp add: SInt_eq_iff SInt_ring_sem SInt_signed_const_sem SInt_signed_const_ok modulus_half)
  ultimately show ?thesis by (simp add: CR_From_def Let_def zero_wf)
qed


lemma nonneg_part:
  assumes "cr_ok src"
  defines "w \<equiv> width (lower src)"
  defines "nn \<equiv> CR_IntersectWith src (CR_From GE (SInt_Zero w) True) Signed"
  defines "ng \<equiv> CR_Difference src nn"
  shows "cr_ok nn" "width (lower nn) = w" "x \<in> elems src \<Longrightarrow> 0 \<le> sval x \<Longrightarrow> x \<in> elems nn" "x \<in> elems nn \<Longrightarrow> 0 \<le> sval x"
    "(\<And>x. x \<in> elems src \<Longrightarrow> 0 \<le> sval x) \<Longrightarrow> elems nn = elems src"
    "cr_ok ng" "width (lower ng) = w" "x \<in> elems src \<Longrightarrow> sval x < 0 \<Longrightarrow> x \<in> elems ng" "x \<in> elems ng \<Longrightarrow> sval x < 0"
proof -
  define N where "N = CR_From GE (SInt_Zero w) True"
  have N: "N = mkCR (SInt_Zero w) (SInt_SMinValue w)" by (simp add: N_def From_nonneg)
  have Nel: "elems N = {x. sint_ok x \<and> width x = w \<and> 0 \<le> sval x}"
    using From_elems [OF zero_wf(1) [of w], of GE True] zero_wf(2) [of w] zero_wf(3) [of True w] by (simp add: N_def rel_sem_def ival_def)
  have same: "cr_same src N"
    using assms(1) CR_From_ok [OF zero_wf(1) [of w]] zero_wf(2) [of w] by (simp add: cr_same_def N_def w_def)
  have nn: "nn = CR_IntersectWith src N Signed" by (simp add: nn_def N_def)
  have inter: "elems src \<inter> elems N = {x \<in> elems src. 0 \<le> sval x}"
    using elems_wf [OF assms(1)] unfolding Nel w_def by auto
  note sp = inter_wf [OF same, of Signed, folded nn]
  show ok: "cr_ok nn" and wd: "width (lower nn) = w" using sp by (simp_all add: w_def)
  show sup: "x \<in> elems nn" if "x \<in> elems src" "0 \<le> sval x" for x using sp(3) inter that by blast
  have exact: "elems nn = {x \<in> elems src. 0 \<le> sval x}" if "representable w {x \<in> elems src. 0 \<le> sval x}"
    using CR_IntersectWith_spec [OF same, of Signed] that by (simp add: inter_spec_def inter nn w_def)
  show all: "elems nn = elems src" if a: "\<And>x. x \<in> elems src \<Longrightarrow> 0 \<le> sval x"
  proof -
    have "{x \<in> elems src. 0 \<le> sval x} = elems src" using a by blast
    moreover have "representable w (elems src)" using assms(1) by (auto simp: representable_def w_def)
    ultimately show ?thesis using exact by simp
  qed
  note d = cr_okD [OF assms(1)] and t = CR_tests_sem [OF assms(1)]
  have mem: "x \<in> elems src \<longleftrightarrow> sint_ok x \<and> width x = w \<and> (slo src \<le> sval x \<or> sval x < Ranges.sup src)"
    if "CR_IsSignWrappedSet src" for x
    using that t(5) unfolding elems_signed [OF assms(1)] w_def by auto
  have pieces: "nn = N" if sw: "CR_IsSignWrappedSet src" and "0 < Ranges.sup src"
  proof -
    have s: "0 < Ranges.sup src" "Ranges.sup src < slo src" using that t(5) by auto
    then have u: "up src = Ranges.sup src" "lo src = slo src" using d uval_of_sval(1) by auto
    have h: "slo src < half w" "128 \<le> half w" using sval_range [OF d(1)] half_ge by (auto simp: w_def)
    have Nb: "uval (lower N) = 0" "uval (upper N) = half w" "width (lower N) = w" "cr_ok N" "sint_ok (upper N)"
      using cr_sameD(2) [OF same] by (auto simp: N zero_wf SInt_const_sem SInt_signed_const_sem SInt_signed_const_ok)
    note tN = CR_tests_sem [OF Nb(4)]
    have "CR_IntersectWith src N Signed = CR_IntersectWrappedWithUnwrapped src N Signed"
      using s u h Nb t tN by (subst CR_IntersectWith.simps) (simp add: Let_def)
    also have "\<dots> = GetPreferredRange src N Signed"
      using s u h Nb d cr_okD [OF Nb(4)] by (simp add: CR_IntersectWrappedWithUnwrapped_def SInt_Ult_sem SInt_Ule_sem w_def)
    also have "\<dots> = N"
    proof -
      have "\<not> CR_IsSignWrappedSet N" using tN(5) by (simp add: N zero_wf)
      with sw show ?thesis by (simp add: GetPreferredRange_def)
    qed
    finally show ?thesis by (simp add: nn)
  qed
  consider "nn = N" | "elems nn = {x \<in> elems src. 0 \<le> sval x}" "\<exists>a b. {x \<in> elems src. sval x < 0} = interval True w a b"
  proof (cases "CR_IsSignWrappedSet src")
    case False
    then have iv: "is_ivl True src" using is_ivl_unwrapped [OF assms(1), of True] by simp
    have "\<exists>a b. {x \<in> elems src. sval x < 0} = interval True w a b"
      using restrict_interval [OF _ iv, of LT 0] by (simp add: half_line_def rel_sem_def ival_def w_def)
    moreover have "\<exists>a b. {x \<in> elems src. 0 \<le> sval x} = interval True w a b"
      using restrict_interval [OF _ iv, of GE 0] by (simp add: half_line_def rel_sem_def ival_def w_def)
    then have "elems nn = {x \<in> elems src. 0 \<le> sval x}" using exact interval_representable by metis
    ultimately show ?thesis using that(2) by blast
  next
    case True
    have rng: "sval x < half w" "- half w \<le> sval x" if "sint_ok x" "width x = w" for x using sval_range that by auto
    show ?thesis
    proof (cases "0 < Ranges.sup src")
      case pc: True
      then show ?thesis using pieces [OF True] that(1) by blast
    next
      case False
      have "{x \<in> elems src. 0 \<le> sval x} = interval True w (max (slo src) 0) (half w)"
        using mem [OF True] False rng by (fastforce simp: interval_def ival_def)
      then have e: "elems nn = {x \<in> elems src. 0 \<le> sval x}" using exact interval_representable by metis
      show ?thesis
      proof (cases "slo src \<le> 0")
        case lo: True
        have "x \<in> elems src" if "sint_ok x" "width x = w" "0 \<le> sval x" for x
          unfolding mem [OF True] using that lo by simp
        then have "elems nn = elems N" unfolding e Nel using elems_wf [OF assms(1)] w_def by blast
        moreover have "cr_same nn N" using same ok wd cr_sameD [OF same] by (simp add: cr_same_def w_def)
        ultimately show ?thesis using elems_inject that(1) by blast
      next
        case lo: False
        have "{x \<in> elems src. sval x < 0} = interval True w (- half w) (Ranges.sup src - 1)"
          using mem [OF True] False lo rng by (fastforce simp: interval_def ival_def)
        then show ?thesis using e that(2) by blast
      qed
    qed
  qed
  note cases = this
  have same': "cr_same src nn" using assms(1) ok wd by (simp add: cr_same_def w_def)
  show nonneg: "0 \<le> sval x" if x: "x \<in> elems nn" for x
    using cases
  proof cases
    case 1
    with x have "x \<in> elems N" by simp
    then show ?thesis unfolding Nel by simp
  next
    case 2
    with x show ?thesis by simp
  qed
  have diff: "elems src - elems nn = {x \<in> elems src. sval x < 0}"
    using sup nonneg by (auto simp: not_le [symmetric])
  note dsp = CR_Difference_spec [OF same', folded ng_def]
  show "cr_ok ng" "width (lower ng) = w" using dsp by (simp_all add: inter_spec_def w_def)
  show "x \<in> elems ng" if "x \<in> elems src" "sval x < 0" for x
    using dsp that diff Inverse_inter [OF same'] by (auto simp: inter_spec_def)
  show "sval x < 0" if x: "x \<in> elems ng" for x
    using cases
  proof cases
    case 1
    have "\<not> CR_IsFullSet N" "\<not> CR_IsEmptySet N"
      using CR_tests_sem(1,2) [OF cr_sameD(2) [OF same]] half_ge [of w] by (auto simp: N SInt_const_sem SInt_signed_const_sem)
    then have inv: "CR_Inverse N = mkCR (SInt_SMinValue w) (SInt_Zero w)" by (simp add: CR_Inverse_def N)
    have "2 * csize (CR_Inverse N) \<le> cmod src"
      using half_ge [of w] by (simp add: inv csize_mkCR SInt_const_sem SInt_signed_const_sem SInt_const_width zero_wf w_def modulus_half mod_minus_if)
    moreover have "cr_same src (CR_Inverse N)"
      using same CR_Inverse_ok [OF cr_sameD(2) [OF same]] by (simp add: cr_same_def)
    ultimately have "elems (CR_IntersectWith src (CR_Inverse N) Smallest) \<subseteq> elems (CR_Inverse N)"
      using CR_IntersectWith_filter(4) by blast
    then have "x \<in> elems (CR_Inverse N)" using x 1 by (auto simp: ng_def CR_Difference_def)
    then show ?thesis
      using CR_Inverse_exact [OF cr_sameD(2) [OF same]] unfolding Nel by (auto simp: same_def N zero_wf)
  next
    case 2
    then obtain a b where "elems src - elems nn = interval True (width (lower src)) a b" using diff by (auto simp: w_def)
    then have "elems ng = {x \<in> elems src. sval x < 0}"
      using Difference_interval(3) [OF same'] diff by (simp add: ng_def)
    with x show ?thesis by simp
  qed
qed


definition widen :: "IntWidth \<Rightarrow> IntWidth \<Rightarrow> ConstantRange \<Rightarrow> ConstantRange" where
  "widen w dst t = (if w = dst then t else CR_ZeroExtend t dst)"

lemma widen_sound:
  assumes "cr_ok t" "width (lower t) = w" "bits w \<le> bits dst"
  shows "cr_ok (widen w dst t)" "width (lower (widen w dst t)) = dst"
    "x \<in> elems t \<Longrightarrow> number dst (uval x) \<in> elems (widen w dst t)"
proof -
  have lt: "bits (width (lower t)) < bits dst" if "w \<noteq> dst" using that assms(2,3) by (cases w; cases dst) simp_all
  have "number (width x) (uval x) = x" if "x \<in> elems t" for x
    using number_ival [of x False] elems_wf(1) [OF assms(1) that] by (simp add: ival_def)
  then show "cr_ok (widen w dst t)" "width (lower (widen w dst t)) = dst"
    "x \<in> elems t \<Longrightarrow> number dst (uval x) \<in> elems (widen w dst t)"
    using CR_ZeroExtend_ok_sound [OF assms(1) lt] assms(1,2) elems_wf(2) [OF assms(1)]
    by (auto simp: widen_def ZExt_number)
qed

lemma NCS2UInnerExtend_sound:
  assumes "cr_ok src" "bits (width (lower src)) \<le> bits dst" "sane ov"
  shows "conv_spec False dst True ov src (NCS2UInnerExtend src dst ov)"
proof (cases "CR_IsEmptySet src")
  case True
  then show ?thesis
    using conv_spec_Empty [of src False dst True ov] CR_IsEmptySet_elems [OF assms(1)]
    by (simp add: NCS2UInnerExtend_def)
next
  case False
  define w where "w = width (lower src)"
  define nn where "nn = CR_IntersectWith src (CR_From GE (SInt_Zero w) True) Signed"
  define ng where "ng = CR_Difference src nn"
  define nn1 where "nn1 = (if CR_IsNotEmptySet ng then CR_UnionWith nn (CR_single (SInt_UMinValue w)) Smallest else nn)"
  define a e where "a = SInt_SExt (CR_SMinValue ng) dst" and "e = SInt_SExt (CR_SMaxValue ng) dst"
  define wrap where "wrap = CR_UnionWith (mkCR a (SInt_add_u64 e 1)) (widen w dst nn) Unsigned"
  define final where "final = (if CR_eq nn src \<or> ov = THROWING then widen w dst nn
    else if ov = SATURATING then widen w dst nn1 else wrap)"
  have "NCS2UInnerExtend src dst ov = final"
    using False unfolding NCS2UInnerExtend_def Let_def final_def wrap_def nn1_def ng_def nn_def a_def e_def w_def widen_def
    by (simp add: CR_Width_def)
  moreover have "conv_spec False dst True ov src final"
  proof -
    note wf = elems_wf [OF assms(1)]
    note np = nonneg_part [OF assms(1), folded w_def, folded nn_def, folded ng_def]
    have b: "bits w \<le> bits dst" using assms(2) by (simp add: w_def)
    have same: "cr_same nn src" using np(1,2) assms(1) by (simp add: cr_same_def w_def)
    have z: "sint_ok (SInt_UMinValue w)" "width (SInt_UMinValue w) = width (lower nn)" "uval (SInt_UMinValue w) = 0"
      using np(2) by (simp_all add: SInt_const_ok SInt_const_width SInt_const_sem)
    have nn1: "cr_ok nn1" "width (lower nn1) = w" "elems nn \<subseteq> elems nn1"
      "(\<exists>y \<in> elems src. sval y < 0) \<Longrightarrow> SInt_UMinValue w \<in> elems nn1"
    proof -
      note us = union_single [OF np(1) z(1,2), of Smallest]
      show "cr_ok nn1" "width (lower nn1) = w" "elems nn \<subseteq> elems nn1" using us np(1,2) by (simp_all add: nn1_def)
      assume "\<exists>y \<in> elems src. sval y < 0"
      then have "CR_IsNotEmptySet ng" using np(8) CR_IsEmptySet_elems [OF np(6)] by (auto simp: CR_IsNotEmptySet_def)
      then show "SInt_UMinValue w \<in> elems nn1" using us(4) by (simp add: nn1_def)
    qed
    note wn = widen_sound [OF np(1,2) b] and wn1 = widen_sound [OF nn1(1,2) b]
    have wrap: "cr_ok wrap" "width (lower wrap) = dst" "x \<in> elems ng \<Longrightarrow> number dst (sval x) \<in> elems wrap"
      "elems (widen w dst nn) \<subseteq> elems wrap" if ne: "\<not> CR_eq nn src" for x
    proof -
      have "elems nn \<noteq> elems src" using ne CR_eq_elems [OF same] by simp
      then have "\<exists>y \<in> elems src. sval y < 0" using np(5) by fastforce
      then have nge: "\<not> CR_IsEmptySet ng" using np(8) CR_IsEmptySet_elems [OF np(6)] by auto
      note mm = CR_SMinMax_mem [OF np(6) nge]
      have ok: "sint_ok (CR_SMinValue ng)" "sint_ok (CR_SMaxValue ng)" "width (CR_SMinValue ng) = w" "width (CR_SMaxValue ng) = w"
        using np(6,7) by simp_all
      have s: "sval a = sval (CR_SMinValue ng)" "sval e = sval (CR_SMaxValue ng)"
        using ok b by (simp_all add: a_def e_def sval_SExt)
      have neg: "sval a < 0" "sval e < 0" using s np(9) mm by auto
      have ae: "sval a \<le> sval e" using s CR_SMinValue_le [OF np(6) mm(2)] by simp
      have wd: "sint_ok a" "width a = dst" "sint_ok e" "width e = dst" by (simp_all add: a_def e_def)
      have u: "uval a = sval a + modulus dst" "uval e = sval e + modulus dst"
        using uval_of_sval(2) wd neg by auto
      have u1: "uval (SInt_add_u64 e 1) = (if sval e = - 1 then 0 else sval e + modulus dst + 1)"
        using u wd by (simp add: uval_succ)
      have rng: "- half dst \<le> sval a" using sval_range [OF wd(1)] wd(2) by simp
      have ok1: "cr_ok (mkCR a (SInt_add_u64 e 1))"
        using wd u u1 neg ae rng half_ge [of dst] by (intro mkCR_ok) (auto simp: same_def modulus_half)
      have sm: "cr_same (mkCR a (SInt_add_u64 e 1)) (widen w dst nn)" using ok1 wn(1,2) wd by (simp add: cr_same_def)
      show "cr_ok wrap" "width (lower wrap) = dst" "elems (widen w dst nn) \<subseteq> elems wrap"
        using union_wf [OF sm, of Unsigned, folded wrap_def] wd by simp_all
      assume x: "x \<in> elems ng"
      have sx: "sval x < 0" "sval a \<le> sval x" "sval x \<le> sval e"
        using np(9) x s CR_SMinValue_le [OF np(6) x] CR_SMaxValue_ge [OF np(6) x] by auto
      have m: "sval x mod modulus dst = sval x + modulus dst"
      proof -
        have "0 \<le> sval x + modulus dst" "sval x + modulus dst < modulus dst"
          using sx rng half_ge [of dst] by (simp_all add: modulus_half)
        then have "(sval x + modulus dst) mod modulus dst = sval x + modulus dst" by (rule mod_pos_pos_trivial)
        then show ?thesis by (simp only: mod_add_self2)
      qed
      have "number dst (sval x) \<in> elems (mkCR a (SInt_add_u64 e 1))"
      proof -
        have "0 < sval a + modulus dst" using rng half_ge [of dst] by (simp add: modulus_half)
        moreover have "width (number dst (sval x)) = dst" "sint_ok (number dst (sval x))" by simp_all
        ultimately show ?thesis using sx u u1 wd m by (cases "sval e = - 1") (auto simp: elems_iff [OF ok1] arc_def)
      qed
      then show "number dst (sval x) \<in> elems wrap" using union_wf(3) [OF sm, of Unsigned, folded wrap_def] by blast
    qed
    have F: "fits True dst (ival (\<not> False) x) \<longleftrightarrow> 0 \<le> sval x" if "x \<in> elems src" for x
      using sval_range [OF wf(1) [OF that]] wf(2) [OF that] half_mono [OF b] half_ge [of dst]
      by (auto simp: fits_unsigned ival_def imax_def modulus_half w_def)
    have iv: "ival (\<not> False) x = sval x" "ival True x = sval x" for x by (simp_all add: ival_def)
    have eq: "CR_eq nn src \<Longrightarrow> x \<in> elems src \<Longrightarrow> 0 \<le> sval x" for x
      using CR_eq_elems [OF same] np(4) by blast
    show ?thesis
    proof (rule conv_specI)
      show "cr_ok final" "width (lower final) = dst"
        using wn(1,2) wn1(1,2) wrap(1,2) by (auto simp: final_def)
    next
      fix x assume x: "x \<in> elems src"
      show "sint_ok x" using wf x by simp
      show "number dst (ival (\<not> False) x) \<in> elems final" if "fits True dst (ival (\<not> False) x)"
      proof -
        have s: "0 \<le> sval x" using that F x by simp
        then have "x \<in> elems nn" using np(3) x by simp
        then show ?thesis using wn(3) [of x] wn1(3) [of x] nn1(3) wrap(4) sval_uval [OF wf(1) [OF x] s] unfolding iv
          by (auto simp: final_def)
      qed
      show "number dst (ival (\<not> False) x) \<in> elems final"
        if "\<not> fits True dst (ival (\<not> False) x)" "ov \<noteq> THROWING" "ov \<noteq> SATURATING"
        using that x eq F np(8) wrap(3) unfolding iv by (auto simp: final_def)
      show "number dst (if ival (\<not> False) x < 0 then imin (\<not> True) dst else imax (\<not> True) dst) \<in> elems final"
        if nf: "\<not> fits True dst (ival (\<not> False) x)" and sat: "ov = SATURATING"
      proof -
        have "sval x < 0" using nf F x by simp
        then show ?thesis using wn1(3) [OF nn1(4)] x eq [of x] z(3) sat unfolding iv by (auto simp: final_def imin_def)
      qed
    qed
  qed
  ultimately show ?thesis by simp
qed

lemma NumericConversionS2U_sound:
  assumes "cr_ok src" "sane ov"
  shows "conv_spec False dst True ov src (NumericConversionS2U src dst ov)"
proof -
  let ?w = "width (lower src)"
  show ?thesis
  proof (cases "dst < ?w")
    case False
    then show ?thesis using NCS2UInnerExtend_sound [OF assms(1) _ assms(2), of dst]
      by (simp add: NumericConversionS2U_def CR_Width_def less_IntWidth_def)
  next
    case lt: True
    then have b: "bits dst < bits ?w" by (simp add: less_IntWidth_def)
    show ?thesis
    proof (cases "CR_IsSignWrappedSet src")
      case True
      obtain l r where lr: "CR_SplitWrapping src False = (l, r)" by (cases "CR_SplitWrapping src False")
      have ivl: "is_ivl True l" "is_ivl True r" "width (lower l) = ?w" "width (lower r) = ?w"
        using split_is_ivl [OF assms(1), of False] lr by simp_all
      have "elems src = elems l \<union> elems r" using CR_SplitWrapping_spec(1) [OF assms(1), of False] True lr by simp
      then have "conv_spec False dst True ov src (CR_UnionWith (NCS2UInnerTrunc l dst ov) (NCS2UInnerTrunc r dst ov) Unsigned)"
        using NCS2UInnerTrunc_sound [OF ivl(1) _ assms(2), of dst] NCS2UInnerTrunc_sound [OF ivl(2) _ assms(2), of dst] ivl(3,4) b
        by (intro conv_spec_union) simp_all
      then show ?thesis using True lt lr by (simp add: NumericConversionS2U_def CR_Width_def)
    next
      case nw: False
      then have "is_ivl True src" using is_ivl_unwrapped [OF assms(1), of True] by simp
      from NCS2UInnerTrunc_sound [OF this b assms(2)] lt nw show ?thesis
        by (simp add: NumericConversionS2U_def CR_Width_def)
    qed
  qed
qed

subsection \<open>Property\<close>

lemma NumericConversion_spec:
  assumes "cr_ok src" "sane ov"
  shows "conv_spec srcU dst dstU ov src (NumericConversion src dst srcU dstU ov)"
  using NumericConversionWithSameSigness_sound [OF assms, of srcU dst] NumericConversionU2S_sound [OF assms, of dst]
    NumericConversionS2U_sound [OF assms, of dst]
  by (cases srcU; cases dstU) (simp_all add: NumericConversion_def)

text \<open>C39: the conversion of a range agrees with the overflow checker's cast: whatever number of the
  source range is cast to whatever width and signedness, the result that the checker computes
  under the throwing, wrapping or saturating strategy is in the converted range, unless it
  throws; and the converted range keeps the invariant.\<close>

theorem NumericConversion_covers_casts:
  assumes "cr_ok src" "ov = THROWING \<or> ov = WRAPPING \<or> ov = SATURATING" "x \<in> elems src"
    "IsTypecastOverflowForInt (ity (CR_Width src) srcU) (ity dst dstU) (ival (\<not> srcU) x) ov = (ovf, n)"
    "ov = THROWING \<longrightarrow> \<not> ovf"
  shows "number dst n \<in> elems (NumericConversion src dst srcU dstU ov) \<and>
    cr_ok (NumericConversion src dst srcU dstU ov) \<and> CR_Width (NumericConversion src dst srcU dstU ov) = dst"
  using NumericConversion_spec [OF assms(1,2), of srcU dst dstU] assms(3-5) elems_wf(2) [OF assms(1,3)]
  by (auto simp: conv_spec_def cast_result_def CR_Width_def)

lemma NumericConversion_covers_casts_witness:
  "number I8 (- 6) \<in> elems (NumericConversion (mkCR (mkSInt I16 200) (mkSInt I16 300)) I8 True False WRAPPING)"
proof -
  let ?r = "mkCR (mkSInt I16 200) (mkSInt I16 300)" and ?x = "mkSInt I16 250"
  have r: "cr_ok ?r" "same (lower ?r) ?x \<and> CR_Contains ?r ?x"
    "IsTypecastOverflowForInt (ity (CR_Width ?r) True) (ity I8 False) (ival (\<not> True) ?x) WRAPPING = (True, - 6)" by code_simp+
  have x: "?x \<in> elems ?r" using r(2) by (simp only: elems_def mem_Collect_eq)
  show ?thesis using NumericConversion_covers_casts [OF r(1) _ x r(3)] by blast
qed

end
