(* ===== verification/BoolDom.thy ===== *)
theory BoolDom
  imports Prelude
begin

section \<open>The domain of Booleans\<close>

text \<open>
  Model of \<open>CHIR/Analysis/BoolDomain.cpp\<close>: the set of possible values of a Boolean as two
  bits, false in bit 0 and true in bit 1. The logical connectives are tables indexed by the
  two representations. \<open>bool_gamma\<close> is the set that a representation stands for; every
  connective is exact, which the interface \<open>bool_connectives\<close> states and its interpretation on
  the tables proves.
\<close>

unbundle bit_operations_syntax

record BoolDomain =
  bd_v :: u32

abbreviation (input) bN :: u32 where "bN \<equiv> 0"
abbreviation (input) bF :: u32 where "bF \<equiv> 1"
abbreviation (input) bT :: u32 where "bT \<equiv> 2"
abbreviation (input) bA :: u32 where "bA \<equiv> 3"

definition BD :: "u32 \<Rightarrow> BoolDomain" where
  "BD v = \<lparr>bd_v = v\<rparr>"

definition BD_Bottom :: BoolDomain where "BD_Bottom = BD bN"

definition BD_False :: BoolDomain where "BD_False = BD bF"

definition BD_True :: BoolDomain where "BD_True = BD bT"

definition BD_Top :: BoolDomain where "BD_Top = BD bA"

definition BD_IsTrue :: "BoolDomain \<Rightarrow> bool" where "BD_IsTrue d \<longleftrightarrow> bd_v d = bT"

definition BD_IsFalse :: "BoolDomain \<Rightarrow> bool" where "BD_IsFalse d \<longleftrightarrow> bd_v d = bF"

definition BD_IsTop :: "BoolDomain \<Rightarrow> bool" where "BD_IsTop d \<longleftrightarrow> bd_v d = bA"

definition BD_IsBottom :: "BoolDomain \<Rightarrow> bool" where "BD_IsBottom d \<longleftrightarrow> bd_v d = bN"

definition BD_IsNonTrivial :: "BoolDomain \<Rightarrow> bool" where "BD_IsNonTrivial d \<longleftrightarrow> \<not> BD_IsTop d"

definition BD_IsSingleValue :: "BoolDomain \<Rightarrow> bool" where
  "BD_IsSingleValue d \<longleftrightarrow> bd_v d = bT \<or> bd_v d = bF"

definition BD_GetSingleValue :: "BoolDomain \<Rightarrow> bool" where "BD_GetSingleValue d \<longleftrightarrow> bd_v d = bT"

definition BD_FromBool :: "bool \<Rightarrow> BoolDomain" where
  "BD_FromBool v = (if v then BD bT else BD bF)"

definition LogicalAnd :: "BoolDomain \<Rightarrow> BoolDomain \<Rightarrow> BoolDomain" where
  "LogicalAnd a b =
     (let logicalAndTable =
        [[bN, bN, bN, bN],
         [bN, bF, bF, bF],
         [bN, bF, bT, bA],
         [bN, bF, bA, bA]]
      in BD (logicalAndTable ! unat (bd_v a) ! unat (bd_v b)))"

definition LogicalOr :: "BoolDomain \<Rightarrow> BoolDomain \<Rightarrow> BoolDomain" where
  "LogicalOr a b =
     (let logicalOrTable =
        [[bN, bN, bN, bN],
         [bN, bF, bT, bA],
         [bN, bT, bT, bT],
         [bN, bA, bT, bA]]
      in BD (logicalOrTable ! unat (bd_v a) ! unat (bd_v b)))"

definition BD_and :: "BoolDomain \<Rightarrow> BoolDomain \<Rightarrow> BoolDomain" where
  "BD_and a b = BD (bd_v a AND bd_v b)"

definition BD_or :: "BoolDomain \<Rightarrow> BoolDomain \<Rightarrow> BoolDomain" where
  "BD_or a b = BD (bd_v a OR bd_v b)"

definition BD_not :: "BoolDomain \<Rightarrow> BoolDomain" where
  "BD_not d = (let logicalNotTable = [bN, bT, bF, bA] in BD (logicalNotTable ! unat (bd_v d)))"

definition BD_Union :: "BoolDomain \<Rightarrow> BoolDomain \<Rightarrow> BoolDomain" where
  "BD_Union a b = BD_or a b"

definition BD_IsSame :: "BoolDomain \<Rightarrow> BoolDomain \<Rightarrow> bool" where
  "BD_IsSame a b \<longleftrightarrow> bd_v a = bd_v b"

subsection \<open>What a representation stands for\<close>

definition bd_ok :: "BoolDomain \<Rightarrow> bool" where
  "bd_ok d \<longleftrightarrow> bd_v d \<in> {bN, bF, bT, bA}"

definition bool_gamma :: "BoolDomain \<Rightarrow> bool set" where
  "bool_gamma d = {x. bit (bd_v d) (if x then 1 else 0)}"

lemma bd_cases:
  assumes "bd_ok d"
  obtains "d = BD_Bottom" | "d = BD_False" | "d = BD_True" | "d = BD_Top"
  using assms by (cases d) (auto simp: bd_ok_def BD_def BD_Bottom_def BD_False_def BD_True_def BD_Top_def)

lemma bd_consts [simp]:
  "bd_ok BD_Bottom" "bd_ok BD_False" "bd_ok BD_True" "bd_ok BD_Top"
  "bool_gamma BD_Bottom = {}" "bool_gamma BD_False = {False}" "bool_gamma BD_True = {True}"
  "bool_gamma BD_Top = UNIV"
  by (auto simp: bd_ok_def bool_gamma_def BD_def BD_Bottom_def BD_False_def BD_True_def BD_Top_def
      bit_numeral_rec split: if_splits)

lemma bd_distinct [simp]:
  "BD_False \<noteq> BD_Bottom" "BD_True \<noteq> BD_Bottom" "BD_Top \<noteq> BD_Bottom" "BD_True \<noteq> BD_False"
  "BD_Top \<noteq> BD_False" "BD_Top \<noteq> BD_True"
  by (simp_all add: BD_def BD_Bottom_def BD_False_def BD_True_def BD_Top_def)

lemma bd_eval [simp]:
  "LogicalAnd BD_Bottom BD_Bottom = BD_Bottom" "LogicalAnd BD_Bottom BD_False = BD_Bottom"
  "LogicalAnd BD_Bottom BD_True = BD_Bottom" "LogicalAnd BD_Bottom BD_Top = BD_Bottom"
  "LogicalAnd BD_False BD_Bottom = BD_Bottom" "LogicalAnd BD_False BD_False = BD_False"
  "LogicalAnd BD_False BD_True = BD_False" "LogicalAnd BD_False BD_Top = BD_False"
  "LogicalAnd BD_True BD_Bottom = BD_Bottom" "LogicalAnd BD_True BD_False = BD_False"
  "LogicalAnd BD_True BD_True = BD_True" "LogicalAnd BD_True BD_Top = BD_Top"
  "LogicalAnd BD_Top BD_Bottom = BD_Bottom" "LogicalAnd BD_Top BD_False = BD_False"
  "LogicalAnd BD_Top BD_True = BD_Top" "LogicalAnd BD_Top BD_Top = BD_Top"
  "BD_not BD_Bottom = BD_Bottom" "BD_not BD_False = BD_True" "BD_not BD_True = BD_False" "BD_not BD_Top = BD_Top"
  by code_simp+

lemma LogicalOr_De_Morgan:
  "bd_ok a \<Longrightarrow> bd_ok b \<Longrightarrow> LogicalOr a b = BD_not (LogicalAnd (BD_not a) (BD_not b))"
  by (elim bd_cases; simp; code_simp)

lemma bd_lattice_gamma:
  "bool_gamma (BD_or a b) = bool_gamma a \<union> bool_gamma b"
  "bool_gamma (BD_and a b) = bool_gamma a \<inter> bool_gamma b"
  by (auto simp: bool_gamma_def BD_or_def BD_and_def BD_def bit_simps)

lemma bd_lattice_ok:
  assumes "bd_ok a" "bd_ok b"
  shows "bd_ok (BD_or a b)" "bd_ok (BD_and a b)"
  using assms by (auto simp: bd_ok_def BD_or_def BD_and_def BD_def)

subsection \<open>The connectives as exact images\<close>

locale bool_connectives =
  fixes gamma :: "'d \<Rightarrow> bool set" and ok :: "'d \<Rightarrow> bool"
    and conj disj :: "'d \<Rightarrow> 'd \<Rightarrow> 'd" and neg :: "'d \<Rightarrow> 'd"
  assumes conj_exact: "ok a \<Longrightarrow> ok b \<Longrightarrow> gamma (conj a b) = {x \<and> y | x y. x \<in> gamma a \<and> y \<in> gamma b}"
    and neg_exact: "ok a \<Longrightarrow> gamma (neg a) = Not ` gamma a"
    and conj_ok: "ok a \<Longrightarrow> ok b \<Longrightarrow> ok (conj a b)" and neg_ok: "ok a \<Longrightarrow> ok (neg a)"
    and De_Morgan: "ok a \<Longrightarrow> ok b \<Longrightarrow> disj a b = neg (conj (neg a) (neg b))"
begin

lemma disj_exact:
  assumes "ok a" "ok b"
  shows "gamma (disj a b) = {x \<or> y | x y. x \<in> gamma a \<and> y \<in> gamma b}"
proof -
  have "gamma (disj a b) = Not ` {x \<and> y | x y. x \<in> Not ` gamma a \<and> y \<in> Not ` gamma b}"
    using assms by (simp only: De_Morgan neg_exact conj_exact neg_ok conj_ok)
  also have "\<dots> = {x \<or> y | x y. x \<in> gamma a \<and> y \<in> gamma b}"
    by (rule set_eqI) (simp add: image_iff Bex_def ex_bool_eq, blast)
  finally show ?thesis .
qed

lemma disj_ok: "ok a \<Longrightarrow> ok b \<Longrightarrow> ok (disj a b)"
  by (simp add: De_Morgan neg_ok conj_ok)

end

interpretation bd: bool_connectives bool_gamma bd_ok LogicalAnd LogicalOr BD_not
proof
  fix a b assume a: "bd_ok a" and b: "bd_ok b"
  show "bool_gamma (LogicalAnd a b) = {x \<and> y | x y. x \<in> bool_gamma a \<and> y \<in> bool_gamma b}"
    using a b by (elim bd_cases) auto
  show "bd_ok (LogicalAnd a b)" using a b by (elim bd_cases) simp_all
  show "LogicalOr a b = BD_not (LogicalAnd (BD_not a) (BD_not b))" using a b by (rule LogicalOr_De_Morgan)
next
  fix a assume a: "bd_ok a"
  show "bool_gamma (BD_not a) = Not ` bool_gamma a" using a by (elim bd_cases) auto
  show "bd_ok (BD_not a)" using a by (elim bd_cases) simp_all
qed

lemma bool_gamma_inject: "bd_ok a \<Longrightarrow> bd_ok b \<Longrightarrow> bool_gamma a = bool_gamma b \<longleftrightarrow> a = b"
  by (elim bd_cases) (auto dest: sym)

lemma BD_eq_iff: "bd_v (a :: BoolDomain) = bd_v b \<longleftrightarrow> a = b"
  by (cases a; cases b) simp

lemma BD_FromBool_gamma [simp]: "bool_gamma (BD_FromBool v) = {v}" "bd_ok (BD_FromBool v)"
  by (cases v; simp add: BD_FromBool_def flip: BD_True_def BD_False_def)+

lemma BD_tests:
  assumes "bd_ok d"
  shows "BD_IsSingleValue d \<longleftrightarrow> bool_gamma d = {BD_GetSingleValue d}" "BD_IsTop d \<longleftrightarrow> bool_gamma d = UNIV"
    "BD_IsBottom d \<longleftrightarrow> bool_gamma d = {}" "BD_IsNonTrivial d \<longleftrightarrow> bool_gamma d \<noteq> UNIV"
  using assms
  by (elim bd_cases; simp; simp add: BD_IsSingleValue_def BD_GetSingleValue_def BD_IsTop_def BD_IsBottom_def
      BD_IsNonTrivial_def BD_def BD_Bottom_def BD_False_def BD_True_def BD_Top_def UNIV_bool)+

text \<open>C32: the Boolean domain is exact: on well-formed representations the tables of \<open>LogicalAnd\<close>,
  \<open>LogicalOr\<close> and the negation stand for exactly the results of the connective on the possible
  operands, the bitwise operators for the union and the intersection, the results are well
  formed again, and two representations are the same only if they stand for the same set.\<close>

theorem BoolDomain_exact:
  assumes "bd_ok a" "bd_ok b"
  shows "bool_gamma (LogicalAnd a b) = {x \<and> y | x y. x \<in> bool_gamma a \<and> y \<in> bool_gamma b} \<and>
    bool_gamma (LogicalOr a b) = {x \<or> y | x y. x \<in> bool_gamma a \<and> y \<in> bool_gamma b} \<and>
    bool_gamma (BD_not a) = Not ` bool_gamma a \<and>
    bool_gamma (BD_Union a b) = bool_gamma a \<union> bool_gamma b \<and>
    bool_gamma (BD_and a b) = bool_gamma a \<inter> bool_gamma b \<and>
    bd_ok (LogicalAnd a b) \<and> bd_ok (LogicalOr a b) \<and> bd_ok (BD_not a) \<and> bd_ok (BD_Union a b) \<and> bd_ok (BD_and a b) \<and>
    (BD_IsSame a b \<longleftrightarrow> bool_gamma a = bool_gamma b)"
  using bd.conj_exact [OF assms] bd.disj_exact [OF assms] bd.neg_exact [OF assms(1)] bd.conj_ok [OF assms]
    bd.disj_ok [OF assms] bd.neg_ok [OF assms(1)] bd_lattice_ok [OF assms] bd_lattice_gamma [of a b]
    bool_gamma_inject [OF assms]
  by (simp add: BD_Union_def BD_IsSame_def BD_eq_iff)

lemma BoolDomain_exact_witness:
  "bool_gamma (LogicalAnd BD_True BD_Top) = {x \<and> y | x y. x \<in> bool_gamma BD_True \<and> y \<in> bool_gamma BD_Top}"
  using BoolDomain_exact [of BD_True BD_Top] by simp

end
