(* ===== verification/SIntDomDefs.thy ===== *)
theory SIntDomDefs
  imports NumConvDefs BoolDom
begin

section \<open>The domain of integers: definitions\<close>

text \<open>
  Model of \<open>CHIR/Analysis/SIntDomain.cpp\<close> apart from the range conversions: an abstract integer
  is a numeric range together with symbolic bounds, each a signed range against another value
  of the function. A value of the CHIR is its address, the \<open>std::map\<close> of the bounds an
  association list in ascending order of the addresses, which the two merging walks rely on.
  What the code asks of the type of the left operand is the field \<open>l_type\<close> of the arguments.
  A division by zero in a range operation gives \<open>None\<close>.
\<close>

type_synonym PtrSymbol = nat

type_synonym SymbolicBoundsMap = "(PtrSymbol \<times> ConstantRange) list"

record SIntDomain =
  numeric :: ConstantRange
  symbolics :: SymbolicBoundsMap
  unsignedFlag :: bool

fun map_emplace :: "PtrSymbol \<Rightarrow> ConstantRange \<Rightarrow> SymbolicBoundsMap \<Rightarrow> SymbolicBoundsMap" where
  "map_emplace k v [] = [(k, v)]"
| "map_emplace k v ((k', v') # m) =
     (if k < k' then (k, v) # (k', v') # m
      else if k' < k then (k', v') # map_emplace k v m
      else (k', v') # m)"

subsection \<open>Construction and tests\<close>

definition SD_numeric :: "ConstantRange \<Rightarrow> bool \<Rightarrow> SIntDomain" where
  "SD_numeric n isUnsigned = \<lparr>numeric = n, symbolics = [], unsignedFlag = isUnsigned\<rparr>"

definition SD_symbolics :: "ConstantRange \<Rightarrow> SymbolicBoundsMap \<Rightarrow> bool \<Rightarrow> SIntDomain" where
  "SD_symbolics n m isUnsigned = \<lparr>numeric = n, symbolics = m, unsignedFlag = isUnsigned\<rparr>"

definition IsUnsignedInteger :: "IntTypeKind \<Rightarrow> bool" where
  "IsUnsignedInteger k \<longleftrightarrow> k \<in> {TYPE_UINT8, TYPE_UINT16, TYPE_UINT32, TYPE_UINT64, TYPE_UINT_NATIVE}"

definition SD_symbol :: "ConstantRange \<Rightarrow> PtrSymbol \<Rightarrow> IntTypeKind \<Rightarrow> ConstantRange \<Rightarrow> SIntDomain" where
  "SD_symbol n symbol symbolType bound =
     \<lparr>numeric = n, symbolics = map_emplace symbol bound [], unsignedFlag = IsUnsignedInteger symbolType\<rparr>"

definition SD_IsTop :: "SIntDomain \<Rightarrow> bool" where
  "SD_IsTop d \<longleftrightarrow> CR_IsFullSet (numeric d) \<and> symbolics d = []"

definition SD_IsNonTrivial :: "SIntDomain \<Rightarrow> bool" where
  "SD_IsNonTrivial d \<longleftrightarrow> \<not> SD_IsTop d"

definition SD_IsBottom :: "SIntDomain \<Rightarrow> bool" where
  "SD_IsBottom d \<longleftrightarrow> CR_IsEmptySet (numeric d)"

definition SD_Width :: "SIntDomain \<Rightarrow> IntWidth" where
  "SD_Width d = CR_Width (numeric d)"

definition SD_IsSingleValue :: "SIntDomain \<Rightarrow> bool" where
  "SD_IsSingleValue d \<longleftrightarrow> CR_IsSingleElement (numeric d)"

definition SD_IsSame :: "SIntDomain \<Rightarrow> SIntDomain \<Rightarrow> bool" where
  "SD_IsSame d domain \<longleftrightarrow> CR_eq (numeric d) (numeric domain)"

definition FindSymbolicBound :: "SIntDomain \<Rightarrow> PtrSymbol \<Rightarrow> ConstantRange option" where
  "FindSymbolicBound d symbol = map_of (symbolics d) symbol"

definition SD_Top :: "IntWidth \<Rightarrow> bool \<Rightarrow> SIntDomain" where
  "SD_Top w isUnsigned = SD_numeric (CR_Full w) isUnsigned"

definition SD_Bottom :: "IntWidth \<Rightarrow> bool \<Rightarrow> SIntDomain" where
  "SD_Bottom w isUnsigned = SD_numeric (CR_Empty w) isUnsigned"

definition ToWidth :: "IntTypeKind \<Rightarrow> IntWidth" where
  "ToWidth k =
     (case k of TYPE_INT8 \<Rightarrow> I8 | TYPE_UINT8 \<Rightarrow> I8
      | TYPE_INT16 \<Rightarrow> I16 | TYPE_UINT16 \<Rightarrow> I16
      | TYPE_INT32 \<Rightarrow> I32 | TYPE_UINT32 \<Rightarrow> I32
      | _ \<Rightarrow> I64)"

text \<open>An integer literal is its type and its 64 bits; its signed reading has the same bits.\<close>

definition SD_From :: "IntTypeKind \<Rightarrow> u64 \<Rightarrow> SIntDomain" where
  "SD_From ty v =
     (if \<not> IsUnsignedInteger ty then SD_numeric (CR_single (mkSInt (ToWidth ty) v)) False
      else SD_numeric (CR_single (mkSInt (ToWidth ty) v)) True)"

definition SD_FromNumeric :: "RelationalOperation \<Rightarrow> SInt \<Rightarrow> bool \<Rightarrow> SIntDomain" where
  "SD_FromNumeric rel value isUnsigned = SD_numeric (CR_From rel value (\<not> isUnsigned)) isUnsigned"

definition SD_FromSymbolic :: "RelationalOperation \<Rightarrow> PtrSymbol \<Rightarrow> IntWidth \<Rightarrow> bool \<Rightarrow> SIntDomain" where
  "SD_FromSymbolic rel symbol w isUnsigned =
     (let res = SD_numeric (CR_Full w) isUnsigned
      in if rel = NE then res
         else res\<lparr>symbolics := map_emplace symbol (CR_From rel (mkSInt w 0) (\<not> isUnsigned)) (symbolics res)\<rparr>)"

subsection \<open>Operators\<close>

datatype BinaryExprKind =
    B_ADD | B_SUB | B_MUL | B_DIV | B_MOD | B_EXP | B_LSHIFT | B_RSHIFT | B_BITAND | B_BITOR | B_BITXOR
  | B_LT | B_GT | B_LE | B_GE | B_EQUAL | B_NOTEQUAL | B_AND | B_OR

definition ToExprKind :: "BinaryExprKind \<Rightarrow> ExprKind" where
  "ToExprKind kind =
     (case kind of B_ADD \<Rightarrow> ADD | B_SUB \<Rightarrow> SUB | B_MUL \<Rightarrow> MUL | B_DIV \<Rightarrow> DIV | B_MOD \<Rightarrow> MOD | _ \<Rightarrow> OTHER_EXPR)"

text \<open>\<open>CJC_ABORT\<close> does nothing in a release build, so the default cases return.\<close>

definition RelFrom :: "BinaryExprKind \<Rightarrow> RelationalOperation" where
  "RelFrom op =
     (case op of B_EQUAL \<Rightarrow> EQ | B_LE \<Rightarrow> LE | B_LT \<Rightarrow> LT | B_GT \<Rightarrow> GT | B_GE \<Rightarrow> GE
      | B_NOTEQUAL \<Rightarrow> NE | _ \<Rightarrow> LE)"

definition SymbolicNeg :: "RelationalOperation \<Rightarrow> RelationalOperation" where
  "SymbolicNeg a = (case a of LT \<Rightarrow> GT | LE \<Rightarrow> GE | EQ \<Rightarrow> EQ | GE \<Rightarrow> LE | GT \<Rightarrow> LT | _ \<Rightarrow> NE)"

definition IsSaturating :: "OverflowStrategy \<Rightarrow> bool" where
  "IsSaturating ov \<longleftrightarrow> ov = SATURATING"

definition NumericBoundToSignedSymbolicBound :: "ConstantRange \<Rightarrow> bool \<Rightarrow> ConstantRange option" where
  "NumericBoundToSignedSymbolicBound origin isUnsigned =
     (if \<not> isUnsigned then Some origin
      else let res = NumericConversionU2SSameWidth origin
           in if CR_eq res origin then Some res else None)"

subsection \<open>Arithmetic\<close>

record CHIRArithmeticBinopArgs =
  ld :: SIntDomain
  rd :: SIntDomain
  arg_l :: PtrSymbol
  arg_r :: PtrSymbol
  arg_op :: BinaryExprKind
  arg_ov :: OverflowStrategy
  arg_uns :: bool
  l_type :: IntTypeKind

definition ComputeAdd :: "CHIRArithmeticBinopArgs \<Rightarrow> SIntDomain" where
  "ComputeAdd args =
     (let ln = numeric (ld args); rn = numeric (rd args); isUnsigned = arg_uns args;
          num = (if \<not> IsSaturating (arg_ov args) then CR_Add ln rn
                     else if isUnsigned then CR_UAddSat ln rn else CR_SAddSat ln rn)
      in if CR_IsEmptySet num \<or> arg_ov args \<noteq> THROWING then SD_numeric num isUnsigned
         else
           let mp = [];
               mp1 = (if \<not> CR_IsSingleElement ln \<and> CR_IsNonTrivial rn
                      then (case NumericBoundToSignedSymbolicBound rn isUnsigned of
                              Some b \<Rightarrow> map_emplace (arg_l args) b mp | None \<Rightarrow> mp)
                      else mp);
               mp2 = (if \<not> CR_IsSingleElement rn \<and> CR_IsNonTrivial ln
                      then (case NumericBoundToSignedSymbolicBound ln isUnsigned of
                              Some b \<Rightarrow> map_emplace (arg_r args) b mp1 | None \<Rightarrow> mp1)
                      else mp1)
           in SD_symbolics num mp2 isUnsigned)"

definition ComputeSub :: "CHIRArithmeticBinopArgs \<Rightarrow> SIntDomain" where
  "ComputeSub args =
     (let ln = numeric (ld args); rn = numeric (rd args);
          num = (if \<not> IsSaturating (arg_ov args) then CR_Sub ln rn
                     else if arg_uns args then CR_USubSat ln rn else CR_SSubSat ln rn)
      in if CR_IsEmptySet num \<or> arg_ov args \<noteq> THROWING then SD_numeric num (arg_uns args)
         else if \<not> CR_IsSingleElement ln \<and> CR_IsNonTrivial rn \<and>
             \<not> CR_eq rn (CR_single (SInt_SMinValue (CR_Width rn)))
           then SD_symbol num (arg_l args) (l_type args) (CR_Negate rn)
         else SD_numeric num (arg_uns args))"

definition ComputeMul :: "CHIRArithmeticBinopArgs \<Rightarrow> SIntDomain option" where
  "ComputeMul args =
     (let ln = numeric (ld args); rn = numeric (rd args); isUnsigned = arg_uns args
      in do {
        r \<leftarrow> (if \<not> IsSaturating (arg_ov args)
              then (if isUnsigned then Some (CR_UMul ln rn) else CR_SMul ln rn)
              else (if isUnsigned then Some (CR_UMulSat ln rn) else CR_SMulSat ln rn));
        Some (SD_numeric r (arg_uns args))
      })"

definition ComputeDiv :: "CHIRArithmeticBinopArgs \<Rightarrow> SIntDomain option" where
  "ComputeDiv args =
     (let ln = numeric (ld args); rn = numeric (rd args)
      in if CR_Contains rn (SInt_Zero (CR_Width rn)) then Some (SD_numeric (CR_Full (CR_Width ln)) (arg_uns args))
         else do {
           r \<leftarrow> (if arg_uns args then CR_UDiv ln rn
                 else if IsSaturating (arg_ov args) then CR_SDivSat ln rn else CR_SDiv ln rn);
           Some (SD_numeric r (arg_uns args))
         })"

definition ComputeMod :: "CHIRArithmeticBinopArgs \<Rightarrow> SIntDomain option" where
  "ComputeMod args =
     (let ln = numeric (ld args); rn = numeric (rd args)
      in if arg_uns args then do { r \<leftarrow> CR_URem ln rn; Some (SD_numeric r True) }
         else do { r \<leftarrow> CR_SRem ln rn; Some (SD_numeric r False) })"

definition ComputeArithmeticBinop :: "CHIRArithmeticBinopArgs \<Rightarrow> SIntDomain option" where
  "ComputeArithmeticBinop args =
     (case arg_op args of
        B_ADD \<Rightarrow> Some (ComputeAdd args)
      | B_SUB \<Rightarrow> Some (ComputeSub args)
      | B_MUL \<Rightarrow> ComputeMul args
      | B_DIV \<Rightarrow> ComputeDiv args
      | B_MOD \<Rightarrow> ComputeMod args
      | _ \<Rightarrow> Some (SD_numeric (CR_single (mkSInt (ToWidth (l_type args)) 0)) (arg_uns args)))"

subsection \<open>Comparison of ranges\<close>

datatype CompareResult = UNO | CTRUE | CFALSE

definition ToBool :: "CompareResult \<Rightarrow> bool" where
  "ToBool r \<longleftrightarrow> r = CTRUE"

definition NegResult :: "CompareResult \<Rightarrow> CompareResult" where
  "NegResult a = (case a of UNO \<Rightarrow> UNO | CTRUE \<Rightarrow> CFALSE | _ \<Rightarrow> CTRUE)"

definition Unless :: "bool \<Rightarrow> CompareResult" where
  "Unless exp = (if exp then CTRUE else UNO)"

definition Lt :: "ConstantRange \<Rightarrow> ConstantRange \<Rightarrow> bool \<Rightarrow> CompareResult" where
  "Lt a b isUnsigned =
     Unless (if isUnsigned then SInt_Ult (CR_UMaxValue a) (CR_UMinValue b) else SInt_Slt (CR_SMaxValue a) (CR_SMinValue b))"

definition Le :: "ConstantRange \<Rightarrow> ConstantRange \<Rightarrow> bool \<Rightarrow> CompareResult" where
  "Le a b isUnsigned =
     Unless (if isUnsigned then SInt_Ule (CR_UMaxValue a) (CR_UMinValue b) else SInt_Sle (CR_SMaxValue a) (CR_SMinValue b))"

definition Ge :: "ConstantRange \<Rightarrow> ConstantRange \<Rightarrow> bool \<Rightarrow> CompareResult" where
  "Ge a b isUnsigned =
     Unless (if isUnsigned then SInt_Uge (CR_UMinValue a) (CR_UMaxValue b) else SInt_Sge (CR_SMinValue a) (CR_SMaxValue b))"

definition Gt :: "ConstantRange \<Rightarrow> ConstantRange \<Rightarrow> bool \<Rightarrow> CompareResult" where
  "Gt a b isUnsigned =
     Unless (if isUnsigned then SInt_Ugt (CR_UMinValue a) (CR_UMaxValue b) else SInt_Sgt (CR_SMinValue a) (CR_SMaxValue b))"

definition UnlessBothUnordered :: "CompareResult \<Rightarrow> CompareResult \<Rightarrow> CompareResult" where
  "UnlessBothUnordered a b = (if a \<noteq> UNO then a else b)"

definition NegRel :: "RelationalOperation \<Rightarrow> RelationalOperation" where
  "NegRel a = (case a of LT \<Rightarrow> GE | LE \<Rightarrow> GT | EQ \<Rightarrow> NE | GE \<Rightarrow> LT | GT \<Rightarrow> LE | _ \<Rightarrow> EQ)"

definition PartialCompare :: "RelationalOperation \<Rightarrow> ConstantRange \<Rightarrow> ConstantRange \<Rightarrow> bool \<Rightarrow> CompareResult" where
  "PartialCompare compare a b isUnsigned =
     (if isUnsigned \<and> (CR_IsWrappedSet a \<or> CR_IsWrappedSet b) then UNO
      else if \<not> isUnsigned \<and> (CR_IsSignWrappedSet a \<or> CR_IsSignWrappedSet b) then UNO
      else
        (case compare of
           LE \<Rightarrow> Le a b isUnsigned
         | LT \<Rightarrow> Lt a b isUnsigned
         | GT \<Rightarrow> Gt a b isUnsigned
         | GE \<Rightarrow> Ge a b isUnsigned
         | _ \<Rightarrow> CFALSE))"

definition IsUnsignedCompareToZero :: "ConstantRange \<Rightarrow> bool" where
  "IsUnsignedCompareToZero a \<longleftrightarrow>
     (if CR_IsSingleElement a \<and> SInt_eq_u64 (CR_GetSingleElement a) 0 then True else False)"

definition Compare :: "RelationalOperation \<Rightarrow> ConstantRange \<Rightarrow> ConstantRange \<Rightarrow> bool \<Rightarrow> CompareResult" where
  "Compare compare a b isUnsigned =
     (if CR_IsEmptySet a \<or> CR_IsEmptySet b then UNO
      else if (CR_IsFullSet a \<and> \<not> IsUnsignedCompareToZero b) \<or> (CR_IsFullSet b \<and> \<not> IsUnsignedCompareToZero a) then UNO
      else UnlessBothUnordered (PartialCompare compare a b isUnsigned)
             (NegResult (PartialCompare (NegRel compare) a b isUnsigned)))"

subsection \<open>Comparison of abstract integers\<close>

record CHIRRelIntBinopArgs =
  rel_ld :: SIntDomain
  rel_rd :: SIntDomain
  rel_l :: PtrSymbol
  rel_r :: PtrSymbol
  rel_op :: BinaryExprKind
  rel_uns :: bool

fun CompareTransitiveOrder :: "RelationalOperation \<Rightarrow> SymbolicBoundsMap \<Rightarrow> SymbolicBoundsMap \<Rightarrow> BoolDomain" where
  "CompareTransitiveOrder op ((sa, ra) # ia) ((sb, rb) # ib) =
     (if sa < sb then CompareTransitiveOrder op ia ((sb, rb) # ib)
      else if sb < sa then CompareTransitiveOrder op ((sa, ra) # ia) ib
      else
        let r = Compare op ra rb False
        in if r \<noteq> UNO then BD_FromBool (ToBool r) else CompareTransitiveOrder op ia ib)"
| "CompareTransitiveOrder op _ _ = BD_Top"

definition ComputeTotalOrderingIntBinop :: "CHIRRelIntBinopArgs \<Rightarrow> BoolDomain" where
  "ComputeTotalOrderingIntBinop args =
     (let a = rel_l args; b = rel_r args; op = RelFrom (rel_op args); uns = rel_uns args;
          ia = rel_ld args; ib = rel_rd args
      in if SD_IsBottom ia \<or> SD_IsBottom ib then BD_Bottom
         else
           let zero = CR_single (mkSInt (SD_Width ia) 0); r = Compare op (numeric ia) (numeric ib) uns
           in if r \<noteq> UNO then BD_FromBool (ToBool r)
              else
                let r1 = (case FindSymbolicBound ia b of Some ibs \<Rightarrow> Compare op ibs zero False | None \<Rightarrow> UNO)
                in if r1 \<noteq> UNO then BD_FromBool (ToBool r1)
                   else
                     let r2 = (case FindSymbolicBound ib a of
                                 Some ias \<Rightarrow> Compare (SymbolicNeg op) ias zero False | None \<Rightarrow> UNO)
                     in if r2 \<noteq> UNO then BD_FromBool (ToBool r2)
                        else CompareTransitiveOrder op (symbolics ia) (symbolics ib))"

fun CompareTransitiveEquality :: "SymbolicBoundsMap \<Rightarrow> SymbolicBoundsMap \<Rightarrow> bool \<Rightarrow> BoolDomain" where
  "CompareTransitiveEquality ((ka, sa) # ia) ((kb, sb) # ib) cne =
     (if ka < kb then CompareTransitiveEquality ia ((kb, sb) # ib) cne
      else if kb < ka then CompareTransitiveEquality ((ka, sa) # ia) ib cne
      else if CR_IsSingleElement sa \<and> CR_IsSingleElement sb then
        BD_FromBool (SInt_eq (CR_GetSingleElement sa) (CR_GetSingleElement sb) \<noteq> cne)
      else if CR_IsEmptySet (CR_IntersectWith sa sb Signed) then BD_FromBool cne
      else CompareTransitiveEquality ia ib cne)"
| "CompareTransitiveEquality _ _ cne = BD_Top"

definition ComputeEqualityIntBinop ::
    "SIntDomain \<Rightarrow> SIntDomain \<Rightarrow> PtrSymbol \<Rightarrow> PtrSymbol \<Rightarrow> bool \<Rightarrow> BoolDomain" where
  "ComputeEqualityIntBinop ia ib a b cne =
     (if SD_IsBottom ia \<or> SD_IsBottom ib then BD_Bottom
      else if CR_IsSingleElement (numeric ia) \<and> CR_IsSingleElement (numeric ib) then
        let v1 = CR_GetSingleElement (numeric ia); v2 = CR_GetSingleElement (numeric ib)
        in BD_FromBool (SInt_eq v1 v2 \<noteq> cne)
      else if CR_IsEmptySet (CR_IntersectWith (numeric ia) (numeric ib) (PreferFromBool (unsignedFlag ia)))
        then BD_FromBool cne
      else
        let againstB = (case FindSymbolicBound ia b of
              Some ibs \<Rightarrow>
                if CR_IsSingleElement ibs then
                  (if CR_IsSingleElement ibs then Some (BD_FromBool (SInt_eq_u64 (CR_GetSingleElement ibs) 0 \<noteq> cne))
                   else if \<not> CR_Contains ibs (SInt_Zero (SD_Width ia)) then Some (BD_FromBool cne)
                   else None)
                else None
            | None \<Rightarrow> None);
            againstA = (case FindSymbolicBound ib a of
              Some ias \<Rightarrow>
                if CR_IsSingleElement ias then Some (BD_FromBool (SInt_eq_u64 (CR_GetSingleElement ias) 0 \<noteq> cne))
                else if \<not> CR_Contains ias (SInt_Zero (SD_Width ia)) then Some (BD_FromBool cne)
                else None
            | None \<Rightarrow> None)
        in (case againstB of Some r \<Rightarrow> r
            | None \<Rightarrow>
              (case againstA of Some r \<Rightarrow> r
               | None \<Rightarrow>
                 let transitiveRes = CompareTransitiveEquality (symbolics ia) (symbolics ib) cne
                 in if BD_IsNonTrivial transitiveRes then transitiveRes else BD_Top)))"

definition TrueOnSameSymbol :: "BinaryExprKind \<Rightarrow> bool" where
  "TrueOnSameSymbol op \<longleftrightarrow> op = B_EQUAL \<or> op = B_LE \<or> op = B_GE"

definition ComputeRelIntBinop :: "CHIRRelIntBinopArgs \<Rightarrow> BoolDomain" where
  "ComputeRelIntBinop args =
     (if rel_l args = rel_r args then BD_FromBool (TrueOnSameSymbol (rel_op args))
      else
        let op = RelFrom (rel_op args)
        in if op = EQ \<or> op = NE then
             ComputeEqualityIntBinop (rel_ld args) (rel_rd args) (rel_l args) (rel_r args) (rel_op args = B_NOTEQUAL)
           else ComputeTotalOrderingIntBinop args)"

definition ComputeEqualityBoolBinop :: "BoolDomain \<Rightarrow> BoolDomain \<Rightarrow> BinaryExprKind \<Rightarrow> BoolDomain" where
  "ComputeEqualityBoolBinop l r op =
     (if BD_IsBottom l \<or> BD_IsBottom r then BD_Bottom
      else if BD_IsSingleValue l \<and> BD_IsSingleValue r then
        BD_FromBool ((BD_GetSingleValue l = BD_GetSingleValue r) \<noteq> (op = B_NOTEQUAL))
      else BD_Top)"

subsection \<open>Intersection and union\<close>

type_synonym OptionalMergeFun = "ConstantRange option \<Rightarrow> ConstantRange option \<Rightarrow> ConstantRange option"

text \<open>
  A merge function gets a missing bound as the null pointer. Both functions read through the
  other pointer then, so two null pointers, which no call has, are undefined.
\<close>

definition ConjunctionInternalMergeFun :: OptionalMergeFun where
  "ConjunctionInternalMergeFun a b =
     (case a of None \<Rightarrow> b | Some x \<Rightarrow> (case b of None \<Rightarrow> a | Some y \<Rightarrow> Some (CR_IntersectWith x y Smallest)))"

definition DisjunctionInternalMergeFun :: OptionalMergeFun where
  "DisjunctionInternalMergeFun a b =
     (case a of None \<Rightarrow> map_option (\<lambda>y. CR_Full (CR_Width y)) b
      | Some x \<Rightarrow> (case b of None \<Rightarrow> Some (CR_Full (CR_Width x)) | Some y \<Rightarrow> Some (CR_UnionWith x y Smallest)))"

fun MergeSymbolicRanges :: "OptionalMergeFun \<Rightarrow> SymbolicBoundsMap \<Rightarrow> SymbolicBoundsMap \<Rightarrow> SymbolicBoundsMap option" where
  "MergeSymbolicRanges f ((sa, ra) # ia) ((sb, rb) # ib) =
     (if sa < sb then do { r \<leftarrow> f (Some ra) None; rest \<leftarrow> MergeSymbolicRanges f ia ((sb, rb) # ib); Some ((sa, r) # rest) }
      else if sb < sa then do { r \<leftarrow> f None (Some rb); rest \<leftarrow> MergeSymbolicRanges f ((sa, ra) # ia) ib; Some ((sb, r) # rest) }
      else do { r \<leftarrow> f (Some ra) (Some rb); rest \<leftarrow> MergeSymbolicRanges f ia ib; Some ((sa, r) # rest) })"
| "MergeSymbolicRanges f ((sa, ra) # ia) [] =
     do { r \<leftarrow> f (Some ra) None; rest \<leftarrow> MergeSymbolicRanges f ia []; Some ((sa, r) # rest) }"
| "MergeSymbolicRanges f [] ((sb, rb) # ib) =
     do { r \<leftarrow> f None (Some rb); rest \<leftarrow> MergeSymbolicRanges f [] ib; Some ((sb, r) # rest) }"
| "MergeSymbolicRanges f [] [] = Some []"

fun CollectBounds :: "SymbolicBoundsMap \<Rightarrow> SymbolicBoundsMap \<Rightarrow> SymbolicBoundsMap option" where
  "CollectBounds [] m = Some m"
| "CollectBounds ((symbol, bound) # ts) m =
     (if CR_IsEmptySet bound then None
      else CollectBounds ts (if CR_IsNonTrivial bound then map_emplace symbol bound m else m))"

definition MergeRangesForLogicalOperation :: "SIntDomain \<Rightarrow> SIntDomain \<Rightarrow> OptionalMergeFun \<Rightarrow> SIntDomain option" where
  "MergeRangesForLogicalOperation a b mergeFunc =
     do {
       n \<leftarrow> mergeFunc (Some (numeric a)) (Some (numeric b));
       if CR_IsEmptySet n then Some (SD_Bottom (SD_Width a) (unsignedFlag a))
       else do {
         mergeTmps \<leftarrow> MergeSymbolicRanges mergeFunc (symbolics a) (symbolics b);
         (case CollectBounds mergeTmps [] of
            None \<Rightarrow> Some (SD_Bottom (SD_Width a) (unsignedFlag a))
          | Some m \<Rightarrow> Some (SD_symbolics n m (unsignedFlag a)))
       }
     }"

definition SD_Intersects :: "SIntDomain \<Rightarrow> SIntDomain \<Rightarrow> SIntDomain option" where
  "SD_Intersects lhs rhs = MergeRangesForLogicalOperation lhs rhs ConjunctionInternalMergeFun"

definition SD_Unions :: "SIntDomain \<Rightarrow> SIntDomain \<Rightarrow> SIntDomain option" where
  "SD_Unions lhs rhs = MergeRangesForLogicalOperation lhs rhs DisjunctionInternalMergeFun"

subsection \<open>Casts\<close>

definition ComputeTypeCastNumericBound :: "SIntDomain \<Rightarrow> IntWidth \<Rightarrow> bool \<Rightarrow> OverflowStrategy \<Rightarrow> ConstantRange" where
  "ComputeTypeCastNumericBound v dstSize dstUnsigned ov =
     (if SD_IsBottom v then CR_Empty dstSize
      else NumericConversion (numeric v) dstSize (unsignedFlag v) dstUnsigned ov)"

end
