(* ===== verification/SIntDom.thy ===== *)
theory SIntDom
  imports NumConv SIntDomDefs
begin

section \<open>Soundness of the arithmetic of abstract integers\<close>

text \<open>
  An abstract integer stands, under an assignment of numbers to the values of the function,
  for the elements of its numeric range that keep every symbolic bound: the difference to the
  other value, as an integer and not modulo the width, is in the bound read as signed
  (\<open>SD_gamma\<close>). The arithmetic is compared with the overflow checker: \<open>evaluates\<close> holds if
  the checker lets the operation through and delivers the result.
\<close>

type_synonym env = "PtrSymbol \<Rightarrow> SInt"

definition bound_holds :: "bool \<Rightarrow> env \<Rightarrow> SInt \<Rightarrow> PtrSymbol \<Rightarrow> ConstantRange \<Rightarrow> bool" where
  "bound_holds u \<rho> x s R \<longleftrightarrow> (\<exists>d \<in> elems R. ival (\<not> u) x = ival (\<not> u) (\<rho> s) + sval d)"

definition bounds_hold :: "bool \<Rightarrow> env \<Rightarrow> SInt \<Rightarrow> SymbolicBoundsMap \<Rightarrow> bool" where
  "bounds_hold u \<rho> x m \<longleftrightarrow> (\<forall>(s, R) \<in> set m. bound_holds u \<rho> x s R)"

definition bounds_ok :: "IntWidth \<Rightarrow> SymbolicBoundsMap \<Rightarrow> bool" where
  "bounds_ok w m \<longleftrightarrow> sorted_wrt (<) (map fst m) \<and> (\<forall>R \<in> snd ` set m. cr_ok R \<and> width (lower R) = w)"

definition SD_ok :: "SIntDomain \<Rightarrow> bool" where
  "SD_ok d \<longleftrightarrow> cr_ok (numeric d) \<and> bounds_ok (SD_Width d) (symbolics d)"

definition SD_gamma :: "bool \<Rightarrow> env \<Rightarrow> SIntDomain \<Rightarrow> SInt set" where
  "SD_gamma u \<rho> d = {x \<in> elems (numeric d). bounds_hold u \<rho> x (symbolics d)}"

lemma map_emplace_set: "set (map_emplace k v m) \<subseteq> insert (k, v) (set m)" "set m \<subseteq> set (map_emplace k v m)"
  by (induction k v m rule: map_emplace.induct) auto

lemma map_emplace_sorted: "sorted_wrt (<) (map fst m) \<Longrightarrow> sorted_wrt (<) (map fst (map_emplace k v m))"
proof (induction k v m rule: map_emplace.induct)
  case (2 k v k' v' m)
  have "\<forall>x \<in> fst ` set (map_emplace k v m). k' < x" if "k' < k"
    using that 2(2) map_emplace_set(1) [of k v m] by fastforce
  then show ?case using 2 by auto
qed simp

lemma map_emplace_find:
  "sorted_wrt (<) (map fst m) \<Longrightarrow>
    map_of (map_emplace k v m) = (case map_of m k of None \<Rightarrow> (map_of m)(k \<mapsto> v) | Some _ \<Rightarrow> map_of m)"
proof (induction k v m rule: map_emplace.induct)
  case (2 k v k' v' m)
  have "map_of m k = None" if "k < k'"
    using that 2(2) by (auto simp: map_of_eq_None_iff dest: less_trans)
  then show ?case using 2 by (auto simp: fun_eq_iff split: option.splits)
qed auto

lemma bounds_emplace:
  "bounds_ok w m \<Longrightarrow> cr_ok R \<Longrightarrow> width (lower R) = w \<Longrightarrow> bounds_ok w (map_emplace s R m)"
  "bounds_hold u \<rho> x m \<Longrightarrow> bound_holds u \<rho> x s R \<Longrightarrow> bounds_hold u \<rho> x (map_emplace s R m)"
  using map_emplace_set(1) [of s R m] map_emplace_sorted [of m s R]
  by (fastforce simp: bounds_ok_def bounds_hold_def)+

lemma bounds_Nil [simp]: "bounds_ok w []" "bounds_hold u \<rho> x []"
  by (simp_all add: bounds_ok_def bounds_hold_def)

lemma SD_gammaI: "x \<in> elems (numeric d) \<Longrightarrow> bounds_hold u \<rho> x (symbolics d) \<Longrightarrow> x \<in> SD_gamma u \<rho> d"
  by (simp add: SD_gamma_def)

lemma SD_gammaD:
  assumes "x \<in> SD_gamma u \<rho> d"
  shows "x \<in> elems (numeric d)" "bounds_hold u \<rho> x (symbolics d)"
  using assms by (simp_all add: SD_gamma_def)

lemma SD_simps [simp]:
  "numeric (SD_numeric n u) = n" "symbolics (SD_numeric n u) = []" "unsignedFlag (SD_numeric n u) = u"
  "numeric (SD_symbolics n m u) = n" "symbolics (SD_symbolics n m u) = m" "unsignedFlag (SD_symbolics n m u) = u"
  "numeric (SD_symbol n s t R) = n" "symbolics (SD_symbol n s t R) = [(s, R)]"
  "unsignedFlag (SD_symbol n s t R) = IsUnsignedInteger t"
  by (simp_all add: SD_numeric_def SD_symbolics_def SD_symbol_def)

lemma SD_numeric_gamma [simp]: "SD_gamma u \<rho> (SD_numeric n v) = elems n" "SD_ok (SD_numeric n v) \<longleftrightarrow> cr_ok n"
  by (simp_all add: SD_gamma_def SD_ok_def)

subsection \<open>What the overflow checker delivers\<close>

definition evaluates :: "bool \<Rightarrow> OverflowStrategy \<Rightarrow> ExprKind \<Rightarrow> SInt \<Rightarrow> SInt \<Rightarrow> SInt \<Rightarrow> bool" where
  "evaluates u ov kind x y z \<longleftrightarrow>
     (\<exists>ovf n. IsOverflow (ity (width x) u) (ival (\<not> u) x) (ival (\<not> u) y) kind ov = Some (ovf, n) \<and>
        (ov = THROWING \<longrightarrow> \<not> ovf) \<and> z = number (width x) n)"

lemma in_type_ival: "sint_ok x \<Longrightarrow> in_type (ity (width x) u) (ival (\<not> u) x)"
  using ival_range [of x "\<not> u"] by (simp add: in_type_ity fits_def)

lemma ity_width [simp]: "ci_width (ity w u) = w"
  by (simp add: ity_def)

lemma evaluates_ring:
  assumes "evaluates u ov kind x y z" "same x y" "kind = ADD \<or> kind = SUB \<or> kind = MUL"
  defines "e \<equiv> exact kind (ival (\<not> u) x) (ival (\<not> u) y)"
  shows "z = number (width x) (if ov = SATURATING then clamp (ity (width x) u) e else e)"
    "ov = THROWING \<Longrightarrow> ival (\<not> u) z = e"
proof -
  let ?t = "ity (width x) u"
  have i: "in_type ?t (ival (\<not> u) x)" "in_type ?t (ival (\<not> u) y)"
    using assms(2) in_type_ival [of x u] in_type_ival [of y u] by (auto simp: same_def)
  have "IsOverflow ?t (ival (\<not> u) x) (ival (\<not> u) y) kind ov = Some (deliver ?t ov e)"
    using IsOverflow_eq [OF i, of kind ov] assms(3) unfolding e_def by auto
  then have d: "z = number (width x) (snd (deliver ?t ov e))" "ov = THROWING \<longrightarrow> in_type ?t e"
    using assms(1) by (auto simp: evaluates_def deliver_def)
  show "z = number (width x) (if ov = SATURATING then clamp ?t e else e)"
    using d(1) by (simp add: deliver_def number_cast)
  assume "ov = THROWING"
  then show "ival (\<not> u) z = e"
    using d by (auto simp: deliver_def number_cast in_type_ity fits_def intro!: ival_number)
qed

lemma number_ring:
  assumes "same x y"
  shows "number (width x) (ival s x + ival s y) = SInt_add x y"
    "number (width x) (ival s x - ival s y) = SInt_sub x y"
    "number (width x) (ival s x * ival s y) = SInt_mul x y"
  using assms sval_arith_mod [OF assms] SInt_ring_sem(1-3) [of x y]
  by (cases s; simp add: SInt_eq_iff ival_def same_def)+

lemma clamp_ity: "clamp (ity w False) n = sclamp w n" "clamp (ity w True) n = uclamp w n"
  using half_ge [of w] modulus_half [of w]
  by (auto simp: clamp_def limits_ity imin_def imax_def sclamp_def uclamp_def)


lemma number_sat:
  assumes "same x y"
  defines "w \<equiv> width x"
  shows "number w (clamp (ity w False) (sval x + sval y)) = SInt_SAddSat x y"
    "number w (clamp (ity w False) (sval x - sval y)) = SInt_SSubSat x y"
    "number w (clamp (ity w True) (uval x + uval y)) = SInt_UAddSat x y"
    "number w (clamp (ity w True) (uval x - uval y)) = SInt_USubSat x y"
    "number w (clamp (ity w True) (uval x * uval y)) = SInt_UMulSat x y"
    "Some (number w (clamp (ity w False) (sval x * sval y))) = SInt_SMulSat x y"
proof -
  note wf = SInt_addsub_sat_wf SInt_UMulSat_wf [OF assms(1)]
  note s = SInt_addsub_sat_sem [OF assms(1)] SInt_UMulSat_sem [OF assms(1)]
  show "number w (clamp (ity w False) (sval x + sval y)) = SInt_SAddSat x y"
    "number w (clamp (ity w False) (sval x - sval y)) = SInt_SSubSat x y"
    using wf s number_ival [of "SInt_SAddSat x y" True] number_ival [of "SInt_SSubSat x y" True]
    by (simp_all add: ival_def clamp_ity w_def)
  show "number w (clamp (ity w True) (uval x + uval y)) = SInt_UAddSat x y"
    "number w (clamp (ity w True) (uval x - uval y)) = SInt_USubSat x y"
    "number w (clamp (ity w True) (uval x * uval y)) = SInt_UMulSat x y"
    using wf s number_ival [of "SInt_UAddSat x y" False] number_ival [of "SInt_USubSat x y" False]
      number_ival [of "SInt_UMulSat x y" False]
    by (simp_all add: ival_def clamp_ity w_def)
  show "Some (number w (clamp (ity w False) (sval x * sval y))) = SInt_SMulSat x y"
    using SInt_SMulSat_sem [OF assms(1)] number_ival [of "the (SInt_SMulSat x y)" True]
    by (auto simp: ival_def clamp_ity w_def)
qed

lemma sat_ok:
  assumes "cr_same r s" "x \<in> elems r" "y \<in> elems s"
  shows "cr_ok (CR_UAddSat r s)" "cr_ok (CR_SAddSat r s)" "cr_ok (CR_USubSat r s)" "cr_ok (CR_SSubSat r s)"
    "cr_ok (CR_UMulSat r s)" "cr_ok (CR_UMul r s)"
proof -
  note d = cr_sameD [OF assms(1)] note m = CR_minmax_same [OF assms]
  note ne = CR_nonempty [OF d(1) assms(2)] CR_nonempty [OF d(2) assms(3)]
  show "cr_ok (CR_UAddSat r s)" "cr_ok (CR_SAddSat r s)" "cr_ok (CR_USubSat r s)" "cr_ok (CR_SSubSat r s)"
    "cr_ok (CR_UMulSat r s)"
    using ne m d SInt_UMulSat_wf [OF m(1)] SInt_UMulSat_wf [OF m(2)]
    by (simp_all add: CR_UAddSat_def CR_SAddSat_def CR_USubSat_def CR_SSubSat_def CR_UMulSat_def range_wf same_def)
  show "cr_ok (CR_UMul r s)"
    using ne m d SInt_UMulOvf_sem(1) [OF m(1)] SInt_UMulOvf_sem(1) [OF m(2)]
    by (simp add: CR_UMul_def Let_def case_prod_unfold range_wf same_def)
qed

lemma add_numeric:
  assumes "cr_same r s" "x \<in> elems r" "y \<in> elems s" "evaluates u ov ADD x y z"
  defines "t \<equiv> if \<not> IsSaturating ov then CR_Add r s else if u then CR_UAddSat r s else CR_SAddSat r s"
  shows "z \<in> elems t" "cr_ok t"
proof -
  have xy: "same x y" using CR_minmax_same [OF assms(1-3)] by simp
  note e = evaluates_ring(1) [OF assms(4) xy] number_ring(1) [OF xy, of "\<not> u"] number_sat(1,3) [OF xy]
  show "z \<in> elems t" "cr_ok t"
    using e CR_Add_ok_sound(1,3) [OF assms(1)] assms(2,3) CR_UAddSat_sound [OF assms(1-3)]
      CR_SAddSat_sound [OF assms(1-3)] sat_ok(1,2) [OF assms(1-3)]
    by (auto simp: t_def IsSaturating_def exact_def ival_def split: if_splits)
qed

lemma sub_numeric:
  assumes "cr_same r s" "x \<in> elems r" "y \<in> elems s" "evaluates u ov SUB x y z"
  defines "t \<equiv> if \<not> IsSaturating ov then CR_Sub r s else if u then CR_USubSat r s else CR_SSubSat r s"
  shows "z \<in> elems t" "cr_ok t"
proof -
  have xy: "same x y" using CR_minmax_same [OF assms(1-3)] by simp
  note e = evaluates_ring(1) [OF assms(4) xy] number_ring(2) [OF xy, of "\<not> u"] number_sat(2,4) [OF xy]
  show "z \<in> elems t" "cr_ok t"
    using e CR_Sub_ok_sound(1,3) [OF assms(1)] assms(2,3) CR_USubSat_sound [OF assms(1-3)]
      CR_SSubSat_sound [OF assms(1-3)] sat_ok(3,4) [OF assms(1-3)]
    by (auto simp: t_def IsSaturating_def exact_def ival_def split: if_splits)
qed

lemma mul_numeric:
  assumes "cr_same r s" "x \<in> elems r" "y \<in> elems s" "evaluates u ov MUL x y z"
  shows "\<exists>t. (if \<not> IsSaturating ov then (if u then Some (CR_UMul r s) else CR_SMul r s)
      else (if u then Some (CR_UMulSat r s) else CR_SMulSat r s)) = Some t \<and> z \<in> elems t \<and> cr_ok t"
proof -
  have xy: "same x y" using CR_minmax_same [OF assms(1-3)] by simp
  note e = evaluates_ring(1) [OF assms(4) xy] number_ring(3) [OF xy, of "\<not> u"] number_sat(5,6) [OF xy]
  show ?thesis
    using e CR_UMul_sound [OF assms(1-3)] CR_SMul_sound [OF assms(1-3)] CR_SMul_total [OF assms(1)]
      CR_UMulSat_sound [OF assms(1-3)] CR_SMulSat_sound [OF assms(1-3)] sat_ok(5,6) [OF assms(1-3)]
    by (auto simp: IsSaturating_def exact_def ival_def split: if_splits)
qed

subsection \<open>Symbolic bounds of unsigned ranges\<close>

text \<open>
  The conversion of an unsigned range to a signed one of the same width throws away the
  numbers from \<open>half\<close> on, and never brings one back: a range that it does not change has none.
\<close>

definition low_half :: "ConstantRange \<Rightarrow> bool" where
  "low_half r \<longleftrightarrow> cr_ok r \<and> (\<forall>x \<in> elems r. uval x < half (width (lower r)))"

lemma low_half_iff:
  assumes "cr_ok r"
  shows "low_half r \<longleftrightarrow> CR_IsEmptySet r \<or> lo r < up r \<and> up r \<le> half (width (lower r))"
proof
  note d = cr_okD [OF assms]
  let ?w = "width (lower r)"
  have mem: "n mod modulus ?w = n \<Longrightarrow> arc (lo r) (up r) n \<Longrightarrow> number ?w n \<in> elems r" for n
    by (simp add: elems_iff [OF assms])
  assume l: "low_half r"
  show "CR_IsEmptySet r \<or> lo r < up r \<and> up r \<le> half ?w"
  proof (rule disjCI)
    assume ne: "\<not> (lo r < up r \<and> up r \<le> half ?w)"
    have big: "n < half ?w" if "0 \<le> n" "n < modulus ?w" "arc (lo r) (up r) n" for n
      using l mem [of n] that by (auto simp: low_half_def dest!: bspec)
    show "CR_IsEmptySet r"
      using ne big [of "up r - 1"] big [of "modulus ?w - 1"] big [of "lo r"] d half_ge [of ?w]
        uval_nonneg [of "lower r"] uval_nonneg [of "upper r"]
      by (cases "lo r = up r"; cases "lo r < up r") (auto simp: CR_tests_sem [OF assms] arc_def modulus_half)
  qed
next
  assume "CR_IsEmptySet r \<or> lo r < up r \<and> up r \<le> half (width (lower r))"
  then show "low_half r"
    using assms by (auto simp: low_half_def elems_iff CR_tests_sem [OF assms] arc_def)
qed

lemma union_low_half:
  assumes "cr_same r s" "low_half r" "low_half s"
  shows "low_half (CR_UnionWith r s Signed)"
proof -
  note d = cr_sameD [OF assms(1)]
  note t = CR_tests_sem [OF d(1)] CR_tests_sem [OF d(2)]
  show ?thesis
  proof (cases "CR_IsEmptySet r \<or> CR_IsEmptySet s")
    case True
    then show ?thesis using assms t by (subst CR_UnionWith.simps) auto
  next
    case False
    then have b: "lo r < up r" "up r \<le> half (width (lower r))" "lo s < up s" "up s \<le> half (width (lower r))"
      using assms low_half_iff [OF d(1)] low_half_iff [OF d(2)] d by auto
    note n = cr_okD(1-7) [OF d(1)] cr_okD(1-7) [OF d(2)]
    have "CR_UnionWith r s Signed = CR_UnionBothUnwrapped r s Signed"
      using b t n by (subst CR_UnionWith.simps) auto
    also have "low_half \<dots>"
    proof (cases "up s < lo r \<or> up r < lo s")
      case True
      then have ok: "cr_ok (mkCR (lower r) (upper s))" "cr_ok (mkCR (lower s) (upper r))"
        using b n d(3) by (auto intro!: mkCR_ok simp: same_def)
      have sv: "sval (lower r) = lo r" "sval (lower s) = lo s"
        "sval (upper r) = (if up r < half (width (lower r)) then up r else up r - modulus (width (lower r)))"
        "sval (upper s) = (if up s < half (width (lower r)) then up s else up s - modulus (width (lower r)))"
        using b n d(3) by (simp_all add: sval_eq)
      have pos: "0 \<le> lo r" "0 \<le> lo s" by (rule uval_nonneg)+
      then have n0: "up s \<noteq> - half (width (lower r))" "up r \<noteq> - half (width (lower r))"
        using b half_ge [of "width (lower r)"] by linarith+
      have w: "CR_IsSignWrappedSet (mkCR (lower r) (upper s)) \<longleftrightarrow> up s < lo r"
        "CR_IsSignWrappedSet (mkCR (lower s) (upper r)) \<longleftrightarrow> \<not> up s < lo r"
        unfolding CR_tests_sem(5) [OF ok(1)] CR_tests_sem(5) [OF ok(2)] mkCR_sel sv
        using True b d(3) half_ge [of "width (lower r)"] by (auto simp: modulus_half n0)
      have "GetPreferredRange (mkCR (lower r) (upper s)) (mkCR (lower s) (upper r)) Signed
        = (if up s < lo r then mkCR (lower s) (upper r) else mkCR (lower r) (upper s))"
        by (simp add: GetPreferredRange_def Let_def w)
      then show ?thesis
        using True b ok n d(3)
        by (auto simp: CR_UnionBothUnwrapped_def SInt_Ult_sem low_half_iff [OF ok(1)] low_half_iff [OF ok(2)])
    next
      case False
      define l where "l = (if lo s < lo r then lower s else lower r)"
      define u where "u = (if up r < up s then upper s else upper r)"
      have p: "uval (SInt_sub_u64 (upper r) 1) = up r - 1" "uval (SInt_sub_u64 (upper s) 1) = up s - 1"
      proof -
        have pos: "0 \<le> lo r" "0 \<le> lo s" by (rule uval_nonneg)+
        have "(up r - 1) mod cmod r = up r - 1" by (rule mod_pos_pos_trivial; use b n pos in linarith)
        moreover have "up s < cmod r" using n d(3) by simp
        then have "(up s - 1) mod cmod r = up s - 1" by (intro mod_pos_pos_trivial; use b pos in linarith)
        ultimately show "uval (SInt_sub_u64 (upper r) 1) = up r - 1" "uval (SInt_sub_u64 (upper s) 1) = up s - 1"
          using n d(3) by (simp_all add: SInt_ring_sem)
      qed
      have "CR_UnionBothUnwrapped r s Signed = (if uval l = 0 \<and> uval u = 0 then CR_Full (CR_Width r) else mkCR l u)"
        using False p
        by (simp add: CR_UnionBothUnwrapped_def SInt_Ult_sem SInt_Ugt_sem SInt_tests_sem Let_def l_def u_def)
      moreover have "uval l < uval u" "uval u \<noteq> 0" "uval u \<le> half (width (lower r))" using b n by (auto simp: l_def u_def)
      moreover have "cr_ok (mkCR l u)" "width l = width (lower r)"
        using b n d(3) by (auto intro!: mkCR_ok simp: same_def l_def u_def)
      ultimately show ?thesis by (simp add: low_half_iff)
    qed
    finally show ?thesis .
  qed
qed

lemma NCU2SInner_low_half:
  assumes "is_ivl False src"
  shows "low_half (NCU2SInner src (CR_Width src) THROWING)"
    "width (lower (NCU2SInner src (CR_Width src) THROWING)) = width (lower src)"
proof -
  let ?w = "width (lower src)"
  define m where "m = SInt_SMaxValue ?w"
  have m: "sint_ok m" "width m = ?w" "uval m = half ?w - 1"
    by (simp_all add: m_def SInt_signed_const_ok SInt_signed_const_sem)
  have eq: "NCU2SInner src (CR_Width src) THROWING =
      (if CR_IsEmptySet src then CR_Empty ?w else CR_IntersectWith (CR_From LE m False) src Unsigned)"
    by (simp add: NCU2SInner_def CR_Width_def m_def less_IntWidth_def)
  have un: "is_ivl False (CR_IntersectWith (CR_From LE m False) src Unsigned)"
    "width (lower (CR_IntersectWith (CR_From LE m False) src Unsigned)) = ?w"
    "elems (CR_IntersectWith (CR_From LE m False) src Unsigned) = {x \<in> elems src. uval x < half ?w}"
    using inter_From(2,4,6) [OF assms _ m(1), of LE Unsigned] m(2,3) by (simp_all add: rel_sem_def ival_def half_line_def)
  show "low_half (NCU2SInner src (CR_Width src) THROWING)"
    "width (lower (NCU2SInner src (CR_Width src) THROWING)) = ?w"
    using un is_ivlD [OF un(1)] by (auto simp: eq low_half_def elems_Empty SInt_const_width)
qed

lemma U2SSameWidth_low_half:
  assumes "cr_ok src"
  shows "low_half (NumericConversionU2SSameWidth src)"
    "width (lower (NumericConversionU2SSameWidth src)) = width (lower src)"
proof -
  have "low_half (NumericConversionU2SSameWidth src) \<and>
    width (lower (NumericConversionU2SSameWidth src)) = width (lower src)"
  proof (cases "CR_IsWrappedSet src")
    case True
    obtain l r where lr: "CR_SplitWrapping src True = (l, r)" by (cases "CR_SplitWrapping src True")
    have ivl: "is_ivl False l" "is_ivl False r" "CR_Width l = CR_Width src" "CR_Width r = CR_Width src"
      using split_is_ivl [OF assms, of True] lr by (simp_all add: CR_Width_def)
    note l = NCU2SInner_low_half [OF ivl(1), unfolded ivl(3)] and r = NCU2SInner_low_half [OF ivl(2), unfolded ivl(4)]
    have same: "cr_same (NCU2SInner l (CR_Width src) THROWING) (NCU2SInner r (CR_Width src) THROWING)"
      using l r ivl(3,4) by (simp add: cr_same_def low_half_def CR_Width_def)
    show ?thesis
      using True lr union_low_half [OF same] union_wf(2) [OF same, of Signed] l r ivl(3,4)
      by (simp add: NumericConversionU2SSameWidth_def NumericConversionU2S_def less_IntWidth_def CR_Width_def)
  next
    case False
    then show ?thesis
      using NCU2SInner_low_half [OF is_ivl_unwrapped [OF assms, of False]]
      by (simp add: NumericConversionU2SSameWidth_def NumericConversionU2S_def less_IntWidth_def)
  qed
  then show "low_half (NumericConversionU2SSameWidth src)"
    "width (lower (NumericConversionU2SSameWidth src)) = width (lower src)" by simp_all
qed

lemma signed_bound_sound:
  assumes "NumericBoundToSignedSymbolicBound r u = Some b" "cr_ok r"
  shows "cr_ok b" "width (lower b) = width (lower r)" "elems b = elems r"
    "x \<in> elems r \<Longrightarrow> sval x = ival (\<not> u) x"
proof -
  let ?c = "NumericConversionU2SSameWidth r"
  note c = U2SSameWidth_low_half [OF assms(2)]
  have same: "cr_same ?c r" using c assms(2) by (simp add: cr_same_def low_half_def)
  have b: "b = (if u then ?c else r)" "u \<Longrightarrow> elems ?c = elems r"
    using assms(1) CR_eq_elems [OF same]
    by (auto simp: NumericBoundToSignedSymbolicBound_def Let_def split: if_splits)
  show "cr_ok b" "width (lower b) = width (lower r)" "elems b = elems r"
    using b c assms(2) by (auto simp: low_half_def)
  assume x: "x \<in> elems r"
  then have "u \<Longrightarrow> uval x < half (width x)" using b(2) c elems_wf [OF assms(2) x] by (auto simp: low_half_def)
  then show "sval x = ival (\<not> u) x"
    using elems_wf(1) [OF assms(2) x] by (cases u) (simp_all add: ival_def sval_eq)
qed

subsection \<open>The operations\<close>

lemma ComputeAdd_sound:
  assumes "SD_ok (ld args)" "SD_ok (rd args)" "SD_Width (ld args) = SD_Width (rd args)"
    "x \<in> SD_gamma (arg_uns args) \<rho> (ld args)" "y \<in> SD_gamma (arg_uns args) \<rho> (rd args)"
    "\<rho> (arg_l args) = x" "\<rho> (arg_r args) = y" "evaluates (arg_uns args) (arg_ov args) ADD x y z"
  shows "z \<in> SD_gamma (arg_uns args) \<rho> (ComputeAdd args) \<and> SD_ok (ComputeAdd args)"
proof -
  let ?ln = "numeric (ld args)" and ?rn = "numeric (rd args)" and ?u = "arg_uns args"
  define num where "num = (if \<not> IsSaturating (arg_ov args) then CR_Add ?ln ?rn
    else if ?u then CR_UAddSat ?ln ?rn else CR_SAddSat ?ln ?rn)"
  define mp1 where "mp1 = (if \<not> CR_IsSingleElement ?ln \<and> CR_IsNonTrivial ?rn
    then (case NumericBoundToSignedSymbolicBound ?rn ?u of Some b \<Rightarrow> map_emplace (arg_l args) b [] | None \<Rightarrow> []) else [])"
  define mp2 where "mp2 = (if \<not> CR_IsSingleElement ?rn \<and> CR_IsNonTrivial ?ln
    then (case NumericBoundToSignedSymbolicBound ?ln ?u of Some b \<Rightarrow> map_emplace (arg_r args) b mp1 | None \<Rightarrow> mp1) else mp1)"
  have eq: "ComputeAdd args = (if CR_IsEmptySet num \<or> arg_ov args \<noteq> THROWING then SD_numeric num ?u
      else SD_symbolics num mp2 ?u)"
    unfolding ComputeAdd_def Let_def num_def mp1_def mp2_def by (rule refl)
  have same: "cr_same ?ln ?rn" using assms(1-3) by (simp add: SD_ok_def SD_Width_def CR_Width_def cr_same_def)
  note d = cr_sameD [OF same]
  note x = SD_gammaD(1) [OF assms(4)] and y = SD_gammaD(1) [OF assms(5)]
  note n = add_numeric [OF same x y assms(8), folded num_def]
  have w: "width (lower num) = width (lower ?ln)"
    using n(1) elems_wf(2) [OF d(1) x] assms(8) elems_wf [OF n(2,1)] by (auto simp: evaluates_def)
  show ?thesis
  proof (cases "CR_IsEmptySet num \<or> arg_ov args \<noteq> THROWING")
    case True
    then show ?thesis using n eq by simp
  next
    case False
    then have z: "ival (\<not> ?u) z = ival (\<not> ?u) x + ival (\<not> ?u) y"
      using evaluates_ring(2) [OF assms(8)] CR_minmax_same(9) [OF same x y] by (simp add: exact_def)
    have "bounds_ok (width (lower ?ln)) mp1 \<and> bounds_hold ?u \<rho> z mp1"
      using signed_bound_sound [OF _ d(2)] y d(3) z assms(6)
      by (auto simp: mp1_def bound_holds_def simp del: map_emplace.simps intro!: bounds_emplace split: option.splits)
    then have "bounds_ok (width (lower ?ln)) mp2 \<and> bounds_hold ?u \<rho> z mp2"
      using signed_bound_sound [OF _ d(1)] x z assms(7)
      by (auto simp: mp2_def bound_holds_def simp del: map_emplace.simps intro!: bounds_emplace split: option.splits)
    moreover have "ComputeAdd args = SD_symbolics num mp2 ?u" using False eq by simp
    ultimately show ?thesis using n w by (auto simp: SD_ok_def SD_Width_def CR_Width_def intro!: SD_gammaI)
  qed
qed

text \<open>
  Subtraction negates the range of the right operand as it stands, and stores the result as a
  signed bound. That is right as long as the negated number can be read back as signed.
\<close>

definition negatable :: "bool \<Rightarrow> ConstantRange \<Rightarrow> bool" where
  "negatable u r \<longleftrightarrow>
     (\<forall>y \<in> elems r. if u then uval y \<le> half (CR_Width r) else sval y \<noteq> - half (CR_Width r))"

lemma negated_bound:
  assumes "cr_ok r" "CR_IsNonTrivial r" "\<not> CR_eq r (CR_single (SInt_SMinValue (CR_Width r)))" "negatable u r"
  shows "cr_ok (CR_Negate r)" "width (lower (CR_Negate r)) = width (lower r)"
    "y \<in> elems r \<Longrightarrow> \<exists>d \<in> elems (CR_Negate r). sval d = - ival (\<not> u) y"
proof -
  let ?w = "width (lower r)"
  note d = cr_okD [OF assms(1)]
  have half: "128 \<le> half ?w" "modulus ?w = 2 * half ?w" by (rule half_ge, rule modulus_half)
  have up: "up r \<noteq> half ?w + 1" if "lo r = half ?w"
  proof
    assume "up r = half ?w + 1"
    then have "lower r = SInt_SMinValue ?w \<and> upper r = SInt_add_u64 (SInt_SMinValue ?w) 1"
      using that d half by (simp add: SInt_eq_iff SInt_ring_sem SInt_signed_const_sem SInt_signed_const_ok)
    then show False using assms(3) by (simp add: CR_eq_def CR_single_def CR_Width_def SInt_eq_def)
  qed
  from CR_Negate_ok [OF assms(1)] up
  show "cr_ok (CR_Negate r)" "width (lower (CR_Negate r)) = ?w" by simp_all
  assume y: "y \<in> elems r"
  note wf = elems_wf [OF assms(1) y]
  have cond: "u \<Longrightarrow> uval y \<le> half ?w" "\<not> u \<Longrightarrow> sval y \<noteq> - half ?w"
    using assms(4) y by (auto simp: negatable_def CR_Width_def)
  have "uval y \<noteq> half ?w" if lo: "lo r = half ?w"
  proof (cases u)
    case True
    have "number ?w (half ?w + 1) \<notin> elems r" using assms(4) True half by (auto simp: negatable_def CR_Width_def)
    then have "up r = half ?w"
      using up [OF lo] lo half by (auto simp: elems_iff [OF assms(1)] arc_def split: if_splits)
    then show ?thesis using assms(2) lo half by (simp add: CR_IsNonTrivial_def CR_tests_sem(1) [OF assms(1)])
  next
    case False
    then show ?thesis using cond(2) wf half by (auto simp: sval_eq)
  qed
  then have m: "SInt_Neg y \<in> elems (CR_Negate r)" using CR_Negate_sound [OF assms(1) y] by blast
  have "sval (SInt_Neg y) = - ival (\<not> u) y"
  proof (rule sval_unique)
    show "sint_ok (SInt_Neg y)" using elems_wf [OF \<open>cr_ok (CR_Negate r)\<close> m] by simp
    show "uval (SInt_Neg y) = (- ival (\<not> u) y) mod modulus (width (SInt_Neg y))"
      using wf ival_mod [OF wf(1), of "\<not> u"] mod_minus_eq [of "ival (\<not> u) y" "modulus ?w"]
      by (simp add: SInt_Neg_sem)
    have "- uval y < half ?w" using uval_nonneg [of y] half by linarith
    then show "- half (width (SInt_Neg y)) \<le> - ival (\<not> u) y" "- ival (\<not> u) y < half (width (SInt_Neg y))"
      using cond wf sval_range [OF wf(1)] by (auto simp: ival_def)
  qed
  then show "\<exists>d \<in> elems (CR_Negate r). sval d = - ival (\<not> u) y" using m by blast
qed

lemma ComputeSub_sound:
  assumes "SD_ok (ld args)" "SD_ok (rd args)" "SD_Width (ld args) = SD_Width (rd args)"
    "x \<in> SD_gamma (arg_uns args) \<rho> (ld args)" "y \<in> SD_gamma (arg_uns args) \<rho> (rd args)"
    "\<rho> (arg_l args) = x" "evaluates (arg_uns args) (arg_ov args) SUB x y z"
    "arg_ov args = THROWING \<Longrightarrow> negatable (arg_uns args) (numeric (rd args))"
  shows "z \<in> SD_gamma (arg_uns args) \<rho> (ComputeSub args) \<and> SD_ok (ComputeSub args)"
proof -
  let ?ln = "numeric (ld args)" and ?rn = "numeric (rd args)" and ?u = "arg_uns args"
  define num where "num = (if \<not> IsSaturating (arg_ov args) then CR_Sub ?ln ?rn
    else if ?u then CR_USubSat ?ln ?rn else CR_SSubSat ?ln ?rn)"
  have eq: "ComputeSub args = (if CR_IsEmptySet num \<or> arg_ov args \<noteq> THROWING then SD_numeric num ?u
      else if \<not> CR_IsSingleElement ?ln \<and> CR_IsNonTrivial ?rn \<and>
        \<not> CR_eq ?rn (CR_single (SInt_SMinValue (CR_Width ?rn)))
      then SD_symbol num (arg_l args) (l_type args) (CR_Negate ?rn) else SD_numeric num ?u)"
    unfolding ComputeSub_def Let_def num_def by (rule refl)
  have same: "cr_same ?ln ?rn" using assms(1-3) by (simp add: SD_ok_def SD_Width_def CR_Width_def cr_same_def)
  note d = cr_sameD [OF same]
  note x = SD_gammaD(1) [OF assms(4)] and y = SD_gammaD(1) [OF assms(5)]
  note n = sub_numeric [OF same x y assms(7), folded num_def]
  have w: "width (lower num) = width (lower ?ln)"
    using n(1) elems_wf(2) [OF d(1) x] assms(7) elems_wf [OF n(2,1)] by (auto simp: evaluates_def)
  show ?thesis
  proof (cases "CR_IsEmptySet num \<or> arg_ov args \<noteq> THROWING \<or> CR_IsSingleElement ?ln \<or> \<not> CR_IsNonTrivial ?rn
      \<or> CR_eq ?rn (CR_single (SInt_SMinValue (CR_Width ?rn)))")
    case True
    then have "ComputeSub args = SD_numeric num ?u" using eq by auto
    then show ?thesis using n by simp
  next
    case False
    then have e: "ComputeSub args = SD_symbol num (arg_l args) (l_type args) (CR_Negate ?rn)" using eq by simp
    have t: "arg_ov args = THROWING" using False by simp
    note b = negated_bound [OF d(2) _ _ assms(8) [OF t]]
    have "ival (\<not> ?u) z = ival (\<not> ?u) x - ival (\<not> ?u) y"
      using evaluates_ring(2) [OF assms(7) _ _ t] CR_minmax_same(9) [OF same x y] by (simp add: exact_def)
    moreover obtain d0 where "d0 \<in> elems (CR_Negate ?rn)" "sval d0 = - ival (\<not> ?u) y" using b(3) [OF _ _ y] False by auto
    ultimately have "bound_holds ?u \<rho> z (arg_l args) (CR_Negate ?rn)"
      using assms(6) by (auto simp: bound_holds_def intro!: bexI [of _ d0])
    then show ?thesis
      using n w b(1,2) False d(3) unfolding e
      by (auto simp: SD_ok_def SD_Width_def CR_Width_def bounds_ok_def bounds_hold_def intro!: SD_gammaI)
  qed
qed

lemma ComputeMul_sound:
  assumes "SD_ok (ld args)" "SD_ok (rd args)" "SD_Width (ld args) = SD_Width (rd args)"
    "x \<in> SD_gamma (arg_uns args) \<rho> (ld args)" "y \<in> SD_gamma (arg_uns args) \<rho> (rd args)"
    "evaluates (arg_uns args) (arg_ov args) MUL x y z"
  shows "\<exists>d. ComputeMul args = Some d \<and> z \<in> SD_gamma (arg_uns args) \<rho> d \<and> SD_ok d"
proof -
  have same: "cr_same (numeric (ld args)) (numeric (rd args))"
    using assms(1-3) by (simp add: SD_ok_def SD_Width_def CR_Width_def cr_same_def)
  show ?thesis
    using mul_numeric [OF same SD_gammaD(1) [OF assms(4)] SD_gammaD(1) [OF assms(5)] assms(6)]
    unfolding ComputeMul_def Let_def by (elim exE conjE) simp
qed

text \<open>
  Division. The exact result for a divisor \<open>- 1\<close> of the least number does not fit; such a
  division passes only when it saturates or wraps, and the wrapped result is not covered.
\<close>

lemma evaluates_div:
  assumes "evaluates u ov DIV x y z" "same x y"
    "\<not> u \<Longrightarrow> ov \<noteq> THROWING \<Longrightarrow> ov \<noteq> SATURATING \<Longrightarrow> sval x \<noteq> - half (width x) \<or> sval y \<noteq> - 1"
  shows "uval y \<noteq> 0" "u \<Longrightarrow> z = the (SInt_UDiv x y)" "\<not> u \<Longrightarrow> ov = SATURATING \<Longrightarrow> z = the (SInt_SDivSat x y)"
    "\<not> u \<Longrightarrow> ov \<noteq> SATURATING \<Longrightarrow> z = the (SInt_SDiv x y) \<and> (sval x \<noteq> - half (width x) \<or> sval y \<noteq> - 1)"
proof -
  let ?w = "width x" let ?t = "ity ?w u" and ?x = "ival (\<not> u) x" and ?y = "ival (\<not> u) y"
  have i: "in_type ?t ?x" "in_type ?t ?y"
    using assms(2) in_type_ival [of x u] in_type_ival [of y u] by (auto simp: same_def)
  have xy: "sint_ok x" "sint_ok y" "width y = ?w" using assms(2) by (simp_all add: same_def)
  show y0: "uval y \<noteq> 0"
  proof
    assume "uval y = 0"
    then have "?y = 0" using xy half_ge [of ?w] by (simp add: ival_def sval_eq)
    moreover have "\<not> (ci_signed ?t \<and> ?x = limits_min ?t \<and> ?y = - 1)" using \<open>?y = 0\<close> by simp
    ultimately show False using assms(1) by (simp add: evaluates_def IsOverflow_def IsOverflowAfterDiv_def)
  qed
  have y: "?y \<noteq> 0" using y0 xy by (simp add: ival_def sval_0_iff)
  have special: "in_type ?t (tdiv ?x ?y) \<longleftrightarrow> u \<or> sval x \<noteq> - half ?w \<or> sval y \<noteq> - 1"
    using tdiv_in_type [OF i y] by (auto simp: ity_def limits_min_def ival_def)
  have d: "z = number ?w (tdiv ?x ?y)" if "in_type ?t (tdiv ?x ?y)"
    using assms(1) IsOverflow_eq [OF i, of DIV ov] y that clamp_id [OF that]
    by (auto simp: evaluates_def deliver_def exact_def number_cast)
  show "z = the (SInt_UDiv x y)" if u: u
  proof -
    obtain q where q: "SInt_UDiv x y = Some q" "sint_ok q" "width q = ?w" "uval q = uval x div uval y"
      using SInt_UDiv_sem [OF xy(1) y0] by auto
    have "tdiv ?x ?y = uval q"
    proof -
      have "0 < uval y" "uval x = 0 \<or> 0 < uval x" using uval_nonneg [of x] uval_nonneg [of y] y0 by linarith+
      then show ?thesis using u q by (auto simp: tdiv_def ival_def)
    qed
    then show ?thesis using d special u q number_ival [OF q(2), of False] by (simp add: ival_def)
  qed
  have norm: "z = the (SInt_SDiv x y)" if u: "\<not> u" and c: "sval x \<noteq> - half ?w \<or> sval y \<noteq> - 1"
  proof -
    obtain q where q: "SInt_SDiv x y = Some q" "sint_ok q" "width q = ?w" using SInt_SDiv_sem [OF assms(2) y0] by auto
    have "sval q = sval x sdiv sval y" using SInt_SDiv_exact [OF assms(2) y0 c] q by simp
    then have "tdiv ?x ?y = sval q" using u by (simp add: tdiv_def ival_def signed_divide_int_def)
    then show ?thesis using d special u c q number_ival [OF q(2), of True] by (simp add: ival_def)
  qed
  have thr: "ov \<noteq> THROWING" if "\<not> in_type ?t (tdiv ?x ?y)"
    using assms(1) IsOverflow_eq [OF i, of DIV ov] y that by (auto simp: evaluates_def)
  show "z = the (SInt_SDivSat x y)" if u: "\<not> u" and ov: "ov = SATURATING"
  proof (cases "sval x \<noteq> - half ?w \<or> sval y \<noteq> - 1")
    case True
    then show ?thesis using norm u SInt_SDivSat_eq [OF assms(2)] by simp
  next
    case False
    then have v: "sval x = - half ?w" "sval y = - 1" by auto
    have "clamp ?t (tdiv ?x ?y) = half ?w - 1"
      using u v half_ge [of ?w] by (simp add: clamp_def limits_ity imin_def imax_def tdiv_def ival_def sgn_if)
    then have "z = number ?w (half ?w - 1)"
      using assms(1) IsOverflow_eq [OF i, of DIV ov] y ov by (auto simp: evaluates_def deliver_def exact_def)
    also have "\<dots> = SInt_SMaxValue ?w"
      using half_ge [of ?w] by (simp add: SInt_eq_iff SInt_signed_const_sem SInt_signed_const_ok modulus_half)
    finally show ?thesis using SInt_SDivSat_special [OF assms(2) v] by simp
  qed
  show "z = the (SInt_SDiv x y) \<and> (sval x \<noteq> - half ?w \<or> sval y \<noteq> - 1)" if "\<not> u" "ov \<noteq> SATURATING"
    using that norm thr special assms(3) by blast
qed


definition divisible :: "bool \<Rightarrow> OverflowStrategy \<Rightarrow> ConstantRange \<Rightarrow> ConstantRange \<Rightarrow> bool" where
  "divisible u ov r s \<longleftrightarrow> u \<or>
     uval (upper r) \<noteq> half (CR_Width r) + 1 \<and>
     (ov = THROWING \<or> ov = SATURATING \<or>
      (\<forall>x \<in> elems r. \<forall>y \<in> elems s. sval x \<noteq> - half (CR_Width r) \<or> sval y \<noteq> - 1))"

lemma ComputeDiv_sound:
  assumes "SD_ok (ld args)" "SD_ok (rd args)" "SD_Width (ld args) = SD_Width (rd args)"
    "x \<in> SD_gamma (arg_uns args) \<rho> (ld args)" "y \<in> SD_gamma (arg_uns args) \<rho> (rd args)"
    "evaluates (arg_uns args) (arg_ov args) DIV x y z"
    "divisible (arg_uns args) (arg_ov args) (numeric (ld args)) (numeric (rd args))"
  shows "\<exists>d. ComputeDiv args = Some d \<and> z \<in> SD_gamma (arg_uns args) \<rho> d \<and> SD_ok d"
proof -
  let ?ln = "numeric (ld args)" and ?rn = "numeric (rd args)" and ?u = "arg_uns args"
  have same: "cr_same ?ln ?rn" using assms(1-3) by (simp add: SD_ok_def SD_Width_def CR_Width_def cr_same_def)
  note x = SD_gammaD(1) [OF assms(4)] and y = SD_gammaD(1) [OF assms(5)]
  have xy: "same x y" using CR_minmax_same(9) [OF same x y] .
  have w: "CR_Width ?ln = width x" using elems_wf(2) [OF cr_sameD(1) [OF same] x] by (simp add: CR_Width_def)
  have wz: "sint_ok z" "width z = width x" using assms(6) by (auto simp: evaluates_def)
  have c: "\<not> ?u \<Longrightarrow> arg_ov args \<noteq> THROWING \<Longrightarrow> arg_ov args \<noteq> SATURATING \<Longrightarrow> sval x \<noteq> - half (width x) \<or> sval y \<noteq> - 1"
    using assms(7) x y w by (auto simp: divisible_def)
  note e = evaluates_div [OF assms(6) xy c]
  show ?thesis
  proof (cases "CR_Contains ?rn (SInt_Zero (CR_Width ?rn))")
    case True
    then show ?thesis using wz w by (simp add: ComputeDiv_def elems_Full CR_const_ok)
  next
    case nz: False
    have "\<exists>t. (if ?u then CR_UDiv ?ln ?rn else if IsSaturating (arg_ov args) then CR_SDivSat ?ln ?rn else CR_SDiv ?ln ?rn)
        = Some t \<and> z \<in> elems t \<and> cr_ok t"
    proof (cases "?u")
      case True
      obtain t where "CR_UDiv ?ln ?rn = Some t" "cr_ok t" "the (SInt_UDiv x y) \<in> elems t"
        using CR_UDiv_ok_sound [OF same] x y e(1) by metis
      then show ?thesis using True e(2) by simp
    next
      case False
      have up: "up ?ln \<noteq> half (width (lower ?ln)) + 1" using assms(7) False by (simp add: divisible_def CR_Width_def)
      have fits: "sval x \<noteq> - half (width (lower ?ln)) \<or> sval y \<noteq> - 1 \<or>
          sval (the (SInt_SDivSat x y)) = half (width (lower ?ln)) - 1"
        using SInt_SDivSat_special [OF xy] w by (auto simp: CR_Width_def)
      obtain t where t: "CR_SDiv ?ln ?rn = Some t" "cr_ok t"
          "sval x \<noteq> - half (width (lower ?ln)) \<or> sval y \<noteq> - 1 \<Longrightarrow> the (SInt_SDiv x y) \<in> elems t"
        using sdiv.SDivImpl_ok_sound [OF same up] x y e(1) unfolding CR_SDiv_def by metis
      obtain t' where t': "CR_SDivSat ?ln ?rn = Some t'" "cr_ok t'" "the (SInt_SDivSat x y) \<in> elems t'"
        using sdivsat.SDivImpl_ok_sound [OF same up] x y e(1) fits unfolding CR_SDivSat_def by metis
      show ?thesis
        using False t t' e(3,4) w by (cases "arg_ov args = SATURATING") (auto simp: IsSaturating_def CR_Width_def)
    qed
    then show ?thesis using nz unfolding ComputeDiv_def Let_def by (elim exE conjE) simp
  qed
qed

lemma evaluates_mod:
  assumes "evaluates u ov MOD x y z" "same x y"
  shows "uval y \<noteq> 0" "u \<Longrightarrow> z = the (SInt_URem x y)" "\<not> u \<Longrightarrow> z = the (SInt_SRem x y)"
proof -
  let ?w = "width x" let ?t = "ity ?w u" and ?x = "ival (\<not> u) x" and ?y = "ival (\<not> u) y"
  have i: "in_type ?t ?x" "in_type ?t ?y"
    using assms(2) in_type_ival [of x u] in_type_ival [of y u] by (auto simp: same_def)
  have xy: "sint_ok x" "sint_ok y" "width y = ?w" using assms(2) by (simp_all add: same_def)
  show y0: "uval y \<noteq> 0"
  proof
    assume "uval y = 0"
    then have "?y = 0" using xy half_ge [of ?w] by (simp add: ival_def sval_eq)
    then show False using assms(1) by (simp add: evaluates_def IsOverflow_def IsOverflowAfterMod_def)
  qed
  have y: "?y \<noteq> 0" using y0 xy by (simp add: ival_def sval_0_iff)
  have d: "z = number ?w (trem ?x ?y)"
    using assms(1) IsOverflow_eq [OF i, of MOD ov] y clamp_id [OF trem_in_type [OF i y]]
    by (auto simp: evaluates_def deliver_def exact_def number_cast)
  show "z = the (SInt_URem x y)" if u: u
  proof -
    obtain q where q: "SInt_URem x y = Some q" "sint_ok q" "width q = ?w" "uval q = uval x mod uval y"
      using SInt_URem_sem [OF xy(1) y0] by auto
    have "0 < uval y" "uval x = 0 \<or> 0 < uval x" using uval_nonneg [of x] uval_nonneg [of y] y0 by linarith+
    then have "trem ?x ?y = uval q" using u q by (auto simp: ival_def simp flip: trem_eq)
    then show ?thesis using d u q number_ival [OF q(2), of False] by (simp add: ival_def)
  qed
  show "z = the (SInt_SRem x y)" if u: "\<not> u"
  proof -
    obtain q where q: "SInt_SRem x y = Some q" "sint_ok q" "width q = ?w" "sval q = sval x smod sval y"
      using SInt_SRem_sval [OF assms(2) y0] by auto
    then have "trem ?x ?y = sval q" using u
      by (simp add: ival_def signed_modulo_int_def flip: trem_eq)
    then show ?thesis using d u q number_ival [OF q(2), of True] by (simp add: ival_def)
  qed
qed

lemma ComputeMod_sound:
  assumes "SD_ok (ld args)" "SD_ok (rd args)" "SD_Width (ld args) = SD_Width (rd args)"
    "x \<in> SD_gamma (arg_uns args) \<rho> (ld args)" "y \<in> SD_gamma (arg_uns args) \<rho> (rd args)"
    "evaluates (arg_uns args) (arg_ov args) MOD x y z"
  shows "\<exists>d. ComputeMod args = Some d \<and> z \<in> SD_gamma (arg_uns args) \<rho> d \<and> SD_ok d"
proof -
  let ?ln = "numeric (ld args)" and ?rn = "numeric (rd args)" and ?u = "arg_uns args"
  have same: "cr_same ?ln ?rn" using assms(1-3) by (simp add: SD_ok_def SD_Width_def CR_Width_def cr_same_def)
  note x = SD_gammaD(1) [OF assms(4)] and y = SD_gammaD(1) [OF assms(5)]
  note e = evaluates_mod [OF assms(6) CR_minmax_same(9) [OF same x y]]
  show ?thesis
  proof (cases "?u")
    case True
    obtain t where "CR_URem ?ln ?rn = Some t" "cr_ok t" "the (SInt_URem x y) \<in> elems t"
      using CR_URem_ok_sound [OF same] x y e(1) by metis
    then show ?thesis using True e(2) by (simp add: ComputeMod_def)
  next
    case False
    obtain t where "CR_SRem ?ln ?rn = Some t" "cr_ok t" "the (SInt_SRem x y) \<in> elems t"
      using CR_SRem_ok_sound [OF same] x y e(1) by metis
    then show ?thesis using False e(3) by (simp add: ComputeMod_def)
  qed
qed

subsection \<open>Properties\<close>

lemma arithmetic_sound:
  assumes "SD_ok (ld args)" "SD_ok (rd args)" "SD_Width (ld args) = SD_Width (rd args)"
    "\<rho> (arg_l args) \<in> SD_gamma (arg_uns args) \<rho> (ld args)" "\<rho> (arg_r args) \<in> SD_gamma (arg_uns args) \<rho> (rd args)"
    "evaluates (arg_uns args) (arg_ov args) (ToExprKind (arg_op args)) (\<rho> (arg_l args)) (\<rho> (arg_r args)) z"
    "arg_op args = B_SUB \<Longrightarrow> arg_ov args = THROWING \<Longrightarrow> negatable (arg_uns args) (numeric (rd args))"
    "arg_op args = B_DIV \<Longrightarrow> divisible (arg_uns args) (arg_ov args) (numeric (ld args)) (numeric (rd args))"
  shows "\<exists>d. ComputeArithmeticBinop args = Some d \<and> z \<in> SD_gamma (arg_uns args) \<rho> d \<and> SD_ok d"
  using ComputeAdd_sound [OF assms(1-5)] ComputeSub_sound [OF assms(1-5)] ComputeMul_sound [OF assms(1-5)]
    ComputeDiv_sound [OF assms(1-5)] ComputeMod_sound [OF assms(1-5)] assms(6-8)
  by (cases "arg_op args") (auto simp: ComputeArithmeticBinop_def ToExprKind_def evaluates_def IsOverflow_def)

text \<open>C4: the arithmetic of abstract integers covers the arithmetic of the program: whenever the
  overflow checker lets the operation on the two operands through, its result is in the
  abstract result, symbolic bounds included, and the abstract result is well formed. A
  subtraction that throws needs a right range that can be negated, a signed division a
  dividend range that does not end at the least number and no wrapping quotient.\<close>

theorem ComputeArithmeticBinop_sound:
  assumes "SD_ok (ld args)" "SD_ok (rd args)" "SD_Width (ld args) = SD_Width (rd args)"
    "\<rho> (arg_l args) \<in> SD_gamma (arg_uns args) \<rho> (ld args)" "\<rho> (arg_r args) \<in> SD_gamma (arg_uns args) \<rho> (rd args)"
    "evaluates (arg_uns args) (arg_ov args) (ToExprKind (arg_op args)) (\<rho> (arg_l args)) (\<rho> (arg_r args)) z"
    "arg_op args = B_SUB \<Longrightarrow> arg_ov args = THROWING \<Longrightarrow> negatable (arg_uns args) (numeric (rd args))"
    "arg_op args = B_DIV \<Longrightarrow> divisible (arg_uns args) (arg_ov args) (numeric (ld args)) (numeric (rd args))"
  shows "\<exists>d. ComputeArithmeticBinop args = Some d \<and> z \<in> SD_gamma (arg_uns args) \<rho> d \<and> SD_ok d"
  using arithmetic_sound [OF assms] .

lemma ComputeArithmeticBinop_sound_witness:
  "mkSInt I8 9 \<in> SD_gamma False (\<lambda>s. if s = 1 then mkSInt I8 12 else mkSInt I8 3)
     (SD_symbol (mkCR (mkSInt I8 6) (mkSInt I8 25)) 1 TYPE_INT8 (mkCR (mkSInt I8 252) (mkSInt I8 6)))"
proof -
  let ?l = "mkCR (mkSInt I8 10) (mkSInt I8 20)" and ?r = "mkCR (mkSInt I8 251) (mkSInt I8 5)"
  let ?a = "\<lparr>ld = SD_numeric ?l False, rd = SD_numeric ?r False, arg_l = 1, arg_r = 2, arg_op = B_SUB,
    arg_ov = THROWING, arg_uns = False, l_type = TYPE_INT8\<rparr>"
  let ?\<rho> = "\<lambda>s :: nat. if s = 1 then mkSInt I8 12 else mkSInt I8 3"
  let ?d = "SD_symbol (mkCR (mkSInt I8 6) (mkSInt I8 25)) 1 TYPE_INT8 (mkCR (mkSInt I8 252) (mkSInt I8 6))"
  have ok: "cr_ok ?l" "cr_ok ?r" "CR_Width ?l = CR_Width ?r" by code_simp+
  have mem: "same (lower ?l) (mkSInt I8 12) \<and> CR_Contains ?l (mkSInt I8 12)"
    "same (lower ?r) (mkSInt I8 3) \<and> CR_Contains ?r (mkSInt I8 3)" by code_simp+
  have ov: "IsOverflow (ity (width (mkSInt I8 12)) False) (ival (\<not> False) (mkSInt I8 12)) (ival (\<not> False) (mkSInt I8 3)) SUB THROWING
      = Some (False, 9)" "number (width (mkSInt I8 12)) 9 = mkSInt I8 9" by code_simp+
  have res: "ComputeArithmeticBinop ?a = Some ?d" by code_simp
  have "negatable False ?r"
    unfolding negatable_def
  proof
    fix y assume "y \<in> elems ?r"
    from this [unfolded elems_signed [OF ok(2)]]
    have "sval (lower ?r) \<le> sval y" by (auto split: if_splits; code_simp)
    moreover have "sval (lower ?r) = - 5" "half (CR_Width ?r) = 128" by code_simp+
    ultimately show "if False then uval y \<le> half (CR_Width ?r) else sval y \<noteq> - half (CR_Width ?r)" by simp
  qed
  moreover have "evaluates False THROWING (ToExprKind B_SUB) (mkSInt I8 12) (mkSInt I8 3) (mkSInt I8 9)"
    using ov unfolding evaluates_def ToExprKind_def BinaryExprKind.case by metis
  ultimately have "\<exists>d. ComputeArithmeticBinop ?a = Some d \<and> mkSInt I8 9 \<in> SD_gamma False ?\<rho> d \<and> SD_ok d"
    using ComputeArithmeticBinop_sound [of ?a ?\<rho> "mkSInt I8 9"] ok mem
    by (simp add: SD_Width_def elems_def del: One_nat_def)
  then show ?thesis using res by simp
qed

end
