(* ===== verification/SIntDomCmp.thy ===== *)
theory SIntDomCmp
  imports SIntDom
begin

section \<open>Soundness of the comparison of abstract integers\<close>

text \<open>
  A decided comparison of two ranges holds, or fails, for all their elements
  (\<open>Compare_sound\<close>). The comparison of two abstract integers is a cascade of such decisions,
  on the numeric ranges, on the bound of either against the other and on bounds against
  common third values; the locale \<open>decision\<close> is what a step of a cascade owes, whichever
  relation it decides.
\<close>

subsection \<open>Ranges\<close>

definition ordering :: "RelationalOperation \<Rightarrow> bool" where
  "ordering op \<longleftrightarrow> op \<noteq> EQ \<and> op \<noteq> NE"

definition decides :: "CompareResult \<Rightarrow> bool \<Rightarrow> bool" where
  "decides r P \<longleftrightarrow> r = UNO \<or> (r = CTRUE \<and> P) \<or> (r = CFALSE \<and> \<not> P)"

lemma decides_simps [simp]:
  "decides UNO P" "decides CTRUE P \<longleftrightarrow> P" "decides CFALSE P \<longleftrightarrow> \<not> P" "decides (Unless b) P \<longleftrightarrow> (b \<longrightarrow> P)"
  "decides (NegResult r) P \<longleftrightarrow> decides r (\<not> P)"
  by (cases r; simp add: decides_def Unless_def NegResult_def)+

lemma decides_both: "decides a P \<Longrightarrow> decides b P \<Longrightarrow> decides (UnlessBothUnordered a b) P"
  by (simp add: UnlessBothUnordered_def)

lemma decides_gamma: "decides r P \<Longrightarrow> r \<noteq> UNO \<Longrightarrow> P \<in> bool_gamma (BD_FromBool (ToBool r))"
  by (auto simp: decides_def ToBool_def)

lemma rel_sem_neg: "rel_sem (NegRel op) a b \<longleftrightarrow> \<not> rel_sem op a b"
  by (cases op) (auto simp: rel_sem_def NegRel_def)

lemma rel_sem_shift: "rel_sem op (c + a) (c + b) \<longleftrightarrow> rel_sem op a b" "rel_sem op (c + a) c \<longleftrightarrow> rel_sem op a 0"
  "rel_sem op c (c + a) \<longleftrightarrow> rel_sem (SymbolicNeg op) a 0"
  by (cases op; auto simp: rel_sem_def SymbolicNeg_def)+

lemma order_tests:
  assumes "cr_same a b" "x \<in> elems a" "y \<in> elems b"
  shows "decides (Lt a b u) (ival (\<not> u) x < ival (\<not> u) y)" "decides (Le a b u) (ival (\<not> u) x \<le> ival (\<not> u) y)"
    "decides (Ge a b u) (ival (\<not> u) y \<le> ival (\<not> u) x)" "decides (Gt a b u) (ival (\<not> u) y < ival (\<not> u) x)"
proof -
  note d = cr_sameD [OF assms(1)]
  note m = CR_minmax_same [OF assms]
  note le = CR_UMinValue_le [OF d(1) assms(2)] CR_UMinValue_le [OF d(2) assms(3)]
    CR_UMaxValue_ge [OF d(1) assms(2)] CR_UMaxValue_ge [OF d(2) assms(3)]
    CR_SMinValue_le [OF d(1) assms(2)] CR_SMinValue_le [OF d(2) assms(3)]
    CR_SMaxValue_ge [OF d(1) assms(2)] CR_SMaxValue_ge [OF d(2) assms(3)]
  show "decides (Lt a b u) (ival (\<not> u) x < ival (\<not> u) y)" "decides (Le a b u) (ival (\<not> u) x \<le> ival (\<not> u) y)"
    "decides (Ge a b u) (ival (\<not> u) y \<le> ival (\<not> u) x)" "decides (Gt a b u) (ival (\<not> u) y < ival (\<not> u) x)"
    using le m
    by (cases u; auto simp: Lt_def Le_def Ge_def Gt_def ival_def SInt_Ult_sem SInt_Ule_sem SInt_Uge_sem SInt_Ugt_sem
        SInt_Slt_sem SInt_Sle_sem SInt_Sge_sem SInt_Sgt_sem)+
qed

lemma PartialCompare_sound:
  assumes "cr_same a b" "x \<in> elems a" "y \<in> elems b" "ordering op"
  shows "decides (PartialCompare op a b u) (rel_sem op (ival (\<not> u) x) (ival (\<not> u) y))"
  using order_tests [OF assms(1-3), of u] assms(4)
  by (cases op) (simp_all add: PartialCompare_def rel_sem_def ordering_def)

lemma Compare_sound:
  assumes "cr_same a b" "x \<in> elems a" "y \<in> elems b" "ordering op"
  shows "decides (Compare op a b u) (rel_sem op (ival (\<not> u) x) (ival (\<not> u) y))"
proof -
  have "ordering (NegRel op)" using assms(4) by (cases op) (simp_all add: ordering_def NegRel_def)
  from PartialCompare_sound [OF assms(1-3) this, of u]
  have "decides (NegResult (PartialCompare (NegRel op) a b u)) (rel_sem op (ival (\<not> u) x) (ival (\<not> u) y))"
    by (simp add: rel_sem_neg)
  with PartialCompare_sound [OF assms, of u] show ?thesis by (simp add: Compare_def decides_both)
qed

text \<open>Against zero, a bound is compared as it stands.\<close>

lemma zero_range: "cr_ok (CR_single (mkSInt w 0))" "width (lower (CR_single (mkSInt w 0))) = w"
  "mkSInt w 0 \<in> elems (CR_single (mkSInt w 0))" "sval (mkSInt w 0) = 0"
proof -
  show "cr_ok (CR_single (mkSInt w 0))" "mkSInt w 0 \<in> elems (CR_single (mkSInt w 0))"
    by (simp_all add: CR_single_ok mkSInt_ok single_elems)
  show "width (lower (CR_single (mkSInt w 0))) = w" by (simp add: CR_single_def mkSInt_width)
  show "sval (mkSInt w 0) = 0"
    using half_ge [of w] by (simp add: sval_eq mkSInt_ok mkSInt_width mkSInt_uval)
qed

lemma Compare_zero:
  assumes "cr_ok R" "d \<in> elems R" "ordering op"
  shows "decides (Compare op R (CR_single (mkSInt (width (lower R)) 0)) False) (rel_sem op (sval d) 0)"
  using Compare_sound [OF _ assms(2) zero_range(3) assms(3), where u = False] assms(1) zero_range
  by (simp add: cr_same_def ival_def)

subsection \<open>A walk over the bounds against common values\<close>

fun bounds_walk ::
    "(ConstantRange \<Rightarrow> ConstantRange \<Rightarrow> BoolDomain option) \<Rightarrow> SymbolicBoundsMap \<Rightarrow> SymbolicBoundsMap \<Rightarrow> BoolDomain" where
  "bounds_walk step ((sa, ra) # ia) ((sb, rb) # ib) =
     (if sa < sb then bounds_walk step ia ((sb, rb) # ib)
      else if sb < sa then bounds_walk step ((sa, ra) # ia) ib
      else case step ra rb of Some r \<Rightarrow> r | None \<Rightarrow> bounds_walk step ia ib)"
| "bounds_walk step _ _ = BD_Top"

locale decision =
  fixes step :: "ConstantRange \<Rightarrow> ConstantRange \<Rightarrow> BoolDomain option" and rel :: "int \<Rightarrow> int \<Rightarrow> bool"
  assumes step_sound: "cr_same a b \<Longrightarrow> x \<in> elems a \<Longrightarrow> y \<in> elems b \<Longrightarrow> step a b = Some r \<Longrightarrow>
      rel (sval x) (sval y) \<in> bool_gamma r"
    and rel_shift: "rel (k + i) (k + j) \<longleftrightarrow> rel i j"
begin

lemma bound_step:
  assumes "bound_holds u \<rho> x s R" "bound_holds u \<rho> y s Q" "cr_same R Q" "step R Q = Some r"
  shows "rel (ival (\<not> u) x) (ival (\<not> u) y) \<in> bool_gamma r"
proof -
  obtain d e where "d \<in> elems R" "ival (\<not> u) x = ival (\<not> u) (\<rho> s) + sval d"
    "e \<in> elems Q" "ival (\<not> u) y = ival (\<not> u) (\<rho> s) + sval e"
    using assms(1,2) by (auto simp: bound_holds_def)
  then show ?thesis using step_sound [OF assms(3) _ _ assms(4)] by (simp add: rel_shift)
qed

lemma walk_sound:
  "bounds_hold u \<rho> x m \<Longrightarrow> bounds_hold u \<rho> y n \<Longrightarrow> bounds_ok w m \<Longrightarrow> bounds_ok w n \<Longrightarrow>
    rel (ival (\<not> u) x) (ival (\<not> u) y) \<in> bool_gamma (bounds_walk step m n)"
proof (induction "length m + length n" arbitrary: m n rule: less_induct)
  case less
  show ?case
  proof (cases "m = [] \<or> n = []")
    case False
    then obtain sa ra ia sb rb ib where c: "m = (sa, ra) # ia" "n = (sb, rb) # ib" by (metis list.exhaust prod.exhaust)
    have same: "cr_same ra rb" and holds: "bound_holds u \<rho> x sa ra" "bound_holds u \<rho> y sb rb"
      using less(2-5) c by (simp_all add: bounds_ok_def bounds_hold_def cr_same_def)
    have tails: "bounds_hold u \<rho> x ia" "bounds_hold u \<rho> y ib" "bounds_ok w ia" "bounds_ok w ib"
      using less(2-5) c by (simp_all add: bounds_ok_def bounds_hold_def)
    consider "sa < sb" | "sb < sa" | "sa = sb" by linarith
    then show ?thesis
    proof cases
      case 1
      then show ?thesis using less(1) [of ia n] less(3,5) tails c by simp
    next
      case 2
      then show ?thesis using less(1) [of m ib] less(2,4) tails c by simp
    next
      case 3
      then show ?thesis
        using less(1) [of ia ib] tails c bound_step [OF holds(1) _ same] holds(2) by (simp split: option.split)
    qed
  qed (auto elim: bounds_walk.elims)
qed

end

text \<open>The ordering walk and the equality walk.\<close>

definition order_step :: "RelationalOperation \<Rightarrow> ConstantRange \<Rightarrow> ConstantRange \<Rightarrow> BoolDomain option" where
  "order_step op a b =
     (let r = Compare op a b False in if ordering op \<and> r \<noteq> UNO then Some (BD_FromBool (ToBool r)) else None)"

definition equality_step :: "bool \<Rightarrow> ConstantRange \<Rightarrow> ConstantRange \<Rightarrow> BoolDomain option" where
  "equality_step cne a b =
     (if CR_IsSingleElement a \<and> CR_IsSingleElement b
      then Some (BD_FromBool (SInt_eq (CR_GetSingleElement a) (CR_GetSingleElement b) \<noteq> cne))
      else if CR_IsEmptySet (CR_IntersectWith a b Signed) then Some (BD_FromBool cne)
      else None)"

lemma single_element:
  assumes "cr_ok a" "CR_IsSingleElement a" "x \<in> elems a"
  shows "CR_GetSingleElement a = x"
proof -
  have "a = CR_single (lower a)"
    using assms(1,2) CR_tests_sem(7) [OF assms(1)] cr_okD [OF assms(1)]
    by (cases a) (simp add: CR_single_def CR_IsSingleElement_def SInt_eq_def SInt_eq_iff SInt_ring_sem)
  then have "x \<in> elems (CR_single (lower a))" using assms(3) by simp
  then show ?thesis using single_elems cr_okD(1) [OF assms(1)] by (simp add: CR_GetSingleElement_def)
qed

lemma single_equality:
  assumes "cr_same a b" "CR_IsSingleElement a" "CR_IsSingleElement b" "x \<in> elems a" "y \<in> elems b"
  shows "SInt_eq (CR_GetSingleElement a) (CR_GetSingleElement b) \<longleftrightarrow> x = y"
proof -
  note d = cr_sameD [OF assms(1)]
  show ?thesis
    using single_element [OF d(1) assms(2,4)] single_element [OF d(2) assms(3,5)] d
      elems_wf [OF d(1) assms(4)] elems_wf [OF d(2) assms(5)]
    by (simp add: SInt_eq_sem SInt_eq_iff)
qed

lemma disjoint_ranges:
  assumes "cr_same a b" "CR_IsEmptySet (CR_IntersectWith a b t)" "x \<in> elems a"
  shows "x \<notin> elems b"
  using inter_wf(1,3) [OF assms(1), of t] CR_IsEmptySet_elems assms(2,3) by blast

interpretation order: decision "order_step op" "rel_sem op" for op
proof
  fix a b x y r
  assume *: "cr_same a b" "x \<in> elems a" "y \<in> elems b" "order_step op a b = Some r"
  have op: "ordering op" and r: "r = BD_FromBool (ToBool (Compare op a b False))" "Compare op a b False \<noteq> UNO"
    using *(4) by (auto simp: order_step_def Let_def split: if_splits)
  have "decides (Compare op a b False) (rel_sem op (sval x) (sval y))"
    using Compare_sound [OF *(1-3) op, where u = False] by (simp add: ival_def)
  then show "rel_sem op (sval x) (sval y) \<in> bool_gamma r" using r decides_gamma by simp
qed (rule rel_sem_shift)

interpretation equality: decision "equality_step cne" "\<lambda>i j. (i = j) \<noteq> cne" for cne
proof
  fix a b x y r
  assume *: "cr_same a b" "x \<in> elems a" "y \<in> elems b" "equality_step cne a b = Some r"
  note d = cr_sameD [OF *(1)]
  have "sval x = sval y \<longleftrightarrow> x = y"
    using ival_inj [of x y True] elems_wf [OF d(1) *(2)] elems_wf [OF d(2) *(3)] d(3) by (simp add: ival_def)
  moreover have "r = BD_FromBool ((x = y) \<noteq> cne)"
  proof (cases "CR_IsSingleElement a \<and> CR_IsSingleElement b")
    case True
    then show ?thesis using *(4) single_equality [OF *(1) _ _ *(2,3)] by (simp add: equality_step_def)
  next
    case False
    then have "CR_IsEmptySet (CR_IntersectWith a b Signed)" "r = BD_FromBool cne"
      using *(4) unfolding equality_step_def by (simp_all only: if_False split: if_split_asm) simp_all
    moreover from this have "x \<noteq> y" using disjoint_ranges [OF *(1) _ *(2), of Signed] *(3) by blast
    ultimately show ?thesis by simp
  qed
  ultimately show "((sval x = sval y) \<noteq> cne) \<in> bool_gamma r" by simp
qed simp

lemma CompareTransitiveOrder_walk: "ordering op \<Longrightarrow> CompareTransitiveOrder op m n = bounds_walk (order_step op) m n"
  by (induction op m n rule: CompareTransitiveOrder.induct) (simp_all add: order_step_def Let_def)

lemma CompareTransitiveEquality_walk: "CompareTransitiveEquality m n cne = bounds_walk (equality_step cne) m n"
  by (induction m n cne rule: CompareTransitiveEquality.induct) (simp_all add: equality_step_def)

subsection \<open>The cascades\<close>

lemma found_bound:
  assumes "FindSymbolicBound d s = Some R" "SD_ok d" "x \<in> SD_gamma u \<rho> d"
  shows "cr_ok R" "width (lower R) = SD_Width d" "\<exists>e \<in> elems R. ival (\<not> u) x = ival (\<not> u) (\<rho> s) + sval e"
proof -
  have "(s, R) \<in> set (symbolics d)" using assms(1) by (auto simp: FindSymbolicBound_def dest: map_of_SomeD)
  then show "cr_ok R" "width (lower R) = SD_Width d" "\<exists>e \<in> elems R. ival (\<not> u) x = ival (\<not> u) (\<rho> s) + sval e"
    using assms(2) SD_gammaD(2) [OF assms(3)]
    by (fastforce simp: SD_ok_def bounds_ok_def bounds_hold_def bound_holds_def)+
qed

lemma found_order:
  assumes "SD_ok d" "x \<in> SD_gamma u \<rho> d" "ordering op" "w = SD_Width d"
  shows "decides (case FindSymbolicBound d s of Some R \<Rightarrow> Compare op R (CR_single (mkSInt w 0)) False | None \<Rightarrow> UNO)
    (rel_sem op (ival (\<not> u) x) (ival (\<not> u) (\<rho> s)))"
proof (cases "FindSymbolicBound d s")
  case (Some R)
  note f = found_bound [OF Some assms(1,2)]
  then obtain e where "e \<in> elems R" "ival (\<not> u) x = ival (\<not> u) (\<rho> s) + sval e" by blast
  then show ?thesis using Compare_zero [OF f(1) _ assms(3)] f(2) assms(4) Some by (simp add: rel_sem_shift)
qed simp

lemma rel_sem_flip: "rel_sem (SymbolicNeg op) a b \<longleftrightarrow> rel_sem op b a"
  by (cases op) (auto simp: rel_sem_def SymbolicNeg_def)

lemma ComputeTotalOrderingIntBinop_sound:
  assumes "SD_ok (rel_ld args)" "SD_ok (rel_rd args)" "SD_Width (rel_ld args) = SD_Width (rel_rd args)"
    "x \<in> SD_gamma (rel_uns args) \<rho> (rel_ld args)" "y \<in> SD_gamma (rel_uns args) \<rho> (rel_rd args)"
    "\<rho> (rel_l args) = x" "\<rho> (rel_r args) = y" "ordering (RelFrom (rel_op args))"
  shows "rel_sem (RelFrom (rel_op args)) (ival (\<not> rel_uns args) x) (ival (\<not> rel_uns args) y)
    \<in> bool_gamma (ComputeTotalOrderingIntBinop args)"
proof -
  let ?ia = "rel_ld args" and ?ib = "rel_rd args" and ?u = "rel_uns args" and ?op = "RelFrom (rel_op args)"
  let ?P = "rel_sem ?op (ival (\<not> ?u) x) (ival (\<not> ?u) y)"
  let ?w = "SD_Width ?ia"
  note x = SD_gammaD [OF assms(4)] and y = SD_gammaD [OF assms(5)]
  have same: "cr_same (numeric ?ia) (numeric ?ib)"
    using assms(1-3) by (simp add: SD_ok_def SD_Width_def CR_Width_def cr_same_def)
  have ne: "\<not> SD_IsBottom ?ia" "\<not> SD_IsBottom ?ib"
    using x(1) y(1) CR_IsEmptySet_elems cr_sameD [OF same] by (auto simp: SD_IsBottom_def)
  have flip: "ordering (SymbolicNeg ?op)" using assms(8) by (cases ?op) (simp_all add: ordering_def SymbolicNeg_def)
  have 1: "decides (Compare ?op (numeric ?ia) (numeric ?ib) ?u) ?P"
    using Compare_sound [OF same x(1) y(1) assms(8)] .
  have 2: "decides (case FindSymbolicBound ?ia (rel_r args) of
      Some ibs \<Rightarrow> Compare ?op ibs (CR_single (mkSInt ?w 0)) False | None \<Rightarrow> UNO) ?P"
    using found_order [OF assms(1,4,8)] assms(7) by fastforce
  have 3: "decides (case FindSymbolicBound ?ib (rel_l args) of
      Some ias \<Rightarrow> Compare (SymbolicNeg ?op) ias (CR_single (mkSInt ?w 0)) False | None \<Rightarrow> UNO) ?P"
    using found_order [OF assms(2,5) flip assms(3)] assms(6) unfolding rel_sem_flip by fastforce
  have 4: "?P \<in> bool_gamma (CompareTransitiveOrder ?op (symbolics ?ia) (symbolics ?ib))"
    using order.walk_sound [OF x(2) y(2), of ?w] assms(1-3)
    by (simp add: CompareTransitiveOrder_walk [OF assms(8)] SD_ok_def)
  show ?thesis
    unfolding ComputeTotalOrderingIntBinop_def Let_def
    using ne decides_gamma [OF 1] decides_gamma [OF 2] decides_gamma [OF 3] 4 by simp
qed

lemma found_equality:
  assumes "SD_ok d" "x \<in> SD_gamma u \<rho> d" "FindSymbolicBound d s = Some R" "w = SD_Width d"
  shows "CR_IsSingleElement R \<Longrightarrow> SInt_eq_u64 (CR_GetSingleElement R) 0 \<longleftrightarrow> ival (\<not> u) x = ival (\<not> u) (\<rho> s)"
    "\<not> CR_Contains R (SInt_Zero w) \<Longrightarrow> ival (\<not> u) x \<noteq> ival (\<not> u) (\<rho> s)"
proof -
  note f = found_bound [OF assms(3,1,2)]
  then obtain e where e: "e \<in> elems R" "ival (\<not> u) x = ival (\<not> u) (\<rho> s) + sval e" by blast
  note wf = elems_wf [OF f(1) e(1)]
  have z: "sval e = 0 \<longleftrightarrow> uval e = 0" using sval_0_iff [OF wf(1)] .
  show "SInt_eq_u64 (CR_GetSingleElement R) 0 \<longleftrightarrow> ival (\<not> u) x = ival (\<not> u) (\<rho> s)" if "CR_IsSingleElement R"
    using single_element [OF f(1) that e(1)] e(2) z by (simp add: SInt_eq_u64_sem)
  show "ival (\<not> u) x \<noteq> ival (\<not> u) (\<rho> s)" if "\<not> CR_Contains R (SInt_Zero w)"
  proof
    assume "ival (\<not> u) x = ival (\<not> u) (\<rho> s)"
    then have "uval e = 0" using e(2) z by simp
    then have "e = SInt_Zero w" using wf f(2) assms(4) by (simp add: SInt_eq_iff SInt_const_sem SInt_const_ok SInt_const_width)
    then show False using that e(1) by (simp add: elems_def)
  qed
qed

lemma ComputeEqualityIntBinop_sound:
  assumes "SD_ok ia" "SD_ok ib" "SD_Width ia = SD_Width ib"
    "x \<in> SD_gamma u \<rho> ia" "y \<in> SD_gamma u \<rho> ib" "\<rho> a = x" "\<rho> b = y"
  shows "((ival (\<not> u) x = ival (\<not> u) y) \<noteq> cne) \<in> bool_gamma (ComputeEqualityIntBinop ia ib a b cne)"
proof -
  let ?P = "(ival (\<not> u) x = ival (\<not> u) y) \<noteq> cne" and ?w = "SD_Width ia"
  note x = SD_gammaD [OF assms(4)] and y = SD_gammaD [OF assms(5)]
  have same: "cr_same (numeric ia) (numeric ib)"
    using assms(1-3) by (simp add: SD_ok_def SD_Width_def CR_Width_def cr_same_def)
  note d = cr_sameD [OF same]
  have ne: "\<not> SD_IsBottom ia" "\<not> SD_IsBottom ib"
    using x(1) y(1) CR_IsEmptySet_elems d by (auto simp: SD_IsBottom_def)
  have inj: "ival (\<not> u) x = ival (\<not> u) y \<longleftrightarrow> x = y"
    using ival_inj elems_wf [OF d(1) x(1)] elems_wf [OF d(2) y(1)] d(3) by simp
  have 1: "?P \<in> bool_gamma (BD_FromBool (SInt_eq (CR_GetSingleElement (numeric ia)) (CR_GetSingleElement (numeric ib)) \<noteq> cne))"
    if "CR_IsSingleElement (numeric ia) \<and> CR_IsSingleElement (numeric ib)"
    using single_equality [OF same _ _ x(1) y(1)] that inj by simp
  have 2: "?P \<in> bool_gamma (BD_FromBool cne)"
    if "CR_IsEmptySet (CR_IntersectWith (numeric ia) (numeric ib) (PreferFromBool (unsignedFlag ia)))"
  proof -
    have "x \<noteq> y" using disjoint_ranges [OF same that x(1)] y(1) by blast
    then show ?thesis using inj by simp
  qed
  have 3: "?P \<in> bool_gamma (BD_FromBool (SInt_eq_u64 (CR_GetSingleElement R) 0 \<noteq> cne))"
    if "FindSymbolicBound ia b = Some R" "CR_IsSingleElement R" for R
    using found_equality(1) [OF assms(1,4) that(1) refl that(2)] assms(7) by simp
  have 4: "?P \<in> bool_gamma (BD_FromBool (SInt_eq_u64 (CR_GetSingleElement R) 0 \<noteq> cne))"
    if "FindSymbolicBound ib a = Some R" "CR_IsSingleElement R" for R
    using found_equality(1) [OF assms(2,5) that(1) refl that(2)] assms(6) by auto
  have 5: "?P \<in> bool_gamma (BD_FromBool cne)"
    if "FindSymbolicBound ib a = Some R" "\<not> CR_Contains R (SInt_Zero ?w)" for R
    using found_equality(2) [OF assms(2,5) that(1) assms(3) that(2)] assms(6) by auto
  have 6: "?P \<in> bool_gamma (CompareTransitiveEquality (symbolics ia) (symbolics ib) cne)"
    using equality.walk_sound [OF x(2) y(2), of ?w cne] assms(1-3)
    by (simp add: CompareTransitiveEquality_walk SD_ok_def)
  show ?thesis
    unfolding ComputeEqualityIntBinop_def Let_def
    using ne 1 2 3 4 5 6 by (auto split: option.split)
qed

lemma ComputeEqualityBoolBinop_sound:
  assumes "bd_ok a" "bd_ok b" "x \<in> bool_gamma a" "y \<in> bool_gamma b"
  shows "((x = y) \<noteq> (op = B_NOTEQUAL)) \<in> bool_gamma (ComputeEqualityBoolBinop a b op)"
    "bd_ok (ComputeEqualityBoolBinop a b op)"
proof -
  have s: "BD_IsSingleValue a \<Longrightarrow> x = BD_GetSingleValue a" "BD_IsSingleValue b \<Longrightarrow> y = BD_GetSingleValue b"
    using BD_tests(1) [OF assms(1)] BD_tests(1) [OF assms(2)] assms(3,4) by simp_all
  have n: "\<not> BD_IsBottom a" "\<not> BD_IsBottom b"
    using BD_tests(3) [OF assms(1)] BD_tests(3) [OF assms(2)] assms(3,4) by auto
  show "((x = y) \<noteq> (op = B_NOTEQUAL)) \<in> bool_gamma (ComputeEqualityBoolBinop a b op)"
    "bd_ok (ComputeEqualityBoolBinop a b op)"
    using s n by (simp_all add: ComputeEqualityBoolBinop_def)
qed

lemma bd_ok_walk: "bd_ok (CompareTransitiveOrder op m n)" "bd_ok (CompareTransitiveEquality m n cne)"
proof -
  show "bd_ok (CompareTransitiveOrder op m n)"
    by (induction op m n rule: CompareTransitiveOrder.induct) (simp_all add: Let_def)
  show "bd_ok (CompareTransitiveEquality m n cne)"
    by (induction m n cne rule: CompareTransitiveEquality.induct) simp_all
qed

lemma ComputeRelIntBinop_ok: "bd_ok (ComputeRelIntBinop args)"
proof -
  have "bd_ok (ComputeEqualityIntBinop ia ib a b cne)" for ia ib a b cne
    unfolding ComputeEqualityIntBinop_def Let_def using bd_ok_walk(2)
    by (simp split: option.split del: CR_IntersectWith.simps)
  moreover have "bd_ok (ComputeTotalOrderingIntBinop args)"
    unfolding ComputeTotalOrderingIntBinop_def Let_def using bd_ok_walk(1) by simp
  ultimately show ?thesis by (simp add: ComputeRelIntBinop_def Let_def)
qed

subsection \<open>Properties\<close>

definition relational :: "BinaryExprKind \<Rightarrow> bool" where
  "relational op \<longleftrightarrow> op \<in> {B_LT, B_GT, B_LE, B_GE, B_EQUAL, B_NOTEQUAL}"

lemma ComputeRelIntBinop_covers:
  assumes "SD_ok (rel_ld args)" "SD_ok (rel_rd args)" "SD_Width (rel_ld args) = SD_Width (rel_rd args)"
    "x \<in> SD_gamma (rel_uns args) \<rho> (rel_ld args)" "y \<in> SD_gamma (rel_uns args) \<rho> (rel_rd args)"
    "\<rho> (rel_l args) = x" "\<rho> (rel_r args) = y" "relational (rel_op args)"
  shows "rel_sem (RelFrom (rel_op args)) (ival (\<not> rel_uns args) x) (ival (\<not> rel_uns args) y)
    \<in> bool_gamma (ComputeRelIntBinop args)"
proof (cases "rel_l args = rel_r args")
  case True
  then show ?thesis
    using assms(6-8) by (auto simp: ComputeRelIntBinop_def TrueOnSameSymbol_def relational_def RelFrom_def rel_sem_def)
next
  case False
  show ?thesis
  proof (cases "ordering (RelFrom (rel_op args))")
    case True
    then show ?thesis
      using False ComputeTotalOrderingIntBinop_sound [OF assms(1-7) True]
      by (simp add: ComputeRelIntBinop_def ordering_def)
  next
    case eq: False
    then have "rel_op args = B_EQUAL \<or> rel_op args = B_NOTEQUAL"
      using assms(8) by (auto simp: relational_def RelFrom_def ordering_def)
    then show ?thesis
      using False ComputeEqualityIntBinop_sound [OF assms(1-7), of "rel_op args = B_NOTEQUAL"]
      by (auto simp: ComputeRelIntBinop_def RelFrom_def rel_sem_def)
  qed
qed

text \<open>C5: the comparison of two abstract integers never excludes the outcome: for the operand values
  under any assignment that both abstract integers admit, the truth value of the comparison,
  signed or unsigned, is among those of the abstract result, whether it was decided by the
  numeric ranges, by a symbolic bound of one operand against the other or by bounds against
  a common third value.\<close>

theorem ComputeRelIntBinop_sound:
  assumes "SD_ok (rel_ld args)" "SD_ok (rel_rd args)" "SD_Width (rel_ld args) = SD_Width (rel_rd args)"
    "\<rho> (rel_l args) \<in> SD_gamma (rel_uns args) \<rho> (rel_ld args)" "\<rho> (rel_r args) \<in> SD_gamma (rel_uns args) \<rho> (rel_rd args)"
    "relational (rel_op args)"
  shows "rel_sem (RelFrom (rel_op args)) (ival (\<not> rel_uns args) (\<rho> (rel_l args))) (ival (\<not> rel_uns args) (\<rho> (rel_r args)))
    \<in> bool_gamma (ComputeRelIntBinop args)"
  using ComputeRelIntBinop_covers [OF assms(1-5) refl refl assms(6)] .

lemma ComputeRelIntBinop_sound_witness:
  "BD_IsFalse (ComputeRelIntBinop
      \<lparr>rel_ld = SD_symbolics (CR_Full I8) [(3, mkCR (mkSInt I8 1) (mkSInt I8 5))] False,
       rel_rd = SD_symbolics (CR_Full I8) [(3, mkCR (mkSInt I8 250) (mkSInt I8 1))] False,
       rel_l = 1, rel_r = 2, rel_op = B_LT, rel_uns = False\<rparr>) \<and>
   \<not> rel_sem (RelFrom B_LT) (ival (\<not> False) (mkSInt I8 12)) (ival (\<not> False) (mkSInt I8 9))"
proof -
  let ?p = "mkCR (mkSInt I8 1) (mkSInt I8 5)" and ?q = "mkCR (mkSInt I8 250) (mkSInt I8 1)"
  let ?a = "\<lparr>rel_ld = SD_symbolics (CR_Full I8) [(3, ?p)] False, rel_rd = SD_symbolics (CR_Full I8) [(3, ?q)] False,
       rel_l = 1, rel_r = 2, rel_op = B_LT, rel_uns = False\<rparr>"
  let ?\<rho> = "\<lambda>s :: nat. if s = 1 then mkSInt I8 12 else if s = 2 then mkSInt I8 9 else mkSInt I8 10"
  have ok: "cr_ok ?p" "cr_ok ?q" "CR_Width ?p = I8" "CR_Width ?q = I8" by code_simp+
  have mem: "same (lower ?p) (mkSInt I8 2) \<and> CR_Contains ?p (mkSInt I8 2)"
    "same (lower ?q) (mkSInt I8 255) \<and> CR_Contains ?q (mkSInt I8 255)" by code_simp+
  have v: "sval (mkSInt I8 12) = sval (mkSInt I8 10) + sval (mkSInt I8 2)"
    "sval (mkSInt I8 9) = sval (mkSInt I8 10) + sval (mkSInt I8 255)" by code_simp+
  have full: "mkSInt I8 n \<in> elems (CR_Full I8)" for n by (simp add: elems_Full mkSInt_ok mkSInt_width)
  have bounds: "bound_holds False ?\<rho> (mkSInt I8 12) 3 ?p" "bound_holds False ?\<rho> (mkSInt I8 9) 3 ?q"
    using mem v unfolding bound_holds_def ival_def elems_def by (fastforce simp del: One_nat_def)+
  have gamma: "?\<rho> (rel_l ?a) \<in> SD_gamma (rel_uns ?a) ?\<rho> (rel_ld ?a)" "?\<rho> (rel_r ?a) \<in> SD_gamma (rel_uns ?a) ?\<rho> (rel_rd ?a)"
    using bounds full unfolding SD_gamma_def bounds_hold_def by simp_all
  have wf: "SD_ok (rel_ld ?a)" "SD_ok (rel_rd ?a)" "SD_Width (rel_ld ?a) = SD_Width (rel_rd ?a)" "relational (rel_op ?a)"
    using ok by (simp_all add: SD_ok_def bounds_ok_def SD_Width_def CR_Width_def CR_const_ok CR_const_width relational_def)
  have res: "ComputeRelIntBinop ?a = BD_False" "BD_IsFalse BD_False" by code_simp+
  show ?thesis
    using ComputeRelIntBinop_sound [OF wf(1-3) gamma wf(4)] unfolding res(1) using res(2) by simp
qed

end
