(* ===== verification/SIntDomMerge.thy ===== *)
theory SIntDomMerge
  imports SIntDomCmp
begin

section \<open>Union and intersection of abstract integers\<close>

text \<open>
  Both operations merge the numeric ranges and walk the two ascending lists of symbolic
  bounds with the same function, which takes a missing bound as a null pointer. The locale
  \<open>merge\<close> states what such a function owes for the connective it implements; its
  interpretations are the two functions of the code.
\<close>

definition opt_holds :: "bool \<Rightarrow> env \<Rightarrow> SInt \<Rightarrow> PtrSymbol \<Rightarrow> ConstantRange option \<Rightarrow> bool" where
  "opt_holds u \<rho> x s r \<longleftrightarrow> (case r of None \<Rightarrow> True | Some R \<Rightarrow> bound_holds u \<rho> x s R)"

definition opt_ok :: "IntWidth \<Rightarrow> ConstantRange option \<Rightarrow> bool" where
  "opt_ok w r \<longleftrightarrow> (case r of None \<Rightarrow> True | Some R \<Rightarrow> cr_ok R \<and> width (lower R) = w)"

definition merged :: "bool \<Rightarrow> env \<Rightarrow> SInt \<Rightarrow> PtrSymbol \<times> ConstantRange \<Rightarrow> bool" where
  "merged u \<rho> x e \<longleftrightarrow> CR_IsFullSet (snd e) \<or> bound_holds u \<rho> x (fst e) (snd e)"

lemma bounds_ok_Cons:
  "bounds_ok w ((s, R) # m) \<longleftrightarrow>
    (\<forall>k \<in> fst ` set m. s < k) \<and> cr_ok R \<and> width (lower R) = w \<and> bounds_ok w m"
  by (auto simp: bounds_ok_def)

lemma bounds_hold_Cons: "bounds_hold u \<rho> x ((s, R) # m) \<longleftrightarrow> bound_holds u \<rho> x s R \<and> bounds_hold u \<rho> x m"
  by (simp add: bounds_hold_def)

lemma CollectBounds_ok:
  assumes "CollectBounds ts m = Some m'" "bounds_ok w m" "\<forall>e \<in> set ts. cr_ok (snd e) \<and> width (lower (snd e)) = w"
  shows "bounds_ok w m'"
  using assms
proof (induction ts m rule: CollectBounds.induct)
  case (2 s R ts m)
  then show ?case by (auto intro: bounds_emplace split: if_splits)
qed simp

lemma CollectBounds_hold:
  assumes "bounds_hold u \<rho> x m" "\<forall>e \<in> set ts. cr_ok (snd e) \<and> merged u \<rho> x e"
  shows "\<exists>m'. CollectBounds ts m = Some m' \<and> bounds_hold u \<rho> x m'"
  using assms
proof (induction ts m rule: CollectBounds.induct)
  case (2 s R ts m)
  have "\<not> CR_IsEmptySet R"
    using 2(3) CR_IsEmptySet_elems [of R] CR_tests_sem(1,2) [of R] by (auto simp: merged_def bound_holds_def)
  moreover have "CR_IsNonTrivial R \<Longrightarrow> bounds_hold u \<rho> x (map_emplace s R m)"
    using 2(2,3) by (intro bounds_emplace) (auto simp: merged_def CR_IsNonTrivial_def)
  ultimately show ?case using 2 by (cases "CR_IsNonTrivial R") simp_all
qed simp

locale merge =
  fixes f :: OptionalMergeFun and combine :: "bool \<Rightarrow> bool \<Rightarrow> bool"
  assumes total: "a \<noteq> None \<or> b \<noteq> None \<Longrightarrow> opt_ok w a \<Longrightarrow> opt_ok w b \<Longrightarrow>
      \<exists>r. f a b = Some r \<and> cr_ok r \<and> width (lower r) = w"
    and numeric: "cr_same p q \<Longrightarrow> f (Some p) (Some q) = Some r \<Longrightarrow> combine (x \<in> elems p) (x \<in> elems q) \<Longrightarrow> x \<in> elems r"
    and bound: "opt_ok w a \<Longrightarrow> opt_ok w b \<Longrightarrow> f a b = Some r \<Longrightarrow>
      combine (opt_holds u \<rho> x s a) (opt_holds u \<rho> x s b) \<Longrightarrow> merged u \<rho> x (s, r)"
    and mono: "combine P Q \<Longrightarrow> (P \<Longrightarrow> P') \<Longrightarrow> (Q \<Longrightarrow> Q') \<Longrightarrow> combine P' Q'"
begin

lemma step:
  assumes "a \<noteq> None \<or> b \<noteq> None" "opt_ok w a" "opt_ok w b"
  obtains r where "f a b = Some r" "cr_ok r" "width (lower r) = w"
    "\<And>u \<rho> x. combine (opt_holds u \<rho> x s a) (opt_holds u \<rho> x s b) \<Longrightarrow> merged u \<rho> x (s, r)"
  using total [OF assms] bound [OF assms(2,3)] by blast

lemma walk:
  "bounds_ok w m \<Longrightarrow> bounds_ok w n \<Longrightarrow>
    \<exists>ts. MergeSymbolicRanges f m n = Some ts \<and> (\<forall>e \<in> set ts. cr_ok (snd e) \<and> width (lower (snd e)) = w) \<and>
      (\<forall>u \<rho> x. combine (bounds_hold u \<rho> x m) (bounds_hold u \<rho> x n) \<longrightarrow> (\<forall>e \<in> set ts. merged u \<rho> x e))"
proof (induction "length m + length n" arbitrary: m n rule: less_induct)
  case less
  have adv: ?case
    if rest: "length m' + length n' < length m + length n" "bounds_ok w m'" "bounds_ok w n'"
      and ab: "a \<noteq> None \<or> b \<noteq> None" "opt_ok w a" "opt_ok w b"
      and eq: "MergeSymbolicRanges f m n =
        do { r \<leftarrow> f a b; rest \<leftarrow> MergeSymbolicRanges f m' n'; Some ((s, r) # rest) }"
      and holds: "\<And>u \<rho> x. bounds_hold u \<rho> x m \<Longrightarrow> opt_holds u \<rho> x s a \<and> bounds_hold u \<rho> x m'"
        "\<And>u \<rho> x. bounds_hold u \<rho> x n \<Longrightarrow> opt_holds u \<rho> x s b \<and> bounds_hold u \<rho> x n'" for a b s m' n'
  proof -
    obtain r where r: "f a b = Some r" "cr_ok r" "width (lower r) = w"
        "\<And>u \<rho> x. combine (opt_holds u \<rho> x s a) (opt_holds u \<rho> x s b) \<Longrightarrow> merged u \<rho> x (s, r)"
      using step [OF ab, of s] by blast
    obtain ts where ts: "MergeSymbolicRanges f m' n' = Some ts" "\<forall>e \<in> set ts. cr_ok (snd e) \<and> width (lower (snd e)) = w"
        "\<And>u \<rho> x. combine (bounds_hold u \<rho> x m') (bounds_hold u \<rho> x n') \<Longrightarrow> \<forall>e \<in> set ts. merged u \<rho> x e"
      using less(1) [OF rest] by blast
    have "\<forall>e \<in> set ((s, r) # ts). merged u \<rho> x e" if "combine (bounds_hold u \<rho> x m) (bounds_hold u \<rho> x n)" for u \<rho> x
      using r(4) [OF mono [OF that]] ts(3) [OF mono [OF that]] holds by auto
    then show ?thesis using eq r ts by auto
  qed
  show ?case
  proof (cases m)
    case m: Nil
    show ?thesis
    proof (cases n)
      case Nil
      then show ?thesis using m by simp
    next
      case (Cons e n')
      obtain sb rb where e: "e = (sb, rb)" by (cases e)
      show ?thesis
        using less(2,3) m Cons e by (intro adv [of "[]" n' None "Some rb" sb])
          (simp_all add: opt_ok_def opt_holds_def bounds_ok_Cons bounds_hold_Cons)
    qed
  next
    case m: (Cons d m')
    obtain sa ra where d: "d = (sa, ra)" by (cases d)
    show ?thesis
    proof (cases n)
      case Nil
      then show ?thesis
        using less(2,3) m d by (intro adv [of m' "[]" "Some ra" None sa])
          (simp_all add: opt_ok_def opt_holds_def bounds_ok_Cons bounds_hold_Cons)
    next
      case n: (Cons e n')
      obtain sb rb where e: "e = (sb, rb)" by (cases e)
      consider "sa < sb" | "sb < sa" | "sa = sb" by linarith
      then show ?thesis
      proof cases
        case 1
        then show ?thesis
          using less(2,3) m d n e by (intro adv [of m' n "Some ra" None sa])
            (simp_all add: opt_ok_def opt_holds_def bounds_ok_Cons bounds_hold_Cons)
      next
        case 2
        then show ?thesis
          using less(2,3) m d n e by (intro adv [of m n' None "Some rb" sb])
            (simp_all add: opt_ok_def opt_holds_def bounds_ok_Cons bounds_hold_Cons)
      next
        case 3
        then show ?thesis
          using less(2,3) m d n e by (intro adv [of m' n' "Some ra" "Some rb" sa])
            (simp_all add: opt_ok_def opt_holds_def bounds_ok_Cons bounds_hold_Cons)
      qed
    qed
  qed
qed

lemma merge_sound:
  assumes "SD_ok a" "SD_ok b" "SD_Width a = SD_Width b"
  shows "\<exists>d. MergeRangesForLogicalOperation a b f = Some d \<and> SD_ok d \<and> SD_Width d = SD_Width a \<and>
    (\<forall>u \<rho> x. combine (x \<in> SD_gamma u \<rho> a) (x \<in> SD_gamma u \<rho> b) \<longrightarrow> x \<in> SD_gamma u \<rho> d)"
proof -
  let ?w = "SD_Width a"
  have same: "cr_same (SIntDomain.numeric a) (SIntDomain.numeric b)"
    using assms by (simp add: SD_ok_def SD_Width_def CR_Width_def cr_same_def)
  obtain n where n: "f (Some (SIntDomain.numeric a)) (Some (SIntDomain.numeric b)) = Some n" "cr_ok n" "width (lower n) = ?w"
    using total [of "Some (SIntDomain.numeric a)" "Some (SIntDomain.numeric b)" ?w] assms
    by (auto simp: opt_ok_def SD_ok_def SD_Width_def CR_Width_def)
  obtain ts where ts: "MergeSymbolicRanges f (symbolics a) (symbolics b) = Some ts"
      "\<forall>e \<in> set ts. cr_ok (snd e) \<and> width (lower (snd e)) = ?w"
      "\<And>u \<rho> x. combine (bounds_hold u \<rho> x (symbolics a)) (bounds_hold u \<rho> x (symbolics b)) \<Longrightarrow>
        \<forall>e \<in> set ts. merged u \<rho> x e"
    using walk [of ?w "symbolics a" "symbolics b"] assms by (auto simp: SD_ok_def)
  have mem: "x \<in> elems n \<and> (\<exists>m. CollectBounds ts [] = Some m \<and> bounds_hold u \<rho> x m)"
    if c: "combine (x \<in> SD_gamma u \<rho> a) (x \<in> SD_gamma u \<rho> b)" for u \<rho> x
  proof -
    have "x \<in> elems n" by (rule numeric [OF same n(1) mono [OF c]]) (simp_all add: SD_gamma_def)
    moreover have "\<forall>e \<in> set ts. merged u \<rho> x e" by (rule ts(3) [OF mono [OF c]]) (simp_all add: SD_gamma_def)
    ultimately show ?thesis using CollectBounds_hold [of u \<rho> x "[]" ts] ts(2) by simp
  qed
  have bot: "SD_ok (SD_Bottom ?w v)" "SD_Width (SD_Bottom ?w v) = ?w" for v
    by (simp_all add: SD_Bottom_def SD_Width_def CR_const_ok CR_Width_def CR_const_width)
  show ?thesis
  proof (cases "CR_IsEmptySet n")
    case True
    then have "\<not> combine (x \<in> SD_gamma u \<rho> a) (x \<in> SD_gamma u \<rho> b)" for u \<rho> x
      using mem [of x u \<rho>] CR_IsEmptySet_elems [OF n(2)] by blast
    then show ?thesis using True n bot by (simp add: MergeRangesForLogicalOperation_def)
  next
    case False
    show ?thesis
    proof (cases "CollectBounds ts []")
      case None
      then have "\<not> combine (x \<in> SD_gamma u \<rho> a) (x \<in> SD_gamma u \<rho> b)" for u \<rho> x
        using mem [of x u \<rho>] by auto
      then show ?thesis using False None n(1) ts(1) bot by (simp add: MergeRangesForLogicalOperation_def)
    next
      case (Some m)
      have "bounds_ok ?w m" using CollectBounds_ok [OF Some _ ts(2)] by simp
      then have "SD_ok (SD_symbolics n m v)" "SD_Width (SD_symbolics n m v) = ?w" for v
        using n by (simp_all add: SD_ok_def SD_Width_def CR_Width_def)
      moreover have "x \<in> SD_gamma u \<rho> (SD_symbolics n m v)"
        if "combine (x \<in> SD_gamma u \<rho> a) (x \<in> SD_gamma u \<rho> b)" for u \<rho> x v
        using mem [OF that] Some by (simp add: SD_gamma_def)
      ultimately show ?thesis using False Some n(1) ts(1) by (simp add: MergeRangesForLogicalOperation_def)
    qed
  qed
qed

end

subsection \<open>The two merge functions\<close>

lemma Full_full: "CR_IsFullSet (CR_Full w)"
  using CR_tests_sem(1) [of "CR_Full w"] modulus_ge [of w]
  by (simp add: CR_const_ok CR_const_sel SInt_const_sem)

lemma bound_inter:
  assumes "bound_holds u \<rho> x s R" "bound_holds u \<rho> x s Q" "cr_same R Q"
  shows "bound_holds u \<rho> x s (CR_IntersectWith R Q t)"
proof -
  obtain d e where de: "d \<in> elems R" "e \<in> elems Q" "ival (\<not> u) x = ival (\<not> u) (\<rho> s) + sval d" "sval d = sval e"
    using assms(1,2) by (auto simp: bound_holds_def)
  note d = cr_sameD [OF assms(3)]
  have "d = e"
    using ival_inj [of d e True] elems_wf [OF d(1) de(1)] elems_wf [OF d(2) de(2)] d(3) de(4) by (simp add: ival_def)
  then show ?thesis using inter_wf(3) [OF assms(3), of t] de by (auto simp: bound_holds_def)
qed

interpretation disj: merge DisjunctionInternalMergeFun "(\<or>)"
proof
  fix a b w
  assume "a \<noteq> None \<or> b \<noteq> None" "opt_ok w a" "opt_ok w b"
  then show "\<exists>r. DisjunctionInternalMergeFun a b = Some r \<and> cr_ok r \<and> width (lower r) = w"
    by (cases a; cases b)
      (simp_all add: DisjunctionInternalMergeFun_def opt_ok_def CR_const_ok CR_const_width CR_Width_def union_wf cr_same_def)
next
  fix p q r x
  assume "cr_same p q" "DisjunctionInternalMergeFun (Some p) (Some q) = Some r" "x \<in> elems p \<or> x \<in> elems q"
  then show "x \<in> elems r" using union_wf(3,4) [of p q Smallest] by (auto simp: DisjunctionInternalMergeFun_def)
next
  fix w a b r u \<rho> x s
  assume *: "opt_ok w a" "opt_ok w b" "DisjunctionInternalMergeFun a b = Some r" "opt_holds u \<rho> x s a \<or> opt_holds u \<rho> x s b"
  show "merged u \<rho> x (s, r)"
  proof (cases "a = None \<or> b = None")
    case True
    then show ?thesis
      using *(3) by (cases a; cases b) (auto simp: DisjunctionInternalMergeFun_def merged_def Full_full)
  next
    case False
    then obtain R Q where ab: "a = Some R" "b = Some Q" by auto
    then have "cr_same R Q" using *(1,2) by (simp add: opt_ok_def cr_same_def)
    then show ?thesis
      using * ab union_wf(3,4) [of R Q Smallest]
      by (auto simp: DisjunctionInternalMergeFun_def merged_def opt_holds_def bound_holds_def)
  qed
qed auto

interpretation conj: merge ConjunctionInternalMergeFun "(\<and>)"
proof
  fix a b w
  assume "a \<noteq> None \<or> b \<noteq> None" "opt_ok w a" "opt_ok w b"
  then show "\<exists>r. ConjunctionInternalMergeFun a b = Some r \<and> cr_ok r \<and> width (lower r) = w"
    by (cases a; cases b) (simp_all add: ConjunctionInternalMergeFun_def opt_ok_def inter_wf cr_same_def)
next
  fix p q r x
  assume "cr_same p q" "ConjunctionInternalMergeFun (Some p) (Some q) = Some r" "x \<in> elems p \<and> x \<in> elems q"
  then show "x \<in> elems r" using inter_wf(3) [of p q Smallest] by (auto simp: ConjunctionInternalMergeFun_def)
next
  fix w a b r u \<rho> x s
  assume *: "opt_ok w a" "opt_ok w b" "ConjunctionInternalMergeFun a b = Some r" "opt_holds u \<rho> x s a \<and> opt_holds u \<rho> x s b"
  then show "merged u \<rho> x (s, r)"
    using bound_inter [of u \<rho> x s]
    by (cases a; cases b) (auto simp: ConjunctionInternalMergeFun_def merged_def opt_holds_def opt_ok_def cr_same_def)
qed auto

subsection \<open>Properties\<close>

lemma SD_Unions_sound:
  assumes "SD_ok a" "SD_ok b" "SD_Width a = SD_Width b"
  shows "\<exists>d. SD_Unions a b = Some d \<and> SD_ok d \<and> SD_Width d = SD_Width a \<and>
    (\<forall>u \<rho>. SD_gamma u \<rho> a \<union> SD_gamma u \<rho> b \<subseteq> SD_gamma u \<rho> d)"
  using disj.merge_sound [OF assms] unfolding SD_Unions_def by blast

text \<open>C6: the union of two abstract integers covers both, under every assignment and with the
  symbolic bounds that remain, the intersection covers what they share, and both keep the
  invariant of the domain.\<close>

theorem SD_Unions_Intersects_sound:
  assumes "SD_ok a" "SD_ok b" "SD_Width a = SD_Width b"
  shows "\<exists>d e. SD_Unions a b = Some d \<and> SD_Intersects a b = Some e \<and> SD_ok d \<and> SD_ok e \<and>
    SD_gamma u \<rho> a \<union> SD_gamma u \<rho> b \<subseteq> SD_gamma u \<rho> d \<and> SD_gamma u \<rho> a \<inter> SD_gamma u \<rho> b \<subseteq> SD_gamma u \<rho> e"
  using SD_Unions_sound [OF assms] conj.merge_sound [OF assms] unfolding SD_Intersects_def by blast

lemma SD_Unions_Intersects_sound_witness:
  "SD_gamma False (\<lambda>_. mkSInt I8 9) (SD_symbolics (mkCR (mkSInt I8 10) (mkSInt I8 20)) [(1, mkCR (mkSInt I8 1) (mkSInt I8 3)), (4, CR_single (mkSInt I8 7))] False)
   \<subseteq> SD_gamma False (\<lambda>_. mkSInt I8 9) (SD_symbolics (mkCR (mkSInt I8 5) (mkSInt I8 20)) [(1, mkCR (mkSInt I8 1) (mkSInt I8 6))] False)"
proof -
  let ?a = "SD_symbolics (mkCR (mkSInt I8 10) (mkSInt I8 20)) [(1, mkCR (mkSInt I8 1) (mkSInt I8 3)), (4, CR_single (mkSInt I8 7))] False"
  let ?b = "SD_symbolics (mkCR (mkSInt I8 5) (mkSInt I8 15)) [(1, mkCR (mkSInt I8 2) (mkSInt I8 6))] False"
  have ok: "SD_ok ?a" "SD_ok ?b" "SD_Width ?a = SD_Width ?b" by code_simp+
  have "SD_Unions ?a ?b = Some (SD_symbolics (mkCR (mkSInt I8 5) (mkSInt I8 20)) [(1, mkCR (mkSInt I8 1) (mkSInt I8 6))] False)"
    by code_simp
  with SD_Unions_Intersects_sound [OF ok, of False "\<lambda>_. mkSInt I8 9"] show ?thesis by (metis Un_subset_iff option.inject)
qed

end
