(* ===== verification/ValueRangeDefs.thy ===== *)
theory ValueRangeDefs
  imports SIntDomDefs
begin

section \<open>Value-range analysis: definitions\<close>

text \<open>
  The transfer functions of \<open>CHIR/Analysis/ValueRangeAnalysis\<close> over the abstract domain of
  \<open>ValueDomain.h\<close> and the part of \<open>State\<close> (\<open>ValueAnalysis.h\<close>) that they use: the map from
  the values of the function to their abstract values. References are numbers, the top
  reference is a constructor of its own. The diagnostics that constant evaluation raises are a
  list next to the result. The map of a state is a function, so the iteration order of the
  code's hash map, which nothing here depends on, is not modelled.
\<close>

subsection \<open>Types\<close>

datatype CHIRType = T_INT IntTypeKind | T_BOOLEAN | T_STRUCT_ENUM | T_REF | T_OTHER

definition IsInteger :: "CHIRType \<Rightarrow> bool" where
  "IsInteger ty \<longleftrightarrow> (case ty of T_INT k \<Rightarrow> k \<noteq> TYPE_OTHER | _ \<Rightarrow> False)"

definition IsBoolean :: "CHIRType \<Rightarrow> bool" where
  "IsBoolean ty \<longleftrightarrow> ty = T_BOOLEAN"

definition IsRefTy :: "CHIRType \<Rightarrow> bool" where
  "IsRefTy ty \<longleftrightarrow> ty = T_REF"

definition TypeKindOf :: "CHIRType \<Rightarrow> IntTypeKind" where
  "TypeKindOf ty = (case ty of T_INT k \<Rightarrow> k | _ \<Rightarrow> TYPE_OTHER)"

definition IsUnsignedTy :: "CHIRType \<Rightarrow> bool" where
  "IsUnsignedTy ty \<longleftrightarrow> IsUnsignedInteger (TypeKindOf ty)"

definition CanAnalyse :: "CHIRType \<Rightarrow> bool" where
  "CanAnalyse ty = (if IsInteger ty \<or> IsBoolean ty then True else False)"

subsection \<open>Ranges and abstract values\<close>

datatype ValueRange = BoolRange BoolDomain | SIntRange SIntDomain

text \<open>\<open>Join\<close> of a range: no result if nothing changes. Ranges of different kinds are asserted
  away by the code, and give an error here.\<close>

definition BoolRange_Join :: "BoolDomain \<Rightarrow> BoolDomain \<Rightarrow> BoolDomain option" where
  "BoolRange_Join domain rhs = (if BD_IsSame domain rhs then None else Some (BD_Union domain rhs))"

definition SIntRange_Join :: "SIntDomain \<Rightarrow> SIntDomain \<Rightarrow> SIntDomain option option" where
  "SIntRange_Join domain rhs =
     (if \<not> SD_IsSame domain rhs \<or> (CR_IsFullSet (numeric domain) \<and> symbolics domain \<noteq> [])
      then map_option Some (SD_Unions domain rhs)
      else Some None)"

definition ValueRange_Join :: "ValueRange \<Rightarrow> ValueRange \<Rightarrow> ValueRange option option" where
  "ValueRange_Join l r =
     (case (l, r) of
        (BoolRange a, BoolRange b) \<Rightarrow> Some (map_option BoolRange (BoolRange_Join a b))
      | (SIntRange a, SIntRange b) \<Rightarrow> map_option (map_option SIntRange) (SIntRange_Join a b)
      | _ \<Rightarrow> None)"

datatype RefId = Ref nat | TopRef

datatype 'a ValueDomain = VD_Bottom | VD_Ref RefId | VD_Val 'a | VD_Top

definition VD_of_bool :: "bool \<Rightarrow> 'a ValueDomain" where
  "VD_of_bool isTop = (if isTop then VD_Top else VD_Bottom)"

definition VD_CheckAbsVal :: "'a ValueDomain \<Rightarrow> 'a option" where
  "VD_CheckAbsVal d = (case d of VD_Val a \<Rightarrow> Some a | _ \<Rightarrow> None)"

text \<open>The result is the domain after the join and whether it has changed.\<close>

definition VD_Join ::
    "('a \<Rightarrow> 'a \<Rightarrow> 'a option option) \<Rightarrow> 'a ValueDomain \<Rightarrow> 'a ValueDomain \<Rightarrow> ('a ValueDomain \<times> bool) option" where
  "VD_Join join l r =
     (if l = VD_Top \<or> r = VD_Bottom then Some (l, False)
      else if r = VD_Top then Some (VD_Top, True)
      else if l = VD_Bottom then Some (r, True)
      else
        (case (l, r) of
           (VD_Ref a, VD_Ref b) \<Rightarrow>
             Some (if a = TopRef then (l, False)
                   else if b = TopRef then (VD_Ref TopRef, True)
                   else if a = b then (l, False)
                   else (VD_Ref TopRef, True))
         | (VD_Val a, VD_Val b) \<Rightarrow>
             do {
               res \<leftarrow> join a b;
               Some (case res of Some v \<Rightarrow> (VD_Val v, True) | None \<Rightarrow> (l, False))
             }
         | _ \<Rightarrow> None))"

subsection \<open>States\<close>

type_synonym RangeState = "PtrSymbol \<rightharpoonup> ValueRange ValueDomain"

definition Update :: "PtrSymbol \<Rightarrow> ValueRange \<Rightarrow> RangeState \<Rightarrow> RangeState" where
  "Update dest absVal st = st(dest \<mapsto> VD_Val absVal)"

definition SetToBound :: "PtrSymbol \<Rightarrow> bool \<Rightarrow> RangeState \<Rightarrow> RangeState" where
  "SetToBound dest isTop st = st(dest \<mapsto> VD_of_bool isTop)"

definition SetToTopOrTopRef :: "PtrSymbol \<Rightarrow> bool \<Rightarrow> RangeState \<Rightarrow> RangeState" where
  "SetToTopOrTopRef dest isRef st = st(dest \<mapsto> (if isRef then VD_Ref TopRef else VD_Top))"

definition TrySetToTopOrTopRef :: "PtrSymbol \<Rightarrow> bool \<Rightarrow> RangeState \<Rightarrow> RangeState" where
  "TrySetToTopOrTopRef dest isRef st =
     (case st dest of Some _ \<Rightarrow> st | None \<Rightarrow> SetToTopOrTopRef dest isRef st)"

definition CheckAbstractValue :: "RangeState \<Rightarrow> PtrSymbol \<Rightarrow> ValueRange option" where
  "CheckAbstractValue st obj = (case st obj of Some d \<Rightarrow> VD_CheckAbsVal d | None \<Rightarrow> None)"

definition ClearState :: "RangeState \<Rightarrow> RangeState" where
  "ClearState st = (\<lambda>k. map_option (\<lambda>d. case d of VD_Val _ \<Rightarrow> VD_Top | _ \<Rightarrow> d) (st k))"

definition GetDefaultIntCache :: "CHIRType \<Rightarrow> SIntDomain" where
  "GetDefaultIntCache ty = SD_numeric (CR_Full (ToWidth (TypeKindOf ty))) (IsUnsignedTy ty)"

definition GetBoolDomainFromState :: "RangeState \<Rightarrow> PtrSymbol \<Rightarrow> CHIRType \<Rightarrow> BoolDomain" where
  "GetBoolDomainFromState st v ty =
     (if \<not> IsBoolean ty then BD_Top
      else
        (case st v of
           None \<Rightarrow> BD_Top
         | Some d \<Rightarrow>
             if d = VD_Top then BD_Top
             else (case VD_CheckAbsVal d of Some (BoolRange b) \<Rightarrow> b | _ \<Rightarrow> BD_Top)))"

definition GetSIntDomainFromState :: "RangeState \<Rightarrow> PtrSymbol \<Rightarrow> CHIRType \<Rightarrow> SIntDomain" where
  "GetSIntDomainFromState st v ty =
     (case st v of
        None \<Rightarrow> GetDefaultIntCache ty
      | Some d \<Rightarrow>
          if d = VD_Top then GetDefaultIntCache ty
          else (case VD_CheckAbsVal d of Some (SIntRange s) \<Rightarrow> s | _ \<Rightarrow> GetDefaultIntCache ty))"

subsection \<open>Binary expressions\<close>

record BinaryExpr =
  be_result :: PtrSymbol
  be_resultTy :: CHIRType
  be_lhs :: PtrSymbol
  be_lhsTy :: CHIRType
  be_rhs :: PtrSymbol
  be_rhsTy :: CHIRType
  be_kind :: BinaryExprKind
  be_ov :: OverflowStrategy

datatype Diag = DivisorIsZero BinaryExprKind | ArithmeticOverflow BinaryExprKind int int

definition IsUnsignedArithmetic :: "BinaryExpr \<Rightarrow> bool" where
  "IsUnsignedArithmetic expr \<longleftrightarrow> IsUnsignedTy (be_lhsTy expr) \<or> be_lhsTy expr = T_STRUCT_ENUM"

definition IsBasicBinaryExpr :: "BinaryExpr \<Rightarrow> bool" where
  "IsBasicBinaryExpr expr \<longleftrightarrow> be_kind expr \<in> {B_ADD, B_SUB, B_MUL, B_DIV, B_MOD, B_EXP} \<and> be_kind expr \<noteq> B_EXP"

definition CheckDivZero :: "BinaryExprKind \<Rightarrow> int \<Rightarrow> bool \<times> Diag list" where
  "CheckDivZero kind rVal =
     (if rVal = 0 \<and> (kind = B_DIV \<or> kind = B_MOD) then (True, [DivisorIsZero kind]) else (False, []))"

definition CheckSingleValueOverflow :: "CHIRArithmeticBinopArgs \<Rightarrow> (SIntDomain \<times> Diag list) option" where
  "CheckSingleValueOverflow args =
     (let exprKind = ToExprKind (arg_op args); w = SD_Width (ld args)
      in if arg_uns args then
           let a = uint (SInt_UVal (lower (numeric (ld args)))); b = uint (SInt_UVal (lower (numeric (rd args))));
               (isZero, diags) = CheckDivZero (arg_op args) b
           in if isZero then Some (SD_Top w True, diags)
              else do {
                (isOv, res) \<leftarrow> IsUIntOverflow (l_type args) exprKind a b (arg_ov args);
                if isOv \<and> arg_ov args = THROWING then Some (SD_Top w True, [ArithmeticOverflow (arg_op args) a b])
                else Some (SD_numeric (CR_single (mkSInt w (word_of_int res))) True, [])
              }
         else
           let a = sint (SInt_SVal (lower (numeric (ld args)))); b = sint (SInt_SVal (lower (numeric (rd args))));
               (isZero, diags) = CheckDivZero (arg_op args) b
           in if isZero then Some (SD_Top w False, diags)
              else do {
                (isOv, res) \<leftarrow> IsIntOverflow (l_type args) exprKind a b (arg_ov args);
                if isOv \<and> arg_ov args = THROWING then Some (SD_Top w False, [ArithmeticOverflow (arg_op args) a b])
                else Some (SD_numeric (CR_single (mkSInt w (word_of_int res))) False, [])
              })"

definition GenerateBoolRangeFromBinaryOp :: "RangeState \<Rightarrow> BinaryExpr \<Rightarrow> BoolDomain" where
  "GenerateBoolRangeFromBinaryOp st expr =
     (let lhs = be_lhs expr; rhs = be_rhs expr; opKind = be_kind expr
      in if IsInteger (be_lhsTy expr) then
           ComputeRelIntBinop
             \<lparr>rel_ld = GetSIntDomainFromState st lhs (be_lhsTy expr),
              rel_rd = GetSIntDomainFromState st rhs (be_rhsTy expr),
              rel_l = lhs, rel_r = rhs, rel_op = opKind, rel_uns = IsUnsignedArithmetic expr\<rparr>
         else ComputeEqualityBoolBinop (GetBoolDomainFromState st lhs (be_lhsTy expr))
                (GetBoolDomainFromState st rhs (be_rhsTy expr)) opKind)"

definition arithmetic_args :: "RangeState \<Rightarrow> BinaryExpr \<Rightarrow> CHIRArithmeticBinopArgs" where
  "arithmetic_args st expr =
     \<lparr>ld = GetSIntDomainFromState st (be_lhs expr) (be_lhsTy expr),
      rd = GetSIntDomainFromState st (be_rhs expr) (be_rhsTy expr),
      arg_l = be_lhs expr, arg_r = be_rhs expr, arg_op = be_kind expr, arg_ov = be_ov expr,
      arg_uns = IsUnsignedArithmetic expr, l_type = TypeKindOf (be_lhsTy expr)\<rparr>"

definition HandleBinaryExpr :: "RangeState \<Rightarrow> BinaryExpr \<Rightarrow> (RangeState \<times> Diag list) option" where
  "HandleBinaryExpr st expr =
     (let dest = be_result expr; top = SetToBound dest True st
      in if \<not> CanAnalyse (be_resultTy expr) \<or> \<not> CanAnalyse (be_lhsTy expr) \<or> \<not> CanAnalyse (be_rhsTy expr)
         then Some (top, [])
         else if IsInteger (be_resultTy expr) then
           (if \<not> IsBasicBinaryExpr expr then Some (top, [])
            else
              let args = arithmetic_args st expr
              in if SD_IsSingleValue (ld args) \<and> SD_IsSingleValue (rd args) then do {
                   (domain, diags) \<leftarrow> CheckSingleValueOverflow args;
                   Some (Update dest (SIntRange domain) st, diags)
                 }
                 else do {
                   res \<leftarrow> ComputeArithmeticBinop args;
                   if SD_IsNonTrivial res then Some (Update dest (SIntRange res) st, [])
                   else Some (top, [])
                 })
         else if IsBoolean (be_resultTy expr) then
           (let res = GenerateBoolRangeFromBinaryOp st expr
            in if BD_IsNonTrivial res then Some (Update dest (BoolRange res) st, []) else Some (top, []))
         else Some (top, []))"

definition HandleUnaryExpr :: "RangeState \<Rightarrow> PtrSymbol \<Rightarrow> RangeState" where
  "HandleUnaryExpr st dest = SetToBound dest True st"

subsection \<open>Casts\<close>

definition CastBounds :: "RangeState \<Rightarrow> IntWidth \<Rightarrow> SymbolicBoundsMap \<Rightarrow> SymbolicBoundsMap \<Rightarrow> SymbolicBoundsMap" where
  "CastBounds st dstSize bounds mp =
     foldl (\<lambda>mp (s, r).
        (case CheckAbstractValue st s of
           Some (SIntRange rg) \<Rightarrow>
             if SInt_Sge (CR_SMinValue (numeric rg)) (mkSInt (SD_Width rg) 0)
             then map_emplace s (NumericConversion r dstSize False False THROWING) mp
             else mp
         | _ \<Rightarrow> mp)) mp bounds"

definition ComputeTypeCast ::
    "RangeState \<Rightarrow> PtrSymbol \<Rightarrow> SIntDomain \<Rightarrow> IntWidth \<Rightarrow> bool \<Rightarrow> OverflowStrategy \<Rightarrow> SIntDomain" where
  "ComputeTypeCast st oldSymbol v dstSize dstUnsigned ov =
     (let numericRange = ComputeTypeCastNumericBound v dstSize dstUnsigned ov
      in if dstSize < SD_Width v \<or> unsignedFlag v \<or> \<not> dstUnsigned \<or> ov = SATURATING \<or>
            SInt_Slt (CR_SMinValue numericRange) (mkSInt dstSize 0)
         then SD_numeric numericRange (unsignedFlag v)
         else
           let mp = CastBounds st dstSize (symbolics v) [];
               mp1 = map_emplace oldSymbol (CR_single (mkSInt dstSize 0)) mp
           in SD_symbolics numericRange mp1 (unsignedFlag v))"

definition HandleTypeCast ::
    "RangeState \<Rightarrow> PtrSymbol \<Rightarrow> CHIRType \<Rightarrow> PtrSymbol \<Rightarrow> CHIRType \<Rightarrow> OverflowStrategy \<Rightarrow> RangeState" where
  "HandleTypeCast st result to source from ov =
     (if \<not> IsInteger from \<or> \<not> IsInteger to then SetToTopOrTopRef result (IsRefTy to) st
      else
        let sourceDomain = GetSIntDomainFromState st source from;
            res = ComputeTypeCast st source sourceDomain (ToWidth (TypeKindOf to)) (IsUnsignedTy to) ov
        in Update result (SIntRange res) st)"

subsection \<open>Terminators\<close>

text \<open>Blocks are numbers. The result of a terminator is the successor it is known to take.\<close>

definition HandleBranchTerminator :: "RangeState \<Rightarrow> PtrSymbol \<Rightarrow> CHIRType \<Rightarrow> nat \<Rightarrow> nat \<Rightarrow> nat option" where
  "HandleBranchTerminator st cond condTy trueBlock falseBlock =
     (let condVal = GetBoolDomainFromState st cond condTy
      in if \<not> BD_IsSingleValue condVal then None
         else Some (if BD_IsTrue condVal then trueBlock else falseBlock))"

fun FindCase :: "u64 \<Rightarrow> (u64 \<times> nat) list \<Rightarrow> nat option" where
  "FindCase v [] = None"
| "FindCase v ((c, succ) # cases) = (if v = c then Some succ else FindCase v cases)"

definition HandleMultiBranchTerminator ::
    "RangeState \<Rightarrow> PtrSymbol \<Rightarrow> CHIRType \<Rightarrow> (u64 \<times> nat) list \<Rightarrow> nat \<Rightarrow> nat option" where
  "HandleMultiBranchTerminator st cond condTy cases defaultBlock =
     (let condVal = GetSIntDomainFromState st cond condTy
      in if \<not> SD_IsSingleValue condVal then None
         else
           let v = SInt_UVal (lower (numeric condVal))
           in (case FindCase v cases of Some succ \<Rightarrow> Some succ | None \<Rightarrow> Some defaultBlock))"

subsection \<open>Limit on revisits\<close>

abbreviation MAX_INQUEUE_TIMES :: nat where "MAX_INQUEUE_TIMES \<equiv> 4"

definition CheckInQueueTimes :: "nat \<Rightarrow> (nat \<rightharpoonup> nat) \<Rightarrow> RangeState \<Rightarrow> bool \<times> (nat \<rightharpoonup> nat) \<times> RangeState" where
  "CheckInQueueTimes block inqueueTimes curState =
     (case inqueueTimes block of
        None \<Rightarrow> (False, inqueueTimes(block \<mapsto> 1), curState)
      | Some n \<Rightarrow>
          let inqueueTimes1 = inqueueTimes(block \<mapsto> n + 1)
          in if the (inqueueTimes1 block) \<ge> MAX_INQUEUE_TIMES then (True, inqueueTimes1, ClearState curState)
             else (False, inqueueTimes1, curState))"

end
