(* ===== verification/ValueRange.thy ===== *)
theory ValueRange
  imports SIntDomMerge ValueRangeDefs
begin

section \<open>Soundness of the value-range analysis\<close>

text \<open>
  A concrete environment gives every integer value of the function a number of its width and
  every Boolean one a truth value. A state models an environment (\<open>models\<close>) if every abstract
  value it holds has the type of its value, keeps the invariant of its domain and admits the
  concrete value. The transfer functions keep this relation along an execution step.
\<close>

record Env =
  ei :: "PtrSymbol \<Rightarrow> SInt"
  eb :: "PtrSymbol \<Rightarrow> bool"

definition range_ok :: "CHIRType \<Rightarrow> ValueRange \<Rightarrow> bool" where
  "range_ok ty r =
     (case r of BoolRange b \<Rightarrow> IsBoolean ty \<and> bd_ok b
      | SIntRange d \<Rightarrow> IsInteger ty \<and> SD_ok d \<and> SD_Width d = ToWidth (TypeKindOf ty))"

definition admits :: "CHIRType \<Rightarrow> Env \<Rightarrow> PtrSymbol \<Rightarrow> ValueRange \<Rightarrow> bool" where
  "admits ty env v r =
     (case r of BoolRange b \<Rightarrow> eb env v \<in> bool_gamma b
      | SIntRange d \<Rightarrow> ei env v \<in> SD_gamma (IsUnsignedTy ty) (ei env) d)"

definition typed :: "(PtrSymbol \<Rightarrow> CHIRType) \<Rightarrow> Env \<Rightarrow> bool" where
  "typed ty env \<longleftrightarrow> (\<forall>v. IsInteger (ty v) \<longrightarrow> sint_ok (ei env v) \<and> width (ei env v) = ToWidth (TypeKindOf (ty v)))"

definition models :: "(PtrSymbol \<Rightarrow> CHIRType) \<Rightarrow> Env \<Rightarrow> RangeState \<Rightarrow> bool" where
  "models ty env st \<longleftrightarrow> typed ty env \<and>
     (\<forall>v r. st v = Some (VD_Val r) \<longrightarrow> range_ok (ty v) r \<and> admits (ty v) env v r)"



lemma modelsD:
  assumes "models ty env st"
  shows "typed ty env" "st v = Some (VD_Val r) \<Longrightarrow> range_ok (ty v) r \<and> admits (ty v) env v r"
  using assms by (simp_all add: models_def)

lemma IsInteger_not_Boolean: "IsInteger ty \<Longrightarrow> \<not> IsBoolean ty"
  by (auto simp: IsInteger_def IsBoolean_def)

subsection \<open>Reading a state\<close>

lemma default_range:
  assumes "sint_ok x" "width x = ToWidth (TypeKindOf ty)"
  shows "SD_ok (GetDefaultIntCache ty)" "SD_Width (GetDefaultIntCache ty) = ToWidth (TypeKindOf ty)"
    "x \<in> SD_gamma u \<rho> (GetDefaultIntCache ty)"
  using assms by (simp_all add: GetDefaultIntCache_def SD_Width_def CR_Width_def elems_Full SInt_const_width)

lemma GetSIntDomain_sound:
  assumes "models ty env st" "IsInteger (ty v)"
  defines "d \<equiv> GetSIntDomainFromState st v (ty v)"
  shows "SD_ok d \<and> SD_Width d = ToWidth (TypeKindOf (ty v)) \<and> ei env v \<in> SD_gamma (IsUnsignedTy (ty v)) (ei env) d"
proof -
  have "sint_ok (ei env v)" "width (ei env v) = ToWidth (TypeKindOf (ty v))"
    using modelsD(1) [OF assms(1)] assms(2) by (simp_all add: typed_def)
  note def = default_range [OF this]
  show ?thesis
    using def modelsD(2) [OF assms(1), of v]
    by (auto simp: d_def GetSIntDomainFromState_def VD_CheckAbsVal_def range_ok_def admits_def
        split: option.split ValueDomain.split ValueRange.split)
qed

lemma GetBoolDomain_sound:
  assumes "models ty env st"
  shows "bd_ok (GetBoolDomainFromState st v (ty v))" "eb env v \<in> bool_gamma (GetBoolDomainFromState st v (ty v))"
  using modelsD(2) [OF assms(1), of v]
  by (auto simp: GetBoolDomainFromState_def VD_CheckAbsVal_def range_ok_def admits_def
      split: option.split ValueDomain.split ValueRange.split)

subsection \<open>Writing a state\<close>








subsection \<open>An execution step\<close>

definition set_int :: "PtrSymbol \<Rightarrow> SInt \<Rightarrow> Env \<Rightarrow> Env" where
  "set_int dest z env = env\<lparr>ei := (ei env)(dest := z)\<rparr>"

definition set_bool :: "PtrSymbol \<Rightarrow> bool \<Rightarrow> Env \<Rightarrow> Env" where
  "set_bool dest b env = env\<lparr>eb := (eb env)(dest := b)\<rparr>"

text \<open>The types of a binary expression, and that it defines a value it does not read.\<close>

definition well_formed :: "(PtrSymbol \<Rightarrow> CHIRType) \<Rightarrow> BinaryExpr \<Rightarrow> bool" where
  "well_formed ty expr \<longleftrightarrow>
     be_resultTy expr = ty (be_result expr) \<and> be_lhsTy expr = ty (be_lhs expr) \<and> be_rhsTy expr = ty (be_rhs expr) \<and>
     be_result expr \<noteq> be_lhs expr \<and> be_result expr \<noteq> be_rhs expr \<and>
     (IsInteger (be_resultTy expr) \<longrightarrow> be_lhsTy expr = be_resultTy expr \<and> be_rhsTy expr = be_resultTy expr) \<and>
     (IsBoolean (be_resultTy expr) \<longrightarrow>
        (IsInteger (be_lhsTy expr) \<and> be_rhsTy expr = be_lhsTy expr \<and> relational (be_kind expr)) \<or>
        (IsBoolean (be_lhsTy expr) \<and> IsBoolean (be_rhsTy expr) \<and> be_kind expr \<in> {B_EQUAL, B_NOTEQUAL}))"

inductive exec_binary :: "(PtrSymbol \<Rightarrow> CHIRType) \<Rightarrow> BinaryExpr \<Rightarrow> Env \<Rightarrow> Env \<Rightarrow> bool" for ty expr where
  arith: "IsInteger (be_resultTy expr) \<Longrightarrow> IsBasicBinaryExpr expr \<Longrightarrow>
     evaluates (IsUnsignedArithmetic expr) (be_ov expr) (ToExprKind (be_kind expr))
       (ei env (be_lhs expr)) (ei env (be_rhs expr)) z \<Longrightarrow>
     exec_binary ty expr env (set_int (be_result expr) z env)"
| other_int: "IsInteger (be_resultTy expr) \<Longrightarrow> \<not> IsBasicBinaryExpr expr \<Longrightarrow>
     sint_ok z \<Longrightarrow> width z = ToWidth (TypeKindOf (be_resultTy expr)) \<Longrightarrow>
     exec_binary ty expr env (set_int (be_result expr) z env)"
| compare: "IsBoolean (be_resultTy expr) \<Longrightarrow> IsInteger (be_lhsTy expr) \<Longrightarrow>
     exec_binary ty expr env (set_bool (be_result expr)
       (rel_sem (RelFrom (be_kind expr)) (ival (\<not> IsUnsignedArithmetic expr) (ei env (be_lhs expr)))
          (ival (\<not> IsUnsignedArithmetic expr) (ei env (be_rhs expr)))) env)"
| equality: "IsBoolean (be_resultTy expr) \<Longrightarrow> IsBoolean (be_lhsTy expr) \<Longrightarrow>
     exec_binary ty expr env (set_bool (be_result expr)
       ((eb env (be_lhs expr) = eb env (be_rhs expr)) \<noteq> (be_kind expr = B_NOTEQUAL)) env)"
| other: "\<not> IsInteger (be_resultTy expr) \<Longrightarrow> \<not> IsBoolean (be_resultTy expr) \<Longrightarrow> exec_binary ty expr env env"

inductive_cases exec_binaryE: "exec_binary ty expr env env'"


lemma set_sel [simp]: "ei (set_int dest z env) = (ei env)(dest := z)" "eb (set_int dest z env) = eb env"
  "eb (set_bool dest b env) = (eb env)(dest := b)" "ei (set_bool dest b env) = ei env"
  by (simp_all add: set_int_def set_bool_def)


lemma unsigned_arithmetic: "IsInteger (be_lhsTy expr) \<Longrightarrow> IsUnsignedArithmetic expr = IsUnsignedTy (be_lhsTy expr)"
  by (auto simp: IsUnsignedArithmetic_def IsInteger_def)

subsection \<open>Constant operands\<close>

lemma cast_ity_id: "sint_ok x \<Longrightarrow> width x = w \<Longrightarrow> cast (ity w u) (ival (\<not> u) x) = ival (\<not> u) x"
  using in_type_ival [of x u] by (auto intro: cast_id)

lemma type_of_kind:
  assumes "k \<noteq> TYPE_OTHER"
  shows "IsUnsignedInteger k \<Longrightarrow> uint_type_of k = Some (ity (ToWidth k) True)"
    "\<not> IsUnsignedInteger k \<Longrightarrow> int_type_of k = Some (ity (ToWidth k) False)"
  using assms by (cases k; simp add: IsUnsignedInteger_def uint_type_of_def int_type_of_def ToWidth_def ity_def)+

text \<open>With constant operands, the result is the one that the checker delivers, or an error.\<close>

lemma CheckSingleValueOverflow_eq:
  assumes "SD_IsSingleValue (ld args)" "SD_IsSingleValue (rd args)" "SD_ok (ld args)" "SD_ok (rd args)"
    "x \<in> elems (numeric (ld args))" "y \<in> elems (numeric (rd args))"
    "width x = ToWidth (l_type args)" "width y = ToWidth (l_type args)" "SD_Width (ld args) = width x"
    "l_type args \<noteq> TYPE_OTHER" "arg_uns args = IsUnsignedInteger (l_type args)"
  shows "CheckSingleValueOverflow args =
    (let u = arg_uns args; a = ival (\<not> u) x; b = ival (\<not> u) y; op = arg_op args; w = width x
     in if b = 0 \<and> (op = B_DIV \<or> op = B_MOD) then Some (SD_Top w u, [DivisorIsZero op])
        else do {
          (isOv, res) \<leftarrow> IsOverflow (ity w u) a b (ToExprKind op) (arg_ov args);
          if isOv \<and> arg_ov args = THROWING then Some (SD_Top w u, [ArithmeticOverflow op a b])
          else Some (SD_numeric (CR_single (number w res)) u, [])
        })"
proof -
  have ok: "cr_ok (numeric (ld args))" "cr_ok (numeric (rd args))" using assms(3,4) by (simp_all add: SD_ok_def)
  have lower: "lower (numeric (ld args)) = x" "lower (numeric (rd args)) = y"
    using single_element [OF ok(1) _ assms(5)] single_element [OF ok(2) _ assms(6)] assms(1,2)
    by (simp_all add: SD_IsSingleValue_def CR_GetSingleElement_def)
  note wf = elems_wf(1) [OF ok(1) assms(5)] elems_wf(1) [OF ok(2) assms(6)]
  note c = cast_ity_id [OF wf(1) assms(7), of "arg_uns args"] cast_ity_id [OF wf(2) assms(8), of "arg_uns args"]
  show ?thesis
  proof (cases "arg_uns args")
    case True
    then have u: "arg_uns args = True" by simp
    have iv: "uint (SInt_UVal (lower (numeric (ld args)))) = ival (\<not> arg_uns args) x"
      "uint (SInt_UVal (lower (numeric (rd args)))) = ival (\<not> arg_uns args) y"
      using True lower by (simp_all add: SInt_UVal_def ival_def uval_def)
    show ?thesis
      using type_of_kind(1) [OF assms(10)] assms(11) c
      unfolding CheckSingleValueOverflow_def iv Let_def CheckDivZero_def IsUIntOverflow_def number_def case_prod_unfold u assms(7,9)
      by (cases "uval y = 0 \<and> (arg_op args = B_DIV \<or> arg_op args = B_MOD)";
          cases "sval y = 0 \<and> (arg_op args = B_DIV \<or> arg_op args = B_MOD)") (auto simp: ival_def)
  next
    case False
    then have u: "arg_uns args = False" by simp
    have iv: "sint (SInt_SVal (lower (numeric (ld args)))) = ival (\<not> arg_uns args) x"
      "sint (SInt_SVal (lower (numeric (rd args)))) = ival (\<not> arg_uns args) y"
      using False lower by (simp_all add: ival_def sval_def)
    show ?thesis
      using type_of_kind(2) [OF assms(10)] assms(11) c
      unfolding CheckSingleValueOverflow_def iv Let_def CheckDivZero_def IsIntOverflow_def number_def case_prod_unfold u assms(7,9)
      by (cases "uval y = 0 \<and> (arg_op args = B_DIV \<or> arg_op args = B_MOD)";
          cases "sval y = 0 \<and> (arg_op args = B_DIV \<or> arg_op args = B_MOD)") (auto simp: ival_def)
  qed
qed

lemma evaluates_divisor:
  "evaluates u ov (ToExprKind op) x y z \<Longrightarrow> same x y \<Longrightarrow> \<not> (ival (\<not> u) y = 0 \<and> (op = B_DIV \<or> op = B_MOD))"
  by (auto simp: evaluates_def ToExprKind_def IsOverflow_def IsOverflowAfterDiv_def IsOverflowAfterMod_def split: if_splits)

lemma constants_sound:
  assumes "SD_IsSingleValue (ld args)" "SD_IsSingleValue (rd args)" "SD_ok (ld args)" "SD_ok (rd args)"
    "x \<in> elems (numeric (ld args))" "y \<in> elems (numeric (rd args))"
    "width x = ToWidth (l_type args)" "width y = ToWidth (l_type args)" "SD_Width (ld args) = width x"
    "l_type args \<noteq> TYPE_OTHER" "arg_uns args = IsUnsignedInteger (l_type args)"
    "evaluates (arg_uns args) (arg_ov args) (ToExprKind (arg_op args)) x y z"
  shows "CheckSingleValueOverflow args = Some (SD_numeric (CR_single z) (arg_uns args), [])"
proof -
  have "sint_ok x" "sint_ok y" using assms(3-6) elems_wf(1) by (auto simp: SD_ok_def)
  then have "same x y" using assms(7,8) by (simp add: same_def)
  note div = evaluates_divisor [OF assms(12) this]
  obtain ovf n where n: "IsOverflow (ity (width x) (arg_uns args)) (ival (\<not> arg_uns args) x) (ival (\<not> arg_uns args) y)
      (ToExprKind (arg_op args)) (arg_ov args) = Some (ovf, n)" "arg_ov args = THROWING \<longrightarrow> \<not> ovf" "z = number (width x) n"
    using assms(12) by (auto simp: evaluates_def)
  then show ?thesis
    unfolding CheckSingleValueOverflow_eq [OF assms(1-11)] Let_def using div by auto
qed

text \<open>A reported error is one: no evaluation gets through.\<close>

lemma constants_diagnostics:
  assumes "SD_IsSingleValue (ld args)" "SD_IsSingleValue (rd args)" "SD_ok (ld args)" "SD_ok (rd args)"
    "x \<in> elems (numeric (ld args))" "y \<in> elems (numeric (rd args))"
    "width x = ToWidth (l_type args)" "width y = ToWidth (l_type args)" "SD_Width (ld args) = width x"
    "l_type args \<noteq> TYPE_OTHER" "arg_uns args = IsUnsignedInteger (l_type args)"
    "CheckSingleValueOverflow args = Some (d, diags)" "diags \<noteq> []"
  shows "\<not> evaluates (arg_uns args) (arg_ov args) (ToExprKind (arg_op args)) x y z"
  using constants_sound [OF assms(1-11), of z] assms(12,13) by auto

subsection \<open>Binary expressions\<close>




lemma arithmetic_operands:
  assumes "models ty env st" "well_formed ty expr" "IsInteger (be_resultTy expr)"
  defines "args \<equiv> arithmetic_args st expr"
  shows "SD_ok (ld args)" "SD_ok (rd args)" "SD_Width (ld args) = SD_Width (rd args)"
    "ei env (be_lhs expr) \<in> SD_gamma (arg_uns args) (ei env) (ld args)"
    "ei env (be_rhs expr) \<in> SD_gamma (arg_uns args) (ei env) (rd args)"
    "width (ei env (be_lhs expr)) = ToWidth (l_type args)" "width (ei env (be_rhs expr)) = ToWidth (l_type args)"
    "SD_Width (ld args) = width (ei env (be_lhs expr))" "l_type args \<noteq> TYPE_OTHER"
    "arg_uns args = IsUnsignedInteger (l_type args)"
proof -
  have t: "IsInteger (be_lhsTy expr)" "be_lhsTy expr = ty (be_lhs expr)" "be_rhsTy expr = ty (be_rhs expr)"
    "ty (be_rhs expr) = ty (be_lhs expr)"
    using assms(2,3) by (auto simp: well_formed_def)
  have u: "arg_uns args = IsUnsignedTy (be_lhsTy expr)" "l_type args = TypeKindOf (be_lhsTy expr)"
    using unsigned_arithmetic [OF t(1)] by (simp_all add: args_def arithmetic_args_def)
  have l: "SD_ok (ld args) \<and> SD_Width (ld args) = ToWidth (l_type args) \<and>
      ei env (be_lhs expr) \<in> SD_gamma (arg_uns args) (ei env) (ld args)"
    using GetSIntDomain_sound [OF assms(1), of "be_lhs expr"] t u by (simp add: args_def arithmetic_args_def)
  have r: "SD_ok (rd args) \<and> SD_Width (rd args) = ToWidth (l_type args) \<and>
      ei env (be_rhs expr) \<in> SD_gamma (arg_uns args) (ei env) (rd args)"
    using GetSIntDomain_sound [OF assms(1), of "be_rhs expr"] t u by (simp add: args_def arithmetic_args_def)
  have w: "width (ei env (be_lhs expr)) = ToWidth (l_type args)" "width (ei env (be_rhs expr)) = ToWidth (l_type args)"
    using modelsD(1) [OF assms(1)] t u by (simp_all add: typed_def)
  show "SD_ok (ld args)" "SD_ok (rd args)" "SD_Width (ld args) = SD_Width (rd args)"
    "ei env (be_lhs expr) \<in> SD_gamma (arg_uns args) (ei env) (ld args)"
    "ei env (be_rhs expr) \<in> SD_gamma (arg_uns args) (ei env) (rd args)"
    "width (ei env (be_lhs expr)) = ToWidth (l_type args)" "width (ei env (be_rhs expr)) = ToWidth (l_type args)"
    "SD_Width (ld args) = width (ei env (be_lhs expr))"
    using l r w by simp_all
  show "l_type args \<noteq> TYPE_OTHER" "arg_uns args = IsUnsignedInteger (l_type args)"
    using t(1) u by (auto simp: IsInteger_def TypeKindOf_def IsUnsignedTy_def split: CHIRType.splits)
qed





subsection \<open>Properties\<close>



text \<open>C2: the errors that the analysis reports are errors: if it raises a diagnostic for a division
  by zero or an overflow in a binary expression, then from no state of the variables that the
  analysis admits does the expression evaluate.\<close>

theorem HandleBinaryExpr_diagnostics:
  assumes "models ty env st" "well_formed ty expr" "HandleBinaryExpr st expr = Some (st', diags)" "diags \<noteq> []"
  shows "\<not> exec_binary ty expr env env'"
proof -
  let ?args = "arithmetic_args st expr"
  have int: "IsInteger (be_resultTy expr)" "IsBasicBinaryExpr expr" "SD_IsSingleValue (ld ?args)" "SD_IsSingleValue (rd ?args)"
    and c: "\<exists>d. CheckSingleValueOverflow ?args = Some (d, diags)"
    using assms(3,4) by (auto simp: HandleBinaryExpr_def Let_def bind_eq_Some_conv split: if_splits)
  note op = arithmetic_operands [OF assms(1,2) int(1)]
  have sel: "arg_op ?args = be_kind expr" "arg_ov ?args = be_ov expr" "arg_uns ?args = IsUnsignedArithmetic expr"
    by (simp_all add: arithmetic_args_def)
  have "\<not> evaluates (IsUnsignedArithmetic expr) (be_ov expr) (ToExprKind (be_kind expr)) (ei env (be_lhs expr)) (ei env (be_rhs expr)) z" for z
    using constants_diagnostics [OF int(3,4) op(1,2) SD_gammaD(1) [OF op(4)] SD_gammaD(1) [OF op(5)] op(6-10) _ assms(4)] c
    unfolding sel by blast
  then show ?thesis using int(1,2) IsInteger_not_Boolean by (auto elim: exec_binary.cases)
qed

lemma HandleBinaryExpr_diagnostics_witness:
  "\<not> (\<exists>env'. exec_binary (\<lambda>_. T_INT TYPE_INT8)
       \<lparr>be_result = 3, be_resultTy = T_INT TYPE_INT8, be_lhs = 1, be_lhsTy = T_INT TYPE_INT8, be_rhs = 2,
        be_rhsTy = T_INT TYPE_INT8, be_kind = B_ADD, be_ov = THROWING\<rparr>
     \<lparr>ei = (\<lambda>_. mkSInt I8 100), eb = (\<lambda>_. True)\<rparr> env')"
proof -
  let ?d = "SD_numeric (CR_single (mkSInt I8 100)) False"
  let ?st = "(\<lambda>v :: nat. Some (VD_Val (SIntRange ?d)))"
  let ?e = "\<lparr>be_result = 3, be_resultTy = T_INT TYPE_INT8, be_lhs = 1, be_lhsTy = T_INT TYPE_INT8, be_rhs = 2,
        be_rhsTy = T_INT TYPE_INT8, be_kind = B_ADD, be_ov = THROWING\<rparr>"
  let ?env = "\<lparr>ei = (\<lambda>_ :: nat. mkSInt I8 100), eb = (\<lambda>_ :: nat. True)\<rparr>"
  have ty: "IsInteger (T_INT TYPE_INT8)" "ToWidth (TypeKindOf (T_INT TYPE_INT8)) = I8" "\<not> IsBoolean (T_INT TYPE_INT8)"
    by code_simp+
  have m: "models (\<lambda>_. T_INT TYPE_INT8) ?env ?st"
    using ty by (simp add: models_def typed_def range_ok_def admits_def SD_Width_def CR_Width_def mkSInt_ok mkSInt_width
        CR_single_ok single_elems)
  have w: "well_formed (\<lambda>_. T_INT TYPE_INT8) ?e" using ty by (simp add: well_formed_def)
  have "map_option snd (HandleBinaryExpr ?st ?e) = Some [ArithmeticOverflow B_ADD 100 100]" by code_simp
  then obtain st' where "HandleBinaryExpr ?st ?e = Some (st', [ArithmeticOverflow B_ADD 100 100])" by auto
  from HandleBinaryExpr_diagnostics [OF m w this] show ?thesis by simp
qed

text \<open>C3: a branch that the analysis removes is never taken: when a state decides a conditional or
  a switch, the successor is the one that every execution the state admits goes to, be it a
  case or the default; and clearing a state that is revisited too often keeps it admissible.\<close>

theorem terminators_sound:
  assumes "models ty env st"
  shows "(IsBoolean (ty cond) \<longrightarrow> HandleBranchTerminator st cond (ty cond) t f = Some b \<longrightarrow>
      b = (if eb env cond then t else f)) \<and>
    (IsInteger (ty cond) \<longrightarrow> HandleMultiBranchTerminator st cond (ty cond) cases def = Some b \<longrightarrow>
      b = (case map_of cases (val (ei env cond)) of Some s \<Rightarrow> s | None \<Rightarrow> def)) \<and>
    models ty env (snd (snd (CheckInQueueTimes block inq st)))"
proof (intro conjI impI)
  assume "HandleBranchTerminator st cond (ty cond) t f = Some b"
  then show "b = (if eb env cond then t else f)"
    using GetBoolDomain_sound [OF assms, of cond] BD_tests(1) [of "GetBoolDomainFromState st cond (ty cond)"]
    by (auto simp: HandleBranchTerminator_def Let_def BD_IsTrue_def BD_GetSingleValue_def split: if_splits)
next
  assume int: "IsInteger (ty cond)" and h: "HandleMultiBranchTerminator st cond (ty cond) cases def = Some b"
  let ?d = "GetSIntDomainFromState st cond (ty cond)"
  have d: "cr_ok (numeric ?d)" "ei env cond \<in> elems (numeric ?d)"
    using GetSIntDomain_sound [OF assms int] by (simp_all add: SD_ok_def SD_gamma_def)
  have s: "SD_IsSingleValue ?d" using h by (simp add: HandleMultiBranchTerminator_def Let_def split: if_splits)
  then have "lower (numeric ?d) = ei env cond"
    using single_element [OF d(1) _ d(2)] by (simp add: SD_IsSingleValue_def CR_GetSingleElement_def)
  moreover have "FindCase v cases = map_of cases v" for v by (induction v cases rule: FindCase.induct) auto
  ultimately show "b = (case map_of cases (val (ei env cond)) of Some s \<Rightarrow> s | None \<Rightarrow> def)"
    using h s by (simp add: HandleMultiBranchTerminator_def Let_def SInt_UVal_def split: option.splits)
next
  have "ClearState st v \<noteq> Some (VD_Val r)" for v r
    by (cases "st v"; simp add: ClearState_def; cases "the (st v)") auto
  then have "models ty env (ClearState st)" using assms by (simp add: models_def)
  then show "models ty env (snd (snd (CheckInQueueTimes block inq st)))"
    using assms by (simp add: CheckInQueueTimes_def Let_def split: option.split)
qed

lemma terminators_sound_witness:
  "HandleMultiBranchTerminator (\<lambda>_. Some (VD_Val (SIntRange (SD_numeric (CR_single (mkSInt I8 7)) False)))) 1
     (T_INT TYPE_INT8) [(5, 10), (7, 20)] 30
   = Some (case map_of [(5, 10), (7, 20)] (val (mkSInt I8 7)) of Some s \<Rightarrow> s | None \<Rightarrow> 30)"
proof -
  let ?d = "SD_numeric (CR_single (mkSInt I8 7)) False"
  let ?st = "(\<lambda>v :: nat. Some (VD_Val (SIntRange ?d)))"
  let ?env = "\<lparr>ei = (\<lambda>_ :: nat. mkSInt I8 7), eb = (\<lambda>_ :: nat. True)\<rparr>"
  have ty: "IsInteger (T_INT TYPE_INT8)" "ToWidth (TypeKindOf (T_INT TYPE_INT8)) = I8" by code_simp+
  have m: "models (\<lambda>_. T_INT TYPE_INT8) ?env ?st"
    using ty by (simp add: models_def typed_def range_ok_def admits_def SD_Width_def CR_Width_def mkSInt_ok mkSInt_width
        CR_single_ok single_elems)
  have h: "HandleMultiBranchTerminator ?st 1 (T_INT TYPE_INT8) [(5, 10), (7, 20)] 30 = Some 20" by code_simp
  then have "20 = (case map_of [(5, 10), (7, 20)] (val (mkSInt I8 7)) of Some s \<Rightarrow> s | None \<Rightarrow> (30 :: nat))"
    using terminators_sound [OF m, of 1 _ _ _ "[(5, 10), (7, 20)]" 30 20] ty(1) by simp
  then show ?thesis using h by simp
qed

end
