(* ===== verification/RangeDefects.thy ===== *)
theory RangeDefects
  imports ValueRange
begin

section \<open>Where the value-range analysis is wrong\<close>

text \<open>
  Three places where an abstract value does not admit the concrete one, each on a small
  program. They are the reason for the hypotheses of the soundness theorem
  (\<open>safe_operands\<close>) and for what it leaves out (joins and casts).
\<close>

definition sub_args :: "CHIRArithmeticBinopArgs" where
  "sub_args = \<lparr>ld = SD_numeric (CR_Full I8) True, rd = SD_numeric (CR_single (mkSInt I8 140)) True,
     arg_l = 1, arg_r = 2, arg_op = B_SUB, arg_ov = THROWING, arg_uns = True, l_type = TYPE_UINT8\<rparr>"

definition sub_result :: SIntDomain where
  "sub_result = SD_symbol (CR_Full I8) 1 TYPE_UINT8 (CR_single (mkSInt I8 116))"

text \<open>C7: a checked unsigned subtraction of a constant above half the range gets a symbolic bound
  with the wrong sign: for an 8-bit \<open>a\<close>, the abstract \<open>a - 140\<close> makes the comparison
  \<open>a - 140 > a\<close> true, though \<open>200 - 140\<close> evaluates to \<open>60\<close>.\<close>

theorem ComputeSub_unsound:
  "ComputeArithmeticBinop sub_args = Some sub_result \<and>
   evaluates True THROWING SUB (mkSInt I8 200) (mkSInt I8 140) (mkSInt I8 60) \<and>
   BD_IsTrue (ComputeRelIntBinop \<lparr>rel_ld = sub_result, rel_rd = SD_numeric (CR_Full I8) True, rel_l = 3, rel_r = 1,
     rel_op = B_GT, rel_uns = True\<rparr>) \<and>
   \<not> rel_sem GT (uval (mkSInt I8 60)) (uval (mkSInt I8 200))"
proof -
  have "IsOverflow (ity (width (mkSInt I8 200)) True) (ival (\<not> True) (mkSInt I8 200)) (ival (\<not> True) (mkSInt I8 140)) SUB THROWING
      = Some (False, 60)" "mkSInt I8 60 = number (width (mkSInt I8 200)) 60" by code_simp+
  then have "evaluates True THROWING SUB (mkSInt I8 200) (mkSInt I8 140) (mkSInt I8 60)"
    unfolding evaluates_def by blast
  moreover have "ComputeArithmeticBinop sub_args = Some sub_result"
    "BD_IsTrue (ComputeRelIntBinop \<lparr>rel_ld = sub_result, rel_rd = SD_numeric (CR_Full I8) True, rel_l = 3, rel_r = 1,
       rel_op = B_GT, rel_uns = True\<rparr>)"
    "\<not> rel_sem GT (uval (mkSInt I8 60)) (uval (mkSInt I8 200))" by code_simp+
  ultimately show ?thesis by blast
qed

text \<open>The states of two branches: the same numeric range, \<open>x = a + [1, 2)\<close> in one and
  \<open>x = a + [5, 6)\<close> in the other.\<close>

definition join_left :: SIntDomain where
  "join_left = SD_symbolics (mkCR (mkSInt I8 0) (mkSInt I8 100)) [(1, CR_single (mkSInt I8 1))] False"

definition join_right :: SIntDomain where
  "join_right = SD_symbolics (mkCR (mkSInt I8 0) (mkSInt I8 100)) [(1, CR_single (mkSInt I8 5))] False"

text \<open>C8: the join of two integer ranges compares the numeric parts only: if they agree and are not
  full, the join reports no change and the left range keeps a symbolic bound that the right
  one contradicts, although both are well formed and the union of the domain would cover
  both.\<close>

theorem SIntRange_Join_unsound:
  "SIntRange_Join join_left join_right = Some None \<and> SD_ok join_left \<and> SD_ok join_right \<and>
   mkSInt I8 15 \<in> SD_gamma False (\<lambda>_. mkSInt I8 10) join_right \<and>
   mkSInt I8 15 \<notin> SD_gamma False (\<lambda>_. mkSInt I8 10) join_left \<and>
   (\<exists>d. SD_Unions join_left join_right = Some d \<and> mkSInt I8 15 \<in> SD_gamma False (\<lambda>_. mkSInt I8 10) d)"
proof -
  have e: "SIntRange_Join join_left join_right = Some None" "SD_ok join_left" "SD_ok join_right"
    "SD_Width join_left = SD_Width join_right" by code_simp+
  have r: "same (lower (numeric join_right)) (mkSInt I8 15) \<and> CR_Contains (numeric join_right) (mkSInt I8 15)"
    and v: "sval (mkSInt I8 15) = sval (mkSInt I8 10) + sval (mkSInt I8 5)" "sval (mkSInt I8 15) \<noteq> sval (mkSInt I8 10) + sval (mkSInt I8 1)"
    by code_simp+
  have in_right: "mkSInt I8 15 \<in> SD_gamma False (\<lambda>_. mkSInt I8 10) join_right"
    using r v(1) by (simp add: SD_gamma_def bounds_hold_def bound_holds_def elems_def [of "numeric join_right"] single_elems
        mkSInt_ok ival_def) (simp add: join_right_def bound_holds_def single_elems mkSInt_ok ival_def)
  have "mkSInt I8 15 \<notin> SD_gamma False (\<lambda>_. mkSInt I8 10) join_left"
    using v(2) by (simp add: SD_gamma_def bounds_hold_def join_left_def bound_holds_def single_elems mkSInt_ok ival_def)
  then show ?thesis using e(1-3) in_right SD_Unions_sound [OF e(2-4)] by blast
qed




end
