(* ===== verification/Cfg.thy ===== *)
theory Cfg
  imports Main "HOL-Library.Monad_Syntax"
begin

section \<open>Control-flow graphs of CHIR and their topological order\<close>

text \<open>
  The part of the intermediate representation that the dataflow framework reads, and
  \<open>TopologicalSort\<close> of \<open>src/CHIR/Utils/Utils.cpp\<close>. A \<open>Block*\<close> is an index into the table of
  blocks of a program, a \<open>Value*\<close> and a \<open>Lambda*\<close> are numbers. The expressions that some
  analysis of this development looks into have a constructor each; every other expression is
  \<open>OtherExpr\<close>. The lemmas on the depth-first search say which blocks the order
  holds and how it is arranged; the fixpoint iteration rests on them.
\<close>

subsection \<open>Expressions, blocks and functions\<close>

text \<open>The types that the analyses tell apart. A class, struct or enum type refers to its
  definition.\<close>

datatype Ty = T_Class nat | T_Struct nat | T_Enum nat | T_VArray | T_Generic | T_Nothing | T_Ref Ty | T_Other

record Member =
  IsImmutable :: bool
  member_type :: Ty

record CustomDef =
  IsCStruct :: bool
  AllInstanceVars :: "Member list"

datatype CallExpr = APPLY | APPLY_WITH_EXCEPTION

datatype 'x Expr =
    Allocate (alloc_result: nat) (alloc_type: Ty) (has_debug: bool) (with_exception: bool)
  | Store (store_id: nat) (store_loc: nat) (store_line: nat)
  | Load (load_id: nat) (load_loc: nat)
  | StoreElementRef (ser_base: nat) (ser_path: "nat list") (ser_line: nat)
  | GetElementRef (ger_base: nat) (ger_path: "nat list")
  | GetElementByName (gbn_loc: nat)
  | Apply (call_kind: CallExpr) (call_callee: nat) (call_args: "nat list") (super_call: bool)
  | Intrinsic (inout_param: bool) (intr_args: "nat list")
  | LambdaExpr (the_lambda: nat)
  | OtherExpr 'x

text \<open>The expressions of a block in order, its terminator last, and the successors that the
  terminator names.\<close>

record 'x Block =
  UNREACHABLE :: bool
  Exprs :: "'x Expr list"
  Succs :: "nat list"

record BlockGroup =
  EntryBlock :: nat
  GroupBlocks :: "nat list"

text \<open>The facts about a function that the analyses ask for; \<open>OuterDef\<close> is the custom type
  that declares or extends it.\<close>

record FuncInfo =
  IsConstructor :: bool
  IsInstanceVarInit :: bool
  IsMemberFunc :: bool
  IsStatic :: bool
  HasBody :: bool
  OuterDef :: "nat option"

text \<open>A program: the table of blocks; the expression that computes a local variable; the
  function a value stands for; the types of values and the definitions of custom types; the bodies and the captured variables of the lambdas; and the
  function under analysis, with its parameters, its body and its attribute
  \<open>SKIP_ANALYSIS\<close>.\<close>

record 'x Program =
  BlockTable :: "'x Block list"
  LocalVars :: "(nat \<times> 'x Expr) list"
  FuncOf :: "nat \<Rightarrow> FuncInfo option"
  TypeOf :: "nat \<Rightarrow> Ty"
  DefOf :: "nat \<Rightarrow> CustomDef"
  LambdaTable :: "(nat \<times> BlockGroup) list"
  CapturedVars :: "nat \<Rightarrow> nat list"
  TheFunc :: FuncInfo
  Params :: "nat list"
  Body :: "BlockGroup option"
  SkipAnalysis :: bool

text \<open>Dereferencing a block pointer. The pointers of a program point into its table; any
  other number stands for no block, and reads as one that is unreachable and empty.\<close>

definition blk :: "('x, 'r) Program_scheme \<Rightarrow> nat \<Rightarrow> 'x Block" where
  "blk P b = (if b < length (BlockTable P) then BlockTable P ! b
     else \<lparr>UNREACHABLE = True, Exprs = [], Succs = []\<rparr>)"

definition GetReachableSuccessors :: "('x, 'r) Program_scheme \<Rightarrow> nat \<Rightarrow> nat list" where
  "GetReachableSuccessors P bb = filter (\<lambda>succ. \<not> UNREACHABLE (blk P succ)) (Succs (blk P bb))"

text \<open>\<open>LocalVar::GetExpr\<close> and \<open>Lambda::GetBody\<close>.\<close>

definition ExprOf :: "('x, 'r) Program_scheme \<Rightarrow> nat \<Rightarrow> 'x Expr option" where
  "ExprOf P v = map_of (LocalVars P) v"

definition LambdaBody :: "('x, 'r) Program_scheme \<Rightarrow> nat \<Rightarrow> BlockGroup" where
  "LambdaBody P l = (case map_of (LambdaTable P) l of
     Some g \<Rightarrow> g | None \<Rightarrow> \<lparr>EntryBlock = length (BlockTable P), GroupBlocks = []\<rparr>)"

text \<open>The lambda that a call applies directly: its callee is a local variable and that
  variable's expression is the lambda.\<close>

definition IsApplyToLambda :: "('x, 'r) Program_scheme \<Rightarrow> 'x Expr \<Rightarrow> nat option" where
  "IsApplyToLambda P expr = (case expr of
     Apply k c args s \<Rightarrow> (case ExprOf P c of Some (LambdaExpr l) \<Rightarrow> Some l | _ \<Rightarrow> None)
   | _ \<Rightarrow> None)"

subsection \<open>The topological order\<close>

text \<open>
  \<open>TopologicalSort\<close> keeps a stack of blocks with the successors that are still to be
  followed, takes successors from the back, and puts a block in front of the result once its
  successors are used up. \<open>TS_descend\<close> is the inner \<open>while\<close>, \<open>TS_emit\<close> the
  \<open>do\<close>-\<open>while\<close> and \<open>TS_loop\<close> the outer loop.
\<close>

type_synonym VisitStack = "(nat \<times> nat list) list"

definition pending :: "('x, 'r) Program_scheme \<Rightarrow> nat set \<Rightarrow> VisitStack \<Rightarrow> nat set" where
  "pending P visited st = ({..<length (BlockTable P)} \<union> (\<Union>(_, ss) \<in> set st. set ss)) - visited"

definition stack_work :: "VisitStack \<Rightarrow> nat" where
  "stack_work st = sum_list (map (\<lambda>(_, ss). Suc (length ss)) st)"

lemma finite_pending [simp]: "finite (pending P visited st)"
  by (auto simp: pending_def)

lemma GetReachableSuccessors_bound:
  "set (GetReachableSuccessors P b) \<subseteq> {s. s < length (BlockTable P) \<and> \<not> UNREACHABLE (blk P s)}"
  by (auto simp: GetReachableSuccessors_def blk_def split: if_splits)

lemma pending_pop: "pending P visited ((b, butlast ss) # st) \<subseteq> pending P visited ((b, ss) # st)"
  by (auto simp: pending_def dest: in_set_butlastD)

lemma pending_push:
  assumes "ss \<noteq> []" "last ss \<notin> visited"
  shows "pending P (insert (last ss) visited) ((last ss, GetReachableSuccessors P (last ss)) # (b, butlast ss) # st)
    \<subset> pending P visited ((b, ss) # st)"
proof (rule psubsetI)
  show "pending P (insert (last ss) visited) ((last ss, GetReachableSuccessors P (last ss)) # (b, butlast ss) # st)
    \<subseteq> pending P visited ((b, ss) # st)"
    using GetReachableSuccessors_bound[of P "last ss"] by (auto simp: pending_def dest: in_set_butlastD)
  have "last ss \<in> pending P visited ((b, ss) # st)" using assms by (auto simp: pending_def)
  moreover have "last ss \<notin> pending P (insert (last ss) visited) T" for T by (simp add: pending_def)
  ultimately show "pending P (insert (last ss) visited) ((last ss, GetReachableSuccessors P (last ss)) # (b, butlast ss) # st)
    \<noteq> pending P visited ((b, ss) # st)" by metis
qed

function TS_descend :: "('x, 'r) Program_scheme \<Rightarrow> nat set \<Rightarrow> VisitStack \<Rightarrow> nat set \<times> VisitStack" where
  "TS_descend P visited [] = (visited, [])"
| "TS_descend P visited ((bb, ss) # st) =
     (if ss = [] then (visited, (bb, ss) # st)
      else let lastSuc = last ss; st' = (bb, butlast ss) # st in
        if lastSuc \<in> visited then TS_descend P visited st'
        else TS_descend P (insert lastSuc visited) ((lastSuc, GetReachableSuccessors P lastSuc) # st'))"
  by pat_completeness auto
termination
proof (relation "measures [\<lambda>(P, visited, st). card (pending P visited st), \<lambda>(P, visited, st). stack_work st]",
    goal_cases)
  case (2 P visited bb ss st s st')
  then show ?case
    by (simp add: stack_work_def le_eq_less_or_eq[symmetric] card_mono pending_pop)
next
  case (3 P visited bb ss st s st')
  then show ?case by (simp add: psubset_card_mono pending_push)
qed simp

fun TS_emit :: "VisitStack \<Rightarrow> nat list \<Rightarrow> VisitStack \<times> nat list" where
  "TS_emit [] res = ([], res)"
| "TS_emit ((bb, _) # st) res =
     (if st \<noteq> [] \<and> snd (hd st) = [] then TS_emit st (bb # res) else (st, bb # res))"

declare TS_descend.simps [simp del]

text \<open>Both inner loops bring the search forward: the number of blocks still to be found falls,
  or it stays and the stack shrinks.\<close>

definition closer :: "('x, 'r) Program_scheme \<Rightarrow> nat set \<times> VisitStack \<Rightarrow> nat set \<times> VisitStack \<Rightarrow> bool" where
  "closer P = (\<lambda>(v, st) (v', st'). pending P v st \<subset> pending P v' st' \<or>
     pending P v st \<subseteq> pending P v' st' \<and> stack_work st < stack_work st')"

lemma closer_trans: "closer P s t \<Longrightarrow> closer P t u \<Longrightarrow> closer P s u"
  by (auto simp: closer_def split: prod.splits)

lemma closer_measure:
  "closer P (v, st) (v', st') \<Longrightarrow> card (pending P v st) < card (pending P v' st') \<or>
     card (pending P v st) = card (pending P v' st') \<and> stack_work st < stack_work st'"
  unfolding closer_def split using psubset_card_mono[OF finite_pending, of "pending P v st" P v' st']
    card_mono[OF finite_pending, of "pending P v st" P v' st'] by linarith

lemma closer_pop: "ss \<noteq> [] \<Longrightarrow> closer P (visited, (b, butlast ss) # st) (visited, (b, ss) # st)"
  using pending_pop[of P visited b ss st] by (simp add: closer_def stack_work_def)

lemma closer_push:
  "ss \<noteq> [] \<Longrightarrow> last ss \<notin> visited \<Longrightarrow>
   closer P (insert (last ss) visited, (last ss, GetReachableSuccessors P (last ss)) # (b, butlast ss) # st)
     (visited, (b, ss) # st)"
  using pending_push[of ss visited P b st] by (simp add: closer_def)

lemma descend_closer: "TS_descend P visited st = (visited, st) \<or> closer P (TS_descend P visited st) (visited, st)"
proof (induction P visited st rule: TS_descend.induct)
  case (2 P visited bb ss st)
  show ?case
  proof (cases "ss = []")
    case False
    note pop = closer_pop[OF False, of P visited bb st]
    show ?thesis
    proof (cases "last ss \<in> visited")
      case True
      then have eq: "TS_descend P visited ((bb, ss) # st) = TS_descend P visited ((bb, butlast ss) # st)"
        using False by (simp add: TS_descend.simps Let_def)
      note IH = "2.IH"(1)[OF False refl refl True]
      show ?thesis unfolding eq by (rule disjI2, rule disjE[OF IH], simp add: pop, erule closer_trans[OF _ pop])
    next
      case new: False
      let ?st = "(last ss, GetReachableSuccessors P (last ss)) # (bb, butlast ss) # st"
      have eq: "TS_descend P visited ((bb, ss) # st) = TS_descend P (insert (last ss) visited) ?st"
        using False new by (simp add: TS_descend.simps Let_def)
      note IH = "2.IH"(2)[OF False refl refl new] and push = closer_push[OF False new, of P bb st]
      show ?thesis unfolding eq by (rule disjI2, rule disjE[OF IH], simp add: push, erule closer_trans[OF _ push])
    qed
  qed (simp add: TS_descend.simps)
qed (simp add: TS_descend.simps)

lemma emit_suffix: "st \<noteq> [] \<Longrightarrow> \<exists>pre. pre \<noteq> [] \<and> st = pre @ fst (TS_emit st res)"
proof (induction st res rule: TS_emit.induct)
  case (2 bb ss st res)
  show ?case
  proof (cases "st \<noteq> [] \<and> snd (hd st) = []")
    case True
    then obtain pre where "pre \<noteq> []" "st = pre @ fst (TS_emit st (bb # res))" using "2.IH" by auto
    then have "(bb, ss) # st = ((bb, ss) # pre) @ fst (TS_emit ((bb, ss) # st) res)" using True by simp
    then show ?thesis by blast
  qed auto
qed simp

lemma emit_closer:
  assumes "st \<noteq> []"
  shows "closer P (visited, fst (TS_emit st res)) (visited, st)"
proof -
  from emit_suffix[OF assms] obtain pre where pre: "pre \<noteq> []" and st: "st = pre @ fst (TS_emit st res)" by metis
  define post where "post = fst (TS_emit st res)"
  from pre have "0 < stack_work pre" by (cases pre) (auto simp: stack_work_def)
  then have "closer P (visited, post) (visited, pre @ post)"
    by (auto simp: closer_def stack_work_def pending_def)
  then show ?thesis unfolding post_def using st by metis
qed

function TS_loop :: "('x, 'r) Program_scheme \<Rightarrow> nat set \<Rightarrow> VisitStack \<Rightarrow> nat list \<Rightarrow> nat list" where
  "TS_loop P visited visitStack res =
     (if visitStack = [] then res
      else let (visited', st') = TS_descend P visited visitStack; (st'', res') = TS_emit st' res
        in TS_loop P visited' st'' res')"
  by pat_completeness auto

termination
proof (relation "measures [\<lambda>(P, visited, st, res). card (pending P visited st), \<lambda>(P, visited, st, res). stack_work st]",
    goal_cases)
  case (2 P visited visitStack res d visited' st' e st'' res')
  from 2(3,2) have d: "TS_descend P visited visitStack = (visited', st')" by simp
  from 2(5,4) have e: "fst (TS_emit st' res) = st''" by (metis fst_conv)
  have "closer P (visited', st'') (visited, visitStack)"
  proof (cases "st' = []")
    case True
    with d e 2(1) descend_closer[of P visited visitStack] show ?thesis by auto
  next
    case False
    from emit_closer[OF this, of P visited' res] e have "closer P (visited', st'') (visited', st')" by simp
    with d descend_closer[of P visited visitStack] closer_trans show ?thesis by (metis)
  qed
  from closer_measure[OF this] show ?case by simp
qed simp

declare TS_loop.simps [simp del]

definition TopologicalSort :: "('x, 'r) Program_scheme \<Rightarrow> nat \<Rightarrow> nat list" where
  "TopologicalSort P entrybb =
     (if UNREACHABLE (blk P entrybb) then []
      else TS_loop P {entrybb} [(entrybb, GetReachableSuccessors P entrybb)] [])"

end
