(* ===== verification/Engine.thy ===== *)
theory Engine
  imports Cfg
begin

section \<open>The dataflow engine\<close>

text \<open>
  \<open>Analysis.h\<close> and \<open>Engine.h\<close>: the interface that an analysis offers and the iteration of it to a
  fixpoint over the blocks of a function and of the lambdas it creates. The virtual methods of
  \<open>Analysis\<close> and of its abstract domain are the fields of a record, with the bodies that the base
  class gives them in \<open>default_analysis\<close>; \<open>members\<close> are the data members of the analysis object.
  Where the code calls \<open>at\<close> on a map, a missing key is \<^const>\<open>None\<close>.
\<close>

subsection \<open>The interface of an analysis\<close>

record ('x, 'd, 'm) Analysis =
  Bottom :: 'd
  IsBottom :: "'d \<Rightarrow> bool"
  Join :: "'d \<Rightarrow> 'd \<Rightarrow> 'd \<times> bool"
  InitializeFuncEntryState :: "'d \<Rightarrow> 'd"
  UpdateCurrentLambda :: "nat \<Rightarrow> 'm \<Rightarrow> 'm"
  InitializeLambdaEntryState :: "'d \<Rightarrow> 'd"
  HandleVarStateCapturedByLambda :: "'d \<Rightarrow> nat \<Rightarrow> 'd"
  PreHandleLambdaExpression :: "'d \<Rightarrow> nat \<Rightarrow> 'd"
  PropagateExpressionEffect :: "'d \<Rightarrow> 'x Expr \<Rightarrow> 'd"
  PropagateTerminatorEffect :: "'d \<Rightarrow> 'x Expr \<Rightarrow> 'd \<times> nat option"
  CheckInQueueTimes :: "'m \<Rightarrow> nat \<Rightarrow> 'd \<Rightarrow> 'd \<times> bool \<times> 'm"
  GetBlockLimit :: "nat option"

definition default_analysis :: "'d \<Rightarrow> ('d \<Rightarrow> bool) \<Rightarrow> ('d \<Rightarrow> 'd \<Rightarrow> 'd \<times> bool) \<Rightarrow> ('x, 'd, 'm) Analysis" where
  "default_analysis bottom is_bottom join = \<lparr>
     Bottom = bottom,
     IsBottom = is_bottom,
     Join = join,
     InitializeFuncEntryState = (\<lambda>state. state),
     UpdateCurrentLambda = (\<lambda>l m. m),
     InitializeLambdaEntryState = (\<lambda>state. state),
     HandleVarStateCapturedByLambda = (\<lambda>state l. state),
     PreHandleLambdaExpression = (\<lambda>state l. state),
     PropagateExpressionEffect = (\<lambda>state e. state),
     PropagateTerminatorEffect = (\<lambda>state e. (state, None)),
     CheckInQueueTimes = (\<lambda>m b state. (state, False, m)),
     GetBlockLimit = None\<rparr>"

subsection \<open>One block\<close>

text \<open>The state of the engine: the worklist with the set that mirrors it, the entry states of the
  unit that is being iterated, the members of the analysis, and the lambdas met so far with the
  state at their latest visit.\<close>

record ('d, 'm) Engine =
  worklist :: "nat list"
  worklistSet :: "nat set"
  entryStates :: "nat \<Rightarrow> 'd option"
  members :: 'm
  lambdaWorklist :: "nat list"
  lambdaWorklistSet :: "nat set"
  lambdaEnvState :: "nat \<Rightarrow> 'd option"

text \<open>The effect of one expression on the state: a lambda is prepared; before a call of a lambda
  the variables that it captures are given up.\<close>

definition CapturedByCallee ::
  "('x, 'r) Program_scheme \<Rightarrow> ('x, 'd, 'm) Analysis \<Rightarrow> 'd \<Rightarrow> 'x Expr \<Rightarrow> 'd" where
  "CapturedByCallee P an state exp = (case IsApplyToLambda P exp of
     Some l \<Rightarrow> HandleVarStateCapturedByLambda an state l | None \<Rightarrow> state)"

definition SimulatingProcessingSingleExpression ::
  "('x, 'r) Program_scheme \<Rightarrow> ('x, 'd, 'm) Analysis \<Rightarrow> 'd \<Rightarrow> 'x Expr \<Rightarrow> 'd" where
  "SimulatingProcessingSingleExpression P an state exp = (case exp of
     LambdaExpr l \<Rightarrow> PreHandleLambdaExpression an state l
   | _ \<Rightarrow> PropagateExpressionEffect an (CapturedByCallee P an state exp) exp)"

text \<open>The body of the loop over the expressions of a block: as above, and a lambda is put on
  its worklist, once, with the state it is created in.\<close>

definition VisitExpr ::
  "('x, 'r) Program_scheme \<Rightarrow> ('x, 'd, 'm) Analysis \<Rightarrow> 'x Expr \<Rightarrow> 'd \<times> ('d, 'm) Engine \<Rightarrow> 'd \<times> ('d, 'm) Engine" where
  "VisitExpr P an exp = (\<lambda>(state, E). case exp of
     LambdaExpr l \<Rightarrow>
       let state' = PreHandleLambdaExpression an state l;
           E' = E\<lparr>lambdaEnvState := (lambdaEnvState E)(l \<mapsto> state')\<rparr>
       in (state', if l \<in> lambdaWorklistSet E then E'
         else E'\<lparr>lambdaWorklistSet := insert l (lambdaWorklistSet E), lambdaWorklist := lambdaWorklist E @ [l]\<rparr>)
   | _ \<Rightarrow> (PropagateExpressionEffect an (CapturedByCallee P an state exp) exp, E))"

text \<open>Joining the exit state into a successor, which is queued again if that changed it.\<close>

definition JoinSuccessor ::
  "('x, 'd, 'm) Analysis \<Rightarrow> 'd \<Rightarrow> nat \<Rightarrow> ('d, 'm) Engine \<Rightarrow> ('d, 'm) Engine option" where
  "JoinSuccessor an state succ E = do {
     old \<leftarrow> entryStates E succ;
     let (new, hasChanged) = Join an old state;
     let E' = E\<lparr>entryStates := (entryStates E)(succ \<mapsto> new)\<rparr>;
     Some (if hasChanged \<and> succ \<notin> worklistSet E'
       then E'\<lparr>worklist := worklist E' @ [succ], worklistSet := insert succ (worklistSet E')\<rparr> else E')
   }"

fun JoinSuccessors ::
  "('x, 'd, 'm) Analysis \<Rightarrow> 'd \<Rightarrow> nat list \<Rightarrow> ('d, 'm) Engine \<Rightarrow> ('d, 'm) Engine option" where
  "JoinSuccessors an state [] E = Some E"
| "JoinSuccessors an state (succ # succs) E = do { E' \<leftarrow> JoinSuccessor an state succ E; JoinSuccessors an state succs E' }"

definition TargetSuccessors :: "('x, 'r) Program_scheme \<Rightarrow> nat \<Rightarrow> nat option \<Rightarrow> nat list" where
  "TargetSuccessors P bb targetSucc = (case targetSucc of
     Some t \<Rightarrow> if UNREACHABLE (blk P t) then [] else [t]
   | None \<Rightarrow> GetReachableSuccessors P bb)"

text \<open>One round of the loop on the worklist.\<close>

definition ProcessBlock ::
  "('x, 'r) Program_scheme \<Rightarrow> ('x, 'd, 'm) Analysis \<Rightarrow> ('d, 'm) Engine \<Rightarrow> ('d, 'm) Engine option" where
  "ProcessBlock P an E =
     (let bb = hd (worklist E);
          E1 = E\<lparr>worklist := tl (worklist E), worklistSet := worklistSet E - {bb}\<rparr>;
          exprs = Exprs (blk P bb)
      in if UNREACHABLE (blk P bb) then Some E1
      else do {
        state \<leftarrow> entryStates E1 bb;
        if IsBottom an state then Some E1
        else if exprs = [] then Some E1
        else
          let terminator = last exprs;
              (state1, E2) = fold (VisitExpr P an) (butlast exprs) (state, E1);
              (state2, targetSucc) = PropagateTerminatorEffect an (CapturedByCallee P an state1 terminator) terminator;
              (state3, quit, m) = CheckInQueueTimes an (members E2) bb state2
          in JoinSuccessors an state3 (TargetSuccessors P bb (if quit then None else targetSucc)) (E2\<lparr>members := m\<rparr>)
      })"

subsection \<open>The fixpoint iteration\<close>

text \<open>The loops may run for ever or meet a missing entry state: then the result is \<^const>\<open>None\<close>.\<close>

partial_function (option) IterateWorklist ::
  "('x, 'r) Program_scheme \<Rightarrow> ('x, 'd, 'm) Analysis \<Rightarrow> ('d, 'm) Engine \<Rightarrow> ('d, 'm) Engine option" where
  "IterateWorklist P an E =
     (if worklist E = [] then Some E else Option.bind (ProcessBlock P an E) (IterateWorklist P an))"

definition IterateSingleUnitToFixpoint ::
  "('x, 'r) Program_scheme \<Rightarrow> ('x, 'd, 'm) Analysis \<Rightarrow> nat \<Rightarrow> ('d, 'm) Engine \<Rightarrow> ('d, 'm) Engine option" where
  "IterateSingleUnitToFixpoint P an entryBlock E = IterateWorklist P an
     (E\<lparr>worklist := TopologicalSort P entryBlock, worklistSet := set (TopologicalSort P entryBlock)\<rparr>)"

text \<open>The entry states of the lambda that is next in its worklist: its environment at the entry
  block, bottom elsewhere.\<close>

definition LambdaEntryStates ::
  "('x, 'r) Program_scheme \<Rightarrow> ('x, 'd, 'm) Analysis \<Rightarrow> nat \<Rightarrow> 'd \<Rightarrow> nat \<Rightarrow> 'd option" where
  "LambdaEntryStates P an lambda envState =
     map_of ((EntryBlock (LambdaBody P lambda),
         InitializeLambdaEntryState an (HandleVarStateCapturedByLambda an envState lambda))
       # map (\<lambda>bb. (bb, Bottom an)) (GroupBlocks (LambdaBody P lambda)))"

partial_function (option) IterateLambdas ::
  "('x, 'r) Program_scheme \<Rightarrow> ('x, 'd, 'm) Analysis \<Rightarrow> nat \<Rightarrow> ('d, 'm) Engine \<Rightarrow> (nat \<times> (nat \<Rightarrow> 'd option)) list
    \<Rightarrow> (('d, 'm) Engine \<times> (nat \<times> (nat \<Rightarrow> 'd option)) list) option" where
  "IterateLambdas P an worklistIdx E results =
     (if worklistIdx < length (lambdaWorklist E) then
        let lambda = lambdaWorklist E ! worklistIdx;
            E1 = E\<lparr>members := UpdateCurrentLambda an lambda (members E)\<rparr>
        in Option.bind (lambdaEnvState E1 lambda) (\<lambda>envState.
           Option.bind (IterateSingleUnitToFixpoint P an (EntryBlock (LambdaBody P lambda))
              (E1\<lparr>entryStates := LambdaEntryStates P an lambda envState\<rparr>)) (\<lambda>E2.
           IterateLambdas P an (Suc worklistIdx) E2 (results @ [(lambda, entryStates E2)])))
      else Some (E, results))"

declare IterateWorklist.simps [code] IterateLambdas.simps [code]

text \<open>What the analysis of a function returns: the entry states of its blocks and of the blocks of
  its lambdas. The inner \<^const>\<open>None\<close> is the null pointer, for a function that is not analysed.\<close>

record 'd Results =
  entrySets :: "nat \<Rightarrow> 'd option"
  lambdaResults :: "(nat \<times> (nat \<Rightarrow> 'd option)) list"

definition DoesExceedBlockLimit :: "('x, 'd, 'm) Analysis \<Rightarrow> BlockGroup \<Rightarrow> bool" where
  "DoesExceedBlockLimit an body = (case GetBlockLimit an of None \<Rightarrow> False | Some n \<Rightarrow> length (GroupBlocks body) > n)"

definition FuncEntryStates :: "('x, 'd, 'm) Analysis \<Rightarrow> BlockGroup \<Rightarrow> (nat \<Rightarrow> 'd option) option" where
  "FuncEntryStates an body =
     (let bottoms = map_of (map (\<lambda>bb. (bb, Bottom an)) (GroupBlocks body))
      in do { entry \<leftarrow> bottoms (EntryBlock body);
              Some (bottoms(EntryBlock body \<mapsto> InitializeFuncEntryState an entry)) })"

definition IterateToFixpoint ::
  "('x, 'r) Program_scheme \<Rightarrow> ('x, 'd, 'm) Analysis \<Rightarrow> 'm \<Rightarrow> 'd Results option option" where
  "IterateToFixpoint P an m = (case Body P of None \<Rightarrow> Some None | Some body \<Rightarrow>
     if DoesExceedBlockLimit an body \<or> SkipAnalysis P then Some None
     else do {
       states \<leftarrow> FuncEntryStates an body;
       E \<leftarrow> IterateSingleUnitToFixpoint P an (EntryBlock body)
         \<lparr>worklist = [], worklistSet = {}, entryStates = states, members = m,
          lambdaWorklist = [], lambdaWorklistSet = {}, lambdaEnvState = (\<lambda>_. None)\<rparr>;
       (_, lambdas) \<leftarrow> IterateLambdas P an 0 E [];
       Some (Some \<lparr>entrySets = entryStates E, lambdaResults = lambdas\<rparr>)
     })"

end
