(* ===== verification/GenKillDefs.thy ===== *)
theory GenKillDefs
  imports Engine
begin

section \<open>Gen/kill domains and the initialisation analyses\<close>

text \<open>
  \<open>GenKillAnalysis.h\<close>, \<open>MaybeUninitAnalysis\<close> and \<open>MaybeInitAnalysis\<close>: which variables, members and
  super parts may be uninitialised (initialised) at a point of a function. The facts are numbered:
  the members that a constructor's own type declares come first, then the variables that
  \<open>SaveAllocateMap\<close> finds, and the super part is the last of all. A vector of bits is a list; the
  code reads and writes it at indices inside it.
\<close>

subsection \<open>The gen/kill domain\<close>

datatype ReachableKind = Kind_UNREACHABLE | Kind_REACHABLE
datatype AnalysisKind = MUST | MAYBE

record GenKillDomain =
  kind :: ReachableKind
  states :: "bool list"

definition GenKillDomain_new :: "nat \<Rightarrow> GenKillDomain" where
  "GenKillDomain_new domainSize = \<lparr>kind = Kind_UNREACHABLE, states = replicate domainSize False\<rparr>"

definition GK_IsBottom :: "'r GenKillDomain_scheme \<Rightarrow> bool" where
  "GK_IsBottom d \<longleftrightarrow> kind d = Kind_UNREACHABLE"

definition GK_Join :: "AnalysisKind \<Rightarrow> 'r GenKillDomain_scheme \<Rightarrow> 's GenKillDomain_scheme \<Rightarrow> 'r GenKillDomain_scheme \<times> bool" where
  "GK_Join mustOrMaybe d rhs =
     (let size = length (states d);
          new = map (\<lambda>i. if mustOrMaybe = MUST then states d ! i \<and> states rhs ! i else states d ! i \<or> states rhs ! i) [0..<size];
          changed = list_ex (\<lambda>i. states d ! i \<noteq> new ! i) [0..<size]
      in (d\<lparr>kind := Kind_REACHABLE, states := new\<rparr>, changed))"

definition Gen :: "nat \<Rightarrow> 'r GenKillDomain_scheme \<Rightarrow> 'r GenKillDomain_scheme" where
  "Gen index d = d\<lparr>states := (states d)[index := True]\<rparr>"

definition Kill :: "nat \<Rightarrow> 'r GenKillDomain_scheme \<Rightarrow> 'r GenKillDomain_scheme" where
  "Kill index d = d\<lparr>states := (states d)[index := False]\<rparr>"

definition GenAll :: "'r GenKillDomain_scheme \<Rightarrow> 'r GenKillDomain_scheme" where
  "GenAll d = d\<lparr>states := replicate (length (states d)) True\<rparr>"

definition KillAll :: "'r GenKillDomain_scheme \<Rightarrow> 'r GenKillDomain_scheme" where
  "KillAll d = d\<lparr>states := replicate (length (states d)) False\<rparr>"

definition PropagateFrom :: "nat \<Rightarrow> nat \<Rightarrow> 'r GenKillDomain_scheme \<Rightarrow> 'r GenKillDomain_scheme" where
  "PropagateFrom src dst d = d\<lparr>states := (states d)[dst := states d ! src]\<rparr>"

definition IsTrueAt :: "nat \<Rightarrow> 'r GenKillDomain_scheme \<Rightarrow> bool" where
  "IsTrueAt index d = states d ! index"

subsection \<open>What is tracked\<close>

record ConstructorInitInfo =
  thisCustomDef :: "nat option"
  superClassDef :: "nat option"
  superMemberNums :: nat
  localMemberNums :: nat

definition GroupExprs :: "('x, 'r) Program_scheme \<Rightarrow> BlockGroup \<Rightarrow> 'x Expr list" where
  "GroupExprs P g = concat (map (\<lambda>bb. Exprs (blk P bb)) (GroupBlocks g))"

text \<open>The variables of the function, and of the lambdas in it, that have a debug expression. The
  counter moves on even when a variable is met again. A lambda that contains itself would make
  the search run for ever.\<close>

partial_function (option) SaveAllocateMap ::
  "('x, 'r) Program_scheme \<Rightarrow> 'x Expr list \<Rightarrow> nat \<times> (nat \<times> nat) list \<Rightarrow> (nat \<times> (nat \<times> nat) list) option" where
  "SaveAllocateMap P exprs acc = (case exprs of
     [] \<Rightarrow> Some acc
   | expr # rest \<Rightarrow> Option.bind
      (case expr of
         Allocate v ty dbg exc \<Rightarrow>
           (if dbg then Some (case acc of (allocateIdx, allocateIdxMap) \<Rightarrow>
              (Suc allocateIdx, if map_of allocateIdxMap v = None then allocateIdxMap @ [(v, allocateIdx)] else allocateIdxMap))
            else Some acc)
       | LambdaExpr l \<Rightarrow> SaveAllocateMap P (GroupExprs P (LambdaBody P l)) acc
       | _ \<Rightarrow> Some acc)
      (SaveAllocateMap P rest))"

declare SaveAllocateMap.simps [code]

text \<open>What the constructors of both analyses compute: the map and the size of the domain.\<close>

definition InitAnalysisMembers ::
  "('x, 'r) Program_scheme \<Rightarrow> BlockGroup \<Rightarrow> ConstructorInitInfo \<Rightarrow> ((nat \<times> nat) list \<times> nat) option" where
  "InitAnalysisMembers P body ctorInitInfo = do {
     (allocateIdx, allocateIdxMap) \<leftarrow> SaveAllocateMap P (GroupExprs P body) (localMemberNums ctorInitInfo, []);
     let domainSize = localMemberNums ctorInitInfo + allocateIdx;
     Some (allocateIdxMap, if superClassDef ctorInitInfo \<noteq> None then Suc domainSize else domainSize)
   }"

text \<open>A store to a member of \<open>this\<close> in a constructor or in the function that initialises the
  instance variables.\<close>

definition IsInitialisingMemberVar :: "('x, 'r) Program_scheme \<Rightarrow> nat \<Rightarrow> nat list \<Rightarrow> nat option" where
  "IsInitialisingMemberVar P location paths =
     (if (IsConstructor (TheFunc P) \<or> IsInstanceVarInit (TheFunc P)) \<and> location \<in> set (Params P) then
        if location = hd (Params P) \<and> length paths = 1 then Some (hd paths) else None
      else None)"

text \<open>A call of another constructor of the same type on \<open>this\<close>.\<close>

definition IsThisInitCall :: "('x, 'r) Program_scheme \<Rightarrow> ConstructorInitInfo \<Rightarrow> nat \<Rightarrow> nat list \<Rightarrow> bool" where
  "IsThisInitCall P ctorInitInfo callee args = (case FuncOf P callee of
     Some f \<Rightarrow> HasBody f \<and> IsConstructor f \<and> OuterDef f = thisCustomDef ctorInitInfo \<and> hd args = hd (Params P)
   | None \<Rightarrow> False)"

datatype UninitedMemberKind = SUPER_MEMBER | LOCAL_MEMBER | NA_MEMBER

subsection \<open>Maybe uninitialised\<close>

text \<open>The domain also remembers the lines of the stores that may have initialised a fact.\<close>

record MaybeUninitDomain = GenKillDomain +
  maybeInitedPos :: "nat set list"

definition MU_new :: "nat \<Rightarrow> MaybeUninitDomain" where
  "MU_new domainSize = \<lparr>kind = Kind_UNREACHABLE, states = replicate domainSize False, maybeInitedPos = replicate domainSize {}\<rparr>"

definition MU_Join :: "MaybeUninitDomain \<Rightarrow> MaybeUninitDomain \<Rightarrow> MaybeUninitDomain \<times> bool" where
  "MU_Join d rhs = GK_Join MAYBE
     (d\<lparr>maybeInitedPos := map (\<lambda>i. maybeInitedPos d ! i \<union> maybeInitedPos rhs ! i) [0..<length (maybeInitedPos d)]\<rparr>) rhs"

definition IsMaybeUninitedAllocation :: "(nat \<times> nat) list \<Rightarrow> MaybeUninitDomain \<Rightarrow> nat \<Rightarrow> bool option" where
  "IsMaybeUninitedAllocation allocateIdxMap d location = map_option (\<lambda>i. IsTrueAt i d) (map_of allocateIdxMap location)"

definition IsMaybeUninitedMember :: "ConstructorInitInfo \<Rightarrow> MaybeUninitDomain \<Rightarrow> nat \<Rightarrow> UninitedMemberKind" where
  "IsMaybeUninitedMember ctorInitInfo d memberIndex =
     (if memberIndex < superMemberNums ctorInitInfo then
        if IsTrueAt (length (states d) - 1) d then SUPER_MEMBER else NA_MEMBER
      else if memberIndex < superMemberNums ctorInitInfo + localMemberNums ctorInitInfo then
        if IsTrueAt (memberIndex - superMemberNums ctorInitInfo) d then LOCAL_MEMBER else NA_MEMBER
      else NA_MEMBER)"

definition GetMaybeUninitedLocalMembers :: "ConstructorInitInfo \<Rightarrow> MaybeUninitDomain \<Rightarrow> nat list" where
  "GetMaybeUninitedLocalMembers ctorInitInfo d =
     map (\<lambda>i. i + superMemberNums ctorInitInfo) (filter (\<lambda>i. IsTrueAt i d) [0..<localMemberNums ctorInitInfo])"

definition MU_GetMaybeInitedPos :: "(nat \<times> nat) list \<Rightarrow> MaybeUninitDomain \<Rightarrow> nat \<Rightarrow> nat set option" where
  "MU_GetMaybeInitedPos allocateIdxMap d location = map_option (\<lambda>i. maybeInitedPos d ! i) (map_of allocateIdxMap location)"

definition MU_SetAllLocalMemberInited :: "ConstructorInitInfo \<Rightarrow> MaybeUninitDomain \<Rightarrow> MaybeUninitDomain" where
  "MU_SetAllLocalMemberInited ctorInitInfo d = fold Kill [0..<localMemberNums ctorInitInfo] d"

definition MU_HandleAllocateExpr :: "(nat \<times> nat) list \<Rightarrow> MaybeUninitDomain \<Rightarrow> nat \<Rightarrow> MaybeUninitDomain" where
  "MU_HandleAllocateExpr allocateIdxMap state res = (case map_of allocateIdxMap res of
     Some i \<Rightarrow> Gen i state | None \<Rightarrow> state)"

definition AddPos :: "nat \<Rightarrow> nat \<Rightarrow> MaybeUninitDomain \<Rightarrow> MaybeUninitDomain" where
  "AddPos i line d = d\<lparr>maybeInitedPos := (maybeInitedPos d)[i := insert line (maybeInitedPos d ! i)]\<rparr>"

definition MU_HandleStoreExpr :: "(nat \<times> nat) list \<Rightarrow> MaybeUninitDomain \<Rightarrow> nat \<Rightarrow> nat \<Rightarrow> MaybeUninitDomain" where
  "MU_HandleStoreExpr allocateIdxMap state location line = (case map_of allocateIdxMap location of
     Some i \<Rightarrow> AddPos i line (Kill i state) | None \<Rightarrow> state)"

definition MU_HandleStoreElemRefExpr ::
  "('x, 'r) Program_scheme \<Rightarrow> ConstructorInitInfo \<Rightarrow> MaybeUninitDomain \<Rightarrow> nat \<Rightarrow> nat list \<Rightarrow> nat \<Rightarrow> MaybeUninitDomain" where
  "MU_HandleStoreElemRefExpr P ctorInitInfo state location path line = (case IsInitialisingMemberVar P location path of
     None \<Rightarrow> state
   | Some memberIdx \<Rightarrow> if memberIdx < superMemberNums ctorInitInfo then state
       else let i = memberIdx - superMemberNums ctorInitInfo in AddPos i line (Kill i state))"

definition MU_HandleApplyExpr ::
  "('x, 'r) Program_scheme \<Rightarrow> ConstructorInitInfo \<Rightarrow> nat \<Rightarrow> MaybeUninitDomain \<Rightarrow> nat \<Rightarrow> nat list \<Rightarrow> bool \<Rightarrow> MaybeUninitDomain" where
  "MU_HandleApplyExpr P ctorInitInfo domainSize state callee args isSuperCall =
     (if \<not> IsConstructor (TheFunc P) then state
      else if isSuperCall then Kill (domainSize - 1) state
      else if IsThisInitCall P ctorInitInfo callee args then
        let state' = MU_SetAllLocalMemberInited ctorInitInfo state
        in if superClassDef ctorInitInfo \<noteq> None then Kill (domainSize - 1) state' else state'
      else state)"

definition MU_PropagateExpressionEffect ::
  "('x, 'r) Program_scheme \<Rightarrow> ConstructorInitInfo \<Rightarrow> (nat \<times> nat) list \<Rightarrow> nat \<Rightarrow> MaybeUninitDomain \<Rightarrow> 'x Expr \<Rightarrow> MaybeUninitDomain" where
  "MU_PropagateExpressionEffect P ctorInitInfo allocateIdxMap domainSize state expression = (case expression of
     Allocate res ty dbg exc \<Rightarrow> if exc then state else MU_HandleAllocateExpr allocateIdxMap state res
   | Store sid location line \<Rightarrow> MU_HandleStoreExpr allocateIdxMap state location line
   | StoreElementRef location path line \<Rightarrow> MU_HandleStoreElemRefExpr P ctorInitInfo state location path line
   | Apply k callee args s \<Rightarrow>
       if k = APPLY then MU_HandleApplyExpr P ctorInitInfo domainSize state callee args s else state
   | _ \<Rightarrow> state)"

definition MU_InitializeFuncEntryState :: "MaybeUninitDomain \<Rightarrow> MaybeUninitDomain" where
  "MU_InitializeFuncEntryState state = GenAll (state\<lparr>kind := Kind_REACHABLE\<rparr>)"

definition MaybeUninitAnalysis ::
  "('x, 'r) Program_scheme \<Rightarrow> ConstructorInitInfo \<Rightarrow> (nat \<times> nat) list \<Rightarrow> nat \<Rightarrow> ('x, MaybeUninitDomain, unit) Analysis" where
  "MaybeUninitAnalysis P ctorInitInfo allocateIdxMap domainSize =
     (default_analysis (MU_new domainSize) GK_IsBottom MU_Join)
       \<lparr>InitializeFuncEntryState := MU_InitializeFuncEntryState,
        PropagateExpressionEffect := MU_PropagateExpressionEffect P ctorInitInfo allocateIdxMap domainSize\<rparr>"

subsection \<open>Maybe initialised\<close>

definition MI_Join :: "GenKillDomain \<Rightarrow> GenKillDomain \<Rightarrow> GenKillDomain \<times> bool" where
  "MI_Join d rhs = GK_Join MAYBE d rhs"

definition IsMaybeInitedAllocation :: "(nat \<times> nat) list \<Rightarrow> GenKillDomain \<Rightarrow> nat \<Rightarrow> bool option" where
  "IsMaybeInitedAllocation allocateIdxMap d location = map_option (\<lambda>i. IsTrueAt i d) (map_of allocateIdxMap location)"

definition IsMaybeInitedMember :: "ConstructorInitInfo \<Rightarrow> GenKillDomain \<Rightarrow> nat \<Rightarrow> UninitedMemberKind" where
  "IsMaybeInitedMember ctorInitInfo d memberIndex =
     (if memberIndex < superMemberNums ctorInitInfo then
        if IsTrueAt (length (states d) - 1) d then SUPER_MEMBER else NA_MEMBER
      else if memberIndex < superMemberNums ctorInitInfo + localMemberNums ctorInitInfo then
        if IsTrueAt (memberIndex - superMemberNums ctorInitInfo) d then LOCAL_MEMBER else NA_MEMBER
      else NA_MEMBER)"

definition MI_SetAllLocalMemberInited :: "ConstructorInitInfo \<Rightarrow> GenKillDomain \<Rightarrow> GenKillDomain" where
  "MI_SetAllLocalMemberInited ctorInitInfo d = fold Gen [0..<localMemberNums ctorInitInfo] d"

definition MI_HandleAllocateExpr :: "(nat \<times> nat) list \<Rightarrow> GenKillDomain \<Rightarrow> nat \<Rightarrow> GenKillDomain" where
  "MI_HandleAllocateExpr allocateIdxMap state res = (case map_of allocateIdxMap res of
     Some i \<Rightarrow> Kill i state | None \<Rightarrow> state)"

definition MI_HandleStoreExpr :: "(nat \<times> nat) list \<Rightarrow> GenKillDomain \<Rightarrow> nat \<Rightarrow> GenKillDomain" where
  "MI_HandleStoreExpr allocateIdxMap state location = (case map_of allocateIdxMap location of
     Some i \<Rightarrow> Gen i state | None \<Rightarrow> state)"

definition MI_HandleStoreElemRefExpr ::
  "('x, 'r) Program_scheme \<Rightarrow> ConstructorInitInfo \<Rightarrow> GenKillDomain \<Rightarrow> nat \<Rightarrow> nat list \<Rightarrow> GenKillDomain" where
  "MI_HandleStoreElemRefExpr P ctorInitInfo state location path = (case IsInitialisingMemberVar P location path of
     None \<Rightarrow> state
   | Some memberIdx \<Rightarrow> if memberIdx < superMemberNums ctorInitInfo then state
       else Gen (memberIdx - superMemberNums ctorInitInfo) state)"

definition MI_HandleApplyExpr ::
  "('x, 'r) Program_scheme \<Rightarrow> ConstructorInitInfo \<Rightarrow> nat \<Rightarrow> GenKillDomain \<Rightarrow> nat \<Rightarrow> nat list \<Rightarrow> bool \<Rightarrow> GenKillDomain" where
  "MI_HandleApplyExpr P ctorInitInfo domainSize state callee args isSuperCall =
     (if \<not> IsConstructor (TheFunc P) then state
      else if isSuperCall then Gen (domainSize - 1) state
      else if IsThisInitCall P ctorInitInfo callee args then
        let state' = MI_SetAllLocalMemberInited ctorInitInfo state
        in if superClassDef ctorInitInfo \<noteq> None then Gen (domainSize - 1) state' else state'
      else state)"

definition MI_PropagateExpressionEffect ::
  "('x, 'r) Program_scheme \<Rightarrow> ConstructorInitInfo \<Rightarrow> (nat \<times> nat) list \<Rightarrow> nat \<Rightarrow> GenKillDomain \<Rightarrow> 'x Expr \<Rightarrow> GenKillDomain" where
  "MI_PropagateExpressionEffect P ctorInitInfo allocateIdxMap domainSize state expression = (case expression of
     Allocate res ty dbg exc \<Rightarrow> if exc then state else MI_HandleAllocateExpr allocateIdxMap state res
   | Store sid location line \<Rightarrow> MI_HandleStoreExpr allocateIdxMap state location
   | StoreElementRef location path line \<Rightarrow> MI_HandleStoreElemRefExpr P ctorInitInfo state location path
   | Apply k callee args s \<Rightarrow>
       if k = APPLY then MI_HandleApplyExpr P ctorInitInfo domainSize state callee args s else state
   | _ \<Rightarrow> state)"

definition MI_InitializeFuncEntryState :: "GenKillDomain \<Rightarrow> GenKillDomain" where
  "MI_InitializeFuncEntryState state = state\<lparr>kind := Kind_REACHABLE\<rparr>"

definition MaybeInitAnalysis ::
  "('x, 'r) Program_scheme \<Rightarrow> ConstructorInitInfo \<Rightarrow> (nat \<times> nat) list \<Rightarrow> nat \<Rightarrow> ('x, GenKillDomain, unit) Analysis" where
  "MaybeInitAnalysis P ctorInitInfo allocateIdxMap domainSize =
     (default_analysis (GenKillDomain_new domainSize) GK_IsBottom MI_Join)
       \<lparr>InitializeFuncEntryState := MI_InitializeFuncEntryState,
        PropagateExpressionEffect := MI_PropagateExpressionEffect P ctorInitInfo allocateIdxMap domainSize\<rparr>"

end
