(* ===== verification/TopoOrder.thy ===== *)
theory TopoOrder
  imports Cfg
begin

section \<open>What the topological order holds\<close>

text \<open>
  The depth-first search of \<open>TopologicalSort\<close> lists every block that is reachable through
  reachable successors exactly once, the entry first; every other block comes after one of its
  predecessors; and an edge leads backwards only inside a cycle. One invariant of the search
  carries all of it: \<open>search\<close> is kept by each of the three things the loops do.
\<close>

definition edges :: "('x, 'r) Program_scheme \<Rightarrow> (nat \<times> nat) set" where
  "edges P = {(u, v). v \<in> set (GetReachableSuccessors P u)}"

text \<open>In \<open>parented P e F bs\<close> every block but \<open>e\<close> has a predecessor in \<open>F\<close> or earlier in the
  list; in \<open>forward P bs\<close> a successor that is not later in the list leads back.\<close>

fun parented :: "('x, 'r) Program_scheme \<Rightarrow> nat \<Rightarrow> nat set \<Rightarrow> nat list \<Rightarrow> bool" where
  "parented P e F [] = True"
| "parented P e F (u # us) = ((u = e \<or> (\<exists>p \<in> F. (p, u) \<in> edges P)) \<and> parented P e (insert u F) us)"

fun forward :: "('x, 'r) Program_scheme \<Rightarrow> nat list \<Rightarrow> bool" where
  "forward P [] = True"
| "forward P (u # us) = ((\<forall>v. (u, v) \<in> edges P \<longrightarrow> v \<in> set us \<or> (v, u) \<in> (edges P)\<^sup>*) \<and> forward P us)"

text \<open>An entry of the stack holds the successors that are still to be followed; the others have
  been visited. The blocks of the stack form a path from the entry, the latest first.\<close>

definition frame_ok :: "('x, 'r) Program_scheme \<Rightarrow> nat set \<Rightarrow> nat \<times> nat list \<Rightarrow> bool" where
  "frame_ok P visited = (\<lambda>(b, ss). (\<forall>v. (b, v) \<in> edges P \<longrightarrow> v \<in> visited \<or> v \<in> set ss) \<and> (\<forall>v \<in> set ss. (b, v) \<in> edges P))"

abbreviation stack_path :: "('x, 'r) Program_scheme \<Rightarrow> nat list \<Rightarrow> bool" where
  "stack_path P \<equiv> successively (\<lambda>c p. (p, c) \<in> edges P)"

definition root :: "VisitStack \<Rightarrow> nat list \<Rightarrow> nat" where
  "root st res = hd (rev (map fst st) @ res)"

lemma root_simps [simp]:
  "root [(b, ss)] [] = b" "root [] res = hd res"
  "root ((c, cs) # (b, ss) # st) res = root ((b, []) # st) res"
  "NO_MATCH [] ss \<Longrightarrow> root ((b, ss) # st) res = root ((b, []) # st) res"
  by (auto simp: root_def hd_append)

lemma root_emit: "root ((b, ss) # st) res = root st (b # res)"
  by (simp add: root_def)

definition search :: "('x, 'r) Program_scheme \<Rightarrow> nat \<Rightarrow> nat set \<Rightarrow> VisitStack \<Rightarrow> nat list \<Rightarrow> bool" where
  "search P e visited st res \<longleftrightarrow>
     distinct (map fst st @ res) \<and> set (map fst st) \<union> set res = visited \<and>
     list_all (frame_ok P visited) st \<and> (\<forall>b \<in> set res. \<forall>v. (b, v) \<in> edges P \<longrightarrow> v \<in> visited) \<and>
     stack_path P (map fst st) \<and> root st res = e \<and>
     parented P e (set (map fst st)) res \<and> forward P res \<and> e \<in> visited \<and> (\<forall>b \<in> visited. (e, b) \<in> (edges P)\<^sup>*)"

lemma frame_new: "frame_ok P visited (b, GetReachableSuccessors P b)"
  by (auto simp: frame_ok_def edges_def)

lemma set_butlast: "ss \<noteq> [] \<Longrightarrow> set ss = insert (last ss) (set (butlast ss))"
  by (metis append_butlast_last_id list.simps(15) rotate1.simps(2) set_rotate1)

lemma frame_pop: "frame_ok P visited (b, ss) \<Longrightarrow> ss \<noteq> [] \<Longrightarrow> last ss \<in> visited \<Longrightarrow> frame_ok P visited (b, butlast ss)"
  by (auto simp: frame_ok_def set_butlast)

lemma frame_push: "frame_ok P visited (b, ss) \<Longrightarrow> ss \<noteq> [] \<Longrightarrow> frame_ok P (insert (last ss) visited) (b, butlast ss)"
  by (auto simp: frame_ok_def set_butlast)

lemma frame_mono: "frame_ok P visited f \<Longrightarrow> visited \<subseteq> V \<Longrightarrow> frame_ok P V f"
  by (auto simp: frame_ok_def)

lemma frame_edge: "frame_ok P visited (b, ss) \<Longrightarrow> ss \<noteq> [] \<Longrightarrow> (b, last ss) \<in> edges P"
  by (simp add: frame_ok_def)

lemma parented_mono: "parented P e F us \<Longrightarrow> F \<subseteq> G \<Longrightarrow> parented P e G us"
proof (induction us arbitrary: F G)
  case (Cons u us)
  then have "parented P e (insert u G) us" by (metis insert_mono parented.simps(2))
  with Cons.prems show ?case by auto
qed simp

lemma stack_path_reaches: "stack_path P (b # bs) \<Longrightarrow> p \<in> set (b # bs) \<Longrightarrow> (p, b) \<in> (edges P)\<^sup>*"
proof (induction bs arbitrary: b)
  case (Cons c bs)
  then have "p \<noteq> b \<Longrightarrow> (p, c) \<in> (edges P)\<^sup>*" by simp
  with Cons.prems(1) show ?case by (cases "p = b") (auto intro: rtrancl_into_rtrancl)
qed simp

subsection \<open>The loops keep the invariant\<close>

lemma search_start: "search P e {e} [(e, GetReachableSuccessors P e)] []"
  by (simp add: search_def frame_new)

lemma search_pop:
  assumes "search P e visited ((b, ss) # st) res" "ss \<noteq> []" "last ss \<in> visited"
  shows "search P e visited ((b, butlast ss) # st) res"
  using assms by (simp add: search_def frame_pop)

lemma search_push:
  assumes "search P e visited ((b, ss) # st) res" "ss \<noteq> []" "last ss \<notin> visited"
  shows "search P e (insert (last ss) visited) ((last ss, GetReachableSuccessors P (last ss)) # (b, butlast ss) # st) res"
proof -
  let ?V = "insert (last ss) visited"
  have "frame_ok P visited (b, ss)" "list_all (frame_ok P visited) st" "b \<in> visited" "(e, b) \<in> (edges P)\<^sup>*"
    and res: "\<forall>b \<in> set res. \<forall>v. (b, v) \<in> edges P \<longrightarrow> v \<in> visited"
    using assms(1) by (auto simp: search_def)
  then have edge: "(b, last ss) \<in> edges P" and top: "frame_ok P ?V (b, butlast ss)"
    and st: "list_all (frame_ok P ?V) st" and reach: "(e, last ss) \<in> (edges P)\<^sup>*"
    using assms(2) by (auto simp: frame_edge frame_push list_all_iff intro: frame_mono rtrancl_into_rtrancl)
  have par: "parented P e (insert (last ss) (insert b (set (map fst st)))) res"
    using assms(1) by (auto simp: search_def intro: parented_mono)
  show ?thesis
    using assms(1,3) edge top st reach par res frame_new[of P ?V "last ss"]
    by (auto simp: search_def)
qed

lemma search_emit:
  assumes "search P e visited ((b, []) # st) res"
  shows "search P e visited st (b # res)"
proof -
  have path: "stack_path P (b # map fst st)" and frame: "frame_ok P visited (b, [])"
    and vis: "insert b (set (map fst st) \<union> set res) = visited" and e: "root st (b # res) = e"
    using assms by (auto simp: search_def root_emit)
  have "b = e \<or> (\<exists>p \<in> set (map fst st). (p, b) \<in> edges P)"
    using path e by (cases st) auto
  moreover have "\<forall>v. (b, v) \<in> edges P \<longrightarrow> v \<in> set res \<or> (v, b) \<in> (edges P)\<^sup>*"
    using frame vis stack_path_reaches[OF path] by (auto simp: frame_ok_def)
  moreover have "stack_path P (map fst st)" using path by (cases st) auto
  moreover have "\<forall>v. (b, v) \<in> edges P \<longrightarrow> v \<in> visited" using frame by (simp add: frame_ok_def)
  ultimately show ?thesis using assms
    by (auto simp: search_def root_emit)
qed

lemma search_descend:
  "search P e visited st res \<Longrightarrow> TS_descend P visited st = (visited', st') \<Longrightarrow> st \<noteq> [] \<Longrightarrow>
   search P e visited' st' res \<and> st' \<noteq> [] \<and> snd (hd st') = []"
proof (induction P visited st rule: TS_descend.induct)
  case (2 P visited bb ss st)
  show ?case
  proof (cases "ss = []")
    case True
    with "2.prems" show ?thesis by (auto simp: TS_descend.simps)
  next
    case False
    show ?thesis
    proof (cases "last ss \<in> visited")
      case True
      with False "2.prems"(2) have "TS_descend P visited ((bb, butlast ss) # st) = (visited', st')"
        by (simp add: TS_descend.simps Let_def)
      with "2.IH"(1)[OF False refl refl True search_pop[OF "2.prems"(1) False True]] show ?thesis by simp
    next
      case new: False
      with False "2.prems"(2) have "TS_descend P (insert (last ss) visited)
          ((last ss, GetReachableSuccessors P (last ss)) # (bb, butlast ss) # st) = (visited', st')"
        by (simp add: TS_descend.simps Let_def)
      with "2.IH"(2)[OF False refl refl new search_push[OF "2.prems"(1) False new]] show ?thesis by simp
    qed
  qed
qed simp

lemma search_TS_emit:
  "search P e visited st res \<Longrightarrow> st \<noteq> [] \<Longrightarrow> snd (hd st) = [] \<Longrightarrow> TS_emit st res = (st', res') \<Longrightarrow>
   search P e visited st' res'"
proof (induction st res rule: TS_emit.induct)
  case (2 bb ss st res)
  then have nxt: "search P e visited st (bb # res)" by (auto intro: search_emit)
  show ?case
  proof (cases "st \<noteq> [] \<and> snd (hd st) = []")
    case True
    with 2 nxt show ?thesis by auto
  next
    case False
    with "2.prems" nxt show ?thesis by auto
  qed
qed simp

lemma search_TS_loop: "search P e visited st res \<Longrightarrow> \<exists>visited'. search P e visited' [] (TS_loop P visited st res)"
proof (induction P visited st res rule: TS_loop.induct)
  case (1 P visited st res)
  show ?case
  proof (cases "st = []")
    case False
    obtain v1 st1 st2 res2 where d: "TS_descend P visited st = (v1, st1)" and m: "TS_emit st1 res = (st2, res2)"
      by fastforce
    from search_descend[OF "1.prems" d False] m have "search P e v1 st2 res2" by (blast intro: search_TS_emit)
    from "1.IH"[OF False d[symmetric] refl m[symmetric] refl this] False d m show ?thesis
      by (simp add: TS_loop.simps)
  qed (use "1.prems" in \<open>auto simp: TS_loop.simps\<close>)
qed

lemma search_TopologicalSort:
  assumes "\<not> UNREACHABLE (blk P e)"
  shows "\<exists>visited. search P e visited [] (TopologicalSort P e)"
  using search_TS_loop[OF search_start] assms by (auto simp: TopologicalSort_def)

subsection \<open>The order\<close>

definition reachable :: "('x, 'r) Program_scheme \<Rightarrow> nat \<Rightarrow> nat set" where
  "reachable P e = {b. \<not> UNREACHABLE (blk P e) \<and> (e, b) \<in> (edges P)\<^sup>*}"

lemma reachable_step: "u \<in> reachable P e \<Longrightarrow> (u, v) \<in> edges P \<Longrightarrow> v \<in> reachable P e"
  by (auto simp: reachable_def intro: rtrancl_into_rtrancl split: if_splits)

lemma reachable_entry: "\<not> UNREACHABLE (blk P e) \<Longrightarrow> e \<in> reachable P e"
  by (simp add: reachable_def)

lemma reachable_not_UNREACHABLE: "b \<in> reachable P e \<Longrightarrow> \<not> UNREACHABLE (blk P b)"
proof -
  assume b: "b \<in> reachable P e"
  then have "(e, b) \<in> (edges P)\<^sup>*" "\<not> UNREACHABLE (blk P e)" by (auto simp: reachable_def split: if_splits)
  then show ?thesis
    by (cases rule: rtranclE) (auto simp: edges_def GetReachableSuccessors_def)
qed

lemma TopologicalSort_set: "set (TopologicalSort P e) = reachable P e"
proof (cases "UNREACHABLE (blk P e)")
  case True
  then show ?thesis by (simp add: TopologicalSort_def reachable_def)
next
  case False
  then obtain V where s: "search P e V [] (TopologicalSort P e)" using search_TopologicalSort by blast
  then have V: "V = set (TopologicalSort P e)" "\<forall>b \<in> V. (e, b) \<in> (edges P)\<^sup>*"
    "\<And>b v. b \<in> V \<Longrightarrow> (b, v) \<in> edges P \<Longrightarrow> v \<in> V" by (auto simp: search_def)
  have "b \<in> V" if "(e, b) \<in> (edges P)\<^sup>*" for b
    using that by (induction rule: rtrancl_induct) (use s V(3) in \<open>simp_all add: search_def\<close>)
  with V(1,2) False show ?thesis unfolding reachable_def by (simp add: set_eq_iff) blast
qed

lemma TopologicalSort_distinct: "distinct (TopologicalSort P e)"
proof (cases "UNREACHABLE (blk P e)")
  case False
  then show ?thesis using search_TopologicalSort[OF False] by (auto simp: search_def)
qed (simp add: TopologicalSort_def)

lemma parented_split: "parented P e F (xs @ u # ys) \<Longrightarrow> u \<noteq> e \<Longrightarrow> \<exists>p \<in> F \<union> set xs. (p, u) \<in> edges P"
proof (induction xs arbitrary: F)
  case (Cons x xs)
  from Cons.IH[of "insert x F"] Cons.prems show ?case by simp
qed simp

lemma forward_split: "forward P (xs @ u # ys) \<Longrightarrow> (u, v) \<in> edges P \<Longrightarrow> v \<in> set ys \<or> (v, u) \<in> (edges P)\<^sup>*"
  by (induction xs) auto

lemma TopologicalSort_split:
  assumes "TopologicalSort P e = xs @ u # ys"
  shows "u \<noteq> e \<Longrightarrow> \<exists>p \<in> set xs. (p, u) \<in> edges P"
    and "(u, v) \<in> edges P \<Longrightarrow> v \<in> set ys \<or> (v, u) \<in> (edges P)\<^sup>*"
    and "xs = [] \<Longrightarrow> u = e"
proof -
  from assms have "\<not> UNREACHABLE (blk P e)" by (auto simp: TopologicalSort_def)
  then obtain V where "search P e V [] (xs @ u # ys)" using search_TopologicalSort[of P e] assms by auto
  then have p: "parented P e {} (xs @ u # ys)" and f: "forward P (xs @ u # ys)" and r: "hd (xs @ u # ys) = e"
    by (auto simp: search_def)
  show "u \<noteq> e \<Longrightarrow> \<exists>p \<in> set xs. (p, u) \<in> edges P" using parented_split[OF p] by simp
  show "(u, v) \<in> edges P \<Longrightarrow> v \<in> set ys \<or> (v, u) \<in> (edges P)\<^sup>*" using forward_split[OF f] .
  show "xs = [] \<Longrightarrow> u = e" using r by simp
qed

text \<open>C19: the topological order of a function lists exactly the blocks that reachable successors
  lead to from the entry, each once; the entry comes first, every other block comes after one of
  its predecessors, and a successor that does not come later leads back to the block.\<close>

theorem TopologicalSort_correct:
  "set (TopologicalSort P e) = reachable P e \<and> distinct (TopologicalSort P e) \<and>
   (\<forall>xs u ys. TopologicalSort P e = xs @ u # ys \<longrightarrow>
      (if xs = [] then u = e else \<exists>p \<in> set xs. (p, u) \<in> edges P) \<and>
      {v. (u, v) \<in> edges P} \<subseteq> set ys \<union> {v. (v, u) \<in> (edges P)\<^sup>*})"
proof (intro conjI allI impI TopologicalSort_set TopologicalSort_distinct)
  fix xs u ys
  assume t: "TopologicalSort P e = xs @ u # ys"
  have "xs \<noteq> [] \<Longrightarrow> u \<noteq> e"
  proof
    assume "xs \<noteq> []" "u = e"
    then obtain x zs where "TopologicalSort P e = [] @ x # zs" "e \<in> set zs" using t by (cases xs) auto
    then show False using TopologicalSort_split(3)[of P e "[]"] TopologicalSort_distinct[of P e] by auto
  qed
  then show "if xs = [] then u = e else \<exists>p \<in> set xs. (p, u) \<in> edges P"
    using TopologicalSort_split(1,3)[OF t] by auto
  show "{v. (u, v) \<in> edges P} \<subseteq> set ys \<union> {v. (v, u) \<in> (edges P)\<^sup>*}"
    using TopologicalSort_split(2)[OF t] by blast
qed

text \<open>A loop with an exit, and a block that no reachable edge leads to: the entry 0 comes first, the
  loop head 1 after it, and the body 2, whose successor 1 does not come later, leads back.\<close>

definition sample_cfg :: "unit Program" where
  "sample_cfg = \<lparr>BlockTable = map (\<lambda>(u, ss). \<lparr>UNREACHABLE = u, Exprs = [], Succs = ss\<rparr>)
       [(False, [1]), (False, [2, 3]), (False, [1]), (False, [4]), (True, [5]), (False, [])],
     LocalVars = [], FuncOf = (\<lambda>v. None), TypeOf = (\<lambda>v. T_Other), DefOf = (\<lambda>d. \<lparr>IsCStruct = False, AllInstanceVars = []\<rparr>),
     LambdaTable = [], CapturedVars = (\<lambda>l. []),
     TheFunc = \<lparr>IsConstructor = False, IsInstanceVarInit = False, IsMemberFunc = False, IsStatic = False,
       HasBody = True, OuterDef = None\<rparr>,
     Params = [], Body = Some \<lparr>EntryBlock = 0, GroupBlocks = [0, 1, 2, 3, 4, 5]\<rparr>, SkipAnalysis = False\<rparr>"

theorem TopologicalSort_correct_witness:
  "TopologicalSort sample_cfg 0 = [0, 1] @ 2 # [3] \<and> reachable sample_cfg 0 = {0, 1, 2, 3} \<and>
   (\<exists>p \<in> set [0, 1]. (p, 2) \<in> edges sample_cfg) \<and>
   {v. (2, v) \<in> edges sample_cfg} \<subseteq> set [3] \<union> {v. (v, 2) \<in> (edges sample_cfg)\<^sup>*}"
proof -
  have t: "TopologicalSort sample_cfg 0 = [0, 1] @ 2 # [3]" by code_simp
  note c = TopologicalSort_correct[of sample_cfg 0]
  from c have "set (TopologicalSort sample_cfg 0) = reachable sample_cfg 0" by (rule conjunct1)
  then have r: "reachable sample_cfg 0 = {0, 1, 2, 3}" unfolding t by auto
  from c t have u: "(if [0, 1] = ([] :: nat list) then 2 = (0::nat) else \<exists>p \<in> set [0, 1]. (p, 2) \<in> edges sample_cfg) \<and>
      {v. (2, v) \<in> edges sample_cfg} \<subseteq> set [3] \<union> {v. (v, 2) \<in> (edges sample_cfg)\<^sup>*}"
    by (elim conjE allE) (erule mp)
  show ?thesis using t r u by (simp only: if_False list.distinct simp_thms)
qed

end
