(* ===== verification/EngineFix.thy ===== *)
theory EngineFix
  imports Engine TopoOrder
begin

section \<open>The engine reaches a fixpoint\<close>

text \<open>
  What an analysis has to promise the engine, as locales, and what the engine then delivers.
  \<open>dataflow\<close> holds the laws of the join and of the transfer functions. The engine keeps: the set
  mirrors the worklist; every block that is not queued is stable, that is, its exit state is below
  the entry state of each successor that its terminator may take. An analysis whose join does not
  report that a block became reachable needs the topological order of the first round:
  \<open>undirected\<close> (no branch is ever decided) adds what makes that argument go through, and a height
  that falls with every reported change, so that the iteration ends.
\<close>

subsection \<open>The flow of a block\<close>

definition BlockFlow :: "('x, 'r) Program_scheme \<Rightarrow> ('x, 'd, 'm) Analysis \<Rightarrow> nat \<Rightarrow> 'd \<Rightarrow> 'd \<times> nat option" where
  "BlockFlow P an b x =
     (let t = last (Exprs (blk P b));
          y = fold (\<lambda>e s. SimulatingProcessingSingleExpression P an s e) (butlast (Exprs (blk P b))) x
      in PropagateTerminatorEffect an (CapturedByCallee P an y t) t)"

definition entry_of :: "('d, 'm) Engine \<Rightarrow> nat \<Rightarrow> 'd" where
  "entry_of E b = the (entryStates E b)"

definition stable :: "('x, 'r) Program_scheme \<Rightarrow> ('x, 'd, 'm) Analysis \<Rightarrow> ('d \<Rightarrow> 'd \<Rightarrow> bool) \<Rightarrow> (nat \<Rightarrow> 'd) \<Rightarrow> nat \<Rightarrow> bool" where
  "stable P an le entry b \<longleftrightarrow> IsBottom an (entry b) \<or> Exprs (blk P b) = [] \<or>
     (\<forall>s \<in> set (TargetSuccessors P b (snd (BlockFlow P an b (entry b)))). le (fst (BlockFlow P an b (entry b))) (entry s))"

definition lambdas :: "('x, 'r) Program_scheme \<Rightarrow> nat set" where
  "lambdas P = {l. \<exists>b. LambdaExpr l \<in> set (Exprs (blk P b))}"

lemma VisitExpr_state: "fst (VisitExpr P an e (s, E)) = SimulatingProcessingSingleExpression P an s e"
  by (simp add: VisitExpr_def SimulatingProcessingSingleExpression_def Let_def split: Expr.split)

lemma VisitExpr_engine:
  "worklist (snd (VisitExpr P an e sE)) = worklist (snd sE)"
  "worklistSet (snd (VisitExpr P an e sE)) = worklistSet (snd sE)"
  "entryStates (snd (VisitExpr P an e sE)) = entryStates (snd sE)"
  "members (snd (VisitExpr P an e sE)) = members (snd sE)"
  by (simp_all add: VisitExpr_def Let_def split: Expr.split prod.split)

lemma VisitExprs_state:
  "fst (fold (VisitExpr P an) es (s, E)) = fold (\<lambda>e s. SimulatingProcessingSingleExpression P an s e) es s"
proof (induction es arbitrary: s E)
  case (Cons e es)
  obtain s' E' where v: "VisitExpr P an e (s, E) = (s', E')" by fastforce
  with VisitExpr_state[of P an e s E] show ?case using Cons[of s' E'] by simp
qed simp

lemma VisitExprs_engine:
  "worklist (snd (fold (VisitExpr P an) es sE)) = worklist (snd sE)"
  "worklistSet (snd (fold (VisitExpr P an) es sE)) = worklistSet (snd sE)"
  "entryStates (snd (fold (VisitExpr P an) es sE)) = entryStates (snd sE)"
  "members (snd (fold (VisitExpr P an) es sE)) = members (snd sE)"
  by (induction es arbitrary: sE) (simp_all add: VisitExpr_engine)

text \<open>One round of the worklist loop in terms of the flow of the block.\<close>

lemma ProcessBlock_flow:
  assumes "worklist E = b # rest" "entryStates E b = Some x" "\<not> UNREACHABLE (blk P b)"
    "\<not> IsBottom an x" "Exprs (blk P b) \<noteq> []"
    "CheckInQueueTimes an (members E) b (fst (BlockFlow P an b x)) = (s, quit, m)"
  obtains E2 where "ProcessBlock P an E = JoinSuccessors an s
      (TargetSuccessors P b (if quit then None else snd (BlockFlow P an b x))) E2"
    "worklist E2 = rest" "worklistSet E2 = worklistSet E - {b}" "entryStates E2 = entryStates E"
proof -
  let ?E1 = "E\<lparr>worklist := rest, worklistSet := worklistSet E - {b}\<rparr>"
  obtain s1 E2 where v: "fold (VisitExpr P an) (butlast (Exprs (blk P b))) (x, ?E1) = (s1, E2)" by fastforce
  have s1: "s1 = fold (\<lambda>e s. SimulatingProcessingSingleExpression P an s e) (butlast (Exprs (blk P b))) x"
    using VisitExprs_state[of P an _ x ?E1] v by (metis fst_conv)
  obtain s2 t where bf: "BlockFlow P an b x = (s2, t)" by fastforce
  then have pt: "PropagateTerminatorEffect an (CapturedByCallee P an s1 (last (Exprs (blk P b)))) (last (Exprs (blk P b))) = (s2, t)"
    by (simp add: BlockFlow_def Let_def s1)
  have E2: "worklist E2 = rest" "worklistSet E2 = worklistSet E - {b}" "entryStates E2 = entryStates E" "members E2 = members E"
    using VisitExprs_engine[of P an "butlast (Exprs (blk P b))" "(x, ?E1)"] v by simp_all
  show ?thesis
    by (rule that[of "E2\<lparr>members := m\<rparr>"])
      (use assms v pt bf E2 in \<open>simp_all add: ProcessBlock_def Let_def\<close>)
qed

lemma ProcessBlock_skip:
  assumes "worklist E = b # rest" "entryStates E b = Some x" "\<not> UNREACHABLE (blk P b)"
    "IsBottom an x \<or> Exprs (blk P b) = []"
  shows "ProcessBlock P an E = Some (E\<lparr>worklist := rest, worklistSet := worklistSet E - {b}\<rparr>)"
  using assms by (auto simp: ProcessBlock_def Let_def)

subsection \<open>Rules for the worklist loop\<close>

lemma IterateWorklist_total:
  fixes M :: "('d, 'm) Engine \<Rightarrow> nat"
  assumes step: "\<And>E. I E \<Longrightarrow> worklist E \<noteq> [] \<Longrightarrow> \<exists>E'. ProcessBlock P an E = Some E' \<and> I E' \<and> M E' < M E"
    and "I E"
  shows "\<exists>E'. IterateWorklist P an E = Some E' \<and> I E' \<and> worklist E' = []"
  using assms(2)
proof (induction "M E" arbitrary: E rule: less_induct)
  case less
  show ?case
  proof (cases "worklist E = []")
    case True
    then show ?thesis using less.prems by (simp add: IterateWorklist.simps)
  next
    case False
    from step[OF less.prems False] obtain E' where E': "ProcessBlock P an E = Some E'" "I E'" "M E' < M E" by blast
    from less.hyps[OF E'(3,2)] E'(1) False show ?thesis by (subst IterateWorklist.simps) simp
  qed
qed

subsection \<open>The laws of an analysis\<close>

text \<open>A transfer function keeps a well-formed and reachable state well-formed and reachable, and
  takes states that are below each other to states that are below each other.\<close>

definition transfer :: "('d \<Rightarrow> bool) \<Rightarrow> ('d \<Rightarrow> bool) \<Rightarrow> ('d \<Rightarrow> 'd \<Rightarrow> bool) \<Rightarrow> ('d \<Rightarrow> 'd) \<Rightarrow> bool" where
  "transfer ok dead le f \<longleftrightarrow>
     (\<forall>x. ok x \<and> \<not> dead x \<longrightarrow> ok (f x) \<and> \<not> dead (f x)) \<and>
     (\<forall>x y. ok x \<and> ok y \<and> \<not> dead x \<and> \<not> dead y \<and> le x y \<and> le y x \<longrightarrow> le (f x) (f y) \<and> le (f y) (f x))"

lemma transfer_id: "transfer ok dead le (\<lambda>x. x)"
  by (simp add: transfer_def)

lemma transfer_comp: "transfer ok dead le f \<Longrightarrow> transfer ok dead le g \<Longrightarrow> transfer ok dead le (\<lambda>x. g (f x))"
  by (simp add: transfer_def)

lemma transfer_fold:
  "(\<And>e. e \<in> set es \<Longrightarrow> transfer ok dead le (f e)) \<Longrightarrow> transfer ok dead le (fold f es)"
proof (induction es)
  case (Cons e es)
  then show ?case by (simp add: transfer_comp[of _ _ _ "f e" "fold f es"] comp_def)
qed (simp add: transfer_id id_def)

text \<open>The interface: \<open>ok\<close> is the well-formedness of a state, \<open>le\<close> the order that the join respects.\<close>

locale dataflow =
  fixes P :: "('x, 'r) Program_scheme"
    and an :: "('x, 'd, 'm) Analysis"
    and ok :: "'d \<Rightarrow> bool"
    and le :: "'d \<Rightarrow> 'd \<Rightarrow> bool"
  assumes le_refl: "le x x"
    and le_trans: "le x y \<Longrightarrow> le y z \<Longrightarrow> le x z"
    and join_ok: "ok x \<Longrightarrow> ok y \<Longrightarrow> ok (fst (Join an x y))"
    and join_live: "ok x \<Longrightarrow> ok y \<Longrightarrow> \<not> IsBottom an y \<Longrightarrow> \<not> IsBottom an (fst (Join an x y))"
    and join_left: "ok x \<Longrightarrow> ok y \<Longrightarrow> \<not> IsBottom an y \<Longrightarrow> le x (fst (Join an x y))"
    and join_right: "ok x \<Longrightarrow> ok y \<Longrightarrow> \<not> IsBottom an y \<Longrightarrow> le y (fst (Join an x y))"
    and join_unchanged: "ok x \<Longrightarrow> ok y \<Longrightarrow> \<not> IsBottom an x \<Longrightarrow> \<not> IsBottom an y \<Longrightarrow>
      \<not> snd (Join an x y) \<Longrightarrow> le (fst (Join an x y)) x"
    and transfer_expression: "transfer ok (IsBottom an) le (\<lambda>s. PropagateExpressionEffect an s e)"
    and transfer_captured: "transfer ok (IsBottom an) le (\<lambda>s. HandleVarStateCapturedByLambda an s l)"
    and transfer_lambda: "transfer ok (IsBottom an) le (\<lambda>s. PreHandleLambdaExpression an s l)"
    and transfer_terminator: "transfer ok (IsBottom an) le (\<lambda>s. fst (PropagateTerminatorEffect an s e))"
    and target_cong: "ok x \<Longrightarrow> ok y \<Longrightarrow> \<not> IsBottom an x \<Longrightarrow> \<not> IsBottom an y \<Longrightarrow> le x y \<Longrightarrow> le y x \<Longrightarrow>
      snd (PropagateTerminatorEffect an x e) = snd (PropagateTerminatorEffect an y e)"
    and target_successor: "ok x \<Longrightarrow> Exprs (blk P b) \<noteq> [] \<Longrightarrow>
      snd (PropagateTerminatorEffect an x (last (Exprs (blk P b)))) = Some t \<Longrightarrow> t \<in> set (Succs (blk P b))"
    and quit_above: "ok s \<Longrightarrow> \<not> IsBottom an s \<Longrightarrow> CheckInQueueTimes an m b s = (s', quit, m') \<Longrightarrow>
      ok s' \<and> \<not> IsBottom an s' \<and> le s s'"
begin

abbreviation "dead \<equiv> IsBottom an"
abbreviation "flow b x \<equiv> fst (BlockFlow P an b x)"
abbreviation "target b x \<equiv> snd (BlockFlow P an b x)"

definition eqv :: "'d \<Rightarrow> 'd \<Rightarrow> bool" where
  "eqv x y \<longleftrightarrow> ok x \<and> ok y \<and> \<not> dead x \<and> \<not> dead y \<and> le x y \<and> le y x"

lemma transfer_callee: "transfer ok dead le (\<lambda>s. CapturedByCallee P an s e)"
  by (cases "IsApplyToLambda P e") (simp_all add: CapturedByCallee_def transfer_id transfer_captured)

lemma transfer_single: "transfer ok dead le (\<lambda>s. SimulatingProcessingSingleExpression P an s e)"
  by (cases e) (simp_all add: SimulatingProcessingSingleExpression_def transfer_lambda
      transfer_comp[OF transfer_callee transfer_expression])

lemma transfer_body:
  "transfer ok dead le (\<lambda>x. CapturedByCallee P an (fold (\<lambda>e s. SimulatingProcessingSingleExpression P an s e) es x) t)"
  by (rule transfer_comp[OF transfer_fold[OF transfer_single] transfer_callee])

lemma transfer_flow: "transfer ok dead le (flow b)"
  using transfer_comp[OF transfer_body transfer_terminator] by (simp add: BlockFlow_def Let_def)

lemma flow_ok: "ok x \<Longrightarrow> \<not> dead x \<Longrightarrow> ok (flow b x) \<and> \<not> dead (flow b x)"
  using transfer_flow[of b] by (simp add: transfer_def)

lemma flow_eqv: "eqv x y \<Longrightarrow> eqv (flow b x) (flow b y)"
  using transfer_flow[of b] by (simp add: transfer_def eqv_def)

lemma target_eqv: "eqv x y \<Longrightarrow> target b x = target b y"
  unfolding eqv_def BlockFlow_def Let_def
  by (rule target_cong) (use transfer_body in \<open>simp_all add: transfer_def\<close>)

lemma target_in: "ok x \<Longrightarrow> \<not> dead x \<Longrightarrow> Exprs (blk P b) \<noteq> [] \<Longrightarrow>
  set (TargetSuccessors P b (target b x)) \<subseteq> set (GetReachableSuccessors P b)"
proof -
  assume a: "ok x" "\<not> dead x" "Exprs (blk P b) \<noteq> []"
  then have "ok (CapturedByCallee P an (fold (\<lambda>e s. SimulatingProcessingSingleExpression P an s e)
      (butlast (Exprs (blk P b))) x) (last (Exprs (blk P b))))"
    using transfer_body by (simp add: transfer_def)
  from target_successor[OF this a(3)] show ?thesis
    by (auto simp: TargetSuccessors_def BlockFlow_def Let_def GetReachableSuccessors_def split: option.splits)
qed

end

end
