(* ===== verification/EngineInv.thy ===== *)
theory EngineInv
  imports EngineFix
begin

section \<open>The invariant of the worklist loop\<close>

text \<open>
  Joining into the successors only moves entry states up and only appends to the worklist
  (\<open>advance\<close>), and it keeps the bookkeeping right (\<open>base\<close>); so a block that was stable stays
  stable unless it is queued, and a round makes the block it takes stable.
\<close>

context dataflow
begin

text \<open>A change to the entry state of a block that is not queued will be noticed: the block is live
  already, or the join reports its first change.\<close>

definition noticed :: "('d, 'm) Engine \<Rightarrow> nat \<Rightarrow> bool" where
  "noticed E c \<longleftrightarrow> \<not> dead (entry_of E c) \<or> (\<forall>y. ok y \<and> \<not> dead y \<longrightarrow> snd (Join an (entry_of E c) y))"

definition base :: "nat \<Rightarrow> ('d, 'm) Engine \<Rightarrow> bool" where
  "base e E \<longleftrightarrow> worklistSet E = set (worklist E) \<and> distinct (worklist E) \<and> set (worklist E) \<subseteq> reachable P e \<and>
     (\<forall>c \<in> reachable P e. (\<exists>x. entryStates E c = Some x) \<and> ok (entry_of E c)) \<and>
     (\<forall>c \<in> reachable P e. c \<in> set (worklist E) \<or> noticed E c)"

definition advance :: "nat \<Rightarrow> ('d, 'm) Engine \<Rightarrow> ('d, 'm) Engine \<Rightarrow> bool" where
  "advance e E E' \<longleftrightarrow> (\<exists>extra. worklist E' = worklist E @ extra) \<and>
     (\<forall>c \<in> reachable P e. le (entry_of E c) (entry_of E' c) \<and> (\<not> dead (entry_of E c) \<longrightarrow> \<not> dead (entry_of E' c)) \<and>
        (c \<in> set (worklist E') \<or> entry_of E' c = entry_of E c \<or> eqv (entry_of E c) (entry_of E' c)))"

lemma eqv_trans: "eqv x y \<Longrightarrow> eqv y z \<Longrightarrow> eqv x z"
  by (auto simp: eqv_def intro: le_trans)

lemma eqv_sym: "eqv x y \<Longrightarrow> eqv y x"
  by (auto simp: eqv_def)

lemma advance_refl: "advance e E E"
  by (simp add: advance_def le_refl)

lemma advance_trans:
  assumes "advance e E1 E2" "advance e E2 E3"
  shows "advance e E1 E3"
  unfolding advance_def
proof (intro conjI ballI)
  show "\<exists>extra. worklist E3 = worklist E1 @ extra" using assms by (auto simp: advance_def)
next
  fix c assume c: "c \<in> reachable P e"
  have wl: "set (worklist E2) \<subseteq> set (worklist E3)" using assms(2) by (auto simp: advance_def)
  show "le (entry_of E1 c) (entry_of E3 c)" using assms c by (auto simp: advance_def intro: le_trans)
  show "\<not> dead (entry_of E1 c) \<longrightarrow> \<not> dead (entry_of E3 c)" using assms c by (auto simp: advance_def)
  show "c \<in> set (worklist E3) \<or> entry_of E3 c = entry_of E1 c \<or> eqv (entry_of E1 c) (entry_of E3 c)"
  proof (cases "c \<in> set (worklist E3)")
    case False
    with wl assms c have "entry_of E2 c = entry_of E1 c \<or> eqv (entry_of E1 c) (entry_of E2 c)"
      "entry_of E3 c = entry_of E2 c \<or> eqv (entry_of E2 c) (entry_of E3 c)" by (auto simp: advance_def)
    then show ?thesis by (metis eqv_trans)
  qed simp
qed

lemma JoinSuccessor_shape:
  assumes "base e E" "c \<in> reachable P e"
  shows "\<exists>E'. JoinSuccessor an s c E = Some E' \<and>
      entryStates E' = (entryStates E)(c \<mapsto> fst (Join an (entry_of E c) s)) \<and>
      (if snd (Join an (entry_of E c) s) \<and> c \<notin> set (worklist E)
       then worklist E' = worklist E @ [c] \<and> worklistSet E' = insert c (worklistSet E)
       else worklist E' = worklist E \<and> worklistSet E' = worklistSet E)"
proof -
  from assms obtain x where x: "entryStates E c = Some x" by (auto simp: base_def)
  obtain n h where j: "Join an x s = (n, h)" by fastforce
  show ?thesis using assms x j by (auto simp: JoinSuccessor_def entry_of_def base_def Let_def)
qed

lemma JoinSuccessor_advance:
  assumes b: "base e E" and c: "c \<in> reachable P e" and s: "ok s" "\<not> dead s"
  shows "\<exists>E'. JoinSuccessor an s c E = Some E' \<and> base e E' \<and> advance e E E' \<and>
    le s (entry_of E' c) \<and> \<not> dead (entry_of E' c) \<and> (\<forall>d. d \<noteq> c \<longrightarrow> entry_of E' d = entry_of E d) \<and>
    entry_of E' c = fst (Join an (entry_of E c) s) \<and>
    length (worklist E') \<le> length (worklist E) + (if snd (Join an (entry_of E c) s) then 1 else 0)"
proof -
  let ?x = "entry_of E c"
  from b c have x: "ok ?x" by (auto simp: base_def)
  obtain E' where E': "JoinSuccessor an s c E = Some E'"
    and es: "entryStates E' = (entryStates E)(c \<mapsto> fst (Join an ?x s))"
    and wl: "if snd (Join an ?x s) \<and> c \<notin> set (worklist E)
       then worklist E' = worklist E @ [c] \<and> worklistSet E' = insert c (worklistSet E)
       else worklist E' = worklist E \<and> worklistSet E' = worklistSet E"
    using JoinSuccessor_shape[OF b c] by blast
  have new: "entry_of E' c = fst (Join an ?x s)" and old: "\<And>d. d \<noteq> c \<Longrightarrow> entry_of E' d = entry_of E d"
    by (simp_all add: entry_of_def es)
  have live: "\<not> dead (entry_of E' c)" and up: "le ?x (entry_of E' c)" "le s (entry_of E' c)" and ok: "ok (entry_of E' c)"
    using x s by (simp_all add: new join_live join_left join_right join_ok)
  have wl_mono: "\<exists>extra. worklist E' = worklist E @ extra" "set (worklist E) \<subseteq> set (worklist E')"
    using wl by (auto split: if_splits)
  have "noticed E' c" using live by (simp add: noticed_def)
  moreover have "d \<in> set (worklist E') \<or> noticed E' d" if "d \<noteq> c" "d \<in> reachable P e" for d
    using b that wl_mono(2) by (auto simp: base_def noticed_def old)
  ultimately have base: "base e E'"
    using b c wl ok old unfolding base_def by (auto simp: es split: if_splits) (metis+)
  have "c \<in> set (worklist E') \<or> eqv ?x (entry_of E' c)"
  proof (cases "c \<in> set (worklist E')")
    case False
    then have nc: "c \<notin> set (worklist E)" "\<not> snd (Join an ?x s)" using wl by (auto split: if_splits)
    then have "\<not> dead ?x" using b c s by (auto simp: base_def noticed_def)
    then show ?thesis using x s ok live up nc(2) by (simp add: eqv_def new join_unchanged)
  qed simp
  then have "advance e E E'"
    unfolding advance_def using wl_mono(1) live up old le_refl by (metis (no_types, lifting))
  moreover have "length (worklist E') \<le> length (worklist E) + (if snd (Join an ?x s) then 1 else 0)"
    using wl by (auto split: if_splits)
  ultimately show ?thesis using E' base live up old new by auto
qed

text \<open>The same for the list of successors, with a predicate on the entry states that each join
  keeps.\<close>

lemma JoinSuccessors_advance:
  assumes "base e E" "set cs \<subseteq> reachable P e" "ok s" "\<not> dead s"
    and "\<And>c x. c \<in> set cs \<Longrightarrow> ok x \<Longrightarrow> Q c x \<Longrightarrow> Q c (fst (Join an x s))"
    and "\<forall>c \<in> reachable P e. Q c (entry_of E c)"
  shows "\<exists>E'. JoinSuccessors an s cs E = Some E' \<and> base e E' \<and> advance e E E' \<and>
    (\<forall>c \<in> set cs. le s (entry_of E' c) \<and> \<not> dead (entry_of E' c)) \<and> (\<forall>c \<in> reachable P e. Q c (entry_of E' c))"
  using assms
proof (induction cs arbitrary: E)
  case Nil
  then show ?case by (simp add: advance_refl)
next
  case (Cons c cs)
  then have c: "c \<in> reachable P e" by simp
  from JoinSuccessor_advance[OF Cons.prems(1) c Cons.prems(3,4)] obtain E1 where
    E1: "JoinSuccessor an s c E = Some E1" "base e E1" "advance e E E1" "le s (entry_of E1 c)"
      "\<not> dead (entry_of E1 c)" "\<forall>d. d \<noteq> c \<longrightarrow> entry_of E1 d = entry_of E d"
      "entry_of E1 c = fst (Join an (entry_of E c) s)" by blast
  have "Q c (entry_of E1 c)" using Cons.prems(1,5,6) c by (simp add: E1(7) base_def)
  then have Q: "\<forall>d \<in> reachable P e. Q d (entry_of E1 d)" using E1(6) Cons.prems(6) by metis
  from Cons.IH[OF E1(2) _ Cons.prems(3,4) _ Q] Cons.prems(2,5) obtain E2 where
    E2: "JoinSuccessors an s cs E1 = Some E2" "base e E2" "advance e E1 E2"
      "\<forall>c \<in> set cs. le s (entry_of E2 c) \<and> \<not> dead (entry_of E2 c)" "\<forall>c \<in> reachable P e. Q c (entry_of E2 c)"
    by auto
  have "le s (entry_of E2 c) \<and> \<not> dead (entry_of E2 c)"
    using E1(4,5) E2(3) c by (auto simp: advance_def intro: le_trans)
  with E1 E2 show ?case by (auto intro: advance_trans)
qed

subsection \<open>Stability\<close>

abbreviation stable_in :: "('d, 'm) Engine \<Rightarrow> nat \<Rightarrow> bool" where
  "stable_in E \<equiv> stable P an le (entry_of E)"

lemma targets_reachable:
  assumes "c \<in> reachable P e" "ok x" "\<not> dead x" "Exprs (blk P c) \<noteq> []"
  shows "set (TargetSuccessors P c (target c x)) \<subseteq> reachable P e"
  using target_in[OF assms(2-4)] reachable_step[OF assms(1)] by (auto simp: edges_def)

text \<open>A block keeps its exit state when its entry state is replaced by an equivalent one.\<close>

lemma stable_moves:
  assumes a: "advance e E E'" "base e E" and c: "c \<in> reachable P e" "c \<notin> set (worklist E')"
    and st: "\<forall>s \<in> set (TargetSuccessors P c (target c (entry_of E c))). le (flow c (entry_of E c)) (entry_of E s)"
    and live: "\<not> dead (entry_of E c)" and ex: "Exprs (blk P c) \<noteq> []"
  shows "stable_in E' c"
proof -
  let ?x = "entry_of E c" and ?y = "entry_of E' c"
  have okx: "ok ?x" using a c by (simp add: base_def)
  from a(1) c have "?y = ?x \<or> eqv ?x ?y" by (auto simp: advance_def)
  then have t: "target c ?y = target c ?x" and f: "le (flow c ?y) (flow c ?x)"
    using target_eqv flow_eqv[of ?x ?y] le_refl by (auto simp: eqv_def)
  have "le (flow c ?y) (entry_of E' s)" if s: "s \<in> set (TargetSuccessors P c (target c ?y))" for s
  proof -
    have "s \<in> reachable P e" using targets_reachable[OF c(1) okx live ex] s t by auto
    with a(1) have "le (entry_of E s) (entry_of E' s)" by (simp add: advance_def)
    with st s t f show ?thesis by (metis le_trans)
  qed
  then show ?thesis by (simp add: stable_def)
qed

lemma stable_advance:
  assumes a: "advance e E E'" "base e E" and c: "c \<in> reachable P e" "c \<notin> set (worklist E')" and st: "stable_in E c"
  shows "stable_in E' c"
proof (cases "Exprs (blk P c) = [] \<or> dead (entry_of E c)")
  case True
  from a(1) c have "entry_of E' c = entry_of E c \<or> eqv (entry_of E c) (entry_of E' c)" by (auto simp: advance_def)
  with True show ?thesis by (cases "dead (entry_of E c)") (auto simp: stable_def eqv_def)
next
  case False
  with stable_moves[OF a c] st show ?thesis by (simp add: stable_def)
qed

definition inv :: "nat \<Rightarrow> ('d, 'm) Engine \<Rightarrow> bool" where
  "inv e E \<longleftrightarrow> base e E \<and> (\<forall>c \<in> reachable P e. c \<in> set (worklist E) \<or> stable_in E c)"

subsection \<open>One round\<close>

lemma base_pop:
  assumes "base e E" "worklist E = b # rest" "noticed E b" "worklist E1 = rest"
    "worklistSet E1 = worklistSet E - {b}" "entryStates E1 = entryStates E"
  shows "base e E1"
  using assms by (auto simp: base_def noticed_def entry_of_def)

lemma inv_advance:
  assumes i: "inv e E" and wl: "worklist E = b # rest" and pop: "base e E1" "worklist E1 = rest" "entryStates E1 = entryStates E"
    and a: "advance e E1 E'" "base e E'" and b: "b \<in> set (worklist E') \<or> stable_in E' b"
  shows "inv e E'"
proof -
  have same: "entry_of E1 = entry_of E" by (simp add: entry_of_def pop(3) fun_eq_iff)
  have "stable_in E' c" if c: "c \<in> reachable P e" "c \<notin> set (worklist E')" "c \<noteq> b" for c
  proof -
    have "c \<notin> set (worklist E)" using c a(1) wl pop(2) by (auto simp: advance_def)
    with i c(1) have "stable_in E1 c" by (auto simp: inv_def same)
    with a(1) pop(1) c show ?thesis by (blast intro: stable_advance)
  qed
  with b a(2) show ?thesis by (auto simp: inv_def)
qed

text \<open>What a round does: it takes the head off the worklist and joins a live state into some
  successors (into all of them, where no branch is decided); it skips a block that is not live.\<close>

definition round :: "nat \<Rightarrow> nat \<Rightarrow> nat list \<Rightarrow> ('d, 'm) Engine \<Rightarrow> ('d, 'm) Engine \<Rightarrow> bool" where
  "round e b rest E E' \<longleftrightarrow> (\<exists>E1 s cs. base e E1 \<and> worklist E1 = rest \<and> entryStates E1 = entryStates E \<and>
     (cs = [] \<or> ok s \<and> \<not> dead s) \<and> set cs \<subseteq> reachable P e \<and> JoinSuccessors an s cs E1 = Some E' \<and> advance e E1 E' \<and>
     (\<not> dead (entry_of E b) \<and> Exprs (blk P b) \<noteq> [] \<and> (\<forall>x e. snd (PropagateTerminatorEffect an x e) = None) \<longrightarrow>
        (\<forall>c \<in> set (GetReachableSuccessors P b). \<not> dead (entry_of E' c))))"

lemma ProcessBlock_inv:
  assumes i: "inv e E" and wl: "worklist E = b # rest" and noticed: "noticed E b"
    and Q: "\<forall>c \<in> reachable P e. Q c (entry_of E c)"
    and Q_join: "\<And>x y c m s quit m'. ok x \<Longrightarrow> \<not> dead x \<Longrightarrow> Q b x \<Longrightarrow> Exprs (blk P b) \<noteq> [] \<Longrightarrow>
      CheckInQueueTimes an m b (flow b x) = (s, quit, m') \<Longrightarrow>
      c \<in> set (TargetSuccessors P b (if quit then None else target b x)) \<Longrightarrow> ok y \<Longrightarrow> Q c y \<Longrightarrow> Q c (fst (Join an y s))"
  shows "\<exists>E'. ProcessBlock P an E = Some E' \<and> inv e E' \<and> (\<forall>c \<in> reachable P e. Q c (entry_of E' c)) \<and> round e b rest E E'"
proof -
  let ?x = "entry_of E b"
  have b: "base e E" "b \<in> reachable P e" using i wl by (auto simp: inv_def base_def)
  then have x: "entryStates E b = Some ?x" "ok ?x" and u: "\<not> UNREACHABLE (blk P b)"
    by (auto simp: base_def entry_of_def reachable_not_UNREACHABLE)
  show ?thesis
  proof (cases "dead ?x \<or> Exprs (blk P b) = []")
    case True
    let ?E1 = "E\<lparr>worklist := rest, worklistSet := worklistSet E - {b}\<rparr>"
    have same: "entry_of ?E1 = entry_of E" by (simp add: entry_of_def fun_eq_iff)
    have base: "base e ?E1" by (rule base_pop[OF b(1) wl noticed]) simp_all
    have "inv e ?E1"
      by (rule inv_advance[OF i wl base _ _ advance_refl base]) (use True in \<open>auto simp: stable_def same\<close>)
    moreover have "round e b rest E ?E1"
      unfolding round_def by (rule exI[of _ ?E1], rule exI, rule exI[of _ "[]"]) (use base True in \<open>auto simp: advance_refl\<close>)
    ultimately show ?thesis using ProcessBlock_skip[OF wl x(1) u True] Q same by metis
  next
    case False
    then have live: "\<not> dead ?x" and ex: "Exprs (blk P b) \<noteq> []" by simp_all
    obtain s quit m where q: "CheckInQueueTimes an (members E) b (flow b ?x) = (s, quit, m)" by (metis prod_cases3)
    from quit_above[OF _ _ q] flow_ok[OF x(2) live] have s: "ok s" "\<not> dead s" "le (flow b ?x) s" by simp_all
    let ?cs = "TargetSuccessors P b (if quit then None else target b ?x)"
    have cs: "set ?cs \<subseteq> reachable P e" "set (TargetSuccessors P b (target b ?x)) \<subseteq> set ?cs"
      using targets_reachable[OF b(2) x(2) live ex] target_in[OF x(2) live ex] reachable_step[OF b(2)]
      by (auto simp: edges_def TargetSuccessors_def)
    obtain E1 where E1: "ProcessBlock P an E = JoinSuccessors an s ?cs E1" "worklist E1 = rest"
        "worklistSet E1 = worklistSet E - {b}" "entryStates E1 = entryStates E"
      by (rule ProcessBlock_flow[OF wl x(1) u live ex q])
    have same: "entry_of E1 = entry_of E" by (simp add: entry_of_def E1(4) fun_eq_iff)
    have base: "base e E1" by (rule base_pop[OF b(1) wl noticed E1(2-4)])
    have Q1: "\<forall>c \<in> reachable P e. Q c (entry_of E1 c)" and Qb: "Q b ?x" using Q b(2) by (simp_all add: same)
    obtain E' where E': "JoinSuccessors an s ?cs E1 = Some E'" "base e E'" "advance e E1 E'"
        "\<forall>c \<in> set ?cs. le s (entry_of E' c) \<and> \<not> dead (entry_of E' c)" "\<forall>c \<in> reachable P e. Q c (entry_of E' c)"
      using JoinSuccessors_advance[where Q = Q, OF base cs(1) s(1,2) _ Q1] Q_join[OF x(2) live Qb ex q] by blast
    have "b \<in> set (worklist E') \<or> stable_in E' b"
    proof (cases "b \<in> set (worklist E')")
      case new: False
      let ?y = "entry_of E' b"
      from E'(3) b(2) new have "?y = ?x \<or> eqv ?x ?y" by (auto simp: advance_def same)
      then have "target b ?y = target b ?x" "le (flow b ?y) (flow b ?x)"
        using target_eqv flow_eqv[of ?x ?y] le_refl by (auto simp: eqv_def)
      moreover have "le (flow b ?x) (entry_of E' c)" if "c \<in> set (TargetSuccessors P b (target b ?x))" for c
        using that E'(4) cs(2) s(3) by (blast intro: le_trans)
      ultimately show ?thesis by (auto simp: stable_def intro: le_trans)
    qed simp
    with inv_advance[OF i wl base E1(2,4) E'(3,2)] have "inv e E'" by blast
    moreover have "(\<forall>x e. snd (PropagateTerminatorEffect an x e) = None) \<longrightarrow>
        (\<forall>c \<in> set (GetReachableSuccessors P b). \<not> dead (entry_of E' c))"
      using E'(4) by (auto simp: TargetSuccessors_def BlockFlow_def Let_def)
    then have "round e b rest E E'"
      unfolding round_def by (intro exI[of _ E1] exI[of _ s] exI[of _ ?cs]) (use base E1 E' s cs(1) in auto)
    ultimately show ?thesis using E1(1) E' by metis
  qed
qed

text \<open>A round does not lose an entry of the worklist but its head, and keeps the live blocks
  alive.\<close>

lemma round_moves:
  assumes "round e b rest E E'"
  shows "\<exists>extra. worklist E' = rest @ extra"
    and "c \<in> reachable P e \<Longrightarrow> \<not> dead (entry_of E c) \<Longrightarrow> \<not> dead (entry_of E' c)"
    and "c \<in> reachable P e \<Longrightarrow> le (entry_of E c) (entry_of E' c)"
proof -
  from assms obtain E1 where E1: "worklist E1 = rest" "entryStates E1 = entryStates E" "advance e E1 E'"
    unfolding round_def by blast
  have same: "entry_of E1 = entry_of E" by (simp add: entry_of_def E1(2) fun_eq_iff)
  note a = E1(3)[unfolded advance_def E1(1) same]
  show "\<exists>extra. worklist E' = rest @ extra" using a by (rule conjunct1)
  show "c \<in> reachable P e \<Longrightarrow> \<not> dead (entry_of E c) \<Longrightarrow> \<not> dead (entry_of E' c)" using a by blast
  show "c \<in> reachable P e \<Longrightarrow> le (entry_of E c) (entry_of E' c)" using a by blast
qed

subsection \<open>The lambdas\<close>

text \<open>The worklist of lambdas has no repetition and every lambda in it has a live environment.\<close>

definition lam_ok :: "('d, 'm) Engine \<Rightarrow> bool" where
  "lam_ok E \<longleftrightarrow> distinct (lambdaWorklist E) \<and> lambdaWorklistSet E = set (lambdaWorklist E) \<and>
     set (lambdaWorklist E) \<subseteq> lambdas P \<and>
     (\<forall>l \<in> set (lambdaWorklist E). \<exists>x. lambdaEnvState E l = Some x \<and> ok x \<and> \<not> dead x)"

definition lam_grow :: "('d, 'm) Engine \<Rightarrow> ('d, 'm) Engine \<Rightarrow> bool" where
  "lam_grow E E' \<longleftrightarrow> length (lambdaWorklist E) \<le> length (lambdaWorklist E')"

lemma lam_ok_fields:
  "lambdaWorklist E' = lambdaWorklist E \<Longrightarrow> lambdaWorklistSet E' = lambdaWorklistSet E \<Longrightarrow>
   lambdaEnvState E' = lambdaEnvState E \<Longrightarrow> lam_ok E' = lam_ok E"
  by (simp add: lam_ok_def)

lemma lambdas_finite: "finite (lambdas P)"
proof -
  have "l \<in> (\<Union>B \<in> set (BlockTable P). the_lambda ` set (Exprs B))" if "l \<in> lambdas P" for l
  proof -
    from that obtain b where b: "LambdaExpr l \<in> set (Exprs (blk P b))" by (auto simp: lambdas_def)
    then have "b < length (BlockTable P)" "blk P b = BlockTable P ! b" by (auto simp: blk_def split: if_splits)
    then have "blk P b \<in> set (BlockTable P)" by simp
    moreover have "l \<in> the_lambda ` set (Exprs (blk P b))" using b by (rule rev_image_eqI) simp
    ultimately show ?thesis by (rule UN_I)
  qed
  then have "lambdas P \<subseteq> (\<Union>B \<in> set (BlockTable P). the_lambda ` set (Exprs B))" by blast
  then show ?thesis by (rule finite_subset) simp
qed

lemma VisitExpr_lambdas:
  assumes "lam_ok E" "ok s" "\<not> dead s" "e \<in> set (Exprs (blk P b))" "VisitExpr P an e (s, E) = (s', E')"
  shows "lam_ok E' \<and> lam_grow E E' \<and> ok s' \<and> \<not> dead s'"
proof -
  have s': "s' = SimulatingProcessingSingleExpression P an s e"
    using assms(5) VisitExpr_state[of P an e s E] by simp
  then have live: "ok s'" "\<not> dead s'" using transfer_single[of e] assms(2,3) by (auto simp: transfer_def)
  show ?thesis
  proof (cases "\<exists>l. e = LambdaExpr l")
    case True
    then obtain l where l: "e = LambdaExpr l" by blast
    then have "l \<in> lambdas P" using assms(4) by (auto simp: lambdas_def)
    then show ?thesis using assms(1,5) live
      by (auto simp: l VisitExpr_def Let_def lam_ok_def lam_grow_def split: if_splits)
  next
    case False
    then have "E' = E" using assms(5) by (cases e) (auto simp: VisitExpr_def)
    then show ?thesis using assms(1) live by (simp add: lam_grow_def)
  qed
qed

lemma VisitExprs_lambdas:
  "lam_ok E \<Longrightarrow> ok s \<Longrightarrow> \<not> dead s \<Longrightarrow> set es \<subseteq> set (Exprs (blk P b)) \<Longrightarrow> fold (VisitExpr P an) es (s, E) = (s', E') \<Longrightarrow>
   lam_ok E' \<and> lam_grow E E'"
proof (induction es arbitrary: s E)
  case (Cons e es)
  obtain s1 E1 where v: "VisitExpr P an e (s, E) = (s1, E1)" by fastforce
  from VisitExpr_lambdas[OF Cons.prems(1-3) _ v] Cons.prems(4)
  have 1: "lam_ok E1" "lam_grow E E1" "ok s1" "\<not> dead s1" by auto
  from Cons.IH[OF 1(1,3,4)] Cons.prems(4,5) v have "lam_ok E' \<and> lam_grow E1 E'" by simp
  with 1(2) show ?case by (auto simp: lam_grow_def)
qed (simp add: lam_grow_def)

lemma JoinSuccessors_lambdas:
  "JoinSuccessors an s cs E = Some E' \<Longrightarrow> lambdaWorklist E' = lambdaWorklist E \<and>
   lambdaWorklistSet E' = lambdaWorklistSet E \<and> lambdaEnvState E' = lambdaEnvState E"
  by (induction cs arbitrary: E) (auto simp: JoinSuccessor_def Let_def split: bind_splits prod.splits if_splits)

lemma ProcessBlock_lambdas:
  assumes b: "base e E" and wl: "worklist E \<noteq> []" and l: "lam_ok E" and p: "ProcessBlock P an E = Some E'"
  shows "lam_ok E' \<and> lam_grow E E'"
proof -
  let ?b = "hd (worklist E)" and ?E1 = "E\<lparr>worklist := tl (worklist E), worklistSet := worklistSet E - {hd (worklist E)}\<rparr>"
  have r: "?b \<in> reachable P e" using b wl by (auto simp: base_def)
  then obtain x where x: "entryStates E ?b = Some x" "ok x" and u: "\<not> UNREACHABLE (blk P ?b)"
    using b by (auto simp: base_def entry_of_def reachable_not_UNREACHABLE)
  have l1: "lam_ok ?E1" "lam_grow E ?E1" using l lam_ok_fields[of ?E1 E] by (simp_all add: lam_grow_def)
  show ?thesis
  proof (cases "dead x \<or> Exprs (blk P ?b) = []")
    case True
    then have "E' = ?E1" using ProcessBlock_skip[of E ?b "tl (worklist E)" x P an] wl p x(1) u by simp
    with l1 show ?thesis by simp
  next
    case False
    obtain s1 E2 where v: "fold (VisitExpr P an) (butlast (Exprs (blk P ?b))) (x, ?E1) = (s1, E2)" by fastforce
    have l2: "lam_ok E2 \<and> lam_grow ?E1 E2"
      by (rule VisitExprs_lambdas[OF l1(1) x(2) _ _ v, of ?b]) (use False in \<open>auto dest: in_set_butlastD\<close>)
    from p False x(1) u v obtain s3 cs m where "JoinSuccessors an s3 cs (E2\<lparr>members := m\<rparr>) = Some E'"
      by (auto simp: ProcessBlock_def Let_def split: prod.splits)
    with JoinSuccessors_lambdas have "lambdaWorklist E' = lambdaWorklist E2 \<and>
      lambdaWorklistSet E' = lambdaWorklistSet E2 \<and> lambdaEnvState E' = lambdaEnvState E2" by fastforce
    with l1(2) l2 lam_ok_fields[of E' E2] show ?thesis by (auto simp: lam_grow_def)
  qed
qed

end

subsection \<open>Analyses with a bounded height\<close>

text \<open>A number that every reported change of a join brings down: the sum over the blocks, twice,
  plus the length of the worklist falls with every round.\<close>

locale bounded_dataflow = dataflow P an ok le
  for P :: "('x, 'r) Program_scheme" and an :: "('x, 'd, 'm) Analysis" and ok le +
  fixes height :: "'d \<Rightarrow> nat"
  assumes height_reported: "ok x \<Longrightarrow> ok y \<Longrightarrow> \<not> dead y \<Longrightarrow> snd (Join an x y) \<Longrightarrow> height (fst (Join an x y)) < height x"
    and height_unreported: "ok x \<Longrightarrow> ok y \<Longrightarrow> \<not> dead y \<Longrightarrow> height (fst (Join an x y)) \<le> height x"
begin

definition work :: "nat \<Rightarrow> ('d, 'm) Engine \<Rightarrow> nat" where
  "work e E = 2 * (\<Sum>c \<in> reachable P e. height (entry_of E c)) + length (worklist E)"

lemma finite_reachable: "finite (reachable P e)"
  using TopologicalSort_set[of P e] by (metis List.finite_set)

lemma JoinSuccessor_work:
  assumes b: "base e E" and c: "c \<in> reachable P e" and s: "ok s" "\<not> dead s" and j: "JoinSuccessor an s c E = Some E'"
  shows "work e E' \<le> work e E"
proof -
  let ?H = "\<lambda>E. \<Sum>c \<in> reachable P e - {c}. height (entry_of E c)"
  from JoinSuccessor_advance[OF b c s] j have old: "\<forall>d. d \<noteq> c \<longrightarrow> entry_of E' d = entry_of E d"
    and new: "entry_of E' c = fst (Join an (entry_of E c) s)"
    and len: "length (worklist E') \<le> length (worklist E) + (if snd (Join an (entry_of E c) s) then 1 else 0)" by auto
  have ok: "ok (entry_of E c)" using b c by (simp add: base_def)
  have "?H E' = ?H E" using old by (intro sum.cong) auto
  moreover have split: "(\<Sum>c \<in> reachable P e. height (entry_of F c)) = height (entry_of F c) + ?H F" for F
    by (rule sum.remove[OF finite_reachable c])
  ultimately show ?thesis
    using len height_reported[OF ok s] height_unreported[OF ok s]
    unfolding work_def split[of E] split[of E'] new by (auto split: if_splits)
qed

lemma JoinSuccessors_work:
  "base e E \<Longrightarrow> set cs \<subseteq> reachable P e \<Longrightarrow> cs = [] \<or> ok s \<and> \<not> dead s \<Longrightarrow> JoinSuccessors an s cs E = Some E' \<Longrightarrow> work e E' \<le> work e E"
proof (induction cs arbitrary: E)
  case (Cons c cs)
  then have c: "c \<in> reachable P e" and s: "ok s" "\<not> dead s" by auto
  from JoinSuccessor_advance[OF Cons.prems(1) c s] obtain E1 where
    E1: "JoinSuccessor an s c E = Some E1" "base e E1" by blast
  with Cons.prems s have "work e E' \<le> work e E1" by (intro Cons.IH) auto
  with JoinSuccessor_work[OF Cons.prems(1) c s E1(1)] show ?case by linarith
qed simp

lemma round_work: "worklist E = b # rest \<Longrightarrow> round e b rest E E' \<Longrightarrow> work e E' < work e E"
proof -
  assume wl: "worklist E = b # rest" and "round e b rest E E'"
  then obtain E1 s cs where E1: "base e E1" "worklist E1 = rest" "entryStates E1 = entryStates E"
    and r: "cs = [] \<or> ok s \<and> \<not> dead s" "set cs \<subseteq> reachable P e" "JoinSuccessors an s cs E1 = Some E'"
    unfolding round_def by blast
  have "work e E1 < work e E" using E1 wl by (simp add: work_def entry_of_def)
  with JoinSuccessors_work[OF E1(1) r(2,1,3)] show ?thesis by linarith
qed

end

end
