(* ===== verification/EngineTotal.thy ===== *)
theory EngineTotal
  imports EngineInv
begin

section \<open>Analyses that decide no branch\<close>

text \<open>
  The gen/kill analyses and the reaching definitions leave every branch open. Their join does not
  report that a block became reachable, so a block that was taken from the worklist too early
  would never be looked at again. It never is: in the first round the blocks come in the
  topological order, hence after one of their predecessors.
\<close>

text \<open>A group of blocks is closed when every block that can be reached in
  it belongs to it and has a terminator if it has successors.\<close>

definition closed_group :: "('x, 'r) Program_scheme \<Rightarrow> BlockGroup \<Rightarrow> bool" where
  "closed_group P g \<longleftrightarrow> EntryBlock g \<in> set (GroupBlocks g) \<and> reachable P (EntryBlock g) \<subseteq> set (GroupBlocks g) \<and>
     (\<forall>c \<in> reachable P (EntryBlock g). GetReachableSuccessors P c \<noteq> [] \<longrightarrow> Exprs (blk P c) \<noteq> [])"

definition closed_program :: "('x, 'r) Program_scheme \<Rightarrow> BlockGroup \<Rightarrow> bool" where
  "closed_program P g \<longleftrightarrow> Body P = Some g \<and> closed_group P g \<and> (\<forall>l \<in> lambdas P. closed_group P (LambdaBody P l))"

locale undirected = bounded_dataflow P an ok le height
  for P :: "('x, 'r) Program_scheme" and an :: "('x, 'd, 'm) Analysis" and ok le height +
  assumes undecided: "snd (PropagateTerminatorEffect an x t) = None"
    and never_quits: "CheckInQueueTimes an m b s = (s, False, m)"
    and bottom_ok: "ok (Bottom an)"
    and init_func: "ok (InitializeFuncEntryState an (Bottom an)) \<and> \<not> IsBottom an (InitializeFuncEntryState an (Bottom an))"
    and init_lambda: "ok x \<Longrightarrow> \<not> IsBottom an x \<Longrightarrow>
      ok (InitializeLambdaEntryState an x) \<and> \<not> IsBottom an (InitializeLambdaEntryState an x)"
begin

text \<open>The worklist is what is left of the topological order, then blocks that were queued again.
  Only blocks that are still to come in the order may be dead, and no successor of one that has
  come is.\<close>

definition ordered :: "nat \<Rightarrow> ('d, 'm) Engine \<Rightarrow> bool" where
  "ordered e E \<longleftrightarrow> (\<exists>visited todo extra. TopologicalSort P e = visited @ todo \<and> worklist E = todo @ extra \<and>
     (\<forall>c \<in> reachable P e. c \<in> set todo \<or> \<not> dead (entry_of E c)) \<and>
     (\<forall>c \<in> set visited. \<forall>s \<in> set (GetReachableSuccessors P c). \<not> dead (entry_of E s)) \<and>
     (reachable P e = {} \<or> \<not> dead (entry_of E e)))"

lemma ordered_head:
  assumes o: "ordered e E" and wl: "worklist E = b # rest" and b: "b \<in> reachable P e"
  shows "\<not> dead (entry_of E b)"
proof -
  from o obtain visited todo extra where t: "TopologicalSort P e = visited @ todo" "worklist E = todo @ extra"
    and live: "\<forall>c \<in> reachable P e. c \<in> set todo \<or> \<not> dead (entry_of E c)"
    and next_live: "\<forall>c \<in> set visited. \<forall>s \<in> set (GetReachableSuccessors P c). \<not> dead (entry_of E s)"
    and entry: "reachable P e = {} \<or> \<not> dead (entry_of E e)"
    unfolding ordered_def by blast
  show ?thesis
  proof (cases todo)
    case (Cons c todo')
    with wl t have split: "TopologicalSort P e = visited @ b # todo'" by simp
    show ?thesis
    proof (cases "b = e")
      case False
      from TopologicalSort_split(1)[OF split this] next_live show ?thesis by (auto simp: edges_def)
    qed (use entry b in auto)
  qed (use live b in auto)
qed

lemma ordered_round:
  assumes o: "ordered e E" and wl: "worklist E = b # rest" and b: "b \<in> reachable P e" and r: "round e b rest E E'"
    and ended: "GetReachableSuccessors P b \<noteq> [] \<longrightarrow> Exprs (blk P b) \<noteq> []"
  shows "ordered e E'"
proof -
  from o obtain visited todo extra where t: "TopologicalSort P e = visited @ todo" "worklist E = todo @ extra"
    and live: "\<forall>c \<in> reachable P e. c \<in> set todo \<or> \<not> dead (entry_of E c)"
    and next_live: "\<forall>c \<in> set visited. \<forall>s \<in> set (GetReachableSuccessors P c). \<not> dead (entry_of E s)"
    and entry: "reachable P e = {} \<or> \<not> dead (entry_of E e)"
    unfolding ordered_def by blast
  have head: "\<not> dead (entry_of E b)" by (rule ordered_head[OF o wl b])
  obtain more where more: "worklist E' = rest @ more" using round_moves(1)[OF r] by blast
  have keep: "\<And>c. c \<in> reachable P e \<Longrightarrow> \<not> dead (entry_of E c) \<Longrightarrow> \<not> dead (entry_of E' c)" by (rule round_moves(2)[OF r])
  have succs: "\<forall>c \<in> set (GetReachableSuccessors P b). \<not> dead (entry_of E' c)"
    using r head ended undecided unfolding round_def by (cases "GetReachableSuccessors P b = []") auto
  have succ_reach: "s \<in> reachable P e" if "c \<in> set visited" "s \<in> set (GetReachableSuccessors P c)" for c s
  proof -
    have "c \<in> reachable P e" using that(1) TopologicalSort_set[of P e] t(1) by auto
    with that(2) show ?thesis by (auto intro: reachable_step simp: edges_def)
  qed
  have entry': "reachable P e = {} \<or> \<not> dead (entry_of E' e)"
    using entry keep[of e] b by (auto simp: reachable_def split: if_splits)
  have old: "\<forall>c \<in> set visited. \<forall>s \<in> set (GetReachableSuccessors P c). \<not> dead (entry_of E' s)"
    using next_live keep succ_reach by blast
  show ?thesis
  proof (cases todo)
    case Nil
    show ?thesis unfolding ordered_def
      by (rule exI[of _ visited], rule exI[of _ "[]"], rule exI[of _ "worklist E'"])
        (use t Nil live keep old entry' in auto)
  next
    case (Cons c todo')
    with wl t have c: "c = b" "rest = todo' @ extra" by auto
    have "\<forall>c \<in> reachable P e. c \<in> set todo' \<or> \<not> dead (entry_of E' c)"
      using live keep head Cons c(1) by (metis set_ConsD)
    then show ?thesis unfolding ordered_def
      by (intro exI[of _ "visited @ [b]"] exI[of _ todo'] exI[of _ "extra @ more"])
        (use t Cons c more old succs entry' in auto)
  qed
qed

text \<open>The iteration ends; then nothing is queued, every block is live and has an entry state that
  is above the exit states of its predecessors and above the one it started with. A property of
  the entry states that the joins keep holds at the end.\<close>

theorem fixpoint:
  assumes start: "\<And>c. c \<in> reachable P e \<Longrightarrow> \<exists>x. entryStates E c = Some x \<and> ok x"
    and entry: "reachable P e \<noteq> {} \<Longrightarrow> \<not> dead (entry_of E e)"
    and ended: "\<And>c. c \<in> reachable P e \<Longrightarrow> GetReachableSuccessors P c \<noteq> [] \<Longrightarrow> Exprs (blk P c) \<noteq> []"
    and Q: "\<And>c. c \<in> reachable P e \<Longrightarrow> Q c (entry_of E c)"
    and Q_join: "\<And>b c x y. b \<in> reachable P e \<Longrightarrow> ok x \<Longrightarrow> \<not> dead x \<Longrightarrow> Q b x \<Longrightarrow> (b, c) \<in> edges P \<Longrightarrow>
      Exprs (blk P b) \<noteq> [] \<Longrightarrow> ok y \<Longrightarrow> Q c y \<Longrightarrow> Q c (fst (Join an y (flow b x)))"
    and lams: "lam_ok E"
  shows "\<exists>E'. IterateSingleUnitToFixpoint P an e E = Some E' \<and> worklist E' = [] \<and> worklistSet E' = {} \<and>
    lam_ok E' \<and> lam_grow E E' \<and>
    (\<forall>c \<in> reachable P e. (\<exists>x. entryStates E' c = Some x) \<and> ok (entry_of E' c) \<and> \<not> dead (entry_of E' c) \<and>
       Q c (entry_of E' c) \<and> le (entry_of E c) (entry_of E' c) \<and>
       (\<forall>s. (c, s) \<in> edges P \<longrightarrow> le (flow c (entry_of E' c)) (entry_of E' s)))"
proof -
  let ?R = "reachable P e"
  let ?E0 = "E\<lparr>worklist := TopologicalSort P e, worklistSet := set (TopologicalSort P e)\<rparr>"
  let ?I = "\<lambda>F. inv e F \<and> ordered e F \<and> (\<forall>c \<in> ?R. Q c (entry_of F c)) \<and> (\<forall>c \<in> ?R. le (entry_of E c) (entry_of F c)) \<and>
    lam_ok F \<and> lam_grow E F"
  have same: "entry_of (E\<lparr>worklist := w, worklistSet := v\<rparr>) = entry_of E" for w v by (simp add: entry_of_def fun_eq_iff)
  have "ordered e ?E0" unfolding ordered_def
    by (rule exI[of _ "[]"], rule exI[of _ "TopologicalSort P e"], rule exI[of _ "[]"])
      (use entry in \<open>auto simp: TopologicalSort_set same\<close>)
  moreover have "inv e ?E0"
    using start by (fastforce simp: inv_def base_def TopologicalSort_set TopologicalSort_distinct entry_of_def)
  moreover have "lam_ok ?E0 \<and> lam_grow E ?E0" using lams lam_ok_fields[of ?E0 E] by (simp add: lam_grow_def)
  ultimately have I0: "?I ?E0" using Q by (simp add: same le_refl)
  have step: "\<exists>F'. ProcessBlock P an F = Some F' \<and> ?I F' \<and> work e F' < work e F" if I: "?I F" and ne: "worklist F \<noteq> []" for F
  proof -
    from ne obtain b rest where wl: "worklist F = b # rest" by (cases "worklist F") auto
    have b: "b \<in> ?R" using I wl by (auto simp: inv_def base_def)
    have QF: "\<forall>c \<in> ?R. Q c (entry_of F c)" and iF: "inv e F" and oF: "ordered e F" using I by simp_all
    from ordered_head[OF oF wl b] have noticed: "noticed F b" by (simp add: noticed_def)
    have Qj: "Q c (fst (Join an y s))"
      if "ok x" "\<not> dead x" "Q b x" "Exprs (blk P b) \<noteq> []" "CheckInQueueTimes an m b (flow b x) = (s, quit, m')"
        "c \<in> set (TargetSuccessors P b (if quit then None else target b x))" "ok y" "Q c y" for x y c m s quit m'
    proof -
      have "s = flow b x" using that(5) never_quits by simp
      moreover have "(b, c) \<in> edges P"
        using that(6) undecided by (auto simp: edges_def TargetSuccessors_def BlockFlow_def Let_def split: if_splits)
      ultimately show ?thesis using Q_join[OF b that(1-3)] that(4,7,8) by simp
    qed
    have "\<exists>F'. ProcessBlock P an F = Some F' \<and> inv e F' \<and> (\<forall>c \<in> ?R. Q c (entry_of F' c)) \<and> round e b rest F F'"
      by (rule ProcessBlock_inv[where Q = Q, OF iF wl noticed QF]) (rule Qj)
    then obtain F' where F': "ProcessBlock P an F = Some F'" "inv e F'" "\<forall>c \<in> ?R. Q c (entry_of F' c)" "round e b rest F F'"
      by blast
    have "ordered e F'" using ordered_round[OF oF wl b F'(4)] ended[OF b] by blast
    moreover have "\<forall>c \<in> ?R. le (entry_of E c) (entry_of F' c)"
      using I round_moves(3)[OF F'(4)] by (blast intro: le_trans)
    moreover have "lam_ok F' \<and> lam_grow E F'"
      using I ProcessBlock_lambdas[OF _ ne _ F'(1), of e] by (auto simp: inv_def lam_grow_def)
    ultimately show ?thesis using F' round_work[OF wl F'(4)] by blast
  qed
  obtain E' where E': "IterateWorklist P an ?E0 = Some E'" "?I E'" "worklist E' = []"
    using IterateWorklist_total[where I = ?I and M = "work e", OF step I0] by blast
  from E'(2,3) have live: "\<forall>c \<in> ?R. \<not> dead (entry_of E' c)" by (auto simp: ordered_def)
  have "le (flow c (entry_of E' c)) (entry_of E' s)" if c: "c \<in> ?R" and s: "(c, s) \<in> edges P" for c s
  proof -
    have "stable_in E' c" using E'(2,3) c by (simp add: inv_def)
    moreover have "s \<in> set (GetReachableSuccessors P c)" using s by (simp add: edges_def)
    moreover from this have "Exprs (blk P c) \<noteq> []" using ended[OF c] by force
    moreover have "TargetSuccessors P c (target c x) = GetReachableSuccessors P c" for x
      using undecided by (simp add: TargetSuccessors_def BlockFlow_def Let_def)
    ultimately show ?thesis using live c by (auto simp: stable_def)
  qed
  moreover have "base e E'" using E'(2) by (simp add: inv_def)
  ultimately show ?thesis
    using E' live by (intro exI[of _ E']) (auto simp: IterateSingleUnitToFixpoint_def base_def)
qed

subsection \<open>The whole analysis returns\<close>

lemma unit_returns:
  assumes g: "closed_group P g" and E: "\<And>c. entryStates E c = (if c = EntryBlock g then Some x
      else if c \<in> set (GroupBlocks g) then Some (Bottom an) else None)"
    and x: "ok x" "\<not> dead x" and lams: "lam_ok E"
  shows "\<exists>E'. IterateSingleUnitToFixpoint P an (EntryBlock g) E = Some E' \<and> lam_ok E' \<and> lam_grow E E'"
proof -
  have "\<exists>x. entryStates E c = Some x \<and> ok x" if "c \<in> reachable P (EntryBlock g)" for c
    using that g x(1) bottom_ok by (auto simp: E closed_group_def)
  moreover have "\<not> dead (entry_of E (EntryBlock g))" using x(2) by (simp add: entry_of_def E)
  moreover have "Exprs (blk P c) \<noteq> []" if "c \<in> reachable P (EntryBlock g)" "GetReachableSuccessors P c \<noteq> []" for c
    using that g by (auto simp: closed_group_def)
  ultimately have "\<exists>E'. IterateSingleUnitToFixpoint P an (EntryBlock g) E = Some E' \<and> worklist E' = [] \<and> worklistSet E' = {} \<and>
    lam_ok E' \<and> lam_grow E E' \<and> (\<forall>c \<in> reachable P (EntryBlock g). (\<exists>x. entryStates E' c = Some x) \<and> ok (entry_of E' c) \<and>
       \<not> dead (entry_of E' c) \<and> True \<and> le (entry_of E c) (entry_of E' c) \<and>
       (\<forall>s. (c, s) \<in> edges P \<longrightarrow> le (flow c (entry_of E' c)) (entry_of E' s)))"
    by (intro fixpoint[where Q = "\<lambda>_ _. True"]) (use lams in auto)
  then show ?thesis by blast
qed

lemma map_of_bottoms: "map_of (map (\<lambda>b. (b, Bottom an)) bs) c = (if c \<in> set bs then Some (Bottom an) else None)"
  by (induction bs) auto

lemma lambdas_return:
  assumes closed: "\<And>l. l \<in> lambdas P \<Longrightarrow> closed_group P (LambdaBody P l)"
  shows "lam_ok E \<Longrightarrow> \<exists>r. IterateLambdas P an idx E results = Some r"
proof (induction "card (lambdas P) - idx" arbitrary: idx E results rule: less_induct)
  case less
  show ?case
  proof (cases "idx < length (lambdaWorklist E)")
    case False
    then show ?thesis by (simp add: IterateLambdas.simps)
  next
    case True
    define l where "l = lambdaWorklist E ! idx"
    have len: "length (lambdaWorklist E) \<le> card (lambdas P)"
      using less.prems by (metis lam_ok_def card_mono distinct_card lambdas_finite)
    have "l \<in> set (lambdaWorklist E)" using True by (simp add: l_def)
    with less.prems obtain x where l: "l \<in> lambdas P" and x: "lambdaEnvState E l = Some x" "ok x" "\<not> dead x"
      unfolding lam_ok_def by blast
    let ?E1 = "E\<lparr>members := UpdateCurrentLambda an l (members E), entryStates := LambdaEntryStates P an l x\<rparr>"
    let ?x = "InitializeLambdaEntryState an (HandleVarStateCapturedByLambda an x l)"
    have "ok (HandleVarStateCapturedByLambda an x l)" "\<not> dead (HandleVarStateCapturedByLambda an x l)"
      using transfer_captured[of l] x by (simp_all add: transfer_def)
    with init_lambda have "ok ?x" "\<not> dead ?x" by auto
    moreover have "lam_ok ?E1" using less.prems lam_ok_fields[of ?E1 E] by simp
    moreover have "entryStates ?E1 c = (if c = EntryBlock (LambdaBody P l) then Some ?x
        else if c \<in> set (GroupBlocks (LambdaBody P l)) then Some (Bottom an) else None)" for c
      by (cases "c = EntryBlock (LambdaBody P l)") (simp_all add: LambdaEntryStates_def map_of_bottoms)
    ultimately obtain E2 where E2: "IterateSingleUnitToFixpoint P an (EntryBlock (LambdaBody P l)) ?E1 = Some E2" "lam_ok E2"
      using unit_returns[OF closed[OF l], of ?E1 ?x] by blast
    have "card (lambdas P) - Suc idx < card (lambdas P) - idx" using True len by linarith
    from less.hyps[OF this E2(2)] obtain r where
      "IterateLambdas P an (Suc idx) E2 (results @ [(l, entryStates E2)]) = Some r" by blast
    then show ?thesis
      using True x(1) E2(1) by (subst IterateLambdas.simps) (simp add: l_def[symmetric])
  qed
qed

lemma start_states:
  assumes "closed_group P g"
  shows "\<exists>f. FuncEntryStates an g = Some f \<and> (\<forall>c. f c = (if c = EntryBlock g then Some (InitializeFuncEntryState an (Bottom an))
      else if c \<in> set (GroupBlocks g) then Some (Bottom an) else None))"
  using assms by (auto simp: FuncEntryStates_def Let_def map_of_bottoms closed_group_def)

abbreviation start_engine :: "(nat \<Rightarrow> 'd option) \<Rightarrow> 'm \<Rightarrow> ('d, 'm) Engine" where
  "start_engine f m \<equiv> \<lparr>worklist = [], worklistSet = {}, entryStates = f, members = m,
     lambdaWorklist = [], lambdaWorklistSet = {}, lambdaEnvState = (\<lambda>_. None)\<rparr>"

theorem returns:
  assumes program: "closed_program P g"
  shows "\<exists>r. IterateToFixpoint P an m = Some r"
    and "\<not> DoesExceedBlockLimit an g \<Longrightarrow> \<not> SkipAnalysis P \<Longrightarrow>
      \<exists>r f E. IterateToFixpoint P an m = Some (Some r) \<and> FuncEntryStates an g = Some f \<and>
        IterateSingleUnitToFixpoint P an (EntryBlock g) (start_engine f m) = Some E \<and> entrySets r = entryStates E"
proof -
  from program have body: "Body P = Some g" and closed: "closed_group P g" "\<And>l. l \<in> lambdas P \<Longrightarrow> closed_group P (LambdaBody P l)"
    by (auto simp: closed_program_def)
  obtain f where f: "FuncEntryStates an g = Some f" "\<forall>c. f c = (if c = EntryBlock g then Some (InitializeFuncEntryState an (Bottom an))
      else if c \<in> set (GroupBlocks g) then Some (Bottom an) else None)"
    using start_states[OF closed(1)] by blast
  have "lam_ok (start_engine f m)" by (simp add: lam_ok_def)
  then obtain E where E: "IterateSingleUnitToFixpoint P an (EntryBlock g) (start_engine f m) = Some E" "lam_ok E"
    using unit_returns[OF closed(1), of "start_engine f m"] f(2) init_func by auto
  obtain E' ls where "IterateLambdas P an 0 E [] = Some (E', ls)"
    using lambdas_return[OF closed(2) E(2)] by fastforce
  then have "\<not> DoesExceedBlockLimit an g \<Longrightarrow> \<not> SkipAnalysis P \<Longrightarrow>
      IterateToFixpoint P an m = Some (Some \<lparr>entrySets = entryStates E, lambdaResults = ls\<rparr>)"
    using body f(1) E(1) by (simp add: IterateToFixpoint_def)
  then show "\<not> DoesExceedBlockLimit an g \<Longrightarrow> \<not> SkipAnalysis P \<Longrightarrow>
      \<exists>r f E. IterateToFixpoint P an m = Some (Some r) \<and> FuncEntryStates an g = Some f \<and>
        IterateSingleUnitToFixpoint P an (EntryBlock g) (start_engine f m) = Some E \<and> entrySets r = entryStates E"
    and "\<exists>r. IterateToFixpoint P an m = Some r"
    using f(1) E(1) body by (auto, (auto simp: IterateToFixpoint_def)[1])
qed

text \<open>The entry states of the result are a fixpoint above the initial state.\<close>

theorem analysis_fixpoint:
  assumes program: "closed_program P g" and run: "\<not> DoesExceedBlockLimit an g" "\<not> SkipAnalysis P"
  shows "\<exists>r. IterateToFixpoint P an m = Some (Some r) \<and>
    (\<forall>c \<in> reachable P (EntryBlock g). \<exists>d. entrySets r c = Some d \<and> ok d \<and> \<not> dead d \<and>
       (c = EntryBlock g \<longrightarrow> le (InitializeFuncEntryState an (Bottom an)) d) \<and>
       (\<forall>s. (c, s) \<in> edges P \<longrightarrow> (\<exists>d'. entrySets r s = Some d' \<and> le (flow c d) d')))"
proof -
  from program have closed: "closed_group P g" by (simp add: closed_program_def)
  obtain r f E where r: "IterateToFixpoint P an m = Some (Some r)" "FuncEntryStates an g = Some f"
      "IterateSingleUnitToFixpoint P an (EntryBlock g) (start_engine f m) = Some E" "entrySets r = entryStates E"
    using returns(2)[OF program run] by blast
  let ?E0 = "start_engine f m" and ?R = "reachable P (EntryBlock g)"
  from start_states[OF closed] r(2) have f: "\<And>c. f c = (if c = EntryBlock g then Some (InitializeFuncEntryState an (Bottom an))
      else if c \<in> set (GroupBlocks g) then Some (Bottom an) else None)" by auto
  have start: "\<exists>x. entryStates ?E0 c = Some x \<and> ok x" if "c \<in> ?R" for c
    using that closed bottom_ok init_func by (auto simp: f closed_group_def)
  have entry: "\<not> dead (entry_of ?E0 (EntryBlock g))" by (simp add: entry_of_def f init_func)
  have ended: "Exprs (blk P c) \<noteq> []" if "c \<in> ?R" "GetReachableSuccessors P c \<noteq> []" for c
    using that closed by (auto simp: closed_group_def)
  have lams: "lam_ok ?E0" by (simp add: lam_ok_def)
  have res: "\<forall>c \<in> ?R. (\<exists>x. entryStates E c = Some x) \<and> ok (entry_of E c) \<and> \<not> dead (entry_of E c) \<and> le (entry_of ?E0 c) (entry_of E c) \<and>
       (\<forall>s. (c, s) \<in> edges P \<longrightarrow> le (flow c (entry_of E c)) (entry_of E s))"
    using fixpoint[where Q = "\<lambda>_ _. True", OF start entry ended TrueI TrueI lams] r(3) by auto
  show ?thesis
  proof (intro exI[of _ r] conjI ballI r(1))
    fix c assume c: "c \<in> ?R"
    with res obtain d where d: "entryStates E c = Some d" by blast
    then have e: "entry_of E c = d" by (simp add: entry_of_def)
    have "\<exists>d'. entrySets r s = Some d' \<and> le (flow c d) d'" if "(c, s) \<in> edges P" for s
    proof -
      from res reachable_step[OF c that] obtain d' where d': "entryStates E s = Some d'" by blast
      moreover from this have "entry_of E s = d'" by (simp add: entry_of_def)
      ultimately show ?thesis using res c that by (auto simp: r(4) e)
    qed
    moreover have "c = EntryBlock g \<longrightarrow> le (InitializeFuncEntryState an (Bottom an)) d"
      using res c e by (auto simp: entry_of_def f)
    ultimately show "\<exists>d. entrySets r c = Some d \<and> ok d \<and> \<not> dead d \<and>
       (c = EntryBlock g \<longrightarrow> le (InitializeFuncEntryState an (Bottom an)) d) \<and>
       (\<forall>s. (c, s) \<in> edges P \<longrightarrow> (\<exists>d'. entrySets r s = Some d' \<and> le (flow c d) d'))"
      using bspec[OF res c] d by (intro exI[of _ d]) (simp add: r(4) e)
  qed
qed

end

subsection \<open>Programs without lambdas\<close>

lemma reachable_bound: "reachable P e \<subseteq> insert e {..<length (BlockTable P)}"
proof -
  have "b = e \<or> b < length (BlockTable P)" if "(e, b) \<in> (edges P)\<^sup>*" for b
    using that GetReachableSuccessors_bound by (cases rule: rtranclE) (auto simp: edges_def)
  then show ?thesis by (auto simp: reachable_def)
qed

fun is_lambda :: "'x Expr \<Rightarrow> bool" where
  "is_lambda (LambdaExpr l) = True"
| "is_lambda e = False"

text \<open>A program without lambdas is closed when its function has all the blocks of the table.\<close>

lemma closed_program_simple:
  assumes "Body P = Some g" "set (GroupBlocks g) = {..<length (BlockTable P)}" "EntryBlock g < length (BlockTable P)"
    "list_all (\<lambda>B. Succs B \<noteq> [] \<longrightarrow> Exprs B \<noteq> []) (BlockTable P)"
    "list_all (\<lambda>B. list_all (\<lambda>e. \<not> is_lambda e) (Exprs B)) (BlockTable P)"
  shows "closed_program P g"
proof -
  have blk: "blk P b \<in> set (BlockTable P) \<or> blk P b = \<lparr>UNREACHABLE = True, Exprs = [], Succs = []\<rparr>" for b
    by (simp add: blk_def)
  have "GetReachableSuccessors P c \<noteq> [] \<longrightarrow> Exprs (blk P c) \<noteq> []" for c
    using blk[of c] assms(4) by (auto simp: GetReachableSuccessors_def list_all_iff filter_empty_conv)
  moreover have "lambdas P = {}"
  proof -
    have "LambdaExpr l \<notin> set (Exprs (blk P b))" for l b
      using blk[of b] assms(5) by (auto simp: list_all_iff dest!: bspec)
    then show ?thesis by (simp add: lambdas_def)
  qed
  moreover have "reachable P (EntryBlock g) \<subseteq> set (GroupBlocks g)"
    using reachable_bound[of P "EntryBlock g"] assms(2,3) by auto
  ultimately show ?thesis using assms by (simp add: closed_program_def closed_group_def)
qed

end
