(* ===== verification/GenKill.thy ===== *)
theory GenKill
  imports GenKillDefs EngineTotal
begin

section \<open>Gen/kill analyses compute the facts that hold on some path\<close>

text \<open>
  The interface of a gen/kill analysis (\<open>genkill\<close>): every expression acts on each bit by itself
  and monotonically, and the join is the union. It is an \<^term>\<open>undirected\<close> analysis of bounded
  height, so the engine returns; and what it returns is exact: a bit is set at a block if and only
  if some path from the entry to the block sets it.
\<close>

subsection \<open>The bits of a block along a path\<close>

definition block_effect :: "('x, 'r) Program_scheme \<Rightarrow> ('x Expr \<Rightarrow> nat \<Rightarrow> bool \<Rightarrow> bool) \<Rightarrow> nat \<Rightarrow> nat \<Rightarrow> bool \<Rightarrow> bool" where
  "block_effect P effect i b = fold (\<lambda>e. effect e i) (butlast (Exprs (blk P b)))"

inductive bit_path ::
  "('x, 'r) Program_scheme \<Rightarrow> ('x Expr \<Rightarrow> nat \<Rightarrow> bool \<Rightarrow> bool) \<Rightarrow> nat \<Rightarrow> nat \<Rightarrow> bool \<Rightarrow> nat \<Rightarrow> bool \<Rightarrow> bool"
  for P effect i e v0 where
  start: "bit_path P effect i e v0 e v0"
| step: "bit_path P effect i e v0 b v \<Longrightarrow> (b, c) \<in> edges P \<Longrightarrow> bit_path P effect i e v0 c (block_effect P effect i b v)"

lemma bit_path_exists: "c \<in> reachable P e \<Longrightarrow> \<exists>v. bit_path P effect i e v0 c v"
proof -
  assume "c \<in> reachable P e"
  then have "(e, c) \<in> (edges P)\<^sup>*" by (auto simp: reachable_def split: if_splits)
  then show ?thesis by (induction rule: rtrancl_induct) (blast intro: bit_path.intros)+
qed

lemma bit_path_reachable: "bit_path P effect i e v0 c v \<Longrightarrow> e \<in> reachable P e \<Longrightarrow> c \<in> reachable P e"
  by (induction rule: bit_path.induct) (auto intro: reachable_step)

subsection \<open>The join of bits\<close>

lemma GK_Join_states:
  "states (fst (GK_Join MAYBE d rhs)) = map (\<lambda>i. states d ! i \<or> states rhs ! i) [0..<length (states d)]"
  "kind (fst (GK_Join k d rhs)) = Kind_REACHABLE"
  by (simp_all add: GK_Join_def Let_def)

lemma GK_Join_changed:
  "snd (GK_Join MAYBE d rhs) \<longleftrightarrow> (\<exists>i < length (states d). \<not> states d ! i \<and> states rhs ! i)"
  by (auto simp: GK_Join_def Let_def list_ex_iff)

lemma count_le:
  assumes "\<And>i. i < n \<Longrightarrow> p i \<Longrightarrow> q i"
  shows "length (filter p [0..<n]) \<le> length (filter q [0..<n :: nat])"
  using assms by (induction n) auto

lemma count_less:
  assumes "\<And>i. i < n \<Longrightarrow> p i \<Longrightarrow> q i" "j < n" "q j" "\<not> p j"
  shows "length (filter p [0..<n]) < length (filter q [0..<n :: nat])"
  using assms
proof (induction n)
  case (Suc n)
  have le: "length (filter p [0..<n]) \<le> length (filter q [0..<n])" using Suc.prems(1) by (intro count_le) simp
  show ?case
  proof (cases "j = n")
    case True
    with Suc.prems le show ?thesis by simp
  next
    case False
    with Suc have "length (filter p [0..<n]) < length (filter q [0..<n])" by simp
    with Suc.prems(1)[of n] show ?thesis by auto
  qed
qed simp

subsection \<open>The interface\<close>

locale genkill =
  fixes P :: "('x, 'p) Program_scheme"
    and an :: "('x, 'r GenKillDomain_scheme, 'm) Analysis"
    and n :: nat
    and shape :: "'r GenKillDomain_scheme \<Rightarrow> bool"
    and effect :: "'x Expr \<Rightarrow> nat \<Rightarrow> bool \<Rightarrow> bool"
  assumes is_bottom: "IsBottom an = GK_IsBottom"
    and join_states: "states (fst (Join an d d')) = states (fst (GK_Join MAYBE d d'))"
    and join_kind: "kind (fst (Join an d d')) = Kind_REACHABLE"
    and join_changed: "snd (Join an d d') = snd (GK_Join MAYBE d d')"
    and join_shape: "shape d \<Longrightarrow> shape d' \<Longrightarrow> shape (fst (Join an d d'))"
    and expr_states: "length (states d) = n \<Longrightarrow>
      states (PropagateExpressionEffect an d e) = map (\<lambda>i. effect e i (states d ! i)) [0..<n]"
    and expr_kind: "kind (PropagateExpressionEffect an d e) = kind d"
    and expr_shape: "shape d \<Longrightarrow> shape (PropagateExpressionEffect an d e)"
    and effect_lambda: "effect (LambdaExpr l) i v = v"
    and effect_mono: "effect e i False \<Longrightarrow> effect e i True"
    and no_captured: "HandleVarStateCapturedByLambda an d l = d"
    and no_prehandle: "PreHandleLambdaExpression an d l = d"
    and no_terminator: "PropagateTerminatorEffect an d t = (d, None)"
    and no_quit: "CheckInQueueTimes an m b d = (d, False, m)"
    and bottom_states: "states (Bottom an) = replicate n False"
    and bottom_shape: "shape (Bottom an)"
    and func_entry: "kind (InitializeFuncEntryState an (Bottom an)) = Kind_REACHABLE"
      "length (states (InitializeFuncEntryState an (Bottom an))) = n" "shape (InitializeFuncEntryState an (Bottom an))"
    and no_lambda_entry: "InitializeLambdaEntryState an d = d"
begin

definition gk_ok :: "'r GenKillDomain_scheme \<Rightarrow> bool" where
  "gk_ok d \<longleftrightarrow> length (states d) = n \<and> shape d"

definition gk_le :: "'r GenKillDomain_scheme \<Rightarrow> 'r GenKillDomain_scheme \<Rightarrow> bool" where
  "gk_le d d' \<longleftrightarrow> (\<forall>i < n. states d ! i \<longrightarrow> states d' ! i)"

definition gk_height :: "'r GenKillDomain_scheme \<Rightarrow> nat" where
  "gk_height d = length (filter (\<lambda>i. \<not> states d ! i) [0..<n])"

lemma gk_join_bit: "gk_ok d \<Longrightarrow> i < n \<Longrightarrow> states (fst (Join an d d')) ! i \<longleftrightarrow> states d ! i \<or> states d' ! i"
  by (simp add: gk_ok_def join_states GK_Join_states)

lemma gk_join_ok: "gk_ok d \<Longrightarrow> gk_ok d' \<Longrightarrow> gk_ok (fst (Join an d d'))"
  by (simp add: gk_ok_def join_states GK_Join_states join_shape)

lemma gk_changed: "gk_ok d \<Longrightarrow> snd (Join an d d') \<longleftrightarrow> (\<exists>i < n. \<not> states d ! i \<and> states d' ! i)"
  by (simp add: gk_ok_def join_changed GK_Join_changed)

lemma gk_transfer: "transfer gk_ok GK_IsBottom gk_le (\<lambda>d. PropagateExpressionEffect an d e)"
proof -
  have "gk_le (PropagateExpressionEffect an x e) (PropagateExpressionEffect an y e)"
    if "gk_ok x" "gk_ok y" "gk_le x y" "gk_le y x" for x y
  proof -
    from that have "\<forall>i < n. states x ! i = states y ! i" by (auto simp: gk_le_def)
    with that show ?thesis by (simp add: gk_le_def gk_ok_def expr_states)
  qed
  then show ?thesis
    by (auto simp: transfer_def GK_IsBottom_def expr_kind) (simp_all add: gk_ok_def expr_states expr_shape)
qed

end

sublocale genkill \<subseteq> undirected P an gk_ok gk_le gk_height
proof unfold_locales
  show "transfer gk_ok (IsBottom an) gk_le (\<lambda>s. PropagateExpressionEffect an s e)" for e
    using gk_transfer by (simp add: is_bottom)
  show "gk_height (fst (Join an x y)) < gk_height x"
    if xy: "gk_ok x" "gk_ok y" "\<not> IsBottom an y" "snd (Join an x y)" for x y
  proof -
    from xy obtain i where "i < n" "\<not> states x ! i" "states y ! i" using gk_changed by blast
    then show ?thesis
      unfolding gk_height_def using xy(1) by (intro count_less[of n _ _ i]) (auto simp: gk_join_bit)
  qed
  show "gk_height (fst (Join an x y)) \<le> gk_height x" if "gk_ok x" "gk_ok y" "\<not> IsBottom an y" for x y
    unfolding gk_height_def using that(1) by (intro count_le) (auto simp: gk_join_bit)
qed (auto simp: gk_le_def gk_join_ok gk_join_bit gk_changed is_bottom GK_IsBottom_def join_kind
    no_captured no_prehandle no_terminator no_quit transfer_id no_lambda_entry func_entry
    gk_ok_def[of "Bottom an"] gk_ok_def[of "InitializeFuncEntryState an (Bottom an)"] bottom_states bottom_shape)

context genkill
begin

lemma single_states:
  "length (states d) = n \<Longrightarrow>
   states (SimulatingProcessingSingleExpression P an d e) = map (\<lambda>i. effect e i (states d ! i)) [0..<n]"
  by (cases e; cases "IsApplyToLambda P e")
    (auto simp: SimulatingProcessingSingleExpression_def CapturedByCallee_def no_captured no_prehandle expr_states effect_lambda
      intro: nth_equalityI)

lemma body_states:
  "length (states d) = n \<Longrightarrow>
   states (fold (\<lambda>e s. SimulatingProcessingSingleExpression P an s e) es d) = map (\<lambda>i. fold (\<lambda>e. effect e i) es (states d ! i)) [0..<n]"
proof (induction es arbitrary: d)
  case Nil
  then show ?case by (auto intro: nth_equalityI)
next
  case (Cons e es)
  then show ?case by (simp add: single_states)
qed

lemma flow_bit: "gk_ok d \<Longrightarrow> i < n \<Longrightarrow> states (flow b d) ! i = block_effect P effect i b (states d ! i)"
  by (cases "IsApplyToLambda P (last (Exprs (blk P b)))")
    (simp_all add: BlockFlow_def Let_def no_terminator CapturedByCallee_def no_captured body_states gk_ok_def block_effect_def)

lemma block_effect_mono: "block_effect P effect i b u \<Longrightarrow> (u \<Longrightarrow> v) \<Longrightarrow> block_effect P effect i b v"
proof -
  have "fold (\<lambda>e. effect e i) es u \<Longrightarrow> (u \<Longrightarrow> v) \<Longrightarrow> fold (\<lambda>e. effect e i) es v" for es and u v :: bool
  proof (induction es arbitrary: u v)
    case (Cons e es)
    have "effect e i u \<Longrightarrow> effect e i v" using Cons.prems(2) effect_mono[of e i] by (cases u; cases v) auto
    with Cons.IH[of "effect e i u" "effect e i v"] Cons.prems(1) show ?case by simp
  qed simp
  then show "block_effect P effect i b u \<Longrightarrow> (u \<Longrightarrow> v) \<Longrightarrow> block_effect P effect i b v" by (simp add: block_effect_def)
qed

text \<open>The iteration started with bottom everywhere but at the entry.\<close>

theorem exact:
  assumes start: "\<And>c. c \<in> reachable P e \<Longrightarrow> \<exists>x. entryStates E c = Some x \<and> gk_ok x"
    and entry: "reachable P e \<noteq> {} \<Longrightarrow> kind (entry_of E e) = Kind_REACHABLE"
    and bottoms: "\<And>c i. c \<in> reachable P e \<Longrightarrow> c \<noteq> e \<Longrightarrow> i < n \<Longrightarrow> \<not> states (entry_of E c) ! i"
    and ended: "\<And>c. c \<in> reachable P e \<Longrightarrow> GetReachableSuccessors P c \<noteq> [] \<Longrightarrow> Exprs (blk P c) \<noteq> []"
    and lams: "lam_ok E"
  shows "\<exists>E'. IterateSingleUnitToFixpoint P an e E = Some E' \<and> worklist E' = [] \<and>
    (\<forall>c \<in> reachable P e. (\<exists>x. entryStates E' c = Some x) \<and> gk_ok (entry_of E' c) \<and> kind (entry_of E' c) = Kind_REACHABLE \<and>
       (\<forall>i < n. states (entry_of E' c) ! i \<longleftrightarrow> bit_path P effect i e (states (entry_of E e) ! i) c True))"
proof -
  let ?path = "\<lambda>i. bit_path P effect i e (states (entry_of E e) ! i)"
  let ?Q = "\<lambda>c x. \<forall>i < n. states x ! i \<longrightarrow> ?path i c True"
  have Q_start: "?Q c (entry_of E c)" if "c \<in> reachable P e" for c
  proof (intro allI impI)
    fix i assume i: "i < n" and bit: "states (entry_of E c) ! i"
    with bottoms[OF that] have "c = e" by blast
    with bit bit_path.start[of P effect i e True] show "?path i c True" by simp
  qed
  have Q_join: "?Q c (fst (Join an y (flow b x)))"
    if b: "b \<in> reachable P e" and x: "gk_ok x" "?Q b x" and edge: "(b, c) \<in> edges P" and y: "gk_ok y" "?Q c y" for b c x y
  proof (intro allI impI)
    fix i assume i: "i < n" and bit: "states (fst (Join an y (flow b x))) ! i"
    show "?path i c True"
    proof (cases "states y ! i")
      case False
      with bit i x(1) y(1) have eff: "block_effect P effect i b (states x ! i)" by (simp add: gk_join_bit flow_bit)
      obtain v where v: "?path i b v" using bit_path_exists[OF b] by blast
      show ?thesis
      proof (cases "states x ! i")
        case True
        then have "?path i b True" using x(2) i by blast
        from bit_path.step[OF this edge] eff True show ?thesis by simp
      next
        case False
        then have "block_effect P effect i b v" using eff by (auto intro: block_effect_mono)
        with bit_path.step[OF v edge] show ?thesis by simp
      qed
    qed (use y(2) i in blast)
  qed
  have live: "reachable P e \<noteq> {} \<Longrightarrow> \<not> dead (entry_of E e)" using entry by (simp add: is_bottom GK_IsBottom_def)
  obtain E' where E': "IterateSingleUnitToFixpoint P an e E = Some E'" "worklist E' = []" and
    res: "\<forall>c \<in> reachable P e. (\<exists>x. entryStates E' c = Some x) \<and> gk_ok (entry_of E' c) \<and> \<not> dead (entry_of E' c) \<and>
       ?Q c (entry_of E' c) \<and> gk_le (entry_of E c) (entry_of E' c) \<and>
       (\<forall>s. (c, s) \<in> edges P \<longrightarrow> gk_le (flow c (entry_of E' c)) (entry_of E' s))"
    using fixpoint[where Q = ?Q, OF start live ended Q_start _ lams] Q_join by blast
  have sound: "v \<longrightarrow> states (entry_of E' c) ! i" if "?path i c v" "c \<in> reachable P e" "i < n" for i c v
    using that
  proof (induction rule: bit_path.induct)
    case start
    then show ?case using res by (auto simp: gk_le_def)
  next
    case (step b v c)
    have b: "b \<in> reachable P e"
      using bit_path_reachable[OF step.hyps(1)] step.prems(1) by (auto simp: reachable_def split: if_splits)
    have "block_effect P effect i b v \<Longrightarrow> block_effect P effect i b (states (entry_of E' b) ! i)"
      using step.IH[OF b step.prems(2)] by (auto intro: block_effect_mono)
    then show ?case using res b step.hyps(2) step.prems(2) by (auto simp: gk_le_def flow_bit)
  qed
  show ?thesis
    using E' res sound by (intro exI[of _ E']) (auto simp: is_bottom GK_IsBottom_def, (metis ReachableKind.exhaust)+)
qed

text \<open>The analysis of a whole function: it returns, and the entry state of each of its blocks holds
  the bits of the paths to the block.\<close>

theorem analysis_exact:
  assumes program: "closed_program P g"
    and run: "\<not> DoesExceedBlockLimit an g" "\<not> SkipAnalysis P"
  shows "\<exists>r. IterateToFixpoint P an m = Some (Some r) \<and>
    (\<forall>c \<in> reachable P (EntryBlock g). \<exists>d. entrySets r c = Some d \<and> length (states d) = n \<and> shape d \<and> kind d = Kind_REACHABLE \<and>
       (\<forall>i < n. states d ! i \<longleftrightarrow>
          bit_path P effect i (EntryBlock g) (states (InitializeFuncEntryState an (Bottom an)) ! i) c True))"
proof -
  obtain r f E where r: "IterateToFixpoint P an m = Some (Some r)" "FuncEntryStates an g = Some f"
      "IterateSingleUnitToFixpoint P an (EntryBlock g) (start_engine f m) = Some E" "entrySets r = entryStates E"
    using returns(2)[OF program run] by blast
  from program have closed: "closed_group P g" by (simp add: closed_program_def)
  let ?E0 = "start_engine f m"
  from start_states[OF closed] r(2) have f: "\<And>c. f c = (if c = EntryBlock g then Some (InitializeFuncEntryState an (Bottom an))
      else if c \<in> set (GroupBlocks g) then Some (Bottom an) else None)" by auto
  have ok: "gk_ok (Bottom an)" "gk_ok (InitializeFuncEntryState an (Bottom an))"
    by (simp_all add: gk_ok_def bottom_states bottom_shape func_entry)
  have "\<exists>x. entryStates ?E0 c = Some x \<and> gk_ok x" if "c \<in> reachable P (EntryBlock g)" for c
    using that closed ok by (auto simp: f closed_group_def)
  moreover have "kind (entry_of ?E0 (EntryBlock g)) = Kind_REACHABLE" by (simp add: entry_of_def f func_entry)
  moreover have "\<not> states (entry_of ?E0 c) ! i" if "c \<in> reachable P (EntryBlock g)" "c \<noteq> EntryBlock g" "i < n" for c i
    using that closed by (auto simp: entry_of_def f closed_group_def bottom_states)
  moreover have "Exprs (blk P c) \<noteq> []" if "c \<in> reachable P (EntryBlock g)" "GetReachableSuccessors P c \<noteq> []" for c
    using that closed by (auto simp: closed_group_def)
  moreover have "lam_ok ?E0" by (simp add: lam_ok_def)
  ultimately have "\<forall>c \<in> reachable P (EntryBlock g). (\<exists>x. entryStates E c = Some x) \<and> gk_ok (entry_of E c) \<and>
      kind (entry_of E c) = Kind_REACHABLE \<and> (\<forall>i < n. states (entry_of E c) ! i \<longleftrightarrow>
        bit_path P effect i (EntryBlock g) (states (entry_of ?E0 (EntryBlock g)) ! i) c True)"
    using exact[of "EntryBlock g" ?E0] r(3) by auto
  then show ?thesis using r(1,4) by (fastforce simp: gk_ok_def entry_of_def f)
qed

end

end
