(* ===== verification/VarInit.thy ===== *)
theory VarInit
  imports GenKill
begin

section \<open>Which variables and members may be uninitialised\<close>

text \<open>
  What the two initialisation analyses mean, without bits and indices: the things that a function
  initialises are its variables, the members of \<open>this\<close> and the super part. Along a path, declaring
  a variable makes it uninitialised and a store, a call of \<open>super(...)\<close> or of \<open>this(...)\<close>
  initialises. The analyses are instances of \<open>genkill\<close>; their bits are
  exactly the uninitialised (initialised) things of the paths to a block.
\<close>

subsection \<open>Initialisation along a path\<close>

datatype Cell = VarCell nat | MemberCell nat | SuperCell

definition declares :: "'x Expr \<Rightarrow> Cell set" where
  "declares e = (case e of Allocate v ty dbg exc \<Rightarrow> if exc then {} else {VarCell v} | _ \<Rightarrow> {})"

text \<open>In a constructor or instance-variable initialiser \<open>this\<close> is the first parameter.\<close>

definition initialises :: "('x, 'r) Program_scheme \<Rightarrow> ConstructorInitInfo \<Rightarrow> 'x Expr \<Rightarrow> Cell set" where
  "initialises P ctor e = (case e of
     Store sid v line \<Rightarrow> {VarCell v}
   | StoreElementRef b path line \<Rightarrow>
       {MemberCell m | m. (IsConstructor (TheFunc P) \<or> IsInstanceVarInit (TheFunc P)) \<and> b \<in> set (Params P) \<and>
          b = hd (Params P) \<and> path = [m]}
   | Apply k f args super \<Rightarrow>
       if k = APPLY \<and> IsConstructor (TheFunc P) then
         if super then {SuperCell} else if IsThisInitCall P ctor f args then insert SuperCell (range MemberCell) else {}
       else {}
   | _ \<Rightarrow> {})"

definition uninit_after :: "('x, 'r) Program_scheme \<Rightarrow> ConstructorInitInfo \<Rightarrow> 'x Expr \<Rightarrow> Cell set \<Rightarrow> Cell set" where
  "uninit_after P ctor e U = (U \<union> declares e) - initialises P ctor e"

text \<open>The sets of uninitialised things with which some path from the entry arrives at a block.\<close>

inductive arrives :: "('x, 'r) Program_scheme \<Rightarrow> ConstructorInitInfo \<Rightarrow> nat \<Rightarrow> nat \<Rightarrow> Cell set \<Rightarrow> bool"
  for P ctor e where
  at_entry: "arrives P ctor e e UNIV"
| along: "arrives P ctor e b U \<Longrightarrow> (b, c) \<in> edges P \<Longrightarrow>
    arrives P ctor e c (fold (uninit_after P ctor) (butlast (Exprs (blk P b))) U)"

inductive_cases arrivesE: "arrives P ctor e b U"

subsection \<open>Where the bits are\<close>

definition slot :: "ConstructorInitInfo \<Rightarrow> (nat \<times> nat) list \<Rightarrow> nat \<Rightarrow> Cell \<Rightarrow> nat option" where
  "slot ctor amap n c = (case c of
     VarCell v \<Rightarrow> map_of amap v
   | MemberCell m \<Rightarrow> if superMemberNums ctor \<le> m \<and> m < superMemberNums ctor + localMemberNums ctor
       then Some (m - superMemberNums ctor) else None
   | SuperCell \<Rightarrow> if superClassDef ctor \<noteq> None then Some (n - 1) else None)"

text \<open>The numbering of \<open>SaveAllocateMap\<close>: different variables get different numbers from \<open>lo\<close> on, below
  the counter.\<close>

definition numbered :: "nat \<Rightarrow> nat \<times> (nat \<times> nat) list \<Rightarrow> bool" where
  "numbered lo = (\<lambda>(idx, amap). lo \<le> idx \<and> (\<forall>v i. map_of amap v = Some i \<longrightarrow> lo \<le> i \<and> i < idx) \<and>
     (\<forall>v w i. map_of amap v = Some i \<longrightarrow> map_of amap w = Some i \<longrightarrow> v = w))"

lemma numbered_add:
  assumes "numbered lo (idx, amap)" "map_of amap v = None"
  shows "numbered lo (Suc idx, amap @ [(v, idx)])"
proof -
  have "map_of (amap @ [(v, idx)]) w = (if w = v then Some idx else map_of amap w)" for w
    using assms(2) by (auto simp: map_add_def split: option.splits)
  moreover have "map_of amap w \<noteq> Some idx" for w using assms(1) by (auto simp: numbered_def)
  ultimately show ?thesis using assms unfolding numbered_def by (auto split: if_splits) (metis less_SucI)+
qed

lemma numbered_next: "numbered lo (idx, amap) \<Longrightarrow> numbered lo (Suc idx, amap)"
  by (auto simp: numbered_def intro: less_SucI)

lemma SaveAllocateMap_numbered:
  assumes "SaveAllocateMap P es acc = Some acc'" "numbered lo acc"
  shows "numbered lo acc'"
proof -
  have "numbered lo (snd ((P, es), acc)) \<longrightarrow> numbered lo acc'"
  proof (rule SaveAllocateMap.raw_induct[where Pa = "\<lambda>x y. numbered lo (snd x) \<longrightarrow> numbered lo y", OF _ assms(1)])
    fix save P es acc acc'
    assume IH: "\<And>P es acc acc'. save P es acc = Some acc' \<Longrightarrow> numbered lo (snd ((P, es), acc)) \<longrightarrow> numbered lo acc'"
      and eq: "(case es of [] \<Rightarrow> Some acc
        | e # rest \<Rightarrow> (case e of
            Allocate v ty dbg exc \<Rightarrow>
              (if dbg then Some (case acc of (i, m) \<Rightarrow> (Suc i, if map_of m v = None then m @ [(v, i)] else m)) else Some acc)
          | LambdaExpr l \<Rightarrow> save P (GroupExprs P (LambdaBody P l)) acc
          | _ \<Rightarrow> Some acc) \<bind> save P rest) = Some (acc' :: nat \<times> (nat \<times> nat) list)"
    show "numbered lo (snd ((P, es), acc)) \<longrightarrow> numbered lo acc'"
    proof
      assume "numbered lo (snd ((P, es), acc))"
      then have n: "numbered lo acc" by simp
      show "numbered lo acc'"
      proof (cases es)
        case (Cons e rest)
        with eq obtain mid where mid: "(case e of
            Allocate v ty dbg exc \<Rightarrow>
              (if dbg then Some (case acc of (i, m) \<Rightarrow> (Suc i, if map_of m v = None then m @ [(v, i)] else m)) else Some acc)
          | LambdaExpr l \<Rightarrow> save P (GroupExprs P (LambdaBody P l)) acc
          | _ \<Rightarrow> Some acc) = Some mid" "save P rest mid = Some acc'"
          by (auto simp: bind_eq_Some_conv)
        have "numbered lo mid" using mid(1) n IH[of P _ acc mid]
          by (cases e) (auto split: if_splits prod.splits intro: numbered_add numbered_next)
        with IH[OF mid(2)] show ?thesis by simp
      qed (use eq n in simp)
    qed
  qed
  with assms(2) show ?thesis by simp
qed

text \<open>The layout of the bits that the constructors of the analyses choose.\<close>

definition layout :: "ConstructorInitInfo \<Rightarrow> (nat \<times> nat) list \<Rightarrow> nat \<Rightarrow> bool" where
  "layout ctor amap n \<longleftrightarrow> localMemberNums ctor \<le> n \<and> (superClassDef ctor \<noteq> None \<longrightarrow> localMemberNums ctor < n) \<and>
     (\<forall>v i. map_of amap v = Some i \<longrightarrow> localMemberNums ctor \<le> i \<and> i < n \<and> (superClassDef ctor \<noteq> None \<longrightarrow> i < n - 1)) \<and>
     (\<forall>v w i. map_of amap v = Some i \<longrightarrow> map_of amap w = Some i \<longrightarrow> v = w)"

lemma InitAnalysisMembers_layout:
  assumes "InitAnalysisMembers P g ctor = Some (amap, n)"
  shows "layout ctor amap n"
proof -
  from assms obtain idx where s: "SaveAllocateMap P (GroupExprs P g) (localMemberNums ctor, []) = Some (idx, amap)"
    and n: "n = (if superClassDef ctor \<noteq> None then Suc (localMemberNums ctor + idx) else localMemberNums ctor + idx)"
    by (auto simp: InitAnalysisMembers_def Let_def bind_eq_Some_conv)
  have "numbered (localMemberNums ctor) (idx, amap)"
    by (rule SaveAllocateMap_numbered[OF s]) (simp add: numbered_def)
  then show ?thesis unfolding numbered_def layout_def n by (auto split: if_splits) (metis trans_less_add2 less_SucI)+
qed

lemma slot_bound: "layout ctor amap n \<Longrightarrow> slot ctor amap n c = Some i \<Longrightarrow> i < n"
  by (auto simp: layout_def slot_def split: Cell.splits if_splits)

lemma slot_inj:
  assumes l: "layout ctor amap n" and c: "slot ctor amap n c = Some i" and d: "slot ctor amap n d = Some i"
  shows "c = d"
proof -
  have var: "localMemberNums ctor \<le> i \<and> (superClassDef ctor \<noteq> None \<longrightarrow> i < n - 1)" if "slot ctor amap n (VarCell v) = Some i" for v
    using l that by (simp add: layout_def slot_def)
  have mem: "i < localMemberNums ctor" "m = i + superMemberNums ctor" if "slot ctor amap n (MemberCell m) = Some i" for m
    using that by (auto simp: slot_def split: if_splits)
  have super: "superClassDef ctor \<noteq> None \<and> i = n - 1 \<and> localMemberNums ctor \<le> i" if "slot ctor amap n SuperCell = Some i"
    using l that by (auto simp: layout_def slot_def split: if_splits)
  have vars: "v = w" if "slot ctor amap n (VarCell v) = Some i" "slot ctor amap n (VarCell w) = Some i" for v w
    using l that unfolding layout_def by (simp add: slot_def)
  show ?thesis
    using c d by (cases c; cases d) (auto dest: vars mem(2), (auto dest!: var mem(1) super)[6])
qed

subsection \<open>The analyses are gen/kill analyses\<close>

text \<open>The bits that an expression makes true of its declaration, and those that it initialises.\<close>

definition declared_bits :: "(nat \<times> nat) list \<Rightarrow> 'x Expr \<Rightarrow> nat set" where
  "declared_bits amap e = (case e of
     Allocate v ty dbg exc \<Rightarrow> if exc then {} else set_option (map_of amap v) | _ \<Rightarrow> {})"

definition initialised_bits :: "('x, 'r) Program_scheme \<Rightarrow> ConstructorInitInfo \<Rightarrow> (nat \<times> nat) list \<Rightarrow> nat \<Rightarrow> 'x Expr \<Rightarrow> nat set" where
  "initialised_bits P ctor amap n e = (case e of
     Store sid v line \<Rightarrow> set_option (map_of amap v)
   | StoreElementRef b path line \<Rightarrow> (case IsInitialisingMemberVar P b path of
        None \<Rightarrow> {} | Some m \<Rightarrow> if m < superMemberNums ctor then {} else {m - superMemberNums ctor})
   | Apply k f args super \<Rightarrow>
       if k = APPLY \<and> IsConstructor (TheFunc P) then
         if super then {n - 1}
         else if IsThisInitCall P ctor f args then
           {..<localMemberNums ctor} \<union> (if superClassDef ctor \<noteq> None then {n - 1} else {})
         else {}
       else {}
   | _ \<Rightarrow> {})"

definition MU_effect :: "('x, 'r) Program_scheme \<Rightarrow> ConstructorInitInfo \<Rightarrow> (nat \<times> nat) list \<Rightarrow> nat \<Rightarrow> 'x Expr \<Rightarrow> nat \<Rightarrow> bool \<Rightarrow> bool" where
  "MU_effect P ctor amap n e i v \<longleftrightarrow> (v \<or> i \<in> declared_bits amap e) \<and> i \<notin> initialised_bits P ctor amap n e"

definition MI_effect :: "('x, 'r) Program_scheme \<Rightarrow> ConstructorInitInfo \<Rightarrow> (nat \<times> nat) list \<Rightarrow> nat \<Rightarrow> 'x Expr \<Rightarrow> nat \<Rightarrow> bool \<Rightarrow> bool" where
  "MI_effect P ctor amap n e i v \<longleftrightarrow> (v \<and> i \<notin> declared_bits amap e) \<or> i \<in> initialised_bits P ctor amap n e"

lemma bit_updates:
  "i < length (states d) \<Longrightarrow> states (Gen j d) ! i = (i = j \<or> states d ! i)"
  "i < length (states d) \<Longrightarrow> states (Kill j d) ! i = (i \<noteq> j \<and> states d ! i)"
  "length (states (Gen j d)) = length (states d)" "length (states (Kill j d)) = length (states d)"
  "kind (Gen j d) = kind d" "kind (Kill j d) = kind d"
  by (cases "i = j"; simp add: Gen_def Kill_def)+

lemma fold_Kill_bits:
  "length (states (fold Kill js d)) = length (states d) \<and> kind (fold Kill js d) = kind d \<and>
   (\<forall>i < length (states d). states (fold Kill js d) ! i = (i \<notin> set js \<and> states d ! i))"
  by (induction js arbitrary: d) (auto simp: bit_updates)

lemma fold_Gen_bits:
  "length (states (fold Gen js d)) = length (states d) \<and> kind (fold Gen js d) = kind d \<and>
   (\<forall>i < length (states d). states (fold Gen js d) ! i = (i \<in> set js \<or> states d ! i))"
  by (induction js arbitrary: d) (auto simp: bit_updates)

lemma AddPos_bits: "states (AddPos i l d) = states d" "kind (AddPos i l d) = kind d"
    "length (maybeInitedPos (AddPos i l d)) = length (maybeInitedPos d)"
  by (simp_all add: AddPos_def)

lemma pos_updates: "maybeInitedPos (Gen j d) = maybeInitedPos d" "maybeInitedPos (Kill j d) = maybeInitedPos d"
    "maybeInitedPos (fold Kill js d) = maybeInitedPos d"
  by (simp_all add: Gen_def Kill_def) (induction js arbitrary: d, simp_all add: Kill_def)

lemmas MU_handlers = MU_PropagateExpressionEffect_def MU_HandleAllocateExpr_def MU_HandleStoreExpr_def
  MU_HandleStoreElemRefExpr_def MU_HandleApplyExpr_def MU_SetAllLocalMemberInited_def Let_def

lemmas MI_handlers = MI_PropagateExpressionEffect_def MI_HandleAllocateExpr_def MI_HandleStoreExpr_def
  MI_HandleStoreElemRefExpr_def MI_HandleApplyExpr_def MI_SetAllLocalMemberInited_def Let_def

lemma MU_states:
  assumes "length (states d) = n"
  shows "states (MU_PropagateExpressionEffect P ctor amap n d e) = map (\<lambda>i. MU_effect P ctor amap n e i (states d ! i)) [0..<n]"
    and "kind (MU_PropagateExpressionEffect P ctor amap n d e) = kind d"
    and "length (maybeInitedPos (MU_PropagateExpressionEffect P ctor amap n d e)) = length (maybeInitedPos d)"
  using assms
  by (cases e; auto simp: MU_handlers MU_effect_def declared_bits_def initialised_bits_def bit_updates fold_Kill_bits
        AddPos_bits pos_updates intro!: nth_equalityI split: option.splits)+

lemma MI_states:
  assumes "length (states d) = n"
  shows "states (MI_PropagateExpressionEffect P ctor amap n d e) = map (\<lambda>i. MI_effect P ctor amap n e i (states d ! i)) [0..<n]"
    and "kind (MI_PropagateExpressionEffect P ctor amap n d e) = kind d"
  using assms
  by (cases e; auto simp: MI_handlers MI_effect_def declared_bits_def initialised_bits_def bit_updates fold_Gen_bits
        intro!: nth_equalityI split: option.splits)+

lemma MU_new_bits: "states (MU_new n) = replicate n False" "length (maybeInitedPos (MU_new n)) = n"
  by (simp_all add: MU_new_def)

lemma MU_Join_bits:
  "states (fst (MU_Join d d')) = states (fst (GK_Join MAYBE d d'))" "kind (fst (MU_Join d d')) = Kind_REACHABLE"
  "snd (MU_Join d d') = snd (GK_Join MAYBE d d')" "length (maybeInitedPos (fst (MU_Join d d'))) = length (maybeInitedPos d)"
  by (simp_all add: MU_Join_def GK_Join_def Let_def)

lemmas analysis_fields = MaybeUninitAnalysis_def MaybeInitAnalysis_def default_analysis_def

text \<open>The analyses keep the number of their facts; an expression of another length is of no concern.\<close>

lemma MU_length:
  "length (states (MU_PropagateExpressionEffect P ctor amap n d e)) = length (states d)"
  "kind (MU_PropagateExpressionEffect P ctor amap n d e) = kind d"
  "length (maybeInitedPos (MU_PropagateExpressionEffect P ctor amap n d e)) = length (maybeInitedPos d)"
  by (cases e; auto simp: MU_handlers bit_updates fold_Kill_bits AddPos_bits pos_updates split: option.splits)+

lemma MI_kind: "kind (MI_PropagateExpressionEffect P ctor amap n d e) = kind d"
  by (cases e; auto simp: MI_handlers bit_updates fold_Gen_bits split: option.splits)

interpretation mu: genkill P "MaybeUninitAnalysis P ctor amap n" n "\<lambda>d. length (maybeInitedPos d) = n" "MU_effect P ctor amap n"
  for P :: "('x, 'p) Program_scheme" and ctor amap n
proof unfold_locales
  show "MU_effect P ctor amap n (LambdaExpr l) i v = v" for l i v
    by (simp add: MU_effect_def declared_bits_def initialised_bits_def)
  show "MU_effect P ctor amap n e i False \<Longrightarrow> MU_effect P ctor amap n e i True" for e i
    by (simp add: MU_effect_def)
qed (simp_all add: analysis_fields MU_Join_bits MU_states(1) MU_length MU_new_bits MU_InitializeFuncEntryState_def GenAll_def)

interpretation mi: genkill P "MaybeInitAnalysis P ctor amap n" n "\<lambda>d. True" "MI_effect P ctor amap n"
  for P :: "('x, 'p) Program_scheme" and ctor amap n
proof unfold_locales
  show "MI_effect P ctor amap n (LambdaExpr l) i v = v" for l i v
    by (simp add: MI_effect_def declared_bits_def initialised_bits_def)
  show "MI_effect P ctor amap n e i False \<Longrightarrow> MI_effect P ctor amap n e i True" for e i
    by (auto simp: MI_effect_def)
qed (simp_all add: analysis_fields MI_Join_def GK_Join_states(2) MI_states(1) MI_kind GenKillDomain_new_def
    MI_InitializeFuncEntryState_def)

subsection \<open>From bits to what is initialised\<close>

text \<open>What the analyses take for granted of a constructor: it stores only to members of its type, and
  it calls \<open>super(...)\<close> only if there is a super class.\<close>

definition ctor_expr :: "('x, 'r) Program_scheme \<Rightarrow> ConstructorInitInfo \<Rightarrow> 'x Expr \<Rightarrow> bool" where
  "ctor_expr P ctor e = (case e of
     StoreElementRef b path line \<Rightarrow> (case IsInitialisingMemberVar P b path of
        None \<Rightarrow> True | Some m \<Rightarrow> m < superMemberNums ctor + localMemberNums ctor)
   | Apply k f args super \<Rightarrow> super \<longrightarrow> superClassDef ctor \<noteq> None
   | _ \<Rightarrow> True)"

lemma slot_declared:
  "layout ctor amap n \<Longrightarrow> slot ctor amap n c = Some i \<Longrightarrow> c \<in> declares e \<longleftrightarrow> i \<in> declared_bits amap e"
proof -
  assume l: "layout ctor amap n" and s: "slot ctor amap n c = Some i"
  have "c = VarCell v \<longleftrightarrow> map_of amap v = Some i" for v
    using s slot_inj[OF l s, of "VarCell v"] by (auto simp: slot_def)
  then show ?thesis by (cases e) (auto simp: declares_def declared_bits_def split: option.splits)
qed

lemma slot_initialised:
  assumes l: "layout ctor amap n" and s: "slot ctor amap n c = Some i" and e: "ctor_expr P ctor e"
  shows "c \<in> initialises P ctor e \<longleftrightarrow> i \<in> initialised_bits P ctor amap n e"
proof -
  have var: "c = VarCell v \<longleftrightarrow> map_of amap v = Some i" for v
    using s slot_inj[OF l s, of "VarCell v"] by (auto simp: slot_def)
  have mem: "c = MemberCell m \<longleftrightarrow> superMemberNums ctor \<le> m \<and> i = m - superMemberNums ctor"
    if "m < superMemberNums ctor + localMemberNums ctor" for m
    using s slot_inj[OF l s, of "MemberCell m"] that by (auto simp: slot_def split: if_splits)
  have super: "c = SuperCell \<longleftrightarrow> i = n - 1" if "superClassDef ctor \<noteq> None"
    using s slot_inj[OF l s, of SuperCell] that by (auto simp: slot_def)
  have no_super: "c \<noteq> SuperCell" if "superClassDef ctor = None" using s that by (auto simp: slot_def)
  have members: "c \<in> range MemberCell \<longleftrightarrow> i < localMemberNums ctor"
  proof
    assume "c \<in> range MemberCell"
    then show "i < localMemberNums ctor" using s by (auto simp: slot_def split: if_splits)
  next
    assume "i < localMemberNums ctor"
    then have "slot ctor amap n (MemberCell (superMemberNums ctor + i)) = Some i" by (simp add: slot_def)
    with slot_inj[OF l s] show "c \<in> range MemberCell" by blast
  qed
  show ?thesis
  proof (cases e)
    case (StoreElementRef b path line)
    show ?thesis
    proof (cases "IsInitialisingMemberVar P b path")
      case None
      then show ?thesis
        by (auto simp: StoreElementRef initialises_def initialised_bits_def IsInitialisingMemberVar_def split: if_splits)
    next
      case (Some m)
      then have "initialises P ctor e = {MemberCell m}"
        by (auto simp: StoreElementRef initialises_def IsInitialisingMemberVar_def length_Suc_conv split: if_splits)
      then show ?thesis using mem[of m] e Some by (auto simp: StoreElementRef initialised_bits_def ctor_expr_def)
    qed
  next
    case (Apply k f args sup)
    then show ?thesis using super no_super members e
      by (auto simp: initialises_def initialised_bits_def ctor_expr_def)
  qed (use var in \<open>auto simp: initialises_def initialised_bits_def split: option.splits\<close>)
qed

lemma slot_effect:
  assumes "layout ctor amap n" "slot ctor amap n c = Some i" "ctor_expr P ctor e"
  shows "c \<in> uninit_after P ctor e U \<longleftrightarrow> MU_effect P ctor amap n e i (c \<in> U)"
    and "c \<notin> uninit_after P ctor e U \<longleftrightarrow> MI_effect P ctor amap n e i (c \<notin> U)"
  using slot_declared[OF assms(1,2), of e] slot_initialised[OF assms]
  by (auto simp: uninit_after_def MU_effect_def MI_effect_def)

end
