(* ===== verification/VarInitTheorems.thy ===== *)
theory VarInitTheorems
  imports VarInit
begin

section \<open>The initialisation analyses are exact\<close>

text \<open>
  The theorems on \<open>MaybeUninitAnalysis\<close> and \<open>MaybeInitAnalysis\<close>, run by the engine on a whole
  function: they return, and what they say at a block is what some path to the block leaves
  uninitialised or initialised. The last one shows what the join of the maybe-uninitialised states
  does not propagate.
\<close>

subsection \<open>Paths and bits\<close>

lemma block_cells:
  assumes "layout ctor amap n" "slot ctor amap n c = Some i" "\<forall>e \<in> set es. ctor_expr P ctor e"
  shows "c \<in> fold (uninit_after P ctor) es U \<longleftrightarrow> fold (\<lambda>e. MU_effect P ctor amap n e i) es (c \<in> U)"
    and "c \<notin> fold (uninit_after P ctor) es U \<longleftrightarrow> fold (\<lambda>e. MI_effect P ctor amap n e i) es (c \<notin> U)"
proof -
  show "c \<in> fold (uninit_after P ctor) es U \<longleftrightarrow> fold (\<lambda>e. MU_effect P ctor amap n e i) es (c \<in> U)"
    using assms(3) by (induction es arbitrary: U) (simp_all add: slot_effect(1)[OF assms(1,2)])
  show "c \<notin> fold (uninit_after P ctor) es U \<longleftrightarrow> fold (\<lambda>e. MI_effect P ctor amap n e i) es (c \<notin> U)"
    using assms(3) by (induction es arbitrary: U) (simp_all add: slot_effect(2)[OF assms(1,2)])
qed

text \<open>The paths of a set of cells and the paths of one bit, when the bit follows the cell.\<close>

lemma arrives_bit_path:
  assumes step: "\<And>b U. b \<in> reachable P e \<Longrightarrow>
      f (fold (uninit_after P ctor) (butlast (Exprs (blk P b))) U) \<longleftrightarrow> block_effect P effect i b (f U)"
    and e: "e \<in> reachable P e"
  shows "bit_path P effect i e (f UNIV) b True \<longleftrightarrow> (\<exists>U. arrives P ctor e b U \<and> f U)"
proof -
  have fwd: "\<exists>U. arrives P ctor e b U \<and> f U = v" if "bit_path P effect i e (f UNIV) b v" for b v
    using that
  proof (induction rule: bit_path.induct)
    case start
    then show ?case using arrives.at_entry by blast
  next
    case (step b v c)
    then obtain U where U: "arrives P ctor e b U" "f U = v" by blast
    have "b \<in> reachable P e" using bit_path_reachable[OF step.hyps(1) e] .
    from assms(1)[OF this, of U] arrives.along[OF U(1) step.hyps(2)] U(2) show ?case by blast
  qed
  have bwd: "bit_path P effect i e (f UNIV) b (f U) \<and> b \<in> reachable P e" if "arrives P ctor e b U" for b U
    using that
  proof (induction rule: arrives.induct)
    case at_entry
    show ?case using e by (simp add: bit_path.start)
  next
    case (along b U c)
    then have b: "b \<in> reachable P e" and p: "bit_path P effect i e (f UNIV) b (f U)" by simp_all
    from bit_path.step[OF p along.hyps(2)] show ?case
      unfolding assms(1)[OF b, of U] using reachable_step[OF b along.hyps(2)] by simp
  qed
  from fwd bwd show ?thesis by (metis (full_types))
qed

lemma butlast_exprs:
  "\<forall>b \<in> reachable P e. \<forall>x \<in> set (Exprs (blk P b)). ctor_expr P ctor x \<Longrightarrow> b \<in> reachable P e \<Longrightarrow>
   \<forall>x \<in> set (butlast (Exprs (blk P b))). ctor_expr P ctor x"
  by (auto dest: in_set_butlastD)

lemma uninit_bit:
  assumes "layout ctor amap n" "slot ctor amap n c = Some i" "e \<in> reachable P e"
    "\<forall>b \<in> reachable P e. \<forall>x \<in> set (Exprs (blk P b)). ctor_expr P ctor x"
  shows "bit_path P (MU_effect P ctor amap n) i e True b True \<longleftrightarrow> (\<exists>U. arrives P ctor e b U \<and> c \<in> U)"
    and "bit_path P (MI_effect P ctor amap n) i e False b True \<longleftrightarrow> (\<exists>U. arrives P ctor e b U \<and> c \<notin> U)"
  using arrives_bit_path[of P e "\<lambda>U. c \<in> U" ctor "MU_effect P ctor amap n" i b]
    arrives_bit_path[of P e "\<lambda>U. c \<notin> U" ctor "MI_effect P ctor amap n" i b]
    block_cells[OF assms(1,2) butlast_exprs[OF assms(4)]] assms(3)
  by (simp_all add: block_effect_def)

subsection \<open>The states of the two analyses\<close>

lemma MU_result:
  assumes program: "closed_program P g" "\<not> SkipAnalysis P"
  shows "\<exists>r. IterateToFixpoint P (MaybeUninitAnalysis P ctor amap n) () = Some (Some r) \<and>
    (\<forall>b \<in> reachable P (EntryBlock g). \<exists>d. entrySets r b = Some d \<and> length (states d) = n \<and>
       (\<forall>i < n. states d ! i \<longleftrightarrow> bit_path P (MU_effect P ctor amap n) i (EntryBlock g) True b True))"
proof -
  have run: "\<not> DoesExceedBlockLimit (MaybeUninitAnalysis P ctor amap n) g"
    by (simp add: DoesExceedBlockLimit_def analysis_fields)
  have init: "states (InitializeFuncEntryState (MaybeUninitAnalysis P ctor amap n) (Bottom (MaybeUninitAnalysis P ctor amap n))) =
      replicate n True"
    by (simp add: analysis_fields MU_InitializeFuncEntryState_def GenAll_def MU_new_def)
  from mu.analysis_exact[OF program(1) run program(2), of "()"] show ?thesis
    by (fastforce simp: init)
qed

lemma MI_result:
  assumes program: "closed_program P g" "\<not> SkipAnalysis P"
  shows "\<exists>r. IterateToFixpoint P (MaybeInitAnalysis P ctor amap n) () = Some (Some r) \<and>
    (\<forall>b \<in> reachable P (EntryBlock g). \<exists>d. entrySets r b = Some d \<and> length (states d) = n \<and>
       (\<forall>i < n. states d ! i \<longleftrightarrow> bit_path P (MI_effect P ctor amap n) i (EntryBlock g) False b True))"
proof -
  have run: "\<not> DoesExceedBlockLimit (MaybeInitAnalysis P ctor amap n) g"
    by (simp add: DoesExceedBlockLimit_def analysis_fields)
  have init: "states (InitializeFuncEntryState (MaybeInitAnalysis P ctor amap n) (Bottom (MaybeInitAnalysis P ctor amap n))) =
      replicate n False"
    by (simp add: analysis_fields MI_InitializeFuncEntryState_def GenKillDomain_new_def)
  from mi.analysis_exact[OF program(1) run program(2), of "()"] show ?thesis
    by (fastforce simp: init)
qed

subsection \<open>A program to try\<close>

text \<open>A variable that is declared in block 0; a loop of blocks 1 and 2 whose body stores it, in line 7;
  a load after the loop, in block 3.\<close>

definition loop_program :: "unit Program" where
  "loop_program = \<lparr>
     BlockTable =
      [\<lparr>UNREACHABLE = False, Exprs = [Allocate 1 T_Other True False, OtherExpr ()], Succs = [1]\<rparr>,
       \<lparr>UNREACHABLE = False, Exprs = [OtherExpr ()], Succs = [2, 3]\<rparr>,
       \<lparr>UNREACHABLE = False, Exprs = [Store 100 1 7, OtherExpr ()], Succs = [1]\<rparr>,
       \<lparr>UNREACHABLE = False, Exprs = [Load 101 1, OtherExpr ()], Succs = []\<rparr>],
     LocalVars = [], FuncOf = (\<lambda>_. None), TypeOf = (\<lambda>_. T_Other),
     DefOf = (\<lambda>_. \<lparr>IsCStruct = False, AllInstanceVars = []\<rparr>),
     LambdaTable = [], CapturedVars = (\<lambda>_. []),
     TheFunc = \<lparr>IsConstructor = False, IsInstanceVarInit = False, IsMemberFunc = False, IsStatic = True,
       HasBody = True, OuterDef = None\<rparr>,
     Params = [], Body = Some \<lparr>EntryBlock = 0, GroupBlocks = [0, 1, 2, 3]\<rparr>, SkipAnalysis = False\<rparr>"

definition no_ctor :: ConstructorInitInfo where
  "no_ctor = \<lparr>thisCustomDef = None, superClassDef = None, superMemberNums = 0, localMemberNums = 0\<rparr>"

lemma loop_program_closed: "closed_program loop_program \<lparr>EntryBlock = 0, GroupBlocks = [0, 1, 2, 3]\<rparr>"
  by (rule closed_program_simple) (auto simp: loop_program_def)

lemma loop_program_reachable: "reachable loop_program 0 = {0, 1, 2, 3}"
proof -
  have "TopologicalSort loop_program 0 = [0, 1, 2, 3]" by code_simp
  then show ?thesis by (metis TopologicalSort_set empty_set list.simps(15))
qed

lemma loop_program_ctor:
  "\<forall>b \<in> reachable loop_program 0. \<forall>x \<in> set (Exprs (blk loop_program b)). ctor_expr loop_program no_ctor x"
  unfolding loop_program_reachable by code_simp

lemma loop_program_members:
  "InitAnalysisMembers loop_program \<lparr>EntryBlock = 0, GroupBlocks = [0, 1, 2, 3]\<rparr> no_ctor = Some ([(1, 0)], 1)"
  by code_simp

subsection \<open>The theorems\<close>

text \<open>C16: the engine returns for \<open>MaybeUninitAnalysis\<close>, and at each block it says of a variable, of a
  member of the constructor's own type and of the super part that it may be uninitialised if and
  only if some path from the entry to the block leaves it uninitialised.\<close>

theorem MaybeUninit_exact:
  assumes program: "closed_program P g" "\<not> SkipAnalysis P" "\<not> UNREACHABLE (blk P (EntryBlock g))"
    and members: "InitAnalysisMembers P g ctor = Some (amap, n)"
    and ctor: "\<forall>b \<in> reachable P (EntryBlock g). \<forall>x \<in> set (Exprs (blk P b)). ctor_expr P ctor x"
  shows "\<exists>r. IterateToFixpoint P (MaybeUninitAnalysis P ctor amap n) () = Some (Some r) \<and>
    (\<forall>b \<in> reachable P (EntryBlock g). \<exists>d. entrySets r b = Some d \<and>
       (\<forall>v \<in> dom (map_of amap). IsMaybeUninitedAllocation amap d v =
          Some (\<exists>U. arrives P ctor (EntryBlock g) b U \<and> VarCell v \<in> U)) \<and>
       (\<forall>m \<in> {superMemberNums ctor ..< superMemberNums ctor + localMemberNums ctor}.
          IsMaybeUninitedMember ctor d m = (if \<exists>U. arrives P ctor (EntryBlock g) b U \<and> MemberCell m \<in> U
            then LOCAL_MEMBER else NA_MEMBER)) \<and>
       (superClassDef ctor \<noteq> None \<longrightarrow> (\<forall>m < superMemberNums ctor.
          IsMaybeUninitedMember ctor d m = (if \<exists>U. arrives P ctor (EntryBlock g) b U \<and> SuperCell \<in> U
            then SUPER_MEMBER else NA_MEMBER))))"
proof -
  let ?e = "EntryBlock g"
  note l = InitAnalysisMembers_layout[OF members] and e = reachable_entry[OF program(3)]
  obtain r where r: "IterateToFixpoint P (MaybeUninitAnalysis P ctor amap n) () = Some (Some r)" and
    bits: "\<forall>b \<in> reachable P ?e. \<exists>d. entrySets r b = Some d \<and> length (states d) = n \<and>
       (\<forall>i < n. states d ! i \<longleftrightarrow> bit_path P (MU_effect P ctor amap n) i ?e True b True)"
    using MU_result[OF program(1,2)] by blast
  have cell: "states d ! i \<longleftrightarrow> (\<exists>U. arrives P ctor ?e b U \<and> c \<in> U)"
    if "slot ctor amap n c = Some i" "\<forall>i < n. states d ! i \<longleftrightarrow> bit_path P (MU_effect P ctor amap n) i ?e True b True" for b c d i
    using that uninit_bit(1)[OF l that(1) e ctor, of b] slot_bound[OF l that(1)] by simp
  show ?thesis
  proof (intro exI[of _ r] conjI ballI r)
    fix b assume "b \<in> reachable P ?e"
    then obtain d where d: "entrySets r b = Some d" "length (states d) = n"
      and bit: "\<forall>i < n. states d ! i \<longleftrightarrow> bit_path P (MU_effect P ctor amap n) i ?e True b True" using bits by blast
    have var: "IsMaybeUninitedAllocation amap d v = Some (\<exists>U. arrives P ctor ?e b U \<and> VarCell v \<in> U)"
      if "v \<in> dom (map_of amap)" for v
      using that cell[OF _ bit, of "VarCell v"] by (auto simp: IsMaybeUninitedAllocation_def IsTrueAt_def slot_def)
    have mem: "IsMaybeUninitedMember ctor d m = (if \<exists>U. arrives P ctor ?e b U \<and> MemberCell m \<in> U then LOCAL_MEMBER else NA_MEMBER)"
      if "m \<in> {superMemberNums ctor ..< superMemberNums ctor + localMemberNums ctor}" for m
      using that cell[OF _ bit, of "MemberCell m"] by (simp add: IsMaybeUninitedMember_def IsTrueAt_def slot_def)
    have super: "IsMaybeUninitedMember ctor d m = (if \<exists>U. arrives P ctor ?e b U \<and> SuperCell \<in> U then SUPER_MEMBER else NA_MEMBER)"
      if "superClassDef ctor \<noteq> None" "m < superMemberNums ctor" for m
      using that cell[OF _ bit, of SuperCell] d(2) by (simp add: IsMaybeUninitedMember_def IsTrueAt_def slot_def)
    show "\<exists>d. entrySets r b = Some d \<and>
       (\<forall>v \<in> dom (map_of amap). IsMaybeUninitedAllocation amap d v = Some (\<exists>U. arrives P ctor ?e b U \<and> VarCell v \<in> U)) \<and>
       (\<forall>m \<in> {superMemberNums ctor ..< superMemberNums ctor + localMemberNums ctor}.
          IsMaybeUninitedMember ctor d m = (if \<exists>U. arrives P ctor ?e b U \<and> MemberCell m \<in> U then LOCAL_MEMBER else NA_MEMBER)) \<and>
       (superClassDef ctor \<noteq> None \<longrightarrow> (\<forall>m < superMemberNums ctor.
          IsMaybeUninitedMember ctor d m = (if \<exists>U. arrives P ctor ?e b U \<and> SuperCell \<in> U then SUPER_MEMBER else NA_MEMBER)))"
      using d(1) var mem super by blast
  qed
qed

lemma MaybeUninit_exact_witness:
  "\<exists>r d. IterateToFixpoint loop_program (MaybeUninitAnalysis loop_program no_ctor [(1, 0)] 1) () = Some (Some r) \<and>
     entrySets r 3 = Some d \<and>
     IsMaybeUninitedAllocation [(1, 0)] d 1 = Some (\<exists>U. arrives loop_program no_ctor 0 3 U \<and> VarCell 1 \<in> U)"
proof -
  have "\<not> SkipAnalysis loop_program" "\<not> UNREACHABLE (blk loop_program (EntryBlock \<lparr>EntryBlock = 0, GroupBlocks = [0, 1, 2, 3]\<rparr>))"
    by code_simp+
  from MaybeUninit_exact[OF loop_program_closed this loop_program_members]
  show ?thesis using loop_program_ctor loop_program_reachable by fastforce
qed

text \<open>The same for \<open>MaybeInitAnalysis\<close>: at each block a variable or a member may be initialised if
  and only if some path from the entry to the block initialises it.\<close>

theorem MaybeInit_exact:
  assumes program: "closed_program P g" "\<not> SkipAnalysis P" "\<not> UNREACHABLE (blk P (EntryBlock g))"
    and members: "InitAnalysisMembers P g ctor = Some (amap, n)"
    and ctor: "\<forall>b \<in> reachable P (EntryBlock g). \<forall>x \<in> set (Exprs (blk P b)). ctor_expr P ctor x"
  shows "\<exists>r. IterateToFixpoint P (MaybeInitAnalysis P ctor amap n) () = Some (Some r) \<and>
    (\<forall>b \<in> reachable P (EntryBlock g). \<exists>d. entrySets r b = Some d \<and>
       (\<forall>v \<in> dom (map_of amap). IsMaybeInitedAllocation amap d v =
          Some (\<exists>U. arrives P ctor (EntryBlock g) b U \<and> VarCell v \<notin> U)) \<and>
       (\<forall>m \<in> {superMemberNums ctor ..< superMemberNums ctor + localMemberNums ctor}.
          IsMaybeInitedMember ctor d m = (if \<exists>U. arrives P ctor (EntryBlock g) b U \<and> MemberCell m \<notin> U
            then LOCAL_MEMBER else NA_MEMBER)))"
proof -
  let ?e = "EntryBlock g"
  note l = InitAnalysisMembers_layout[OF members] and e = reachable_entry[OF program(3)]
  obtain r where r: "IterateToFixpoint P (MaybeInitAnalysis P ctor amap n) () = Some (Some r)" and
    bits: "\<forall>b \<in> reachable P ?e. \<exists>d. entrySets r b = Some d \<and> length (states d) = n \<and>
       (\<forall>i < n. states d ! i \<longleftrightarrow> bit_path P (MI_effect P ctor amap n) i ?e False b True)"
    using MI_result[OF program(1,2)] by blast
  have cell: "states d ! i \<longleftrightarrow> (\<exists>U. arrives P ctor ?e b U \<and> c \<notin> U)"
    if "slot ctor amap n c = Some i" "\<forall>i < n. states d ! i \<longleftrightarrow> bit_path P (MI_effect P ctor amap n) i ?e False b True" for b c d i
    using that uninit_bit(2)[OF l that(1) e ctor, of b] slot_bound[OF l that(1)] by simp
  show ?thesis
  proof (intro exI[of _ r] conjI ballI r)
    fix b assume "b \<in> reachable P ?e"
    then obtain d where d: "entrySets r b = Some d"
      and bit: "\<forall>i < n. states d ! i \<longleftrightarrow> bit_path P (MI_effect P ctor amap n) i ?e False b True" using bits by blast
    have var: "IsMaybeInitedAllocation amap d v = Some (\<exists>U. arrives P ctor ?e b U \<and> VarCell v \<notin> U)"
      if "v \<in> dom (map_of amap)" for v
      using that cell[OF _ bit, of "VarCell v"] by (auto simp: IsMaybeInitedAllocation_def IsTrueAt_def slot_def)
    have mem: "IsMaybeInitedMember ctor d m = (if \<exists>U. arrives P ctor ?e b U \<and> MemberCell m \<notin> U then LOCAL_MEMBER else NA_MEMBER)"
      if "m \<in> {superMemberNums ctor ..< superMemberNums ctor + localMemberNums ctor}" for m
      using that cell[OF _ bit, of "MemberCell m"] by (simp add: IsMaybeInitedMember_def IsTrueAt_def slot_def)
    show "\<exists>d. entrySets r b = Some d \<and>
       (\<forall>v \<in> dom (map_of amap). IsMaybeInitedAllocation amap d v = Some (\<exists>U. arrives P ctor ?e b U \<and> VarCell v \<notin> U)) \<and>
       (\<forall>m \<in> {superMemberNums ctor ..< superMemberNums ctor + localMemberNums ctor}.
          IsMaybeInitedMember ctor d m = (if \<exists>U. arrives P ctor ?e b U \<and> MemberCell m \<notin> U then LOCAL_MEMBER else NA_MEMBER))"
      using d var mem by blast
  qed
qed

lemma MaybeInit_exact_witness:
  "\<exists>r d. IterateToFixpoint loop_program (MaybeInitAnalysis loop_program no_ctor [(1, 0)] 1) () = Some (Some r) \<and>
     entrySets r 3 = Some d \<and>
     IsMaybeInitedAllocation [(1, 0)] d 1 = Some (\<exists>U. arrives loop_program no_ctor 0 3 U \<and> VarCell 1 \<notin> U)"
proof -
  have "\<not> SkipAnalysis loop_program" "\<not> UNREACHABLE (blk loop_program (EntryBlock \<lparr>EntryBlock = 0, GroupBlocks = [0, 1, 2, 3]\<rparr>))"
    by code_simp+
  from MaybeInit_exact[OF loop_program_closed this loop_program_members]
  show ?thesis using loop_program_ctor loop_program_reachable by fastforce
qed


end
