(* ===== verification/ReachDefs.thy ===== *)
theory ReachDefs
  imports Engine
begin

section \<open>Reaching definitions\<close>

text \<open>
  \<open>FlatSet.h\<close>, \<open>VectorJoin\<close> and \<open>GetLambdaCapturedVarsRecursively\<close> of \<open>Utils\<close>, and
  \<open>ReachingDefinitionAnalysis\<close>: for each tracked variable the store whose value it holds and the load
  whose result it still equals. A \<open>Store*\<close> or \<open>Load*\<close> is the identifier of the expression.
\<close>

subsection \<open>Flat sets\<close>

datatype 'a FlatSet = FS_Bottom | FS_Elem 'a | FS_Top

fun FS_Join :: "'a FlatSet \<Rightarrow> 'a FlatSet \<Rightarrow> 'a FlatSet \<times> bool" where
  "FS_Join x y =
     (if x = FS_Top \<or> y = FS_Bottom then (x, False)
      else if y = FS_Top then (FS_Top, True)
      else if x = FS_Bottom then (y, True)
      else if x = y then (x, False)
      else (FS_Top, True))"

definition FS_SetToBound :: "bool \<Rightarrow> 'a FlatSet" where
  "FS_SetToBound isTop = (if isTop then FS_Top else FS_Bottom)"

definition FS_GetElem :: "'a FlatSet \<Rightarrow> 'a option" where
  "FS_GetElem x = (case x of FS_Elem e \<Rightarrow> Some e | _ \<Rightarrow> None)"

definition FS_UpdateElem :: "'a \<Rightarrow> 'a FlatSet" where
  "FS_UpdateElem ele = FS_Elem ele"

text \<open>Two vectors of the same length are joined element by element.\<close>

definition VectorJoin :: "'a FlatSet list \<Rightarrow> 'a FlatSet list \<Rightarrow> 'a FlatSet list \<times> bool" where
  "VectorJoin lhs rhs =
     (map (\<lambda>i. fst (FS_Join (lhs ! i) (rhs ! i))) [0..<length lhs],
      list_ex (\<lambda>i. snd (FS_Join (lhs ! i) (rhs ! i))) [0..<length lhs])"

subsection \<open>Types, roots and captured variables\<close>

fun StripAllRefs :: "Ty \<Rightarrow> Ty" where
  "StripAllRefs (T_Ref t) = StripAllRefs t"
| "StripAllRefs t = t"

text \<open>The definition of a nominal type.\<close>

definition NominalDef :: "Ty \<Rightarrow> nat option" where
  "NominalDef t = (case t of T_Class d \<Rightarrow> Some d | T_Struct d \<Rightarrow> Some d | T_Enum d \<Rightarrow> Some d | _ \<Rightarrow> None)"

text \<open>Whether some member on a path is immutable.\<close>

fun PathReadOnlyFrom :: "('x, 'r) Program_scheme \<Rightarrow> nat \<Rightarrow> nat list \<Rightarrow> bool" where
  "PathReadOnlyFrom P def [] = False"
| "PathReadOnlyFrom P def (i # path) =
     (let member = AllInstanceVars (DefOf P def) ! i
      in if IsImmutable member then True
         else if path = [] then False
         else case NominalDef (StripAllRefs (member_type member)) of
           None \<Rightarrow> False | Some def' \<Rightarrow> PathReadOnlyFrom P def' path)"

definition IsPathToReadOnlyMember :: "('x, 'r) Program_scheme \<Rightarrow> Ty \<Rightarrow> nat list \<Rightarrow> bool" where
  "IsPathToReadOnlyMember P baseTy path = (case NominalDef (StripAllRefs baseTy) of
     None \<Rightarrow> False | Some def \<Rightarrow> if path = [] then False else PathReadOnlyFrom P def path)"

text \<open>A chain of element references has no cycle, so that it is no longer than the table of local
  variables.\<close>

fun RootRef :: "('x, 'r) Program_scheme \<Rightarrow> nat \<Rightarrow> nat \<Rightarrow> nat" where
  "RootRef P 0 v = v"
| "RootRef P (Suc k) v = (case ExprOf P v of
     Some (GetElementRef base path) \<Rightarrow> RootRef P k base
   | Some (GetElementByName loc) \<Rightarrow> RootRef P k loc
   | _ \<Rightarrow> v)"

definition GetRootRefLocation :: "('x, 'r) Program_scheme \<Rightarrow> nat \<Rightarrow> nat" where
  "GetRootRefLocation P v = RootRef P (length (LocalVars P)) v"

text \<open>All expressions of a lambda, those of the lambdas in it included; bodies nest no deeper than
  there are lambdas.\<close>

fun NestedExprs :: "('x, 'r) Program_scheme \<Rightarrow> nat \<Rightarrow> nat \<Rightarrow> 'x Expr list" where
  "NestedExprs P 0 l = []"
| "NestedExprs P (Suc k) l =
     concat (map (\<lambda>bb. concat (map (\<lambda>e. e # (case e of LambdaExpr l' \<Rightarrow> NestedExprs P k l' | _ \<Rightarrow> []))
       (Exprs (blk P bb)))) (GroupBlocks (LambdaBody P l)))"

text \<open>The lambdas that are called from a lambda are visited once each, so that the calls nest no
  deeper than there are lambdas.\<close>

fun CollectRecursively ::
  "('x, 'r) Program_scheme \<Rightarrow> nat \<Rightarrow> nat \<Rightarrow> nat set \<times> nat set \<Rightarrow> nat set \<times> nat set" where
  "CollectRecursively P 0 l acc = acc"
| "CollectRecursively P (Suc k) l (visited, allCapturedVars) =
     (let (visited', vars) = fold (\<lambda>expr (visited, vars). case IsApplyToLambda P expr of
            Some child \<Rightarrow> if child \<notin> visited then CollectRecursively P k child (visited, vars) else (visited, vars)
          | None \<Rightarrow> (visited, vars))
        (NestedExprs P (length (LambdaTable P)) l) (insert l visited, allCapturedVars)
      in (visited', vars \<union> set (filter (\<lambda>v. case TypeOf P v of T_Ref t \<Rightarrow> True | _ \<Rightarrow> False) (CapturedVars P l))))"

definition GetLambdaCapturedVarsRecursively :: "('x, 'r) Program_scheme \<Rightarrow> nat \<Rightarrow> nat set" where
  "GetLambdaCapturedVarsRecursively P lambda =
     snd (CollectRecursively P (Suc (length (LambdaTable P))) lambda ({}, {}))"

subsection \<open>The domain\<close>

record RDDomain =
  rd_live :: bool
  reachingDefs :: "nat FlatSet list"
  reachingLoadDefs :: "nat FlatSet list"

definition RD_new :: "nat \<Rightarrow> RDDomain" where
  "RD_new n = \<lparr>rd_live = False, reachingDefs = replicate n FS_Bottom, reachingLoadDefs = replicate n FS_Bottom\<rparr>"

definition RD_IsBottom :: "RDDomain \<Rightarrow> bool" where
  "RD_IsBottom d \<longleftrightarrow> \<not> rd_live d"

definition RD_Join :: "RDDomain \<Rightarrow> RDDomain \<Rightarrow> RDDomain \<times> bool" where
  "RD_Join d rhs =
     (let (defs, res1) = VectorJoin (reachingDefs d) (reachingDefs rhs);
          (loads, res2) = VectorJoin (reachingLoadDefs d) (reachingLoadDefs rhs)
      in (\<lparr>rd_live = True, reachingDefs = defs, reachingLoadDefs = loads\<rparr>, res1 \<or> res2))"

definition CheckReachingDef :: "(nat \<times> nat) list \<Rightarrow> RDDomain \<Rightarrow> nat \<Rightarrow> nat option" where
  "CheckReachingDef allocateIdxMap d location = (case map_of allocateIdxMap location of
     Some i \<Rightarrow> FS_GetElem (reachingDefs d ! i) | None \<Rightarrow> None)"

definition CheckReachingLoadDef :: "(nat \<times> nat) list \<Rightarrow> RDDomain \<Rightarrow> nat \<Rightarrow> nat option" where
  "CheckReachingLoadDef allocateIdxMap d location = (case map_of allocateIdxMap location of
     Some i \<Rightarrow> FS_GetElem (reachingLoadDefs d ! i) | None \<Rightarrow> None)"

subsection \<open>The analysis\<close>

definition CanBeTracked :: "('x, 'r) Program_scheme \<Rightarrow> Ty \<Rightarrow> bool" where
  "CanBeTracked P allocatedTy = (case allocatedTy of
     T_Class d \<Rightarrow> False
   | T_VArray \<Rightarrow> False
   | T_Struct d \<Rightarrow> \<not> IsCStruct (DefOf P d)
   | T_Generic \<Rightarrow> False
   | _ \<Rightarrow> True)"

text \<open>The constructor's loop: the blocks of a lambda are put at the end of its worklist.\<close>

definition TrackExpr ::
  "('x, 'r) Program_scheme \<Rightarrow> 'x Expr \<Rightarrow> nat list \<times> nat \<times> (nat \<times> nat) list \<Rightarrow> nat list \<times> nat \<times> (nat \<times> nat) list" where
  "TrackExpr P expr = (\<lambda>(blocks, allocateIdx, allocateIdxMap). case expr of
     Allocate res allocatedTy dbg exc \<Rightarrow>
       if CanBeTracked P allocatedTy then (blocks, Suc allocateIdx,
         if map_of allocateIdxMap res = None then allocateIdxMap @ [(res, allocateIdx)] else allocateIdxMap)
       else (blocks, allocateIdx, allocateIdxMap)
   | LambdaExpr l \<Rightarrow> (blocks @ GroupBlocks (LambdaBody P l), allocateIdx, allocateIdxMap)
   | _ \<Rightarrow> (blocks, allocateIdx, allocateIdxMap))"

partial_function (option) TrackAllocations ::
  "('x, 'r) Program_scheme \<Rightarrow> nat list \<Rightarrow> nat \<Rightarrow> (nat \<times> nat) list \<Rightarrow> (nat \<times> nat) list option" where
  "TrackAllocations P blocks allocateIdx allocateIdxMap = (case blocks of
     [] \<Rightarrow> Some allocateIdxMap
   | bb # rest \<Rightarrow>
       (case fold (TrackExpr P) (Exprs (blk P bb)) (rest, allocateIdx, allocateIdxMap) of
          (blocks', allocateIdx', allocateIdxMap') \<Rightarrow> TrackAllocations P blocks' allocateIdx' allocateIdxMap'))"

declare TrackAllocations.simps [code]

definition RD_InitializeFuncEntryState :: "RDDomain \<Rightarrow> RDDomain" where
  "RD_InitializeFuncEntryState state = state\<lparr>rd_live := True,
     reachingDefs := replicate (length (reachingDefs state)) (FS_SetToBound True),
     reachingLoadDefs := replicate (length (reachingLoadDefs state)) (FS_SetToBound True)\<rparr>"

definition KillAt :: "nat \<Rightarrow> RDDomain \<Rightarrow> RDDomain" where
  "KillAt i state = state\<lparr>reachingDefs := (reachingDefs state)[i := FS_SetToBound True],
     reachingLoadDefs := (reachingLoadDefs state)[i := FS_SetToBound True]\<rparr>"

definition KillTrackedReachingDefs :: "(nat \<times> nat) list \<Rightarrow> RDDomain \<Rightarrow> nat \<Rightarrow> RDDomain" where
  "KillTrackedReachingDefs allocateIdxMap state location = (case map_of allocateIdxMap location of
     Some i \<Rightarrow> KillAt i state | None \<Rightarrow> state)"

text \<open>The captured variables come in no particular order; the state has room for one kill each.\<close>

definition RD_HandleVarStateCapturedByLambda ::
  "('x, 'r) Program_scheme \<Rightarrow> (nat \<times> nat) list \<Rightarrow> RDDomain \<Rightarrow> nat \<Rightarrow> RDDomain" where
  "RD_HandleVarStateCapturedByLambda P allocateIdxMap state lambda =
     fold (\<lambda>(var, i) s. if var \<in> GetLambdaCapturedVarsRecursively P lambda
         then KillTrackedReachingDefs allocateIdxMap s var else s) allocateIdxMap state"

definition KillTrackedStructReachingDefs ::
  "('x, 'r) Program_scheme \<Rightarrow> (nat \<times> nat) list \<Rightarrow> RDDomain \<Rightarrow> nat \<Rightarrow> RDDomain" where
  "KillTrackedStructReachingDefs P allocateIdxMap state location = (case TypeOf P location of
     T_Ref (T_Struct d) \<Rightarrow> KillTrackedReachingDefs allocateIdxMap state location | _ \<Rightarrow> state)"

definition RD_HandleStoreExpr :: "(nat \<times> nat) list \<Rightarrow> RDDomain \<Rightarrow> nat \<Rightarrow> nat \<Rightarrow> RDDomain" where
  "RD_HandleStoreExpr allocateIdxMap state store target = (case map_of allocateIdxMap target of
     Some i \<Rightarrow> state\<lparr>reachingDefs := (reachingDefs state)[i := FS_UpdateElem store],
       reachingLoadDefs := (reachingLoadDefs state)[i := FS_SetToBound True]\<rparr>
   | None \<Rightarrow> state)"

definition RD_HandleLoadExpr :: "(nat \<times> nat) list \<Rightarrow> RDDomain \<Rightarrow> nat \<Rightarrow> nat \<Rightarrow> RDDomain" where
  "RD_HandleLoadExpr allocateIdxMap state load target = (case map_of allocateIdxMap target of
     Some i \<Rightarrow> if reachingLoadDefs state ! i = FS_Top
       then state\<lparr>reachingLoadDefs := (reachingLoadDefs state)[i := FS_UpdateElem load]\<rparr> else state
   | None \<Rightarrow> state)"

definition RD_HandleApplyExpr ::
  "('x, 'r) Program_scheme \<Rightarrow> (nat \<times> nat) list \<Rightarrow> RDDomain \<Rightarrow> nat \<Rightarrow> nat list \<Rightarrow> RDDomain" where
  "RD_HandleApplyExpr P allocateIdxMap state callee args = (case FuncOf P callee of
     None \<Rightarrow> state
   | Some f \<Rightarrow> if \<not> IsMemberFunc f \<or> IsStatic f then state
       else KillTrackedStructReachingDefs P allocateIdxMap state (GetRootRefLocation P (hd args)))"

definition RD_HandleIntrinsicExpr ::
  "('x, 'r) Program_scheme \<Rightarrow> (nat \<times> nat) list \<Rightarrow> RDDomain \<Rightarrow> bool \<Rightarrow> nat list \<Rightarrow> RDDomain" where
  "RD_HandleIntrinsicExpr P allocateIdxMap state isInout args =
     (if isInout then KillTrackedReachingDefs allocateIdxMap state (GetRootRefLocation P (hd args)) else state)"

definition RD_HandleGetElemRefExpr ::
  "('x, 'r) Program_scheme \<Rightarrow> (nat \<times> nat) list \<Rightarrow> RDDomain \<Rightarrow> nat \<Rightarrow> nat list \<Rightarrow> RDDomain" where
  "RD_HandleGetElemRefExpr P allocateIdxMap state base path =
     (if IsPathToReadOnlyMember P (TypeOf P base) path then state
      else KillTrackedStructReachingDefs P allocateIdxMap state (GetRootRefLocation P base))"

definition RD_HandleStoreElemRefExpr ::
  "('x, 'r) Program_scheme \<Rightarrow> (nat \<times> nat) list \<Rightarrow> RDDomain \<Rightarrow> nat \<Rightarrow> RDDomain" where
  "RD_HandleStoreElemRefExpr P allocateIdxMap state base =
     KillTrackedStructReachingDefs P allocateIdxMap state (GetRootRefLocation P base)"

definition RD_PropagateExpressionEffect ::
  "('x, 'r) Program_scheme \<Rightarrow> (nat \<times> nat) list \<Rightarrow> RDDomain \<Rightarrow> 'x Expr \<Rightarrow> RDDomain" where
  "RD_PropagateExpressionEffect P amap state expression = (case expression of
     Store s loc line \<Rightarrow> RD_HandleStoreExpr amap state s loc
   | GetElementRef base path \<Rightarrow> RD_HandleGetElemRefExpr P amap state base path
   | StoreElementRef base path line \<Rightarrow> RD_HandleStoreElemRefExpr P amap state base
   | Apply k callee args s \<Rightarrow> if k = APPLY then RD_HandleApplyExpr P amap state callee args else state
   | Intrinsic isInout args \<Rightarrow> RD_HandleIntrinsicExpr P amap state isInout args
   | Load l loc \<Rightarrow> RD_HandleLoadExpr amap state l loc
   | _ \<Rightarrow> state)"

definition RD_PropagateTerminatorEffect ::
  "('x, 'r) Program_scheme \<Rightarrow> (nat \<times> nat) list \<Rightarrow> RDDomain \<Rightarrow> 'x Expr \<Rightarrow> RDDomain \<times> nat option" where
  "RD_PropagateTerminatorEffect P amap state terminator = (case terminator of
     Apply k callee args s \<Rightarrow> (RD_HandleApplyExpr P amap state callee args, None)
   | Intrinsic isInout args \<Rightarrow> (RD_HandleIntrinsicExpr P amap state isInout args, None)
   | _ \<Rightarrow> (state, None))"

definition ReachingDefinitionAnalysis ::
  "('x, 'r) Program_scheme \<Rightarrow> (nat \<times> nat) list \<Rightarrow> ('x, RDDomain, unit) Analysis" where
  "ReachingDefinitionAnalysis P amap =
     (default_analysis (RD_new (length amap)) RD_IsBottom RD_Join)
       \<lparr>InitializeFuncEntryState := RD_InitializeFuncEntryState,
        HandleVarStateCapturedByLambda := RD_HandleVarStateCapturedByLambda P amap,
        PropagateExpressionEffect := RD_PropagateExpressionEffect P amap,
        PropagateTerminatorEffect := RD_PropagateTerminatorEffect P amap\<rparr>"

end
