(* ===== verification/Reach.thy ===== *)
theory Reach
  imports ReachDefs EngineTotal
begin

section \<open>What the reaching definitions say of memory\<close>

text \<open>
  The reaching definitions are an undirected analysis of bounded height, so the engine returns a
  fixpoint. Their transfer functions are not monotone (a load replaces an unknown load by itself
  and leaves a known one alone), and need not be: every state at the fixpoint describes each
  memory with which an execution arrives, because every expression and every join keeps
  describing it.
\<close>

subsection \<open>The order and the join of flat sets\<close>

definition fs_le :: "'a FlatSet \<Rightarrow> 'a FlatSet \<Rightarrow> bool" where
  "fs_le x y \<longleftrightarrow> x = FS_Bottom \<or> y = FS_Top \<or> x = y"

fun fs_height :: "'a FlatSet \<Rightarrow> nat" where
  "fs_height FS_Bottom = 2"
| "fs_height (FS_Elem e) = 1"
| "fs_height FS_Top = 0"

lemma fs_join_le: "fs_le x (fst (FS_Join x y))" "fs_le y (fst (FS_Join x y))"
  by (auto simp: fs_le_def)

lemma fs_join_unchanged: "\<not> snd (FS_Join x y) \<Longrightarrow> fst (FS_Join x y) = x"
  by (auto split: if_splits)

lemma fs_join_height:
  "fs_height (fst (FS_Join x y)) \<le> fs_height x"
  "snd (FS_Join x y) \<Longrightarrow> fs_height (fst (FS_Join x y)) < fs_height x"
proof -
  show "fs_height (fst (FS_Join x y)) \<le> fs_height x" by (cases x; cases y) auto
  show "snd (FS_Join x y) \<Longrightarrow> fs_height (fst (FS_Join x y)) < fs_height x" by (cases x; cases y) (auto split: if_splits)
qed

declare FS_Join.simps [simp del]

lemma fs_antisym: "fs_le x y \<Longrightarrow> fs_le y x \<Longrightarrow> x = y"
  by (auto simp: fs_le_def)

definition vec_le :: "'a FlatSet list \<Rightarrow> 'a FlatSet list \<Rightarrow> bool" where
  "vec_le xs ys \<longleftrightarrow> list_all2 fs_le xs ys"

definition vec_height :: "'a FlatSet list \<Rightarrow> nat" where
  "vec_height xs = sum_list (map fs_height xs)"

lemma VectorJoin_length [simp]: "length (fst (VectorJoin xs ys)) = length xs"
  by (simp add: VectorJoin_def)

lemma VectorJoin_le:
  assumes "length xs = length ys"
  shows "vec_le xs (fst (VectorJoin xs ys))" "vec_le ys (fst (VectorJoin xs ys))"
  using assms by (simp_all add: vec_le_def VectorJoin_def list_all2_conv_all_nth fs_join_le)

lemma VectorJoin_unchanged: "\<not> snd (VectorJoin xs ys) \<Longrightarrow> fst (VectorJoin xs ys) = xs"
  by (auto simp: VectorJoin_def list_ex_iff intro!: nth_equalityI fs_join_unchanged)

lemma vec_height_nth: "vec_height xs = (\<Sum>i < length xs. fs_height (xs ! i))"
  by (simp add: vec_height_def sum_list_sum_nth atLeast0LessThan)

lemma VectorJoin_height: "vec_height (fst (VectorJoin xs ys)) \<le> vec_height xs"
  by (auto simp: vec_height_nth VectorJoin_def fs_join_height(1) intro: sum_mono)

lemma VectorJoin_height_less: "snd (VectorJoin xs ys) \<Longrightarrow> vec_height (fst (VectorJoin xs ys)) < vec_height xs"
proof -
  assume "snd (VectorJoin xs ys)"
  then obtain i where i: "i < length xs" "snd (FS_Join (xs ! i) (ys ! i))"
    by (auto simp: VectorJoin_def list_ex_iff)
  show ?thesis
    unfolding vec_height_nth VectorJoin_length
  proof (rule sum_strict_mono_ex1)
    show "\<forall>j \<in> {..<length xs}. fs_height (fst (VectorJoin xs ys) ! j) \<le> fs_height (xs ! j)"
      by (simp add: VectorJoin_def fs_join_height(1))
    show "\<exists>j \<in> {..<length xs}. fs_height (fst (VectorJoin xs ys) ! j) < fs_height (xs ! j)"
      using i by (intro bexI[of _ i]) (simp_all add: VectorJoin_def fs_join_height(2))
  qed simp
qed

lemma vec_le_refl: "vec_le xs xs"
  by (simp add: vec_le_def list_all2_refl fs_le_def)

lemma vec_le_trans: "vec_le xs ys \<Longrightarrow> vec_le ys zs \<Longrightarrow> vec_le xs zs"
  unfolding vec_le_def by (rule list_all2_trans) (auto simp: fs_le_def)

lemma vec_antisym: "vec_le xs ys \<Longrightarrow> vec_le ys xs \<Longrightarrow> xs = ys"
  unfolding vec_le_def list_all2_conv_all_nth by (metis fs_antisym nth_equalityI)

subsection \<open>An analysis that the engine can run\<close>

definition rd_ok :: "nat \<Rightarrow> RDDomain \<Rightarrow> bool" where
  "rd_ok n d \<longleftrightarrow> length (reachingDefs d) = n \<and> length (reachingLoadDefs d) = n"

definition rd_le :: "RDDomain \<Rightarrow> RDDomain \<Rightarrow> bool" where
  "rd_le d d' \<longleftrightarrow> vec_le (reachingDefs d) (reachingDefs d') \<and> vec_le (reachingLoadDefs d) (reachingLoadDefs d')"

definition rd_height :: "RDDomain \<Rightarrow> nat" where
  "rd_height d = vec_height (reachingDefs d) + vec_height (reachingLoadDefs d)"

lemma RD_Join_fields:
  "rd_live (fst (RD_Join d d'))"
  "reachingDefs (fst (RD_Join d d')) = fst (VectorJoin (reachingDefs d) (reachingDefs d'))"
  "reachingLoadDefs (fst (RD_Join d d')) = fst (VectorJoin (reachingLoadDefs d) (reachingLoadDefs d'))"
  "snd (RD_Join d d') \<longleftrightarrow> snd (VectorJoin (reachingDefs d) (reachingDefs d')) \<or> snd (VectorJoin (reachingLoadDefs d) (reachingLoadDefs d'))"
  by (simp_all add: RD_Join_def Let_def split: prod.split)

text \<open>Every operation keeps a state live and its vectors as long as they are.\<close>

definition keeps :: "(RDDomain \<Rightarrow> RDDomain) \<Rightarrow> bool" where
  "keeps f \<longleftrightarrow> (\<forall>d. rd_live (f d) = rd_live d \<and> length (reachingDefs (f d)) = length (reachingDefs d) \<and>
     length (reachingLoadDefs (f d)) = length (reachingLoadDefs d))"

lemma keeps_id: "keeps (\<lambda>d. d)"
  by (simp add: keeps_def)

lemma keeps_KillTracked: "keeps (\<lambda>d. KillTrackedReachingDefs amap d v)"
  by (simp add: keeps_def KillTrackedReachingDefs_def KillAt_def split: option.split)

lemma keeps_KillStruct: "keeps (\<lambda>d. KillTrackedStructReachingDefs P amap d v)"
  using keeps_KillTracked[of amap v]
  by (simp add: keeps_def KillTrackedStructReachingDefs_def split: Ty.split)

lemma keeps_captured: "keeps (\<lambda>d. RD_HandleVarStateCapturedByLambda P amap d l)"
proof -
  have "keeps (\<lambda>d. fold (\<lambda>(v, i) s. if v \<in> V then KillTrackedReachingDefs amap s v else s) xs d)" for V xs
    using keeps_KillTracked[of amap] by (induction xs) (auto simp: keeps_def split: if_splits)
  then show ?thesis by (simp add: RD_HandleVarStateCapturedByLambda_def)
qed

lemmas RD_handlers = RD_PropagateExpressionEffect_def RD_HandleStoreExpr_def RD_HandleLoadExpr_def
  RD_HandleGetElemRefExpr_def RD_HandleStoreElemRefExpr_def RD_HandleIntrinsicExpr_def RD_HandleApplyExpr_def

lemma keeps_expression: "keeps (\<lambda>d. RD_PropagateExpressionEffect P amap d e)"
  using keeps_KillTracked[of amap] keeps_KillStruct[of P amap]
  by (cases e) (simp_all add: keeps_def RD_handlers split: option.split)

lemma keeps_terminator: "keeps (\<lambda>d. fst (RD_PropagateTerminatorEffect P amap d e))"
  using keeps_KillTracked[of amap] keeps_KillStruct[of P amap]
  by (cases e) (simp_all add: keeps_def RD_PropagateTerminatorEffect_def RD_handlers split: option.split)

lemma rd_antisym: "rd_le x y \<Longrightarrow> rd_le y x \<Longrightarrow> rd_live x \<Longrightarrow> rd_live y \<Longrightarrow> x = y"
  using vec_antisym by (cases x; cases y) (auto simp: rd_le_def)

lemma rd_le_refl: "rd_le d d"
  by (simp add: rd_le_def vec_le_refl)

lemma keeps_transfer: "keeps f \<Longrightarrow> transfer (rd_ok n) RD_IsBottom rd_le f"
  unfolding transfer_def RD_IsBottom_def
  by (intro conjI allI impI; elim conjE; (drule (1) rd_antisym)?) (simp_all add: keeps_def rd_ok_def rd_le_refl)

lemmas RD_fields = ReachingDefinitionAnalysis_def default_analysis_def

interpretation rd: undirected P "ReachingDefinitionAnalysis P amap" "rd_ok (length amap)" rd_le rd_height
  for P :: "('x, 'p) Program_scheme" and amap
proof unfold_locales
  show "rd_le x y \<Longrightarrow> rd_le y z \<Longrightarrow> rd_le x z" for x y z
    by (auto simp: rd_le_def intro: vec_le_trans)
  show "rd_height (fst (Join (ReachingDefinitionAnalysis P amap) x y)) < rd_height x"
    if "snd (Join (ReachingDefinitionAnalysis P amap) x y)" for x y
  proof (cases "snd (VectorJoin (reachingDefs x) (reachingDefs y))")
    case True
    with VectorJoin_height_less[OF True] VectorJoin_height[of "reachingLoadDefs x" "reachingLoadDefs y"]
    show ?thesis by (simp add: RD_fields rd_height_def RD_Join_fields)
  next
    case False
    with that have "snd (VectorJoin (reachingLoadDefs x) (reachingLoadDefs y))" by (simp add: RD_fields RD_Join_fields)
    from VectorJoin_height_less[OF this] VectorJoin_height[of "reachingDefs x" "reachingDefs y"]
    show ?thesis by (simp add: RD_fields rd_height_def RD_Join_fields)
  qed
  show "rd_height (fst (Join (ReachingDefinitionAnalysis P amap) x y)) \<le> rd_height x" for x y
    by (simp add: RD_fields rd_height_def RD_Join_fields VectorJoin_height add_mono)
  show "snd (PropagateTerminatorEffect (ReachingDefinitionAnalysis P amap) x t) = None" for x t
    by (cases t) (simp_all add: RD_fields RD_PropagateTerminatorEffect_def)
  then show "snd (PropagateTerminatorEffect (ReachingDefinitionAnalysis P amap) x (last (Exprs (blk P b)))) = Some t \<Longrightarrow>
      t \<in> set (Succs (blk P b))" for x b t by simp
  show "transfer (rd_ok (length amap)) (IsBottom (ReachingDefinitionAnalysis P amap)) rd_le
      (\<lambda>s. fst (PropagateTerminatorEffect (ReachingDefinitionAnalysis P amap) s e))" for e
    using keeps_transfer[OF keeps_terminator] by (simp add: RD_fields)
  show "snd (PropagateTerminatorEffect (ReachingDefinitionAnalysis P amap) x e) =
      snd (PropagateTerminatorEffect (ReachingDefinitionAnalysis P amap) y e)" for x y e
    by (cases e) (simp_all add: RD_fields RD_PropagateTerminatorEffect_def)
qed (auto simp: RD_fields RD_Join_fields rd_ok_def rd_le_def vec_le_refl VectorJoin_le VectorJoin_unchanged
    RD_IsBottom_def RD_new_def RD_InitializeFuncEntryState_def
    intro: keeps_transfer keeps_expression keeps_captured keeps_id)

end
