(* ===== verification/ReachTheorems.thy ===== *)
theory ReachTheorems
  imports Reach
begin

section \<open>The reaching definitions are sound\<close>

text \<open>
  An execution of a function as the analysis sees it: the memory of its variables, the value that
  each store wrote when it last ran, and the value that each load read. \<open>writes\<close> are the variables
  that an expression may change other than by a plain store: through the member references it
  makes or stores to, in a member function called on them, as an argument of \<open>inout\<close>, or in
  a lambda that captures them. An \<open>Allocate\<close> leaves the memory as it is: nothing reads a variable
  between its declaration and its first store.
\<close>

record 'v Mem =
  mem :: "nat \<Rightarrow> 'v"
  stored :: "nat \<Rightarrow> 'v"
  loaded :: "nat \<Rightarrow> 'v"

definition struct_root :: "('x, 'r) Program_scheme \<Rightarrow> nat \<Rightarrow> nat set" where
  "struct_root P b = (case TypeOf P (GetRootRefLocation P b) of
     T_Ref (T_Struct d) \<Rightarrow> {GetRootRefLocation P b} | _ \<Rightarrow> {})"

definition callee_writes :: "('x, 'r) Program_scheme \<Rightarrow> nat \<Rightarrow> nat list \<Rightarrow> nat set" where
  "callee_writes P f args = (case FuncOf P f of
     Some i \<Rightarrow> if IsMemberFunc i \<and> \<not> IsStatic i then struct_root P (hd args) else {}
   | None \<Rightarrow> {})"

definition writes :: "('x, 'r) Program_scheme \<Rightarrow> 'x Expr \<Rightarrow> nat set" where
  "writes P e = (case e of
     StoreElementRef b path line \<Rightarrow> struct_root P b
   | GetElementRef b path \<Rightarrow> if IsPathToReadOnlyMember P (TypeOf P b) path then {} else struct_root P b
   | Apply k f args s \<Rightarrow> callee_writes P f args \<union>
       (case IsApplyToLambda P e of Some l \<Rightarrow> GetLambdaCapturedVarsRecursively P l | None \<Rightarrow> {})
   | Intrinsic inout args \<Rightarrow> if inout then {GetRootRefLocation P (hd args)} else {}
   | _ \<Rightarrow> {})"

fun plain_access :: "'x Expr \<Rightarrow> bool" where
  "plain_access (Store s v line) = True"
| "plain_access (Load l v) = True"
| "plain_access e = False"

inductive exec_expr :: "('x, 'r) Program_scheme \<Rightarrow> 'x Expr \<Rightarrow> 'v Mem \<Rightarrow> 'v Mem \<Rightarrow> bool" for P where
  exec_store: "exec_expr P (Store s v line) \<sigma> (\<sigma>\<lparr>mem := (mem \<sigma>)(v := x), stored := (stored \<sigma>)(s := x)\<rparr>)"
| exec_load: "exec_expr P (Load l v) \<sigma> (\<sigma>\<lparr>loaded := (loaded \<sigma>)(l := mem \<sigma> v)\<rparr>)"
| exec_other: "\<not> plain_access e \<Longrightarrow> stored \<sigma>' = stored \<sigma> \<Longrightarrow> loaded \<sigma>' = loaded \<sigma> \<Longrightarrow>
    (\<And>v. v \<notin> writes P e \<Longrightarrow> mem \<sigma>' v = mem \<sigma> v) \<Longrightarrow> exec_expr P e \<sigma> \<sigma>'"

inductive_cases exec_storeE: "exec_expr P (Store s v line) \<sigma> \<sigma>'"
inductive_cases exec_loadE: "exec_expr P (Load l v) \<sigma> \<sigma>'"
inductive_cases exec_exprE: "exec_expr P e \<sigma> \<sigma>'"

fun exec_exprs :: "('x, 'r) Program_scheme \<Rightarrow> 'x Expr list \<Rightarrow> 'v Mem \<Rightarrow> 'v Mem \<Rightarrow> bool" where
  "exec_exprs P [] \<sigma> \<sigma>' = (\<sigma>' = \<sigma>)"
| "exec_exprs P (e # es) \<sigma> \<sigma>' = (\<exists>\<tau>. exec_expr P e \<sigma> \<tau> \<and> exec_exprs P es \<tau> \<sigma>')"

inductive runs :: "('x, 'r) Program_scheme \<Rightarrow> nat \<Rightarrow> nat \<Rightarrow> 'v Mem \<Rightarrow> bool" for P e where
  enters: "runs P e e \<sigma>"
| moves: "runs P e b \<sigma> \<Longrightarrow> exec_exprs P (Exprs (blk P b)) \<sigma> \<sigma>' \<Longrightarrow> (b, c) \<in> edges P \<Longrightarrow> runs P e c \<sigma>'"

subsection \<open>What a state says\<close>

text \<open>The identifiers of stores and loads belong to one location each (\<open>sloc\<close>, \<open>lloc\<close>).\<close>

fun def_holds :: "nat FlatSet \<Rightarrow> nat \<Rightarrow> (nat \<Rightarrow> nat) \<Rightarrow> (nat \<Rightarrow> 'v) \<Rightarrow> 'v \<Rightarrow> bool" where
  "def_holds FS_Bottom v loc vals x = False"
| "def_holds (FS_Elem s) v loc vals x = (loc s = v \<and> x = vals s)"
| "def_holds FS_Top v loc vals x = True"

definition describes ::
  "(nat \<times> nat) list \<Rightarrow> (nat \<Rightarrow> nat) \<Rightarrow> (nat \<Rightarrow> nat) \<Rightarrow> RDDomain \<Rightarrow> 'v Mem \<Rightarrow> bool" where
  "describes amap sloc lloc d \<sigma> \<longleftrightarrow> (\<forall>v i. map_of amap v = Some i \<longrightarrow>
     def_holds (reachingDefs d ! i) v sloc (stored \<sigma>) (mem \<sigma> v) \<and>
     def_holds (reachingLoadDefs d ! i) v lloc (loaded \<sigma>) (mem \<sigma> v))"

text \<open>The map of the constructor gives each tracked variable an index of its own.\<close>

definition indexed :: "(nat \<times> nat) list \<Rightarrow> bool" where
  "indexed amap \<longleftrightarrow> distinct (map fst amap) \<and> map snd amap = [0..<length amap]"

lemma indexed_facts:
  assumes "indexed amap"
  shows "map_of amap v = Some i \<Longrightarrow> i < length amap"
    and "map_of amap v = Some i \<Longrightarrow> map_of amap w = Some i \<Longrightarrow> v = w"
proof -
  have snd: "amap ! k = (fst (amap ! k), k)" if "k < length amap" for k
    using assms that unfolding indexed_def by (metis length_map nth_map nth_upt plus_nat.add_0 surjective_pairing)
  have at: "i < length amap \<and> fst (amap ! i) = v" if "map_of amap v = Some i" for v i
  proof -
    from map_of_SomeD[OF that] obtain k where "k < length amap" "amap ! k = (v, i)" by (metis in_set_conv_nth)
    with snd[of k] show ?thesis by simp
  qed
  then show "map_of amap v = Some i \<Longrightarrow> i < length amap"
    and "map_of amap v = Some i \<Longrightarrow> map_of amap w = Some i \<Longrightarrow> v = w" by blast+
qed

lemma def_holds_mono: "fs_le x y \<Longrightarrow> def_holds x v loc vals m \<Longrightarrow> def_holds y v loc vals m"
  by (cases x; cases y) (auto simp: fs_le_def)

lemma describes_le:
  assumes "indexed amap" "rd_ok (length amap) d" "rd_le d d'" "describes amap sloc lloc d \<sigma>"
  shows "describes amap sloc lloc d' \<sigma>"
  unfolding describes_def
proof (intro allI impI)
  fix v i assume v: "map_of amap v = Some i"
  with assms(2) indexed_facts(1)[OF assms(1)] have "i < length (reachingDefs d)" "i < length (reachingLoadDefs d)"
    by (simp_all add: rd_ok_def)
  with assms(3) have "fs_le (reachingDefs d ! i) (reachingDefs d' ! i)" "fs_le (reachingLoadDefs d ! i) (reachingLoadDefs d' ! i)"
    by (simp_all add: rd_le_def vec_le_def list_all2_conv_all_nth)
  with assms(4) v show "def_holds (reachingDefs d' ! i) v sloc (stored \<sigma>) (mem \<sigma> v) \<and>
      def_holds (reachingLoadDefs d' ! i) v lloc (loaded \<sigma>) (mem \<sigma> v)"
    by (auto simp: describes_def intro: def_holds_mono)
qed

text \<open>Giving up variables: those of \<open>V\<close> are unknown afterwards, the others are as before or unknown.\<close>

definition relaxed :: "(nat \<times> nat) list \<Rightarrow> nat set \<Rightarrow> RDDomain \<Rightarrow> RDDomain \<Rightarrow> bool" where
  "relaxed amap V d d' \<longleftrightarrow> (\<forall>v i. map_of amap v = Some i \<longrightarrow>
     (reachingDefs d' ! i = FS_Top \<or> v \<notin> V \<and> reachingDefs d' ! i = reachingDefs d ! i) \<and>
     (reachingLoadDefs d' ! i = FS_Top \<or> v \<notin> V \<and> reachingLoadDefs d' ! i = reachingLoadDefs d ! i))"

lemma relaxed_describes:
  assumes "relaxed amap V d d'" "describes amap sloc lloc d \<sigma>" "stored \<sigma>' = stored \<sigma>" "loaded \<sigma>' = loaded \<sigma>"
    "\<And>v. v \<notin> V \<Longrightarrow> mem \<sigma>' v = mem \<sigma> v"
  shows "describes amap sloc lloc d' \<sigma>'"
  unfolding describes_def assms(3,4)
proof (intro allI impI)
  fix v i assume v: "map_of amap v = Some i"
  then have d: "def_holds (reachingDefs d ! i) v sloc (stored \<sigma>) (mem \<sigma> v)"
    "def_holds (reachingLoadDefs d ! i) v lloc (loaded \<sigma>) (mem \<sigma> v)" using assms(2) by (auto simp: describes_def)
  from assms(1) v have "reachingDefs d' ! i = FS_Top \<or> v \<notin> V \<and> reachingDefs d' ! i = reachingDefs d ! i"
    "reachingLoadDefs d' ! i = FS_Top \<or> v \<notin> V \<and> reachingLoadDefs d' ! i = reachingLoadDefs d ! i"
    unfolding relaxed_def by blast+
  with d assms(5)[of v] show "def_holds (reachingDefs d' ! i) v sloc (stored \<sigma>) (mem \<sigma>' v) \<and>
      def_holds (reachingLoadDefs d' ! i) v lloc (loaded \<sigma>) (mem \<sigma>' v)" by auto
qed

lemma relaxed_refl: "relaxed amap {} d d"
  by (simp add: relaxed_def)

lemma relaxed_trans: "relaxed amap V d d' \<Longrightarrow> relaxed amap W d' d'' \<Longrightarrow> relaxed amap (V \<union> W) d d''"
  unfolding relaxed_def by (metis Un_iff)

lemma relaxed_weaken:
  assumes "relaxed amap W d d'" "\<And>v i. map_of amap v = Some i \<Longrightarrow> v \<in> V \<Longrightarrow> v \<in> W"
  shows "relaxed amap V d d'"
  unfolding relaxed_def
proof (intro allI impI)
  fix v i assume v: "map_of amap v = Some i"
  with assms(1) show "(reachingDefs d' ! i = FS_Top \<or> v \<notin> V \<and> reachingDefs d' ! i = reachingDefs d ! i) \<and>
     (reachingLoadDefs d' ! i = FS_Top \<or> v \<notin> V \<and> reachingLoadDefs d' ! i = reachingLoadDefs d ! i)"
    using assms(2)[OF v] unfolding relaxed_def by metis
qed

lemma relaxed_KillTracked:
  "indexed amap \<Longrightarrow> rd_ok (length amap) d \<Longrightarrow> relaxed amap {v} d (KillTrackedReachingDefs amap d v)"
  using indexed_facts[of amap]
  by (auto simp: relaxed_def KillTrackedReachingDefs_def KillAt_def FS_SetToBound_def nth_list_update rd_ok_def split: option.split)

lemma relaxed_KillStruct:
  "indexed amap \<Longrightarrow> rd_ok (length amap) d \<Longrightarrow>
   relaxed amap (struct_root P b) d (KillTrackedStructReachingDefs P amap d (GetRootRefLocation P b))"
  by (auto simp: KillTrackedStructReachingDefs_def struct_root_def relaxed_refl relaxed_KillTracked split: Ty.split)

lemma relaxed_captured:
  assumes "indexed amap" "rd_ok (length amap) d"
  shows "relaxed amap (GetLambdaCapturedVarsRecursively P l) d (RD_HandleVarStateCapturedByLambda P amap d l)"
proof -
  let ?V = "GetLambdaCapturedVarsRecursively P l"
  let ?f = "\<lambda>(var, i) s. if var \<in> ?V then KillTrackedReachingDefs amap s var else s"
  have "relaxed amap (?V \<inter> fst ` set xs) d (fold ?f xs d)" if "rd_ok (length amap) d" for xs d
    using that
  proof (induction xs arbitrary: d)
    case Nil
    then show ?case by (simp add: relaxed_refl)
  next
    case (Cons x xs)
    obtain v i where x: "x = (v, i)" by (cases x)
    show ?case
    proof (cases "v \<in> ?V")
      case True
      have "rd_ok (length amap) (KillTrackedReachingDefs amap d v)"
        using keeps_KillTracked[of amap v] Cons.prems by (simp add: keeps_def rd_ok_def)
      from relaxed_trans[OF relaxed_KillTracked[OF assms(1) Cons.prems, of v] Cons.IH[OF this]]
      have "relaxed amap ({v} \<union> ?V \<inter> fst ` set xs) d (fold ?f (x # xs) d)" using True by (simp add: x)
      moreover have "{v} \<union> ?V \<inter> fst ` set xs = ?V \<inter> fst ` set (x # xs)" using True by (auto simp: x)
      ultimately show ?thesis by simp
    qed (use Cons in \<open>simp add: x Int_insert_right\<close>)
  qed
  from this[OF assms(2), of amap] have "relaxed amap (?V \<inter> fst ` set amap) d (RD_HandleVarStateCapturedByLambda P amap d l)"
    by (simp add: RD_HandleVarStateCapturedByLambda_def)
  then show ?thesis
  proof (rule relaxed_weaken)
    show "v \<in> ?V \<inter> fst ` set amap" if "map_of amap v = Some i" "v \<in> ?V" for v i
      using map_of_SomeD[OF that(1)] that(2) by force
  qed
qed

subsection \<open>Each expression keeps the description right\<close>

text \<open>The identifiers of an expression, and that a call that may throw ends its block.\<close>

definition rd_expr :: "(nat \<Rightarrow> nat) \<Rightarrow> (nat \<Rightarrow> nat) \<Rightarrow> 'x Expr \<Rightarrow> bool" where
  "rd_expr sloc lloc e = (case e of Store s v line \<Rightarrow> sloc s = v | Load l v \<Rightarrow> lloc l = v | _ \<Rightarrow> True)"

fun ends_block :: "'x Expr \<Rightarrow> bool" where
  "ends_block (Apply k f args s) = (k = APPLY_WITH_EXCEPTION)"
| "ends_block e = False"

fun may_end :: "'x Expr \<Rightarrow> bool" where
  "may_end (Apply k f args s) = True"
| "may_end (Intrinsic i args) = True"
| "may_end (Allocate v t d x) = True"
| "may_end (OtherExpr x) = True"
| "may_end e = False"

lemma describes_store:
  assumes a: "indexed amap" "rd_ok (length amap) d" and d: "describes amap sloc lloc d \<sigma>" and s: "sloc s = v"
    and e: "exec_expr P (Store s v line) \<sigma> \<sigma>'"
  shows "describes amap sloc lloc (RD_HandleStoreExpr amap d s v) \<sigma>'"
  unfolding describes_def
proof (intro allI impI)
  from e obtain x where \<sigma>': "\<sigma>' = \<sigma>\<lparr>mem := (mem \<sigma>)(v := x), stored := (stored \<sigma>)(s := x)\<rparr>"
    by (auto elim!: exec_storeE)
  fix w i assume w: "map_of amap w = Some i"
  with d have old: "def_holds (reachingDefs d ! i) w sloc (stored \<sigma>) (mem \<sigma> w)"
    "def_holds (reachingLoadDefs d ! i) w lloc (loaded \<sigma>) (mem \<sigma> w)" by (auto simp: describes_def)
  show "def_holds (reachingDefs (RD_HandleStoreExpr amap d s v) ! i) w sloc (stored \<sigma>') (mem \<sigma>' w) \<and>
    def_holds (reachingLoadDefs (RD_HandleStoreExpr amap d s v) ! i) w lloc (loaded \<sigma>') (mem \<sigma>' w)"
  proof (cases "w = v")
    case True
    with w a indexed_facts(1)[OF a(1)] s show ?thesis
      by (simp add: RD_HandleStoreExpr_def FS_UpdateElem_def FS_SetToBound_def \<sigma>' rd_ok_def)
  next
    case False
    have "map_of amap v \<noteq> Some i" using False w indexed_facts(2)[OF a(1), of v i w] by blast
    then have "reachingDefs (RD_HandleStoreExpr amap d s v) ! i = reachingDefs d ! i \<and>
      reachingLoadDefs (RD_HandleStoreExpr amap d s v) ! i = reachingLoadDefs d ! i"
      by (cases "map_of amap v") (simp_all add: RD_HandleStoreExpr_def)
    with old False s show ?thesis
      by (cases "reachingDefs d ! i"; cases "reachingLoadDefs d ! i") (auto simp: \<sigma>')
  qed
qed

lemma describes_load:
  assumes a: "indexed amap" "rd_ok (length amap) d" and d: "describes amap sloc lloc d \<sigma>" and l: "lloc l = v"
    and e: "exec_expr P (Load l v) \<sigma> \<sigma>'"
  shows "describes amap sloc lloc (RD_HandleLoadExpr amap d l v) \<sigma>'"
  unfolding describes_def
proof (intro allI impI)
  from e have \<sigma>': "\<sigma>' = \<sigma>\<lparr>loaded := (loaded \<sigma>)(l := mem \<sigma> v)\<rparr>"
    by (auto elim!: exec_loadE)
  fix w i assume w: "map_of amap w = Some i"
  with d have old: "def_holds (reachingDefs d ! i) w sloc (stored \<sigma>) (mem \<sigma> w)"
    "def_holds (reachingLoadDefs d ! i) w lloc (loaded \<sigma>) (mem \<sigma> w)" by (auto simp: describes_def)
  have defs: "reachingDefs (RD_HandleLoadExpr amap d l v) = reachingDefs d"
    by (simp add: RD_HandleLoadExpr_def split: option.split)
  have load: "reachingLoadDefs (RD_HandleLoadExpr amap d l v) ! i =
      (if w = v \<and> reachingLoadDefs d ! i = FS_Top then FS_Elem l else reachingLoadDefs d ! i)"
    using w a indexed_facts[OF a(1)]
    by (auto simp: RD_HandleLoadExpr_def FS_UpdateElem_def nth_list_update rd_ok_def split: option.split)
  from old l show "def_holds (reachingDefs (RD_HandleLoadExpr amap d l v) ! i) w sloc (stored \<sigma>') (mem \<sigma>' w) \<and>
    def_holds (reachingLoadDefs (RD_HandleLoadExpr amap d l v) ! i) w lloc (loaded \<sigma>') (mem \<sigma>' w)"
    unfolding defs load by (cases "reachingLoadDefs d ! i") (auto simp: \<sigma>')
qed

text \<open>The other expressions give up what they may write.\<close>

lemma relaxed_apply:
  assumes "indexed amap" "rd_ok (length amap) d"
  shows "relaxed amap (callee_writes P f args) d (RD_HandleApplyExpr P amap d f args)"
  using relaxed_KillStruct[OF assms, of P "hd args"]
  by (auto simp: RD_HandleApplyExpr_def callee_writes_def relaxed_refl split: option.split)

lemma relaxed_callee:
  assumes "indexed amap" "rd_ok (length amap) d"
  shows "relaxed amap (case IsApplyToLambda P e of Some l \<Rightarrow> GetLambdaCapturedVarsRecursively P l | None \<Rightarrow> {}) d
     (CapturedByCallee P (ReachingDefinitionAnalysis P amap) d e)"
  using relaxed_captured[OF assms, of P]
  by (cases "IsApplyToLambda P e") (simp_all add: CapturedByCallee_def RD_fields relaxed_refl)

lemma callee_ok: "rd_ok n d \<Longrightarrow> rd_ok n (CapturedByCallee P (ReachingDefinitionAnalysis P amap) d e)"
  using keeps_captured[of P amap]
  by (auto simp: CapturedByCallee_def RD_fields rd_ok_def keeps_def split: option.split)

lemma relaxed_intrinsic:
  assumes "indexed amap" "rd_ok (length amap) d"
  shows "relaxed amap (if inout then {GetRootRefLocation P (hd args)} else {}) d (RD_HandleIntrinsicExpr P amap d inout args)"
  using relaxed_KillTracked[OF assms] by (simp add: RD_HandleIntrinsicExpr_def relaxed_refl)

fun is_call :: "'x Expr \<Rightarrow> bool" where
  "is_call (Apply k f args s) = True"
| "is_call e = False"

lemma callee_other: "\<not> is_call e \<Longrightarrow> CapturedByCallee P an d e = d"
  by (cases e) (simp_all add: CapturedByCallee_def IsApplyToLambda_def)

lemma relaxed_expression:
  assumes a: "indexed amap" "rd_ok (length amap) d" and e: "\<not> plain_access e" "\<not> ends_block e"
  shows "relaxed amap (writes P e) d (SimulatingProcessingSingleExpression P (ReachingDefinitionAnalysis P amap) d e)"
proof (cases e)
  case (Apply k f args s)
  then have "k = APPLY" using e by (cases k) simp_all
  with relaxed_trans[OF relaxed_callee[OF a, of P e] relaxed_apply[OF a(1) callee_ok[OF a(2)], of P f args]]
  show ?thesis by (simp add: Apply SimulatingProcessingSingleExpression_def writes_def RD_fields RD_PropagateExpressionEffect_def Un_commute)
next
  case (Intrinsic inout args)
  with relaxed_intrinsic[OF a, of inout P args] show ?thesis
    by (simp add: callee_other SimulatingProcessingSingleExpression_def writes_def RD_fields RD_PropagateExpressionEffect_def)
qed (use e relaxed_refl relaxed_KillStruct[OF a] in
    \<open>auto simp: callee_other SimulatingProcessingSingleExpression_def writes_def RD_fields RD_PropagateExpressionEffect_def
       RD_HandleGetElemRefExpr_def RD_HandleStoreElemRefExpr_def\<close>)

lemma relaxed_terminator:
  assumes a: "indexed amap" "rd_ok (length amap) d" and e: "may_end e"
  shows "relaxed amap (writes P e) d (fst (PropagateTerminatorEffect (ReachingDefinitionAnalysis P amap)
    (CapturedByCallee P (ReachingDefinitionAnalysis P amap) d e) e))"
proof (cases e)
  case (Apply k f args s)
  with relaxed_trans[OF relaxed_callee[OF a, of P e] relaxed_apply[OF a(1) callee_ok[OF a(2)], of P f args]]
  show ?thesis by (simp add: Apply writes_def RD_fields RD_PropagateTerminatorEffect_def Un_commute)
next
  case (Intrinsic inout args)
  with relaxed_intrinsic[OF a, of inout P args] show ?thesis
    by (simp add: callee_other writes_def RD_fields RD_PropagateTerminatorEffect_def)
qed (use e in \<open>simp_all add: callee_other relaxed_refl writes_def RD_fields RD_PropagateTerminatorEffect_def\<close>)

lemma keeps_single: "keeps (\<lambda>d. SimulatingProcessingSingleExpression P (ReachingDefinitionAnalysis P amap) d e)"
  using keeps_expression[of P amap e] keeps_captured[of P amap]
  by (cases e; cases "IsApplyToLambda P e")
    (simp_all add: SimulatingProcessingSingleExpression_def CapturedByCallee_def RD_fields keeps_def)

lemma single_ok: "rd_ok n d \<Longrightarrow> rd_ok n (SimulatingProcessingSingleExpression P (ReachingDefinitionAnalysis P amap) d e)"
  using keeps_single[of P amap e] by (simp add: keeps_def rd_ok_def)

lemma describes_single:
  assumes a: "indexed amap" "rd_ok (length amap) d" and d: "describes amap sloc lloc d \<sigma>"
    and e: "rd_expr sloc lloc e" "\<not> ends_block e" "exec_expr P e \<sigma> \<sigma>'"
  shows "describes amap sloc lloc (SimulatingProcessingSingleExpression P (ReachingDefinitionAnalysis P amap) d e) \<sigma>'"
proof (cases "plain_access e")
  case True
  then consider s v line where "e = Store s v line" | l v where "e = Load l v" by (cases e) auto
  then show ?thesis
  proof cases
    case 1
    with describes_store[OF a d, of s v P line \<sigma>'] e show ?thesis
      by (simp add: SimulatingProcessingSingleExpression_def callee_other RD_fields RD_PropagateExpressionEffect_def rd_expr_def)
  next
    case 2
    with describes_load[OF a d, of l v P \<sigma>'] e show ?thesis
      by (simp add: SimulatingProcessingSingleExpression_def callee_other RD_fields RD_PropagateExpressionEffect_def rd_expr_def)
  qed
next
  case False
  with e(3) have "stored \<sigma>' = stored \<sigma>" "loaded \<sigma>' = loaded \<sigma>" "\<And>v. v \<notin> writes P e \<Longrightarrow> mem \<sigma>' v = mem \<sigma> v"
    by (auto elim!: exec_exprE)
  then show ?thesis by (rule relaxed_describes[OF relaxed_expression[OF a False e(2)] d])
qed

lemma describes_body:
  assumes a: "indexed amap"
  shows "rd_ok (length amap) d \<Longrightarrow> describes amap sloc lloc d \<sigma> \<Longrightarrow>
   \<forall>e \<in> set es. rd_expr sloc lloc e \<and> \<not> ends_block e \<Longrightarrow> exec_exprs P es \<sigma> \<sigma>' \<Longrightarrow>
   rd_ok (length amap) (fold (\<lambda>e s. SimulatingProcessingSingleExpression P (ReachingDefinitionAnalysis P amap) s e) es d) \<and>
   describes amap sloc lloc (fold (\<lambda>e s. SimulatingProcessingSingleExpression P (ReachingDefinitionAnalysis P amap) s e) es d) \<sigma>'"
proof (induction es arbitrary: d \<sigma>)
  case (Cons e es)
  then obtain \<tau> where \<tau>: "exec_expr P e \<sigma> \<tau>" "exec_exprs P es \<tau> \<sigma>'" by auto
  from describes_single[OF a Cons.prems(1,2) _ _ \<tau>(1)] Cons.prems(3)
  have "describes amap sloc lloc (SimulatingProcessingSingleExpression P (ReachingDefinitionAnalysis P amap) d e) \<tau>" by simp
  from Cons.IH[OF single_ok[OF Cons.prems(1)] this _ \<tau>(2)] Cons.prems(3) show ?case by simp
qed simp

lemma exec_append: "exec_exprs P (es @ fs) \<sigma> \<sigma>' \<longleftrightarrow> (\<exists>\<tau>. exec_exprs P es \<sigma> \<tau> \<and> exec_exprs P fs \<tau> \<sigma>')"
  by (induction es arbitrary: \<sigma>) auto

text \<open>A block as the analysis expects it.\<close>

definition rd_block :: "(nat \<Rightarrow> nat) \<Rightarrow> (nat \<Rightarrow> nat) \<Rightarrow> 'x Expr list \<Rightarrow> bool" where
  "rd_block sloc lloc es \<longleftrightarrow> list_all (\<lambda>e. rd_expr sloc lloc e \<and> \<not> ends_block e) (butlast es) \<and>
     (es = [] \<or> may_end (last es))"

lemma describes_flow:
  assumes a: "indexed amap" "rd_ok (length amap) d" and d: "describes amap sloc lloc d \<sigma>"
    and b: "rd_block sloc lloc (Exprs (blk P b))" "Exprs (blk P b) \<noteq> []" and x: "exec_exprs P (Exprs (blk P b)) \<sigma> \<sigma>'"
  shows "describes amap sloc lloc (fst (BlockFlow P (ReachingDefinitionAnalysis P amap) b d)) \<sigma>'"
proof -
  let ?an = "ReachingDefinitionAnalysis P amap" and ?es = "butlast (Exprs (blk P b))" and ?t = "last (Exprs (blk P b))"
  let ?y = "fold (\<lambda>e s. SimulatingProcessingSingleExpression P ?an s e) ?es d"
  from x b(2) have "exec_exprs P (?es @ [?t]) \<sigma> \<sigma>'" by simp
  then obtain \<tau> where \<tau>: "exec_exprs P ?es \<sigma> \<tau>" "exec_expr P ?t \<tau> \<sigma>'" unfolding exec_append by auto
  have y: "rd_ok (length amap) ?y" "describes amap sloc lloc ?y \<tau>"
    using describes_body[OF a d _ \<tau>(1)] b(1) by (auto simp: rd_block_def list_all_iff)
  have t: "may_end ?t" using b by (simp add: rd_block_def)
  then have "\<not> plain_access ?t" by (cases ?t) simp_all
  with \<tau>(2) have "stored \<sigma>' = stored \<tau>" "loaded \<sigma>' = loaded \<tau>" "\<And>v. v \<notin> writes P ?t \<Longrightarrow> mem \<sigma>' v = mem \<tau> v"
    by (auto elim!: exec_exprE)
  from relaxed_describes[OF relaxed_terminator[OF a(1) y(1) t] y(2) this] show ?thesis
    by (simp add: BlockFlow_def Let_def)
qed

subsection \<open>The map of the tracked variables\<close>

lemma TrackExpr_distinct: "distinct (map fst (snd (snd acc))) \<Longrightarrow> distinct (map fst (snd (snd (TrackExpr P e acc))))"
  by (cases e) (auto simp: TrackExpr_def map_of_eq_None_iff split: prod.split)

lemma TrackExprs_distinct:
  "distinct (map fst (snd (snd acc))) \<Longrightarrow> distinct (map fst (snd (snd (fold (TrackExpr P) es acc))))"
  by (induction es arbitrary: acc) (simp_all add: TrackExpr_distinct)

lemma TrackAllocations_distinct:
  assumes "TrackAllocations P bs i m = Some m'" "distinct (map fst m)"
  shows "distinct (map fst m')"
proof -
  have "distinct (map fst (snd (((P, bs), i), m))) \<longrightarrow> distinct (map fst m')"
  proof (rule TrackAllocations.raw_induct[where Pa = "\<lambda>x y. distinct (map fst (snd x)) \<longrightarrow> distinct (map fst y)", OF _ assms(1)])
    fix track and P :: "('a, 'b) Program_scheme" and bs i m m'
    assume IH: "\<And>P bs i m m'. track P bs i m = Some m' \<Longrightarrow> distinct (map fst (snd (((P, bs), i), m))) \<longrightarrow> distinct (map fst m')"
      and eq: "(case bs of [] \<Rightarrow> Some m
        | bb # rest \<Rightarrow> (case fold (TrackExpr P) (Exprs (blk P bb)) (rest, i, m) of (bs', i', m') \<Rightarrow> track P bs' i' m')) = Some m'"
    show "distinct (map fst (snd (((P, bs), i), m))) \<longrightarrow> distinct (map fst m')"
    proof (cases bs)
      case (Cons bb rest)
      obtain bs1 i1 m1 where f: "fold (TrackExpr P) (Exprs (blk P bb)) (rest, i, m) = (bs1, i1, m1)" by (metis prod_cases3)
      with eq Cons have "track P bs1 i1 m1 = Some m'" by simp
      from IH[OF this] TrackExprs_distinct[of "(rest, i, m)" P "Exprs (blk P bb)"] f show ?thesis by simp
    qed (use eq in simp)
  qed
  with assms(2) show ?thesis by simp
qed

subsection \<open>The theorem\<close>

lemma RD_initial: "describes amap sloc lloc
    (InitializeFuncEntryState (ReachingDefinitionAnalysis P amap) (Bottom (ReachingDefinitionAnalysis P amap))) \<sigma>"
  if "indexed amap"
  using indexed_facts(1)[OF that]
  by (auto simp: describes_def RD_fields RD_InitializeFuncEntryState_def RD_new_def FS_SetToBound_def)

lemma describes_runs:
  assumes a: "indexed amap"
    and blocks: "\<forall>b \<in> reachable P e. rd_block sloc lloc (Exprs (blk P b)) \<and> (GetReachableSuccessors P b \<noteq> [] \<longrightarrow> Exprs (blk P b) \<noteq> [])"
    and fix_point: "\<forall>c \<in> reachable P e. \<exists>d. entry c = Some d \<and> rd_ok (length amap) d \<and> \<not> RD_IsBottom d \<and>
       (c = e \<longrightarrow> rd_le (InitializeFuncEntryState (ReachingDefinitionAnalysis P amap) (Bottom (ReachingDefinitionAnalysis P amap))) d) \<and>
       (\<forall>s. (c, s) \<in> edges P \<longrightarrow> (\<exists>d'. entry s = Some d' \<and> rd_le (fst (BlockFlow P (ReachingDefinitionAnalysis P amap) c d)) d'))"
    and e: "e \<in> reachable P e"
  shows "runs P e b \<sigma> \<Longrightarrow> b \<in> reachable P e \<and> (\<exists>d. entry b = Some d \<and> describes amap sloc lloc d \<sigma>)"
proof (induction rule: runs.induct)
  case (enters \<sigma>)
  let ?i = "InitializeFuncEntryState (ReachingDefinitionAnalysis P amap) (Bottom (ReachingDefinitionAnalysis P amap))"
  from fix_point e obtain d where d: "entry e = Some d" "rd_le ?i d" by blast
  have "rd_ok (length amap) ?i" by (simp add: RD_fields RD_InitializeFuncEntryState_def RD_new_def rd_ok_def)
  from describes_le[OF a this d(2) RD_initial[OF a]] d(1) e show ?case by blast
next
  case (moves b \<sigma> \<sigma>' c)
  then obtain d where b: "b \<in> reachable P e" and d: "entry b = Some d" "describes amap sloc lloc d \<sigma>" by blast
  have c: "c \<in> reachable P e" by (rule reachable_step[OF b moves.hyps(3)])
  from fix_point b d(1) moves.hyps(3) obtain d' where ok: "rd_ok (length amap) d" "\<not> RD_IsBottom d"
    and d': "entry c = Some d'" "rd_le (fst (BlockFlow P (ReachingDefinitionAnalysis P amap) b d)) d'" by force
  have blk: "rd_block sloc lloc (Exprs (blk P b))" "Exprs (blk P b) \<noteq> []"
    using blocks b moves.hyps(3) by (auto simp: edges_def)
  have "rd_ok (length amap) (fst (BlockFlow P (ReachingDefinitionAnalysis P amap) b d))"
    using rd.flow_ok[of amap d P b] ok by (simp add: RD_fields)
  from describes_le[OF a this d'(2) describes_flow[OF a ok(1) d(2) blk moves.hyps(2)]] d'(1) c show ?case by blast
qed

text \<open>C17: the engine returns for \<open>ReachingDefinitionAnalysis\<close>, and what the states say holds in every
  execution: at a block, a tracked variable holds the value that its reaching store wrote last, and
  the value that its reaching load read last.\<close>

theorem ReachingDefinition_sound:
  assumes program: "closed_program P g" "\<not> SkipAnalysis P" "\<not> UNREACHABLE (blk P (EntryBlock g))"
    and amap: "TrackAllocations P (GroupBlocks g) 0 [] = Some amap" "map snd amap = [0..<length amap]"
    and blocks: "\<forall>b \<in> reachable P (EntryBlock g). rd_block sloc lloc (Exprs (blk P b))"
  shows "\<exists>r. IterateToFixpoint P (ReachingDefinitionAnalysis P amap) () = Some (Some r) \<and>
    (\<forall>b \<sigma>. runs P (EntryBlock g) b \<sigma> \<longrightarrow> (\<exists>d. entrySets r b = Some d \<and>
       (\<forall>v s. CheckReachingDef amap d v = Some s \<longrightarrow> mem \<sigma> v = stored \<sigma> s) \<and>
       (\<forall>v l. CheckReachingLoadDef amap d v = Some l \<longrightarrow> mem \<sigma> v = loaded \<sigma> l)))"
proof -
  let ?e = "EntryBlock g"
  have idx: "indexed amap" using TrackAllocations_distinct[OF amap(1)] amap(2) by (simp add: indexed_def)
  have run: "\<not> DoesExceedBlockLimit (ReachingDefinitionAnalysis P amap) g" by (simp add: DoesExceedBlockLimit_def RD_fields)
  obtain r where r: "IterateToFixpoint P (ReachingDefinitionAnalysis P amap) () = Some (Some r)" and
    fix_point: "\<forall>c \<in> reachable P ?e. \<exists>d. entrySets r c = Some d \<and> rd_ok (length amap) d \<and> \<not> RD_IsBottom d \<and>
       (c = ?e \<longrightarrow> rd_le (InitializeFuncEntryState (ReachingDefinitionAnalysis P amap) (Bottom (ReachingDefinitionAnalysis P amap))) d) \<and>
       (\<forall>s. (c, s) \<in> edges P \<longrightarrow> (\<exists>d'. entrySets r s = Some d' \<and> rd_le (fst (BlockFlow P (ReachingDefinitionAnalysis P amap) c d)) d'))"
    using rd.analysis_fixpoint[OF program(1) run program(2), of "()"] by (auto simp: RD_fields)
  have "\<forall>b \<in> reachable P ?e. rd_block sloc lloc (Exprs (blk P b)) \<and> (GetReachableSuccessors P b \<noteq> [] \<longrightarrow> Exprs (blk P b) \<noteq> [])"
    using blocks program(1) by (simp add: closed_program_def closed_group_def)
  note d = describes_runs[OF idx this fix_point reachable_entry[OF program(3)]]
  show ?thesis
  proof (intro exI[of _ r] conjI allI impI r)
    fix b and \<sigma> :: "'v Mem" assume "runs P ?e b \<sigma>"
    from d[OF this] obtain d where "entrySets r b = Some d" and d: "describes amap sloc lloc d \<sigma>" by blast
    moreover have "mem \<sigma> v = stored \<sigma> s" if "CheckReachingDef amap d v = Some s" for v s
      using that d by (auto simp: CheckReachingDef_def FS_GetElem_def describes_def split: option.splits FlatSet.splits)
        (metis def_holds.simps(2))
    moreover have "mem \<sigma> v = loaded \<sigma> l" if "CheckReachingLoadDef amap d v = Some l" for v l
      using that d by (auto simp: CheckReachingLoadDef_def FS_GetElem_def describes_def split: option.splits FlatSet.splits)
        (metis def_holds.simps(2))
    ultimately show "\<exists>d. entrySets r b = Some d \<and> (\<forall>v s. CheckReachingDef amap d v = Some s \<longrightarrow> mem \<sigma> v = stored \<sigma> s) \<and>
        (\<forall>v l. CheckReachingLoadDef amap d v = Some l \<longrightarrow> mem \<sigma> v = loaded \<sigma> l)" by blast
  qed
qed

text \<open>A variable stored before a branch and loaded after it.\<close>

definition branch_program :: "unit Program" where
  "branch_program = \<lparr>
     BlockTable =
      [\<lparr>UNREACHABLE = False, Exprs = [Allocate 1 T_Other True False, Store 100 1 3, OtherExpr ()], Succs = [1, 2]\<rparr>,
       \<lparr>UNREACHABLE = False, Exprs = [Load 101 1, OtherExpr ()], Succs = [2]\<rparr>,
       \<lparr>UNREACHABLE = False, Exprs = [Load 102 1, OtherExpr ()], Succs = []\<rparr>],
     LocalVars = [], FuncOf = (\<lambda>_. None), TypeOf = (\<lambda>_. T_Other),
     DefOf = (\<lambda>_. \<lparr>IsCStruct = False, AllInstanceVars = []\<rparr>), LambdaTable = [], CapturedVars = (\<lambda>_. []),
     TheFunc = \<lparr>IsConstructor = False, IsInstanceVarInit = False, IsMemberFunc = False, IsStatic = True,
       HasBody = True, OuterDef = None\<rparr>,
     Params = [], Body = Some \<lparr>EntryBlock = 0, GroupBlocks = [0, 1, 2]\<rparr>, SkipAnalysis = False\<rparr>"

lemma branch_program_closed: "closed_program branch_program \<lparr>EntryBlock = 0, GroupBlocks = [0, 1, 2]\<rparr>"
  by (rule closed_program_simple) (auto simp: branch_program_def)

lemma branch_program_reachable: "reachable branch_program 0 = {0, 1, 2}"
proof -
  have "TopologicalSort branch_program 0 = [0, 1, 2]" by code_simp
  then show ?thesis by (metis TopologicalSort_set empty_set list.simps(15))
qed

lemma ReachingDefinition_sound_witness:
  "\<exists>\<sigma> :: nat Mem. mem \<sigma> 1 = 5 \<and> runs branch_program 0 2 \<sigma> \<and>
     (\<exists>r d. IterateToFixpoint branch_program (ReachingDefinitionAnalysis branch_program [(1, 0)]) () = Some (Some r) \<and>
        entrySets r 2 = Some d \<and> CheckReachingDef [(1, 0)] d 1 = Some 100 \<and> mem \<sigma> 1 = stored \<sigma> 100)"
proof -
  let ?g = "\<lparr>EntryBlock = 0, GroupBlocks = [0, 1, 2]\<rparr>" and ?an = "ReachingDefinitionAnalysis branch_program [(1, 0)]"
  let ?before = "\<lparr>mem = (\<lambda>_. 0), stored = (\<lambda>_. 0), loaded = (\<lambda>_. 0)\<rparr> :: nat Mem"
  let ?after = "?before\<lparr>mem := (mem ?before)(1 := 5), stored := (stored ?before)(100 := 5)\<rparr>"
  have exprs: "Exprs (blk branch_program 0) = [Allocate 1 T_Other True False, Store 100 1 3, OtherExpr ()]"
    and edge: "(0, 2) \<in> edges branch_program"
    by (simp_all add: edges_def GetReachableSuccessors_def blk_def branch_program_def)
  have steps: "exec_expr branch_program (Allocate 1 T_Other True False) ?before ?before"
    "exec_expr branch_program (Store 100 1 3) ?before ?after" "exec_expr branch_program (OtherExpr ()) ?after ?after"
    using exec_store[of branch_program 100 1 3 ?before 5] by (auto intro: exec_other)
  have "exec_exprs branch_program (Exprs (blk branch_program 0)) ?before ?after"
    unfolding exprs exec_exprs.simps using steps by blast
  from runs.moves[OF runs.enters this edge] have run: "runs branch_program 0 2 ?after" .
  have "\<not> SkipAnalysis branch_program" "\<not> UNREACHABLE (blk branch_program (EntryBlock ?g))"
    "TrackAllocations branch_program (GroupBlocks ?g) 0 [] = Some [(1, 0)]" "map snd [(1 :: nat, 0)] = [0..<length [(1 :: nat, 0 :: nat)]]"
    by code_simp+
  moreover have "\<forall>b \<in> reachable branch_program (EntryBlock ?g).
      rd_block (\<lambda>_. 1) (\<lambda>_. 1) (Exprs (blk branch_program b))"
    by (simp add: branch_program_reachable) code_simp
  ultimately obtain r where r: "IterateToFixpoint branch_program ?an () = Some (Some r)"
    and sound: "\<forall>b (\<sigma> :: nat Mem). runs branch_program (EntryBlock ?g) b \<sigma> \<longrightarrow> (\<exists>d. entrySets r b = Some d \<and>
       (\<forall>v s. CheckReachingDef [(1, 0)] d v = Some s \<longrightarrow> mem \<sigma> v = stored \<sigma> s) \<and>
       (\<forall>v l. CheckReachingLoadDef [(1, 0)] d v = Some l \<longrightarrow> mem \<sigma> v = loaded \<sigma> l))"
    using ReachingDefinition_sound[OF branch_program_closed] by blast
  then obtain d where d: "entrySets r 2 = Some d" "\<forall>v s. CheckReachingDef [(1, 0)] d v = Some s \<longrightarrow> mem ?after v = stored ?after s"
    using run by fastforce
  have "map_option (map_option (\<lambda>r. map_option (\<lambda>d. CheckReachingDef [(1, 0)] d 1) (entrySets r 2)))
      (IterateToFixpoint branch_program ?an ()) = Some (Some (Some (Some 100)))" by code_simp
  then have "CheckReachingDef [(1, 0)] d 1 = Some 100" using r d(1) by simp
  with r d run show ?thesis by (intro exI[of _ ?after] conjI exI[of _ r] exI[of _ d]) auto
qed

end
