(* ===== verification/AnalysesReturn.thy ===== *)
theory AnalysesReturn
  imports VarInitTheorems ReachTheorems
begin

section \<open>The analyses terminate\<close>

text \<open>
  The constructors of the analyses walk over the expressions of a function and of the lambdas in
  it, \<open>SaveAllocateMap\<close> by recursion and \<open>ReachingDefinitionAnalysis\<close> with a worklist of blocks;
  they return because lambdas nest finitely. The engine returns on any control-flow graph, cyclic
  or not, because every join moves a state up in a domain of bounded height.
\<close>

text \<open>Bodies of lambdas nest: \<open>rank\<close> falls from a lambda to those that its body creates.\<close>

definition created :: "'x Expr list \<Rightarrow> nat set" where
  "created xs = {l. LambdaExpr l \<in> set xs}"

definition nests :: "('x, 'r) Program_scheme \<Rightarrow> (nat \<Rightarrow> nat) \<Rightarrow> bool" where
  "nests P rank \<longleftrightarrow> (\<forall>l. \<forall>l' \<in> created (GroupExprs P (LambdaBody P l)). rank l' < rank l)"

lemma created_simps [simp]:
  "created [] = {}" "created (x # xs) = (case x of LambdaExpr l \<Rightarrow> insert l (created xs) | _ \<Rightarrow> created xs)"
  by (auto simp: created_def split: Expr.splits)

lemma SaveAllocateMap_Cons:
  "SaveAllocateMap P (x # xs) acc = Option.bind
     (case x of
        Allocate v ty dbg exc \<Rightarrow>
          (if dbg then Some (case acc of (i, a) \<Rightarrow> (Suc i, if map_of a v = None then a @ [(v, i)] else a)) else Some acc)
      | LambdaExpr l \<Rightarrow> SaveAllocateMap P (GroupExprs P (LambdaBody P l)) acc
      | _ \<Rightarrow> Some acc)
     (SaveAllocateMap P xs)"
  by (subst SaveAllocateMap.simps) (simp only: list.case)

lemma TrackAllocations_Cons:
  "fold (TrackExpr P) (Exprs (blk P b)) (bs, i, a) = (bs', i', a') \<Longrightarrow>
   TrackAllocations P (b # bs) i a = TrackAllocations P bs' i' a'"
  by (subst TrackAllocations.simps) simp

lemma SaveAllocateMap_returns:
  assumes "nests P rank" "\<forall>l \<in> created exprs. rank l < k"
  shows "\<exists>r. SaveAllocateMap P exprs acc = Some r"
  using assms(2)
proof (induction k arbitrary: exprs acc rule: less_induct)
  case (less k)
  from less.prems show ?case
  proof (induction exprs arbitrary: acc)
    case Nil
    then show ?case by (simp add: SaveAllocateMap.simps)
  next
    case (Cons x xs)
    have "\<exists>r. SaveAllocateMap P (GroupExprs P (LambdaBody P l)) acc = Some r" if "x = LambdaExpr l" for l
    proof -
      from that Cons.prems have "rank l < k" by simp
      then show ?thesis using less.IH[of "rank l"] assms(1) by (simp add: nests_def)
    qed
    then obtain r where r: "(case x of
        Allocate v ty dbg exc \<Rightarrow>
          (if dbg then Some (case acc of (i, a) \<Rightarrow> (Suc i, if map_of a v = None then a @ [(v, i)] else a)) else Some acc)
      | LambdaExpr l \<Rightarrow> SaveAllocateMap P (GroupExprs P (LambdaBody P l)) acc
      | _ \<Rightarrow> Some acc) = Some r" by (cases x; cases acc; cases "has_debug x") auto
    have "\<forall>l \<in> created xs. rank l < k" using Cons.prems by (auto split: Expr.splits)
    then have "\<exists>r'. SaveAllocateMap P xs r = Some r'" by (rule Cons.IH)
    then show ?case unfolding SaveAllocateMap_Cons r by simp
  qed
qed

text \<open>A step of the worklist takes a block off the front and puts the blocks of the lambdas that it
  creates at the end.\<close>

abbreviation shallow :: "('x, 'r) Program_scheme \<Rightarrow> (nat \<Rightarrow> nat) \<Rightarrow> nat \<Rightarrow> nat list \<Rightarrow> bool" where
  "shallow P rank k bs \<equiv> \<forall>b \<in> set bs. \<forall>l \<in> created (Exprs (blk P b)). rank l < k"

lemma TrackExpr_blocks:
  "\<exists>new n a'. fold (TrackExpr P) xs (bs, i, a) = (bs @ new, n, a') \<and>
     set new = (\<Union>l \<in> created xs. set (GroupBlocks (LambdaBody P l)))"
proof (induction xs arbitrary: bs i a)
  case (Cons x xs)
  have step: "\<exists>i' a'. TrackExpr P x (bs, i, a) =
      (bs @ (case x of LambdaExpr l \<Rightarrow> GroupBlocks (LambdaBody P l) | _ \<Rightarrow> []), i', a')"
    by (cases x) (auto simp: TrackExpr_def)
  then obtain i' a' where s: "TrackExpr P x (bs, i, a) =
      (bs @ (case x of LambdaExpr l \<Rightarrow> GroupBlocks (LambdaBody P l) | _ \<Rightarrow> []), i', a')" by blast
  from Cons.IH[of "bs @ (case x of LambdaExpr l \<Rightarrow> GroupBlocks (LambdaBody P l) | _ \<Rightarrow> [])" i' a'] s
  show ?case by (cases x) auto
qed simp

lemma nests_shallow:
  assumes "nests P rank" "rank l \<le> k"
  shows "shallow P rank k (GroupBlocks (LambdaBody P l))"
proof (intro ballI)
  fix b l' assume "b \<in> set (GroupBlocks (LambdaBody P l))" "l' \<in> created (Exprs (blk P b))"
  then have "l' \<in> created (GroupExprs P (LambdaBody P l))" by (auto simp: created_def GroupExprs_def)
  with assms show "rank l' < k" by (fastforce simp: nests_def)
qed

lemma TrackAllocations_level:
  assumes n: "nests P rank" and next_level: "\<And>bs i a. shallow P rank k bs \<Longrightarrow> \<exists>r. TrackAllocations P bs i a = Some r"
    and "shallow P rank (Suc k) pre" "shallow P rank k post"
  shows "\<exists>r. TrackAllocations P (pre @ post) i a = Some r"
  using assms(3,4)
proof (induction pre arbitrary: post i a)
  case Nil
  from Nil.prems(2) show ?case unfolding append_Nil by (rule next_level)
next
  case (Cons b pre)
  obtain new i' a' where f: "fold (TrackExpr P) (Exprs (blk P b)) (pre @ post, i, a) = ((pre @ post) @ new, i', a')"
    "set new = (\<Union>l \<in> created (Exprs (blk P b)). set (GroupBlocks (LambdaBody P l)))"
    using TrackExpr_blocks[of P "Exprs (blk P b)" "pre @ post" i a] by auto
  have "shallow P rank k (GroupBlocks (LambdaBody P l))" if "l \<in> created (Exprs (blk P b))" for l
    using nests_shallow[OF n, of l k] that Cons.prems(1) by (simp add: less_Suc_eq_le)
  then have "shallow P rank k (post @ new)" using Cons.prems(2) f(2) by (auto 0 4)
  then have "\<exists>r. TrackAllocations P (pre @ (post @ new)) i' a' = Some r"
    by (rule Cons.IH[rotated]) (use Cons.prems(1) in simp)
  then show ?case using TrackAllocations_Cons[OF f(1)] by simp
qed

lemma TrackAllocations_returns:
  assumes "nests P rank" "shallow P rank k bs"
  shows "\<exists>r. TrackAllocations P bs i a = Some r"
  using assms(2)
proof (induction k arbitrary: bs i a)
  case 0
  then have "\<exists>r. TrackAllocations P bs i a = Some r"
  proof (induction bs arbitrary: i a)
    case (Cons b bs)
    obtain i' a' where f: "fold (TrackExpr P) (Exprs (blk P b)) (bs, i, a) = (bs, i', a')"
      using TrackExpr_blocks[of P "Exprs (blk P b)" bs i a] Cons.prems by auto
    from TrackAllocations_Cons[OF f] show ?case using Cons by simp
  qed (simp add: TrackAllocations.simps)
  then show ?case .
next
  case (Suc k)
  from TrackAllocations_level[OF assms(1) Suc.IH Suc.prems, of "[]"] show ?case by simp
qed

text \<open>C18: the three analyses terminate: where the bodies of lambdas nest, their constructors return
  the maps of the tracked variables; and the engine returns whatever the control-flow graphs of the
  function and its lambdas look like.\<close>

theorem analyses_return:
  assumes "closed_program P g" "nests P rank"
  shows "(\<exists>amap n. InitAnalysisMembers P g ctor = Some (amap, n)) \<and>
    (\<exists>amap. TrackAllocations P (GroupBlocks g) 0 [] = Some amap) \<and>
    (\<exists>r. IterateToFixpoint P (MaybeUninitAnalysis P ctor amap n) () = Some r) \<and>
    (\<exists>r. IterateToFixpoint P (MaybeInitAnalysis P ctor amap n) () = Some r) \<and>
    (\<exists>r. IterateToFixpoint P (ReachingDefinitionAnalysis P amap) () = Some r)"
proof (intro conjI)
  define k where "k = Suc (\<Sum>l \<in> created (GroupExprs P g). rank l)"
  have "finite (created (GroupExprs P g))"
    by (rule finite_subset[of _ "the_lambda ` set (GroupExprs P g)"]) (force simp: created_def)+
  then have k: "\<forall>l \<in> created (GroupExprs P g). rank l < k"
    by (auto simp: k_def less_Suc_eq_le intro: member_le_sum)
  from SaveAllocateMap_returns[OF assms(2) k, of "(localMemberNums ctor, [])"]
  show "\<exists>amap n. InitAnalysisMembers P g ctor = Some (amap, n)"
    by (auto simp: InitAnalysisMembers_def Let_def split: prod.splits)
  have "shallow P rank k (GroupBlocks g)" using k by (auto simp: created_def GroupExprs_def)
  then show "\<exists>amap. TrackAllocations P (GroupBlocks g) 0 [] = Some amap" by (rule TrackAllocations_returns[OF assms(2)])
  show "\<exists>r. IterateToFixpoint P (MaybeUninitAnalysis P ctor amap n) () = Some r" by (rule mu.returns(1)[OF assms(1)])
  show "\<exists>r. IterateToFixpoint P (MaybeInitAnalysis P ctor amap n) () = Some r" by (rule mi.returns(1)[OF assms(1)])
  show "\<exists>r. IterateToFixpoint P (ReachingDefinitionAnalysis P amap) () = Some r" by (rule rd.returns(1)[OF assms(1)])
qed

lemma analyses_return_witness:
  "(\<exists>amap. TrackAllocations loop_program [0, 1, 2, 3] 0 [] = Some amap) \<and>
   (\<exists>r. IterateToFixpoint loop_program (ReachingDefinitionAnalysis loop_program [(1, 0)]) () = Some r)"
proof -
  have "nests loop_program (\<lambda>l. 0)"
    by (simp add: nests_def created_def GroupExprs_def LambdaBody_def loop_program_def)
  from analyses_return[OF loop_program_closed this] show ?thesis by simp
qed

end
