(* ===== verification/Visit.thy ===== *)
theory Visit
  imports Engine
begin

section \<open>Visiting the expressions of an analysed function\<close>

text \<open>
  \<open>Results.h\<close>: a client of an analysis gives actions that are called before and after every
  expression and on every terminator, with the state that the analysis computes there. An
  \<open>Expression*\<close> is the block it stands in and its index; the variables that the actions capture
  and change are a context of any type \<open>'c\<close>. A call of an instance-variable initialiser is visited
  with the expressions of its body; calls may nest without end, which is \<^const>\<open>None\<close>.
\<close>

type_synonym Loc = "nat \<times> nat"

type_synonym ('x, 'd, 'c) Action = "'d \<Rightarrow> 'x Expr \<Rightarrow> Loc \<Rightarrow> 'c \<Rightarrow> 'c"

text \<open>What the visits need to know beyond the program: the bodies of the other functions.\<close>

record 'x Package = "'x Program" +
  FuncBody :: "nat \<Rightarrow> BlockGroup"

definition TryGetInstanceVarInitFromApply :: "('x, 'r) Program_scheme \<Rightarrow> 'x Expr \<Rightarrow> nat option" where
  "TryGetInstanceVarInitFromApply P expr = (case expr of
     Apply k callee args s \<Rightarrow>
       if k = APPLY then (case FuncOf P callee of
           Some f \<Rightarrow> if HasBody f \<and> IsInstanceVarInit f then Some callee else None
         | None \<Rightarrow> None)
       else None
   | _ \<Rightarrow> None)"

definition GetBlocksToAnalyse :: "('x, 'r) Package_scheme \<Rightarrow> 'x Expr \<Rightarrow> nat list" where
  "GetBlocksToAnalyse P expr = (case TryGetInstanceVarInitFromApply P expr of
     Some f \<Rightarrow> GroupBlocks (FuncBody P f) | None \<Rightarrow> [])"

text \<open>The expressions of a block without the terminator, each with its place.\<close>

definition GetNonTerminatorExpressions :: "('x, 'r) Program_scheme \<Rightarrow> nat \<Rightarrow> (Loc \<times> 'x Expr) list" where
  "GetNonTerminatorExpressions P b =
     map (\<lambda>i. ((b, i), Exprs (blk P b) ! i)) [0..<length (Exprs (blk P b)) - 1]"

text \<open>The loop over the expressions of a block, with the loop over the blocks to analyse inside it:
  both walk over the same kind of list. The analysis may look at the block an expression stands
  in, to ask for the function around it.\<close>

partial_function (option) VisitExprs ::
  "('x, 'r) Package_scheme \<Rightarrow> (nat \<Rightarrow> ('x, 'd, 'm) Analysis) \<Rightarrow> ('x, 'd, 'c) Action \<Rightarrow> ('x, 'd, 'c) Action \<Rightarrow>
   (Loc \<times> 'x Expr) list \<Rightarrow> 'd \<times> 'c \<Rightarrow> ('d \<times> 'c) option" where
  "VisitExprs P an before after xs sc = (case xs of
     [] \<Rightarrow> Some sc
   | (loc, expr) # rest \<Rightarrow> (case sc of (state, c) \<Rightarrow>
       Option.bind
         (VisitExprs P an before after (concat (map (GetNonTerminatorExpressions P) (GetBlocksToAnalyse P expr)))
            (SimulatingProcessingSingleExpression P (an (fst loc)) state expr, before state expr loc c))
         (\<lambda>(state', c'). VisitExprs P an before after rest (state', after state' expr loc c'))))"

declare VisitExprs.simps [code]

definition VisitBlockNonTerminatorExpressionsWith ::
  "('x, 'r) Package_scheme \<Rightarrow> (nat \<Rightarrow> ('x, 'd, 'm) Analysis) \<Rightarrow> ('x, 'd, 'c) Action \<Rightarrow> ('x, 'd, 'c) Action \<Rightarrow>
   nat \<Rightarrow> 'd \<times> 'c \<Rightarrow> ('d \<times> 'c) option" where
  "VisitBlockNonTerminatorExpressionsWith P an before after b sc =
     VisitExprs P an before after (GetNonTerminatorExpressions P b) sc"

text \<open>A block without an entry state, or that was never reached, is left out. A block that is
  visited has a terminator.\<close>

definition VisitBlockWith ::
  "('x, 'r) Package_scheme \<Rightarrow> (nat \<Rightarrow> ('x, 'd, 'm) Analysis) \<Rightarrow> ('x, 'd, 'c) Action \<Rightarrow> ('x, 'd, 'c) Action \<Rightarrow>
   ('d \<Rightarrow> 'x Expr \<Rightarrow> Loc \<Rightarrow> nat option \<Rightarrow> 'c \<Rightarrow> 'c) \<Rightarrow> (nat \<Rightarrow> 'd option) \<Rightarrow> nat \<Rightarrow> 'c \<Rightarrow> 'c option" where
  "VisitBlockWith P an before after onTerminator entryMap b c = (case entryMap b of
     None \<Rightarrow> Some c
   | Some state \<Rightarrow>
       if IsBottom (an b) state then Some c
       else do {
         (state1, c1) \<leftarrow> VisitBlockNonTerminatorExpressionsWith P an before after b (state, c);
         if Exprs (blk P b) = [] then None
         else
           let terminator = last (Exprs (blk P b));
               (state2, targetSucc) = PropagateTerminatorEffect (an b) (CapturedByCallee P (an b) state1 terminator) terminator
           in Some (onTerminator state2 terminator (b, length (Exprs (blk P b)) - 1) targetSucc c1)
       })"

fun VisitBlocks ::
  "('x, 'r) Package_scheme \<Rightarrow> (nat \<Rightarrow> ('x, 'd, 'm) Analysis) \<Rightarrow> ('x, 'd, 'c) Action \<Rightarrow> ('x, 'd, 'c) Action \<Rightarrow>
   ('d \<Rightarrow> 'x Expr \<Rightarrow> Loc \<Rightarrow> nat option \<Rightarrow> 'c \<Rightarrow> 'c) \<Rightarrow> (nat \<Rightarrow> 'd option) \<Rightarrow> nat list \<Rightarrow> 'c \<Rightarrow> 'c option" where
  "VisitBlocks P an before after onTerminator entryMap [] c = Some c"
| "VisitBlocks P an before after onTerminator entryMap (b # bs) c =
     Option.bind (VisitBlockWith P an before after onTerminator entryMap b c)
       (VisitBlocks P an before after onTerminator entryMap bs)"

fun VisitLambdas ::
  "('x, 'r) Package_scheme \<Rightarrow> (nat \<Rightarrow> ('x, 'd, 'm) Analysis) \<Rightarrow> ('x, 'd, 'c) Action \<Rightarrow> ('x, 'd, 'c) Action \<Rightarrow>
   ('d \<Rightarrow> 'x Expr \<Rightarrow> Loc \<Rightarrow> nat option \<Rightarrow> 'c \<Rightarrow> 'c) \<Rightarrow> (nat \<times> (nat \<Rightarrow> 'd option)) list \<Rightarrow> 'c \<Rightarrow> 'c option" where
  "VisitLambdas P an before after onTerminator [] c = Some c"
| "VisitLambdas P an before after onTerminator ((lambda, entryMap) # ls) c =
     Option.bind (VisitBlocks P an before after onTerminator entryMap (GroupBlocks (LambdaBody P lambda)) c)
       (VisitLambdas P an before after onTerminator ls)"

definition VisitWith ::
  "('x, 'r) Package_scheme \<Rightarrow> (nat \<Rightarrow> ('x, 'd, 'm) Analysis) \<Rightarrow> ('x, 'd, 'c) Action \<Rightarrow> ('x, 'd, 'c) Action \<Rightarrow>
   ('d \<Rightarrow> 'x Expr \<Rightarrow> Loc \<Rightarrow> nat option \<Rightarrow> 'c \<Rightarrow> 'c) \<Rightarrow> 'd Results \<Rightarrow> 'c \<Rightarrow> 'c option" where
  "VisitWith P an before after onTerminator results c = do {
     body \<leftarrow> Body P;
     c1 \<leftarrow> VisitBlocks P an before after onTerminator (entrySets results) (GroupBlocks body) c;
     VisitLambdas P an before after onTerminator (lambdaResults results) c1
   }"

text \<open>\<open>GetEntryState\<close>: the state of a block of the function or else of the lambda around it.\<close>

definition GetEntryState :: "'d Results \<Rightarrow> nat \<Rightarrow> nat \<Rightarrow> 'd option" where
  "GetEntryState results parentLambda block = (case entrySets results block of
     Some state \<Rightarrow> Some state
   | None \<Rightarrow> Option.bind (map_of (lambdaResults results) parentLambda) (\<lambda>states. states block))"

end
