(* ===== verification/VarInitCheckDefs.thy ===== *)
theory VarInitCheckDefs
  imports Visit GenKillDefs ReachDefs
begin

section \<open>The check of initialisation\<close>

text \<open>
  \<open>CHIR/Checker/VarInitCheck.cpp\<close>: the compiler rejects uses of variables and members that may be
  uninitialised, constructors that leave members uninitialised, and assignments to \<open>let\<close> variables
  that may be initialised. A diagnostic is a value of \<open>VarInitDiag\<close>, with the place of the
  expression, what it is about and the lines of its note; the texts are not modelled.
\<close>

subsection \<open>What the check reads\<close>

text \<open>Of the other expressions the check tells apart the terminator \<open>Exit\<close>, with its mark for
  generated code, and the calls of interface and virtual functions.\<close>

datatype CheckExpr = EXIT (skip_forin: bool) | DYNAMIC_DISPATCH | UNRELATED

record MemberAttrs =
  is_readonly :: bool
  is_common :: bool
  is_deserialized :: bool

record CustomInfo =
  IsClassDef :: bool
  DirectInstanceVarNum :: nat
  SuperClassOf :: "nat option"
  VarAttrs :: "MemberAttrs list"

record CheckPackage = "CheckExpr Package" +
  InfoOf :: "nat \<Rightarrow> CustomInfo"
  ResultType :: "Loc \<Rightarrow> Ty"
  ReadOnlyValue :: "nat \<Rightarrow> bool"
  ParamsOf :: "nat \<Rightarrow> nat list"
  TopLevelFunc :: "nat \<Rightarrow> nat option"

text \<open>The function under check is \<^const>\<open>None\<close>, an instance-variable initialiser that is visited
  inside it is \<^const>\<open>Some\<close> of its value.\<close>

definition FuncInfoOf :: "('x, 'r) Program_scheme \<Rightarrow> nat option \<Rightarrow> FuncInfo" where
  "FuncInfoOf P f = (case f of None \<Rightarrow> TheFunc P | Some v \<Rightarrow> (case FuncOf P v of Some i \<Rightarrow> i | None \<Rightarrow> TheFunc P))"

definition ThisArg :: "'r CheckPackage_scheme \<Rightarrow> nat option \<Rightarrow> nat" where
  "ThisArg P f = hd (case f of None \<Rightarrow> Params P | Some v \<Rightarrow> ParamsOf P v)"

text \<open>\<open>HandleStoreElemRefExpr\<close> asks the store for the function around it; the other handlers of both
  analyses read the function under analysis.\<close>

definition InFunction :: "'r CheckPackage_scheme \<Rightarrow> nat \<Rightarrow> 'r CheckPackage_scheme" where
  "InFunction P f = P\<lparr>TheFunc := FuncInfoOf P (Some f), Params := ParamsOf P f\<rparr>"

definition MaybeUninitAnalysisAt ::
  "'r CheckPackage_scheme \<Rightarrow> ConstructorInitInfo \<Rightarrow> (nat \<times> nat) list \<Rightarrow> nat \<Rightarrow> nat \<Rightarrow> (CheckExpr, MaybeUninitDomain, unit) Analysis" where
  "MaybeUninitAnalysisAt P ctorInitInfo allocateIdxMap n b = (case TopLevelFunc P b of
     None \<Rightarrow> MaybeUninitAnalysis P ctorInitInfo allocateIdxMap n
   | Some f \<Rightarrow> (MaybeUninitAnalysis P ctorInitInfo allocateIdxMap n)\<lparr>PropagateExpressionEffect :=
       (\<lambda>state expression. case expression of
          StoreElementRef location path line \<Rightarrow>
            MU_HandleStoreElemRefExpr (InFunction P f) ctorInitInfo state location path line
        | _ \<Rightarrow> MU_PropagateExpressionEffect P ctorInitInfo allocateIdxMap n state expression)\<rparr>)"

definition MaybeInitAnalysisAt ::
  "'r CheckPackage_scheme \<Rightarrow> ConstructorInitInfo \<Rightarrow> (nat \<times> nat) list \<Rightarrow> nat \<Rightarrow> nat \<Rightarrow> (CheckExpr, GenKillDomain, unit) Analysis" where
  "MaybeInitAnalysisAt P ctorInitInfo allocateIdxMap n b = (case TopLevelFunc P b of
     None \<Rightarrow> MaybeInitAnalysis P ctorInitInfo allocateIdxMap n
   | Some f \<Rightarrow> (MaybeInitAnalysis P ctorInitInfo allocateIdxMap n)\<lparr>PropagateExpressionEffect :=
       (\<lambda>state expression. case expression of
          StoreElementRef location path line \<Rightarrow> MI_HandleStoreElemRefExpr (InFunction P f) ctorInitInfo state location path
        | _ \<Rightarrow> MI_PropagateExpressionEffect P ctorInitInfo allocateIdxMap n state expression)\<rparr>)"

datatype VarInitDiag =
    UsedBeforeInit (diag_loc: Loc) (diag_var: nat) (diag_lines: "nat set")
  | MemberUsedBeforeInit (diag_loc: Loc) (diag_member: nat) (diag_lines: "nat set")
  | IllegalUsageOfSuperMember (diag_loc: Loc) (diag_member: nat)
  | IllegalUsageOfMember (diag_loc: Loc) (diag_callee: nat)
  | ClassUninitializedField (diag_loc: Loc) (diag_fields: "(nat \<times> nat set) list")
  | CannotAssignInitializedLet (diag_loc: Loc)

subsection \<open>Use before initialisation\<close>

definition HasFuncCallWithNothingRetVal :: "'r CheckPackage_scheme \<Rightarrow> nat \<Rightarrow> bool" where
  "HasFuncCallWithNothingRetVal P b = list_ex (\<lambda>(loc, expr).
     (case expr of Apply k c args s \<Rightarrow> True | OtherExpr DYNAMIC_DISPATCH \<Rightarrow> True | _ \<Rightarrow> False) \<and>
     StripAllRefs (ResultType P loc) = T_Nothing) (GetNonTerminatorExpressions P b)"

text \<open>The lines of the note; a location that is looked up is in the map.\<close>

definition CheckLoadToUninitedAllocation ::
  "(nat \<times> nat) list \<Rightarrow> MaybeUninitDomain \<Rightarrow> Loc \<Rightarrow> nat \<Rightarrow> VarInitDiag option" where
  "CheckLoadToUninitedAllocation allocateIdxMap state loc targetVal =
     (if IsMaybeUninitedAllocation allocateIdxMap state targetVal = Some True
      then map_option (UsedBeforeInit loc targetVal) (MU_GetMaybeInitedPos allocateIdxMap state targetVal) else None)"

definition CheckGetElementRefToUninitedAllocation ::
  "'r CheckPackage_scheme \<Rightarrow> (nat \<times> nat) list \<Rightarrow> MaybeUninitDomain \<Rightarrow> Loc \<Rightarrow> nat \<Rightarrow> VarInitDiag option" where
  "CheckGetElementRefToUninitedAllocation P allocateIdxMap state loc targetVal =
     (case StripAllRefs (TypeOf P targetVal) of
        T_Struct d \<Rightarrow> CheckLoadToUninitedAllocation allocateIdxMap state loc targetVal
      | T_Enum d \<Rightarrow> CheckLoadToUninitedAllocation allocateIdxMap state loc targetVal
      | _ \<Rightarrow> None)"

definition CheckUninitedDefMember ::
  "ConstructorInitInfo \<Rightarrow> MaybeUninitDomain \<Rightarrow> Loc \<Rightarrow> nat \<Rightarrow> bool \<Rightarrow> VarInitDiag list" where
  "CheckUninitedDefMember ctorInitInfo state loc index onlyCheckSuper =
     (case IsMaybeUninitedMember ctorInitInfo state index of
        SUPER_MEMBER \<Rightarrow> [IllegalUsageOfSuperMember loc index]
      | LOCAL_MEMBER \<Rightarrow> if onlyCheckSuper then []
          else [MemberUsedBeforeInit loc index (maybeInitedPos state ! (index - superMemberNums ctorInitInfo))]
      | NA_MEMBER \<Rightarrow> [])"

text \<open>A chain of element references that starts at \<open>this\<close>; it is no longer than the table of local
  variables.\<close>

fun GetElemRefViaDefMember :: "('x, 'r) Program_scheme \<Rightarrow> nat \<Rightarrow> 'x Expr \<Rightarrow> nat \<Rightarrow> nat option" where
  "GetElemRefViaDefMember P 0 expr thisArg = None"
| "GetElemRefViaDefMember P (Suc k) expr thisArg = (case expr of
     GetElementRef location path \<Rightarrow>
       if location = thisArg then Some (hd path)
       else (case ExprOf P location of
           Some locExpr \<Rightarrow> GetElemRefViaDefMember P k locExpr thisArg | None \<Rightarrow> None)
   | _ \<Rightarrow> None)"

definition IsGetElemRefViaDefMember :: "('x, 'r) Program_scheme \<Rightarrow> 'x Expr \<Rightarrow> nat \<Rightarrow> nat option" where
  "IsGetElemRefViaDefMember P expr thisArg = GetElemRefViaDefMember P (Suc (length (LocalVars P))) expr thisArg"

definition CheckLoadToUninitedCustomDefMember ::
  "'r CheckPackage_scheme \<Rightarrow> ConstructorInitInfo \<Rightarrow> MaybeUninitDomain \<Rightarrow> nat option \<Rightarrow> Loc \<Rightarrow> nat \<Rightarrow> VarInitDiag list" where
  "CheckLoadToUninitedCustomDefMember P ctorInitInfo state func loc targetVal = (case ExprOf P targetVal of
     Some expr \<Rightarrow> (case IsGetElemRefViaDefMember P expr (ThisArg P func) of
         Some index \<Rightarrow> CheckUninitedDefMember ctorInitInfo state loc index False | None \<Rightarrow> [])
   | None \<Rightarrow> [])"

definition IsStoreViaDefMember ::
  "('x, 'r) Program_scheme \<Rightarrow> nat \<Rightarrow> nat list \<Rightarrow> nat \<Rightarrow> bool \<Rightarrow> nat option" where
  "IsStoreViaDefMember P location path thisArg shouldBeNested =
     (if location = thisArg \<and> (\<not> shouldBeNested \<or> length path > 1) then Some (hd path)
      else (case ExprOf P location of Some expr \<Rightarrow> IsGetElemRefViaDefMember P expr thisArg | None \<Rightarrow> None))"

text \<open>\<open>Function::IsClassMethod\<close>.\<close>

definition IsClassMethod :: "'r CheckPackage_scheme \<Rightarrow> nat option \<Rightarrow> bool" where
  "IsClassMethod P func = (case OuterDef (FuncInfoOf P func) of Some d \<Rightarrow> IsClassDef (InfoOf P d) | None \<Rightarrow> False)"

definition CheckStoreToUninitedCustomDefMember ::
  "'r CheckPackage_scheme \<Rightarrow> ConstructorInitInfo \<Rightarrow> MaybeUninitDomain \<Rightarrow> nat option \<Rightarrow> Loc \<Rightarrow> nat \<Rightarrow> nat list \<Rightarrow> VarInitDiag list" where
  "CheckStoreToUninitedCustomDefMember P ctorInitInfo state func loc location path =
     (case IsStoreViaDefMember P location path (ThisArg P func) True of
        Some index \<Rightarrow> CheckUninitedDefMember ctorInitInfo state loc index False
      | None \<Rightarrow> if \<not> IsClassMethod P func then []
          else (case IsStoreViaDefMember P location path (ThisArg P func) False of
              Some index \<Rightarrow> CheckUninitedDefMember ctorInitInfo state loc index True
            | None \<Rightarrow> []))"

definition CheckMemberFuncCall ::
  "'r CheckPackage_scheme \<Rightarrow> ConstructorInitInfo \<Rightarrow> MaybeUninitDomain \<Rightarrow> nat option \<Rightarrow> Loc \<Rightarrow> nat \<Rightarrow> nat list \<Rightarrow> VarInitDiag list" where
  "CheckMemberFuncCall P ctorInitInfo state initFunc loc callee args = (case FuncOf P callee of
     None \<Rightarrow> []
   | Some calleeFunc \<Rightarrow>
       if HasBody calleeFunc \<and> OuterDef calleeFunc = OuterDef (FuncInfoOf P initFunc) \<and>
          \<not> IsConstructor calleeFunc \<and> \<not> IsStatic calleeFunc \<and>
          GetMaybeUninitedLocalMembers ctorInitInfo state \<noteq> [] \<and> \<not> IsInstanceVarInit calleeFunc
       then let arg = hd args in
         if arg = ThisArg P initFunc then [IllegalUsageOfMember loc callee]
         else (case ExprOf P arg of
             Some (Load res location) \<Rightarrow>
               if location = ThisArg P initFunc then [IllegalUsageOfMember loc callee] else []
           | _ \<Rightarrow> [])
       else [])"

definition RaiseUninitedDefMemberError ::
  "ConstructorInitInfo \<Rightarrow> MaybeUninitDomain \<Rightarrow> Loc \<Rightarrow> MemberAttrs list \<Rightarrow> nat list \<Rightarrow> VarInitDiag list" where
  "RaiseUninitedDefMemberError ctorInitInfo state loc memberVars uninitedMemberIdx =
     (if list_all (\<lambda>idx. is_common (memberVars ! idx) \<and> \<not> is_deserialized (memberVars ! idx)) uninitedMemberIdx then []
      else [ClassUninitializedField loc
        (map (\<lambda>idx. (idx, maybeInitedPos state ! (idx - superMemberNums ctorInitInfo))) uninitedMemberIdx)])"

subsection \<open>The actions\<close>

text \<open>The actions capture the stack of the functions that are being visited, the innermost last,
  and the diagnostics so far.\<close>

definition UninitDiags ::
  "'r CheckPackage_scheme \<Rightarrow> ConstructorInitInfo \<Rightarrow> (nat \<times> nat) list \<Rightarrow> nat option \<Rightarrow> nat option \<Rightarrow>
   MaybeUninitDomain \<Rightarrow> CheckExpr Expr \<Rightarrow> Loc \<Rightarrow> VarInitDiag list" where
  "UninitDiags P ctorInitInfo allocateIdxMap initialFunc curFunc state expr loc =
     (let var = (case expr of
          Load res location \<Rightarrow> CheckLoadToUninitedAllocation allocateIdxMap state loc location
        | GetElementRef base path \<Rightarrow> CheckGetElementRefToUninitedAllocation P allocateIdxMap state loc base
        | _ \<Rightarrow> None)
      in case var of
          Some d \<Rightarrow> [d]
        | None \<Rightarrow>
            if \<not> IsConstructor (FuncInfoOf P initialFunc) then []
            else (case expr of
                Load res location \<Rightarrow> CheckLoadToUninitedCustomDefMember P ctorInitInfo state curFunc loc location
              | StoreElementRef location path line \<Rightarrow>
                  CheckStoreToUninitedCustomDefMember P ctorInitInfo state curFunc loc location path
              | Apply k callee args s \<Rightarrow>
                  if k = APPLY then CheckMemberFuncCall P ctorInitInfo state curFunc loc callee args else []
              | _ \<Rightarrow> []))"

definition UninitBeforeVisitExpr ::
  "'r CheckPackage_scheme \<Rightarrow> ConstructorInitInfo \<Rightarrow> (nat \<times> nat) list \<Rightarrow>
   (CheckExpr, MaybeUninitDomain, nat option list \<times> VarInitDiag list) Action" where
  "UninitBeforeVisitExpr P ctorInitInfo allocateIdxMap state expr loc = (\<lambda>(callStack, diags).
     let callStack' = (case TryGetInstanceVarInitFromApply P expr of Some f \<Rightarrow> callStack @ [Some f] | None \<Rightarrow> callStack)
     in (callStack', diags @ UninitDiags P ctorInitInfo allocateIdxMap (hd callStack') (last callStack') state expr loc))"

definition UninitAfterVisitExpr ::
  "'r CheckPackage_scheme \<Rightarrow> (CheckExpr, MaybeUninitDomain, nat option list \<times> VarInitDiag list) Action" where
  "UninitAfterVisitExpr P state expr loc = (\<lambda>(callStack, diags).
     (if TryGetInstanceVarInitFromApply P expr \<noteq> None then butlast callStack else callStack, diags))"

definition UninitDiagsAtEnd ::
  "'r CheckPackage_scheme \<Rightarrow> ConstructorInitInfo \<Rightarrow> MemberAttrs list \<Rightarrow> MaybeUninitDomain \<Rightarrow> CheckExpr Expr \<Rightarrow> Loc \<Rightarrow> VarInitDiag list" where
  "UninitDiagsAtEnd P ctorInitInfo memberVars state terminator loc =
     (if \<not> IsConstructor (TheFunc P) then []
      else (case terminator of
          OtherExpr (EXIT isForInGeneratedExit) \<Rightarrow>
            let isExitForLocalFunc = (case Body P of Some g \<Rightarrow> fst loc \<notin> set (GroupBlocks g) | None \<Rightarrow> True) in
            if isForInGeneratedExit \<or> isExitForLocalFunc \<or> HasFuncCallWithNothingRetVal P (fst loc) then []
            else let uninitedMembers = GetMaybeUninitedLocalMembers ctorInitInfo state in
              if uninitedMembers \<noteq> [] then RaiseUninitedDefMemberError ctorInitInfo state loc memberVars uninitedMembers else []
        | Apply k callee args s \<Rightarrow>
            if k = APPLY_WITH_EXCEPTION then CheckMemberFuncCall P ctorInitInfo state None loc callee args else []
        | _ \<Rightarrow> []))"

definition UninitOnTerminator ::
  "'r CheckPackage_scheme \<Rightarrow> ConstructorInitInfo \<Rightarrow> MemberAttrs list \<Rightarrow>
   MaybeUninitDomain \<Rightarrow> CheckExpr Expr \<Rightarrow> Loc \<Rightarrow> nat option \<Rightarrow> nat option list \<times> VarInitDiag list \<Rightarrow> nat option list \<times> VarInitDiag list" where
  "UninitOnTerminator P ctorInitInfo memberVars state terminator loc targetSucc = (\<lambda>(callStack, diags).
     (callStack, diags @ UninitDiagsAtEnd P ctorInitInfo memberVars state terminator loc))"

definition UseBeforeInitCheck ::
  "'r CheckPackage_scheme \<Rightarrow> ConstructorInitInfo \<Rightarrow> MemberAttrs list \<Rightarrow> VarInitDiag list option" where
  "UseBeforeInitCheck P ctorInitInfo memberVars =
     (if SkipAnalysis P then Some []
      else do {
        body \<leftarrow> Body P;
        (allocateIdxMap, n) \<leftarrow> InitAnalysisMembers P body ctorInitInfo;
        result \<leftarrow> IterateToFixpoint P (MaybeUninitAnalysis P ctorInitInfo allocateIdxMap n) ();
        results \<leftarrow> result;
        (callStack, diags) \<leftarrow> VisitWith P (MaybeUninitAnalysisAt P ctorInitInfo allocateIdxMap n)
          (UninitBeforeVisitExpr P ctorInitInfo allocateIdxMap) (UninitAfterVisitExpr P)
          (UninitOnTerminator P ctorInitInfo memberVars) results ([None], []);
        Some diags
      })"

subsection \<open>Assignment to an initialised \<open>let\<close> variable\<close>

definition CheckStoreToInitedCustomDefMember ::
  "'r CheckPackage_scheme \<Rightarrow> ConstructorInitInfo \<Rightarrow> MemberAttrs list \<Rightarrow> GenKillDomain \<Rightarrow> Loc \<Rightarrow> nat \<Rightarrow> nat list \<Rightarrow> VarInitDiag list" where
  "CheckStoreToInitedCustomDefMember P ctorInitInfo memberVars state loc base paths =
     (if \<not> IsConstructor (TheFunc P) then []
      else if base = ThisArg P None \<and> length paths = 1 \<and> is_readonly (memberVars ! hd paths) \<and>
        IsMaybeInitedMember ctorInitInfo state (hd paths) \<noteq> NA_MEMBER then [CannotAssignInitializedLet loc]
      else [])"

definition ReassignDiags ::
  "'r CheckPackage_scheme \<Rightarrow> ConstructorInitInfo \<Rightarrow> MemberAttrs list \<Rightarrow> (nat \<times> nat) list \<Rightarrow> GenKillDomain \<Rightarrow> CheckExpr Expr \<Rightarrow> Loc \<Rightarrow> VarInitDiag list" where
  "ReassignDiags P ctorInitInfo memberVars allocateIdxMap state expr loc = (case expr of
     Store sid targetVal line \<Rightarrow>
       if ExprOf P targetVal = None then []
       else if ReadOnlyValue P targetVal \<and> IsMaybeInitedAllocation allocateIdxMap state targetVal = Some True
       then [CannotAssignInitializedLet loc] else []
   | StoreElementRef base path line \<Rightarrow> CheckStoreToInitedCustomDefMember P ctorInitInfo memberVars state loc base path
   | _ \<Rightarrow> [])"

definition ReassignBeforeVisitExpr ::
  "'r CheckPackage_scheme \<Rightarrow> ConstructorInitInfo \<Rightarrow> MemberAttrs list \<Rightarrow> (nat \<times> nat) list \<Rightarrow>
   (CheckExpr, GenKillDomain, unit \<times> VarInitDiag list) Action" where
  "ReassignBeforeVisitExpr P ctorInitInfo memberVars allocateIdxMap state expr loc = (\<lambda>(u, diags).
     (u, diags @ ReassignDiags P ctorInitInfo memberVars allocateIdxMap state expr loc))"

definition ReassignInitedLetVarCheck ::
  "'r CheckPackage_scheme \<Rightarrow> ConstructorInitInfo \<Rightarrow> MemberAttrs list \<Rightarrow> VarInitDiag list option" where
  "ReassignInitedLetVarCheck P ctorInitInfo memberVars =
     (if SkipAnalysis P then Some []
      else do {
        body \<leftarrow> Body P;
        (allocateIdxMap, n) \<leftarrow> InitAnalysisMembers P body ctorInitInfo;
        result \<leftarrow> IterateToFixpoint P (MaybeInitAnalysis P ctorInitInfo allocateIdxMap n) ();
        results \<leftarrow> result;
        (u, diags) \<leftarrow> VisitWith P (MaybeInitAnalysisAt P ctorInitInfo allocateIdxMap n)
          (ReassignBeforeVisitExpr P ctorInitInfo memberVars allocateIdxMap) (\<lambda>state expr loc c. c)
          (\<lambda>state expr loc targetSucc c. c) results ((), []);
        Some diags
      })"

subsection \<open>The check of a function\<close>

text \<open>What a constructor has to initialise. The members of a type stand in one list, those of the
  super classes first; a constructor has a type around it.\<close>

definition ConstructorInfoOf :: "'r CheckPackage_scheme \<Rightarrow> (ConstructorInitInfo \<times> MemberAttrs list) option" where
  "ConstructorInfoOf P =
     (if IsConstructor (TheFunc P) then (case OuterDef (TheFunc P) of
        None \<Rightarrow> None
      | Some d \<Rightarrow>
          let info = InfoOf P d; memberVars = VarAttrs info in
          Some (if IsClassDef info then
              \<lparr>thisCustomDef = Some d, superClassDef = SuperClassOf info,
               superMemberNums = (if SuperClassOf info \<noteq> None then length memberVars - DirectInstanceVarNum info else 0),
               localMemberNums = DirectInstanceVarNum info\<rparr>
            else \<lparr>thisCustomDef = Some d, superClassDef = None, superMemberNums = 0, localMemberNums = length memberVars\<rparr>,
            memberVars))
      else Some (\<lparr>thisCustomDef = None, superClassDef = None, superMemberNums = 0, localMemberNums = 0\<rparr>, []))"

definition VarInitCheck_RunOnFunc :: "'r CheckPackage_scheme \<Rightarrow> VarInitDiag list option" where
  "VarInitCheck_RunOnFunc P = do {
     (ctorInitInfo, memberVars) \<leftarrow> ConstructorInfoOf P;
     diags \<leftarrow> UseBeforeInitCheck P ctorInitInfo memberVars;
     diags' \<leftarrow> ReassignInitedLetVarCheck P ctorInitInfo memberVars;
     Some (diags @ diags')
   }"

end
