(* ===== verification/VisitReports.thy ===== *)
theory VisitReports
  imports Visit
begin

section \<open>Checks that report while they visit\<close>

text \<open>
  A check visits a function with actions that append diagnostics. The locale \<open>reporting\<close> is the
  interface of such actions: away from calls of instance-variable initialisers they append what a
  function of the state, the expression and its place says. Then the visit of a function reports
  exactly what these functions say at every place, in the state that the entry state of the block
  and the expressions before it give.
\<close>

definition plain :: "('x, 'r) Program_scheme \<Rightarrow> nat \<Rightarrow> bool" where
  "plain P b \<longleftrightarrow> Exprs (blk P b) \<noteq> [] \<and> (\<forall>e \<in> set (Exprs (blk P b)). TryGetInstanceVarInitFromApply P e = None)"

text \<open>Blocks of well-formed functions: each ends in a terminator and calls no initialiser, and the
  bodies of lambdas hold other blocks than the function.\<close>

definition visitable :: "('x, 'r) Program_scheme \<Rightarrow> BlockGroup \<Rightarrow> bool" where
  "visitable P g \<longleftrightarrow> (\<forall>b \<in> set (GroupBlocks g). plain P b) \<and>
     (\<forall>l. \<forall>b \<in> set (GroupBlocks (LambdaBody P l)). plain P b \<and> b \<notin> set (GroupBlocks g))"

definition state_at :: "('x, 'r) Program_scheme \<Rightarrow> ('x, 'd, 'm) Analysis \<Rightarrow> 'd \<Rightarrow> nat \<Rightarrow> nat \<Rightarrow> 'd" where
  "state_at P an state b i = fold (\<lambda>e s. SimulatingProcessingSingleExpression P an s e) (take i (Exprs (blk P b))) state"

lemma state_at_Suc:
  "i < length (Exprs (blk P b)) \<Longrightarrow>
   state_at P an s b (Suc i) = SimulatingProcessingSingleExpression P an (state_at P an s b i) (Exprs (blk P b) ! i)"
  by (simp add: state_at_def take_Suc_conv_app_nth)

text \<open>The state that the action on the terminator gets.\<close>

definition end_state :: "('x, 'r) Program_scheme \<Rightarrow> ('x, 'd, 'm) Analysis \<Rightarrow> 'd \<Rightarrow> nat \<Rightarrow> 'd" where
  "end_state P an s b = (let t = last (Exprs (blk P b)); s' = state_at P an s b (length (Exprs (blk P b)) - 1)
     in fst (PropagateTerminatorEffect an (CapturedByCallee P an s' t) t))"

lemma select_place:
  assumes "\<And>i. A i \<subseteq> {d. place d = (b, i)}" "Z \<subseteq> {d. place d = (b, n)}"
  shows "i < n \<Longrightarrow> {d \<in> (\<Union>i < n. A i) \<union> Z. place d = (b, i)} = A i"
    and "{d \<in> (\<Union>i < n. A i) \<union> Z. place d = (b, n :: nat)} = Z"
proof -
  have a: "d \<in> A i \<Longrightarrow> place d = (b, i)" "d \<in> Z \<Longrightarrow> place d = (b, n)" for d i using assms by blast+
  show "i < n \<Longrightarrow> {d \<in> (\<Union>i < n. A i) \<union> Z. place d = (b, i)} = A i" using a by fastforce
  show "{d \<in> (\<Union>i < n. A i) \<union> Z. place d = (b, n)} = Z" using a by fastforce
qed

locale reporting =
  fixes P :: "('x, 'r) Package_scheme"
    and an :: "nat \<Rightarrow> ('x, 'd, 'm) Analysis"
    and before :: "('x, 'd, 'k \<times> 'e list) Action"
    and after :: "('x, 'd, 'k \<times> 'e list) Action"
    and on_terminator :: "'d \<Rightarrow> 'x Expr \<Rightarrow> Loc \<Rightarrow> nat option \<Rightarrow> 'k \<times> 'e list \<Rightarrow> 'k \<times> 'e list"
    and at_expr :: "'d \<Rightarrow> 'x Expr \<Rightarrow> Loc \<Rightarrow> 'e list"
    and at_end :: "'d \<Rightarrow> 'x Expr \<Rightarrow> Loc \<Rightarrow> 'e list"
    and idle :: 'k
    and place :: "'e \<Rightarrow> Loc"
  assumes before_appends: "TryGetInstanceVarInitFromApply P e = None \<Longrightarrow>
      before state e loc (idle, ds) = (idle, ds @ at_expr state e loc)"
    and after_idle: "TryGetInstanceVarInitFromApply P e = None \<Longrightarrow> after state e loc (idle, ds) = (idle, ds)"
    and terminator_appends: "on_terminator state t loc target (idle, ds) = (idle, ds @ at_end state t loc)"
    and placed: "d \<in> set (at_expr state e loc) \<union> set (at_end state e loc) \<Longrightarrow> place d = loc"
begin

lemma visit_exprs:
  assumes "plain P b" "k \<le> length (Exprs (blk P b)) - 1"
  shows "VisitExprs P an before after (drop k (GetNonTerminatorExpressions P b)) (state_at P (an b) s b k, (idle, ds)) =
    Some (state_at P (an b) s b (length (Exprs (blk P b)) - 1),
      (idle, ds @ concat (map (\<lambda>i. at_expr (state_at P (an b) s b i) (Exprs (blk P b) ! i) (b, i)) [k..<length (Exprs (blk P b)) - 1])))"
  using assms(2)
proof (induction "length (Exprs (blk P b)) - 1 - k" arbitrary: k ds)
  case 0
  then have "k = length (Exprs (blk P b)) - 1" by simp
  then show ?case by (subst VisitExprs.simps) (simp add: GetNonTerminatorExpressions_def)
next
  case (Suc n)
  let ?e = "Exprs (blk P b) ! k"
  from Suc.hyps(2) have k: "k < length (Exprs (blk P b)) - 1" by simp
  then have rest: "drop k (GetNonTerminatorExpressions P b) = ((b, k), ?e) # drop (Suc k) (GetNonTerminatorExpressions P b)"
    by (subst Cons_nth_drop_Suc[symmetric]) (simp_all add: GetNonTerminatorExpressions_def)
  have e: "TryGetInstanceVarInitFromApply P ?e = None" using assms(1) k by (simp add: plain_def)
  then have inner: "GetBlocksToAnalyse P ?e = []" by (simp add: GetBlocksToAnalyse_def)
  have empty: "VisitExprs P an before after [] sc = Some sc" for sc by (simp add: VisitExprs.simps)
  have IH: "VisitExprs P an before after (drop (Suc k) (GetNonTerminatorExpressions P b)) (state_at P (an b) s b (Suc k), (idle, ds')) =
      Some (state_at P (an b) s b (length (Exprs (blk P b)) - 1),
        (idle, ds' @ concat (map (\<lambda>i. at_expr (state_at P (an b) s b i) (Exprs (blk P b) ! i) (b, i)) [Suc k..<length (Exprs (blk P b)) - 1])))" for ds'
    using Suc.hyps k by simp
  have "state_at P (an b) s b (Suc k) = SimulatingProcessingSingleExpression P (an b) (state_at P (an b) s b k) ?e"
    using k by (simp add: state_at_Suc)
  then show ?case unfolding rest using k IH
    by (subst VisitExprs.simps) (simp add: inner empty before_appends[OF e] after_idle[OF e] upt_conv_Cons[of k])
qed

text \<open>What is reported in a block.\<close>

definition block_reports :: "(nat \<Rightarrow> 'd option) \<Rightarrow> nat \<Rightarrow> 'e set" where
  "block_reports m b = (case m b of None \<Rightarrow> {} | Some s \<Rightarrow> if IsBottom (an b) s then {} else
     (\<Union>i < length (Exprs (blk P b)) - 1. set (at_expr (state_at P (an b) s b i) (Exprs (blk P b) ! i) (b, i))) \<union>
     set (at_end (end_state P (an b) s b) (last (Exprs (blk P b))) (b, length (Exprs (blk P b)) - 1)))"

lemma visit_block:
  assumes "plain P b"
  shows "\<exists>new. VisitBlockWith P an before after on_terminator m b (idle, ds) = Some (idle, ds @ new) \<and> set new = block_reports m b"
proof (cases "m b")
  case (Some s)
  show ?thesis
  proof (cases "IsBottom (an b) s")
    case False
    let ?n = "length (Exprs (blk P b)) - 1"
    have start: "state_at P (an b) s b 0 = s" by (simp add: state_at_def)
    have "VisitBlockNonTerminatorExpressionsWith P an before after b (s, (idle, ds)) =
        Some (state_at P (an b) s b ?n,
          (idle, ds @ concat (map (\<lambda>i. at_expr (state_at P (an b) s b i) (Exprs (blk P b) ! i) (b, i)) [0..<?n])))"
      using visit_exprs[OF assms, of 0 s ds] by (simp add: VisitBlockNonTerminatorExpressionsWith_def start)
    then show ?thesis using Some False assms
      by (auto simp: VisitBlockWith_def block_reports_def end_state_def plain_def Let_def terminator_appends
            lessThan_atLeast0 split: prod.splits)
  qed (use Some in \<open>auto simp: VisitBlockWith_def block_reports_def\<close>)
qed (simp add: VisitBlockWith_def block_reports_def)

lemma visit_blocks:
  assumes "\<forall>b \<in> set bs. plain P b"
  shows "\<exists>new. VisitBlocks P an before after on_terminator m bs (idle, ds) = Some (idle, ds @ new) \<and>
    set new = (\<Union>b \<in> set bs. block_reports m b)"
  using assms
proof (induction bs arbitrary: ds)
  case (Cons b bs)
  obtain new where new: "VisitBlockWith P an before after on_terminator m b (idle, ds) = Some (idle, ds @ new)"
    "set new = block_reports m b" using visit_block[of b m ds] Cons.prems by auto
  obtain new' where "VisitBlocks P an before after on_terminator m bs (idle, ds @ new) = Some (idle, (ds @ new) @ new')"
    "set new' = (\<Union>b \<in> set bs. block_reports m b)" using Cons.IH[of "ds @ new"] Cons.prems by auto
  then show ?case using new by (intro exI[of _ "new @ new'"]) simp
qed simp

lemma visit_lambdas:
  assumes "\<forall>l. \<forall>b \<in> set (GroupBlocks (LambdaBody P l)). plain P b"
  shows "\<exists>new. VisitLambdas P an before after on_terminator ls (idle, ds) = Some (idle, ds @ new) \<and>
    set new = (\<Union>(l, m) \<in> set ls. \<Union>b \<in> set (GroupBlocks (LambdaBody P l)). block_reports m b)"
proof (induction ls arbitrary: ds)
  case (Cons x ls)
  obtain l m where x: "x = (l, m)" by (cases x)
  obtain new where new: "VisitBlocks P an before after on_terminator m (GroupBlocks (LambdaBody P l)) (idle, ds) = Some (idle, ds @ new)"
    "set new = (\<Union>b \<in> set (GroupBlocks (LambdaBody P l)). block_reports m b)"
    using visit_blocks[of "GroupBlocks (LambdaBody P l)" m ds] assms by auto
  obtain new' where "VisitLambdas P an before after on_terminator ls (idle, ds @ new) = Some (idle, (ds @ new) @ new')"
    "set new' = (\<Union>(l, m) \<in> set ls. \<Union>b \<in> set (GroupBlocks (LambdaBody P l)). block_reports m b)" using Cons.IH[of "ds @ new"] by blast
  then show ?case using new x by (intro exI[of _ "new @ new'"]) simp
qed simp

lemma block_reports_place: "d \<in> block_reports m b \<Longrightarrow> fst (place d) = b"
  using placed by (fastforce simp: block_reports_def split: option.splits if_splits)

text \<open>The whole visit: it returns, and the reports in a block of the function are those of the block.\<close>

theorem visit:
  assumes body: "Body P = Some g" and v: "visitable P g"
  shows "\<exists>ds. VisitWith P an before after on_terminator r (idle, []) = Some (idle, ds) \<and>
    (\<forall>b \<in> set (GroupBlocks g). {d \<in> set ds. fst (place d) = b} = block_reports (entrySets r) b)"
proof -
  obtain ds where ds: "VisitBlocks P an before after on_terminator (entrySets r) (GroupBlocks g) (idle, []) = Some (idle, [] @ ds)"
    "set ds = (\<Union>b \<in> set (GroupBlocks g). block_reports (entrySets r) b)"
    using visit_blocks[of "GroupBlocks g" "entrySets r" "[]"] v by (auto simp: visitable_def)
  obtain ds' where ds': "VisitLambdas P an before after on_terminator (lambdaResults r) (idle, ds) = Some (idle, ds @ ds')"
    "set ds' = (\<Union>(l, m) \<in> set (lambdaResults r). \<Union>b \<in> set (GroupBlocks (LambdaBody P l)). block_reports m b)"
    using visit_lambdas[of "lambdaResults r" ds] v by (auto simp: visitable_def)
  have other: "fst (place d) \<notin> set (GroupBlocks g)" if "d \<in> set ds'" for d
    using that ds'(2) v by (auto simp: visitable_def dest!: block_reports_place)
  have "{d \<in> set (ds @ ds'). fst (place d) = b} = block_reports (entrySets r) b" if "b \<in> set (GroupBlocks g)" for b
    using that ds(2) other by (auto dest: block_reports_place)
  then show ?thesis using ds(1) ds'(1) body by (intro exI[of _ "ds @ ds'"]) (simp add: VisitWith_def)
qed

lemma reports_at:
  assumes "m b = Some s" "\<not> IsBottom (an b) s"
  shows "i < length (Exprs (blk P b)) - 1 \<Longrightarrow>
      {d \<in> block_reports m b. place d = (b, i)} = set (at_expr (state_at P (an b) s b i) (Exprs (blk P b) ! i) (b, i))"
    and "{d \<in> block_reports m b. place d = (b, length (Exprs (blk P b)) - 1)} =
      set (at_end (end_state P (an b) s b) (last (Exprs (blk P b))) (b, length (Exprs (blk P b)) - 1))"
proof -
  let ?n = "length (Exprs (blk P b)) - 1"
  let ?A = "\<lambda>i. set (at_expr (state_at P (an b) s b i) (Exprs (blk P b) ! i) (b, i))"
  let ?Z = "set (at_end (end_state P (an b) s b) (last (Exprs (blk P b))) (b, ?n))"
  have reports: "block_reports m b = (\<Union>i < ?n. ?A i) \<union> ?Z" using assms by (simp add: block_reports_def)
  have "?A i \<subseteq> {d. place d = (b, i)}" "?Z \<subseteq> {d. place d = (b, ?n)}" for i using placed by blast+
  note places = select_place[of ?A place b ?Z ?n, OF this]
  show "i < ?n \<Longrightarrow> {d \<in> block_reports m b. place d = (b, i)} = ?A i"
    unfolding reports by (rule places(1))
  show "{d \<in> block_reports m b. place d = (b, ?n)} = ?Z" unfolding reports by (rule places(2))
qed

text \<open>The reports at each place of a block that the analysis reaches.\<close>

theorem visit_places:
  assumes "Body P = Some g" "visitable P g"
  shows "\<exists>ds. VisitWith P an before after on_terminator r (idle, []) = Some (idle, ds) \<and>
    (\<forall>b s. b \<in> set (GroupBlocks g) \<longrightarrow> entrySets r b = Some s \<longrightarrow> \<not> IsBottom (an b) s \<longrightarrow>
       (\<forall>i < length (Exprs (blk P b)) - 1. {d \<in> set ds. place d = (b, i)} =
          set (at_expr (state_at P (an b) s b i) (Exprs (blk P b) ! i) (b, i))) \<and>
       {d \<in> set ds. place d = (b, length (Exprs (blk P b)) - 1)} =
          set (at_end (end_state P (an b) s b) (last (Exprs (blk P b))) (b, length (Exprs (blk P b)) - 1)))"
proof -
  obtain ds where ds: "VisitWith P an before after on_terminator r (idle, []) = Some (idle, ds)"
    and b: "\<And>b. b \<in> set (GroupBlocks g) \<Longrightarrow> {d \<in> set ds. fst (place d) = b} = block_reports (entrySets r) b"
    using visit[OF assms, of r] by blast
  have split: "{d \<in> set ds. place d = (b, i)} = {d \<in> block_reports (entrySets r) b. place d = (b, i)}"
    if "b \<in> set (GroupBlocks g)" for b i
    unfolding b[OF that, symmetric] by auto
  show ?thesis using ds split reports_at by (intro exI[of _ ds]) simp
qed

end

end
