(* ===== verification/VarInitCheck.thy ===== *)
theory VarInitCheck
  imports VarInitCheckDefs VisitReports VarInitTheorems
begin

section \<open>The check of initialisation is exact\<close>

text \<open>
  The visits of \<open>VarInitCheck\<close> are instances of \<open>reporting\<close>. With the exactness of the analyses,
  carried from the entry of a block to the places inside it, a diagnostic is reported at a place if
  and only if some path through the function arrives there and has the defect.
\<close>

subsection \<open>The places of a block\<close>













subsection \<open>The queries at a place\<close>


subsection \<open>The reports\<close>








subsection \<open>The theorems\<close>







subsection \<open>Assignments to \<open>let\<close> variables\<close>









subsection \<open>A constructor to try\<close>

text \<open>The constructor of a class with a member of its super class (0) and two of its own (1 and 2), the
  first of them \<open>let\<close>. Block 1 stores to the variable 1 and to member 1, block 2 does neither; block 3
  loads the variable, stores to member 1 and exits.\<close>

definition ctor_program :: CheckPackage where
  "ctor_program = \<lparr>
     BlockTable =
      [\<lparr>UNREACHABLE = False, Exprs = [Allocate 1 T_Other True False, OtherExpr UNRELATED], Succs = [1, 2]\<rparr>,
       \<lparr>UNREACHABLE = False, Exprs = [Store 100 1 7, StoreElementRef 0 [1] 8, OtherExpr UNRELATED], Succs = [3]\<rparr>,
       \<lparr>UNREACHABLE = False, Exprs = [OtherExpr UNRELATED], Succs = [3]\<rparr>,
       \<lparr>UNREACHABLE = False, Exprs = [Load 101 1, StoreElementRef 0 [1] 9, OtherExpr (EXIT False)], Succs = []\<rparr>],
     LocalVars = [(1, Allocate 1 T_Other True False), (101, Load 101 1)],
     FuncOf = (\<lambda>_. None), TypeOf = (\<lambda>_. T_Other), DefOf = (\<lambda>_. \<lparr>IsCStruct = False, AllInstanceVars = []\<rparr>),
     LambdaTable = [], CapturedVars = (\<lambda>_. []),
     TheFunc = \<lparr>IsConstructor = True, IsInstanceVarInit = False, IsMemberFunc = True, IsStatic = False,
       HasBody = True, OuterDef = Some 0\<rparr>,
     Params = [0], Body = Some \<lparr>EntryBlock = 0, GroupBlocks = [0, 1, 2, 3]\<rparr>, SkipAnalysis = False,
     FuncBody = (\<lambda>_. \<lparr>EntryBlock = 0, GroupBlocks = []\<rparr>),
     InfoOf = (\<lambda>_. \<lparr>IsClassDef = True, DirectInstanceVarNum = 2, SuperClassOf = Some 1,
       VarAttrs = [\<lparr>is_readonly = False, is_common = False, is_deserialized = False\<rparr>,
         \<lparr>is_readonly = True, is_common = False, is_deserialized = False\<rparr>,
         \<lparr>is_readonly = False, is_common = False, is_deserialized = False\<rparr>]\<rparr>),
     ResultType = (\<lambda>_. T_Other), ReadOnlyValue = (\<lambda>_. False), ParamsOf = (\<lambda>_. []), TopLevelFunc = (\<lambda>_. None)\<rparr>"


abbreviation "ctor_body \<equiv> \<lparr>EntryBlock = 0, GroupBlocks = [0, 1, 2, 3]\<rparr>"

abbreviation "ctor_members \<equiv> VarAttrs (InfoOf ctor_program 0)"







subsection \<open>Calls of the instance-variable initialiser\<close>


end
