(* ===== verification/StringConvertor.thy ===== *)
theory StringConvertor
  imports Main "HOL-Library.Word" "HOL-Library.Char_ord"
begin

unbundle bit_operations_syntax

section \<open>Conversions of strings\<close>

text \<open>
  \<open>Basic/StringConvertor.cpp\<close>: code points to UTF-8 and back, the escape sequences of string
  literals in both directions, and the guess of the encoding of a text. A \<open>std::string\<close> is a list of
  8-bit characters; a \<open>uint32_t\<close> is a 32-bit word. The constants are those of \<open>Lex/Lexer.h\<close>.
\<close>

subsection \<open>UTF-8\<close>

text \<open>\<open>static_cast<char>(static_cast<uint8_t>(w))\<close> and back.\<close>

definition to_char :: "32 word \<Rightarrow> char" where
  "to_char w = char_of (unat w)"

definition of_byte :: "char \<Rightarrow> 32 word" where
  "of_byte c = word_of_nat (of_char c)"

definition UTF8_1_MAX :: "32 word" where "UTF8_1_MAX = 0x7F"
definition UTF8_2_MAX :: "32 word" where "UTF8_2_MAX = 0x7FF"
definition UTF8_3_MAX :: "32 word" where "UTF8_3_MAX = 0xFFFF"
definition UTF8_4_MAX :: "32 word" where "UTF8_4_MAX = 0x10FFFF"
definition UTF8_5_MAX :: "32 word" where "UTF8_5_MAX = 0x3FFFFFF"
definition UTF8_6_MAX :: "32 word" where "UTF8_6_MAX = 0x7FFFFFFF"

lemmas utf8_limits = UTF8_1_MAX_def UTF8_2_MAX_def UTF8_3_MAX_def UTF8_4_MAX_def UTF8_5_MAX_def UTF8_6_MAX_def

text \<open>A lead byte holds the low \<open>k\<close> bits of its value under a flag; a following byte holds six bits.\<close>

definition lead_byte :: "nat \<Rightarrow> 32 word \<Rightarrow> 32 word \<Rightarrow> char" where
  "lead_byte k flag w = to_char ((w AND mask k) OR flag)"

definition next_byte :: "32 word \<Rightarrow> char" where
  "next_byte w = to_char ((w AND 0x3F) OR 0x80)"

definition CodepointToUTF8 :: "32 word \<Rightarrow> string" where
  "CodepointToUTF8 pointValue =
     (if pointValue \<le> UTF8_1_MAX then [to_char pointValue]
      else if pointValue \<le> UTF8_2_MAX then [lead_byte 5 0xC0 (drop_bit 6 pointValue), next_byte pointValue]
      else if pointValue \<le> UTF8_3_MAX then
        [lead_byte 4 0xE0 (drop_bit 12 pointValue), next_byte (drop_bit 6 pointValue), next_byte pointValue]
      else if pointValue \<le> UTF8_4_MAX then
        [lead_byte 3 0xF0 (drop_bit 18 pointValue), next_byte (drop_bit 12 pointValue),
         next_byte (drop_bit 6 pointValue), next_byte pointValue]
      else if pointValue \<le> UTF8_5_MAX then
        [lead_byte 2 0xF8 (drop_bit 24 pointValue), next_byte (drop_bit 18 pointValue),
         next_byte (drop_bit 12 pointValue), next_byte (drop_bit 6 pointValue), next_byte pointValue]
      else if pointValue \<le> UTF8_6_MAX then
        [lead_byte 1 0xFC (drop_bit 30 pointValue), next_byte (drop_bit 24 pointValue),
         next_byte (drop_bit 18 pointValue), next_byte (drop_bit 12 pointValue),
         next_byte (drop_bit 6 pointValue), next_byte pointValue]
      else [])"

text \<open>The code reads the bytes after the lead byte without asking whether they are there: the
  position behind the last byte reads as 0, any other is undefined.\<close>

definition byte_at :: "string \<Rightarrow> nat \<Rightarrow> 32 word option" where
  "byte_at s i = (if i < length s then Some (of_byte (s ! i)) else if i = length s then Some 0 else None)"

text \<open>The bits of the following bytes, the last byte lowest.\<close>

fun low_bits :: "string \<Rightarrow> nat \<Rightarrow> nat \<Rightarrow> 32 word option" where
  "low_bits s 0 i = Some 0"
| "low_bits s (Suc k) i = Option.bind (byte_at s i) (\<lambda>b.
     map_option (\<lambda>rest. push_bit (6 * k) (b AND 0x3F) OR rest) (low_bits s k (Suc i)))"

text \<open>The number of following bytes and the bits of a lead byte, by its flag.\<close>

definition lead_info :: "32 word \<Rightarrow> nat \<times> nat" where
  "lead_info ch = (if 0xFC \<le> ch then (5, 1) else if 0xF8 \<le> ch then (4, 2) else if 0xF0 \<le> ch then (3, 3)
     else if 0xE0 \<le> ch then (2, 4) else (1, 5))"

fun UTF8ToCodepoint :: "string \<Rightarrow> 32 word list option" where
  "UTF8ToCodepoint [] = Some []"
| "UTF8ToCodepoint (c # s) =
     (let ch = of_byte c in
      if 0xC0 \<le> ch then
        (case lead_info ch of (n, k) \<Rightarrow>
           Option.bind (low_bits (c # s) n 1) (\<lambda>bits.
             map_option (\<lambda>rest. (push_bit (6 * n) (ch AND mask k) OR bits) # rest) (UTF8ToCodepoint (drop n s))))
      else map_option (\<lambda>rest. ch # rest) (UTF8ToCodepoint s))"

subsection \<open>Escape sequences\<close>

definition HexDigit :: "char \<Rightarrow> 32 word option" where
  "HexDigit c =
     (if CHR ''0'' \<le> c \<and> c \<le> CHR ''9'' then Some (of_byte c - of_byte (CHR ''0''))
      else if CHR ''A'' \<le> c \<and> c \<le> CHR ''F'' then Some (of_byte c - of_byte (CHR ''A'') + 10)
      else if CHR ''a'' \<le> c \<and> c \<le> CHR ''f'' then Some (of_byte c - of_byte (CHR ''a'') + 10)
      else None)"

fun HexLoop :: "string \<Rightarrow> 32 word \<Rightarrow> 32 word \<times> string" where
  "HexLoop [] unicodePoint = (unicodePoint, [])"
| "HexLoop (c # s) unicodePoint = (case HexDigit c of
     Some d \<Rightarrow> HexLoop s (unicodePoint * 16 + d) | None \<Rightarrow> (unicodePoint, c # s))"

definition GetUnicodeAndToUTF8 :: "string \<Rightarrow> string \<times> string" where
  "GetUnicodeAndToUTF8 s = (case HexLoop s 0 of (unicodePoint, rest) \<Rightarrow> (CodepointToUTF8 unicodePoint, rest))"

lemma HexLoop_rest: "\<exists>ds. s = ds @ snd (HexLoop s p)"
proof (induction s arbitrary: p)
  case (Cons c s)
  then show ?case by (cases "HexDigit c") (auto, metis append_Cons)
qed simp

lemma GetUnicodeAndToUTF8_shorter:
  assumes "GetUnicodeAndToUTF8 s = (out, rest)"
  shows "length rest \<le> length s"
proof -
  from HexLoop_rest[of s 0] obtain ds where "s = ds @ snd (HexLoop s 0)" by blast
  moreover have "snd (HexLoop s 0) = rest" using assms by (simp add: GetUnicodeAndToUTF8_def split: prod.splits)
  ultimately show ?thesis by (metis le_add2 length_append)
qed

text \<open>The characters that may stand behind a backslash, with what they mean.\<close>

definition escapeList :: "(char \<times> char) list" where
  "escapeList = [(CHR ''0'', CHR 0x00), (CHR 0x5C, CHR 0x5C), (CHR ''b'', CHR 0x08), (CHR ''f'', CHR 0x0C),
     (CHR ''n'', CHR 0x0A), (CHR ''r'', CHR 0x0D), (CHR ''t'', CHR 0x09), (CHR ''v'', CHR 0x0B),
     (CHR 0x27, CHR 0x27), (CHR 0x22, CHR 0x22), (CHR ''?'', CHR ''?'')]"

text \<open>The loop of \<open>Normalize\<close> on what is left of the string. After a code point the iterator stands on the
  character that ends it, which the loop steps over; a backslash before any other character is
  dropped.\<close>

function Normalize :: "bool \<Rightarrow> string \<Rightarrow> string" where
  "Normalize isRawString [] = []"
| "Normalize isRawString (c # s) =
     (if c = CHR 0x5C \<and> s \<noteq> [] \<and> \<not> isRawString then
        (if length s \<ge> 2 \<and> s ! 0 = CHR ''u'' \<and> s ! 1 = CHR ''{'' then
           let (out, rest) = GetUnicodeAndToUTF8 (drop 2 s) in out @ Normalize isRawString (drop 1 rest)
         else (case map_of escapeList (hd s) of
             Some e \<Rightarrow> e # Normalize isRawString (tl s)
           | None \<Rightarrow> Normalize isRawString s))
      else if c = CHR 0x0D then
        (if s \<noteq> [] \<and> hd s = CHR 0x0A then CHR 0x0A # Normalize isRawString (tl s)
         else CHR 0x0A # Normalize isRawString s)
      else c # Normalize isRawString s)"
  by pat_completeness auto
termination
proof (relation "measure (\<lambda>(r, s). length s)", goal_cases)
  case (2 r c s x out rest)
  then have "length rest \<le> length (drop 2 s)" by (intro GetUnicodeAndToUTF8_shorter[of _ out]) simp
  then show ?case by simp
qed auto

text \<open>\<open>EscapeString\<close> with the lists of its two callers.\<close>

fun EscapeString :: "(char \<times> char) list \<Rightarrow> string \<Rightarrow> string" where
  "EscapeString list [] = []"
| "EscapeString list (c # s) = (case map_of list c of
     Some e \<Rightarrow> CHR 0x5C # e # EscapeString list s | None \<Rightarrow> c # EscapeString list s)"

definition Recover :: "string \<Rightarrow> string" where
  "Recover = EscapeString [(CHR 0x08, CHR ''b''), (CHR 0x0C, CHR ''f''), (CHR 0x0A, CHR ''n''), (CHR 0x0D, CHR ''r''),
     (CHR 0x09, CHR ''t''), (CHR 0x0B, CHR ''v''), (CHR 0x5C, CHR 0x5C), (CHR 0x22, CHR 0x22), (CHR 0x27, CHR 0x27),
     (CHR 0x00, CHR ''0'')]"

definition EscapeToJsonString :: "string \<Rightarrow> string" where
  "EscapeToJsonString = EscapeString [(CHR 0x08, CHR ''b''), (CHR 0x0C, CHR ''f''), (CHR 0x0A, CHR ''n''),
     (CHR 0x0D, CHR ''r''), (CHR 0x09, CHR ''t''), (CHR 0x5C, CHR 0x5C), (CHR 0x22, CHR 0x22)]"

subsection \<open>The encoding of a text\<close>

text \<open>The leading ones of a byte.\<close>

fun PreNum_loop :: "nat \<Rightarrow> 8 word \<Rightarrow> 8 word \<Rightarrow> nat \<Rightarrow> nat" where
  "PreNum_loop 0 byte msk num = num"
| "PreNum_loop (Suc i) byte msk num =
     (if byte AND msk = msk then PreNum_loop i byte (drop_bit 1 msk) (Suc num) else num)"

definition PreNum :: "8 word \<Rightarrow> nat" where
  "PreNum byte = PreNum_loop 8 byte 0x80 0"

definition as_byte :: "char \<Rightarrow> 8 word" where
  "as_byte c = word_of_nat (of_char c)"

text \<open>The loop over the bytes that follow a lead byte takes them off one by one.\<close>

fun SkipFollowing :: "nat \<Rightarrow> string \<Rightarrow> string option" where
  "SkipFollowing 0 s = Some s"
| "SkipFollowing (Suc n) [] = None"
| "SkipFollowing (Suc n) (c # s) = (if as_byte c AND 0xC0 \<noteq> 0x80 then None else SkipFollowing n s)"

lemma SkipFollowing_shorter: "SkipFollowing n s = Some r \<Longrightarrow> length r \<le> length s"
  by (induction n s rule: SkipFollowing.induct) (auto split: if_splits)

function IsUTF8 :: "string \<Rightarrow> bool" where
  "IsUTF8 [] = True"
| "IsUTF8 (c # s) =
     (if as_byte c AND 0x80 = 0 then IsUTF8 s
      else if PreNum (as_byte c) < 3 then False
      else (case SkipFollowing (PreNum (as_byte c) - 1) s of None \<Rightarrow> False | Some rest \<Rightarrow> IsUTF8 rest))"
  by pat_completeness auto
termination by (relation "measure length") (auto simp: less_Suc_eq_le dest: SkipFollowing_shorter)

fun IsGBK :: "string \<Rightarrow> bool" where
  "IsGBK [] = True"
| "IsGBK [c] = (as_byte c \<le> 0x7F)"
| "IsGBK (c # d # s) =
     (if as_byte c \<le> 0x7F then IsGBK (d # s)
      else if 0x81 \<le> as_byte c \<and> as_byte c \<le> 0xFE \<and> 0x40 \<le> as_byte d \<and> as_byte d \<le> 0xFE \<and> as_byte d \<noteq> 0x7F
      then IsGBK s else False)"

datatype StrEncoding = UTF8 | GBK | UNKNOWN

definition GetStringEncoding :: "string \<Rightarrow> StrEncoding" where
  "GetStringEncoding data = (if IsUTF8 data then UTF8 else if IsGBK data then GBK else UNKNOWN)"

text \<open>\<open>NormalizeStringToUTF8\<close> and \<open>NormalizeStringToGBK\<close>: the conversions between the code pages are the
  operating system's, a parameter here.\<close>

definition NormalizeStringToUTF8 :: "(string \<Rightarrow> string option) \<Rightarrow> string \<Rightarrow> string option" where
  "NormalizeStringToUTF8 GBKToUTF8 data = (case GetStringEncoding data of
     UTF8 \<Rightarrow> Some data | GBK \<Rightarrow> GBKToUTF8 data | UNKNOWN \<Rightarrow> None)"

definition NormalizeStringToGBK :: "(string \<Rightarrow> string option) \<Rightarrow> string \<Rightarrow> string option" where
  "NormalizeStringToGBK UTF8ToGBK data = (case GetStringEncoding data of
     UTF8 \<Rightarrow> UTF8ToGBK data | GBK \<Rightarrow> Some data | UNKNOWN \<Rightarrow> None)"

end
