(* ===== verification/StringRoundtrip.thy ===== *)
theory StringRoundtrip
  imports StringConvertor
begin

unbundle bit_operations_syntax

section \<open>Round trips of the string conversions\<close>

text \<open>
  Decoding the UTF-8 of code points gives the code points back; undoing the escapes that \<open>Recover\<close>
  writes gives the string back; and the escapes \<open>\u{...}\<close> read as the UTF-8 of their number. The
  guess of the encoding does not recognise the code points that take two bytes.
\<close>

subsection \<open>Bytes and bits\<close>

lemma of_byte_to_char: "w \<le> 0xFF \<Longrightarrow> of_byte (to_char w) = w"
proof -
  assume "w \<le> 0xFF"
  then have "unat w < 256" by (simp add: word_le_nat_alt)
  then show ?thesis by (simp add: of_byte_def to_char_def)
qed

lemma uint_or_high:
  fixes w f :: "32 word"
  assumes "f AND mask k = 0" "uint f + 2 ^ k \<le> 256"
  shows "uint ((w AND mask k) OR f) = uint (w AND mask k) + uint f"
proof -
  have "(w AND mask k) AND f = 0" using assms(1) by (simp add: and.assoc and.commute[of "mask k" f])
  then have "(w AND mask k) OR f = (w AND mask k) + f" by (simp add: disjunctive_add_eq_or)
  moreover have "uint (w AND mask k) + uint f < 2 ^ LENGTH(32)" using and_mask_lt_2p[of w k] assms(2) by simp
  ultimately show ?thesis by (simp add: uint_plus_if')
qed

lemma or_flag_mask:
  fixes w f :: "32 word"
  assumes "f AND mask k = 0"
  shows "((w AND mask k) OR f) AND mask k = w AND mask k"
  using assms by (simp add: bit.conj_disj_distrib2 and.assoc)

text \<open>A byte with the low \<open>k\<close> bits of a word under a flag, read back.\<close>

lemma flagged_byte:
  fixes w f :: "32 word"
  assumes "f AND mask k = 0" "uint f + 2 ^ k \<le> 256"
  shows "of_byte (to_char ((w AND mask k) OR f)) AND mask k = w AND mask k"
    and "uint f \<le> uint (of_byte (to_char ((w AND mask k) OR f)))"
    and "uint (of_byte (to_char ((w AND mask k) OR f))) < uint f + 2 ^ k"
proof -
  have u: "uint ((w AND mask k) OR f) = uint (w AND mask k) + uint f" by (rule uint_or_high[OF assms])
  then have "(w AND mask k) OR f \<le> 0xFF" using and_mask_lt_2p[of w k] assms(2) by (simp add: word_le_def)
  then have b: "of_byte (to_char ((w AND mask k) OR f)) = (w AND mask k) OR f" by (rule of_byte_to_char)
  show "of_byte (to_char ((w AND mask k) OR f)) AND mask k = w AND mask k" unfolding b by (rule or_flag_mask[OF assms(1)])
  show "uint f \<le> uint (of_byte (to_char ((w AND mask k) OR f)))" "uint (of_byte (to_char ((w AND mask k) OR f))) < uint f + 2 ^ k"
    unfolding b u using and_mask_lt_2p[of w k] by simp_all
qed

lemma next_byte_bits: "of_byte (next_byte w) AND 0x3F = take_bit 6 w"
  using flagged_byte(1)[of "0x80" 6 w] by (simp add: next_byte_def take_bit_eq_mask mask_eq_exp_minus_1)

lemma lead_byte_bits:
  "of_byte (lead_byte 5 0xC0 w) AND mask 5 = take_bit 5 w" "of_byte (lead_byte 4 0xE0 w) AND mask 4 = take_bit 4 w"
  "of_byte (lead_byte 3 0xF0 w) AND mask 3 = take_bit 3 w" "of_byte (lead_byte 2 0xF8 w) AND mask 2 = take_bit 2 w"
  "of_byte (lead_byte 1 0xFC w) AND mask 1 = take_bit 1 w"
  using flagged_byte(1)[of "0xC0" 5 w] flagged_byte(1)[of "0xE0" 4 w] flagged_byte(1)[of "0xF0" 3 w]
    flagged_byte(1)[of "0xF8" 2 w] flagged_byte(1)[of "0xFC" 1 w]
  by (simp_all add: lead_byte_def take_bit_eq_mask mask_eq_exp_minus_1)

lemma lead_byte_info:
  "lead_info (of_byte (lead_byte 5 0xC0 w)) = (1, 5)" "lead_info (of_byte (lead_byte 4 0xE0 w)) = (2, 4)"
  "lead_info (of_byte (lead_byte 3 0xF0 w)) = (3, 3)" "lead_info (of_byte (lead_byte 2 0xF8 w)) = (4, 2)"
  "lead_info (of_byte (lead_byte 1 0xFC w)) = (5, 1)"
  "0xC0 \<le> of_byte (lead_byte 5 0xC0 w)" "0xC0 \<le> of_byte (lead_byte 4 0xE0 w)" "0xC0 \<le> of_byte (lead_byte 3 0xF0 w)"
  "0xC0 \<le> of_byte (lead_byte 2 0xF8 w)" "0xC0 \<le> of_byte (lead_byte 1 0xFC w)"
  using flagged_byte(2,3)[of "0xC0" 5 w] flagged_byte(2,3)[of "0xE0" 4 w] flagged_byte(2,3)[of "0xF0" 3 w]
    flagged_byte(2,3)[of "0xF8" 2 w] flagged_byte(2,3)[of "0xFC" 1 w]
  by (simp_all add: lead_byte_def lead_info_def mask_eq_exp_minus_1 word_le_def)

text \<open>Putting the groups of bits together.\<close>

lemma join_bits:
  fixes w :: "'a::len word"
  shows "push_bit n (take_bit m (drop_bit n w)) OR take_bit n w = take_bit (m + n) w"
  by (rule bit_eqI) (auto simp: bit_simps)

lemma join_bits_more:
  fixes w x :: "'a::len word"
  shows "push_bit n (take_bit m (drop_bit n w)) OR (take_bit n w OR x) = take_bit (m + n) w OR x"
  by (simp add: join_bits flip: or.assoc)

lemma byte_at_simps [simp]:
  "byte_at (c # s) 0 = Some (of_byte c)" "byte_at (c # s) (Suc i) = byte_at s i"
  by (simp_all add: byte_at_def)

lemma low_bits_Cons: "low_bits (c # s) n (Suc i) = low_bits s n i"
  by (induction n arbitrary: i) (auto intro!: Option.bind_cong)

text \<open>The bits of one to five following bytes.\<close>

lemma low_bits_next:
  assumes "low_bits s k 0 = Some (take_bit m p)" "m = 6 * k" "n = Suc k" "l = 6 + m"
  shows "low_bits (next_byte (drop_bit m p) # s) n 0 = Some (take_bit l p)"
  unfolding assms(3,4) low_bits.simps byte_at_simps Option.bind.bind_lunit low_bits_Cons next_byte_bits assms(1) option.map
    join_bits[symmetric, of 6 m] assms(2)[symmetric]
  by (rule refl)

lemma low_bits_bytes:
  "low_bits (next_byte p # s) 1 0 = Some (take_bit 6 p)"
  "low_bits (next_byte (drop_bit 6 p) # next_byte p # s) 2 0 = Some (take_bit 12 p)"
  "low_bits (next_byte (drop_bit 12 p) # next_byte (drop_bit 6 p) # next_byte p # s) 3 0 = Some (take_bit 18 p)"
  "low_bits (next_byte (drop_bit 18 p) # next_byte (drop_bit 12 p) # next_byte (drop_bit 6 p) # next_byte p # s) 4 0 =
    Some (take_bit 24 p)"
  "low_bits (next_byte (drop_bit 24 p) # next_byte (drop_bit 18 p) # next_byte (drop_bit 12 p) # next_byte (drop_bit 6 p)
    # next_byte p # s) 5 0 = Some (take_bit 30 p)"
proof -
  have "low_bits (next_byte (drop_bit 0 p) # s) 1 0 = Some (take_bit 6 p)" by (rule low_bits_next[where k = 0]) simp_all
  then show one: "low_bits (next_byte p # s) 1 0 = Some (take_bit 6 p)" by (simp only: drop_bit_0 id_apply)
  show two: "low_bits (next_byte (drop_bit 6 p) # next_byte p # s) 2 0 = Some (take_bit 12 p)"
    by (rule low_bits_next[OF one]) simp_all
  show three: "low_bits (next_byte (drop_bit 12 p) # next_byte (drop_bit 6 p) # next_byte p # s) 3 0 = Some (take_bit 18 p)"
    by (rule low_bits_next[OF two]) simp_all
  show four: "low_bits (next_byte (drop_bit 18 p) # next_byte (drop_bit 12 p) # next_byte (drop_bit 6 p) # next_byte p # s) 4 0 =
    Some (take_bit 24 p)"
    by (rule low_bits_next[OF three]) simp_all
  show "low_bits (next_byte (drop_bit 24 p) # next_byte (drop_bit 18 p) # next_byte (drop_bit 12 p) # next_byte (drop_bit 6 p)
    # next_byte p # s) 5 0 = Some (take_bit 30 p)"
    by (rule low_bits_next[OF four]) simp_all
qed

lemma UTF8ToCodepoint_lead:
  assumes "low_bits s n 0 = Some (take_bit m p)" "0xC0 \<le> of_byte c" "lead_info (of_byte c) = (n, k)"
    "of_byte c AND mask k = take_bit k (drop_bit m p)" "m = 6 * n" "take_bit (k + m) p = p"
  shows "UTF8ToCodepoint (c # s) = map_option ((#) p) (UTF8ToCodepoint (drop n s))"
proof -
  have "push_bit (6 * n) (of_byte c AND mask k) OR take_bit m p = p"
    unfolding assms(4) assms(5)[symmetric] join_bits by (rule assms(6))
  moreover have "low_bits (c # s) n 1 = Some (take_bit m p)" using assms(1) low_bits_Cons[of c s n 0] by simp
  ultimately show ?thesis by (simp only: UTF8ToCodepoint.simps Let_def assms(2,3) prod.case Option.bind.bind_lunit if_True)
qed

lemma take_bit_self: "p \<le> m \<Longrightarrow> uint m < 2 ^ n \<Longrightarrow> take_bit n p = (p :: 32 word)"
  by (simp add: take_bit_eq_mask mask_eq_iff word_le_def)

lemma decode_point:
  assumes "p \<le> UTF8_6_MAX"
  shows "UTF8ToCodepoint (CodepointToUTF8 p @ s) = map_option ((#) p) (UTF8ToCodepoint s)"
proof -
  note lead_rules = low_bits_bytes[of p s, THEN UTF8ToCodepoint_lead]
  note lead = lead_rules(1)[OF lead_byte_info(6,1) lead_byte_bits(1)] lead_rules(2)[OF lead_byte_info(7,2) lead_byte_bits(2)]
    lead_rules(3)[OF lead_byte_info(8,3) lead_byte_bits(3)] lead_rules(4)[OF lead_byte_info(9,4) lead_byte_bits(4)]
    lead_rules(5)[OF lead_byte_info(10,5) lead_byte_bits(5)]
  have self: "p \<le> UTF8_2_MAX \<Longrightarrow> take_bit 11 p = p" "p \<le> UTF8_3_MAX \<Longrightarrow> take_bit 16 p = p" "p \<le> UTF8_4_MAX \<Longrightarrow> take_bit 21 p = p"
    "p \<le> UTF8_5_MAX \<Longrightarrow> take_bit 26 p = p" "take_bit 31 p = p"
    using assms by (auto intro!: take_bit_self[OF assms] elim!: take_bit_self simp: utf8_limits)
  consider "p \<le> UTF8_1_MAX" | "\<not> p \<le> UTF8_1_MAX" "p \<le> UTF8_2_MAX" | "\<not> p \<le> UTF8_1_MAX" "\<not> p \<le> UTF8_2_MAX" "p \<le> UTF8_3_MAX"
    | "\<not> p \<le> UTF8_1_MAX" "\<not> p \<le> UTF8_2_MAX" "\<not> p \<le> UTF8_3_MAX" "p \<le> UTF8_4_MAX"
    | "\<not> p \<le> UTF8_1_MAX" "\<not> p \<le> UTF8_2_MAX" "\<not> p \<le> UTF8_3_MAX" "\<not> p \<le> UTF8_4_MAX" "p \<le> UTF8_5_MAX"
    | "\<not> p \<le> UTF8_1_MAX" "\<not> p \<le> UTF8_2_MAX" "\<not> p \<le> UTF8_3_MAX" "\<not> p \<le> UTF8_4_MAX" "\<not> p \<le> UTF8_5_MAX"
    by blast
  then show ?thesis
  proof cases
    case 1
    then have "of_byte (to_char p) = p" "\<not> 0xC0 \<le> p" by (auto simp: utf8_limits word_le_def intro: of_byte_to_char)
    then show ?thesis using 1 by (simp add: CodepointToUTF8_def)
  next
    case 2
    then show ?thesis using lead(1) self(1) by (simp add: CodepointToUTF8_def del: UTF8ToCodepoint.simps)
  next
    case 3
    then show ?thesis using lead(2) self(2) by (simp add: CodepointToUTF8_def del: UTF8ToCodepoint.simps)
  next
    case 4
    then show ?thesis using lead(3) self(3) by (simp add: CodepointToUTF8_def eval_nat_numeral del: UTF8ToCodepoint.simps)
  next
    case 5
    then show ?thesis using lead(4) self(4) by (simp add: CodepointToUTF8_def eval_nat_numeral del: UTF8ToCodepoint.simps)
  next
    case 6
    then show ?thesis using lead(5) self(5) assms by (simp add: CodepointToUTF8_def eval_nat_numeral del: UTF8ToCodepoint.simps)
  qed
qed

text \<open>C24: decoding the UTF-8 encoding of a sequence of code points, of one to six bytes each, gives the
  sequence back.\<close>

theorem UTF8_roundtrip:
  assumes "\<forall>p \<in> set ps. p \<le> UTF8_6_MAX"
  shows "UTF8ToCodepoint (concat (map CodepointToUTF8 ps)) = Some ps"
  using assms by (induction ps) (simp_all add: decode_point)

lemma UTF8_roundtrip_witness:
  "UTF8ToCodepoint (concat (map CodepointToUTF8 [0x41, 0xE9, 0x4ED3, 0x1F600, 0x200000, 0x7FFFFFFF])) =
    Some [0x41, 0xE9, 0x4ED3, 0x1F600, 0x200000, 0x7FFFFFFF]"
  using UTF8_roundtrip[of "[0x41, 0xE9, 0x4ED3, 0x1F600, 0x200000, 0x7FFFFFFF]"] by (simp add: UTF8_6_MAX_def del: UTF8ToCodepoint.simps)

subsection \<open>Escapes\<close>

lemma Normalize_escape:
  assumes "map_of escapeList e = Some c"
  shows "Normalize False (CHR 0x5C # e # s) = c # Normalize False s"
proof -
  have "e \<noteq> CHR ''u''" using assms by (auto simp: escapeList_def)
  then show ?thesis using assms by simp
qed

lemma Normalize_plain: "c \<noteq> CHR 0x5C \<Longrightarrow> c \<noteq> CHR 0x0D \<Longrightarrow> Normalize raw (c # s) = c # Normalize raw s"
  by simp

lemma Recover_simps:
  "Recover [] = []"
  "Recover (c # s) = (case map_of [(CHR 0x08, CHR ''b''), (CHR 0x0C, CHR ''f''), (CHR 0x0A, CHR ''n''), (CHR 0x0D, CHR ''r''),
     (CHR 0x09, CHR ''t''), (CHR 0x0B, CHR ''v''), (CHR 0x5C, CHR 0x5C), (CHR 0x22, CHR 0x22), (CHR 0x27, CHR 0x27),
     (CHR 0x00, CHR ''0'')] c of Some e \<Rightarrow> CHR 0x5C # e # Recover s | None \<Rightarrow> c # Recover s)"
  by (simp_all only: Recover_def EscapeString.simps)

lemma Normalize_Recover_Cons: "Normalize False (Recover (c # s)) = c # Normalize False (Recover s)"
  unfolding Recover_simps by (auto simp: escapeList_def Normalize_escape Normalize_plain simp del: Normalize.simps split: if_splits)

text \<open>C25: \<open>Normalize\<close> undoes \<open>Recover\<close>: the escapes written for control characters, quotes and backslashes
  read as the characters they stand for, and nothing else of the string is taken for an escape.\<close>

theorem Recover_roundtrip: "Normalize False (Recover s) = s"
  by (induction s) (simp_all add: Normalize_Recover_Cons Recover_simps(1) del: Normalize.simps(2))

text \<open>The number of a sequence of hexadecimal digits.\<close>

definition hex_value :: "string \<Rightarrow> 32 word" where
  "hex_value ds = foldl (\<lambda>n d. n * 16 + the (HexDigit d)) 0 ds"

lemma HexLoop_digits:
  assumes "\<forall>d \<in> set ds. HexDigit d \<noteq> None" "HexDigit c = None"
  shows "HexLoop (ds @ c # s) n = (foldl (\<lambda>n d. n * 16 + the (HexDigit d)) n ds, c # s)"
  using assms by (induction ds arbitrary: n) auto

lemma Normalize_unicode:
  assumes "\<forall>d \<in> set ds. HexDigit d \<noteq> None"
  shows "Normalize False (CHR 0x5C # CHR ''u'' # CHR ''{'' # ds @ CHR ''}'' # s) = CodepointToUTF8 (hex_value ds) @ Normalize False s"
proof -
  have "HexDigit (CHR ''}'') = None" by code_simp
  then have "GetUnicodeAndToUTF8 (ds @ CHR ''}'' # s) = (CodepointToUTF8 (hex_value ds), CHR ''}'' # s)"
    using HexLoop_digits[OF assms] by (simp add: GetUnicodeAndToUTF8_def hex_value_def)
  then show ?thesis by simp
qed

text \<open>An escape \<open>\u{...}\<close> in a string literal contributes exactly its number to the code points of the
  literal, and the characters after it are read as if they stood alone.\<close>

theorem unicode_escape_decodes:
  assumes "\<forall>d \<in> set ds. HexDigit d \<noteq> None" "hex_value ds \<le> UTF8_6_MAX"
  shows "UTF8ToCodepoint (Normalize False (CHR 0x5C # CHR ''u'' # CHR ''{'' # ds @ CHR ''}'' # s)) =
    map_option ((#) (hex_value ds)) (UTF8ToCodepoint (Normalize False s))"
  unfolding Normalize_unicode[OF assms(1)] by (rule decode_point[OF assms(2)])

lemma unicode_escape_decodes_witness:
  "UTF8ToCodepoint (Normalize False (CHR 0x5C # CHR ''u'' # CHR ''{'' # ''4ed3'' @ CHR ''}'' # ''9'')) = Some [0x4ED3, 0x39]"
proof -
  have "\<forall>d \<in> set ''4ed3''. HexDigit d \<noteq> None" "hex_value ''4ed3'' \<le> UTF8_6_MAX" "hex_value ''4ed3'' = 0x4ED3"
    "UTF8ToCodepoint (Normalize False ''9'') = Some [0x39]"
    by code_simp+
  then show ?thesis using unicode_escape_decodes[of "''4ed3''" "''9''"] by (simp only: option.map)
qed

subsection \<open>The guess of the encoding\<close>

lemma uint_as_byte: "uint (as_byte c) = uint (of_byte c)"
proof -
  have less: "(of_char c :: nat) < 256" by (metis of_char_mod_256 mod_less_divisor zero_less_numeral)
  have "unat (as_byte c) = of_char c" by (simp add: as_byte_def unat_of_nat)
  moreover have "(of_char c :: nat) mod 4294967296 = of_char c" by (rule mod_less, rule less_trans[OF less]) simp
  then have "unat (of_byte c) = of_char c" by (simp add: of_byte_def unat_of_nat)
  ultimately have "unat (as_byte c) = unat (of_byte c)" by simp
  then show ?thesis by (simp only: uint_nat)
qed

lemma byte_range:
  assumes "a \<le> uint (as_byte c)" "uint (as_byte c) < b" "\<forall>i \<in> set [a..b - 1]. P (word_of_int i :: 8 word)"
  shows "P (as_byte c)"
proof -
  have "uint (as_byte c) \<in> set [a..b - 1]" using assms(1,2) by simp
  then have "P (word_of_int (uint (as_byte c)))" using assms(3) by blast
  then show ?thesis by simp
qed

lemma following_byte: "as_byte (next_byte w) AND 0xC0 = 0x80" "0x40 \<le> as_byte (next_byte w)" "as_byte (next_byte w) \<le> 0xFE"
  "as_byte (next_byte w) \<noteq> 0x7F"
proof -
  have b: "0x80 \<le> uint (as_byte (next_byte w))" "uint (as_byte (next_byte w)) < 0xC0"
    using flagged_byte(2,3)[of "0x80" 6 w] by (simp_all add: next_byte_def uint_as_byte mask_eq_exp_minus_1)
  show "as_byte (next_byte w) AND 0xC0 = 0x80" by (rule byte_range[OF b]) code_simp
  show "0x40 \<le> as_byte (next_byte w)" "as_byte (next_byte w) \<le> 0xFE" "as_byte (next_byte w) \<noteq> 0x7F"
    using b by (auto simp: word_le_def)
qed

lemma lead_byte_ranges:
  "0xC0 \<le> uint (as_byte (lead_byte 5 0xC0 w))" "uint (as_byte (lead_byte 5 0xC0 w)) < 0xE0"
  "0xE0 \<le> uint (as_byte (lead_byte 4 0xE0 w))" "uint (as_byte (lead_byte 4 0xE0 w)) < 0xF0"
  "0xF0 \<le> uint (as_byte (lead_byte 3 0xF0 w))" "uint (as_byte (lead_byte 3 0xF0 w)) < 0xF8"
  using flagged_byte(2,3)[of "0xC0" 5 w] flagged_byte(2,3)[of "0xE0" 4 w] flagged_byte(2,3)[of "0xF0" 3 w]
  by (simp_all add: lead_byte_def uint_as_byte mask_eq_exp_minus_1)

lemma PreNum_lead: "PreNum (as_byte (lead_byte 5 0xC0 w)) = 2" "PreNum (as_byte (lead_byte 4 0xE0 w)) = 3"
  "PreNum (as_byte (lead_byte 3 0xF0 w)) = 4"
  by (rule byte_range[OF lead_byte_ranges(1,2)], code_simp) (rule byte_range[OF lead_byte_ranges(3,4)], code_simp,
    rule byte_range[OF lead_byte_ranges(5,6)], code_simp)

lemma lead_not_ascii: "as_byte (lead_byte 5 0xC0 w) AND 0x80 \<noteq> 0" "as_byte (lead_byte 4 0xE0 w) AND 0x80 \<noteq> 0"
  "as_byte (lead_byte 3 0xF0 w) AND 0x80 \<noteq> 0"
  by (rule byte_range[OF lead_byte_ranges(1,2)], code_simp) (rule byte_range[OF lead_byte_ranges(3,4)], code_simp,
    rule byte_range[OF lead_byte_ranges(5,6)], code_simp)

lemma ascii_byte: "p \<le> UTF8_1_MAX \<Longrightarrow> as_byte (to_char p) AND 0x80 = 0"
proof -
  assume p: "p \<le> UTF8_1_MAX"
  then have "uint p \<le> 127" by (simp add: UTF8_1_MAX_def word_le_def)
  then have "of_byte (to_char p) = p" by (intro of_byte_to_char) (simp add: word_le_def)
  then have b: "0 \<le> uint (as_byte (to_char p))" "uint (as_byte (to_char p)) < 0x80" using \<open>uint p \<le> 127\<close> by (simp_all add: uint_as_byte)
  show ?thesis by (rule byte_range[OF b]) code_simp
qed

lemma SkipFollowing_next:
  "SkipFollowing (Suc (Suc 0)) (next_byte v # next_byte w # s) = Some s"
  "SkipFollowing (Suc (Suc (Suc 0))) (next_byte u # next_byte v # next_byte w # s) = Some s"
  by (simp_all add: following_byte)

lemma IsUTF8_point:
  assumes "p \<le> UTF8_4_MAX"
  shows "IsUTF8 (CodepointToUTF8 p @ s) = ((p \<le> UTF8_1_MAX \<or> UTF8_2_MAX < p) \<and> IsUTF8 s)"
proof -
  consider "p \<le> UTF8_1_MAX" | "\<not> p \<le> UTF8_1_MAX" "p \<le> UTF8_2_MAX" | "\<not> p \<le> UTF8_1_MAX" "\<not> p \<le> UTF8_2_MAX" "p \<le> UTF8_3_MAX"
    | "\<not> p \<le> UTF8_1_MAX" "\<not> p \<le> UTF8_2_MAX" "\<not> p \<le> UTF8_3_MAX"
    by blast
  then show ?thesis
  proof cases
    case 1
    then show ?thesis by (simp add: CodepointToUTF8_def ascii_byte)
  next
    case 2
    then show ?thesis by (simp add: CodepointToUTF8_def lead_not_ascii PreNum_lead flip: not_le)
  next
    case 3
    then show ?thesis by (simp add: CodepointToUTF8_def lead_not_ascii PreNum_lead SkipFollowing_next[folded numeral_2_eq_2 numeral_3_eq_3] flip: not_le)
  next
    case 4
    then show ?thesis using assms by (simp add: CodepointToUTF8_def lead_not_ascii PreNum_lead SkipFollowing_next[folded numeral_2_eq_2 numeral_3_eq_3] flip: not_le)
  qed
qed

text \<open>C26: of a text in UTF-8 the guess recognises exactly those without a character of two bytes, however
  long; a single such character makes it reject the text.\<close>

theorem IsUTF8_exact:
  assumes "\<forall>p \<in> set ps. p \<le> UTF8_4_MAX"
  shows "IsUTF8 (concat (map CodepointToUTF8 ps)) = list_all (\<lambda>p. p \<le> UTF8_1_MAX \<or> UTF8_2_MAX < p) ps"
  using assms by (induction ps) (simp_all add: IsUTF8_point)

lemma IsUTF8_exact_witness:
  "IsUTF8 (concat (map CodepointToUTF8 [0x41, 0x4ED3, 0x1F600])) \<and> \<not> IsUTF8 (concat (map CodepointToUTF8 [0x41, 0xE9, 0x1F600]))"
  using IsUTF8_exact[of "[0x41, 0x4ED3, 0x1F600]"] IsUTF8_exact[of "[0x41, 0xE9, 0x1F600]"]
  by (simp add: utf8_limits del: IsUTF8.simps)

lemma IsGBK_two_bytes: "IsGBK [lead_byte 5 0xC0 v, next_byte w]"
proof -
  have "0x81 \<le> as_byte (lead_byte 5 0xC0 v)" "as_byte (lead_byte 5 0xC0 v) \<le> 0xFE" "\<not> as_byte (lead_byte 5 0xC0 v) \<le> 0x7F"
    using lead_byte_ranges(1,2)[of v] by (auto simp: word_le_def)
  then show ?thesis by (simp add: following_byte)
qed

text \<open>A text that is one character of two UTF-8 bytes is taken for GBK, so \<open>NormalizeStringToUTF8\<close>, which is
  to give UTF-8, re-encodes text that is UTF-8 already.\<close>

theorem two_byte_point_taken_for_GBK:
  assumes "UTF8_1_MAX < p" "p \<le> UTF8_2_MAX"
  shows "GetStringEncoding (CodepointToUTF8 p) = GBK \<and>
    NormalizeStringToUTF8 GBKToUTF8 (CodepointToUTF8 p) = GBKToUTF8 (CodepointToUTF8 p)"
proof -
  have "p \<le> UTF8_4_MAX" using assms(2) by (simp add: utf8_limits word_le_def)
  then have "\<not> IsUTF8 (CodepointToUTF8 p)" using IsUTF8_point[of p "[]"] assms by (auto simp del: IsUTF8.simps)
  moreover have "\<not> p \<le> UTF8_1_MAX" using assms(1) by (simp only: not_le)
  then have "IsGBK (CodepointToUTF8 p)" using assms by (simp add: CodepointToUTF8_def IsGBK_two_bytes del: IsGBK.simps)
  ultimately show ?thesis by (simp add: GetStringEncoding_def NormalizeStringToUTF8_def)
qed

end
