(* ===== verification/UsefulnessDefs.thy ===== *)
theory UsefulnessDefs
  imports Main "HOL-Library.Word" "HOL-Library.Monad_Syntax"
begin

section \<open>Usefulness of patterns\<close>

text \<open>
  \<open>Sema/PatternUsefulness.cpp\<close>: whether the cases of a \<open>match\<close> are reachable and cover every value. The
  pattern matrix, its specialisation by constructors, the search for witnesses, and the check of a
  match expression, with the cases and patterns it marks as unreachable.

  A \<open>Ty*\<close> is a term. What the check asks of the rest of the semantic analysis is a record: the
  constructors of an enum with their instantiated types, the declarations of classes and interfaces,
  and the queries to \<open>TypeManager\<close>. A \<open>PatternStack\<close> is a list with its head first, where the code keeps
  the head at the back.
\<close>

subsection \<open>Types and declarations\<close>

datatype SemaTy =
    UnitTy | BooleanTy | NothingTy | TupleTy "SemaTy list" | EnumTy nat "SemaTy list"
  | ClassLikeTy nat "SemaTy list" | FuncTy "SemaTy list" SemaTy | GenericsTy nat
  | OtherTy nat "SemaTy list" | InvalidTy

fun typeArgs :: "SemaTy \<Rightarrow> SemaTy list" where
  "typeArgs (TupleTy ts) = ts"
| "typeArgs (EnumTy d ts) = ts"
| "typeArgs (ClassLikeTy c ts) = ts"
| "typeArgs (FuncTy ps r) = ps @ [r]"
| "typeArgs (OtherTy n ts) = ts"
| "typeArgs t = []"

fun IsTyCorrect :: "SemaTy \<Rightarrow> bool" where
  "IsTyCorrect InvalidTy = False"
| "IsTyCorrect (TupleTy ts) = list_all IsTyCorrect ts"
| "IsTyCorrect (EnumTy d ts) = list_all IsTyCorrect ts"
| "IsTyCorrect (ClassLikeTy c ts) = list_all IsTyCorrect ts"
| "IsTyCorrect (FuncTy ps r) = (list_all IsTyCorrect ps \<and> IsTyCorrect r)"
| "IsTyCorrect (OtherTy n ts) = list_all IsTyCorrect ts"
| "IsTyCorrect t = True"

fun HasGeneric :: "SemaTy \<Rightarrow> bool" where
  "HasGeneric (GenericsTy n) = True"
| "HasGeneric (TupleTy ts) = list_ex HasGeneric ts"
| "HasGeneric (EnumTy d ts) = list_ex HasGeneric ts"
| "HasGeneric (ClassLikeTy c ts) = list_ex HasGeneric ts"
| "HasGeneric (FuncTy ps r) = (list_ex HasGeneric ps \<or> HasGeneric r)"
| "HasGeneric (OtherTy n ts) = list_ex HasGeneric ts"
| "HasGeneric t = False"

fun IsEnum :: "SemaTy \<Rightarrow> bool" where
  "IsEnum (EnumTy d ts) = True"
| "IsEnum t = False"

fun IsTuple :: "SemaTy \<Rightarrow> bool" where
  "IsTuple (TupleTy ts) = True"
| "IsTuple t = False"

text \<open>A member of a class body and a class or interface; \<open>directSubtypes\<close> are those of the type
  without type arguments, in the order of their names.\<close>

record MemberDecl =
  CONSTRUCTOR :: bool
  PUBLIC :: bool
  PROTECTED :: bool

record ClassLikeDecl =
  IsInterface :: bool
  SEALED :: bool
  PRIVATE :: bool
  OPEN :: bool
  ABSTRACT :: bool
  COMMON :: bool
  SPECIFIC :: bool
  FROM_COMMON_PART :: bool
  FOREIGN :: bool
  IsCType :: bool
  body_decls :: "MemberDecl list"
  curPackage :: "nat option"
  directSubtypes :: "SemaTy list"

record SemaEnv =
  EnumCtors :: "nat \<Rightarrow> SemaTy list \<Rightarrow> (string \<times> SemaTy) list"
  EnumIsNonExhaustive :: "nat \<Rightarrow> bool"
  ClassDecls :: "ClassLikeDecl list"
  currentPackage :: "nat option"
  IsSubtype :: "SemaTy \<Rightarrow> SemaTy \<Rightarrow> bool"
  ReplaceThisTy :: "SemaTy \<Rightarrow> SemaTy"
  TryGreedySubst :: "SemaTy \<Rightarrow> SemaTy"

definition IsValidTy :: "SemaEnv \<Rightarrow> SemaTy \<Rightarrow> bool" where
  "IsValidTy E ty \<longleftrightarrow> IsTyCorrect ty \<and>
     (case ty of EnumTy d ts \<Rightarrow> list_all (\<lambda>(identifier, t). IsTyCorrect t) (EnumCtors E d ts) | _ \<Rightarrow> True)"

definition IsSealedLikeCommon :: "ClassLikeDecl \<Rightarrow> bool" where
  "IsSealedLikeCommon decl \<longleftrightarrow> SEALED decl \<or> PRIVATE decl"

definition HasVisibleInit :: "ClassLikeDecl \<Rightarrow> bool" where
  "HasVisibleInit cd \<longleftrightarrow> list_ex (\<lambda>decl. CONSTRUCTOR decl \<and> (PUBLIC decl \<or> PROTECTED decl)) (body_decls cd)"

definition IsSealedLike :: "SemaEnv \<Rightarrow> SemaTy \<Rightarrow> bool" where
  "IsSealedLike E ty \<longleftrightarrow> (case ty of
     ClassLikeTy c ts \<Rightarrow>
       let decl = ClassDecls E ! c
       in if \<not> IsInterface decl then IsSealedLikeCommon decl \<or> \<not> HasVisibleInit decl else IsSealedLikeCommon decl
   | _ \<Rightarrow> True)"

definition IsCurrentPackageDecl :: "ClassLikeDecl \<Rightarrow> nat \<Rightarrow> bool" where
  "IsCurrentPackageDecl decl package \<longleftrightarrow> curPackage decl = Some package"

definition IsClosedSealedRoot :: "ClassLikeDecl \<Rightarrow> bool" where
  "IsClosedSealedRoot decl = (if \<not> SEALED decl then False else IsInterface decl \<or> ABSTRACT decl)"

definition IsClosedSealedLeaf :: "ClassLikeDecl \<Rightarrow> bool" where
  "IsClosedSealedLeaf decl \<longleftrightarrow> \<not> IsInterface decl \<and> \<not> (OPEN decl \<or> SEALED decl \<or> ABSTRACT decl)"

text \<open>The hierarchy of classes has no cycle, so that it is no deeper than there are classes.\<close>

fun IsClosedSealedHierarchy :: "SemaEnv \<Rightarrow> nat \<Rightarrow> SemaTy \<Rightarrow> nat \<Rightarrow> bool \<Rightarrow> bool" where
  "IsClosedSealedHierarchy E 0 ty package isRoot = False"
| "IsClosedSealedHierarchy E (Suc k) ty package isRoot = (case ty of
     ClassLikeTy c ts \<Rightarrow>
       let decl = ClassDecls E ! c in
       if \<not> c < length (ClassDecls E) \<or> ts \<noteq> [] \<or> IsCType decl then False
       else if COMMON decl \<or> SPECIFIC decl \<or> FROM_COMMON_PART decl \<or> \<not> IsCurrentPackageDecl decl package \<or>
           FOREIGN decl \<or> (if isRoot then \<not> IsClosedSealedRoot decl else \<not> IsClosedSealedLeaf decl) then False
       else list_all (\<lambda>subTy. IsTyCorrect subTy \<and> IsClosedSealedHierarchy E k subTy package False) (directSubtypes decl)
   | _ \<Rightarrow> False)"

subsection \<open>Literals and constructors\<close>

text \<open>A float is its value in units of the least positive number, \<^const>\<open>None\<close> if it is infinite: the
  difference of two infinite values is not zero.\<close>

datatype Lit =
    UnitLit | NoneLit | BoolLit bool | IntegerLit "64 word" | RuneByteLit "64 word" | FloatLit "int option"
  | RuneLit string | StringLit string | JStringLit string

definition LitConstExprEq :: "Lit \<Rightarrow> Lit \<Rightarrow> bool" where
  "LitConstExprEq left right = (case left of
     UnitLit \<Rightarrow> right = UnitLit
   | NoneLit \<Rightarrow> right = NoneLit
   | BoolLit b \<Rightarrow> right = BoolLit b
   | IntegerLit n \<Rightarrow> right = IntegerLit n
   | RuneByteLit n \<Rightarrow> right = RuneByteLit n
   | FloatLit x \<Rightarrow> x \<noteq> None \<and> right = FloatLit x
   | RuneLit s \<Rightarrow> right = RuneLit s
   | StringLit s \<Rightarrow> right = StringLit s
   | JStringLit s \<Rightarrow> right = JStringLit s)"

datatype Constructor =
    C_Unit | C_Boolean bool | C_NonExhaustiveLiteral Lit | C_Enum string SemaTy | C_NonExhaustiveEnum
  | C_Tuple nat | C_Type SemaTy | C_Wildcard | C_Missing | C_Or nat | C_Invalid

text \<open>The number of parameters of an enum constructor is that of its function type.\<close>

fun Arity :: "Constructor \<Rightarrow> nat" where
  "Arity (C_Enum identifier (FuncTy ps r)) = length ps"
| "Arity (C_Tuple numArgs) = numArgs"
| "Arity (C_Or numArgs) = numArgs"
| "Arity c = 0"

definition EnumConstructor :: "string \<Rightarrow> SemaTy \<Rightarrow> Constructor" where
  "EnumConstructor identifier ty = (if \<not> IsTyCorrect ty then C_Invalid else C_Enum identifier ty)"

definition FromLitConstExpr :: "Lit \<Rightarrow> Constructor" where
  "FromLitConstExpr lit = (case lit of UnitLit \<Rightarrow> C_Unit | BoolLit b \<Rightarrow> C_Boolean b | _ \<Rightarrow> C_NonExhaustiveLiteral lit)"

definition IsCoveredBy :: "SemaEnv \<Rightarrow> Constructor \<Rightarrow> Constructor \<Rightarrow> bool" where
  "IsCoveredBy E this other =
     (if other = C_Wildcard \<or> other = C_Missing then True
      else case this of
        C_Wildcard \<Rightarrow> False
      | C_Missing \<Rightarrow> False
      | C_Unit \<Rightarrow> other = C_Unit
      | C_Boolean b \<Rightarrow> other = C_Boolean b
      | C_NonExhaustiveLiteral l \<Rightarrow> (case other of C_NonExhaustiveLiteral l' \<Rightarrow> LitConstExprEq l l' | _ \<Rightarrow> False)
      | C_NonExhaustiveEnum \<Rightarrow> other = C_Wildcard \<or> other = C_NonExhaustiveEnum
      | C_Enum identifier ty \<Rightarrow> (case other of
          C_Enum identifier' ty' \<Rightarrow> identifier = identifier' \<and> IsEnum ty = IsEnum ty' \<and>
            length (typeArgs ty) = length (typeArgs ty')
        | _ \<Rightarrow> False)
      | C_Tuple n \<Rightarrow> (case other of C_Tuple n' \<Rightarrow> True | _ \<Rightarrow> False)
      | C_Type ty \<Rightarrow> (case other of C_Type ty' \<Rightarrow> IsSubtype E ty ty' | _ \<Rightarrow> False)
      | _ \<Rightarrow> False)"

subsection \<open>Patterns\<close>

text \<open>The patterns of the syntax tree with their nodes and types; the target of an enum pattern is its
  constructor with the type instantiated for the type of the pattern.\<close>

datatype Pattern =
    ConstPattern nat SemaTy Lit
  | TuplePattern nat SemaTy "Pattern list"
  | EnumPattern nat SemaTy "(string \<times> SemaTy) option" "Pattern list"
  | TypePattern nat SemaTy
  | WildcardPattern nat SemaTy
  | VarPattern nat SemaTy
  | VarOrEnumPattern nat SemaTy Pattern

fun PatternNode :: "Pattern \<Rightarrow> nat" where
  "PatternNode (ConstPattern n ty l) = n"
| "PatternNode (TuplePattern n ty ps) = n"
| "PatternNode (EnumPattern n ty c ps) = n"
| "PatternNode (TypePattern n ty) = n"
| "PatternNode (WildcardPattern n ty) = n"
| "PatternNode (VarPattern n ty) = n"
| "PatternNode (VarOrEnumPattern n ty p) = n"

fun PatternTy :: "Pattern \<Rightarrow> SemaTy" where
  "PatternTy (ConstPattern n ty l) = ty"
| "PatternTy (TuplePattern n ty ps) = ty"
| "PatternTy (EnumPattern n ty c ps) = ty"
| "PatternTy (TypePattern n ty) = ty"
| "PatternTy (WildcardPattern n ty) = ty"
| "PatternTy (VarPattern n ty) = ty"
| "PatternTy (VarOrEnumPattern n ty p) = ty"

datatype DestructedPattern =
  DP (Ctor: Constructor) (SubPatterns: "DestructedPattern list") (GoalTy: SemaTy) (Node: "nat option")

definition InvalidDP :: "nat \<Rightarrow> DestructedPattern" where
  "InvalidDP node = DP C_Invalid [] InvalidTy (Some node)"

text \<open>The parts of a pattern by its kind. \<open>sub\<close> is the destruction of its patterns for a list of goal types.\<close>

definition FromConstPattern :: "nat \<Rightarrow> SemaTy \<Rightarrow> Lit \<Rightarrow> DestructedPattern" where
  "FromConstPattern n ty literal = DP (FromLitConstExpr literal) [] ty (Some n)"

definition FromTuplePattern :: "nat \<Rightarrow> SemaTy \<Rightarrow> (SemaTy list \<Rightarrow> DestructedPattern list) \<Rightarrow> DestructedPattern" where
  "FromTuplePattern n ty sub = (let subPatterns = sub (typeArgs ty) in DP (C_Tuple (length subPatterns)) subPatterns ty (Some n))"

definition FromEnumPattern ::
  "nat \<Rightarrow> SemaTy \<Rightarrow> (string \<times> SemaTy) option \<Rightarrow> (SemaTy list \<Rightarrow> DestructedPattern list) \<Rightarrow> DestructedPattern" where
  "FromEnumPattern n ty target sub = (case target of
     None \<Rightarrow> InvalidDP n
   | Some (identifier, instTy) \<Rightarrow>
       let ctor = EnumConstructor identifier instTy
       in (case instTy of FuncTy paramTys r \<Rightarrow> DP ctor (sub paramTys) ty (Some n) | _ \<Rightarrow> DP ctor [] ty (Some n)))"

definition FromTypePattern :: "SemaEnv \<Rightarrow> SemaTy \<Rightarrow> nat \<Rightarrow> SemaTy \<Rightarrow> DestructedPattern" where
  "FromTypePattern E goalTy n ty =
     (if ty \<noteq> NothingTy \<and> IsSubtype E goalTy ty then DP C_Wildcard [] goalTy (Some n)
      else DP (C_Type ty) [] goalTy (Some n))"

fun FromPattern :: "SemaEnv \<Rightarrow> SemaTy \<Rightarrow> Pattern \<Rightarrow> DestructedPattern"
  and SubPatternsFromPatterns :: "SemaEnv \<Rightarrow> SemaTy list \<Rightarrow> Pattern list \<Rightarrow> DestructedPattern list" where
  "FromPattern E goalTy pattern =
     (let goal = ReplaceThisTy E goalTy in
      if \<not> IsTyCorrect (PatternTy pattern) \<or> \<not> IsValidTy E (PatternTy pattern) then InvalidDP (PatternNode pattern)
      else case pattern of
        ConstPattern n ty literal \<Rightarrow> FromConstPattern n ty literal
      | TuplePattern n ty patterns \<Rightarrow> FromTuplePattern n ty (\<lambda>goalTys. SubPatternsFromPatterns E goalTys patterns)
      | EnumPattern n ty target patterns \<Rightarrow> FromEnumPattern n ty target (\<lambda>goalTys. SubPatternsFromPatterns E goalTys patterns)
      | TypePattern n ty \<Rightarrow> FromTypePattern E goal n ty
      | WildcardPattern n ty \<Rightarrow> DP C_Wildcard [] goal (Some n)
      | VarPattern n ty \<Rightarrow> DP C_Wildcard [] goal (Some n)
      | VarOrEnumPattern n ty p \<Rightarrow> FromPattern E goal p)"
| "SubPatternsFromPatterns E (goalTy # goalTys) (p # patterns) =
     FromPattern E goalTy p # SubPatternsFromPatterns E goalTys patterns"
| "SubPatternsFromPatterns E goalTys patterns = []"

definition FromPatterns :: "SemaEnv \<Rightarrow> SemaTy \<Rightarrow> Pattern list \<Rightarrow> DestructedPattern" where
  "FromPatterns E goalTy patterns =
     (if list_ex (\<lambda>p. \<not> IsTyCorrect (PatternTy p) \<or> \<not> IsValidTy E (PatternTy p)) patterns
      then InvalidDP (PatternNode (hd patterns))
      else if length patterns = 1 then FromPattern E goalTy (hd patterns)
      else
        let subPatterns = map (FromPattern E goalTy) patterns
        in DP (C_Or (length subPatterns)) subPatterns goalTy (Some (PatternNode (hd patterns))))"

definition IsUnreachableTypePattern :: "SemaEnv \<Rightarrow> DestructedPattern \<Rightarrow> bool" where
  "IsUnreachableTypePattern E p = (case Ctor p of
     C_Type patternTy \<Rightarrow>
       if patternTy = NothingTy then True
       else if HasGeneric (GoalTy p) \<or> HasGeneric patternTy \<or> \<not> IsSealedLike E (GoalTy p) \<or> \<not> IsSealedLike E patternTy
       then False
       else \<not> IsSubtype E (GoalTy p) patternTy \<and> \<not> IsSubtype E patternTy (GoalTy p)
   | _ \<Rightarrow> False)"

fun AllWildcard :: "DestructedPattern \<Rightarrow> bool" where
  "AllWildcard (DP ctor subPatterns goalTy node) =
     (ctor = C_Wildcard \<or> ((case ctor of C_Tuple n \<Rightarrow> True | _ \<Rightarrow> False) \<and> list_all AllWildcard subPatterns))"

definition WildcardOf :: "SemaTy \<Rightarrow> DestructedPattern" where
  "WildcardOf ty = DP C_Wildcard [] ty None"

definition SpecializeWildcard :: "SemaTy \<Rightarrow> Constructor \<Rightarrow> DestructedPattern list" where
  "SpecializeWildcard ty ctor = (case ctor of
     C_Tuple n \<Rightarrow> map (\<lambda>i. WildcardOf (typeArgs ty ! i)) [0..<n]
   | C_Enum identifier ctorTy \<Rightarrow> (case ctorTy of FuncTy paramTys r \<Rightarrow> map WildcardOf paramTys | _ \<Rightarrow> [])
   | _ \<Rightarrow> [])"

definition Specialize :: "DestructedPattern \<Rightarrow> Constructor \<Rightarrow> DestructedPattern list" where
  "Specialize p otherCtor = (if Ctor p = C_Wildcard then SpecializeWildcard (GoalTy p) otherCtor else SubPatterns p)"

subsection \<open>Pattern stacks and the matrix\<close>

type_synonym PatternStack = "DestructedPattern list"

definition ReplaceHead :: "PatternStack \<Rightarrow> DestructedPattern \<Rightarrow> PatternStack" where
  "ReplaceHead stack newHead = newHead # tl stack"

definition PS_Specialize :: "PatternStack \<Rightarrow> Constructor \<Rightarrow> PatternStack" where
  "PS_Specialize stack ctor = Specialize (hd stack) ctor @ tl stack"

definition PS_Apply :: "PatternStack \<Rightarrow> Constructor \<Rightarrow> SemaTy \<Rightarrow> PatternStack" where
  "PS_Apply stack ctor ty = DP ctor (take (Arity ctor) stack) ty None # drop (Arity ctor) stack"

definition ExpandOr :: "PatternStack \<Rightarrow> PatternStack list" where
  "ExpandOr stack = map (ReplaceHead stack) (SubPatterns (hd stack))"

type_synonym Matrix = "PatternStack list"

definition HasSingleRowAndAllWildcard :: "Matrix \<Rightarrow> bool" where
  "HasSingleRowAndAllWildcard rows \<longleftrightarrow> length rows = 1 \<and> list_all AllWildcard (hd rows)"

definition MissingAll :: "Matrix \<Rightarrow> bool" where
  "MissingAll rows \<longleftrightarrow> list_all (\<lambda>row. row = []) rows"

definition HeadsAllWildcard :: "Matrix \<Rightarrow> bool" where
  "HeadsAllWildcard rows \<longleftrightarrow> list_all (\<lambda>row. if row = [] then False else AllWildcard (hd row)) rows"

definition M_Specialize :: "SemaEnv \<Rightarrow> Matrix \<Rightarrow> Constructor \<Rightarrow> Matrix" where
  "M_Specialize E rows ctor =
     map (\<lambda>row. PS_Specialize row ctor) (filter (\<lambda>row. IsCoveredBy E ctor (Ctor (hd row))) rows)"

definition AppendRows :: "Matrix \<Rightarrow> PatternStack list \<Rightarrow> Matrix" where
  "AppendRows rows newRows = rows @ newRows"

subsection \<open>The search for witnesses\<close>

definition SplitWildcardForClosedSealed :: "ClassLikeDecl \<Rightarrow> Constructor list" where
  "SplitWildcardForClosedSealed sealed = map C_Type (directSubtypes sealed)"

definition SplitWildcard :: "SemaEnv \<Rightarrow> SemaTy \<Rightarrow> Matrix \<Rightarrow> Constructor list" where
  "SplitWildcard E ty matrix =
     (if MissingAll matrix then [C_Wildcard]
      else case (ty, currentPackage E) of
        (ClassLikeTy c ts, Some package) \<Rightarrow>
          if IsClosedSealedHierarchy E (length (ClassDecls E)) ty package True
          then SplitWildcardForClosedSealed (ClassDecls E ! c) else [C_Missing]
      | _ \<Rightarrow>
          if \<not> IsTyCorrect ty then [C_Missing]
          else (case ty of
            UnitTy \<Rightarrow> [C_Unit]
          | BooleanTy \<Rightarrow> [C_Boolean False, C_Boolean True]
          | TupleTy ts \<Rightarrow> [C_Tuple (length ts)]
          | EnumTy d ts \<Rightarrow> map (\<lambda>(identifier, t). EnumConstructor identifier t) (EnumCtors E d ts) @
              (if EnumIsNonExhaustive E d then [C_NonExhaustiveEnum] else [])
          | _ \<Rightarrow> [C_Missing]))"

text \<open>The witnesses that a search finds, with the patterns that it marks as unreachable on the way. The
  searches call each other; the parts that \<open>FindWitnesses\<close> calls take it as an argument.\<close>

type_synonym Found = "PatternStack list \<times> nat list"

definition FindWitnessesBySpecialization ::
  "SemaEnv \<Rightarrow> (Matrix \<Rightarrow> PatternStack \<Rightarrow> Found option) \<Rightarrow> Matrix \<Rightarrow> PatternStack \<Rightarrow> Constructor \<Rightarrow> Found option" where
  "FindWitnessesBySpecialization E search matrix vec ctor =
     map_option (\<lambda>(witnesses, marks). (map (\<lambda>w. PS_Apply w ctor (GoalTy (hd vec))) witnesses, marks))
       (search (M_Specialize E matrix ctor) (PS_Specialize vec ctor))"

fun WitnessesOfCtors ::
  "SemaEnv \<Rightarrow> (Matrix \<Rightarrow> PatternStack \<Rightarrow> Found option) \<Rightarrow> Matrix \<Rightarrow> PatternStack \<Rightarrow> Constructor list \<Rightarrow> Found option" where
  "WitnessesOfCtors E search matrix vec [] = Some ([], [])"
| "WitnessesOfCtors E search matrix vec (ctor # ctors) = do {
     (ws, marks) \<leftarrow> FindWitnessesBySpecialization E search matrix vec ctor;
     (ws', marks') \<leftarrow> WitnessesOfCtors E search matrix vec ctors;
     Some (ws @ ws', marks @ marks')
   }"

definition FindWitnessesForWildcard ::
  "SemaEnv \<Rightarrow> (Matrix \<Rightarrow> PatternStack \<Rightarrow> Found option) \<Rightarrow> Matrix \<Rightarrow> PatternStack \<Rightarrow> Found option" where
  "FindWitnessesForWildcard E search matrix vec =
     (if HeadsAllWildcard matrix then FindWitnessesBySpecialization E search matrix vec (Ctor (hd vec))
      else
        let goalTy = GoalTy (hd vec) in
        if IsTuple goalTy then
          let tuple = C_Tuple (length (typeArgs goalTy))
          in search matrix (PS_Apply (PS_Specialize vec tuple) tuple goalTy)
        else WitnessesOfCtors E search matrix vec (SplitWildcard E goalTy matrix))"

text \<open>The loop over the alternatives: the matrix grows by the witnesses, alternatives without
  witnesses are remembered.\<close>

fun OrLoop ::
  "(Matrix \<Rightarrow> PatternStack \<Rightarrow> Found option) \<Rightarrow> Matrix \<Rightarrow> PatternStack list \<Rightarrow> nat list \<Rightarrow> Found \<Rightarrow>
     (nat list \<times> Found) option" where
  "OrLoop search matrix [] unreachables found = Some (unreachables, found)"
| "OrLoop search matrix (vec # vecs) unreachables (totalWitnesses, marks) = do {
     (witnesses, ms) \<leftarrow> search matrix vec;
     if witnesses = []
     then OrLoop search matrix vecs (unreachables @ (case Node (hd vec) of None \<Rightarrow> [] | Some n \<Rightarrow> [n])) (totalWitnesses, marks @ ms)
     else OrLoop search (AppendRows matrix witnesses) vecs unreachables (totalWitnesses @ witnesses, marks @ ms)
   }"

definition FindWitnessesForExpandedOr ::
  "(Matrix \<Rightarrow> PatternStack \<Rightarrow> Found option) \<Rightarrow> Matrix \<Rightarrow> PatternStack list \<Rightarrow> Found option" where
  "FindWitnessesForExpandedOr search matrix vecs =
     map_option (\<lambda>(unreachables, (totalWitnesses, marks)).
         (totalWitnesses, if totalWitnesses \<noteq> [] then marks @ unreachables else marks))
       (OrLoop search matrix vecs [] ([], []))"

text \<open>The depth of the recursion is bounded by the first argument; the theorems show that some bound is
  enough.\<close>

fun FindWitnesses :: "nat \<Rightarrow> SemaEnv \<Rightarrow> Matrix \<Rightarrow> PatternStack \<Rightarrow> Found option" where
  "FindWitnesses 0 E matrix vec = None"
| "FindWitnesses (Suc k) E matrix vec =
     (if vec = [] then Some (if matrix = [] then [[]] else [], [])
      else if HasSingleRowAndAllWildcard matrix then Some ([], [])
      else
        let head = hd vec; search = FindWitnesses k E in
        if IsUnreachableTypePattern E head then Some ([], [])
        else if Ctor head = C_Wildcard then FindWitnessesForWildcard E search matrix vec
        else case Ctor head of
          C_Or n \<Rightarrow> FindWitnessesForExpandedOr search matrix (ExpandOr vec)
        | C_Type ty \<Rightarrow> do {
            (ws, marks) \<leftarrow> FindWitnessesForWildcard E search matrix (ReplaceHead vec (WildcardOf (GoalTy head)));
            if ws = [] then Some ([], marks)
            else map_option (\<lambda>(witnesses, marks'). (witnesses, marks @ marks'))
              (FindWitnessesBySpecialization E search matrix vec (C_Type ty))
          }
        | ctor \<Rightarrow> FindWitnessesBySpecialization E search matrix vec ctor)"

subsection \<open>The check of a match expression\<close>

record MatchCase =
  case_patterns :: "Pattern list"
  patternGuard :: bool

datatype Mark = UnreachableCase nat | UnreachablePattern nat

text \<open>One round of the loop over the cases, with the matrix and the marks so far.\<close>

definition CheckMatchCase ::
  "nat \<Rightarrow> SemaEnv \<Rightarrow> SemaTy \<Rightarrow> nat \<Rightarrow> MatchCase \<Rightarrow> Matrix \<times> Mark list \<Rightarrow> (Matrix \<times> Mark list) option" where
  "CheckMatchCase fuel E selectorTy i mc = (\<lambda>(matrix, marks).
     if case_patterns mc = [] then Some (matrix, marks)
     else do {
       (witnesses, nodes) \<leftarrow> FindWitnesses fuel E matrix [FromPatterns E selectorTy (case_patterns mc)];
       let marks' = marks @ map UnreachablePattern nodes;
       Some (if witnesses \<noteq> [] then (if \<not> patternGuard mc then AppendRows matrix witnesses else matrix, marks')
         else (matrix, marks' @ [UnreachableCase i]))
     })"

fun CheckMatchCases ::
  "nat \<Rightarrow> SemaEnv \<Rightarrow> SemaTy \<Rightarrow> nat \<Rightarrow> MatchCase list \<Rightarrow> Matrix \<times> Mark list \<Rightarrow> (Matrix \<times> Mark list) option" where
  "CheckMatchCases fuel E selectorTy i [] s = Some s"
| "CheckMatchCases fuel E selectorTy i (mc # mcs) s =
     Option.bind (CheckMatchCase fuel E selectorTy i mc s) (CheckMatchCases fuel E selectorTy (Suc i) mcs)"

text \<open>The result: whether the cases are exhaustive, the patterns that are reported as not covered, and
  the marks. A selector without a valid type ends the check at once.\<close>

definition CheckMatchExpr ::
  "nat \<Rightarrow> SemaEnv \<Rightarrow> SemaTy option \<Rightarrow> MatchCase list \<Rightarrow> (bool \<times> PatternStack list \<times> Mark list) option" where
  "CheckMatchExpr fuel E selector cases = (case selector of
     None \<Rightarrow> Some (True, [], [])
   | Some ty \<Rightarrow>
       if \<not> IsValidTy E ty then Some (True, [], [])
       else
         let selectorTy = ReplaceThisTy E (TryGreedySubst E ty) in do {
           (matrix, marks) \<leftarrow> CheckMatchCases fuel E selectorTy 0 cases ([], []);
           (witnesses, nodes) \<leftarrow> FindWitnesses fuel E matrix [WildcardOf selectorTy];
           let marks' = marks @ map UnreachablePattern nodes;
           Some (if witnesses = [] then (True, [], marks') else (False, witnesses, marks'))
         })"

end
