(* ===== verification/Usefulness.thy ===== *)
theory Usefulness
  imports UsefulnessDefs
begin

section \<open>The check of match expressions is sound\<close>

text \<open>
  What patterns mean for values, and what the search for witnesses delivers: the values that a row of
  patterns matches are those of the matrix and those of the witnesses. A match expression that passes
  the check has a case without a guard for every value of its selector.
\<close>

subsection \<open>Values\<close>

text \<open>\<open>V_OtherEnum\<close> is a value of an enum with further constructors, \<open>V_Object\<close> an object.\<close>

datatype Val =
    V_Unit | V_Bool bool | V_Lit Lit | V_Tuple "Val list" | V_Enum string "Val list" | V_OtherEnum | V_Object nat

fun matches :: "(Val \<Rightarrow> SemaTy \<Rightarrow> bool) \<Rightarrow> DestructedPattern \<Rightarrow> Val \<Rightarrow> bool" where
  "matches H (DP ctor subs goal node) v = (case ctor of
     C_Unit \<Rightarrow> v = V_Unit
   | C_Boolean b \<Rightarrow> v = V_Bool b
   | C_NonExhaustiveLiteral l \<Rightarrow> (case v of V_Lit l' \<Rightarrow> LitConstExprEq l' l | _ \<Rightarrow> False)
   | C_Enum ident ty \<Rightarrow>
       (case v of V_Enum ident' vs \<Rightarrow> ident' = ident \<and> list_all2 (matches H) subs vs | _ \<Rightarrow> False)
   | C_NonExhaustiveEnum \<Rightarrow> v = V_OtherEnum
   | C_Tuple n \<Rightarrow> (case v of V_Tuple vs \<Rightarrow> list_all2 (matches H) subs vs | _ \<Rightarrow> False)
   | C_Type ty \<Rightarrow> H v ty
   | C_Wildcard \<Rightarrow> True
   | C_Missing \<Rightarrow> True
   | C_Or n \<Rightarrow> list_ex (\<lambda>p. matches H p v) subs
   | C_Invalid \<Rightarrow> False)"

text \<open>What the type checker guarantees of the values of a type and of its queries.\<close>

definition param_tys :: "SemaTy \<Rightarrow> SemaTy list" where
  "param_tys ty = (case ty of FuncTy ps r \<Rightarrow> ps | _ \<Rightarrow> [])"

definition ctors_of :: "SemaEnv \<Rightarrow> SemaTy \<Rightarrow> (string \<times> SemaTy) list" where
  "ctors_of E t = (case t of EnumTy d ts \<Rightarrow> EnumCtors E d ts | _ \<Rightarrow> [])"

definition env_ok :: "SemaEnv \<Rightarrow> bool" where
  "env_ok E \<longleftrightarrow> (\<forall>d ts ident ty. (ident, ty) \<in> set (EnumCtors E d ts) \<longrightarrow>
     (IsTyCorrect (EnumTy d ts) \<longrightarrow> IsTyCorrect ty) \<and>
     (ty = EnumTy d ts \<or> (\<exists>ps. ty = FuncTy ps (EnumTy d ts))) \<and>
     (\<forall>ty'. (ident, ty') \<in> set (EnumCtors E d ts) \<and> length (param_tys ty') = length (param_tys ty) \<longrightarrow> ty' = ty))"

definition typing_laws :: "SemaEnv \<Rightarrow> (Val \<Rightarrow> SemaTy \<Rightarrow> bool) \<Rightarrow> bool" where
  "typing_laws E H \<longleftrightarrow>
     (\<forall>v. H v UnitTy \<longrightarrow> v = V_Unit) \<and>
     (\<forall>v. H v BooleanTy \<longrightarrow> (\<exists>b. v = V_Bool b)) \<and>
     (\<forall>v. \<not> H v NothingTy) \<and>
     (\<forall>v ts. H v (TupleTy ts) \<longrightarrow> (\<exists>vs. v = V_Tuple vs \<and> list_all2 H vs ts)) \<and>
     (\<forall>v d ts. H v (EnumTy d ts) \<longrightarrow>
        (\<exists>ident ty vs. (ident, ty) \<in> set (EnumCtors E d ts) \<and> v = V_Enum ident vs \<and> list_all2 H vs (param_tys ty)) \<or>
        EnumIsNonExhaustive E d \<and> v = V_OtherEnum) \<and>
     (\<forall>v c ts package. H v (ClassLikeTy c ts) \<and> currentPackage E = Some package \<and>
        IsClosedSealedHierarchy E (length (ClassDecls E)) (ClassLikeTy c ts) package True \<longrightarrow>
        (\<exists>t \<in> set (directSubtypes (ClassDecls E ! c)). H v t)) \<and>
     (\<forall>v s t. IsSubtype E s t \<and> H v s \<longrightarrow> H v t)"

lemma typing_lawsD:
  assumes "typing_laws E H"
  shows "H v UnitTy \<Longrightarrow> v = V_Unit" "H v BooleanTy \<Longrightarrow> \<exists>b. v = V_Bool b" "\<not> H v NothingTy"
    "H v (TupleTy ts) \<Longrightarrow> \<exists>vs. v = V_Tuple vs \<and> list_all2 H vs ts"
    "H v (EnumTy d ts) \<Longrightarrow> (\<exists>ident ty vs. (ident, ty) \<in> set (EnumCtors E d ts) \<and> v = V_Enum ident vs \<and>
        list_all2 H vs (param_tys ty)) \<or> EnumIsNonExhaustive E d \<and> v = V_OtherEnum"
    "H v (ClassLikeTy c ts) \<Longrightarrow> currentPackage E = Some package \<Longrightarrow>
        IsClosedSealedHierarchy E (length (ClassDecls E)) (ClassLikeTy c ts) package True \<Longrightarrow>
        \<exists>t \<in> set (directSubtypes (ClassDecls E ! c)). H v t"
    "IsSubtype E s t \<Longrightarrow> H v s \<Longrightarrow> H v t"
  using assms unfolding typing_laws_def by blast+

lemma env_okD:
  assumes "env_ok E" "(ident, ty) \<in> set (ctors_of E t)"
  shows "IsTyCorrect t \<Longrightarrow> IsTyCorrect ty" "ty = t \<or> (\<exists>ps. ty = FuncTy ps t)" "IsEnum t"
    "(ident, ty') \<in> set (ctors_of E t) \<Longrightarrow> length (param_tys ty') = length (param_tys ty) \<Longrightarrow> ty' = ty"
proof -
  obtain d ts where t: "t = EnumTy d ts" "(ident, ty) \<in> set (EnumCtors E d ts)"
    using assms(2) by (auto simp: ctors_of_def split: SemaTy.splits)
  note law = assms(1)[unfolded env_ok_def, rule_format, OF t(2)]
  show "IsTyCorrect t \<Longrightarrow> IsTyCorrect ty" "ty = t \<or> (\<exists>ps. ty = FuncTy ps t)" "IsEnum t"
    using law by (simp_all add: t(1))
  show "(ident, ty') \<in> set (ctors_of E t) \<Longrightarrow> length (param_tys ty') = length (param_tys ty) \<Longrightarrow> ty' = ty"
    using law by (simp add: t(1) ctors_of_def)
qed

subsection \<open>Well-typed patterns\<close>

text \<open>A pattern of a column of type \<open>t\<close>.\<close>

fun pat_ok :: "SemaEnv \<Rightarrow> SemaTy \<Rightarrow> DestructedPattern \<Rightarrow> bool" where
  "pat_ok E t (DP ctor subs goal node) = (case ctor of
     C_Wildcard \<Rightarrow> subs = [] \<and> goal = t
   | C_Missing \<Rightarrow> subs = [] \<and> \<not> IsTuple t \<and> \<not> IsEnum t
   | C_Tuple n \<Rightarrow> IsTuple t \<and> n = length (typeArgs t) \<and> list_all2 (\<lambda>p t. pat_ok E t p) subs (typeArgs t)
   | C_Enum ident ty \<Rightarrow> (ident, ty) \<in> set (ctors_of E t) \<and> list_all2 (\<lambda>p t. pat_ok E t p) subs (param_tys ty)
   | C_Or n \<Rightarrow> list_all (pat_ok E t) subs
   | C_Type ty \<Rightarrow> subs = [] \<and> goal = t
   | _ \<Rightarrow> subs = [])"

definition stack_ok :: "SemaEnv \<Rightarrow> SemaTy list \<Rightarrow> PatternStack \<Rightarrow> bool" where
  "stack_ok E ts stack \<longleftrightarrow> list_all2 (\<lambda>p t. pat_ok E t p) stack ts"

definition matrix_ok :: "SemaEnv \<Rightarrow> SemaTy list \<Rightarrow> Matrix \<Rightarrow> bool" where
  "matrix_ok E ts rows \<longleftrightarrow> (\<forall>row \<in> set rows. stack_ok E ts row)"

definition matches_row :: "(Val \<Rightarrow> SemaTy \<Rightarrow> bool) \<Rightarrow> PatternStack \<Rightarrow> Val list \<Rightarrow> bool" where
  "matches_row H stack vs \<longleftrightarrow> list_all2 (matches H) stack vs"

definition matches_some :: "(Val \<Rightarrow> SemaTy \<Rightarrow> bool) \<Rightarrow> Matrix \<Rightarrow> Val list \<Rightarrow> bool" where
  "matches_some H rows vs \<longleftrightarrow> (\<exists>row \<in> set rows. matches_row H row vs)"

text \<open>The constructors that a column can be specialised by, and the columns that replace it.\<close>

definition ctor_ok :: "SemaEnv \<Rightarrow> SemaTy \<Rightarrow> Constructor \<Rightarrow> bool" where
  "ctor_ok E t c \<longleftrightarrow> (case c of
     C_Missing \<Rightarrow> \<not> IsTuple t \<and> \<not> IsEnum t
   | C_Tuple n \<Rightarrow> IsTuple t \<and> n = length (typeArgs t)
   | C_Enum ident ty \<Rightarrow> (ident, ty) \<in> set (ctors_of E t)
   | C_Or n \<Rightarrow> False
   | _ \<Rightarrow> True)"

definition arg_tys :: "SemaTy \<Rightarrow> Constructor \<Rightarrow> SemaTy list" where
  "arg_tys t c = (case c of C_Tuple n \<Rightarrow> typeArgs t | C_Enum ident ty \<Rightarrow> param_tys ty | _ \<Rightarrow> [])"

text \<open>A value built by a constructor from arguments.\<close>

definition built :: "(Val \<Rightarrow> SemaTy \<Rightarrow> bool) \<Rightarrow> Constructor \<Rightarrow> Val \<Rightarrow> Val list \<Rightarrow> bool" where
  "built H c v args \<longleftrightarrow> (case c of
     C_Unit \<Rightarrow> v = V_Unit \<and> args = []
   | C_Boolean b \<Rightarrow> v = V_Bool b \<and> args = []
   | C_NonExhaustiveLiteral l \<Rightarrow> (\<exists>l'. v = V_Lit l' \<and> LitConstExprEq l' l) \<and> args = []
   | C_Enum ident ty \<Rightarrow> v = V_Enum ident args
   | C_NonExhaustiveEnum \<Rightarrow> v = V_OtherEnum \<and> args = []
   | C_Tuple n \<Rightarrow> v = V_Tuple args
   | C_Type ty \<Rightarrow> H v ty \<and> args = []
   | C_Wildcard \<Rightarrow> args = []
   | C_Missing \<Rightarrow> args = []
   | _ \<Rightarrow> False)"

lemma LitConstExprEq_trans: "LitConstExprEq a b \<Longrightarrow> LitConstExprEq b c \<Longrightarrow> LitConstExprEq a c"
  by (cases a; cases b) (auto simp: LitConstExprEq_def)

lemma Arity_arg_tys: "ctor_ok E t c \<Longrightarrow> length (arg_tys t c) = Arity c"
  by (auto simp: ctor_ok_def arg_tys_def param_tys_def split: Constructor.splits SemaTy.splits)

lemma pat_ok_wildcard [simp]: "pat_ok E t (WildcardOf t') \<longleftrightarrow> t' = t"
  by (auto simp: WildcardOf_def)

lemma SpecializeWildcard_ok:
  assumes "ctor_ok E t c"
  shows "SpecializeWildcard t c = map WildcardOf (arg_tys t c)"
  using assms
  by (auto simp: SpecializeWildcard_def ctor_ok_def arg_tys_def param_tys_def map_equality_iff
      split: Constructor.splits SemaTy.splits)

lemma same_ctor:
  assumes "env_ok E" "(ident, ty) \<in> set (ctors_of E t)" "(ident, ty') \<in> set (ctors_of E t)"
    "IsEnum ty = IsEnum ty'" "length (typeArgs ty) = length (typeArgs ty')"
  shows "ty' = ty"
proof -
  have "length (param_tys ty') = length (param_tys ty)"
    using env_okD(2,3)[OF assms(1,2)] env_okD(2,3)[OF assms(1,3)] assms(4,5)
    by (cases t) (auto simp: param_tys_def)
  from env_okD(4)[OF assms(1,2,3) this] show ?thesis .
qed

text \<open>Specialising a pattern.\<close>

lemma Specialize_row_ok:
  assumes "env_ok E" "pat_ok E t p" "ctor_ok E t c" "IsCoveredBy E c (Ctor p)"
  shows "list_all2 (\<lambda>p t. pat_ok E t p) (Specialize p c) (arg_tys t c)"
proof (cases p)
  case (DP ctor subs goal node)
  show ?thesis
  proof (cases "ctor = C_Wildcard")
    case True
    then show ?thesis using assms(2,3) DP by (simp add: Specialize_def SpecializeWildcard_ok list_all2_conv_all_nth)
  next
    case False
    then show ?thesis using assms(2-4) DP same_ctor[OF assms(1)] env_okD(3)[OF assms(1)]
      by (auto simp: Specialize_def IsCoveredBy_def ctor_ok_def arg_tys_def split: Constructor.splits if_splits)
  qed
qed

lemma SubPatterns_ok:
  assumes "pat_ok E t p" "\<forall>n. Ctor p \<noteq> C_Or n"
  shows "ctor_ok E t (Ctor p)" "list_all2 (\<lambda>p t. pat_ok E t p) (SubPatterns p) (arg_tys t (Ctor p))"
  using assms by (cases p; auto simp: ctor_ok_def arg_tys_def split: Constructor.splits)+

lemma matches_built:
  assumes "built H (Ctor p) v args" "list_all2 (matches H) (SubPatterns p) args"
  shows "matches H p v"
  using assms by (cases p) (auto simp: built_def split: Constructor.splits)

text \<open>A row of the specialised matrix matches the arguments only if its origin matches the value.\<close>

lemma matches_Specialize_row:
  assumes "typing_laws E H" "pat_ok E t p" "IsCoveredBy E c (Ctor p)" "built H c v args"
    "list_all2 (matches H) (Specialize p c) args"
  shows "matches H p v"
proof (cases p)
  case (DP ctor subs goal node)
  then show ?thesis using assms(2-5) typing_lawsD(7)[OF assms(1)]
    by (auto simp: IsCoveredBy_def built_def Specialize_def split: Constructor.splits if_splits intro: LitConstExprEq_trans)
qed

text \<open>A value that a pattern matches is built by its constructor.\<close>

lemma matches_builds:
  assumes laws: "env_ok E" "typing_laws E H" and p: "pat_ok E t p" "matches H p v" "\<forall>n. Ctor p \<noteq> C_Or n" and v: "H v t"
  shows "\<exists>args. built H (Ctor p) v args \<and> list_all2 (matches H) (SubPatterns p) args \<and> list_all2 H args (arg_tys t (Ctor p))"
proof (cases p)
  case (DP ctor subs goal node)
  show ?thesis
  proof (cases ctor)
    case (C_Tuple n)
    then obtain ts where t: "t = TupleTy ts" using p(1) DP by (cases t) auto
    from typing_lawsD(4)[OF laws(2)] v t obtain vs where "v = V_Tuple vs" "list_all2 H vs ts" by blast
    then show ?thesis using p C_Tuple DP t by (auto simp: built_def arg_tys_def)
  next
    case (C_Enum ident ty)
    then have c: "(ident, ty) \<in> set (ctors_of E t)" "list_all2 (\<lambda>p t. pat_ok E t p) subs (param_tys ty)"
      using p(1) DP by simp_all
    obtain d ts where t: "t = EnumTy d ts" using env_okD(3)[OF laws(1) c(1)] by (cases t) auto
    obtain vs where vs: "v = V_Enum ident vs" "list_all2 (matches H) subs vs"
      using p(2) C_Enum DP by (auto split: Val.splits)
    from typing_lawsD(5)[OF laws(2) v[unfolded t]] vs(1) obtain ty' where
      ty': "(ident, ty') \<in> set (ctors_of E t)" "list_all2 H vs (param_tys ty')" by (auto simp: ctors_of_def t)
    have "length (param_tys ty') = length (param_tys ty)"
      using ty'(2) vs(2) c(2) by (auto dest!: list_all2_lengthD)
    from env_okD(4)[OF laws(1) c(1) ty'(1) this] ty'(2) vs show ?thesis using C_Enum DP by (auto simp: built_def arg_tys_def)
  qed (use p DP in \<open>auto simp: built_def arg_tys_def split: Val.splits\<close>)
qed

subsection \<open>What a search delivers\<close>

text \<open>A type pattern that the check calls unreachable matches no value.\<close>

fun types_apart :: "SemaEnv \<Rightarrow> (Val \<Rightarrow> SemaTy \<Rightarrow> bool) \<Rightarrow> DestructedPattern \<Rightarrow> bool" where
  "types_apart E H (DP ctor subs goal node) \<longleftrightarrow> list_all (types_apart E H) subs \<and>
     (IsUnreachableTypePattern E (DP ctor subs goal node) \<longrightarrow> (\<forall>ty v. ctor = C_Type ty \<and> H v goal \<longrightarrow> \<not> H v ty))"

definition found_ok ::
  "SemaEnv \<Rightarrow> (Val \<Rightarrow> SemaTy \<Rightarrow> bool) \<Rightarrow> SemaTy list \<Rightarrow> Matrix \<Rightarrow> PatternStack \<Rightarrow> PatternStack list \<Rightarrow> bool" where
  "found_ok E H ts matrix vec ws \<longleftrightarrow> matrix_ok E ts ws \<and>
     (\<forall>vs. list_all2 H vs ts \<and> matches_some H ws vs \<longrightarrow> matches_row H vec vs) \<and>
     (list_all (types_apart E H) vec \<longrightarrow>
        (\<forall>vs. list_all2 H vs ts \<and> matches_row H vec vs \<longrightarrow> matches_some H matrix vs \<or> matches_some H ws vs))"

definition search_ok ::
  "SemaEnv \<Rightarrow> (Val \<Rightarrow> SemaTy \<Rightarrow> bool) \<Rightarrow> (Matrix \<Rightarrow> PatternStack \<Rightarrow> Found option) \<Rightarrow> bool" where
  "search_ok E H search \<longleftrightarrow> (\<forall>ts matrix vec ws ms. list_all IsTyCorrect ts \<and> matrix_ok E ts matrix \<and> stack_ok E ts vec \<and>
     search matrix vec = Some (ws, ms) \<longrightarrow> found_ok E H ts matrix vec ws)"

lemma search_okD:
  assumes "search_ok E H search" "search matrix vec = Some (ws, ms)" "list_all IsTyCorrect ts" "matrix_ok E ts matrix"
    "stack_ok E ts vec"
  shows "found_ok E H ts matrix vec ws"
  using assms unfolding search_ok_def by blast

lemma stack_ok_Cons: "stack_ok E (t # ts) stack \<longleftrightarrow> (\<exists>p rest. stack = p # rest \<and> pat_ok E t p \<and> stack_ok E ts rest)"
  by (auto simp: stack_ok_def list_all2_Cons2)

lemma arg_tys_correct: "env_ok E \<Longrightarrow> IsTyCorrect t \<Longrightarrow> ctor_ok E t c \<Longrightarrow> list_all IsTyCorrect (arg_tys t c)"
  using env_okD(1)[of E]
  by (cases t) (auto simp: ctor_ok_def arg_tys_def ctors_of_def param_tys_def split: Constructor.splits SemaTy.splits, fastforce+)

lemma M_Specialize_ok:
  assumes "env_ok E" "matrix_ok E (t # ts) matrix" "ctor_ok E t c"
  shows "matrix_ok E (arg_tys t c @ ts) (M_Specialize E matrix c)"
  unfolding matrix_ok_def
proof
  fix row assume "row \<in> set (M_Specialize E matrix c)"
  then obtain r where r: "r \<in> set matrix" "IsCoveredBy E c (Ctor (hd r))" "row = PS_Specialize r c" by (auto simp: M_Specialize_def)
  with assms(2) obtain p rest where "r = p # rest" "pat_ok E t p" "stack_ok E ts rest" by (auto simp: matrix_ok_def stack_ok_Cons)
  with Specialize_row_ok[OF assms(1) _ assms(3), of p] r show "stack_ok E (arg_tys t c @ ts) row"
    by (auto simp: PS_Specialize_def stack_ok_def intro!: list_all2_appendI)
qed

text \<open>The head that a search specialises is a wildcard or has the constructor itself.\<close>

lemma head_Specialize:
  assumes "pat_ok E t p" "ctor_ok E t c" "Ctor p = C_Wildcard \<or> Ctor p = c"
  shows "list_all2 (\<lambda>p t. pat_ok E t p) (Specialize p c) (arg_tys t c)"
    and "Ctor p \<noteq> C_Wildcard \<Longrightarrow> Specialize p c = SubPatterns p"
    and "Ctor p = C_Wildcard \<Longrightarrow> Specialize p c = map WildcardOf (arg_tys t c)"
proof -
  show s: "Ctor p \<noteq> C_Wildcard \<Longrightarrow> Specialize p c = SubPatterns p" by (simp add: Specialize_def)
  show w: "Ctor p = C_Wildcard \<Longrightarrow> Specialize p c = map WildcardOf (arg_tys t c)"
    using assms(1) SpecializeWildcard_ok[OF assms(2)] by (cases p) (simp add: Specialize_def)
  show "list_all2 (\<lambda>p t. pat_ok E t p) (Specialize p c) (arg_tys t c)"
  proof (cases "Ctor p = C_Wildcard")
    case True
    then show ?thesis by (simp add: w list_all2_conv_all_nth)
  next
    case False
    then have "Ctor p = c" "\<forall>n. Ctor p \<noteq> C_Or n" using assms(2,3) by (auto simp: ctor_ok_def)
    then show ?thesis using SubPatterns_ok(2)[OF assms(1)] s False by simp
  qed
qed

lemma matches_wildcards: "length vs = length ts \<Longrightarrow> list_all2 (matches H) (map WildcardOf ts) vs"
  by (auto simp: list_all2_conv_all_nth WildcardOf_def)

text \<open>The origin of a witness of the specialised search.\<close>

lemma matches_Apply:
  assumes laws: "env_ok E" "typing_laws E H" and c: "ctor_ok E t c" and w: "stack_ok E (arg_tys t c @ ts) w"
    and goal: "\<forall>s. c = C_Wildcard \<or> c = C_Type s \<longrightarrow> ty = t"
  shows "stack_ok E (t # ts) (PS_Apply w c ty)"
    and "built H c v args \<Longrightarrow> list_all2 H args (arg_tys t c) \<Longrightarrow> matches_row H w (args @ vs) \<Longrightarrow> matches_row H (PS_Apply w c ty) (v # vs)"
    and "matches_row H (PS_Apply w c ty) (v # vs) \<Longrightarrow> H v t \<Longrightarrow> length vs = length ts \<Longrightarrow>
      \<exists>args. built H c v args \<and> list_all2 H args (arg_tys t c) \<and> matches_row H w (args @ vs)"
proof -
  have len: "length (arg_tys t c) = Arity c" by (rule Arity_arg_tys[OF c])
  have w': "list_all2 (\<lambda>p t. pat_ok E t p) (take (Arity c) w) (arg_tys t c)" "stack_ok E ts (drop (Arity c) w)"
    using w len by (auto simp: stack_ok_def list_all2_append2 dest: list_all2_lengthD)
  have head: "pat_ok E t (DP c (take (Arity c) w) ty None)"
    using c w'(1) goal by (auto simp: ctor_ok_def arg_tys_def split: Constructor.splits)
  then show "stack_ok E (t # ts) (PS_Apply w c ty)" using w'(2) by (simp add: PS_Apply_def stack_ok_Cons)
  have split: "w = take (Arity c) w @ drop (Arity c) w" by simp
  { assume b: "built H c v args" "list_all2 H args (arg_tys t c)" "matches_row H w (args @ vs)"
    then have "length args = length (take (Arity c) w)" using list_all2_lengthD[OF w'(1)] by (auto dest: list_all2_lengthD)
    then have "list_all2 (matches H) (take (Arity c) w) args" "list_all2 (matches H) (drop (Arity c) w) vs"
      using b(3) unfolding matches_row_def by (subst (asm) split, subst (asm) list_all2_append; simp)+
    then show "matches_row H (PS_Apply w c ty) (v # vs)"
      using matches_built[of H "DP c (take (Arity c) w) ty None" v args] b(1) by (simp add: PS_Apply_def matches_row_def) }
  { assume m: "matches_row H (PS_Apply w c ty) (v # vs)" and v: "H v t"
    then have p: "matches H (DP c (take (Arity c) w) ty None) v" "list_all2 (matches H) (drop (Arity c) w) vs"
      by (simp_all add: PS_Apply_def matches_row_def)
    have "\<forall>n. c \<noteq> C_Or n" using c by (auto simp: ctor_ok_def)
    with matches_builds[OF laws head p(1) _ v] obtain args where
      args: "built H c v args" "list_all2 (matches H) (take (Arity c) w) args" "list_all2 H args (arg_tys t c)" by auto
    have "list_all2 (matches H) w (args @ vs)" using list_all2_appendI[OF args(2) p(2)] by simp
    then show "\<exists>args. built H c v args \<and> list_all2 H args (arg_tys t c) \<and> matches_row H w (args @ vs)"
      using args by (auto simp: matches_row_def) }
qed

lemma types_apart_simps [simp]: "types_apart E H (WildcardOf t)"
  by (simp add: WildcardOf_def IsUnreachableTypePattern_def)

lemma types_apart_Specialize:
  assumes "pat_ok E t p" "ctor_ok E t c" "Ctor p = C_Wildcard \<or> Ctor p = c" "types_apart E H p"
  shows "list_all (types_apart E H) (Specialize p c)"
proof (cases "Ctor p = C_Wildcard")
  case True
  show ?thesis unfolding head_Specialize(3)[OF assms(1-3) True] by (simp add: list_all_iff)
next
  case False
  obtain ctor subs goal node where p: "p = DP ctor subs goal node" by (cases p)
  have "Specialize p c = subs" using head_Specialize(2)[OF assms(1-3) False] p by simp
  moreover have "list_all (types_apart E H) subs" using assms(4) unfolding p types_apart.simps by blast
  ultimately show ?thesis by simp
qed

lemma BySpecialization_ok:
  assumes laws: "env_ok E" "typing_laws E H" and search: "search_ok E H search"
    and ts: "IsTyCorrect t" "list_all IsTyCorrect ts" and matrix: "matrix_ok E (t # ts) matrix"
    and vec: "pat_ok E t p" "stack_ok E ts rest" and c: "ctor_ok E t c" "Ctor p = C_Wildcard \<or> Ctor p = c"
    and found: "FindWitnessesBySpecialization E search matrix (p # rest) c = Some (ws, ms)"
  shows "matrix_ok E (t # ts) ws"
    and "H v t \<Longrightarrow> list_all2 H vs ts \<Longrightarrow> matches_some H ws (v # vs) \<Longrightarrow> matches_row H (p # rest) (v # vs)"
    and "list_all (types_apart E H) (p # rest) \<Longrightarrow> list_all2 H vs ts \<Longrightarrow> built H c v args \<Longrightarrow>
      list_all2 H args (arg_tys t c) \<Longrightarrow> list_all2 (matches H) (Specialize p c) args \<Longrightarrow> matches_row H rest vs \<Longrightarrow>
      matches_some H matrix (v # vs) \<or> matches_some H ws (v # vs)"
proof -
  obtain ws' where ws': "search (M_Specialize E matrix c) (Specialize p c @ rest) = Some (ws', ms)"
    and ws: "ws = map (\<lambda>w. PS_Apply w c (GoalTy p)) ws'"
    using found by (auto simp: FindWitnessesBySpecialization_def PS_Specialize_def)
  have goal: "\<forall>s. c = C_Wildcard \<or> c = C_Type s \<longrightarrow> GoalTy p = t"
    using vec(1) c(2) by (cases p) auto
  have "list_all IsTyCorrect (arg_tys t c @ ts)" using arg_tys_correct[OF laws(1) ts(1) c(1)] ts(2) by simp
  moreover have "stack_ok E (arg_tys t c @ ts) (Specialize p c @ rest)"
    using head_Specialize(1)[OF vec(1) c] vec(2) by (auto simp: stack_ok_def intro: list_all2_appendI)
  ultimately have f: "found_ok E H (arg_tys t c @ ts) (M_Specialize E matrix c) (Specialize p c @ rest) ws'"
    by (rule search_okD[OF search ws' _ M_Specialize_ok[OF laws(1) matrix c(1)]])
  then have w: "stack_ok E (arg_tys t c @ ts) w" if "w \<in> set ws'" for w using that by (simp add: found_ok_def matrix_ok_def)
  note apply_w = matches_Apply[OF laws c(1) w goal]
  show "matrix_ok E (t # ts) ws" using apply_w(1) by (auto simp: matrix_ok_def ws)
  { assume v: "H v t" "list_all2 H vs ts" and m: "matches_some H ws (v # vs)"
    from m obtain w where w: "w \<in> set ws'" "matches_row H (PS_Apply w c (GoalTy p)) (v # vs)" by (auto simp: ws matches_some_def)
    from apply_w(3)[OF w v(1)] v(2) obtain args where args: "built H c v args" "list_all2 H args (arg_tys t c)"
      "matches_row H w (args @ vs)" by (auto dest: list_all2_lengthD)
    then have "matches_row H (Specialize p c @ rest) (args @ vs)"
      using f w(1) v(2) by (auto simp: found_ok_def matches_some_def intro: list_all2_appendI)
    moreover have "length args = length (Specialize p c)"
      using args(2) head_Specialize(1)[OF vec(1) c] by (auto dest!: list_all2_lengthD)
    ultimately have "list_all2 (matches H) (Specialize p c) args" "matches_row H rest vs"
      by (auto simp: matches_row_def list_all2_append)
    moreover have "matches H p v" if "Ctor p = C_Wildcard" using that by (cases p) simp
    moreover have "matches H p v" if "Ctor p \<noteq> C_Wildcard" "list_all2 (matches H) (Specialize p c) args"
      using matches_built[of H p v args] head_Specialize(2)[OF vec(1) c that(1)] args(1) c(2) that by auto
    ultimately show "matches_row H (p # rest) (v # vs)" unfolding matches_row_def list_all2_Cons by blast }
  { assume apart: "list_all (types_apart E H) (p # rest)" and vs: "list_all2 H vs ts" and b: "built H c v args"
      and args: "list_all2 H args (arg_tys t c)" and m: "list_all2 (matches H) (Specialize p c) args" "matches_row H rest vs"
    have "list_all (types_apart E H) (Specialize p c @ rest)" using types_apart_Specialize[OF vec(1) c] apart by simp
    moreover have "matches_row H (Specialize p c @ rest) (args @ vs)" using m by (auto simp: matches_row_def intro: list_all2_appendI)
    ultimately consider (row) row where "row \<in> set (M_Specialize E matrix c)" "matches_row H row (args @ vs)"
      | (witness) w where "w \<in> set ws'" "matches_row H w (args @ vs)"
      using f args vs unfolding found_ok_def matches_some_def by (metis list_all2_appendI)
    then show "matches_some H matrix (v # vs) \<or> matches_some H ws (v # vs)"
    proof cases
      case row
      then obtain r where r: "r \<in> set matrix" "IsCoveredBy E c (Ctor (hd r))" "row = PS_Specialize r c" by (auto simp: M_Specialize_def)
      with matrix obtain q qs where q: "r = q # qs" "pat_ok E t q" "stack_ok E ts qs" by (auto simp: matrix_ok_def stack_ok_Cons)
      have "length args = length (Specialize q c)"
        using args Specialize_row_ok[OF laws(1) q(2) c(1)] r(2) q(1) by (auto dest!: list_all2_lengthD)
      then have "list_all2 (matches H) (Specialize q c) args" "matches_row H qs vs"
        using row(2) r(3) q(1) by (auto simp: PS_Specialize_def matches_row_def list_all2_append)
      with matches_Specialize_row[OF laws(2) q(2) _ b] r(1,2) q(1) have "matches_some H matrix (v # vs)"
        by (auto simp: matches_some_def matches_row_def)
      then show ?thesis ..
    next
      case witness
      from apply_w(2)[OF this(1) b args this(2)] witness(1) show ?thesis by (auto simp: ws matches_some_def)
    qed }
qed

subsection \<open>Splitting a wildcard\<close>

lemma SplitWildcard_ok:
  assumes "env_ok E" "IsTyCorrect t" "\<not> MissingAll matrix" "c \<in> set (SplitWildcard E t matrix)"
  shows "ctor_ok E t c"
proof (cases t)
  case (EnumTy d ts)
  then show ?thesis using assms env_okD(1)[OF assms(1)]
    by (auto simp: SplitWildcard_def EnumConstructor_def ctor_ok_def ctors_of_def split: option.splits if_splits)
qed (use assms in \<open>auto simp: SplitWildcard_def SplitWildcardForClosedSealed_def ctor_ok_def split: option.splits if_splits\<close>)

lemma SplitWildcard_covers:
  assumes laws: "env_ok E" "typing_laws E H" and t: "IsTyCorrect t" "\<not> MissingAll matrix" and v: "H v t"
  shows "\<exists>c \<in> set (SplitWildcard E t matrix). \<exists>args. built H c v args \<and> list_all2 H args (arg_tys t c)"
proof (cases t)
  case UnitTy
  then show ?thesis using t v typing_lawsD(1)[OF laws(2)] by (auto simp: SplitWildcard_def built_def arg_tys_def)
next
  case BooleanTy
  then show ?thesis using t v typing_lawsD(2)[OF laws(2)] by (auto simp: SplitWildcard_def built_def arg_tys_def split: option.split)
next
  case (TupleTy ts)
  then show ?thesis using t v typing_lawsD(4)[OF laws(2), of v ts] by (auto simp: SplitWildcard_def built_def arg_tys_def)
next
  case (EnumTy d ts)
  from typing_lawsD(5)[OF laws(2) v[unfolded EnumTy]] show ?thesis
  proof (elim disjE exE conjE)
    fix ident ty vs assume c: "(ident, ty) \<in> set (EnumCtors E d ts)" "v = V_Enum ident vs" "list_all2 H vs (param_tys ty)"
    have "IsTyCorrect ty" using env_okD(1)[OF laws(1), of ident ty t] t(1) c(1) by (simp add: EnumTy ctors_of_def)
    then have "C_Enum ident ty \<in> set (SplitWildcard E t matrix)"
      using t c(1) EnumTy by (force simp: SplitWildcard_def EnumConstructor_def)
    then show ?thesis using c(2,3) by (intro bexI) (auto simp: built_def arg_tys_def)
  next
    assume "EnumIsNonExhaustive E d" "v = V_OtherEnum"
    then show ?thesis using t EnumTy by (intro bexI[of _ C_NonExhaustiveEnum]) (auto simp: SplitWildcard_def built_def arg_tys_def)
  qed
next
  case (ClassLikeTy c ts)
  show ?thesis
  proof (cases "\<exists>package. currentPackage E = Some package \<and> IsClosedSealedHierarchy E (length (ClassDecls E)) t package True")
    case True
    then obtain package where package: "currentPackage E = Some package" "IsClosedSealedHierarchy E (length (ClassDecls E)) t package True" by blast
    from typing_lawsD(6)[OF laws(2) v[unfolded ClassLikeTy] this[unfolded ClassLikeTy]] obtain s where
      "s \<in> set (directSubtypes (ClassDecls E ! c))" "H v s" by blast
    then show ?thesis using t package
      by (intro bexI[of _ "C_Type s"]) (auto simp: ClassLikeTy SplitWildcard_def SplitWildcardForClosedSealed_def built_def arg_tys_def)
  next
    case False
    then show ?thesis using t by (auto simp: ClassLikeTy SplitWildcard_def built_def arg_tys_def split: option.split)
  qed
qed (use t in \<open>auto simp: SplitWildcard_def built_def arg_tys_def split: option.split\<close>)

lemma WitnessesOfCtors_ok:
  assumes laws: "env_ok E" "typing_laws E H" and search: "search_ok E H search"
    and ts: "IsTyCorrect t" "list_all IsTyCorrect ts" and matrix: "matrix_ok E (t # ts) matrix"
    and vec: "pat_ok E t p" "stack_ok E ts rest" "Ctor p = C_Wildcard"
    and c: "\<forall>c \<in> set cs. ctor_ok E t c"
    and found: "WitnessesOfCtors E search matrix (p # rest) cs = Some (ws, ms)"
  shows "matrix_ok E (t # ts) ws"
    and "H v t \<Longrightarrow> list_all2 H vs ts \<Longrightarrow> matches_some H ws (v # vs) \<Longrightarrow> matches_row H (p # rest) (v # vs)"
    and "list_all (types_apart E H) (p # rest) \<Longrightarrow> list_all2 H vs ts \<Longrightarrow> c \<in> set cs \<Longrightarrow> built H c v args \<Longrightarrow>
      list_all2 H args (arg_tys t c) \<Longrightarrow> matches_row H rest vs \<Longrightarrow> matches_some H matrix (v # vs) \<or> matches_some H ws (v # vs)"
proof -
  have "matrix_ok E (t # ts) ws \<and>
      (\<forall>v vs. H v t \<and> list_all2 H vs ts \<and> matches_some H ws (v # vs) \<longrightarrow> matches_row H (p # rest) (v # vs)) \<and>
      (list_all (types_apart E H) (p # rest) \<longrightarrow> (\<forall>v vs c args. list_all2 H vs ts \<and> c \<in> set cs \<and> built H c v args \<and>
        list_all2 H args (arg_tys t c) \<and> matches_row H rest vs \<longrightarrow> matches_some H matrix (v # vs) \<or> matches_some H ws (v # vs)))"
    using c found
  proof (induction cs arbitrary: ws ms)
    case Nil
    then show ?case by (simp add: matrix_ok_def matches_some_def)
  next
    case (Cons c cs)
    from Cons.prems(2) obtain ws1 m1 ws2 m2 where
      f: "FindWitnessesBySpecialization E search matrix (p # rest) c = Some (ws1, m1)"
        "WitnessesOfCtors E search matrix (p # rest) cs = Some (ws2, m2)" and ws: "ws = ws1 @ ws2"
      by (auto split: bind_splits)
    have c: "ctor_ok E t c" "Ctor p = C_Wildcard \<or> Ctor p = c" using Cons.prems(1) vec(3) by simp_all
    note one = BySpecialization_ok[OF laws search ts matrix vec(1,2) c f(1)]
    have IH: "matrix_ok E (t # ts) ws2 \<and>
      (\<forall>v vs. H v t \<and> list_all2 H vs ts \<and> matches_some H ws2 (v # vs) \<longrightarrow> matches_row H (p # rest) (v # vs)) \<and>
      (list_all (types_apart E H) (p # rest) \<longrightarrow> (\<forall>v vs c args. list_all2 H vs ts \<and> c \<in> set cs \<and> built H c v args \<and>
        list_all2 H args (arg_tys t c) \<and> matches_row H rest vs \<longrightarrow> matches_some H matrix (v # vs) \<or> matches_some H ws2 (v # vs)))"
      using Cons.IH[OF _ f(2)] Cons.prems(1) by simp
    have wild: "list_all2 (matches H) (Specialize p c) args" if "list_all2 H args (arg_tys t c)" for args
      using matches_wildcards[of args "arg_tys t c" H] list_all2_lengthD[OF that] head_Specialize(3)[OF vec(1) c vec(3)] by simp
    have some: "matches_some H ws u \<longleftrightarrow> matches_some H ws1 u \<or> matches_some H ws2 u" for u by (auto simp: ws matches_some_def)
    show ?case
    proof (intro conjI allI impI; (elim conjE)?)
      show "matrix_ok E (t # ts) ws" using one(1) IH by (auto simp: ws matrix_ok_def)
      show "matches_row H (p # rest) (v # vs)" if "H v t" "list_all2 H vs ts" "matches_some H ws (v # vs)" for v vs
        using one(2)[OF that(1,2)] IH that unfolding some by blast
      show "matches_some H matrix (v # vs) \<or> matches_some H ws (v # vs)"
        if "list_all (types_apart E H) (p # rest)" "list_all2 H vs ts" "c' \<in> set (c # cs)" "built H c' v args"
          "list_all2 H args (arg_tys t c')" "matches_row H rest vs" for v vs c' args
      proof (cases "c' = c")
        case True
        then show ?thesis using one(3)[OF that(1,2) that(4)[unfolded True] that(5)[unfolded True] wild that(6)] that(5) some by blast
      next
        case False
        with that(3) have "c' \<in> set cs" by simp
        with IH that(1,2,4-6) have "matches_some H matrix (v # vs) \<or> matches_some H ws2 (v # vs)" by blast
        then show ?thesis unfolding some by blast
      qed
    qed
  qed
  then show "matrix_ok E (t # ts) ws"
    and "H v t \<Longrightarrow> list_all2 H vs ts \<Longrightarrow> matches_some H ws (v # vs) \<Longrightarrow> matches_row H (p # rest) (v # vs)"
    and "list_all (types_apart E H) (p # rest) \<Longrightarrow> list_all2 H vs ts \<Longrightarrow> c \<in> set cs \<Longrightarrow> built H c v args \<Longrightarrow>
      list_all2 H args (arg_tys t c) \<Longrightarrow> matches_row H rest vs \<Longrightarrow> matches_some H matrix (v # vs) \<or> matches_some H ws (v # vs)"
    by blast+
qed

subsection \<open>The search\<close>

lemma found_okI:
  assumes "matrix_ok E (t # ts) ws"
    "\<And>v vs. H v t \<Longrightarrow> list_all2 H vs ts \<Longrightarrow> matches_some H ws (v # vs) \<Longrightarrow> matches_row H (p # rest) (v # vs)"
    "\<And>v vs. list_all (types_apart E H) (p # rest) \<Longrightarrow> H v t \<Longrightarrow> list_all2 H vs ts \<Longrightarrow> matches H p v \<Longrightarrow> matches_row H rest vs \<Longrightarrow>
      matches_some H matrix (v # vs) \<or> matches_some H ws (v # vs)"
  shows "found_ok E H (t # ts) matrix (p # rest) ws"
  using assms by (auto simp: found_ok_def list_all2_Cons2 matches_row_def)

lemma HeadsAllWildcard_not_empty: "\<not> HeadsAllWildcard matrix \<Longrightarrow> matrix_ok E (t # ts) matrix \<Longrightarrow> \<not> MissingAll matrix"
  unfolding HeadsAllWildcard_def MissingAll_def matrix_ok_def stack_ok_def list_all_iff
  by (metis list_all2_Nil neq_Nil_conv)

lemma ForWildcard_ok:
  assumes laws: "env_ok E" "typing_laws E H" and search: "search_ok E H search"
    and ts: "IsTyCorrect t" "list_all IsTyCorrect ts" and matrix: "matrix_ok E (t # ts) matrix"
    and vec: "pat_ok E t p" "stack_ok E ts rest" "Ctor p = C_Wildcard"
    and found: "FindWitnessesForWildcard E search matrix (p # rest) = Some (ws, ms)"
  shows "found_ok E H (t # ts) matrix (p # rest) ws"
proof -
  have goal: "GoalTy p = t" using vec(1,3) by (cases p) simp
  show ?thesis
  proof (cases "HeadsAllWildcard matrix")
    case True
    then have f: "FindWitnessesBySpecialization E search matrix (p # rest) C_Wildcard = Some (ws, ms)"
      using found vec(3) by (simp add: FindWitnessesForWildcard_def)
    have c: "ctor_ok E t C_Wildcard" "Ctor p = C_Wildcard \<or> Ctor p = C_Wildcard" by (simp_all add: ctor_ok_def vec(3))
    note one = BySpecialization_ok[OF laws search ts matrix vec(1,2) c f]
    have "Specialize p C_Wildcard = []" using head_Specialize(3)[OF vec(1) c vec(3)] by (simp add: arg_tys_def)
    then show ?thesis using one(1,2) one(3)[of _ _ "[]"] by (intro found_okI) (auto simp: built_def arg_tys_def)
  next
    case split: False
    show ?thesis
    proof (cases "IsTuple t")
      case True
      then obtain us where t: "t = TupleTy us" by (cases t) auto
      let ?tuple = "C_Tuple (length us)" and ?wilds = "map WildcardOf us"
      let ?q = "DP ?tuple ?wilds t None"
      have "Specialize p ?tuple = ?wilds"
        using head_Specialize(3)[OF vec(1) _ _ vec(3), of ?tuple] vec(3) by (simp add: ctor_ok_def arg_tys_def t)
      then have f: "search matrix (?q # rest) = Some (ws, ms)"
        using found split by (simp add: FindWitnessesForWildcard_def goal t PS_Specialize_def PS_Apply_def)
      have q: "pat_ok E t ?q" by (simp add: t list_all2_conv_all_nth)
      from search_okD[OF search f _ matrix, of] ts q vec(2) have ok: "found_ok E H (t # ts) matrix (?q # rest) ws"
        by (simp add: stack_ok_Cons)
      have m: "matches H ?q v" if "H v t" for v
        using typing_lawsD(4)[OF laws(2), of v us] that matches_wildcards[of _ us H] by (auto simp: t dest: list_all2_lengthD)
      have p: "matches H p v" for v using vec(3) by (cases p) simp
      have apart: "types_apart E H ?q" by (simp add: list_all_iff IsUnreachableTypePattern_def)
      show ?thesis
      proof (rule found_okI)
        show "matrix_ok E (t # ts) ws" using ok by (simp add: found_ok_def)
        show "matches_row H (p # rest) (v # vs)" if "H v t" "list_all2 H vs ts" "matches_some H ws (v # vs)" for v vs
          using ok that p by (auto simp: found_ok_def list_all2_Cons2 matches_row_def simp del: matches.simps)
        show "matches_some H matrix (v # vs) \<or> matches_some H ws (v # vs)"
          if "list_all (types_apart E H) (p # rest)" "H v t" "list_all2 H vs ts" "matches_row H rest vs" for v vs
        proof -
          have "list_all (types_apart E H) (?q # rest)" "list_all2 H (v # vs) (t # ts)" "matches_row H (?q # rest) (v # vs)"
            using that apart m by (simp_all add: matches_row_def del: matches.simps types_apart.simps)
          then show ?thesis using ok unfolding found_ok_def by blast
        qed
      qed
    next
      case False
      have f: "WitnessesOfCtors E search matrix (p # rest) (SplitWildcard E t matrix) = Some (ws, ms)"
        using found split False by (simp add: FindWitnessesForWildcard_def goal)
      have all: "\<not> MissingAll matrix" by (rule HeadsAllWildcard_not_empty[OF split matrix])
      have cs: "\<forall>c \<in> set (SplitWildcard E t matrix). ctor_ok E t c" using SplitWildcard_ok[OF laws(1) ts(1) all] by blast
      note some = WitnessesOfCtors_ok[OF laws search ts matrix vec cs f]
      show ?thesis
      proof (rule found_okI)
        show "matches_some H matrix (v # vs) \<or> matches_some H ws (v # vs)"
          if "list_all (types_apart E H) (p # rest)" "H v t" "list_all2 H vs ts" "matches_row H rest vs" for v vs
          using SplitWildcard_covers[OF laws ts(1) all that(2)] some(3)[OF that(1,3) _ _ _ that(4)] by blast
      qed (use some(1,2) in blast)+
    qed
  qed
qed

lemma AllWildcard_matches:
  assumes "env_ok E" "typing_laws E H"
  shows "AllWildcard p \<Longrightarrow> pat_ok E t p \<Longrightarrow> H v t \<Longrightarrow> matches H p v"
proof (induction p arbitrary: t v)
  case (DP ctor subs goal node)
  show ?case
  proof (cases "ctor = C_Wildcard")
    case False
    then obtain n where c: "ctor = C_Tuple n" "list_all AllWildcard subs" using DP.prems(1) by (auto split: Constructor.splits)
    then obtain us where t: "t = TupleTy us" "list_all2 (\<lambda>p t. pat_ok E t p) subs us" using DP.prems(2) by (cases t) auto
    from typing_lawsD(4)[OF assms(2)] DP.prems(3) t(1) obtain vs where vs: "v = V_Tuple vs" "list_all2 H vs us" by blast
    have "list_all2 (matches H) subs vs"
      using DP.IH c(2) t(2) vs(2) by (auto simp: list_all2_conv_all_nth list_all_length)
    then show ?thesis using c(1) vs(1) by simp
  qed simp
qed

lemma OrLoop_ok:
  assumes laws: "search_ok E H search" and ts: "list_all IsTyCorrect (t # ts)"
    and rest: "stack_ok E ts rest" and ps: "list_all (pat_ok E t) ps"
    and matrix: "matrix_ok E (t # ts) matrix" and found: "OrLoop search matrix (map (\<lambda>p. p # rest) ps) us (ws0, ms0) = Some (us', (ws, ms))"
  shows "\<exists>new. ws = ws0 @ new \<and> matrix_ok E (t # ts) new \<and>
    (\<forall>vs. list_all2 H vs (t # ts) \<and> matches_some H new vs \<longrightarrow> (\<exists>p \<in> set ps. matches_row H (p # rest) vs)) \<and>
    (list_all (types_apart E H) (ps @ rest) \<longrightarrow> (\<forall>vs. list_all2 H vs (t # ts) \<and> (\<exists>p \<in> set ps. matches_row H (p # rest) vs) \<longrightarrow>
       matches_some H matrix vs \<or> matches_some H new vs))"
  using ps matrix found
proof (induction ps arbitrary: matrix us ws0 ms0)
  case Nil
  then show ?case by (simp add: matrix_ok_def matches_some_def)
next
  case (Cons p ps)
  from Cons.prems(3) obtain ws1 m1 where f: "search matrix (p # rest) = Some (ws1, m1)"
    by (auto split: bind_splits)
  have "stack_ok E (t # ts) (p # rest)" using Cons.prems(1) rest by (simp add: stack_ok_Cons)
  from search_okD[OF laws f ts Cons.prems(2) this] have one: "found_ok E H (t # ts) matrix (p # rest) ws1" .
  have next_loop: "\<exists>us1. OrLoop search (matrix @ ws1) (map (\<lambda>p. p # rest) ps) us1 (ws0 @ ws1, ms0 @ m1) = Some (us', (ws, ms))"
    using Cons.prems(3) f by (cases "ws1 = []") (auto simp: AppendRows_def split: option.splits)
  have "matrix_ok E (t # ts) (matrix @ ws1)" using one Cons.prems(2) by (auto simp: found_ok_def matrix_ok_def)
  from next_loop obtain us1 where loop: "OrLoop search (matrix @ ws1) (map (\<lambda>p. p # rest) ps) us1 (ws0 @ ws1, ms0 @ m1) = Some (us', (ws, ms))" ..
  have "list_all (pat_ok E t) ps" using Cons.prems(1) by simp
  from Cons.IH[OF this \<open>matrix_ok E (t # ts) (matrix @ ws1)\<close> loop] obtain new where new: "ws = (ws0 @ ws1) @ new" "matrix_ok E (t # ts) new"
    "\<forall>vs. list_all2 H vs (t # ts) \<and> matches_some H new vs \<longrightarrow> (\<exists>p \<in> set ps. matches_row H (p # rest) vs)"
    "list_all (types_apart E H) (ps @ rest) \<longrightarrow> (\<forall>vs. list_all2 H vs (t # ts) \<and> (\<exists>p \<in> set ps. matches_row H (p # rest) vs) \<longrightarrow>
       matches_some H (matrix @ ws1) vs \<or> matches_some H new vs)"
    by blast
  have some: "matches_some H (a @ b) vs \<longleftrightarrow> matches_some H a vs \<or> matches_some H b vs" for a b vs by (auto simp: matches_some_def)
  show ?case
  proof (intro exI[of _ "ws1 @ new"] conjI)
    show "matrix_ok E (t # ts) (ws1 @ new)" using one new(2) by (auto simp: found_ok_def matrix_ok_def)
    show "\<forall>vs. list_all2 H vs (t # ts) \<and> matches_some H (ws1 @ new) vs \<longrightarrow> (\<exists>q \<in> set (p # ps). matches_row H (q # rest) vs)"
      using one new(3) unfolding found_ok_def some by simp blast
    show "list_all (types_apart E H) ((p # ps) @ rest) \<longrightarrow> (\<forall>vs. list_all2 H vs (t # ts) \<and> (\<exists>q \<in> set (p # ps). matches_row H (q # rest) vs) \<longrightarrow>
        matches_some H matrix vs \<or> matches_some H (ws1 @ new) vs)"
      using one new(4) unfolding found_ok_def some by simp blast
  qed (use new(1) in simp)
qed

lemma BySpecialization_self_ok:
  assumes laws: "env_ok E" "typing_laws E H" and search: "search_ok E H search"
    and ts: "IsTyCorrect t" "list_all IsTyCorrect ts" and matrix: "matrix_ok E (t # ts) matrix"
    and vec: "pat_ok E t p" "stack_ok E ts rest" and c: "\<forall>n. Ctor p \<noteq> C_Or n"
    and found: "FindWitnessesBySpecialization E search matrix (p # rest) (Ctor p) = Some (ws, ms)"
  shows "found_ok E H (t # ts) matrix (p # rest) ws"
proof -
  have c1: "ctor_ok E t (Ctor p)" "Ctor p = C_Wildcard \<or> Ctor p = Ctor p" using SubPatterns_ok(1)[OF vec(1) c] by simp_all
  note one = BySpecialization_ok[OF laws search ts matrix vec c1 found]
  have special: "Specialize p (Ctor p) = SubPatterns p"
    using head_Specialize(2)[OF vec(1) c1] vec(1) by (cases p) (auto simp: Specialize_def SpecializeWildcard_def)
  show ?thesis
  proof (rule found_okI)
    show "matches_some H matrix (v # vs) \<or> matches_some H ws (v # vs)"
      if "list_all (types_apart E H) (p # rest)" "H v t" "list_all2 H vs ts" "matches H p v" "matches_row H rest vs" for v vs
      using matches_builds[OF laws vec(1) that(4) c that(2)] one(3)[OF that(1,3) _ _ _ that(5)] special by auto
  qed (use one(1,2) in blast)+
qed

lemma FindWitnesses_search_ok:
  assumes laws: "env_ok E" "typing_laws E H"
  shows "search_ok E H (FindWitnesses k E)"
proof (induction k)
  case 0
  show ?case by (simp add: search_ok_def)
next
  case (Suc k)
  show ?case
    unfolding search_ok_def
  proof (intro allI impI, elim conjE)
    fix ts matrix vec ws ms
    assume ts: "list_all IsTyCorrect ts" and matrix: "matrix_ok E ts matrix" and vec: "stack_ok E ts vec"
      and found: "FindWitnesses (Suc k) E matrix vec = Some (ws, ms)"
    let ?search = "FindWitnesses k E"
    have none: "found_ok E H ts matrix vec []"
      if "\<And>vs. list_all (types_apart E H) vec \<Longrightarrow> list_all2 H vs ts \<Longrightarrow> matches_row H vec vs \<Longrightarrow> matches_some H matrix vs"
      using that by (auto simp: found_ok_def matrix_ok_def matches_some_def)
    show "found_ok E H ts matrix vec ws"
    proof (cases vec)
      case Nil
      then have "ts = []" using vec by (simp add: stack_ok_def)
      moreover have "row = []" if "row \<in> set matrix" for row
        using matrix that \<open>ts = []\<close> by (simp add: matrix_ok_def stack_ok_def)
      ultimately show ?thesis using found Nil
        by (cases matrix) (auto simp: found_ok_def matrix_ok_def stack_ok_def matches_some_def matches_row_def)
    next
      case (Cons p rest)
      then obtain t ts' where tts: "ts = t # ts'" using vec by (cases ts) (auto simp: stack_ok_def)
      have p: "pat_ok E t p" and rest: "stack_ok E ts' rest" and t: "IsTyCorrect t" "list_all IsTyCorrect ts'"
        using vec ts by (simp_all add: Cons tts stack_ok_Cons)
      note m = matrix[unfolded tts]
      show ?thesis
      proof (cases "HasSingleRowAndAllWildcard matrix")
        case True
        then obtain row where row: "matrix = [row]" "list_all AllWildcard row"
          by (cases matrix) (auto simp: HasSingleRowAndAllWildcard_def)
        have all: "AllWildcard q \<Longrightarrow> pat_ok E t q \<Longrightarrow> H v t \<Longrightarrow> matches H q v" for q v t
          by (rule AllWildcard_matches[OF laws])
        have "matches_row H row vs" if "list_all2 H vs ts" for vs
          using row matrix that all by (fastforce simp: matrix_ok_def stack_ok_def matches_row_def list_all2_conv_all_nth list_all_length)
        moreover have "ws = []" using found True Cons by simp
        ultimately show ?thesis using none row(1) by (simp add: matches_some_def)
      next
        case False
        note found1 = found[unfolded Cons, simplified, unfolded if_not_P[OF False] Let_def]
        consider (unreachable) "IsUnreachableTypePattern E p" "ws = []"
          | (wildcard) "Ctor p = C_Wildcard" "FindWitnessesForWildcard E ?search matrix (p # rest) = Some (ws, ms)"
          | (alternatives) n where "Ctor p = C_Or n" "FindWitnessesForExpandedOr ?search matrix (ExpandOr (p # rest)) = Some (ws, ms)"
          | (type) ty ws1 m1 where "Ctor p = C_Type ty"
              "FindWitnessesForWildcard E ?search matrix (WildcardOf (GoalTy p) # rest) = Some (ws1, m1)"
              "ws1 = [] \<and> ws = [] \<or> (\<exists>m2. FindWitnessesBySpecialization E ?search matrix (p # rest) (Ctor p) = Some (ws, m2))"
          | (other) "\<forall>n. Ctor p \<noteq> C_Or n" "FindWitnessesBySpecialization E ?search matrix (p # rest) (Ctor p) = Some (ws, ms)"
          using found1 by (auto simp: ReplaceHead_def split: Constructor.splits if_splits bind_splits)
        then show ?thesis
        proof cases
          case unreachable
          then obtain ty where ty: "Ctor p = C_Type ty" by (auto simp: IsUnreachableTypePattern_def split: Constructor.splits)
          have "\<not> matches H p v" if "types_apart E H p" "H v t" for v
            using that unreachable(1) ty p by (cases p) auto
          then show ?thesis using unreachable(2) none
            by (auto simp: Cons tts list_all2_Cons2 matches_row_def simp del: types_apart.simps matches.simps)
        next
          case wildcard
          from ForWildcard_ok[OF laws Suc t m p rest this] show ?thesis by (simp add: Cons tts)
        next
          case alternatives
          obtain subs goal node where q: "p = DP (C_Or n) subs goal node" using alternatives(1) by (cases p) simp
          then have "ExpandOr (p # rest) = map (\<lambda>q. q # rest) subs" by (simp add: ExpandOr_def ReplaceHead_def)
          with alternatives(2) obtain us' ms' where "OrLoop ?search matrix (map (\<lambda>q. q # rest) subs) [] ([], []) = Some (us', (ws, ms'))"
            by (auto simp: FindWitnessesForExpandedOr_def)
          moreover have "list_all (pat_ok E t) subs" "list_all IsTyCorrect (t # ts')" using p q ts tts by simp_all
          ultimately have or: "matrix_ok E (t # ts') ws"
            "\<forall>vs. list_all2 H vs (t # ts') \<and> matches_some H ws vs \<longrightarrow> (\<exists>q \<in> set subs. matches_row H (q # rest) vs)"
            "list_all (types_apart E H) (subs @ rest) \<longrightarrow> (\<forall>vs. list_all2 H vs (t # ts') \<and>
               (\<exists>q \<in> set subs. matches_row H (q # rest) vs) \<longrightarrow> matches_some H matrix vs \<or> matches_some H ws vs)"
            using OrLoop_ok[OF Suc _ rest _ m] by (metis append_Nil)+
          have row: "matches_row H (q # rest) (v # vs) \<longleftrightarrow> matches H q v \<and> matches_row H rest vs" for q v vs
            by (simp add: matches_row_def)
          have alt: "matches H p v \<longleftrightarrow> (\<exists>q \<in> set subs. matches H q v)" for v by (simp add: q list_ex_iff)
          show ?thesis unfolding Cons tts
          proof (rule found_okI)
            show "matches_row H (p # rest) (v # vs)" if "H v t" "list_all2 H vs ts'" "matches_some H ws (v # vs)" for v vs
              using or(2) that row alt by (metis list_all2_Cons)
            show "matches_some H matrix (v # vs) \<or> matches_some H ws (v # vs)"
              if "list_all (types_apart E H) (p # rest)" "H v t" "list_all2 H vs ts'" "matches H p v" "matches_row H rest vs" for v vs
            proof -
              have "list_all (types_apart E H) (subs @ rest)" using that(1) q by simp
              moreover have "list_all2 H (v # vs) (t # ts')" using that(2,3) by simp
              moreover have "\<exists>q \<in> set subs. matches_row H (q # rest) (v # vs)" using that(4,5) alt row by blast
              ultimately show ?thesis using or(3) by blast
            qed
          qed (rule or(1))
        next
          case type
          have goal: "GoalTy p = t" using p type(1) by (cases p) simp
          have "Ctor (WildcardOf t) = C_Wildcard" by (simp add: WildcardOf_def)
          from ForWildcard_ok[OF laws Suc t m _ rest this type(2)[unfolded goal]]
          have first: "found_ok E H ts matrix (WildcardOf t # rest) ws1" by (simp add: tts)
          from type(3) show ?thesis
          proof (elim disjE conjE exE)
            assume e: "ws1 = []" "ws = []"
            show ?thesis unfolding Cons tts e(2)
            proof (rule found_okI)
              fix v vs assume a: "list_all (types_apart E H) (p # rest)" "H v t" "list_all2 H vs ts'" "matches_row H rest vs"
              then have "list_all (types_apart E H) (WildcardOf t # rest)" "list_all2 H (v # vs) ts"
                "matches_row H (WildcardOf t # rest) (v # vs)"
                by (simp_all add: tts matches_row_def) (simp add: WildcardOf_def)
              then have "matches_some H matrix (v # vs) \<or> matches_some H ws1 (v # vs)" using first unfolding found_ok_def by blast
              then show "matches_some H matrix (v # vs) \<or> matches_some H [] (v # vs)" using e(1) by simp
            qed (simp_all add: matrix_ok_def matches_some_def)
          next
            fix m2 assume "FindWitnessesBySpecialization E ?search matrix (p # rest) (Ctor p) = Some (ws, m2)"
            from BySpecialization_self_ok[OF laws Suc t m p rest _ this] type(1) show ?thesis by (simp add: Cons tts)
          qed
        next
          case other
          from BySpecialization_self_ok[OF laws Suc t m p rest other] show ?thesis by (simp add: Cons tts)
        qed
      qed
    qed
  qed
qed

end
