(* ===== verification/UsefulnessReturns.thy ===== *)
theory UsefulnessReturns
  imports Usefulness "HOL-Library.Multiset"
begin

section \<open>The search for witnesses returns\<close>

text \<open>
  A specialisation replaces a column by columns of patterns that are less deep, an alternative makes the
  head smaller, and the witnesses that grow the matrix are no deeper than what they were searched in.
  So the depths of the columns fall in the multiset order, for every matrix.
\<close>

subsection \<open>Depths\<close>

fun depth :: "DestructedPattern \<Rightarrow> nat" where
  "depth (DP ctor subs goal node) = (if ctor = C_Wildcard then 0 else Suc (foldr max (map depth subs) 0))"

definition stack_le :: "nat list \<Rightarrow> PatternStack \<Rightarrow> bool" where
  "stack_le ds stack \<longleftrightarrow> list_all2 (\<lambda>p d. depth p \<le> d) stack ds"

definition matrix_le :: "nat list \<Rightarrow> Matrix \<Rightarrow> bool" where
  "matrix_le ds rows \<longleftrightarrow> (\<forall>row \<in> set rows. stack_le ds row)"

lemma max_le: "foldr max ns (0::nat) \<le> d \<longleftrightarrow> (\<forall>n \<in> set ns. n \<le> d)"
  by (induction ns) auto

lemma stack_le_Cons: "stack_le (d # ds) stack \<longleftrightarrow> (\<exists>p rest. stack = p # rest \<and> depth p \<le> d \<and> stack_le ds rest)"
  by (auto simp: stack_le_def list_all2_Cons2)

lemma stack_le_append: "length a = length ds \<Longrightarrow> stack_le (ds @ es) (a @ b) \<longleftrightarrow> stack_le ds a \<and> stack_le es b"
  by (simp add: stack_le_def list_all2_append)

lemma stack_le_replicate: "stack_le (replicate n d) ps \<longleftrightarrow> length ps = n \<and> (\<forall>p \<in> set ps. depth p \<le> d)"
  by (auto simp: stack_le_def list_all2_conv_all_nth all_set_conv_all_nth)

lemma depth_WildcardOf [simp]: "depth (WildcardOf t) = 0"
  by (simp add: WildcardOf_def)

lemma depth_Specialize:
  assumes "q \<in> set (Specialize p c)" "depth p \<le> d"
  shows "depth q \<le> d - 1"
proof (cases p)
  case (DP ctor subs goal node)
  show ?thesis
  proof (cases "ctor = C_Wildcard")
    case True
    then show ?thesis using assms(1) DP
      by (auto simp: Specialize_def SpecializeWildcard_def split: Constructor.splits SemaTy.splits)
  next
    case False
    then have "foldr max (map depth subs) 0 \<le> d - 1" using assms(2) DP by simp
    then show ?thesis using assms(1) DP False by (auto simp: Specialize_def max_le)
  qed
qed

subsection \<open>Settling\<close>

text \<open>With enough fuel the result is there and does not change.\<close>

definition settles :: "(nat \<Rightarrow> 'a option) \<Rightarrow> 'a \<Rightarrow> bool" where
  "settles f r \<longleftrightarrow> (\<exists>k0. \<forall>k \<ge> k0. f k = Some r)"

lemma settlesI: "(\<And>k. f k = Some r) \<Longrightarrow> settles f r"
  by (simp add: settles_def)

lemma settles_Suc: "settles (\<lambda>k. f (Suc k)) r \<Longrightarrow> settles f r"
  unfolding settles_def by (metis Suc_le_D Suc_le_mono)

lemma settles_map: "settles f r \<Longrightarrow> settles (\<lambda>k. map_option g (f k)) (g r)"
  unfolding settles_def by (metis option.map(2))

lemma settles_bind:
  assumes "settles f r" "settles (\<lambda>k. g k r) s"
  shows "settles (\<lambda>k. Option.bind (f k) (g k)) s"
proof -
  from assms obtain k0 k1 where "\<forall>k \<ge> k0. f k = Some r" "\<forall>k \<ge> k1. g k r = Some s" unfolding settles_def by blast
  then have "\<forall>k \<ge> max k0 k1. Option.bind (f k) (g k) = Some s" by simp
  then show ?thesis unfolding settles_def by blast
qed

text \<open>A search that settles on witnesses within the depths.\<close>

definition finds :: "nat list \<Rightarrow> (nat \<Rightarrow> Found option) \<Rightarrow> bool" where
  "finds ds f \<longleftrightarrow> (\<exists>ws ms. settles f (ws, ms) \<and> matrix_le ds ws)"

lemma findsE:
  assumes "finds ds f"
  obtains ws ms where "settles f (ws, ms)" "matrix_le ds ws"
  using assms unfolding finds_def by blast

lemma finds_Suc: "finds ds (\<lambda>k. f (Suc k)) \<Longrightarrow> finds ds f"
proof -
  assume "finds ds (\<lambda>k. f (Suc k))"
  then obtain ws ms where "settles (\<lambda>k. f (Suc k)) (ws, ms)" and le: "matrix_le ds ws" by (rule findsE)
  from settles_Suc[of f, OF this(1)] le show ?thesis unfolding finds_def by blast
qed

lemma finds_none: "(\<And>k. f k = Some ([], ms)) \<Longrightarrow> finds ds f"
proof -
  assume "\<And>k. f k = Some ([], ms)"
  then have "settles f ([], ms)" by (rule settlesI)
  moreover have "matrix_le ds []" by (simp add: matrix_le_def)
  ultimately show ?thesis unfolding finds_def by blast
qed

subsection \<open>The searches settle\<close>

text \<open>What is known of smaller searches.\<close>

definition good :: "SemaEnv \<Rightarrow> SemaTy list \<Rightarrow> nat list \<Rightarrow> Matrix \<Rightarrow> PatternStack \<Rightarrow> bool" where
  "good E ts ds matrix vec \<longleftrightarrow> list_all IsTyCorrect ts \<and> matrix_ok E ts matrix \<and> stack_ok E ts vec \<and>
     matrix_le ds matrix \<and> stack_le ds vec"

definition smaller_find :: "SemaEnv \<Rightarrow> nat multiset \<Rightarrow> bool" where
  "smaller_find E D \<longleftrightarrow> (\<forall>ts ds matrix vec. (mset ds, D) \<in> mult less_than \<and> good E ts ds matrix vec \<longrightarrow>
     finds ds (\<lambda>k. FindWitnesses k E matrix vec))"

lemma mult_Specialize:
  assumes "n = 0 \<or> 0 < d"
  shows "(mset (replicate n (d - 1) @ ds), mset (d # ds)) \<in> mult less_than"
proof -
  have "(mset ds + mset (replicate n (d - 1)), mset ds + {#d#}) \<in> mult less_than"
    by (rule one_step_implies_mult) (use assms in auto)
  then show ?thesis by (simp add: add.commute)
qed

lemma no_values: "typing_laws E (\<lambda>v t. False)"
  by (simp add: typing_laws_def)

lemma found_typed:
  assumes "env_ok E" "good E ts ds matrix vec" "FindWitnesses k E matrix vec = Some (ws, ms)"
  shows "matrix_ok E ts ws"
  using search_okD[OF FindWitnesses_search_ok[OF assms(1) no_values] assms(3)] assms(2) by (auto simp: good_def found_ok_def)

lemma settles_some: "settles f r \<Longrightarrow> \<exists>k. f k = Some r"
  by (auto simp: settles_def)

lemma Specialize_good:
  assumes "env_ok E" and g: "good E (t # ts) (d # ds) matrix (p # rest)"
    and c: "ctor_ok E t c" "Ctor p = C_Wildcard \<or> Ctor p = c"
  shows "good E (arg_tys t c @ ts) (replicate (Arity c) (d - 1) @ ds) (M_Specialize E matrix c) (Specialize p c @ rest)"
proof -
  have ok: "IsTyCorrect t" "list_all IsTyCorrect ts" "matrix_ok E (t # ts) matrix" "pat_ok E t p" "stack_ok E ts rest"
    "matrix_le (d # ds) matrix" "depth p \<le> d" "stack_le ds rest"
    using g by (simp_all add: good_def stack_ok_Cons stack_le_Cons)
  have len: "length (Specialize p c) = Arity c"
    using list_all2_lengthD[OF head_Specialize(1)[OF ok(4) c]] Arity_arg_tys[OF c(1)] by simp
  have "stack_le (replicate (Arity c) (d - 1) @ ds) row" if row_in: "row \<in> set (M_Specialize E matrix c)" for row
  proof -
    obtain r where r: "r \<in> set matrix" "IsCoveredBy E c (Ctor (hd r))" "row = PS_Specialize r c"
      using row_in by (auto simp: M_Specialize_def)
    with ok(3,6) obtain q qs where q: "r = q # qs" "pat_ok E t q" "depth q \<le> d" "stack_le ds qs"
      unfolding matrix_ok_def matrix_le_def by (fastforce simp: stack_ok_Cons stack_le_Cons)
    have "length (Specialize q c) = Arity c"
      using list_all2_lengthD[OF Specialize_row_ok[OF assms(1) q(2) c(1)]] r(2) q(1) Arity_arg_tys[OF c(1)] by simp
    then show ?thesis using q r(3) depth_Specialize[OF _ q(3), of _ c]
      by (simp add: PS_Specialize_def stack_le_append stack_le_replicate)
  qed
  then show ?thesis
    using ok arg_tys_correct[OF assms(1) ok(1) c(1)] M_Specialize_ok[OF assms(1) ok(3) c(1)] head_Specialize(1)[OF ok(4) c] len
      depth_Specialize[OF _ ok(7), of _ c]
    by (auto simp: good_def matrix_le_def stack_ok_def stack_le_append stack_le_replicate intro!: list_all2_appendI)
qed

lemma BySpecialization_finds:
  assumes env: "env_ok E" and smaller: "smaller_find E (mset (d # ds))" and g: "good E (t # ts) (d # ds) matrix (p # rest)"
    and c: "ctor_ok E t c" "Ctor p = C_Wildcard \<or> Ctor p = c" and d: "c = C_Wildcard \<or> 0 < d"
  shows "finds (d # ds) (\<lambda>k. FindWitnessesBySpecialization E (FindWitnesses k E) matrix (p # rest) c)"
proof -
  let ?ds = "replicate (Arity c) (d - 1) @ ds"
  note sg = Specialize_good[OF env g c]
  have "(mset ?ds, mset (d # ds)) \<in> mult less_than" by (rule mult_Specialize) (use d in auto)
  with smaller sg have "finds ?ds (\<lambda>k. FindWitnesses k E (M_Specialize E matrix c) (Specialize p c @ rest))"
    unfolding smaller_find_def by blast
  then obtain ws ms where w: "settles (\<lambda>k. FindWitnesses k E (M_Specialize E matrix c) (Specialize p c @ rest)) (ws, ms)"
    "matrix_le ?ds ws" by (rule findsE)
  have s: "settles (\<lambda>k. FindWitnessesBySpecialization E (FindWitnesses k E) matrix (p # rest) c)
      (map (\<lambda>w. PS_Apply w c (GoalTy p)) ws, ms)"
    using settles_map[OF w(1), of "\<lambda>(witnesses, marks). (map (\<lambda>w. PS_Apply w c (GoalTy p)) witnesses, marks)"]
    by (simp add: FindWitnessesBySpecialization_def PS_Specialize_def)
  have "stack_le (d # ds) (PS_Apply w c (GoalTy p))" if "w \<in> set ws" for w
  proof -
    have le: "stack_le ?ds w" using w(2) that by (simp add: matrix_le_def)
    then have "length w = Arity c + length ds" by (auto simp: stack_le_def dest: list_all2_lengthD)
    then have "stack_le (replicate (Arity c) (d - 1)) (take (Arity c) w)" "stack_le ds (drop (Arity c) w)"
      using le stack_le_append[of "take (Arity c) w" "replicate (Arity c) (d - 1)" ds "drop (Arity c) w"] by simp_all
    moreover from this d have "c = C_Wildcard \<or> foldr max (map depth (take (Arity c) w)) 0 \<le> d - 1 \<and> 0 < d"
      by (auto simp: stack_le_replicate max_le)
    ultimately show ?thesis by (auto simp: PS_Apply_def stack_le_Cons)
  qed
  then show ?thesis using s unfolding finds_def matrix_le_def by fastforce
qed

lemma WitnessesOfCtors_finds:
  assumes env: "env_ok E" and smaller: "smaller_find E (mset (d # ds))" and g: "good E (t # ts) (d # ds) matrix (p # rest)"
    and p: "Ctor p = C_Wildcard" and d: "0 < d" and cs: "\<forall>c \<in> set cs. ctor_ok E t c"
  shows "finds (d # ds) (\<lambda>k. WitnessesOfCtors E (FindWitnesses k E) matrix (p # rest) cs)"
  using cs
proof (induction cs)
  case Nil
  then show ?case by (intro finds_none[of _ "[]"]) simp
next
  case (Cons c cs)
  have "finds (d # ds) (\<lambda>k. FindWitnessesBySpecialization E (FindWitnesses k E) matrix (p # rest) c)"
    by (rule BySpecialization_finds[OF env smaller g]) (use p d Cons.prems in auto)
  then obtain ws1 m1 where one: "settles (\<lambda>k. FindWitnessesBySpecialization E (FindWitnesses k E) matrix (p # rest) c) (ws1, m1)"
    "matrix_le (d # ds) ws1" by (rule findsE)
  from Cons obtain ws2 m2 where two: "settles (\<lambda>k. WitnessesOfCtors E (FindWitnesses k E) matrix (p # rest) cs) (ws2, m2)"
    "matrix_le (d # ds) ws2" by (auto elim: findsE)
  have "settles (\<lambda>k. WitnessesOfCtors E (FindWitnesses k E) matrix (p # rest) (c # cs)) (ws1 @ ws2, m1 @ m2)"
    unfolding WitnessesOfCtors.simps
    by (rule settles_bind[OF one(1)], unfold prod.case, rule settles_bind[OF two(1)], unfold prod.case, rule settlesI, rule refl)
  then show ?case using one(2) two(2) unfolding finds_def by (force simp: matrix_le_def)
qed

lemma HeadsAllWildcard_depth:
  assumes "good E (t # ts) (d # ds) matrix vec" "\<not> HeadsAllWildcard matrix"
  shows "0 < d"
proof -
  obtain row where row: "row \<in> set matrix" "row = [] \<or> \<not> AllWildcard (hd row)"
    using assms(2) by (auto simp: HeadsAllWildcard_def list_all_iff split: if_splits)
  then obtain q qs where q: "row = q # qs" "depth q \<le> d"
    using assms(1) unfolding good_def matrix_le_def by (fastforce simp: stack_le_Cons)
  with row(2) have "0 < depth q" by (cases q) auto
  with q(2) show ?thesis by simp
qed

text \<open>A head with a constructor is specialised by it; the wildcard of a tuple is expanded first.\<close>

lemma self_finds:
  assumes env: "env_ok E" and smaller: "smaller_find E (mset (d # ds))" and g: "good E (t # ts) (d # ds) matrix (p # rest)"
    and p: "Ctor p \<noteq> C_Wildcard" "\<forall>n. Ctor p \<noteq> C_Or n"
  shows "finds (d # ds) (\<lambda>k. FindWitnessesBySpecialization E (FindWitnesses k E) matrix (p # rest) (Ctor p))"
proof -
  have "pat_ok E t p" "depth p \<le> d" using g by (simp_all add: good_def stack_ok_Cons stack_le_Cons)
  moreover from this have "0 < d" using p(1) by (cases p) auto
  ultimately show ?thesis using SubPatterns_ok(1)[OF _ p(2)] by (intro BySpecialization_finds[OF env smaller g]) auto
qed

lemma ForWildcard_finds:
  assumes env: "env_ok E" and smaller: "smaller_find E (mset (d # ds))" and g: "good E (t # ts) (d # ds) matrix (p # rest)"
    and p: "Ctor p = C_Wildcard" and single: "\<not> HasSingleRowAndAllWildcard matrix"
  shows "finds (d # ds) (\<lambda>k. FindWitnessesForWildcard E (FindWitnesses k E) matrix (p # rest))"
proof -
  have ok: "pat_ok E t p" "stack_ok E ts rest" "IsTyCorrect t" "matrix_ok E (t # ts) matrix" "stack_le ds rest"
    using g by (simp_all add: good_def stack_ok_Cons stack_le_Cons)
  have goal: "GoalTy p = t" using ok(1) p by (cases p) simp
  show ?thesis
  proof (cases "HeadsAllWildcard matrix")
    case True
    have "finds (d # ds) (\<lambda>k. FindWitnessesBySpecialization E (FindWitnesses k E) matrix (p # rest) C_Wildcard)"
      by (rule BySpecialization_finds[OF env smaller g]) (simp_all add: ctor_ok_def p)
    then show ?thesis using True p by (simp add: FindWitnessesForWildcard_def)
  next
    case split: False
    then have d: "0 < d" by (rule HeadsAllWildcard_depth[OF g])
    show ?thesis
    proof (cases "IsTuple t")
      case True
      then obtain us where t: "t = TupleTy us" by (cases t) auto
      let ?tuple = "C_Tuple (length us)"
      let ?q = "DP ?tuple (map WildcardOf us) t None"
      have "Specialize p ?tuple = map WildcardOf us"
        using head_Specialize(3)[OF ok(1) _ _ p, of ?tuple] p by (simp add: ctor_ok_def arg_tys_def t)
      then have f: "FindWitnessesForWildcard E (FindWitnesses k E) matrix (p # rest) = FindWitnesses k E matrix (?q # rest)" for k
        using split by (simp add: FindWitnessesForWildcard_def goal t PS_Specialize_def PS_Apply_def)
      have "foldr max (map depth (map WildcardOf us)) 0 \<le> d - 1" unfolding max_le by auto
      then have "depth ?q \<le> d" using d by simp
      moreover have "pat_ok E t ?q" by (simp add: t list_all2_conv_all_nth)
      ultimately have gq: "good E (t # ts) (d # ds) matrix (?q # rest)"
        using g by (simp add: good_def stack_ok_Cons stack_le_Cons del: depth.simps)
      have "FindWitnesses (Suc k) E matrix (?q # rest) =
          FindWitnessesBySpecialization E (FindWitnesses k E) matrix (?q # rest) (Ctor ?q)" for k
        using single by (simp add: IsUnreachableTypePattern_def)
      moreover have "finds (d # ds) (\<lambda>k. FindWitnessesBySpecialization E (FindWitnesses k E) matrix (?q # rest) (Ctor ?q))"
        by (rule self_finds[OF env smaller gq]) simp_all
      ultimately have "finds (d # ds) (\<lambda>k. FindWitnesses (Suc k) E matrix (?q # rest))" by (simp only:)
      then show ?thesis unfolding f by (rule finds_Suc[of _ "\<lambda>k. FindWitnesses k E matrix (?q # rest)"])
    next
      case False
      have "\<forall>c \<in> set (SplitWildcard E t matrix). ctor_ok E t c"
        using SplitWildcard_ok[OF env ok(3) HeadsAllWildcard_not_empty[OF split ok(4)]] by blast
      from WitnessesOfCtors_finds[OF env smaller g p d this] show ?thesis
        using split False by (simp add: FindWitnessesForWildcard_def goal)
    qed
  qed
qed

subsection \<open>The theorem\<close>

lemma OrLoop_finds:
  assumes env: "env_ok E" and ts: "list_all IsTyCorrect (t # ts)" and rest: "stack_ok E ts rest" "stack_le ds rest"
    and smaller: "\<And>matrix q. q \<in> set ps \<Longrightarrow> good E (t # ts) (d # ds) matrix (q # rest) \<Longrightarrow>
      finds (d # ds) (\<lambda>k. FindWitnesses k E matrix (q # rest))"
    and ps: "list_all (pat_ok E t) ps" "list_all (\<lambda>q. depth q \<le> d) ps"
    and matrix: "matrix_ok E (t # ts) matrix" "matrix_le (d # ds) matrix" and ws0: "matrix_le (d # ds) ws0"
  shows "\<exists>us' ws ms. settles (\<lambda>k. OrLoop (FindWitnesses k E) matrix (map (\<lambda>q. q # rest) ps) us (ws0, ms0)) (us', (ws, ms)) \<and>
    matrix_le (d # ds) ws"
  using smaller ps matrix ws0
proof (induction ps arbitrary: matrix us ws0 ms0)
  case Nil
  have "settles (\<lambda>k. OrLoop (FindWitnesses k E) matrix [] us (ws0, ms0)) (us, (ws0, ms0))" by (rule settlesI) simp
  then show ?case using Nil.prems by auto
next
  case (Cons q qs)
  have g: "good E (t # ts) (d # ds) matrix (q # rest)"
    using Cons.prems ts rest by (simp add: good_def stack_ok_Cons stack_le_Cons)
  from Cons.prems(1)[OF _ this] obtain ws1 m1 where
    one: "settles (\<lambda>k. FindWitnesses k E matrix (q # rest)) (ws1, m1)" "matrix_le (d # ds) ws1"
    by (auto elim: findsE)
  from settles_some[OF one(1)] found_typed[OF env g] have typed_ws: "matrix_ok E (t # ts) ws1" by blast
  let ?us = "if ws1 = [] then us @ (case Node q of None \<Rightarrow> [] | Some n \<Rightarrow> [n]) else us"
  have "matrix_ok E (t # ts) (matrix @ ws1)" "matrix_le (d # ds) (matrix @ ws1)" "matrix_le (d # ds) (ws0 @ ws1)"
    using Cons.prems typed_ws one(2) by (auto simp: matrix_ok_def matrix_le_def)
  then obtain us' ws ms where
    loop: "settles (\<lambda>k. OrLoop (FindWitnesses k E) (matrix @ ws1) (map (\<lambda>q. q # rest) qs) ?us (ws0 @ ws1, ms0 @ m1)) (us', (ws, ms))"
      "matrix_le (d # ds) ws"
    using Cons.IH[of "matrix @ ws1" "ws0 @ ws1" ?us "ms0 @ m1"] Cons.prems by fastforce
  have "settles (\<lambda>k. OrLoop (FindWitnesses k E) matrix (map (\<lambda>q. q # rest) (q # qs)) us (ws0, ms0)) (us', (ws, ms))"
    unfolding list.map OrLoop.simps
    by (rule settles_bind[OF one(1)], unfold prod.case) (use loop(1) in \<open>simp add: AppendRows_def split: if_splits\<close>)
  then show ?case using loop(2) by blast
qed

lemma FindWitnesses_finds:
  assumes env: "env_ok E"
  shows "good E ts ds matrix vec \<Longrightarrow> finds ds (\<lambda>k. FindWitnesses k E matrix vec)"
proof (induction "(mset ds, size (hd vec))" arbitrary: ts ds matrix vec
    rule: wf_induct_rule[OF wf_lex_prod[OF wf_mult[OF wf_less_than] wf_less_than]])
  case 1
  note IH = "1.hyps"
  note g = "1.prems"
  show ?case
  proof (cases vec)
    case Nil
    have "settles (\<lambda>k. FindWitnesses (Suc k) E matrix vec) (if matrix = [] then [[]] else [], [])"
      by (rule settlesI) (simp add: Nil)
    from settles_Suc[of "\<lambda>k. FindWitnesses k E matrix vec", OF this] g show ?thesis
      unfolding finds_def by (auto simp: good_def Nil matrix_le_def stack_le_def)
  next
    case (Cons p rest)
    then obtain t ts' d ds' where s: "ts = t # ts'" "ds = d # ds'"
      using g by (cases ts; cases ds) (auto simp: good_def stack_ok_def stack_le_def)
    note g' = g[unfolded s Cons]
    have ok: "list_all IsTyCorrect (t # ts')" "matrix_ok E (t # ts') matrix" "matrix_le (d # ds') matrix"
      "pat_ok E t p" "stack_ok E ts' rest" "depth p \<le> d" "stack_le ds' rest"
      using g' by (simp_all add: good_def stack_ok_Cons stack_le_Cons)
    have smaller: "smaller_find E (mset (d # ds'))"
      unfolding smaller_find_def using IH s by (auto simp: in_lex_prod)
    note finds_self = finds_Suc[of "d # ds'" "\<lambda>k. FindWitnesses k E matrix (p # rest)"]
    show ?thesis unfolding s Cons
    proof (cases "HasSingleRowAndAllWildcard matrix \<or> IsUnreachableTypePattern E p")
      case True
      then show "finds (d # ds') (\<lambda>k. FindWitnesses k E matrix (p # rest))"
        by (intro finds_self finds_none[of _ "[]"]) auto
    next
      case False
      then have single: "\<not> HasSingleRowAndAllWildcard matrix" and reach: "\<not> IsUnreachableTypePattern E p" by auto
      consider "Ctor p = C_Wildcard" | n where "Ctor p = C_Or n" | ty where "Ctor p = C_Type ty"
        | "Ctor p \<noteq> C_Wildcard" "\<forall>n. Ctor p \<noteq> C_Or n" "\<forall>ty. Ctor p \<noteq> C_Type ty" by blast
      then show "finds (d # ds') (\<lambda>k. FindWitnesses k E matrix (p # rest))"
      proof cases
        case 1
        have "FindWitnesses (Suc k) E matrix (p # rest) = FindWitnessesForWildcard E (FindWitnesses k E) matrix (p # rest)" for k
          using single reach 1 by simp
        with ForWildcard_finds[OF env smaller g' 1 single] show ?thesis by (intro finds_self) simp
      next
        case 2
        obtain subs goal node where q: "p = DP (C_Or n) subs goal node" using 2 by (cases p) simp
        then have e: "ExpandOr (p # rest) = map (\<lambda>q. q # rest) subs" by (simp add: ExpandOr_def ReplaceHead_def)
        have unfold: "FindWitnesses (Suc k) E matrix (p # rest) =
            FindWitnessesForExpandedOr (FindWitnesses k E) matrix (map (\<lambda>q. q # rest) subs)" for k
          using single reach 2 e by simp
        have alternative: "finds (d # ds') (\<lambda>k. FindWitnesses k E m (r # rest))"
          if "r \<in> set subs" "good E (t # ts') (d # ds') m (r # rest)" for m r
        proof -
          have "size r < size p" using that(1) q by (simp add: size_list_estimation less_Suc_eq_le size_list_estimation')
          then show ?thesis using IH[of "d # ds'" "r # rest" "t # ts'" m] that(2) by (simp add: s Cons in_lex_prod)
        qed
        have "list_all (pat_ok E t) subs" "list_all (\<lambda>q. depth q \<le> d) subs" "matrix_le (d # ds') []"
          using ok(4,6) by (auto simp: q Suc_le_eq list_all_iff max_le matrix_le_def dest: less_imp_le_nat)
        from OrLoop_finds[OF env ok(1,5,7) alternative this(1,2) ok(2,3) this(3), of "[]" "[]"] obtain us' ws ms where
          loop: "settles (\<lambda>k. OrLoop (FindWitnesses k E) matrix (map (\<lambda>q. q # rest) subs) [] ([], [])) (us', (ws, ms))"
          "matrix_le (d # ds') ws" by blast
        from settles_map[OF loop(1), of "\<lambda>(us, (ws, ms)). (ws, if ws \<noteq> [] then ms @ us else ms)"] loop(2)
        have "finds (d # ds') (\<lambda>k. FindWitnessesForExpandedOr (FindWitnesses k E) matrix (map (\<lambda>q. q # rest) subs))"
          unfolding finds_def FindWitnessesForExpandedOr_def by auto
        then show ?thesis by (intro finds_self) (simp only: unfold)
      next
        case 3
        have goal: "GoalTy p = t" using ok(4) 3 by (cases p) simp
        have "good E (t # ts') (d # ds') matrix (WildcardOf t # rest)"
          using g' by (simp add: good_def stack_ok_Cons stack_le_Cons)
        moreover have "Ctor (WildcardOf t) = C_Wildcard" by (simp add: WildcardOf_def)
        ultimately have "finds (d # ds') (\<lambda>k. FindWitnessesForWildcard E (FindWitnesses k E) matrix (WildcardOf t # rest))"
          by (rule ForWildcard_finds[OF env smaller _ _ single])
        then obtain ws1 m1 where
          one: "settles (\<lambda>k. FindWitnessesForWildcard E (FindWitnesses k E) matrix (WildcardOf t # rest)) (ws1, m1)" by (rule findsE)
        have "finds (d # ds') (\<lambda>k. FindWitnessesBySpecialization E (FindWitnesses k E) matrix (p # rest) (Ctor p))"
          by (rule self_finds[OF env smaller g']) (simp_all add: 3)
        then obtain ws2 m2 where
          two: "settles (\<lambda>k. FindWitnessesBySpecialization E (FindWitnesses k E) matrix (p # rest) (Ctor p)) (ws2, m2)"
            "matrix_le (d # ds') ws2" by (rule findsE)
        let ?rest = "\<lambda>k (ws, marks). if ws = [] then Some ([], marks)
            else map_option (\<lambda>(witnesses, marks'). (witnesses, marks @ marks'))
              (FindWitnessesBySpecialization E (FindWitnesses k E) matrix (p # rest) (C_Type ty))"
        have unfold: "FindWitnesses (Suc k) E matrix (p # rest) =
            Option.bind (FindWitnessesForWildcard E (FindWitnesses k E) matrix (WildcardOf t # rest)) (?rest k)" for k
          using single reach 3 goal by (simp add: ReplaceHead_def Let_def)
        have "finds (d # ds') (\<lambda>k. FindWitnesses (Suc k) E matrix (p # rest))"
        proof (cases "ws1 = []")
          case True
          then have "settles (\<lambda>k. ?rest k (ws1, m1)) ([], m1)" by (simp add: settlesI)
          from settles_bind[where g = ?rest, OF one this] show ?thesis unfolding unfold finds_def by (force simp: matrix_le_def)
        next
          case False
          then have "settles (\<lambda>k. ?rest k (ws1, m1)) (ws2, m1 @ m2)"
            using settles_map[OF two(1), of "\<lambda>(w, m'). (w, m1 @ m')"] 3 by simp
          from settles_bind[where g = ?rest, OF one this] two(2) show ?thesis unfolding unfold finds_def by blast
        qed
        then show ?thesis by (rule finds_self)
      next
        case 4
        then have "FindWitnesses (Suc k) E matrix (p # rest) =
            FindWitnessesBySpecialization E (FindWitnesses k E) matrix (p # rest) (Ctor p)" for k
          using single reach by (cases "Ctor p") (auto simp: Let_def)
        with self_finds[OF env smaller g' 4(1,2)] show ?thesis by (intro finds_self) simp
      qed
    qed
  qed
qed

end
