(* ===== verification/UsefulnessTheorems.thy ===== *)
theory UsefulnessTheorems
  imports UsefulnessReturns
begin

section \<open>What the check of a match expression guarantees\<close>

text \<open>
  The theorems on \<open>CheckMatchExpr\<close>, in terms of the patterns of the syntax tree and the values they match:
  the check returns, a match that passes it covers every value, a case that it calls unreachable is
  never selected. Two programs show where it goes wrong: an exhaustive match that is rejected, and a
  reachable case that is called unreachable.
\<close>

subsection \<open>Patterns of the syntax tree\<close>

fun literal_matches :: "Lit \<Rightarrow> Val \<Rightarrow> bool" where
  "literal_matches UnitLit v = (v = V_Unit)"
| "literal_matches (BoolLit b) v = (v = V_Bool b)"
| "literal_matches l v = (case v of V_Lit l' \<Rightarrow> LitConstExprEq l' l | _ \<Rightarrow> False)"

fun pattern_matches :: "(Val \<Rightarrow> SemaTy \<Rightarrow> bool) \<Rightarrow> Pattern \<Rightarrow> Val \<Rightarrow> bool" where
  "pattern_matches H (ConstPattern n ty literal) v = literal_matches literal v"
| "pattern_matches H (TuplePattern n ty patterns) v =
     (case v of V_Tuple vs \<Rightarrow> list_all2 (pattern_matches H) patterns vs | _ \<Rightarrow> False)"
| "pattern_matches H (EnumPattern n ty target patterns) v = (case target of
     None \<Rightarrow> False
   | Some (ident, instTy) \<Rightarrow>
       (case v of V_Enum ident' vs \<Rightarrow> ident' = ident \<and> list_all2 (pattern_matches H) patterns vs | _ \<Rightarrow> False))"
| "pattern_matches H (TypePattern n ty) v = H v ty"
| "pattern_matches H (WildcardPattern n ty) v = True"
| "pattern_matches H (VarPattern n ty) v = True"
| "pattern_matches H (VarOrEnumPattern n ty pattern) v = pattern_matches H pattern v"

text \<open>What the type checker guarantees of a pattern for values of type \<open>t\<close>.\<close>

fun pattern_ok :: "SemaEnv \<Rightarrow> SemaTy \<Rightarrow> Pattern \<Rightarrow> bool" where
  "pattern_ok E t (ConstPattern n ty literal) = IsValidTy E ty"
| "pattern_ok E t (TuplePattern n ty patterns) =
     (IsValidTy E ty \<and> ty = t \<and> IsTuple t \<and> list_all2 (\<lambda>p u. pattern_ok E u p) patterns (typeArgs t))"
| "pattern_ok E t (EnumPattern n ty target patterns) =
     (IsValidTy E ty \<and> ty = t \<and> (case target of None \<Rightarrow> False | Some (ident, instTy) \<Rightarrow>
        (ident, instTy) \<in> set (ctors_of E t) \<and> list_all2 (\<lambda>p u. pattern_ok E u p) patterns (param_tys instTy)))"
| "pattern_ok E t (TypePattern n ty) = (IsValidTy E ty \<and> ReplaceThisTy E t = t)"
| "pattern_ok E t (WildcardPattern n ty) = (IsValidTy E ty \<and> ReplaceThisTy E t = t)"
| "pattern_ok E t (VarPattern n ty) = (IsValidTy E ty \<and> ReplaceThisTy E t = t)"
| "pattern_ok E t (VarOrEnumPattern n ty pattern) = (IsValidTy E ty \<and> ReplaceThisTy E t = t \<and> pattern_ok E t pattern)"

declare FromPattern.simps [simp del]

lemma pattern_ok_valid: "pattern_ok E t p \<Longrightarrow> IsTyCorrect (PatternTy p) \<and> IsValidTy E (PatternTy p)"
  by (cases p) (auto simp: IsValidTy_def)

lemma SubPatterns_length: "length (SubPatternsFromPatterns E ts ps) = min (length ts) (length ps)"
  by (induction E ts ps rule: FromPattern_SubPatternsFromPatterns.induct(2)[where P = "\<lambda>_ _ _. True"]) auto

lemma SubPatterns_nth: "i < length ts \<Longrightarrow> i < length ps \<Longrightarrow> SubPatternsFromPatterns E ts ps ! i = FromPattern E (ts ! i) (ps ! i)"
proof (induction ts arbitrary: ps i)
  case (Cons t ts)
  then show ?case by (cases ps; cases i) auto
qed simp

lemma SubPatterns_list_all2:
  assumes "list_all2 (\<lambda>p u. Q u (FromPattern E u p)) ps ts"
  shows "list_all2 (\<lambda>q u. Q u q) (SubPatternsFromPatterns E ts ps) ts"
  using assms by (auto simp: list_all2_conv_all_nth SubPatterns_length SubPatterns_nth)

lemma FromPattern_valid:
  assumes "IsValidTy E ty"
  shows "FromPattern E t (ConstPattern n ty l) = DP (FromLitConstExpr l) [] ty (Some n)"
    "FromPattern E t (TuplePattern n ty ps) =
      DP (C_Tuple (length (SubPatternsFromPatterns E (typeArgs ty) ps))) (SubPatternsFromPatterns E (typeArgs ty) ps) ty (Some n)"
    "FromPattern E t (EnumPattern n ty (Some (ident, FuncTy us r)) ps) =
      DP (EnumConstructor ident (FuncTy us r)) (SubPatternsFromPatterns E us ps) ty (Some n)"
    "FromPattern E t (EnumPattern n ty (Some (ident, EnumTy d us)) ps) = DP (EnumConstructor ident (EnumTy d us)) [] ty (Some n)"
    "FromPattern E t (TypePattern n ty) = (if ty \<noteq> NothingTy \<and> IsSubtype E (ReplaceThisTy E t) ty
      then DP C_Wildcard [] (ReplaceThisTy E t) (Some n) else DP (C_Type ty) [] (ReplaceThisTy E t) (Some n))"
    "FromPattern E t (WildcardPattern n ty) = DP C_Wildcard [] (ReplaceThisTy E t) (Some n)"
    "FromPattern E t (VarPattern n ty) = DP C_Wildcard [] (ReplaceThisTy E t) (Some n)"
    "FromPattern E t (VarOrEnumPattern n ty p) = FromPattern E (ReplaceThisTy E t) p"
  using assms by (subst FromPattern.simps, simp add: IsValidTy_def Let_def
    FromConstPattern_def FromTuplePattern_def FromEnumPattern_def FromTypePattern_def)+

lemma FromPattern_ok:
  assumes env: "env_ok E"
  shows "pattern_ok E t p \<Longrightarrow> IsTyCorrect t \<Longrightarrow> pat_ok E t (FromPattern E t p)"
proof (induction p arbitrary: t)
  case (ConstPattern n ty l)
  then show ?case
    by (auto simp: FromPattern_valid FromLitConstExpr_def split: Lit.split)
next
  case (TuplePattern n ty ps)
  then have "list_all2 (\<lambda>p u. pat_ok E u (FromPattern E u p)) ps (typeArgs t)"
    by (cases t) (auto simp: list_all2_conv_all_nth list_all_length)
  from SubPatterns_list_all2[OF this] list_all2_lengthD[OF this] TuplePattern.prems show ?case
    by (cases t) (auto simp: FromPattern_valid SubPatterns_length)
next
  case (EnumPattern n ty target ps)
  then obtain ident instTy where tgt: "target = Some (ident, instTy)" "(ident, instTy) \<in> set (ctors_of E t)"
    "list_all2 (\<lambda>p u. pattern_ok E u p) ps (param_tys instTy)" "ty = t" "IsValidTy E t" by (auto split: option.splits)
  have c: "IsTyCorrect instTy" using env_okD(1)[OF env tgt(2)] EnumPattern.prems(2) .
  then have "list_all IsTyCorrect (param_tys instTy)" by (cases instTy) (simp_all add: param_tys_def)
  with tgt(3) EnumPattern.IH have "list_all2 (\<lambda>p u. pat_ok E u (FromPattern E u p)) ps (param_tys instTy)"
    by (auto simp: list_all2_conv_all_nth list_all_length)
  from SubPatterns_list_all2[OF this] env_okD(2,3)[OF env tgt(2)] tgt(2) c show ?case
    using tgt(1,4,5) by (auto simp: FromPattern_valid EnumConstructor_def param_tys_def split: SemaTy.splits)
next
  case (VarOrEnumPattern n ty p)
  then show ?case by (simp add: FromPattern_valid)
qed (auto simp: FromPattern_valid)

lemma FromPattern_matches:
  assumes laws: "env_ok E" "typing_laws E H"
  shows "pattern_ok E t p \<Longrightarrow> IsTyCorrect t \<Longrightarrow> H v t \<Longrightarrow> matches H (FromPattern E t p) v = pattern_matches H p v"
proof (induction p arbitrary: t v)
  case (ConstPattern n ty l)
  then show ?case by (cases l) (auto simp: FromPattern_valid FromLitConstExpr_def)
next
  case (TuplePattern n ty ps)
  then obtain us where t: "t = TupleTy us" by (cases t) auto
  from typing_lawsD(4)[OF laws(2)] TuplePattern.prems(3) t obtain vs where vs: "v = V_Tuple vs" "list_all2 H vs us" by blast
  have ps: "list_all2 (\<lambda>p u. pattern_ok E u p) ps us" "list_all IsTyCorrect us" using TuplePattern.prems t by simp_all
  have "list_all2 (matches H) (SubPatternsFromPatterns E us ps) vs = list_all2 (pattern_matches H) ps vs"
    using TuplePattern.IH ps vs(2)
    by (auto simp: list_all2_conv_all_nth SubPatterns_length SubPatterns_nth list_all_length)
  then show ?case using TuplePattern.prems t vs(1) by (auto simp: FromPattern_valid)
next
  case (EnumPattern n ty target ps)
  then obtain ident instTy where tgt: "target = Some (ident, instTy)" "(ident, instTy) \<in> set (ctors_of E t)"
    "list_all2 (\<lambda>p u. pattern_ok E u p) ps (param_tys instTy)" "ty = t" "IsValidTy E t" by (auto split: option.splits)
  have c: "IsTyCorrect instTy" using env_okD(1)[OF laws(1) tgt(2)] EnumPattern.prems(2) .
  then have correct: "list_all IsTyCorrect (param_tys instTy)" by (cases instTy) (simp_all add: param_tys_def)
  have subs: "FromPattern E t (EnumPattern n ty target ps) = DP (C_Enum ident instTy) (SubPatternsFromPatterns E (param_tys instTy) ps) t (Some n)"
    using tgt c env_okD(2,3)[OF laws(1) tgt(2)]
    by (auto simp: FromPattern_valid EnumConstructor_def param_tys_def split: SemaTy.splits)
  show ?case
  proof (cases "\<exists>vs. v = V_Enum ident vs \<and> length vs = length ps")
    case True
    then obtain vs where vs: "v = V_Enum ident vs" "length vs = length ps" by blast
    obtain d ts where t: "t = EnumTy d ts" using env_okD(3)[OF laws(1) tgt(2)] by (cases t) auto
    from typing_lawsD(5)[OF laws(2) EnumPattern.prems(3)[unfolded t]] vs(1) obtain ty' where
      ty': "(ident, ty') \<in> set (ctors_of E t)" "list_all2 H vs (param_tys ty')" by (auto simp: ctors_of_def t)
    have "length (param_tys ty') = length (param_tys instTy)" using ty'(2) vs(2) tgt(3) by (auto dest!: list_all2_lengthD)
    from env_okD(4)[OF laws(1) tgt(2) ty'(1) this] ty'(2) have "list_all2 H vs (param_tys instTy)" by simp
    then have "list_all2 (matches H) (SubPatternsFromPatterns E (param_tys instTy) ps) vs = list_all2 (pattern_matches H) ps vs"
      using EnumPattern.IH tgt(3) correct
      by (auto simp: list_all2_conv_all_nth SubPatterns_length SubPatterns_nth list_all_length)
    then show ?thesis unfolding subs using vs(1) tgt(1) by simp
  next
    case False
    have "length ps = length (param_tys instTy)" using tgt(3) by (rule list_all2_lengthD)
    then have "\<not> matches H (FromPattern E t (EnumPattern n ty target ps)) v" "\<not> pattern_matches H (EnumPattern n ty target ps) v"
      unfolding subs using False tgt(1) by (auto simp: SubPatterns_length split: Val.splits dest: list_all2_lengthD)
    then show ?thesis by simp
  qed
next
  case (TypePattern n ty)
  then show ?case using typing_lawsD(7)[OF laws(2)] by (auto simp: FromPattern_valid)
next
  case (VarOrEnumPattern n ty p)
  then show ?case by (simp add: FromPattern_valid)
qed (auto simp: FromPattern_valid)

lemma FromPatterns_ok:
  assumes laws: "env_ok E" "typing_laws E H" and t: "IsTyCorrect t" and ps: "ps \<noteq> []" "list_all (pattern_ok E t) ps"
  shows "pat_ok E t (FromPatterns E t ps)"
    and "H v t \<Longrightarrow> matches H (FromPatterns E t ps) v \<longleftrightarrow> (\<exists>p \<in> set ps. pattern_matches H p v)"
proof -
  have valid: "\<not> list_ex (\<lambda>p. \<not> IsTyCorrect (PatternTy p) \<or> \<not> IsValidTy E (PatternTy p)) ps"
    using ps(2) pattern_ok_valid by (fastforce simp: list_ex_iff list_all_iff)
  have one: "length ps = 1 \<Longrightarrow> set ps = {hd ps}" by (cases ps) auto
  show "pat_ok E t (FromPatterns E t ps)"
    using valid ps FromPattern_ok[OF laws(1) _ t] by (auto simp: FromPatterns_def list_all_iff)
  show "H v t \<Longrightarrow> matches H (FromPatterns E t ps) v \<longleftrightarrow> (\<exists>p \<in> set ps. pattern_matches H p v)"
    using valid ps FromPattern_matches[OF laws _ t] one
    by (auto simp: FromPatterns_def list_all_iff list_ex_iff)
qed

subsection \<open>The loop over the cases\<close>

definition case_matches :: "(Val \<Rightarrow> SemaTy \<Rightarrow> bool) \<Rightarrow> MatchCase \<Rightarrow> Val \<Rightarrow> bool" where
  "case_matches H mc v \<longleftrightarrow> (\<exists>p \<in> set (case_patterns mc). pattern_matches H p v)"

definition selects :: "(Val \<Rightarrow> SemaTy \<Rightarrow> bool) \<Rightarrow> MatchCase list \<Rightarrow> Val \<Rightarrow> bool" where
  "selects H mcs v \<longleftrightarrow> (\<exists>mc \<in> set mcs. \<not> patternGuard mc \<and> case_matches H mc v)"

definition cases_ok :: "SemaEnv \<Rightarrow> SemaTy \<Rightarrow> MatchCase list \<Rightarrow> bool" where
  "cases_ok E t mcs \<longleftrightarrow> IsTyCorrect t \<and> list_all (\<lambda>mc. list_all (pattern_ok E t) (case_patterns mc)) mcs"

text \<open>The matrix after some cases stands for values that those without a guard select.\<close>

definition matrix_for :: "SemaEnv \<Rightarrow> (Val \<Rightarrow> SemaTy \<Rightarrow> bool) \<Rightarrow> SemaTy \<Rightarrow> MatchCase list \<Rightarrow> Matrix \<Rightarrow> bool" where
  "matrix_for E H t mcs matrix \<longleftrightarrow> matrix_ok E [t] matrix \<and>
     (\<forall>v. H v t \<and> matches_some H matrix [v] \<longrightarrow> selects H mcs v)"

definition rightly_unreachable :: "SemaEnv \<Rightarrow> (Val \<Rightarrow> SemaTy \<Rightarrow> bool) \<Rightarrow> SemaTy \<Rightarrow> MatchCase list \<Rightarrow> nat \<Rightarrow> bool" where
  "rightly_unreachable E H t mcs i \<longleftrightarrow> i < length mcs \<and>
     (types_apart E H (FromPatterns E t (case_patterns (mcs ! i))) \<longrightarrow>
        (\<forall>v. H v t \<and> case_matches H (mcs ! i) v \<longrightarrow> selects H (take i mcs) v))"

lemma CheckMatchCase_ok:
  assumes laws: "env_ok E" "typing_laws E H" and mc: "cases_ok E t [mc]" and before: "matrix_for E H t mcs matrix"
    and found: "CheckMatchCase fuel E t i mc (matrix, marks) = Some (matrix', marks')"
  shows "matrix_for E H t (mcs @ [mc]) matrix'"
    and "UnreachableCase j \<in> set marks' \<Longrightarrow> UnreachableCase j \<in> set marks \<or>
      j = i \<and> (types_apart E H (FromPatterns E t (case_patterns mc)) \<longrightarrow> (\<forall>v. H v t \<and> case_matches H mc v \<longrightarrow> selects H mcs v))"
proof -
  have grow: "matrix_for E H t (mcs @ [mc]) matrix" using before by (auto simp: matrix_for_def selects_def)
  have "matrix_for E H t (mcs @ [mc]) matrix' \<and> (UnreachableCase j \<in> set marks' \<longrightarrow> UnreachableCase j \<in> set marks \<or>
      j = i \<and> (types_apart E H (FromPatterns E t (case_patterns mc)) \<longrightarrow> (\<forall>v. H v t \<and> case_matches H mc v \<longrightarrow> selects H mcs v)))"
  proof (cases "case_patterns mc = []")
    case True
    then show ?thesis using found grow by (simp add: CheckMatchCase_def)
  next
    case False
    let ?p = "FromPatterns E t (case_patterns mc)"
    have t: "IsTyCorrect t" "list_all (pattern_ok E t) (case_patterns mc)" using mc by (simp_all add: cases_ok_def)
    have p: "pat_ok E t ?p" by (rule FromPatterns_ok(1)[OF laws t(1) False t(2)])
    have matches_p: "matches H ?p v \<longleftrightarrow> case_matches H mc v" if "H v t" for v
      unfolding case_matches_def by (rule FromPatterns_ok(2)[OF laws t(1) False t(2) that])
    obtain ws nodes where f: "FindWitnesses fuel E matrix [?p] = Some (ws, nodes)"
      and new: "matrix' = (if ws \<noteq> [] \<and> \<not> patternGuard mc then AppendRows matrix ws else matrix)"
        "marks' = marks @ map UnreachablePattern nodes @ (if ws = [] then [UnreachableCase i] else [])"
      using found False by (auto simp: CheckMatchCase_def Let_def split: bind_splits if_splits)
    have "stack_ok E [t] [?p]" using p by (simp add: stack_ok_def)
    with search_okD[OF FindWitnesses_search_ok[OF laws] f] t(1) before
    have ok: "found_ok E H [t] matrix [?p] ws" by (simp add: matrix_for_def)
    have ws: "case_matches H mc v" if "H v t" "matches_some H ws [v]" for v
      using ok that matches_p[OF that(1)] by (auto simp: found_ok_def matches_row_def)
    have "matrix_for E H t (mcs @ [mc]) matrix'"
    proof (cases "ws \<noteq> [] \<and> \<not> patternGuard mc")
      case True
      then show ?thesis using grow ok ws
        by (auto simp: new(1) AppendRows_def matrix_for_def matrix_ok_def found_ok_def selects_def matches_some_def)
    qed (use grow new(1) in auto)
    moreover have "selects H mcs v" if "ws = []" "types_apart E H ?p" "H v t" "case_matches H mc v" for v
    proof -
      have "matches_row H [?p] [v]" using matches_p[OF that(3)] that(4) by (simp add: matches_row_def)
      then have "matches_some H matrix [v]" using ok that by (auto simp: found_ok_def matches_some_def)
      then show ?thesis using before that(3) by (auto simp: matrix_for_def)
    qed
    ultimately show ?thesis by (auto simp: new(2) split: if_splits)
  qed
  then show "matrix_for E H t (mcs @ [mc]) matrix'"
    and "UnreachableCase j \<in> set marks' \<Longrightarrow> UnreachableCase j \<in> set marks \<or>
      j = i \<and> (types_apart E H (FromPatterns E t (case_patterns mc)) \<longrightarrow> (\<forall>v. H v t \<and> case_matches H mc v \<longrightarrow> selects H mcs v))"
    by blast+
qed

lemma CheckMatchCases_ok:
  assumes laws: "env_ok E" "typing_laws E H" and mcs: "cases_ok E t (before @ mcs)"
    and J: "matrix_for E H t before matrix"
    and found: "CheckMatchCases fuel E t (length before) mcs (matrix, marks) = Some (matrix', marks')"
    and right: "\<forall>j. UnreachableCase j \<in> set marks \<longrightarrow> rightly_unreachable E H t (before @ mcs) j"
  shows "matrix_for E H t (before @ mcs) matrix' \<and> (\<forall>j. UnreachableCase j \<in> set marks' \<longrightarrow> rightly_unreachable E H t (before @ mcs) j)"
  using mcs J found right
proof (induction mcs arbitrary: before matrix marks)
  case Nil
  then show ?case by simp
next
  case (Cons mc mcs)
  from Cons.prems(3) obtain m1 k1 where one: "CheckMatchCase fuel E t (length before) mc (matrix, marks) = Some (m1, k1)"
    and more: "CheckMatchCases fuel E t (length (before @ [mc])) mcs (m1, k1) = Some (matrix', marks')"
    by (cases "CheckMatchCase fuel E t (length before) mc (matrix, marks)") auto
  have ok: "cases_ok E t [mc]" using Cons.prems(1) by (simp add: cases_ok_def)
  note step = CheckMatchCase_ok[OF laws ok Cons.prems(2) one]
  have "rightly_unreachable E H t ((before @ [mc]) @ mcs) j" if "UnreachableCase j \<in> set k1" for j
    using step(2)[OF that] Cons.prems(4) by (auto simp: rightly_unreachable_def nth_append)
  with Cons.IH[OF _ step(1) more] Cons.prems(1) show ?case by simp
qed


text \<open>C10: a case that the check marks as unreachable is never selected: every value that it matches is matched
  by an earlier case without a guard. The types of its type patterns that the check takes to be apart
  from what they are matched with must be so.\<close>

theorem unreachable_case_never_selected:
  assumes laws: "env_ok E" "typing_laws E H"
    and selector: "t = ReplaceThisTy E (TryGreedySubst E ty)" and cases_typed: "cases_ok E t mcs"
    and checked: "CheckMatchExpr fuel E (Some ty) mcs = Some (exhaustive, uncovered, marks)" "UnreachableCase i \<in> set marks"
    and apart: "types_apart E H (FromPatterns E t (case_patterns (mcs ! i)))"
    and v: "H v t" "\<exists>p \<in> set (case_patterns (mcs ! i)). pattern_matches H p v"
  shows "\<exists>j < i. \<not> patternGuard (mcs ! j) \<and> (\<exists>p \<in> set (case_patterns (mcs ! j)). pattern_matches H p v)"
proof -
  have start: "matrix_for E H t [] []" by (simp add: matrix_for_def matrix_ok_def matches_some_def)
  obtain matrix k where loop: "CheckMatchCases fuel E t (length ([] :: MatchCase list)) mcs ([], []) = Some (matrix, k)"
    and i: "UnreachableCase i \<in> set k"
    using checked selector by (auto simp: CheckMatchExpr_def Let_def split: bind_splits if_splits)
  from CheckMatchCases_ok[OF laws _ start loop] cases_typed i have r: "rightly_unreachable E H t mcs i" by simp
  then have "i < length mcs" "selects H (take i mcs) v" using apart v by (auto simp: rightly_unreachable_def case_matches_def)
  then obtain mc where mc: "mc \<in> set (take i mcs)" "\<not> patternGuard mc" "case_matches H mc v" by (auto simp: selects_def)
  from mc(1) obtain j where "j < i" "mcs ! j = mc" by (auto simp: in_set_conv_nth)
  then show ?thesis using mc(2,3) by (auto simp: case_matches_def)
qed

subsection \<open>The check returns\<close>

lemma FindWitnesses_settles:
  assumes "env_ok E" "IsTyCorrect t" "matrix_ok E [t] matrix" "pat_ok E t p"
  shows "\<exists>r. settles (\<lambda>k. FindWitnesses k E matrix [p]) r \<and> matrix_ok E [t] (fst r)"
proof -
  let ?ds = "[foldr max (map (\<lambda>row. depth (hd row)) matrix) (depth p)]"
  have max0: "foldr max ns (m::nat) \<ge> m \<and> (\<forall>n \<in> set ns. n \<le> foldr max ns m)" for ns m by (induction ns) auto
  have row: "row = [hd row]" if "row \<in> set matrix" for row
    using assms(3) that by (auto simp: matrix_ok_def stack_ok_def list_all2_Cons2)
  have "stack_le ?ds row" if "row \<in> set matrix" for row
    by (subst row[OF that]) (use that max0[of "depth p" "map (\<lambda>row. depth (hd row)) matrix"] in \<open>simp add: stack_le_def\<close>)
  moreover have "stack_le ?ds [p]" using max0[of "depth p" "map (\<lambda>row. depth (hd row)) matrix"] by (simp add: stack_le_def)
  ultimately have g: "good E [t] ?ds matrix [p]" using assms by (simp add: good_def stack_ok_def matrix_le_def)
  from FindWitnesses_finds[OF assms(1) g] obtain ws ms where s: "settles (\<lambda>k. FindWitnesses k E matrix [p]) (ws, ms)"
    by (rule findsE)
  from settles_some[OF s] found_typed[OF assms(1) g] have "matrix_ok E [t] ws" by blast
  with s show ?thesis by (intro exI[of _ "(ws, ms)"]) simp
qed

lemma CheckMatchCase_settles:
  assumes "env_ok E" "cases_ok E t [mc]" "matrix_ok E [t] matrix"
  shows "\<exists>s. settles (\<lambda>k. CheckMatchCase k E t i mc (matrix, marks)) s \<and> matrix_ok E [t] (fst s)"
proof (cases "case_patterns mc = []")
  case True
  then have "settles (\<lambda>k. CheckMatchCase k E t i mc (matrix, marks)) (matrix, marks)" by (intro settlesI) (simp add: CheckMatchCase_def)
  then show ?thesis using assms(3) by (intro exI[of _ "(matrix, marks)"]) simp
next
  case False
  let ?p = "FromPatterns E t (case_patterns mc)"
  have "pat_ok E t ?p" using FromPatterns_ok(1)[OF assms(1) no_values _ False] assms(2) by (simp add: cases_ok_def)
  from FindWitnesses_settles[OF assms(1) _ assms(3) this] assms(2) obtain ws ms where
    f: "settles (\<lambda>k. FindWitnesses k E matrix [?p]) (ws, ms)" "matrix_ok E [t] ws" by (auto simp: cases_ok_def)
  let ?next = "\<lambda>(witnesses, nodes). let marks' = marks @ map UnreachablePattern nodes in
       Some (if witnesses \<noteq> [] then (if \<not> patternGuard mc then AppendRows matrix witnesses else matrix, marks')
         else (matrix, marks' @ [UnreachableCase i]))"
  obtain s where s: "?next (ws, ms) = Some s" by (simp add: Let_def)
  have "settles (\<lambda>k. Option.bind (FindWitnesses k E matrix [?p]) ?next) s"
    by (rule settles_bind[where g = "\<lambda>k. ?next", OF f(1)]) (rule settlesI, rule s)
  moreover have "matrix_ok E [t] (fst s)"
    using s assms(3) f(2) by (auto simp: Let_def AppendRows_def matrix_ok_def split: if_splits)
  ultimately show ?thesis using False by (intro exI[of _ s]) (simp add: CheckMatchCase_def)
qed

lemma CheckMatchCases_settles:
  assumes "env_ok E" "cases_ok E t mcs" "matrix_ok E [t] (fst s0)"
  shows "\<exists>s. settles (\<lambda>k. CheckMatchCases k E t i mcs s0) s \<and> matrix_ok E [t] (fst s)"
  using assms(2,3)
proof (induction mcs arbitrary: i s0)
  case Nil
  have "settles (\<lambda>k. CheckMatchCases k E t i [] s0) s0" by (rule settlesI) simp
  with Nil.prems show ?case by blast
next
  case (Cons mc mcs)
  from CheckMatchCase_settles[OF assms(1), of t mc "fst s0" i "snd s0"] Cons.prems obtain s1 where
    one: "settles (\<lambda>k. CheckMatchCase k E t i mc s0) s1" "matrix_ok E [t] (fst s1)" by (auto simp: cases_ok_def)
  from Cons.IH[OF _ one(2), of "Suc i"] Cons.prems(1) obtain s where
    more: "settles (\<lambda>k. CheckMatchCases k E t (Suc i) mcs s1) s" "matrix_ok E [t] (fst s)" by (auto simp: cases_ok_def)
  have "settles (\<lambda>k. CheckMatchCases k E t i (mc # mcs) s0) s"
    unfolding CheckMatchCases.simps
    by (rule settles_bind[where g = "\<lambda>k. CheckMatchCases k E t (Suc i) mcs", OF one(1)]) (rule more(1))
  with more(2) show ?case by blast
qed

text \<open>C11: the check of a match expression returns: there is a depth of the recursion that is enough, and the
  result is the same for every greater one.\<close>

theorem match_check_returns:
  assumes "env_ok E" "cases_ok E (ReplaceThisTy E (TryGreedySubst E ty)) mcs"
  shows "\<exists>k0 result. \<forall>k. k0 \<le> k \<longrightarrow> CheckMatchExpr k E (Some ty) mcs = Some result"
proof (cases "IsValidTy E ty")
  case False
  then have "\<forall>k. CheckMatchExpr k E (Some ty) mcs = Some (True, [], [])" by (simp add: CheckMatchExpr_def)
  then show ?thesis by blast
next
  case True
  let ?t = "ReplaceThisTy E (TryGreedySubst E ty)"
  have t: "IsTyCorrect ?t" using assms(2) by (simp add: cases_ok_def)
  obtain s where s: "settles (\<lambda>k. CheckMatchCases k E ?t 0 mcs ([], [])) s" "matrix_ok E [?t] (fst s)"
    using CheckMatchCases_settles[OF assms, of "([], [])" 0] by (auto simp: matrix_ok_def)
  obtain r where r: "settles (\<lambda>k. FindWitnesses k E (fst s) [WildcardOf ?t]) r"
    using FindWitnesses_settles[OF assms(1) t s(2), of "WildcardOf ?t"] by auto
  let ?rest = "\<lambda>k. \<lambda>(matrix, marks). Option.bind (FindWitnesses k E matrix [WildcardOf ?t]) (\<lambda>(witnesses, nodes).
      let marks' = marks @ map UnreachablePattern nodes in
      Some (if witnesses = [] then (True, [], marks') else (False, witnesses, marks')))"
  obtain result where "settles (\<lambda>k. ?rest k s) result"
  proof -
    let ?out = "\<lambda>(witnesses, nodes). let marks' = snd s @ map UnreachablePattern nodes in
      Some (if witnesses = [] then (True, [], marks') else (False, witnesses, marks'))"
    obtain out where out: "?out r = Some out" by (cases r) (simp add: Let_def)
    have "settles (\<lambda>k. Option.bind (FindWitnesses k E (fst s) [WildcardOf ?t]) ?out) out"
      by (rule settles_bind[where g = "\<lambda>k. ?out", OF r]) (rule settlesI, rule out)
    then show thesis by (intro that[of out]) (simp add: case_prod_beta)
  qed
  from settles_bind[where g = ?rest, OF s(1) this]
  have "settles (\<lambda>k. CheckMatchExpr k E (Some ty) mcs) result" using True by (simp add: CheckMatchExpr_def Let_def)
  then show ?thesis unfolding settles_def by blast
qed

subsection \<open>Samples\<close>

text \<open>An \<open>Option\<close>; a sealed abstract class, a sealed interface, and a class that inherits both. The values of
  the types of this sample.\<close>

definition sample_class :: "bool \<Rightarrow> bool \<Rightarrow> SemaTy list \<Rightarrow> ClassLikeDecl" where
  "sample_class interface sealed subtypes = \<lparr>IsInterface = interface, SEALED = sealed, PRIVATE = False, OPEN = False,
     ABSTRACT = sealed \<and> \<not> interface, COMMON = False, SPECIFIC = False, FROM_COMMON_PART = False, FOREIGN = False, IsCType = False,
     body_decls = [], curPackage = Some 0, directSubtypes = subtypes\<rparr>"

abbreviation "class_A \<equiv> ClassLikeTy 0 []"
abbreviation "interface_I \<equiv> ClassLikeTy 1 []"
abbreviation "class_B \<equiv> ClassLikeTy 2 []"
abbreviation "int_ty \<equiv> OtherTy 0 []"

definition sample_env :: SemaEnv where
  "sample_env = \<lparr>EnumCtors = (\<lambda>d ts. if d = 0 then [(''None'', EnumTy 0 ts), (''Some'', FuncTy ts (EnumTy 0 ts))] else []),
     EnumIsNonExhaustive = (\<lambda>d. False),
     ClassDecls = [sample_class False True [class_B], sample_class True True [class_B], sample_class False False []],
     currentPackage = Some 0,
     IsSubtype = (\<lambda>s t. s = t \<or> s = class_B \<and> t \<in> {class_A, interface_I}),
     ReplaceThisTy = (\<lambda>t. t), TryGreedySubst = (\<lambda>t. t)\<rparr>"

fun sample_has :: "Val \<Rightarrow> SemaTy \<Rightarrow> bool" where
  "sample_has V_Unit t = (t = UnitTy)"
| "sample_has (V_Bool b) t = (t = BooleanTy)"
| "sample_has (V_Lit l) t = (t = int_ty)"
| "sample_has (V_Tuple vs) t = (case t of TupleTy ts \<Rightarrow> list_all2 sample_has vs ts | _ \<Rightarrow> False)"
| "sample_has (V_Enum c vs) t = (case t of
     EnumTy d ts \<Rightarrow> d = 0 \<and> (c = ''None'' \<and> vs = [] \<or> c = ''Some'' \<and> list_all2 sample_has vs ts) | _ \<Rightarrow> False)"
| "sample_has V_OtherEnum t = False"
| "sample_has (V_Object n) t = (n = 2 \<and> t \<in> {class_A, interface_I, class_B})"

lemma sample_env_ok: "env_ok sample_env"
  by (auto simp: env_ok_def sample_env_def param_tys_def)

lemma sample_laws: "typing_laws sample_env sample_has"
  unfolding typing_laws_def
proof (intro conjI allI impI)
  fix v
  show "sample_has v UnitTy \<Longrightarrow> v = V_Unit" "sample_has v BooleanTy \<Longrightarrow> \<exists>b. v = V_Bool b" "\<not> sample_has v NothingTy"
    by (cases v; simp)+
  show "sample_has v (TupleTy ts) \<Longrightarrow> \<exists>vs. v = V_Tuple vs \<and> list_all2 sample_has vs ts" for ts by (cases v) auto
  show "sample_has v (EnumTy d ts) \<Longrightarrow> (\<exists>ident ty vs. (ident, ty) \<in> set (EnumCtors sample_env d ts) \<and> v = V_Enum ident vs \<and>
      list_all2 sample_has vs (param_tys ty)) \<or> EnumIsNonExhaustive sample_env d \<and> v = V_OtherEnum" for d ts
    by (cases v) (auto simp: sample_env_def param_tys_def)
  show "\<exists>t \<in> set (directSubtypes (ClassDecls sample_env ! c)). sample_has v t"
    if "sample_has v (ClassLikeTy c ts) \<and> currentPackage sample_env = Some package \<and>
      IsClosedSealedHierarchy sample_env (length (ClassDecls sample_env)) (ClassLikeTy c ts) package True" for c ts package
  proof -
    have v: "v = V_Object 2" and c: "c = 0 \<or> c = 1 \<or> c = 2" using that by (cases v; auto)+
    have len: "length (ClassDecls sample_env) = Suc 2" by (simp add: sample_env_def)
    have "\<not> IsClosedSealedHierarchy sample_env (Suc k) (ClassLikeTy 2 ts) package True" for k
      by (simp add: Let_def IsClosedSealedRoot_def sample_env_def sample_class_def)
    from this[of 2] that have "c \<noteq> 2" by (simp only: len) blast
    with c have "c = 0 \<or> c = 1" by blast
    moreover have "directSubtypes (ClassDecls sample_env ! 0) = [class_B]" "directSubtypes (ClassDecls sample_env ! 1) = [class_B]"
      by (simp_all add: sample_env_def sample_class_def)
    ultimately have "directSubtypes (ClassDecls sample_env ! c) = [class_B]" by metis
    then show ?thesis using v by simp
  qed
  show "sample_has v t" if "IsSubtype sample_env s t \<and> sample_has v s" for s t
    using that by (cases v) (auto simp: sample_env_def)
qed

text \<open>A match on a pair of an option and an object of the closed hierarchy.\<close>

abbreviation "option_bool \<equiv> EnumTy 0 [BooleanTy]"
abbreviation "pair_ty \<equiv> TupleTy [option_bool, class_A]"

definition some_pattern :: "nat \<Rightarrow> Pattern \<Rightarrow> Pattern" where
  "some_pattern n p = EnumPattern n option_bool (Some (''Some'', FuncTy [BooleanTy] option_bool)) [p]"

definition pair_cases :: "MatchCase list" where
  "pair_cases =
     [\<lparr>case_patterns = [TuplePattern 0 pair_ty
        [EnumPattern 1 option_bool (Some (''None'', option_bool)) [], WildcardPattern 2 class_A]], patternGuard = False\<rparr>,
      \<lparr>case_patterns = [TuplePattern 3 pair_ty
        [some_pattern 4 (ConstPattern 5 BooleanTy (BoolLit True)), TypePattern 6 class_B]], patternGuard = False\<rparr>,
      \<lparr>case_patterns = [TuplePattern 7 pair_ty [some_pattern 8 (VarPattern 9 BooleanTy), WildcardPattern 10 class_A]],
       patternGuard = False\<rparr>,
      \<lparr>case_patterns = [WildcardPattern 11 pair_ty], patternGuard = False\<rparr>]"

lemma pair_cases_ok: "cases_ok sample_env pair_ty pair_cases" "IsValidTy sample_env pair_ty"
  by code_simp+


lemma unreachable_case_never_selected_witness:
  "\<exists>j < 3. \<not> patternGuard (pair_cases ! j) \<and> (\<exists>p \<in> set (case_patterns (pair_cases ! j)).
     pattern_matches sample_has p (V_Tuple [V_Enum ''None'' [], V_Object 2]))"
proof (rule unreachable_case_never_selected[OF sample_env_ok sample_laws _ pair_cases_ok(1)])
  show "pair_ty = ReplaceThisTy sample_env (TryGreedySubst sample_env pair_ty)" by (simp add: sample_env_def)
  show "CheckMatchExpr 20 sample_env (Some pair_ty) pair_cases = Some (True, [], [UnreachableCase 3])" by code_simp
  have "FromPatterns sample_env pair_ty (case_patterns (pair_cases ! 3)) = DP C_Wildcard [] pair_ty (Some 11)" by code_simp
  then show "types_apart sample_env sample_has (FromPatterns sample_env pair_ty (case_patterns (pair_cases ! 3)))"
    by (simp add: IsUnreachableTypePattern_def)
  show "\<exists>p \<in> set (case_patterns (pair_cases ! 3)). pattern_matches sample_has p (V_Tuple [V_Enum ''None'' [], V_Object 2])"
    by (simp add: pair_cases_def)
qed simp_all

lemma match_check_returns_witness: "\<exists>k result. CheckMatchExpr k sample_env (Some pair_ty) pair_cases = Some result"
proof -
  have "cases_ok sample_env (ReplaceThisTy sample_env (TryGreedySubst sample_env pair_ty)) pair_cases"
    using pair_cases_ok(1) by (simp add: sample_env_def)
  from match_check_returns[OF sample_env_ok this] show ?thesis by blast
qed

subsection \<open>Where the check goes wrong\<close>

text \<open>A pair inside a tuple, taken apart by two cases that differ in the other component.\<close>

abbreviation "inner_ty \<equiv> TupleTy [int_ty, int_ty]"
abbreviation "nested_ty \<equiv> TupleTy [inner_ty, BooleanTy]"

definition nested_case :: "bool \<Rightarrow> MatchCase" where
  "nested_case b = \<lparr>case_patterns = [TuplePattern 0 nested_ty
     [TuplePattern 1 inner_ty [VarPattern 2 int_ty, VarPattern 3 int_ty], ConstPattern 4 BooleanTy (BoolLit b)]],
   patternGuard = False\<rparr>"

text \<open>C21: an exhaustive match is rejected. The heads of the first column are tuples of wildcards; \<open>HeadsAllWildcard\<close>
  takes them for wildcards and the search specialises by the wildcard, which \<open>IsCoveredBy\<close> does not count
  as covered by a tuple, so that the rows are lost: \<open>((a, b), true)\<close> and \<open>((a, b), false)\<close> match every
  value, and \<open>(_, _)\<close> is reported as not covered.\<close>

theorem exhaustive_match_rejected:
  "{v. sample_has v nested_ty} \<subseteq> {v. selects sample_has [nested_case True, nested_case False] v} \<and>
   cases_ok sample_env nested_ty [nested_case True, nested_case False] \<and>
   CheckMatchExpr 20 sample_env (Some nested_ty) [nested_case True, nested_case False] =
     Some (False, [[DP (C_Tuple 2) [WildcardOf inner_ty, WildcardOf BooleanTy] nested_ty None]], [])"
proof (intro conjI subsetI)
  fix v assume "v \<in> {v. sample_has v nested_ty}"
  then have "sample_has v nested_ty" by simp
  then obtain x b where "v = V_Tuple [x, b]" "sample_has x inner_ty" "sample_has b BooleanTy"
    using typing_lawsD(4)[OF sample_laws, of v "[inner_ty, BooleanTy]"] by (auto simp: list_all2_Cons2)
  moreover from this obtain y z where "x = V_Tuple [y, z]"
    using typing_lawsD(4)[OF sample_laws, of x "[int_ty, int_ty]"] by (auto simp: list_all2_Cons2)
  moreover from \<open>sample_has b BooleanTy\<close> obtain c where "b = V_Bool c"
    using typing_lawsD(2)[OF sample_laws] by blast
  ultimately show "v \<in> {v. selects sample_has [nested_case True, nested_case False] v}"
    by (cases c) (auto simp: selects_def case_matches_def nested_case_def)
next
  show "cases_ok sample_env nested_ty [nested_case True, nested_case False]" by code_simp
  show "CheckMatchExpr 20 sample_env (Some nested_ty) [nested_case True, nested_case False] =
     Some (False, [[DP (C_Tuple 2) [WildcardOf inner_ty, WildcardOf BooleanTy] nested_ty None]], [])" by code_simp
qed

text \<open>C22: a case that is selected is called unreachable. A sealed class and a sealed interface are taken to be apart
  when neither is a subtype of the other, although a class of the package may inherit both: an object of
  that class, matched as the sealed class, is an instance of the interface.\<close>

theorem reachable_case_called_unreachable:
  "sample_has (V_Object 2) class_A \<and> pattern_matches sample_has (TypePattern 0 interface_I) (V_Object 2) \<and>
   cases_ok sample_env class_A
     [\<lparr>case_patterns = [TypePattern 0 interface_I], patternGuard = False\<rparr>, \<lparr>case_patterns = [WildcardPattern 1 class_A], patternGuard = False\<rparr>] \<and>
   CheckMatchExpr 20 sample_env (Some class_A)
     [\<lparr>case_patterns = [TypePattern 0 interface_I], patternGuard = False\<rparr>, \<lparr>case_patterns = [WildcardPattern 1 class_A], patternGuard = False\<rparr>] =
     Some (True, [], [UnreachableCase 0])"
proof (intro conjI)
  show "CheckMatchExpr 20 sample_env (Some class_A)
     [\<lparr>case_patterns = [TypePattern 0 interface_I], patternGuard = False\<rparr>, \<lparr>case_patterns = [WildcardPattern 1 class_A], patternGuard = False\<rparr>] =
     Some (True, [], [UnreachableCase 0])" by code_simp
  show "cases_ok sample_env class_A
     [\<lparr>case_patterns = [TypePattern 0 interface_I], patternGuard = False\<rparr>, \<lparr>case_patterns = [WildcardPattern 1 class_A], patternGuard = False\<rparr>]"
    by code_simp
qed simp_all

end
