(* ===== verification/UnicodeSets.thy ===== *)
theory UnicodeSets
  imports UnicodeTables
begin

section \<open>What the character sets contain\<close>

text \<open>
  The tables are sorted and disjoint, so that the binary search is exact, and the tests for identifier
  characters with the set they accept.
\<close>

subsection \<open>Binary search\<close>

fun ranges_above :: "UTF32 \<Rightarrow> UnicodeCharRange list \<Rightarrow> bool" where
  "ranges_above l [] = True"
| "ranges_above l ((a, b) # rs) = (l < a \<and> a \<le> b \<and> ranges_above b rs)"

lemma ranges_above_mono: "ranges_above l rs \<Longrightarrow> l' \<le> l \<Longrightarrow> ranges_above l' rs"
  by (cases rs) auto

lemma ranges_above_nth: "ranges_above l rs \<Longrightarrow> i < length rs \<Longrightarrow> l < fst (rs ! i) \<and> fst (rs ! i) \<le> snd (rs ! i)"
proof (induction rs arbitrary: l i)
  case (Cons r rs)
  obtain a b where r: "r = (a, b)" by (cases r)
  from Cons.prems r have up: "ranges_above l rs" by (auto intro: ranges_above_mono)
  show ?case
  proof (cases i)
    case (Suc j)
    then show ?thesis using Cons.IH[OF up, of j] Cons.prems(2) by simp
  qed (use Cons.prems r in simp)
qed simp

lemma ranges_above_sorted: "ranges_above l rs \<Longrightarrow> j < length rs \<Longrightarrow> i < j \<Longrightarrow> snd (rs ! i) < fst (rs ! j)"
proof (induction rs arbitrary: l i j)
  case (Cons r rs)
  obtain a b where r: "r = (a, b)" by (cases r)
  from Cons.prems r have up: "ranges_above b rs" by simp
  obtain j' where j: "j = Suc j'" using Cons.prems(3) by (cases j) auto
  show ?case
  proof (cases i)
    case 0
    then show ?thesis using ranges_above_nth[OF up, of j'] Cons.prems(2) r j by simp
  next
    case (Suc i')
    then show ?thesis using Cons.IH[OF up, of j' i'] Cons.prems(2,3) j by simp
  qed
qed simp

definition splits :: "UnicodeCharRange list \<Rightarrow> UTF32 \<Rightarrow> nat \<Rightarrow> bool" where
  "splits rs c i \<longleftrightarrow> i \<le> length rs \<and> (\<forall>j < i. range_less (rs ! j) c) \<and>
     (\<forall>j. i \<le> j \<longrightarrow> j < length rs \<longrightarrow> \<not> range_less (rs ! j) c)"

lemma lower_bound_splits:
  assumes "ranges_above l rs" "first + len \<le> length rs" "\<forall>j < first. range_less (rs ! j) c"
    "\<forall>j. first + len \<le> j \<longrightarrow> j < length rs \<longrightarrow> \<not> range_less (rs ! j) c"
  shows "splits rs c (lower_bound rs c first len)"
  using assms
proof (induction rs c first len rule: lower_bound.induct)
  case (1 rs c first len)
  let ?mid = "first + len div 2"
  have order: "range_less (rs ! i) c" if "range_less (rs ! j) c" "i < j" "j < length rs" for i j
    using ranges_above_sorted[OF "1.prems"(1) that(3,2)] ranges_above_nth[OF "1.prems"(1) that(3)] that(1)
    by (auto simp: range_less_def case_prod_beta)
  show ?case
  proof (cases "len = 0")
    case True
    then show ?thesis using "1.prems" by (simp add: lower_bound.simps splits_def)
  next
    case False
    then have mid: "?mid < length rs" "?mid < first + len" using "1.prems"(2) by linarith+
    show ?thesis
    proof (cases "range_less (rs ! ?mid) c")
      case True
      have below: "\<forall>j < ?mid + 1. range_less (rs ! j) c" using order[OF True _ mid(1)] True by (auto simp: less_Suc_eq)
      have rest: "?mid + 1 + (len - len div 2 - 1) = first + len" using mid(2) by linarith
      have "splits rs c (lower_bound rs c (?mid + 1) (len - len div 2 - 1))"
        by (rule "1.IH"(1)[OF False refl True "1.prems"(1) _ below]; unfold rest; fact "1.prems")
      then show ?thesis using True False by (simp add: lower_bound.simps[of rs c first len] Let_def)
    next
      case nl: False
      have "\<not> range_less (rs ! j) c" if "?mid \<le> j" "j < length rs" for j
        using order[of j ?mid] nl that by (cases "j = ?mid") auto
      then have above: "\<forall>j. ?mid \<le> j \<longrightarrow> j < length rs \<longrightarrow> \<not> range_less (rs ! j) c" by blast
      have "splits rs c (lower_bound rs c first (len div 2))"
        by (rule "1.IH"(2)[OF False refl nl "1.prems"(1) _ "1.prems"(3) above]) (use mid(1) in simp)
      then show ?thesis using nl False by (simp add: lower_bound.simps[of rs c first len] Let_def)
    qed
  qed
qed

lemma Contains_iff:
  assumes "ranges_above l rs"
  shows "Contains rs c \<longleftrightarrow> (\<exists>(a, b) \<in> set rs. a \<le> c \<and> c \<le> b)"
proof -
  obtain i where i: "i = lower_bound rs c 0 (length rs)" by simp
  have s: "splits rs c i" unfolding i by (rule lower_bound_splits[OF assms]) auto
  have found: "Contains rs c \<longleftrightarrow> i < length rs \<and> \<not> less_range c (rs ! i)" by (simp add: Contains_def i Let_def)
  show ?thesis
  proof
    assume "Contains rs c"
    with found s have lt: "i < length rs" "\<not> less_range c (rs ! i)" "\<not> range_less (rs ! i) c"
      unfolding splits_def by blast+
    then have "fst (rs ! i) \<le> c \<and> c \<le> snd (rs ! i)" by (auto simp: range_less_def less_range_def case_prod_beta)
    with lt(1) show "\<exists>(a, b) \<in> set rs. a \<le> c \<and> c \<le> b" by (intro bexI[of _ "rs ! i"]) (auto simp: case_prod_beta)
  next
    assume "\<exists>(a, b) \<in> set rs. a \<le> c \<and> c \<le> b"
    then obtain j where j: "j < length rs" "fst (rs ! j) \<le> c" "c \<le> snd (rs ! j)" by (fastforce simp: in_set_conv_nth)
    then have "\<not> range_less (rs ! j) c" by (auto simp: range_less_def case_prod_beta)
    with s have le: "i \<le> j" unfolding splits_def by (meson not_le)
    then have lt: "i < length rs" using j(1) by simp
    with s have "\<not> range_less (rs ! i) c" unfolding splits_def by blast
    then have "c \<le> snd (rs ! i)" by (auto simp: range_less_def case_prod_beta)
    then have "\<not> i < j" using ranges_above_sorted[OF assms j(1), of i] j(2) by auto
    with le have "i = j" by simp
    with j show "Contains rs c" by (auto simp: found less_range_def case_prod_beta)
  qed
qed

subsection \<open>The tables are sorted\<close>

text \<open>The simplifier walks down a table once when it leaves the rest of it alone.\<close>

lemma ranges_above_cong: "l = l' \<Longrightarrow> ranges_above l rs = ranges_above l' rs" by simp

lemma tables_sorted:
  "ranges_above 0 XID_START_RANGES" "ranges_above 0 XID_CONTINUE_RANGES"
  "ranges_above 0 NFC_QUICK_CHECK_NO" "ranges_above 0 NFC_QUICK_CHECK_MAYBE"
  by (simp only: XID_START_RANGES_def, simp cong: ranges_above_cong)
    (simp only: XID_CONTINUE_RANGES_def, simp cong: ranges_above_cong,
     simp only: NFC_QUICK_CHECK_NO_def, simp cong: ranges_above_cong,
     simp only: NFC_QUICK_CHECK_MAYBE_def, simp cong: ranges_above_cong)

text \<open>Membership in a sorted table, by one walk that stops at the first range above.\<close>

fun member :: "UTF32 \<Rightarrow> UnicodeCharRange list \<Rightarrow> bool" where
  "member c [] = False"
| "member c ((a, b) # rs) = (if c < a then False else if c \<le> b then True else member c rs)"

lemma member_cong: "c = c' \<Longrightarrow> member c rs = member c' rs" by simp

lemma member_iff: "ranges_above l rs \<Longrightarrow> member c rs \<longleftrightarrow> (\<exists>(a, b) \<in> set rs. a \<le> c \<and> c \<le> b)"
proof (induction rs arbitrary: l)
  case (Cons r rs)
  obtain a b where r: "r = (a, b)" by (cases r)
  from Cons.prems r have up: "ranges_above b rs" "a \<le> b" by auto
  have "\<not> (x \<le> c \<and> c \<le> y)" if "c < a" "(x, y) \<in> set rs" for x y
  proof -
    from that(2) obtain i where "i < length rs" "rs ! i = (x, y)" by (auto simp: in_set_conv_nth)
    with ranges_above_nth[OF up(1), of i] have "b < x" by simp
    with that(1) up(2) show ?thesis by auto
  qed
  then have low: "member c (r # rs) \<longleftrightarrow> (\<exists>(a, b) \<in> set (r # rs). a \<le> c \<and> c \<le> b)" if "c < a" using that r by auto
  show ?case
  proof (cases "c < a")
    case False
    then show ?thesis using Cons.IH[OF up(1)] r by auto
  qed (rule low)
qed simp

lemmas Contains_member = Contains_iff[OF tables_sorted(1), folded member_iff[OF tables_sorted(1)]]
  Contains_iff[OF tables_sorted(2), folded member_iff[OF tables_sorted(2)]]
  Contains_iff[OF tables_sorted(3), folded member_iff[OF tables_sorted(3)]]
  Contains_iff[OF tables_sorted(4), folded member_iff[OF tables_sorted(4)]]

text \<open>Two sorted tables without a common code point.\<close>

fun disjoint_ranges :: "UnicodeCharRange list \<Rightarrow> UnicodeCharRange list \<Rightarrow> bool" where
  "disjoint_ranges [] rs' = True"
| "disjoint_ranges rs [] = True"
| "disjoint_ranges ((a, b) # rs) ((a', b') # rs') =
     (if b < a' then disjoint_ranges rs ((a', b') # rs') else if b' < a then disjoint_ranges ((a, b) # rs) rs' else False)"

lemma disjoint_ranges_cong: "disjoint_ranges rs rs' = disjoint_ranges rs rs'" by simp

lemma disjoint_rangesD:
  "disjoint_ranges rs rs' \<Longrightarrow> ranges_above l rs \<Longrightarrow> ranges_above l' rs' \<Longrightarrow> \<not> (member c rs \<and> member c rs')"
proof (induction rs rs' arbitrary: l l' rule: disjoint_ranges.induct)
  case (3 a b rs a' b' rs')
  show ?case
  proof (cases "b < a'")
    case True
    then have "\<not> (member c rs \<and> member c ((a', b') # rs'))" using 3 by auto
    moreover have "\<not> (c \<le> b \<and> member c ((a', b') # rs'))" using True by auto
    ultimately show ?thesis by auto
  next
    case False
    with 3 have b': "b' < a" and "\<not> (member c ((a, b) # rs) \<and> member c rs')" by (auto split: if_splits)
    moreover have "\<not> (c \<le> b' \<and> member c ((a, b) # rs))" using b' by auto
    ultimately show ?thesis by auto
  qed
qed auto

lemma XID_tables_disjoint: "disjoint_ranges XID_START_RANGES XID_CONTINUE_RANGES"
  unfolding XID_START_RANGES_def XID_CONTINUE_RANGES_def by (simp cong: disjoint_ranges_cong)

subsection \<open>Identifier characters\<close>

text \<open>C30: the sets of identifier characters are exactly the ranges of their tables, at every code point: the
  search finds a range if one holds the code point, and no code point is in both tables.\<close>

theorem XID_sets_exact:
  "(IsXIDStart c \<longleftrightarrow> (\<exists>(a, b) \<in> set XID_START_RANGES. a \<le> c \<and> c \<le> b)) \<and>
   (IsXIDContinue c \<longleftrightarrow> (\<exists>(a, b) \<in> set XID_START_RANGES \<union> set XID_CONTINUE_RANGES. a \<le> c \<and> c \<le> b)) \<and>
   (IsXIDStart c \<longrightarrow> \<not> Contains XID_CONTINUE_RANGES c)"
  using disjoint_rangesD[OF XID_tables_disjoint tables_sorted(1,2), of c]
  by (auto simp: IsXIDStart_def IsXIDContinue_def Contains_member member_iff[OF tables_sorted(1)]
    member_iff[OF tables_sorted(2)])

lemma XID_sets_exact_witness: "IsXIDStart 0x3B1 \<and> \<not> Contains XID_CONTINUE_RANGES 0x3B1"
proof -
  have "member 0x3B1 XID_START_RANGES" unfolding XID_START_RANGES_def by (simp cong: member_cong)
  then have "IsXIDStart 0x3B1" by (simp add: IsXIDStart_def Contains_member)
  with XID_sets_exact[of "0x3B1"] show ?thesis by blast
qed

text \<open>The first ranges of a table decide for the code points below the third.\<close>

lemma member_two:
  assumes "c < a''" "b < a'" "a \<le> b"
  shows "member c ((a, b) # (a', b') # (a'', b'') # rs) \<longleftrightarrow> a \<le> c \<and> c \<le> b \<or> a' \<le> c \<and> c \<le> b'"
  using assms by auto

lemma ASCII_members:
  assumes "c \<le> 127"
  shows "IsXIDStart c \<longleftrightarrow> 0x41 \<le> c \<and> c \<le> 0x5A \<or> 0x61 \<le> c \<and> c \<le> 0x7A"
    "Contains XID_CONTINUE_RANGES c \<longleftrightarrow> 0x30 \<le> c \<and> c \<le> 0x39 \<or> c = 0x5F"
proof -
  have c: "c < 0xAA" "c < 0xB7" using assms by (simp_all add: word_less_nat_alt word_le_nat_alt)
  have "member c XID_START_RANGES \<longleftrightarrow> 0x41 \<le> c \<and> c \<le> 0x5A \<or> 0x61 \<le> c \<and> c \<le> 0x7A"
    unfolding XID_START_RANGES_def by (rule member_two) (use c(1) in simp_all)
  then show "IsXIDStart c \<longleftrightarrow> 0x41 \<le> c \<and> c \<le> 0x5A \<or> 0x61 \<le> c \<and> c \<le> 0x7A"
    by (simp add: IsXIDStart_def Contains_member)
  have "member c XID_CONTINUE_RANGES \<longleftrightarrow> 0x30 \<le> c \<and> c \<le> 0x39 \<or> 0x5F \<le> c \<and> c \<le> 0x5F"
    unfolding XID_CONTINUE_RANGES_def by (rule member_two) (use c(2) in simp_all)
  then show "Contains XID_CONTINUE_RANGES c \<longleftrightarrow> 0x30 \<le> c \<and> c \<le> 0x39 \<or> c = 0x5F"
    by (auto simp: Contains_member)
qed

text \<open>On ASCII the tests that look at the byte agree with the tables. They look at the low byte of any other
  code point too.\<close>

lemma signed_byte:
  assumes "0 \<le> l" "u < 128"
  shows "l \<le> sint (ucast (c :: UTF32) :: 8 word) \<and> sint (ucast c :: 8 word) \<le> u \<longleftrightarrow>
    l \<le> uint c mod 256 \<and> uint c mod 256 \<le> u"
proof -
  have "sint (ucast c :: 8 word) = (uint c mod 256 + 128) mod 256 - 128"
    by (simp add: sint_uint unsigned_ucast_eq signed_take_bit_eq_take_bit_shift take_bit_eq_mod)
  moreover have "(x + 128) mod 256 = (if x < 128 then x + 128 else x - 128)" if "0 \<le> x" "x < 256" for x :: int
    using that mod_add_self2[of "x - 128" 256] by (cases "x < 128") (simp_all add: mod_pos_pos_trivial add.commute)
  ultimately have "sint (ucast c :: 8 word) = (if uint c mod 256 < 128 then uint c mod 256 else uint c mod 256 - 256)"
    by (simp add: mod_less)
  then show ?thesis using assms by auto
qed

lemma IsASCIIIdStart_iff:
  "IsASCIIIdStart c \<longleftrightarrow> uint c mod 256 \<in> {0x61..0x7A} \<union> {0x41..0x5A} \<union> {0x5F}"
  using signed_byte[of "0x61" "0x7A" c] signed_byte[of "0x41" "0x5A" c] signed_byte[of "0x5F" "0x5F" c]
  by (simp add: IsASCIIIdStart_def Let_def) presburger

text \<open>On ASCII the tests that look at a byte and the tests that search the tables agree, for the first
  character of an identifier and for the others.\<close>

theorem ASCII_tests_agree:
  assumes "IsASCII c"
  shows "(IsASCIIIdStart c \<longleftrightarrow> IsCJXIDStart c) \<and> (IsASCIIIdContinue c \<longleftrightarrow> IsXIDContinue c)"
proof -
  from assms have c: "c \<le> 127" by (simp add: IsASCII_def)
  then have u: "0 \<le> uint c" "uint c \<le> 127" by (simp_all add: word_le_def)
  have start: "IsASCIIIdStart c \<longleftrightarrow> c = 0x5F \<or> IsXIDStart c"
    using u by (auto simp: IsASCIIIdStart_iff ASCII_members(1)[OF c] word_le_def word_uint_eq_iff)
  have "IsDigit c \<longleftrightarrow> 0x30 \<le> c \<and> c \<le> 0x39" using u by (auto simp: IsDigit_def word_le_def)
  with start show ?thesis
    by (auto simp: IsCJXIDStart_def IsASCIIIdContinue_def IsXIDContinue_def ASCII_members(2)[OF c])
qed

lemma ASCII_tests_agree_witness: "IsASCIIIdStart 0x41 = IsCJXIDStart 0x41"
  using ASCII_tests_agree[of "0x41"] by (simp add: IsASCII_def)

text \<open>C31: beyond ASCII the tests that look at a byte cut the code point: they accept U+2061, an invisible format
  character that is in neither table, as a letter because its low byte is that of \<open>a\<close>. An identifier
  on the command line may contain it, or begin with it.\<close>

theorem invisible_character_accepted:
  "\<not> IsASCII 0x2061 \<and> \<not> IsCJXIDStart 0x2061 \<and> \<not> IsXIDContinue 0x2061 \<and>
   IsASCIIIdStart 0x2061 \<and> IsASCIIIdContinue 0x2061 \<and> IdentifierChars True [0x61, 0x2061] \<and> IdentifierChars True [0x2061]"
proof -
  have "\<not> member 0x2061 XID_START_RANGES" unfolding XID_START_RANGES_def by (simp cong: member_cong)
  moreover have "\<not> member 0x2061 XID_CONTINUE_RANGES" unfolding XID_CONTINUE_RANGES_def by (simp cong: member_cong)
  ultimately have "\<not> IsXIDStart 0x2061" "\<not> IsXIDContinue 0x2061"
    by (simp_all add: IsXIDStart_def IsXIDContinue_def Contains_member)
  moreover have "IsASCIIIdStart 0x2061" "IsASCIIIdStart 0x61" by (simp_all add: IsASCIIIdStart_iff)
  ultimately show ?thesis by (simp add: IsASCII_def IsCJXIDStart_def IsASCIIIdContinue_def)
qed

end
