(* ===== verification/UnicodeNFC.thy ===== *)
theory UnicodeNFC
  imports UnicodeTables "HOL-Library.Monad_Syntax"
begin

unbundle bit_operations_syntax

section \<open>Normalisation forms\<close>

text \<open>
  \<open>Utils/UnicodeNFC.cpp\<close> and the end of \<open>Utils/Unicode.cpp\<close>: canonical decomposition, canonical ordering and
  canonical composition of a string, and the quick check. The tables of decompositions and compositions are
  generated and are a parameter. Bytes are read and written by LLVM's converters one code point at a time,
  so that a string is the list of its code points here.
\<close>

subsection \<open>The tables\<close>

text \<open>A perfect hash with a salt for each bucket. A \<open>short\<close> is a word of 16 bits.\<close>

record NormTables =
  COMPOSITION_TABLE_SALT :: "16 word list"
  COMPOSITION_TABLE_KV :: "(UTF32 \<times> UTF32) list"
  CompositionTableAstral :: "UTF32 \<Rightarrow> UTF32 \<Rightarrow> UTF32 option"
  CANONICAL_DECOMPOSED_SALT :: "16 word list"
  CANONICAL_DECOMPOSED_KV :: "(UTF32 \<times> 16 word \<times> 16 word) list"
  CANONICAL_DECOMPOSED_CHARS :: "UTF32 list"

definition MyHash :: "UTF32 \<Rightarrow> UTF32 \<Rightarrow> 64 word \<Rightarrow> 64 word" where
  "MyHash key salt n =
     (let t1 = key + salt; y = t1 * 2654435769; t2 = key * 0x31415926; y' = y XOR t2
      in drop_bit 32 (ucast y' * n))"

definition MetaLookup :: "UTF32 \<Rightarrow> 16 word list \<Rightarrow> (UTF32 \<times> 'v) list \<Rightarrow> 'v option" where
  "MetaLookup x salt kv =
     (let s = ucast (salt ! unat (MyHash x 0 (of_nat (length salt))));
          keyValuePair = kv ! unat (MyHash x s (of_nat (length salt)))
      in if x = fst keyValuePair then Some (snd keyValuePair) else None)"

definition CompositionTable :: "NormTables \<Rightarrow> UTF32 \<Rightarrow> UTF32 \<Rightarrow> UTF32 option" where
  "CompositionTable T c1 c2 =
     (if c1 < 0x10000 \<and> c2 < 0x10000
      then MetaLookup (push_bit 16 c1 OR c2) (COMPOSITION_TABLE_SALT T) (COMPOSITION_TABLE_KV T)
      else CompositionTableAstral T c1 c2)"

subsection \<open>Hangul syllables\<close>

abbreviation "SBASE \<equiv> 0xAC00 :: UTF32"
abbreviation "LBASE \<equiv> 0x1100 :: UTF32"
abbreviation "VBASE \<equiv> 0x1161 :: UTF32"
abbreviation "TBASE \<equiv> 0x11A7 :: UTF32"
abbreviation "LCOUNT \<equiv> 19 :: UTF32"
abbreviation "VCOUNT \<equiv> 21 :: UTF32"
abbreviation "TCOUNT \<equiv> 28 :: UTF32"
abbreviation "NCOUNT \<equiv> VCOUNT * TCOUNT"
abbreviation "SCOUNT \<equiv> LCOUNT * NCOUNT"
abbreviation "SLAST \<equiv> SBASE + SCOUNT - 1"
abbreviation "LLAST \<equiv> LBASE + LCOUNT - 1"
abbreviation "VLAST \<equiv> VBASE + VCOUNT - 1"
abbreviation "TLAST \<equiv> TBASE + TCOUNT - 1"
abbreviation "TFIRST \<equiv> TBASE + 1"

definition IsHangulSyllable :: "UTF32 \<Rightarrow> bool" where
  "IsHangulSyllable c \<longleftrightarrow> SBASE \<le> c \<and> c < SBASE + SCOUNT"

text \<open>The characters that are emitted.\<close>

definition DecomposeHangul :: "UTF32 \<Rightarrow> UTF32 list" where
  "DecomposeHangul c =
     (let sindex = c - SBASE;
          lindex = sindex div NCOUNT;
          vindex = (sindex mod NCOUNT) div TCOUNT;
          tindex = sindex mod TCOUNT
      in [LBASE + lindex, VBASE + vindex] @ (if tindex > 0 then [TBASE + tindex] else []))"

definition ComposeHangul :: "UTF32 \<Rightarrow> UTF32 \<Rightarrow> UTF32 option" where
  "ComposeHangul a b =
     (if LBASE \<le> a \<and> a \<le> LLAST \<and> VBASE \<le> b \<and> b \<le> VLAST then
        let lindex = a - LBASE; vindex = b - VBASE; lvindex = lindex * NCOUNT + vindex * TCOUNT
        in Some (SBASE + lvindex)
      else if SBASE \<le> a \<and> a \<le> SLAST \<and> TFIRST \<le> b \<and> b \<le> TLAST \<and> (a - SBASE) mod TCOUNT = 0
      then Some (a + b - TBASE)
      else None)"

subsection \<open>Decomposition and canonical ordering\<close>

text \<open>The range of the table of characters, from the index to the index plus the length.\<close>

definition CanonicalFullyDecomposed :: "NormTables \<Rightarrow> UTF32 \<Rightarrow> UTF32 list option" where
  "CanonicalFullyDecomposed T c =
     map_option (\<lambda>(first, len). take (unat len) (drop (unat first) (CANONICAL_DECOMPOSED_CHARS T)))
       (MetaLookup c (CANONICAL_DECOMPOSED_SALT T) (CANONICAL_DECOMPOSED_KV T))"

definition Decompose :: "NormTables \<Rightarrow> UTF32 \<Rightarrow> UTF32 list" where
  "Decompose T c =
     (if c \<le> 0x7f then [c]
      else if IsHangulSyllable c then DecomposeHangul c
      else case CanonicalFullyDecomposed T c of Some d \<Rightarrow> d | None \<Rightarrow> [c])"

text \<open>The iterator: the characters still to be read, the buffer with combining classes, and the part of the
  buffer that is in order, from \<open>ready_begin\<close> to \<open>ready_end\<close>.\<close>

record Decompositions =
  cur :: "UTF32 list"
  buffer :: "(nat \<times> UTF32) list"
  ready_begin :: nat
  ready_end :: nat

text \<open>\<open>std::stable_sort\<close> by the class.\<close>

definition SortPending :: "Decompositions \<Rightarrow> Decompositions" where
  "SortPending st =
     (if ready_end st < length (buffer st)
      then st\<lparr>buffer := take (ready_end st) (buffer st) @ sort_key fst (drop (ready_end st) (buffer st))\<rparr>
      else st)"

definition PushBack :: "UTF32 \<Rightarrow> Decompositions \<Rightarrow> Decompositions" where
  "PushBack c st =
     (let cc = GetCanonicalCombiningClass c in
      if cc = 0 then
        let st' = SortPending st; b = buffer st' @ [(cc, c)] in st'\<lparr>buffer := b, ready_end := length b\<rparr>
      else st\<lparr>buffer := buffer st @ [(cc, c)]\<rparr>)"

definition ResetBuffer :: "Decompositions \<Rightarrow> Decompositions" where
  "ResetBuffer st = st\<lparr>buffer := drop (ready_end st) (buffer st), ready_begin := 0, ready_end := 0\<rparr>"

definition IncrementNextReady :: "Decompositions \<Rightarrow> Decompositions" where
  "IncrementNextReady st =
     (let next_ready = ready_begin st + 1
      in if next_ready = ready_end st then ResetBuffer st else st\<lparr>ready_begin := next_ready\<rparr>)"

text \<open>The loop of \<open>Next\<close> that reads until a part of the buffer is ready; \<^const>\<open>None\<close> at the end.\<close>

fun FillReady :: "NormTables \<Rightarrow> UTF32 list \<Rightarrow> Decompositions \<Rightarrow> Decompositions option" where
  "FillReady T [] st =
     (if ready_end st \<noteq> 0 then Some (st\<lparr>cur := []\<rparr>)
      else if buffer st = [] then None
      else let st' = SortPending st in Some (st'\<lparr>cur := [], ready_end := length (buffer st')\<rparr>))"
| "FillReady T (codepoint # cs) st =
     (if ready_end st \<noteq> 0 then Some (st\<lparr>cur := codepoint # cs\<rparr>)
      else FillReady T cs (fold PushBack (Decompose T codepoint) st))"

definition D_Next :: "NormTables \<Rightarrow> Decompositions \<Rightarrow> (UTF32 \<times> Decompositions) option" where
  "D_Next T st = do {
     st' \<leftarrow> FillReady T (cur st) st;
     Some (snd (buffer st' ! ready_begin st'), IncrementNextReady st')
   }"

partial_function (option) D_GetLoop :: "NormTables \<Rightarrow> Decompositions \<Rightarrow> UTF32 list option" where
  "D_GetLoop T st = (case D_Next T st of
     None \<Rightarrow> Some []
   | Some (k, st') \<Rightarrow> do { res \<leftarrow> D_GetLoop T st'; Some (k # res) })"

definition D_Get :: "NormTables \<Rightarrow> UTF32 list \<Rightarrow> UTF32 list option" where
  "D_Get T s = D_GetLoop T \<lparr>cur = s, buffer = [], ready_begin = 0, ready_end = 0\<rparr>"

subsection \<open>Composition\<close>

definition Compose :: "NormTables \<Rightarrow> UTF32 \<Rightarrow> UTF32 \<Rightarrow> UTF32 option" where
  "Compose T a b = (case ComposeHangul a b of Some h \<Rightarrow> Some h | None \<Rightarrow> CompositionTable T a b)"

datatype RecompositionState = COMPOSING | PURGING | FINISHED

record Recompositions =
  source :: "UTF32 list"
  state_sz :: nat
  state_v :: RecompositionState
  rbuffer :: "UTF32 list"
  composee :: "UTF32 option"
  lastccc :: "nat option"

text \<open>The loop over the source in state \<open>COMPOSING\<close>, with what it returns if it does.\<close>

fun ComposeLoop :: "NormTables \<Rightarrow> UTF32 list \<Rightarrow> Recompositions \<Rightarrow> UTF32 option \<times> Recompositions" where
  "ComposeLoop T [] st = (None, st\<lparr>source := []\<rparr>)"
| "ComposeLoop T (ch # cs) st =
     (let cc = GetCanonicalCombiningClass ch in
      case composee st of
        None \<Rightarrow>
          if cc \<noteq> 0 then (Some ch, st\<lparr>source := cs\<rparr>)
          else ComposeLoop T cs (st\<lparr>composee := Some ch\<rparr>)
      | Some k \<Rightarrow> (case lastccc st of
          None \<Rightarrow> (case Compose T k ch of
            Some composed \<Rightarrow> ComposeLoop T cs (st\<lparr>composee := Some composed\<rparr>)
          | None \<Rightarrow>
              if cc = 0 then (Some k, st\<lparr>source := cs, composee := Some ch\<rparr>)
              else ComposeLoop T cs (st\<lparr>rbuffer := rbuffer st @ [ch], lastccc := Some cc\<rparr>))
        | Some lclass \<Rightarrow>
            if cc \<le> lclass then
              if cc = 0
              then (Some k, st\<lparr>source := cs, composee := Some ch, lastccc := None, state_sz := 0, state_v := PURGING\<rparr>)
              else ComposeLoop T cs (st\<lparr>rbuffer := rbuffer st @ [ch], lastccc := Some cc\<rparr>)
            else (case Compose T k ch of
              Some composed \<Rightarrow> ComposeLoop T cs (st\<lparr>composee := Some composed\<rparr>)
            | None \<Rightarrow> ComposeLoop T cs (st\<lparr>rbuffer := rbuffer st @ [ch], lastccc := Some cc\<rparr>))))"

text \<open>The cases of the switch in \<open>Next\<close>; the loop around it goes on to a later state only.\<close>

definition FinishedStep :: "Recompositions \<Rightarrow> UTF32 option \<times> Recompositions" where
  "FinishedStep st =
     (if length (rbuffer st) \<le> state_sz st
      then (composee st, st\<lparr>rbuffer := [], composee := None\<rparr>)
      else (Some (rbuffer st ! state_sz st), st\<lparr>state_sz := state_sz st + 1\<rparr>))"

definition ComposingStep :: "NormTables \<Rightarrow> Recompositions \<Rightarrow> UTF32 option \<times> Recompositions" where
  "ComposingStep T st = (case ComposeLoop T (source st) st of
     (Some k, st') \<Rightarrow> (Some k, st')
   | (None, st') \<Rightarrow>
       let st'' = st'\<lparr>state_sz := 0, state_v := FINISHED\<rparr> in
       (case composee st'' of
          Some b \<Rightarrow> (Some b, st''\<lparr>composee := None\<rparr>)
        | None \<Rightarrow> FinishedStep st''))"

definition PurgingStep :: "NormTables \<Rightarrow> Recompositions \<Rightarrow> UTF32 option \<times> Recompositions" where
  "PurgingStep T st =
     (if length (rbuffer st) \<le> state_sz st then ComposingStep T (st\<lparr>rbuffer := [], state_v := COMPOSING\<rparr>)
      else (Some (rbuffer st ! state_sz st), st\<lparr>state_sz := state_sz st + 1\<rparr>))"

definition R_Next :: "NormTables \<Rightarrow> Recompositions \<Rightarrow> UTF32 option \<times> Recompositions" where
  "R_Next T st = (case state_v st of
     COMPOSING \<Rightarrow> ComposingStep T st | PURGING \<Rightarrow> PurgingStep T st | FINISHED \<Rightarrow> FinishedStep st)"

partial_function (option) R_GetLoop :: "NormTables \<Rightarrow> Recompositions \<Rightarrow> UTF32 list option" where
  "R_GetLoop T st = (case R_Next T st of
     (None, st') \<Rightarrow> Some []
   | (Some c, st') \<Rightarrow> do { res \<leftarrow> R_GetLoop T st'; Some (c # res) })"

definition R_Get :: "NormTables \<Rightarrow> UTF32 list \<Rightarrow> UTF32 list option" where
  "R_Get T s = R_GetLoop T
     \<lparr>source = s, state_sz = 0, state_v = COMPOSING, rbuffer = [], composee = None, lastccc = None\<rparr>"

definition CanonicalRecompose :: "NormTables \<Rightarrow> UTF32 list \<Rightarrow> UTF32 list option" where
  "CanonicalRecompose T s = do { decomposed \<leftarrow> D_Get T s; R_Get T decomposed }"

text \<open>What \<open>ConvertUTF32ToUTF8String\<close> hands to the converter: a byte order mark at the front is skipped, and
  the bytes are swapped first if it is the mark of the other order.\<close>

definition ByteSwap_32 :: "UTF32 \<Rightarrow> UTF32" where
  "ByteSwap_32 w = push_bit 24 w OR push_bit 8 (w AND 0xFF00) OR drop_bit 8 (w AND 0xFF0000) OR drop_bit 24 w"

definition ConvertUTF32ToUTF8String :: "UTF32 list \<Rightarrow> UTF32 list" where
  "ConvertUTF32ToUTF8String src =
     (if src = [] then []
      else
        let src' = (if hd src = 0xFFFE0000 then map ByteSwap_32 src else src)
        in if hd src' = 0xFEFF then tl src' else src')"

definition CanonicalDecompose :: "NormTables \<Rightarrow> UTF32 list \<Rightarrow> UTF32 list option" where
  "CanonicalDecompose T s = map_option ConvertUTF32ToUTF8String (D_Get T s)"

subsection \<open>The quick check\<close>

fun NfcQuickCheckLoop :: "nat \<Rightarrow> NfcQcResult \<Rightarrow> UTF32 list \<Rightarrow> NfcQcResult" where
  "NfcQuickCheckLoop lastcc res [] = res"
| "NfcQuickCheckLoop lastcc res (ch # s) =
     (if ch \<le> 0x7f then NfcQuickCheckLoop 0 res s
      else
        let cc = GetCanonicalCombiningClass ch in
        if cc < lastcc \<and> cc \<noteq> 0 then NO
        else case IsAllowed ch of
          NO \<Rightarrow> NO
        | MAYBE \<Rightarrow> NfcQuickCheckLoop cc MAYBE s
        | YES \<Rightarrow> NfcQuickCheckLoop cc res s)"

definition NfcQuickCheck :: "UTF32 list \<Rightarrow> NfcQcResult" where
  "NfcQuickCheck s = NfcQuickCheckLoop 0 YES s"

definition IsNFC :: "NormTables \<Rightarrow> UTF32 list \<Rightarrow> bool option" where
  "IsNFC T s = (case NfcQuickCheck s of
     YES \<Rightarrow> Some True | NO \<Rightarrow> Some False | MAYBE \<Rightarrow> map_option (\<lambda>r. r = s) (CanonicalRecompose T s))"

definition NFC :: "NormTables \<Rightarrow> UTF32 list \<Rightarrow> UTF32 list option" where
  "NFC T s = (if NfcQuickCheck s = YES then Some s else CanonicalRecompose T s)"

end
