(* ===== verification/CanonicalOrder.thy ===== *)
theory CanonicalOrder
  imports UnicodeNFC "HOL-Library.Multiset"
begin

section \<open>Canonical ordering and decomposition\<close>

text \<open>
  The reference: a pair of neighbours with classes \<open>a > b > 0\<close> may be exchanged, and a string without such
  a pair is in canonical order (Unicode, D108 and D109). The iterator \<open>Decompositions\<close> delivers the full
  decomposition of its string in canonical order.
\<close>

abbreviation ccc :: "UTF32 \<Rightarrow> nat" where "ccc \<equiv> GetCanonicalCombiningClass"

subsection \<open>The reference\<close>

inductive exchange :: "UTF32 list \<Rightarrow> UTF32 list \<Rightarrow> bool" where
  exchange: "0 < ccc b \<Longrightarrow> ccc b < ccc a \<Longrightarrow> exchange (us @ a # b # vs) (us @ b # a # vs)"

fun in_order :: "UTF32 list \<Rightarrow> bool" where
  "in_order (a # b # s) = ((ccc b = 0 \<or> ccc a \<le> ccc b) \<and> in_order (b # s))"
| "in_order s = True"

lemma in_order_iff: "in_order s \<longleftrightarrow> (\<nexists>s'. exchange s s')"
proof (induction s rule: in_order.induct)
  case (1 a b s)
  have "(\<exists>s'. exchange (a # b # s) s') \<longleftrightarrow> (0 < ccc b \<and> ccc b < ccc a) \<or> (\<exists>s'. exchange (b # s) s')"
  proof -
    have "exchange (a # b # s) (a # s')" if "exchange (b # s) s'" for s'
      using that
    proof cases
      case (exchange d c us vs)
      then have "a # b # s = (a # us) @ c # d # vs" "a # s' = (a # us) @ d # c # vs" by auto
      then show ?thesis using exchange.exchange[OF exchange(3,4), of "a # us" vs] by simp
    qed
    moreover have "exchange (a # b # s) (b # a # s)" if "0 < ccc b" "ccc b < ccc a"
      using exchange.exchange[OF that, of "[]" s] by simp
    moreover have "(0 < ccc b \<and> ccc b < ccc a) \<or> (\<exists>s'. exchange (b # s) s')" if "exchange (a # b # s) s'" for s'
      using that
    proof cases
      case (exchange d c us vs)
      then show ?thesis by (cases us) (use exchange.exchange in force)+
    qed
    ultimately show ?thesis by blast
  qed
  with 1 show ?case by auto
qed (auto elim: exchange.cases simp: append_eq_Cons_conv)

fun place :: "UTF32 \<Rightarrow> UTF32 list \<Rightarrow> UTF32 list" where
  "place x [] = [x]"
| "place x (y # ys) = (if ccc y \<noteq> 0 \<and> ccc y < ccc x then y # place x ys else x # y # ys)"

definition canonical_order :: "UTF32 list \<Rightarrow> UTF32 list" where
  "canonical_order s = foldr place s []"

lemma canonical_order_simps [simp]:
  "canonical_order [] = []" "canonical_order (x # s) = place x (canonical_order s)"
  by (simp_all add: canonical_order_def)

lemma canonical_order_append: "canonical_order (s @ s') = foldr place s (canonical_order s')"
  by (simp add: canonical_order_def)

lemma exchange_Cons: "exchange s s' \<Longrightarrow> exchange (x # s) (x # s')"
proof (erule exchange.cases)
  fix a b us vs assume "s = us @ a # b # vs" "s' = us @ b # a # vs" "0 < ccc b" "ccc b < ccc a"
  then show ?thesis using exchange.exchange[of b a "x # us" vs] by simp
qed

lemma exchanges_Cons: "exchange\<^sup>*\<^sup>* s s' \<Longrightarrow> exchange\<^sup>*\<^sup>* (x # s) (x # s')"
  by (induction rule: rtranclp_induct) (auto intro: exchange_Cons rtranclp.rtrancl_into_rtrancl)

lemma exchanges_place: "exchange\<^sup>*\<^sup>* (x # s) (place x s)"
proof (induction s)
  case (Cons y s)
  have "exchange\<^sup>*\<^sup>* (x # y # s) (y # place x s)" if "ccc y \<noteq> 0" "ccc y < ccc x"
  proof -
    from that have "exchange (x # y # s) (y # x # s)" using exchange.exchange[of y x "[]" s] by simp
    then show ?thesis by (rule converse_rtranclp_into_rtranclp) (rule exchanges_Cons[OF Cons.IH])
  qed
  then show ?case by simp
qed simp

lemma exchanges_canonical_order: "exchange\<^sup>*\<^sup>* s (canonical_order s)"
proof (induction s)
  case (Cons x s)
  from exchanges_Cons[OF Cons.IH, of x] exchanges_place show ?case by (auto intro: rtranclp_trans)
qed simp

lemma in_order_place: "in_order s \<Longrightarrow> in_order (place x s)"
proof (induction s rule: in_order.induct)
  case (1 a b s)
  then show ?case by auto
qed auto

lemma in_order_canonical_order [simp]: "in_order (canonical_order s)"
  by (induction s) (auto intro: in_order_place)

lemma in_order_tl: "in_order (x # s) \<Longrightarrow> in_order s"
  by (cases s) auto

lemma place_in_order: "in_order (x # s) \<Longrightarrow> place x s = x # s"
  by (cases s) auto

lemma canonical_order_in_order: "in_order s \<Longrightarrow> canonical_order s = s"
proof (induction s)
  case (Cons x s)
  then show ?case using place_in_order[OF Cons.prems] in_order_tl[OF Cons.prems] by simp
qed simp

lemma place_swap: "ccc a \<noteq> 0 \<Longrightarrow> ccc b \<noteq> 0 \<Longrightarrow> ccc a \<noteq> ccc b \<Longrightarrow> place a (place b s) = place b (place a s)"
  by (induction s) auto

lemma canonical_order_place: "canonical_order (place x s @ s') = place x (canonical_order (s @ s'))"
proof (induction s)
  case (Cons y s)
  then show ?case using place_swap[of y x] by auto
qed simp

text \<open>What follows a string and what stands before it do not depend on the order inside.\<close>

lemma canonical_order_context: "canonical_order (s @ canonical_order t @ u) = canonical_order (s @ t @ u)"
proof -
  have "canonical_order (canonical_order t @ u) = canonical_order (t @ u)"
    by (induction t) (simp_all add: canonical_order_place)
  then show ?thesis by (simp add: canonical_order_append[of s])
qed

lemma canonical_order_swap:
  "ccc a \<noteq> 0 \<Longrightarrow> ccc b \<noteq> 0 \<Longrightarrow> ccc a \<noteq> ccc b \<Longrightarrow> canonical_order (s @ a # b # t) = canonical_order (s @ b # a # t)"
  by (simp add: canonical_order_append[of s] place_swap)

lemma set_place [simp]: "set (place x s) = insert x (set s)"
  by (induction s) auto

lemma set_canonical_order [simp]: "set (canonical_order s) = set s"
  by (induction s) auto

subsection \<open>Sorting the pending characters\<close>

lemma place_before_starter: "t = [] \<or> ccc (hd t) = 0 \<Longrightarrow> place c t = c # t"
  by (cases t) auto

lemma foldr_place_run:
  assumes "\<forall>(cc, c) \<in> set l. cc = ccc c \<and> cc \<noteq> 0" "t = [] \<or> ccc (hd t) = 0"
  shows "foldr place (map snd l) t = map snd (sort_key fst l) @ t"
proof -
  have place: "place c (map snd m @ t) = map snd (insort_key fst (ccc c, c) m) @ t"
    if "\<forall>(cc, c) \<in> set m. cc = ccc c \<and> cc \<noteq> 0" for c m
    using that place_before_starter[OF assms(2)] by (induction m) auto
  show ?thesis using assms(1)
  proof (induction l)
    case (Cons x l)
    then obtain c where "x = (ccc c, c)" by auto
    with Cons place[of "sort_key fst l" c] show ?case by auto
  qed simp
qed

definition full_decomposition :: "NormTables \<Rightarrow> UTF32 list \<Rightarrow> UTF32 list" where
  "full_decomposition T s = concat (map (Decompose T) s)"

lemma full_decomposition_simps [simp]:
  "full_decomposition T [] = []" "full_decomposition T (c # s) = Decompose T c @ full_decomposition T s"
  "full_decomposition T (s @ s') = full_decomposition T s @ full_decomposition T s'"
  by (simp_all add: full_decomposition_def)

text \<open>What the iterator will still deliver.\<close>

definition ready :: "Decompositions \<Rightarrow> UTF32 list" where
  "ready st = map snd (drop (ready_begin st) (take (ready_end st) (buffer st)))"

definition pending :: "Decompositions \<Rightarrow> (nat \<times> UTF32) list" where
  "pending st = drop (ready_end st) (buffer st)"

definition to_come :: "NormTables \<Rightarrow> UTF32 list \<Rightarrow> Decompositions \<Rightarrow> UTF32 list" where
  "to_come T s st = ready st @ canonical_order (map snd (pending st) @ full_decomposition T s)"

definition buffer_ok :: "Decompositions \<Rightarrow> bool" where
  "buffer_ok st \<longleftrightarrow> ready_end st \<le> length (buffer st) \<and>
     (if ready_end st = 0 then ready_begin st = 0 else ready_begin st < ready_end st) \<and>
     (\<forall>(cc, c) \<in> set (pending st). cc = ccc c \<and> cc \<noteq> 0)"

lemma SortPending_ready: "buffer_ok st \<Longrightarrow>
    buffer (SortPending st) = take (ready_end st) (buffer st) @ sort_key fst (pending st) \<and>
    ready_end (SortPending st) = ready_end st \<and> ready_begin (SortPending st) = ready_begin st"
  by (auto simp: SortPending_def buffer_ok_def pending_def)

lemma PushBack_ok:
  assumes "buffer_ok st"
  shows "buffer_ok (PushBack c st) \<and> ready (PushBack c st) @ canonical_order (map snd (pending (PushBack c st)) @ s) =
    ready st @ canonical_order (map snd (pending st) @ c # s)"
proof (cases "ccc c = 0")
  case True
  have len: "ready_end st \<le> length (buffer st)" "ready_begin st \<le> ready_end st"
    using assms by (auto simp: buffer_ok_def split: if_splits)
  from True have st: "PushBack c st = (SortPending st)\<lparr>buffer := buffer (SortPending st) @ [(0, c)],
      ready_end := Suc (length (buffer (SortPending st)))\<rparr>" by (simp add: PushBack_def Let_def)
  have "place c t = c # t" for t using True by (cases t) auto
  then have "canonical_order (map snd (pending st) @ c # s) = map snd (sort_key fst (pending st)) @ c # canonical_order s"
    using foldr_place_run[of "pending st" "c # canonical_order s"] assms True
    by (simp add: canonical_order_append buffer_ok_def)
  moreover have "pending (PushBack c st) = []" by (simp add: st pending_def)
  moreover have "ready (PushBack c st) = ready st @ map snd (sort_key fst (pending st)) @ [c]"
    using SortPending_ready[OF assms] len by (simp add: st ready_def)
  moreover have "buffer_ok (PushBack c st)"
    using SortPending_ready[OF assms] len by (auto simp: st buffer_ok_def pending_def)
  ultimately show ?thesis by simp
next
  case False
  then show ?thesis using assms by (auto simp: PushBack_def Let_def buffer_ok_def pending_def ready_def split: if_splits)
qed

lemma fold_PushBack_ok:
  assumes "buffer_ok st"
  shows "buffer_ok (fold PushBack d st) \<and>
    ready (fold PushBack d st) @ canonical_order (map snd (pending (fold PushBack d st)) @ s) =
    ready st @ canonical_order (map snd (pending st) @ d @ s)"
  using assms
proof (induction d arbitrary: st)
  case (Cons c d)
  from Cons.IH[of "PushBack c st"] PushBack_ok[OF Cons.prems, of c] PushBack_ok[OF Cons.prems, of c "d @ s"]
  show ?case by simp
qed simp

lemma FillReady_ok:
  assumes "buffer_ok st"
  shows "case FillReady T s st of
      None \<Rightarrow> to_come T s st = []
    | Some st' \<Rightarrow> buffer_ok st' \<and> ready_end st' \<noteq> 0 \<and> to_come T (cur st') st' = to_come T s st"
  using assms
proof (induction s arbitrary: st)
  case Nil
  show ?case
  proof (cases "ready_end st = 0 \<and> buffer st \<noteq> []")
    case True
    then have "pending st = buffer st" "ready_begin st = 0" using Nil by (simp_all add: pending_def buffer_ok_def)
    moreover from this have "canonical_order (map snd (buffer st)) = map snd (sort_key fst (buffer st))"
      using foldr_place_run[of "buffer st" "[]"] Nil by (simp add: canonical_order_def buffer_ok_def)
    ultimately show ?thesis
      using True Nil SortPending_ready[OF Nil] by (auto simp: to_come_def ready_def pending_def buffer_ok_def Let_def)
  qed (use Nil in \<open>auto simp: to_come_def ready_def pending_def buffer_ok_def\<close>)
next
  case (Cons c s)
  show ?case
  proof (cases "ready_end st = 0")
    case True
    from Cons.IH[of "fold PushBack (Decompose T c) st"] fold_PushBack_ok[OF Cons.prems, of "Decompose T c"]
      fold_PushBack_ok[OF Cons.prems, of "Decompose T c" "full_decomposition T s"] True
    show ?thesis by (simp add: to_come_def split: option.splits)
  next
    case False
    then show ?thesis using Cons.prems by (auto simp: to_come_def ready_def pending_def buffer_ok_def)
  qed
qed

lemma IncrementNextReady_ok:
  assumes "buffer_ok st" "ready_end st \<noteq> 0"
  shows "buffer_ok (IncrementNextReady st) \<and>
    to_come T (cur st) st = snd (buffer st ! ready_begin st) # to_come T (cur (IncrementNextReady st)) (IncrementNextReady st)"
proof -
  have b: "ready_begin st < ready_end st" "ready_end st \<le> length (buffer st)" using assms by (auto simp: buffer_ok_def)
  then have "drop (ready_begin st) (take (ready_end st) (buffer st)) =
      buffer st ! ready_begin st # drop (Suc (ready_begin st)) (take (ready_end st) (buffer st))"
    by (subst Cons_nth_drop_Suc[symmetric]) auto
  then show ?thesis using assms b
    by (auto simp: IncrementNextReady_def ResetBuffer_def Let_def to_come_def ready_def pending_def buffer_ok_def)
qed

lemma D_GetLoop_delivers: "buffer_ok st \<Longrightarrow> D_GetLoop T st = Some (to_come T (cur st) st)"
proof (induction "length (to_come T (cur st) st)" arbitrary: st rule: less_induct)
  case less
  show ?case
  proof (cases "FillReady T (cur st) st")
    case None
    then show ?thesis using FillReady_ok[OF less.prems, of T "cur st"]
      by (subst D_GetLoop.simps) (simp add: D_Next_def)
  next
    case (Some st')
    let ?st = "IncrementNextReady st'"
    from FillReady_ok[OF less.prems, of T "cur st"] Some
    have st': "buffer_ok st'" "ready_end st' \<noteq> 0" "to_come T (cur st') st' = to_come T (cur st) st" by simp_all
    from IncrementNextReady_ok[OF st'(1,2), of T] st'(3)
    have next_state: "buffer_ok ?st" "to_come T (cur st) st = snd (buffer st' ! ready_begin st') # to_come T (cur ?st) ?st"
      by simp_all
    then have "D_GetLoop T ?st = Some (to_come T (cur ?st) ?st)" by (intro less.hyps) simp_all
    with next_state Some show ?thesis by (subst D_GetLoop.simps) (simp add: D_Next_def)
  qed
qed

lemma D_Get_delivers: "D_Get T s = Some (canonical_order (full_decomposition T s))"
  by (simp add: D_Get_def D_GetLoop_delivers buffer_ok_def pending_def) (simp add: to_come_def ready_def pending_def)

text \<open>C28: canonical decomposition returns, for any tables and any string: the result comes from the full
  decomposition of the characters by exchanges of neighbours out of order, and no two neighbours of it are
  out of order any more.\<close>

theorem canonical_decomposition_correct:
  "\<exists>r. D_Get T s = Some r \<and> exchange\<^sup>*\<^sup>* (concat (map (Decompose T) s)) r \<and> (\<nexists>r'. exchange r r')"
proof (intro exI conjI)
  show "D_Get T s = Some (canonical_order (full_decomposition T s))" by (rule D_Get_delivers)
  show "exchange\<^sup>*\<^sup>* (concat (map (Decompose T) s)) (canonical_order (full_decomposition T s))"
    using exchanges_canonical_order by (simp add: full_decomposition_def)
  show "\<nexists>r'. exchange (canonical_order (full_decomposition T s)) r'"
    using in_order_iff[of "canonical_order (full_decomposition T s)"] by simp
qed

end
