(* ===== verification/Normalisation.thy ===== *)
theory Normalisation
  imports CanonicalOrder Prelude
begin

section \<open>Composition keeps a string canonically equivalent\<close>

text \<open>
  Hangul syllables, the perfect hash, and the iterator \<open>Recompositions\<close>: with the tables of Unicode the
  composed string has the same canonical decomposition as the string it was made from.
\<close>

subsection \<open>The hash\<close>

lemma uint_small: "0 \<le> k \<Longrightarrow> k < 4294967296 \<Longrightarrow> uint (word_of_int k :: UTF32) = k"
  by (simp add: uint_word_of_int)

lemma uint_range: "0 \<le> uint (c :: UTF32)" "uint (c :: UTF32) < 4294967296"
  using uint_bounded[of c] by simp_all

lemma MyHash_bound:
  assumes "0 < n" "n < 4294967296"
  shows "uint (MyHash x s n) < uint n"
proof -
  define y :: UTF32 where "y = (x + s) * 2654435769 XOR x * 0x31415926"
  have n: "0 < uint n" "uint n < 4294967296" using assms by (simp_all add: word_less_def)
  have lt: "uint y * uint n < 4294967296 * uint n" using uint_range[of y] n(1) by simp
  moreover have "4294967296 * uint n < 18446744073709551616" using n(2) by simp
  ultimately have "uint y * uint n mod 18446744073709551616 = uint y * uint n"
    using uint_range(1)[of y] n(1) by (intro mod_pos_pos_trivial) (simp, linarith)
  moreover have "uint (ucast y :: 64 word) = uint y"
    using uint_range[of y] by (simp add: unsigned_ucast_eq take_bit_eq_mod mod_pos_pos_trivial)
  ultimately have "uint ((ucast y :: 64 word) * n) = uint y * uint n" by (simp add: uint_word_ariths)
  moreover have "uint y * uint n div 4294967296 < uint n" using lt by (simp add: div_less_iff_less_mult mult.commute)
  ultimately show ?thesis by (simp only: MyHash_def Let_def y_def[symmetric] uint_drop_bit64) simp
qed

subsection \<open>Hangul syllables\<close>

lemma IsHangulSyllable_iff: "IsHangulSyllable c \<longleftrightarrow> 0xAC00 \<le> uint c \<and> uint c < 0xAC00 + 11172"
  by (simp add: IsHangulSyllable_def word_le_def word_less_def)

definition hangul_parts :: "int \<Rightarrow> int list" where
  "hangul_parts i = [0x1100 + i div 588, 0x1161 + i mod 588 div 28] @ (if 0 < i mod 28 then [0x11A7 + i mod 28] else [])"

lemma DecomposeHangul_parts:
  assumes "IsHangulSyllable c"
  shows "DecomposeHangul c = map word_of_int (hangul_parts (uint c - 0xAC00))"
proof -
  define i where "i = uint c - 0xAC00"
  from assms have i: "0 \<le> i" "i < 11172" by (simp_all add: IsHangulSyllable_iff i_def)
  have m: "0 \<le> i mod 28" "i mod 28 < 28" "0 \<le> i mod 588" "i mod 588 < 588" by simp_all
  have c: "c - 0xAC00 = word_of_int i" by (simp add: i_def)
  have "uint (word_of_int i :: UTF32) = i" using i by (simp add: uint_small)
  then have parts: "word_of_int i div (588 :: UTF32) = word_of_int (i div 588)" "word_of_int i mod (28 :: UTF32) = word_of_int (i mod 28)"
    "word_of_int i mod (588 :: UTF32) div 28 = word_of_int (i mod 588 div 28)"
    using i m by (simp_all add: word_uint_eq_iff uint_div uint_mod uint_small pos_imp_zdiv_nonneg_iff div_less_iff_less_mult)
  have "(0 :: UTF32) < word_of_int (i mod 28) \<longleftrightarrow> 0 < i mod 28"
    using m by (simp add: word_less_def uint_small)
  then show ?thesis by (simp add: DecomposeHangul_def hangul_parts_def Let_def c parts i_def[symmetric])
qed

lemma ComposeHangul_uint:
  "ComposeHangul a b =
     (if 0x1100 \<le> uint a \<and> uint a \<le> 0x1112 \<and> 0x1161 \<le> uint b \<and> uint b \<le> 0x1175
      then Some (word_of_int (0xAC00 + 588 * (uint a - 0x1100) + 28 * (uint b - 0x1161)))
      else if 0xAC00 \<le> uint a \<and> uint a \<le> 0xD7A3 \<and> 0x11A8 \<le> uint b \<and> uint b \<le> 0x11C2 \<and> (uint a - 0xAC00) mod 28 = 0
      then Some (word_of_int (uint a + uint b - 0x11A7))
      else None)"
proof -
  have "(a - 0xAC00) mod 28 = (0 :: UTF32) \<longleftrightarrow> (uint a - 0xAC00) mod 28 = 0" if "0xAC00 \<le> uint a"
  proof -
    have "a - 0xAC00 = word_of_int (uint a - 0xAC00)" by simp
    then have "uint (a - 0xAC00) = uint a - 0xAC00" using uint_range[of a] that by (simp only: uint_small)
    then show ?thesis by (simp add: word_uint_eq_iff uint_mod)
  qed
  then have T: "SBASE \<le> a \<and> a \<le> SLAST \<and> TFIRST \<le> b \<and> b \<le> TLAST \<and> (a - SBASE) mod TCOUNT = 0 \<longleftrightarrow>
      0xAC00 \<le> uint a \<and> uint a \<le> 0xD7A3 \<and> 0x11A8 \<le> uint b \<and> uint b \<le> 0x11C2 \<and> (uint a - 0xAC00) mod 28 = 0"
    by (cases "0xAC00 \<le> uint a") (simp_all add: word_le_def)
  have L: "LBASE \<le> a \<and> a \<le> LLAST \<and> VBASE \<le> b \<and> b \<le> VLAST \<longleftrightarrow>
      0x1100 \<le> uint a \<and> uint a \<le> 0x1112 \<and> 0x1161 \<le> uint b \<and> uint b \<le> 0x1175"
    by (simp add: word_le_def)
  have "SBASE + ((a - LBASE) * NCOUNT + (b - VBASE) * TCOUNT) = word_of_int (0xAC00 + 588 * (uint a - 0x1100) + 28 * (uint b - 0x1161))"
    "a + b - TBASE = word_of_int (uint a + uint b - 0x11A7)"
    by (simp_all add: algebra_simps)
  then show ?thesis unfolding ComposeHangul_def Let_def L T by simp
qed

lemma ComposeHangul_LV:
  assumes "0 \<le> l" "l < 19" "0 \<le> v" "v < 21"
  shows "ComposeHangul (word_of_int (0x1100 + l)) (word_of_int (0x1161 + v)) = Some (word_of_int (0xAC00 + (588 * l + 28 * v)))"
proof -
  have u: "uint (word_of_int (0x1100 + l) :: UTF32) = 0x1100 + l" "uint (word_of_int (0x1161 + v) :: UTF32) = 0x1161 + v"
    by (rule uint_small; use assms in linarith)+
  have "0xAC00 + 588 * (0x1100 + l - 0x1100) + 28 * (0x1161 + v - 0x1161) = 0xAC00 + (588 * l + 28 * v)" by simp
  moreover have "0x1100 \<le> 0x1100 + l" "0x1100 + l \<le> 0x1112" "0x1161 \<le> 0x1161 + v" "0x1161 + v \<le> 0x1175"
    using assms by linarith+
  ultimately show ?thesis by (simp only: ComposeHangul_uint u if_True simp_thms)
qed

lemma ComposeHangul_LVT:
  assumes "0 \<le> j" "j < 399" "0 < t" "t < 28"
  shows "ComposeHangul (word_of_int (0xAC00 + 28 * j)) (word_of_int (0x11A7 + t)) = Some (word_of_int (0xAC00 + (28 * j + t)))"
proof -
  have u: "uint (word_of_int (0xAC00 + 28 * j) :: UTF32) = 0xAC00 + 28 * j" "uint (word_of_int (0x11A7 + t) :: UTF32) = 0x11A7 + t"
    by (rule uint_small; use assms in linarith)+
  have "0xAC00 + 28 * j + (0x11A7 + t) - 0x11A7 = 0xAC00 + (28 * j + t)" "(0xAC00 + 28 * j - 0xAC00) mod 28 = 0" by simp_all
  moreover have "\<not> 0xAC00 + 28 * j \<le> 0x1112" "0xAC00 \<le> 0xAC00 + 28 * j" "0xAC00 + 28 * j \<le> 0xD7A3"
      "0x11A8 \<le> 0x11A7 + t" "0x11A7 + t \<le> 0x11C2"
    using assms by linarith+
  ultimately show ?thesis by (simp only: ComposeHangul_uint u if_True if_False simp_thms)
qed

lemma hangul_parts_unique:
  assumes "0 \<le> l" "l < 19" "0 \<le> v" "v < 21" "0 \<le> t" "t < 28"
  shows "hangul_parts (588 * l + 28 * v + t) = [0x1100 + l, 0x1161 + v] @ (if 0 < t then [0x11A7 + t] else [])"
proof -
  have r: "0 \<le> 28 * v + t" "28 * v + t < 588" using assms by linarith+
  have "(588 * l + 28 * v + t) div 588 = l" "(588 * l + 28 * v + t) mod 588 = 28 * v + t"
    using div_mult_self4[of 588 l "28 * v + t"] mod_mult_self4[of 588 l "28 * v + t"] r by (simp_all add: add.assoc)
  moreover have "(28 * v + t) div 28 = v" using assms(5,6) by simp
  moreover have "(588 * l + 28 * v + t) mod 28 = t"
    using mod_mult_self4[of 28 "21 * l + v" t] assms(5,6) by (simp add: algebra_simps)
  ultimately show ?thesis by (simp only: hangul_parts_def)
qed

lemma syllable_parts:
  assumes "IsHangulSyllable c"
  obtains l v t where "0 \<le> l" "l < 19" "0 \<le> v" "v < 21" "0 \<le> t" "t < 28" "c = word_of_int (0xAC00 + (588 * l + 28 * v + t))"
    "uint c = 0xAC00 + (588 * l + 28 * v + t)"
proof -
  define i where "i = uint c - 0xAC00"
  from assms have i: "0 \<le> i" "i < 11172" by (simp_all add: IsHangulSyllable_iff i_def)
  define l v t where "l = i div 588" "v = i mod 588 div 28" "t = i mod 588 mod 28"
  have "588 * l + 28 * v + t = i"
    using mult_div_mod_eq[of 588 i] mult_div_mod_eq[of 28 "i mod 588"] unfolding l_v_t_def by linarith
  then have u: "uint c = 0xAC00 + (588 * l + 28 * v + t)" unfolding i_def by linarith
  then have "c = word_of_int (0xAC00 + (588 * l + 28 * v + t))" by (metis word_of_int_uint)
  moreover have "0 \<le> l" "l < 19" "0 \<le> v" "v < 21" "0 \<le> t" "t < 28"
    using i by (simp_all add: l_v_t_def pos_imp_zdiv_nonneg_iff div_less_iff_less_mult)
  ultimately show thesis using u that by blast
qed

text \<open>C29: every Hangul syllable is taken apart into two or three letters, and composing them from the left gives
  the syllable again.\<close>

theorem Hangul_recompose:
  assumes "IsHangulSyllable c"
  shows "case DecomposeHangul c of
      [a, b] \<Rightarrow> ComposeHangul a b = Some c
    | [a, b, d] \<Rightarrow> (\<exists>ab. ComposeHangul a b = Some ab \<and> ComposeHangul ab d = Some c)
    | _ \<Rightarrow> False"
proof -
  obtain l v t where p: "0 \<le> l" "l < 19" "0 \<le> v" "v < 21" "0 \<le> t" "t < 28"
    and c: "c = word_of_int (0xAC00 + (588 * l + 28 * v + t))" "uint c = 0xAC00 + (588 * l + 28 * v + t)"
    by (rule syllable_parts[OF assms])
  have parts: "DecomposeHangul c = map word_of_int ([0x1100 + l, 0x1161 + v] @ (if 0 < t then [0x11A7 + t] else []))"
    using hangul_parts_unique[OF p] by (simp only: DecomposeHangul_parts[OF assms] c(2) add_diff_cancel_left')
  note LV = ComposeHangul_LV[OF p(1-4)]
  show ?thesis
  proof (cases "0 < t")
    case True
    have "0 \<le> 21 * l + v" "21 * l + v < 399" using p by linarith+
    from ComposeHangul_LVT[OF this True p(6)]
    have "ComposeHangul (word_of_int (0xAC00 + (588 * l + 28 * v))) (word_of_int (0x11A7 + t)) = Some c"
      by (simp only: c(1) distrib_left mult.assoc[symmetric]) simp
    with LV show ?thesis unfolding parts using True
      by (simp only: if_True append.simps list.map list.case) blast
  next
    case False
    with p(5) have "t = 0" by simp
    with LV have "ComposeHangul (word_of_int (0x1100 + l)) (word_of_int (0x1161 + v)) = Some c"
      by (simp only: c(1) add_0_right)
    then show ?thesis unfolding parts using \<open>t = 0\<close> by (simp only: less_irrefl if_False append.simps list.map list.case)
  qed
qed

lemma Hangul_recompose_witness:
  "\<exists>ab. ComposeHangul 0x1112 0x1161 = Some ab \<and> ComposeHangul ab 0x11AB = Some 0xD55C"
proof -
  have "DecomposeHangul 0xD55C = [0x1112, 0x1161, 0x11AB]"
    by (simp add: DecomposeHangul_def Let_def word_uint_eq_iff word_less_def uint_div uint_mod)
  then show ?thesis using Hangul_recompose[of "0xD55C"] by (simp add: IsHangulSyllable_def)
qed

text \<open>What the tables say of letters: none of them is decomposed.\<close>

definition is_letter :: "UTF32 \<Rightarrow> bool" where
  "is_letter c \<longleftrightarrow> uint c \<in> {0x1100..0x1112} \<union> {0x1161..0x1175} \<union> {0x11A8..0x11C2}"

lemma Decompose_letter: "is_letter c \<Longrightarrow> CanonicalFullyDecomposed T c = None \<Longrightarrow> Decompose T c = [c]"
  by (auto simp: Decompose_def IsHangulSyllable_iff is_letter_def)

lemma Decompose_syllable: "IsHangulSyllable c \<Longrightarrow> Decompose T c = map word_of_int (hangul_parts (uint c - 0xAC00))"
  using DecomposeHangul_parts[of c] by (auto simp: Decompose_def IsHangulSyllable_iff word_le_def)

lemma Decompose_parts:
  assumes "0 \<le> l" "l < 19" "0 \<le> v" "v < 21" "0 \<le> t" "t < 28" "uint c = 0xAC00 + (588 * l + 28 * v + t)"
  shows "Decompose T c = map word_of_int ([0x1100 + l, 0x1161 + v] @ (if 0 < t then [0x11A7 + t] else []))"
proof -
  have "IsHangulSyllable c" unfolding IsHangulSyllable_iff using assms by linarith
  from Decompose_syllable[OF this, of T] show ?thesis
    using hangul_parts_unique[OF assms(1-6)] by (simp only: assms(7) add_diff_cancel_left')
qed

lemma is_letter_word: "0x1100 \<le> k \<Longrightarrow> k \<le> 0x1112 \<Longrightarrow> is_letter (word_of_int k)"
  "0x1161 \<le> k \<Longrightarrow> k \<le> 0x1175 \<Longrightarrow> is_letter (word_of_int k)"
  "0x11A8 \<le> k \<Longrightarrow> k \<le> 0x11C2 \<Longrightarrow> is_letter (word_of_int k)"
  by (simp_all add: is_letter_def uint_small)

lemma syllable_letters:
  assumes "IsHangulSyllable c" "x \<in> set (Decompose T c)"
  shows "is_letter x"
proof -
  obtain l v t where p: "0 \<le> l" "l < 19" "0 \<le> v" "v < 21" "0 \<le> t" "t < 28"
    and u: "uint c = 0xAC00 + (588 * l + 28 * v + t)"
    by (rule syllable_parts[OF assms(1)])
  from assms(2) consider "x = word_of_int (0x1100 + l)" | "x = word_of_int (0x1161 + v)" | "x = word_of_int (0x11A7 + t)" "0 < t"
    unfolding Decompose_parts[OF p u] by (cases "0 < t") (auto simp del: of_int_add)
  then show ?thesis
  proof cases
    case 1
    have "0x1100 \<le> 0x1100 + l" "0x1100 + l \<le> 0x1112" using p by linarith+
    then show ?thesis unfolding 1 by (rule is_letter_word(1))
  next
    case 2
    have "0x1161 \<le> 0x1161 + v" "0x1161 + v \<le> 0x1175" using p by linarith+
    then show ?thesis unfolding 2 by (rule is_letter_word(2))
  next
    case 3
    have "0x11A8 \<le> 0x11A7 + t" "0x11A7 + t \<le> 0x11C2" using p 3 by linarith+
    then show ?thesis unfolding 3(1) by (rule is_letter_word(3))
  qed
qed

lemma ComposeHangul_decomposes:
  assumes letters: "\<And>c. is_letter c \<Longrightarrow> CanonicalFullyDecomposed T c = None" and s: "ComposeHangul a b = Some s"
  shows "Decompose T s = Decompose T a @ Decompose T b"
proof -
  note letter = Decompose_letter[OF _ letters]
  show ?thesis
  proof (cases "0x1100 \<le> uint a \<and> uint a \<le> 0x1112 \<and> 0x1161 \<le> uint b \<and> uint b \<le> 0x1175")
    case True
    define l v where "l = uint a - 0x1100" "v = uint b - 0x1161"
    have lv: "0 \<le> l" "l < 19" "0 \<le> v" "v < 21" using True unfolding l_v_def by linarith+
    have ab: "word_of_int (0x1100 + l) = a" "word_of_int (0x1161 + v) = b" by (simp_all add: l_v_def)
    from ComposeHangul_LV[OF lv] s have s': "s = word_of_int (0xAC00 + (588 * l + 28 * v + 0))" by (simp only: ab option.inject add_0_right)
    have "uint s = 0xAC00 + (588 * l + 28 * v + 0)" unfolding s' by (rule uint_small; use lv in linarith)
    from Decompose_parts[OF lv _ _ this, of T] have "Decompose T s = [a, b]" using ab by simp
    moreover have "is_letter a" "is_letter b" using True by (simp_all add: is_letter_def)
    ultimately show ?thesis by (simp add: letter)
  next
    case False
    from s[unfolded ComposeHangul_uint if_not_P[OF False]]
    have a: "0xAC00 \<le> uint a" "uint a \<le> 0xD7A3" "(uint a - 0xAC00) mod 28 = 0"
      and b: "0x11A8 \<le> uint b" "uint b \<le> 0x11C2" and s': "s = word_of_int (uint a + uint b - 0x11A7)"
      by (auto split: if_splits simp del: of_int_add of_int_diff)
    have "IsHangulSyllable a" using a by (simp add: IsHangulSyllable_iff)
    then obtain l v t where p: "0 \<le> l" "l < 19" "0 \<le> v" "v < 21" "0 \<le> t" "t < 28"
      and ua: "uint a = 0xAC00 + (588 * l + 28 * v + t)" by (rule syllable_parts)
    have "(588 * l + 28 * v + t) mod 28 = t" using mod_mult_self4[of 28 "21 * l + v" t] p(5,6) by (simp add: algebra_simps)
    then have t: "t = 0" using a(3) ua by simp
    define d where "d = uint b - 0x11A7"
    have d: "0 < d" "0 \<le> d" "d < 28" using b unfolding d_def by linarith+
    have us: "uint s = 0xAC00 + (588 * l + 28 * v + d)"
    proof -
      have "uint s = uint a + uint b - 0x11A7" unfolding s' by (rule uint_small; use a b in linarith)
      then show ?thesis using ua t d_def by linarith
    qed
    have "word_of_int (0x11A7 + d) = b" by (simp add: d_def)
    moreover have "is_letter b" using b by (simp add: is_letter_def)
    ultimately show ?thesis
      using Decompose_parts[OF p ua, of T] Decompose_parts[OF p(1-4) d(2,3) us, of T] t d(1)
      by (simp add: letter del: of_int_add)
  qed
qed

end
