(* ===== verification/NormalForms.thy ===== *)
theory NormalForms
  imports Normalisation
begin

section \<open>The composed string\<close>

text \<open>
  The iterator \<open>Recompositions\<close> as a sequence of steps: each takes a character off what is left without
  changing the canonical decomposition of the whole. What is left in a state is the composed character, the
  characters that are held back, and the source.
\<close>

definition NFD :: "NormTables \<Rightarrow> UTF32 list \<Rightarrow> UTF32 list" where
  "NFD T s = canonical_order (full_decomposition T s)"

lemma NFD_Cons: "NFD T (c # s) = foldr place (Decompose T c) (NFD T s)"
  by (simp add: NFD_def canonical_order_append)

text \<open>What the generated tables state of Unicode: decompositions are full, a pair of characters has the
  decomposition of its composition, letters of Hangul are not decomposed.\<close>

definition tables_ok :: "NormTables \<Rightarrow> bool" where
  "tables_ok T \<longleftrightarrow>
     (\<forall>c d. CanonicalFullyDecomposed T c = Some d \<longrightarrow> (\<forall>x \<in> set d. Decompose T x = [x])) \<and>
     (\<forall>a b c. CompositionTable T a b = Some c \<longrightarrow> NFD T [c] = NFD T [a, b]) \<and>
     (\<forall>c. is_letter c \<longrightarrow> CanonicalFullyDecomposed T c = None)"

lemma Compose_NFD:
  assumes "tables_ok T" "Compose T a b = Some c"
  shows "NFD T (c # s) = NFD T (a # b # s)"
proof -
  have "NFD T [c] = NFD T [a, b]"
  proof (cases "ComposeHangul a b")
    case None
    then show ?thesis using assms by (simp add: Compose_def tables_ok_def)
  next
    case (Some h)
    then have "Decompose T c = Decompose T a @ Decompose T b"
      using assms by (intro ComposeHangul_decomposes) (simp_all add: Compose_def tables_ok_def)
    then show ?thesis by (simp add: NFD_def)
  qed
  then show ?thesis
    using canonical_order_context[of "[]" "Decompose T c" "full_decomposition T s"]
      canonical_order_context[of "[]" "Decompose T a @ Decompose T b" "full_decomposition T s"]
    by (simp add: NFD_def)
qed

lemma Decompose_full:
  assumes "tables_ok T" "x \<in> set (Decompose T c)"
  shows "Decompose T x = [x]"
proof -
  have letters: "CanonicalFullyDecomposed T c = None" if "is_letter c" for c using that assms(1) by (simp add: tables_ok_def)
  show ?thesis
  proof (cases "IsHangulSyllable c")
    case True
    then have "is_letter x" using assms(2) by (rule syllable_letters)
    then show ?thesis using letters by (simp add: Decompose_letter)
  next
    case False
    then show ?thesis using assms by (auto simp: Decompose_def tables_ok_def split: if_splits option.splits)
  qed
qed

subsection \<open>Moving a character forward\<close>

definition decomposed :: "NormTables \<Rightarrow> UTF32 list \<Rightarrow> bool" where
  "decomposed T s \<longleftrightarrow> (\<forall>c \<in> set s. Decompose T c = [c])"

lemma NFD_forward:
  assumes "decomposed T (b @ [c])" "\<forall>x \<in> set b. ccc x \<noteq> 0 \<and> ccc x < ccc c"
  shows "NFD T (b @ c # s) = NFD T (c # b @ s)"
  using assms
proof (induction b)
  case (Cons x b)
  then have x: "Decompose T x = [x]" "Decompose T c = [c]" "ccc x \<noteq> 0" "ccc x < ccc c" "ccc c \<noteq> 0"
    by (auto simp: decomposed_def)
  have "NFD T (b @ c # s) = NFD T (c # b @ s)" using Cons by (simp add: decomposed_def)
  then show ?case using x place_swap[of c x] by (simp add: NFD_Cons)
qed simp

lemma in_order_run:
  assumes "in_order (b @ s)" "b \<noteq> []" "\<forall>x \<in> set b. ccc x \<noteq> 0" "x \<in> set b"
  shows "ccc x \<le> ccc (last b)"
  using assms
proof (induction b arbitrary: x)
  case (Cons y b)
  show ?case
  proof (cases b)
    case (Cons z b')
    with Cons.prems have zy: "ccc y \<le> ccc z" "in_order (b @ s)" by auto
    have "ccc z \<le> ccc (last b)" using Cons.IH[of z] Cons.prems Cons zy by simp
    with zy Cons.IH[of x] Cons.prems Cons show ?thesis by auto
  qed (use Cons.prems in simp)
qed simp

lemma in_order_appendD: "in_order (s @ s') \<Longrightarrow> in_order s'"
  by (induction s) (auto dest: in_order_tl)

lemma in_order_remove: "in_order (b @ c # s) \<Longrightarrow> ccc c \<noteq> 0 \<Longrightarrow> in_order (b @ s)"
proof (induction b)
  case Nil
  then show ?case using in_order_tl by simp
next
  case (Cons x b)
  then have IH: "in_order (b @ s)" using in_order_tl by simp
  show ?case
  proof (cases b)
    case Nil
    then show ?thesis using Cons.prems IH by (cases s) auto
  next
    case (Cons y b')
    then show ?thesis using Cons.prems IH by simp
  qed
qed

subsection \<open>The states of the iterator\<close>

definition held :: "Recompositions \<Rightarrow> UTF32 list" where
  "held st = (case composee st of None \<Rightarrow> [] | Some k \<Rightarrow> [k])"

lemma held_simps [simp]:
  "held (st\<lparr>composee := Some k\<rparr>) = [k]" "held (st\<lparr>rbuffer := b, lastccc := l\<rparr>) = held st"
  "held (st\<lparr>source := s\<rparr>) = held st" "composee st = Some k \<Longrightarrow> held st = [k]" "composee st = None \<Longrightarrow> held st = []"
  by (simp_all add: held_def)

definition left_over :: "Recompositions \<Rightarrow> UTF32 list" where
  "left_over st = (case state_v st of
     COMPOSING \<Rightarrow> held st @ rbuffer st @ source st
   | PURGING \<Rightarrow> drop (state_sz st) (rbuffer st) @ held st @ source st
   | FINISHED \<Rightarrow> drop (state_sz st) (rbuffer st) @ held st)"

definition composing_ok :: "NormTables \<Rightarrow> UTF32 list \<Rightarrow> Recompositions \<Rightarrow> bool" where
  "composing_ok T s st \<longleftrightarrow> in_order (rbuffer st @ s) \<and> decomposed T (rbuffer st @ s) \<and>
     (case lastccc st of
        None \<Rightarrow> rbuffer st = []
      | Some l \<Rightarrow> composee st \<noteq> None \<and> rbuffer st \<noteq> [] \<and> (\<forall>x \<in> set (rbuffer st). ccc x \<noteq> 0) \<and> l = ccc (last (rbuffer st)))"

definition state_ok :: "NormTables \<Rightarrow> Recompositions \<Rightarrow> bool" where
  "state_ok T st \<longleftrightarrow> (case state_v st of
     COMPOSING \<Rightarrow> composing_ok T (source st) st
   | PURGING \<Rightarrow> lastccc st = None \<and> in_order (source st) \<and> decomposed T (source st)
   | FINISHED \<Rightarrow> composee st = None)"

lemma ComposeLoop_ok:
  assumes T: "tables_ok T" and ok: "composing_ok T s st" "state_v st = COMPOSING"
  shows "case ComposeLoop T s st of
      (Some k, st') \<Rightarrow> state_ok T st' \<and> NFD T (k # left_over st') = NFD T (held st @ rbuffer st @ s) \<and>
         length (left_over st') < length (held st @ rbuffer st @ s)
    | (None, st') \<Rightarrow> NFD T (held st' @ rbuffer st') = NFD T (held st @ rbuffer st @ s) \<and>
         length (held st' @ rbuffer st') \<le> length (held st @ rbuffer st @ s) \<and> (composee st' = None \<longrightarrow> rbuffer st' = [])"
  using ok
proof (induction s arbitrary: st)
  case Nil
  then show ?case by (auto simp: composing_ok_def held_def split: option.splits)
next
  case (Cons ch s)
  let ?cc = "ccc ch"
  note ok = Cons.prems(1) and mode = Cons.prems(2)
  from ok have order: "in_order (rbuffer st @ ch # s)" and dec: "decomposed T (rbuffer st @ ch # s)"
    by (simp_all add: composing_ok_def)
  note tail = in_order_tl[OF in_order_appendD[OF order]]
  have dec_s: "decomposed T s" using dec by (simp add: decomposed_def)
  show ?case
  proof (cases "composee st")
    case None
    then have last: "lastccc st = None" "rbuffer st = []" using ok by (auto simp: composing_ok_def split: option.splits)
    show ?thesis
    proof (cases "?cc = 0")
      case True
      have "composing_ok T s (st\<lparr>composee := Some ch\<rparr>)" using last tail dec_s by (simp add: composing_ok_def)
      from Cons.IH[OF this] show ?thesis using True None last mode by (simp split: prod.splits option.splits)
    next
      case False
      then show ?thesis using None last mode tail dec_s
        by (simp add: state_ok_def composing_ok_def left_over_def held_def)
    qed
  next
    case (Some k)
    let ?composed = "\<lambda>c. st\<lparr>composee := Some c\<rparr>" and ?kept = "st\<lparr>rbuffer := rbuffer st @ [ch], lastccc := Some ?cc\<rparr>"
    have kept: ?thesis if "ComposeLoop T (ch # s) st = ComposeLoop T s ?kept" "?cc \<noteq> 0"
    proof -
      have "composing_ok T s ?kept" using ok that(2) Some by (auto simp: composing_ok_def split: option.splits)
      from Cons.IH[OF this] show ?thesis using mode unfolding that(1) by (simp split: prod.splits option.splits)
    qed
    have moved: ?thesis if "ComposeLoop T (ch # s) st = ComposeLoop T s (?composed c)" "Compose T k ch = Some c"
      "\<forall>x \<in> set (rbuffer st). ccc x \<noteq> 0 \<and> ccc x < ?cc" "rbuffer st = [] \<or> ?cc \<noteq> 0" for c
    proof -
      have "in_order (rbuffer st @ s)" using that(4) tail in_order_remove[OF order] by auto
      then have c: "composing_ok T s (?composed c)"
        using ok Some dec by (auto simp: composing_ok_def decomposed_def split: option.splits)
      have "NFD T (k # rbuffer st @ ch # s) = NFD T (k # ch # rbuffer st @ s)"
        using NFD_forward[of T "rbuffer st" ch s] dec that(3) by (simp add: NFD_Cons decomposed_def)
      also have "\<dots> = NFD T (c # rbuffer st @ s)" by (rule Compose_NFD[OF T that(2), symmetric])
      finally show ?thesis using Cons.IH[OF c] Some mode unfolding that(1) by (simp split: prod.splits option.splits)
    qed
    show ?thesis
    proof (cases "lastccc st")
      case None
      then have nobuf: "rbuffer st = []" using ok by (simp add: composing_ok_def)
      show ?thesis
      proof (cases "Compose T k ch")
        case (Some c)
        then show ?thesis using moved[of c] nobuf None \<open>composee st = Some k\<close> by (simp add: Let_def)
      next
        case nc: None
        show ?thesis
        proof (cases "?cc = 0")
          case True
          then show ?thesis using nc None nobuf \<open>composee st = Some k\<close> mode tail dec_s
            by (simp add: Let_def state_ok_def composing_ok_def left_over_def held_def)
        next
          case False
          then show ?thesis using kept nc None \<open>composee st = Some k\<close> by (simp add: Let_def)
        qed
      qed
    next
      case last: (Some l)
      then have b: "rbuffer st \<noteq> []" "\<forall>x \<in> set (rbuffer st). ccc x \<noteq> 0" "l = ccc (last (rbuffer st))"
        using ok by (simp_all add: composing_ok_def)
      show ?thesis
      proof (cases "?cc \<le> l")
        case True
        show ?thesis
        proof (cases "?cc = 0")
          case zero: True
          then show ?thesis using True last \<open>composee st = Some k\<close> mode tail dec_s dec
            by (simp add: Let_def state_ok_def left_over_def held_def)
        next
          case False
          then show ?thesis using kept True last \<open>composee st = Some k\<close> by (simp add: Let_def)
        qed
      next
        case False
        then have less: "\<forall>x \<in> set (rbuffer st). ccc x \<noteq> 0 \<and> ccc x < ?cc"
          using in_order_run[OF order b(1,2)] b(2,3) by force
        show ?thesis
        proof (cases "Compose T k ch")
          case (Some c)
          then show ?thesis using moved[of c] less False last \<open>composee st = Some k\<close> by (simp add: Let_def)
        next
          case None
          then show ?thesis using kept False last \<open>composee st = Some k\<close> by (simp add: Let_def)
        qed
      qed
    qed
  qed
qed

lemma FinishedStep_ok:
  assumes "state_v st = FINISHED" "composee st = None"
  shows "case FinishedStep st of
      (None, st') \<Rightarrow> left_over st = []
    | (Some k, st') \<Rightarrow> state_ok T st' \<and> left_over st = k # left_over st'"
  using assms by (auto simp: FinishedStep_def left_over_def state_ok_def held_def Cons_nth_drop_Suc)

text \<open>A step returns the next character, and what is left gets shorter.\<close>

lemma ComposingStep_ok:
  assumes T: "tables_ok T" and st: "state_v st = COMPOSING" "composing_ok T (source st) st"
  shows "case ComposingStep T st of
      (None, st') \<Rightarrow> NFD T [] = NFD T (left_over st)
    | (Some k, st') \<Rightarrow> state_ok T st' \<and> NFD T (k # left_over st') = NFD T (left_over st) \<and>
        length (left_over st') < length (left_over st)"
proof -
  have lo: "left_over st = held st @ rbuffer st @ source st" using st(1) by (simp add: left_over_def)
  note loop = ComposeLoop_ok[OF T st(2,1), folded lo]
  obtain r st' where r: "ComposeLoop T (source st) st = (r, st')" by (cases "ComposeLoop T (source st) st")
  show ?thesis
  proof (cases r)
    case None
    then show ?thesis using loop r
      by (cases "composee st'") (auto simp: ComposingStep_def Let_def FinishedStep_def held_def state_ok_def left_over_def)
  next
    case (Some k)
    then show ?thesis using loop r by (simp add: ComposingStep_def)
  qed
qed

lemma R_Next_ok:
  assumes T: "tables_ok T" and st: "state_ok T st"
  shows "case R_Next T st of
      (None, st') \<Rightarrow> NFD T [] = NFD T (left_over st)
    | (Some k, st') \<Rightarrow> state_ok T st' \<and> NFD T (k # left_over st') = NFD T (left_over st) \<and>
        length (left_over st') < length (left_over st)"
proof (cases "state_v st")
  case COMPOSING
  then show ?thesis using ComposingStep_ok[OF T COMPOSING] st by (simp add: R_Next_def state_ok_def)
next
  case FINISHED
  then have "composee st = None" using st by (simp add: state_ok_def)
  from FinishedStep_ok[OF FINISHED this, of T] FINISHED show ?thesis
    by (simp add: R_Next_def split: prod.splits option.splits)
next
  case PURGING
  show ?thesis
  proof (cases "length (rbuffer st) \<le> state_sz st")
    case True
    let ?st = "st\<lparr>rbuffer := [], state_v := COMPOSING\<rparr>"
    have "composing_ok T (source ?st) ?st" using st PURGING by (simp add: state_ok_def composing_ok_def)
    have lo: "left_over ?st = left_over st" using True PURGING by (simp add: left_over_def held_def)
    from ComposingStep_ok[OF T _ \<open>composing_ok T (source ?st) ?st\<close>, unfolded lo] show ?thesis
      using True PURGING by (simp add: R_Next_def PurgingStep_def)
  next
    case False
    then have "drop (state_sz st) (rbuffer st) = rbuffer st ! state_sz st # drop (Suc (state_sz st)) (rbuffer st)"
      by (simp add: Cons_nth_drop_Suc)
    then show ?thesis using False PURGING st
      by (simp add: R_Next_def PurgingStep_def left_over_def held_def state_ok_def)
  qed
qed

lemma R_GetLoop_returns: "tables_ok T \<Longrightarrow> state_ok T st \<Longrightarrow> \<exists>r. R_GetLoop T st = Some r \<and> NFD T r = NFD T (left_over st)"
proof (induction "length (left_over st)" arbitrary: st rule: less_induct)
  case less
  obtain k st' where n: "R_Next T st = (k, st')" by (cases "R_Next T st")
  show ?case
  proof (cases k)
    case None
    then show ?thesis using R_Next_ok[OF less.prems] n by (subst R_GetLoop.simps) simp
  next
    case (Some c)
    with R_Next_ok[OF less.prems] n have st': "state_ok T st'" "NFD T (c # left_over st') = NFD T (left_over st)"
      "length (left_over st') < length (left_over st)" by simp_all
    from less.hyps[OF st'(3) less.prems(1) st'(1)] obtain r where
      "R_GetLoop T st' = Some r" "NFD T r = NFD T (left_over st')" by blast
    then have "R_GetLoop T st = Some (c # r)" "NFD T (c # r) = NFD T (left_over st)"
      using n Some st'(2) by (subst R_GetLoop.simps, simp, simp add: NFD_Cons[symmetric]) (simp add: NFD_Cons)
    then show ?thesis by blast
  qed
qed

lemma NFD_decomposed: "decomposed T s \<Longrightarrow> in_order s \<Longrightarrow> NFD T s = s"
proof -
  assume "decomposed T s" "in_order s"
  then have "full_decomposition T s = s" by (induction s) (auto simp: decomposed_def in_order_tl)
  then show ?thesis using \<open>in_order s\<close> by (simp add: NFD_def canonical_order_in_order)
qed

text \<open>C27: canonical composition returns, and keeps a string canonically equivalent: the result has the same
  canonical decomposition as the string it was made from.\<close>

theorem CanonicalRecompose_equivalent:
  assumes T: "tables_ok T"
  shows "\<exists>r. CanonicalRecompose T s = Some r \<and> D_Get T r = D_Get T s"
proof -
  let ?d = "canonical_order (full_decomposition T s)"
  let ?st = "\<lparr>source = ?d, state_sz = 0, state_v = COMPOSING, rbuffer = [], composee = None, lastccc = None\<rparr>"
  have "decomposed T (full_decomposition T s)"
    using Decompose_full[OF T] by (auto simp: decomposed_def full_decomposition_def)
  then have d: "decomposed T ?d" by (simp add: decomposed_def)
  then have "state_ok T ?st" by (simp add: state_ok_def composing_ok_def)
  from R_GetLoop_returns[OF T this] obtain r where r: "R_Get T ?d = Some r" "NFD T r = NFD T (left_over ?st)"
    by (auto simp: R_Get_def)
  have "NFD T r = ?d" using r(2) NFD_decomposed[OF d] by (simp add: left_over_def held_def)
  with r(1) show ?thesis by (simp add: CanonicalRecompose_def D_Get_delivers NFD_def)
qed

text \<open>Tables with one composed character, a letter with an acute accent.\<close>

definition sample_tables :: NormTables where
  "sample_tables = \<lparr>COMPOSITION_TABLE_SALT = [0], COMPOSITION_TABLE_KV = [(0x650301, 0xE9)],
     CompositionTableAstral = (\<lambda>c1 c2. None), CANONICAL_DECOMPOSED_SALT = [0],
     CANONICAL_DECOMPOSED_KV = [(0xE9, 0, 2)], CANONICAL_DECOMPOSED_CHARS = [0x65, 0x301]\<rparr>"

lemma MetaLookup_single: "MetaLookup x [0] [(k, v)] = (if x = k then Some v else None)"
proof -
  have "MyHash x s 1 < 1" for s using MyHash_bound[of 1 x s] by (simp add: word_less_def)
  then have "MyHash x s 1 = 0" for s by simp
  then show ?thesis by (simp add: MetaLookup_def)
qed

lemma pair_key:
  fixes a b :: UTF32
  assumes "a < 0x10000" "b < 0x10000"
  shows "uint (push_bit 16 a OR b) = 65536 * uint a + uint b"
proof -
  have r: "0 \<le> uint a" "uint a < 65536" "0 \<le> uint b" "uint b < 65536" using assms by (simp_all add: word_less_def)
  have "uint (push_bit 16 a) = push_bit 16 (uint a)"
    using r by (simp add: push_bit_eq_mult uint_word_ariths)
  moreover have "uint b = take_bit 16 (uint b)" using r by (simp add: take_bit_eq_mod)
  then have "push_bit 16 (uint a) OR uint b = push_bit 16 (uint a) + uint b"
    by (intro disjunctive_add[symmetric]) (metis bit_push_bit_iff_int bit_take_bit_iff not_le)
  ultimately show ?thesis by (simp add: unsigned_or_eq push_bit_eq_mult)
qed

lemma sample_tables_ok: "tables_ok sample_tables"
proof -
  have D: "CanonicalFullyDecomposed sample_tables c = (if c = 0xE9 then Some [0x65, 0x301] else None)" for c
    by (simp add: CanonicalFullyDecomposed_def sample_tables_def MetaLookup_single)
  have d: "Decompose sample_tables 0x65 = [0x65]" "Decompose sample_tables 0x301 = [0x301]"
    "Decompose sample_tables 0xE9 = [0x65, 0x301]"
    by (simp_all add: Decompose_def D IsHangulSyllable_def)
  have C: "a = 0x65 \<and> b = 0x301 \<and> c = 0xE9" if "CompositionTable sample_tables a b = Some c" for a b c
  proof -
    from that have hit: "a < 0x10000" "b < 0x10000" "push_bit 16 a OR b = 0x650301" "c = 0xE9"
      by (auto simp: CompositionTable_def sample_tables_def MetaLookup_single split: if_splits)
    have "65536 * uint a + uint b = 0x650301" using pair_key[OF hit(1,2)] hit(3) by simp
    moreover have "0 \<le> uint b" "uint b < 65536" using hit(2) by (simp_all add: word_less_def)
    moreover from this have "(65536 * uint a + uint b) div 65536 = uint a" "(65536 * uint a + uint b) mod 65536 = uint b" by simp_all
    ultimately have "uint a = 0x65" "uint b = 0x301" by simp_all
    with hit(4) show ?thesis by (simp add: word_uint_eq_iff)
  qed
  have "CanonicalFullyDecomposed sample_tables c = None" if "is_letter c" for c
    using that by (auto simp: D is_letter_def)
  moreover have "NFD sample_tables [c] = NFD sample_tables [a, b]" if "CompositionTable sample_tables a b = Some c" for a b c
    using C[OF that] d by (simp add: NFD_def)
  ultimately show ?thesis using d by (auto simp: tables_ok_def D split: if_splits)
qed

lemma CanonicalRecompose_equivalent_witness:
  "\<exists>r. CanonicalRecompose sample_tables [0x65, 0x301] = Some r \<and> D_Get sample_tables r = D_Get sample_tables [0x65, 0x301]"
  by (rule CanonicalRecompose_equivalent[OF sample_tables_ok])

end
