(* ===== verification/Spec2Isabelle.thy ===== *)
theory Spec2Isabelle
  imports RangeTheorems SIntOps Overflow NumConv RangeDefects AnalysesReturn VarInitCheck StringRoundtrip UsefulnessTheorems UnicodeSets NormalForms
begin

section \<open>Static analyses and checks of the Cangjie compiler\<close>

text \<open>
  The compiler lowers a program to CHIR, a graph of basic blocks per function, and runs static
  analyses over it. This development models the code of those analyses in \<open>src/src/CHIR/Analysis\<close>
  and \<open>src/include/cangjie/CHIR/Analysis\<close>, with the parts of \<open>CHIR/Checker\<close> and \<open>CHIR/Utils\<close> that
  work with them, the conversions of strings and the check of match expressions, and proves what the
  checks and the optimisations of the compiler rely on.

  \<^bold>\<open>The parts of the program and how they interact.\<close> Two stacks meet in the dataflow engine.

  The numeric stack. \<open>SInt\<close> (\<open>SInt.cpp\<close>) is an integer of 8 to 64 bits that is read as signed or as
  unsigned by the operation applied to it. A \<open>ConstantRange\<close> (\<open>ConstantRange.cpp\<close>) is a pair of
  \<open>SInt\<close> bounds, a half-open interval that may wrap around. A \<open>SIntDomain\<close> (\<open>SIntDomain.cpp\<close>) is a
  range together with bounds on the difference to other values of the function, a \<open>BoolDomain\<close>
  (\<open>BoolDomain.cpp\<close>) a set of truth values. The value-range analysis (\<open>ValueRangeAnalysis.cpp\<close>)
  keeps an abstract value for each value of a function, evaluates every expression over them, asks
  the overflow checker (\<open>OverflowChecking.cpp\<close>) about single values, decides branches, and reports
  divisions by zero and overflows.

  The dataflow stack. \<open>Engine.h\<close> iterates any analysis that implements the interface \<open>Analysis.h\<close> to
  a fixpoint: the blocks of the function in the topological order of \<open>CHIR/Utils/Utils.cpp\<close>, again
  whenever a join changes an entry state, then the bodies of the lambdas that were met, each with the
  state of its latest creation. \<open>GenKillAnalysis.h\<close> is the domain of bit vectors; on it stand
  \<open>MaybeUninitAnalysis.cpp\<close> and \<open>MaybeInitAnalysis.cpp\<close>. \<open>ReachingDefinitionAnalysis.cpp\<close> stands on
  the flat lattice of \<open>FlatSet.h\<close>. \<open>Results.h\<close> replays the transfer functions
  over the final states and hands each expression to the actions of a client; the client modelled here
  is \<open>VarInitCheck.cpp\<close>, which reports uses of variables and members that may not be initialised and
  assignments to \<open>let\<close> variables that may be.

  Beside the two stacks stand the conversions of strings (\<open>Basic/StringConvertor.cpp\<close>) that the front
  end uses for literals and for texts from outside, and the one check of the semantic analysis that is
  a closed algorithm (\<open>Sema/PatternUsefulness.cpp\<close>): whether the cases of a \<open>match\<close> are reachable and cover
  every value of the selector. It asks the type checker about types through a record of functions.
  \<open>Utils/Unicode.cpp\<close> and \<open>UnicodeNFC.cpp\<close> decide which code points an identifier may hold and bring
  identifiers to normalisation form C.

  \<^bold>\<open>Which theory models what.\<close> Definitions carry the names of the source; a prefix tells apart
  members of the same name (\<open>SInt_\<close>, \<open>CR_\<close> for \<open>ConstantRange\<close>, \<open>SD_\<close> for \<open>SIntDomain\<close>, \<open>BD_\<close> for
  \<open>BoolDomain\<close>, \<open>VD_\<close> for \<open>ValueDomain\<close>, \<open>FS_\<close> for \<open>FlatSet\<close>, \<open>GK_\<close>, \<open>MU_\<close>, \<open>MI_\<close>, \<open>RD_\<close> for the
  domains and analyses of the dataflow stack, \<open>TS_\<close> for the loops of \<open>TopologicalSort\<close>).
  \<^item> \<open>Prelude\<close>: collections of rewrite rules, words as integers. \<open>BitArith\<close>: \<open>Arithmetic.h\<close>.
  \<^item> \<open>SIntDefs\<close>, \<open>SIntOps\<close>, \<open>SIntArith\<close>, \<open>SIntParse\<close>: the class \<open>SInt\<close>, a record of a width and a
    64-bit word. \<open>SIntSem\<close> gives each operation its integer meaning and the invariant that the bits
    above the width are clear.
  \<^item> \<open>RangeDefs\<close>, \<open>RangeArithDefs\<close>: the class \<open>ConstantRange\<close>. \<open>Ranges\<close>, \<open>RangeSets\<close>,
    \<open>RangeArith\<close>, \<open>RangeDiv\<close>, \<open>RangeSDiv\<close> say which set of numbers each operation returns;
    \<open>RangeTheorems\<close> collects the contracts.
  \<^item> \<open>OverflowDefs\<close>, \<open>Overflow\<close>: \<open>OverflowChecking.h\<close> and \<open>.cpp\<close>, against exact arithmetic.
  \<^item> \<open>NumConvDefs\<close>, \<open>Intervals\<close>, \<open>NumConv\<close>: \<open>NumericConversion\<close> and its cases, the conversion of a
    range to another width and signedness.
  \<^item> \<open>BoolDom\<close>; \<open>SIntDomDefs\<close>, \<open>SIntDom\<close>, \<open>SIntDomCmp\<close>, \<open>SIntDomMerge\<close>: the two abstract domains,
    with the concretisations \<open>bool_gamma\<close> and \<open>SD_gamma\<close>.
  \<^item> \<open>ValueRangeDefs\<close>, \<open>ValueRange\<close>: the transfer functions over the map of a state, and the relation
    \<open>models\<close> between a state and the concrete values of an execution. \<open>RangeDefects\<close>: three programs
    on which the analysis is wrong.
  \<^item> \<open>Cfg\<close>: the intermediate representation as the analyses read it (a program is a table of blocks;
    pointers to blocks, values and lambdas are numbers) and \<open>TopologicalSort\<close>; \<open>TopoOrder\<close>.
  \<^item> \<open>Engine\<close>: \<open>Analysis.h\<close> as a record of functions, the engine's state as a record, one round of
    the worklist, the loops. \<open>EngineFix\<close>, \<open>EngineInv\<close>, \<open>EngineTotal\<close>: the locales \<open>dataflow\<close>,
    \<open>bounded_dataflow\<close> and \<open>undirected\<close>, which say what an analysis promises and prove what the
    engine then delivers.
  \<^item> \<open>GenKillDefs\<close>, \<open>GenKill\<close>: bit vectors, the two initialisation analyses, the locale \<open>genkill\<close>, a
    sublocale of \<open>undirected\<close>. \<open>VarInit\<close>, \<open>VarInitTheorems\<close>: their interpretations and exactness.
  \<^item> \<open>ReachDefs\<close>, \<open>Reach\<close>, \<open>ReachTheorems\<close>: reaching definitions, their interpretation, and their
    soundness for executions. \<open>AnalysesReturn\<close>: termination.
  \<^item> \<open>Visit\<close>, \<open>VisitReports\<close>: \<open>Results.h\<close>, visits with actions, and the locale \<open>reporting\<close>, which says
    which states an action sees. \<open>VarInitCheckDefs\<close>, \<open>VarInitCheck\<close>: \<open>VarInitCheck.cpp\<close> with its
    diagnostics as a datatype, the two interpretations of \<open>reporting\<close>, and what is reported.
  \<^item> \<open>StringConvertor\<close>, \<open>StringRoundtrip\<close>: UTF-8, escapes and the guess of an encoding.
  \<^item> \<open>UsefulnessDefs\<close>: destructed patterns, pattern stacks, the matrix, the search for witnesses and the
    check of a match expression. \<open>Usefulness\<close>: values, what a pattern matches, what the model asks of the
    type checker (\<open>env_ok\<close>, \<open>typing_laws\<close>), soundness of the search. \<open>UsefulnessReturns\<close>: its termination.
    \<open>UsefulnessTheorems\<close>: the same in terms of the patterns of the syntax tree, and two defects.
  \<^item> \<open>UnicodeTables\<close>, \<open>UnicodeSets\<close>: the tables of code points, their search, and what the sets contain.
    \<open>UnicodeNFC\<close>: decomposition, ordering and composition as the two iterators of the source.
    \<open>CanonicalOrder\<close>, \<open>Normalisation\<close>, \<open>NormalForms\<close>: the reference by exchanges of neighbours, Hangul,
    and what the iterators deliver.

  \<^bold>\<open>What the lemmas show.\<close> The operations of \<open>SInt\<close> keep its invariant and compute the integer
  operation modulo the width, or report overflow exactly. Each operation of \<open>ConstantRange\<close> returns a
  range that holds every result (and, for sums, comparisons, intersections and unions, exactly what is
  claimed). The overflow checker agrees with exact arithmetic at every type and strategy. An abstract
  value computed from abstract operands admits every concrete result; a step of the value-range
  analysis keeps the relation to the execution, and its diagnostics are right. The topological order
  holds each reachable block once, after one of its predecessors. The engine returns on every
  control-flow graph for an analysis of bounded height and delivers a fixpoint. The initialisation
  analyses are exact: they say \<open>maybe\<close> if and only if some path does it. A reaching definition holds
  in every execution. The check of initialisation reports a use exactly where the
  analysis says \<open>maybe uninitialised\<close>, so that with the exactness of the analysis a use is reported if
  and only if some path reaches it without a store, apart from one defect that is proved on a program.
  Decoding inverts encoding for every code point, reading a literal inverts escaping it.
  A match expression that passes its check covers every value, a case that is called unreachable is
  never selected when the types it calls apart are, and the check returns; a match that is exhaustive
  and rejected, and a case that is selected and called unreachable, are proved as well.
  The searches of the Unicode tables are exact; decomposition delivers the canonical order of the full
  decomposition, and composition keeps a string canonically equivalent, for tables with the laws
  \<open>tables_ok\<close> of Unicode.

  \<^bold>\<open>Bounds and fuel.\<close> Loops over data are structural or have a measure: the bit-counting loops halve
  their word, \<open>TopologicalSort\<close> visits each block of the table once. The worklist loops are partial
  functions, so that not returning is \<^const>\<open>None\<close>, and \<open>analyses_return\<close> proves that they return.
  \<open>RootRef\<close> and \<open>GetLambdaCapturedVarsRecursively\<close> take the number of local variables and of lambdas
  as fuel: a chain of element references has no cycle, and a lambda is visited once, so neither goes
  deeper. The visit of initialiser bodies is a partial function as well:
  it is \<^const>\<open>None\<close> if initialisers call each other without end. \<open>GetElemRefViaDefMember\<close> follows a chain of
  element references, with the number of local variables plus one as fuel.
  The first argument of \<open>FindWitnesses\<close> bounds the depth of the recursion; \<open>match_check_returns\<close> proves
  that some bound is enough and that the result does not depend on it. \<open>IsClosedSealedHierarchy\<close> takes the
  number of classes, since a class is not its own subtype.

  \<^bold>\<open>Reading of the source.\<close> \<open>CJC_ASSERT\<close> and \<open>CJC_ABORT\<close> do nothing in a release build and are left
  out; where the code would then read out of bounds or divide by zero the model is \<^const>\<open>None\<close> or the
  theorem has the condition as a hypothesis. Hash maps that are only looked up are association lists
  or functions; a vector that is filled and indexed is a list.

  \<^bold>\<open>Not modelled.\<close> Debug output and \<open>ToString\<close>. Of the value-range analysis: references, memory
  expressions, lambdas, global variables and the pool of states, so that its transfer functions are
  not yet an instance of the engine's interface. Of CHIR: its construction from the syntax tree,
  serialisation, the other analyses and the optimisations. Of the compiler: lexer, parser, macro
  expansion, the rest of semantic analysis, code generation, driver and incremental compilation, which are large
  graphs of mutable objects, process control or generated code. Of \<open>VarInitCheck\<close>: the choice of the functions of a package and the texts
  of the messages. Of \<open>StringConvertor\<close>: the conversions between code pages, which call the operating
  system. Of \<open>PatternUsefulness.cpp\<close>: the texts of patterns in messages; subtyping, substitution and the
  instantiated types of enum constructors belong to the type checker. Of Unicode: display widths, the
  converters of LLVM between bytes and code points, and the generated tables of compositions and
  decompositions, which are a parameter.
\<close>

end
